(* ===== verification/Prelude.thy ===== *)
theory Prelude
  imports Main "HOL-Library.Word" "HOL-Library.Monad_Syntax"
begin

text \<open>
  The ground shared by all components.

  \<^item> Machine integers: \<open>u8\<close>, \<open>u16\<close>, \<open>u32\<close>, \<open>u64\<close> are words of HOL-Library.Word, so
    every \<open>+\<close>, \<open>-\<close> and \<open>*\<close> wraps as the C code's unsigned arithmetic does; an
    \<open>int32_t\<close> is a \<open>u32\<close> read through \<open>sint\<close>. A C \<open>int\<close> return value is an \<open>int\<close>.
  \<^item> Memory: a buffer is a list of bytes (or of words, for arrays of 32-bit integers).
    Every access names its offset and length; an access outside the buffer has the
    value \<open>None\<close>.
  \<^item> Computations: a C function is a function into \<open>'a option\<close>. \<open>None\<close> means that the
    code does something C gives no meaning to (an access outside a buffer, a call
    through a NULL pointer) or does not return; \<open>Some\<close> is a normal return, error codes
    included.
  \<^item> \<open>returns m Q\<close>: the computation returns and its result satisfies \<open>Q\<close> (total
    correctness), with one rule per construct of the option monad.
  \<^item> Little-endian encoding of words, as a contract (\<open>le_codec\<close>) interpreted for the
    32-bit and the 64-bit encoders.
\<close>

unbundle bit_operations_syntax

type_synonym u8 = "8 word"
type_synonym u16 = "16 word"
type_synonym u32 = "32 word"
type_synonym u64 = "64 word"
type_synonym byte = u8
type_synonym bytes = "u8 list"

named_theorems ret_simps "weakest preconditions of the option monad and of the memory accesses"

abbreviation (input) EIO :: int where "EIO \<equiv> 5"
abbreviation (input) ENOMEM :: int where "ENOMEM \<equiv> 12"
abbreviation (input) ENODEV :: int where "ENODEV \<equiv> 19"
abbreviation (input) EINVAL :: int where "EINVAL \<equiv> 22"
abbreviation (input) EROFS :: int where "EROFS \<equiv> 30"
abbreviation (input) EBADMSG :: int where "EBADMSG \<equiv> 74"
abbreviation (input) EUCLEAN :: int where "EUCLEAN \<equiv> 117"
abbreviation (input) ENOTSUPP :: int where "ENOTSUPP \<equiv> 524"

section \<open>Memory accesses\<close>

definition mem_read :: "nat \<Rightarrow> nat \<Rightarrow> 'a list \<Rightarrow> 'a list option" where
  "mem_read off n buf = (if off + n \<le> length buf then Some (take n (drop off buf)) else None)"

definition mem_write :: "nat \<Rightarrow> 'a list \<Rightarrow> 'a list \<Rightarrow> 'a list option" where
  "mem_write off src buf =
     (if off + length src \<le> length buf
      then Some (take off buf @ src @ drop (off + length src) buf) else None)"

definition arr_get :: "'a list \<Rightarrow> nat \<Rightarrow> 'a option" where
  "arr_get xs i = (if i < length xs then Some (xs ! i) else None)"

definition arr_set :: "'a list \<Rightarrow> nat \<Rightarrow> 'a \<Rightarrow> 'a list option" where
  "arr_set xs i v = (if i < length xs then Some (xs[i := v]) else None)"

section \<open>Little-endian encoding\<close>

primrec enc_le :: "nat \<Rightarrow> 'a::len word \<Rightarrow> bytes" where
  "enc_le 0 w = []"
| "enc_le (Suc n) w = ucast w # enc_le n (drop_bit 8 w)"

primrec dec_le :: "bytes \<Rightarrow> 'a::len word" where
  "dec_le [] = 0"
| "dec_le (b # bs) = ucast b OR push_bit 8 (dec_le bs)"

abbreviation enc32 :: "u32 \<Rightarrow> bytes" where "enc32 \<equiv> enc_le 4"
abbreviation enc64 :: "u64 \<Rightarrow> bytes" where "enc64 \<equiv> enc_le 8"
abbreviation dec32 :: "bytes \<Rightarrow> u32" where "dec32 \<equiv> dec_le"
abbreviation dec64 :: "bytes \<Rightarrow> u64" where "dec64 \<equiv> dec_le"

text \<open>An array of 32-bit integers as the bytes it occupies, and back.\<close>

definition enc_words :: "u32 list \<Rightarrow> bytes" where
  "enc_words ws = concat (map enc32 ws)"

primrec dec_words :: "nat \<Rightarrow> bytes \<Rightarrow> u32 list" where
  "dec_words 0 bs = []"
| "dec_words (Suc n) bs = dec32 (take 4 bs) # dec_words n (drop 4 bs)"

section \<open>Loops\<close>

text \<open>
  A C loop as a function of its body: the body maps the loop's variables to \<open>Inr\<close> of their
  next values or to \<open>Inl\<close> of the result the loop is left with (the guard turned false,
  a \<^verbatim>\<open>break\<close>, a \<^verbatim>\<open>return\<close>). A loop that never leaves has the value \<open>None\<close>.
\<close>

partial_function (option) loop :: "('s \<Rightarrow> ('r + 's) option) \<Rightarrow> 's \<Rightarrow> 'r option" where
  "loop body s = body s \<bind> (\<lambda>x. case x of Inl r \<Rightarrow> Some r | Inr s' \<Rightarrow> loop body s')"

section \<open>Total correctness in the option monad\<close>

definition returns :: "'a option \<Rightarrow> ('a \<Rightarrow> bool) \<Rightarrow> bool" where
  "returns m Q \<longleftrightarrow> (case m of None \<Rightarrow> False | Some x \<Rightarrow> Q x)"

lemma returns_Some [simp, ret_simps]: "returns (Some x) Q \<longleftrightarrow> Q x"
  by (simp add: returns_def)

lemma returns_None [simp, ret_simps]: "\<not> returns None Q"
  by (simp add: returns_def)

lemma returns_bind [simp, ret_simps]:
  "returns (m \<bind> f) Q \<longleftrightarrow> returns m (\<lambda>x. returns (f x) Q)"
  by (cases m) simp_all

lemma returns_if [ret_simps]:
  "returns (if b then m else n) Q \<longleftrightarrow> (b \<longrightarrow> returns m Q) \<and> (\<not> b \<longrightarrow> returns n Q)"
  by simp

lemma returns_case_prod [ret_simps]:
  "returns (case p of (a, b) \<Rightarrow> f a b) Q \<longleftrightarrow> (\<forall>a b. p = (a, b) \<longrightarrow> returns (f a b) Q)"
  by (cases p) simp

lemma returns_mono:
  assumes "returns m P" and "\<And>x. P x \<Longrightarrow> Q x"
  shows "returns m Q"
  using assms by (cases m) auto

lemma returns_conj:
  "returns m (\<lambda>x. P x \<and> Q x) \<longleftrightarrow> returns m P \<and> returns m Q"
  by (cases m) auto

lemma returns_iff: "returns m Q \<longleftrightarrow> (\<exists>x. m = Some x \<and> Q x)"
  by (cases m) auto

lemma returnsE:
  assumes "returns m Q" obtains x where "m = Some x" "Q x"
  using assms by (auto simp: returns_iff)

lemma returns_SomeD: "returns m Q \<Longrightarrow> m = Some x \<Longrightarrow> Q x"
  by simp

lemma returns_pair_iff:
  "returns m (\<lambda>(a, b). Q a b) \<longleftrightarrow> (\<exists>a b. m = Some (a, b) \<and> Q a b)"
  by (cases m) auto

text \<open>
  The companion for partial correctness: if the computation returns, its result satisfies
  the predicate.
\<close>

definition yields :: "'a option \<Rightarrow> ('a \<Rightarrow> bool) \<Rightarrow> bool" where
  "yields m Q \<longleftrightarrow> (\<forall>x. m = Some x \<longrightarrow> Q x)"

named_theorems yield_simps

lemma yields_Some [yield_simps]: "yields (Some x) Q \<longleftrightarrow> Q x"
  by (simp add: yields_def)

lemma yields_None [yield_simps]: "yields None Q"
  by (simp add: yields_def)

lemma yields_bind [yield_simps]: "yields (m \<bind> f) Q \<longleftrightarrow> yields m (\<lambda>x. yields (f x) Q)"
  by (cases m) (simp_all add: yields_def)

lemma yields_if [yield_simps]:
  "yields (if b then m else n) Q \<longleftrightarrow> (b \<longrightarrow> yields m Q) \<and> (\<not> b \<longrightarrow> yields n Q)"
  by simp

lemma yields_case_prod [yield_simps]:
  "yields (case p of (a, b) \<Rightarrow> f a b) Q \<longleftrightarrow> (\<forall>a b. p = (a, b) \<longrightarrow> yields (f a b) Q)"
  by (cases p) simp

lemma yieldsI: "(\<And>x. Q x) \<Longrightarrow> yields m Q"
  by (simp add: yields_def)

lemma yields_mono: "yields m P \<Longrightarrow> (\<And>x. P x \<Longrightarrow> Q x) \<Longrightarrow> yields m Q"
  by (simp add: yields_def)

lemma yieldsD: "yields m Q \<Longrightarrow> m = Some x \<Longrightarrow> Q x"
  by (simp add: yields_def)

text \<open>
  The proof rule for loops: an invariant that the body keeps while a measure decreases,
  and that gives the postcondition whenever the body leaves the loop.
\<close>

lemma loop_rule:
  fixes m :: "'s \<Rightarrow> nat"
  assumes "I s"
    and body: "\<And>s. I s \<Longrightarrow> returns (body s)
      (\<lambda>x. case x of Inl r \<Rightarrow> Q r | Inr s' \<Rightarrow> I s' \<and> m s' < m s)"
  shows "returns (loop body s) Q"
  using \<open>I s\<close>
proof (induction "m s" arbitrary: s rule: less_induct)
  case less
  from body [OF less.prems] obtain x where x: "body s = Some x"
    and post: "case x of Inl r \<Rightarrow> Q r | Inr s' \<Rightarrow> I s' \<and> m s' < m s"
    by (auto elim: returnsE)
  show ?case
  proof (cases x)
    case (Inl r)
    with x post show ?thesis by (subst loop.simps) simp
  next
    case (Inr s')
    with post have "returns (loop body s') Q" by (simp add: less.hyps)
    with x Inr show ?thesis by (subst loop.simps) simp
  qed
qed

lemma loop_continue: "body s = Some (Inr s') \<Longrightarrow> loop body s = loop body s'"
  by (subst loop.simps) simp

lemma loop_leave: "body s = Some (Inl r) \<Longrightarrow> loop body s = Some r"
  by (subst loop.simps) simp

lemma loop_fault: "body s = None \<Longrightarrow> loop body s = None"
  by (subst loop.simps) simp

text \<open>Induction over the rounds of a loop that has returned.\<close>

lemma loop_result_induct:
  assumes "loop body s = Some r" and "\<And>s r. body s = Some (Inl r) \<Longrightarrow> P s r"
    and "\<And>s s' r. body s = Some (Inr s') \<Longrightarrow> P s' r \<Longrightarrow> P s r"
  shows "P s r"
proof -
  have "b = body \<longrightarrow> P s r" if "loop b s = Some r" for b s r
  proof (rule loop.raw_induct [where P = "\<lambda>b s r. b = body \<longrightarrow> P s r", OF _ that])
    fix f b s r
    assume IH: "\<And>b s r. f b s = Some r \<Longrightarrow> b = body \<longrightarrow> P s r"
      and eq: "b s \<bind> (\<lambda>x. case x of Inl r \<Rightarrow> Some r | Inr s' \<Rightarrow> f b s') = Some r"
    then obtain x where x: "b s = Some x" "(case x of Inl r \<Rightarrow> Some r | Inr s' \<Rightarrow> f b s') = Some r"
      by (auto simp: bind_eq_Some_conv)
    then show "b = body \<longrightarrow> P s r" using IH assms(2,3) by (cases x) auto
  qed
  then show ?thesis using assms(1) by blast
qed

text \<open>A loop whose body can always continue within a set of states never returns.\<close>

lemma loop_diverges:
  assumes "I s" and body: "\<And>s. I s \<Longrightarrow> \<exists>s'. body s = Some (Inr s') \<and> I s'"
  shows "loop body s = None"
proof -
  have "body = body \<longrightarrow> \<not> I s" if "loop body s = Some r" for r
  proof (rule loop.raw_induct [where P = "\<lambda>b s r. b = body \<longrightarrow> \<not> I s", OF _ that])
    fix f b s r
    assume IH: "\<And>b s r. f b s = Some r \<Longrightarrow> b = body \<longrightarrow> \<not> I s"
      and eq: "b s \<bind> (\<lambda>x. case x of Inl r \<Rightarrow> Some r | Inr s' \<Rightarrow> f b s') = Some r"
    show "b = body \<longrightarrow> \<not> I s"
    proof (intro impI notI)
      assume b: "b = body" and "I s"
      then obtain s' where "body s = Some (Inr s')" "I s'" using body by blast
      with eq b IH [of body s' r] show False by simp
    qed
  qed
  with \<open>I s\<close> show ?thesis by (cases "loop body s") auto
qed

section \<open>Lemmas on memory accesses\<close>

lemma returns_mem_read [ret_simps]:
  "returns (mem_read off n buf) Q \<longleftrightarrow> off + n \<le> length buf \<and> Q (take n (drop off buf))"
  by (simp add: mem_read_def)

lemma returns_mem_write [ret_simps]:
  "returns (mem_write off src buf) Q \<longleftrightarrow>
     off + length src \<le> length buf \<and> Q (take off buf @ src @ drop (off + length src) buf)"
  by (simp add: mem_write_def)

lemma returns_arr_get [ret_simps]:
  "returns (arr_get xs i) Q \<longleftrightarrow> i < length xs \<and> Q (xs ! i)"
  by (simp add: arr_get_def)

lemma returns_arr_set [ret_simps]:
  "returns (arr_set xs i v) Q \<longleftrightarrow> i < length xs \<and> Q (xs[i := v])"
  by (simp add: arr_set_def)

lemma mem_write_Some:
  "mem_write off src buf = Some buf' \<longleftrightarrow>
     off + length src \<le> length buf \<and> buf' = take off buf @ src @ drop (off + length src) buf"
  unfolding mem_write_def by (simp add: eq_commute)

lemma mem_write_length:
  "mem_write off src buf = Some buf' \<Longrightarrow> length buf' = length buf"
  by (simp add: mem_write_Some)

lemma mem_write_same:
  "mem_write off src buf = Some buf' \<Longrightarrow> mem_read off (length src) buf' = Some src"
  by (simp add: mem_write_Some mem_read_def)

lemma mem_write_other:
  assumes "mem_write off src buf = Some buf'"
    and "off' + n \<le> off \<or> off + length src \<le> off'"
  shows "mem_read off' n buf' = mem_read off' n buf"
proof -
  from assms(1) have b: "off + length src \<le> length buf"
    and eq: "buf' = take off buf @ src @ drop (off + length src) buf"
    by (simp_all add: mem_write_Some)
  have len: "length buf' = length buf" using b eq by simp
  from assms(2) show ?thesis
  proof
    assume le: "off' + n \<le> off"
    have "take n (drop off' (take off buf)) = take n (drop off' buf)"
      using le by (simp add: drop_take)
    with le b show ?thesis unfolding mem_read_def len by (simp add: eq)
  next
    assume le: "off + length src \<le> off'"
    have "drop off' buf' = drop off' buf"
      using le b by (simp add: eq)
    then show ?thesis unfolding mem_read_def len by simp
  qed
qed

section \<open>Lemmas on the encoders\<close>

lemma length_enc_le [simp]: "length (enc_le n w) = n"
  by (induction n arbitrary: w) simp_all

lemma bit_dec_le:
  "bit (dec_le bs :: 'a::len word) i \<longleftrightarrow>
     i < LENGTH('a) \<and> i < 8 * length bs \<and> bit (bs ! (i div 8)) (i mod 8)"
proof (induction bs arbitrary: i)
  case Nil
  then show ?case by simp
next
  case (Cons b bs)
  show ?case
  proof (cases "i < 8")
    case True
    then show ?thesis
      by (auto simp: bit_or_iff bit_push_bit_iff bit_simps)
  next
    case False
    then have "i div 8 = Suc ((i - 8) div 8)" "i mod 8 = (i - 8) mod 8"
      by (simp_all add: le_div_geq le_mod_geq)
    moreover have "\<not> bit b i" using False bit_imp_le_length [of b i] by auto
    ultimately show ?thesis
      using False Cons.IH [of "i - 8"] by (auto simp: bit_or_iff bit_push_bit_iff bit_simps)
  qed
qed

lemma nth_enc_le:
  "i < n \<Longrightarrow> enc_le n w ! i = ucast (drop_bit (8 * i) w)"
proof (induction n arbitrary: w i)
  case 0
  then show ?case by simp
next
  case (Suc n)
  then show ?case by (cases i) (simp_all add: algebra_simps)
qed

lemma dec_enc_le:
  fixes w :: "'a::len word"
  assumes "LENGTH('a) \<le> 8 * n"
  shows "dec_le (enc_le n w) = w"
proof (rule bit_word_eqI)
  fix i assume "i < LENGTH('a)"
  with assms have "i div 8 < n" "i < 8 * n" by simp_all
  with \<open>i < LENGTH('a)\<close> show "bit (dec_le (enc_le n w) :: 'a word) i = bit w i"
    by (simp add: bit_dec_le nth_enc_le bit_simps)
qed

lemma enc_dec_le:
  assumes "length bs = n" and "8 * n \<le> LENGTH('a::len)"
  shows "enc_le n (dec_le bs :: 'a word) = bs"
proof (rule nth_equalityI)
  show "length (enc_le n (dec_le bs :: 'a word)) = length bs" using assms by simp
next
  fix i assume "i < length (enc_le n (dec_le bs :: 'a word))"
  then have i: "i < n" by simp
  show "enc_le n (dec_le bs :: 'a word) ! i = bs ! i"
  proof (rule bit_word_eqI)
    fix j assume j: "j < LENGTH(8)"
    with i have "8 * i + j < 8 * n" by simp
    with i j assms show "bit (enc_le n (dec_le bs :: 'a word) ! i) j = bit (bs ! i) j"
      by (simp add: nth_enc_le bit_simps bit_dec_le)
  qed
qed

text \<open>
  The contract of a fixed-width field encoder: what a reader of a structure relies on.
\<close>

locale le_codec =
  fixes enc :: "'w \<Rightarrow> bytes" and dec :: "bytes \<Rightarrow> 'w" and width :: nat
  assumes enc_length: "length (enc w) = width"
    and dec_enc: "dec (enc w) = w"
    and enc_dec: "length bs = width \<Longrightarrow> enc (dec bs) = bs"
begin

lemma enc_inj: "enc v = enc w \<longleftrightarrow> v = w"
  by (metis dec_enc)

lemma dec_inj:
  "length bs = width \<Longrightarrow> length cs = width \<Longrightarrow> dec bs = dec cs \<longleftrightarrow> bs = cs"
  by (metis enc_dec)

text \<open>A field at the front of a buffer is read back from the first \<open>width\<close> bytes.\<close>

lemma dec_take: "dec (take width (enc w @ rest)) = w"
  by (simp add: enc_length dec_enc)

lemma drop_enc: "drop width (enc w @ rest) = rest"
  by (simp add: enc_length)

end

interpretation u32: le_codec enc32 dec32 4
  by unfold_locales (simp_all add: dec_enc_le enc_dec_le)

interpretation u64: le_codec enc64 dec64 8
  by unfold_locales (simp_all add: dec_enc_le enc_dec_le)

lemma length_enc_words [simp]: "length (enc_words ws) = 4 * length ws"
  by (induction ws) (simp_all add: enc_words_def)

lemma length_dec_words [simp]: "length (dec_words n bs) = n"
  by (induction n arbitrary: bs) simp_all

lemma dec_enc_words: "dec_words (length ws) (enc_words ws @ rest) = ws"
  by (induction ws) (simp_all add: enc_words_def u32.dec_enc)

lemma dec_enc_words_exact [simp]: "dec_words (length ws) (enc_words ws) = ws"
  using dec_enc_words [of ws "[]"] by simp

section \<open>Lemmas on words\<close>

lemma unat_inc:
  assumes "a < (b :: 'a::len word)"
  shows "unat (a + 1) = Suc (unat a)"
proof -
  have "Suc (unat a) \<le> unat b"
    using assms by (simp add: word_less_nat_alt Suc_le_eq)
  also have "unat b < 2 ^ LENGTH('a)" by simp
  finally have "Suc (unat a) < 2 ^ LENGTH('a)" .
  then show ?thesis by (simp add: unat_word_ariths)
qed

lemma unat_dec: "(a :: 'a::len word) \<noteq> 0 \<Longrightarrow> unat (a - 1) = unat a - 1"
  by (simp add: unat_minus_one)

lemma unat_pred_less: "0 < (a :: 'a::len word) \<Longrightarrow> unat (a - 1) < unat a"
  using unat_dec [of a] by (cases "a = 0") (auto simp: word_less_nat_alt)

lemma unat_less_len: "unat (w :: 'a::len word) < 2 ^ LENGTH('a)"
  by simp

lemma unat_u32_less: "unat (w :: u32) < 2 ^ 32"
  using unat_less_len [of w] by simp

lemma unat_ucast_u64 [simp]: "unat (ucast (w :: u32) :: u64) = unat w"
  using unat_u32_less [of w] by (simp add: unsigned_ucast_eq take_bit_nat_eq_self)

lemma unat_ucast_u32: "unat (ucast (w :: u64) :: u32) = unat w mod 2 ^ 32"
  by (simp add: unsigned_ucast_eq take_bit_eq_mod)

lemma unat_push_bit: "unat (push_bit n (w :: 'a::len word)) = unat w * 2 ^ n mod 2 ^ LENGTH('a)"
  unfolding unsigned_push_bit_eq by (simp add: push_bit_eq_mult take_bit_eq_mod)

lemma unat_drop_bit: "unat (drop_bit n (w :: 'a::len word)) = unat w div 2 ^ n"
  unfolding unat_drop_bit_eq by (simp add: drop_bit_eq_div)

text \<open>A 32-bit word read as a signed integer.\<close>

lemma uint_less_pow: "uint (w :: u32) < 2 ^ n \<longleftrightarrow> unat w < 2 ^ n"
proof -
  have "unat w < 2 ^ n \<longleftrightarrow> int (unat w) < int (2 ^ n)" by (simp only: of_nat_less_iff)
  also have "\<dots> \<longleftrightarrow> uint w < 2 ^ n" by (simp only: of_nat_unat of_nat_power of_nat_numeral)
  finally show ?thesis by simp
qed

lemma sint_small: "unat (w :: u32) < 2 ^ 31 \<Longrightarrow> sint w = int (unat w)"
proof -
  assume "unat w < 2 ^ 31"
  then have "uint w < 2 ^ 31" by (simp only: uint_less_pow)
  moreover have "- (2 ^ 31) \<le> uint w" by (rule order.trans [OF _ uint_ge_0]) simp
  ultimately have "signed_take_bit 31 (uint w) = uint w" by (intro signed_take_bit_int_eq_self)
  then show ?thesis by (simp add: sint_uint)
qed
lemma sint_word_of_int_u32: "0 \<le> n \<Longrightarrow> n < 2 ^ 31 \<Longrightarrow> sint (word_of_int n :: u32) = n"
proof -
  assume n: "0 \<le> n" "n < 2 ^ 31"
  then have u: "uint (word_of_int n :: u32) = n" by (simp add: uint_word_of_int_eq take_bit_int_eq_self)
  then have "int (unat (word_of_int n :: u32)) = n" by (simp only: of_nat_unat)
  moreover have "unat (word_of_int n :: u32) < 2 ^ 31"
    using n(2) u uint_less_pow [of "word_of_int n" 31] by simp
  ultimately show ?thesis by (simp add: sint_small)
qed
lemma sint_neg: "sint (w :: u32) < 0 \<longleftrightarrow> 2 ^ 31 \<le> unat w"
proof (cases "unat w < 2 ^ 31")
  case True
  then show ?thesis by (simp add: sint_small)
next
  case False
  have l: "\<not> uint w < 2 ^ 31" unfolding uint_less_pow by (rule False)
  have "\<not> 0 \<le> sint w"
  proof
    assume "0 \<le> sint w"
    have "uint w = take_bit 32 (sint w)" by (simp add: uint_sint)
    also have "\<dots> = sint w" using \<open>0 \<le> sint w\<close> sint_lt [of w] by (simp add: take_bit_int_eq_self)
    finally show False using l sint_lt [of w] by simp
  qed
  with False show ?thesis by simp
qed
end
