(* ===== verification/Crc32.thy ===== *)
theory Crc32
  imports Prelude
begin

text \<open>
  The CRC-32 of \<^verbatim>\<open>lib/crc32.c\<close> and the wrapper NMBM calls it through
  (\<^verbatim>\<open>include/nmbm/nmbm-os.h\<close>).

  The code is table driven, consumes bytes up to a 4-byte boundary, then whole 32-bit
  words, then the rest; \<open>crc_table\<close> is the static table of the source (the build has no
  \<^verbatim>\<open>CONFIG_DYNAMIC_CRC_TABLE\<close>), and the byte order is little endian, as on the MT7621, so
  \<^verbatim>\<open>cpu_to_le32\<close> and \<^verbatim>\<open>tole\<close> are the identity. The address of the buffer matters to the
  code only through its two low bits: the parameter \<open>a\<close> of the model.

  The reference is the bit-serial CRC of the polynomial the source's comment names
  (\<open>crc_ref\<close>): \<open>crc32_no_comp_correct\<close> says the optimised routine computes it for every
  alignment. The contract \<open>byte_checksum\<close> is what the structures protected by the
  checksum rely on: changing one byte always changes the sum.
\<close>

section \<open>The code\<close>

definition crc_table :: "u32 list" where
  "crc_table = [
   0x00000000, 0x77073096, 0xee0e612c, 0x990951ba, 0x076dc419, 0x706af48f, 0xe963a535, 0x9e6495a3,
   0x0edb8832, 0x79dcb8a4, 0xe0d5e91e, 0x97d2d988, 0x09b64c2b, 0x7eb17cbd, 0xe7b82d07, 0x90bf1d91,
   0x1db71064, 0x6ab020f2, 0xf3b97148, 0x84be41de, 0x1adad47d, 0x6ddde4eb, 0xf4d4b551, 0x83d385c7,
   0x136c9856, 0x646ba8c0, 0xfd62f97a, 0x8a65c9ec, 0x14015c4f, 0x63066cd9, 0xfa0f3d63, 0x8d080df5,
   0x3b6e20c8, 0x4c69105e, 0xd56041e4, 0xa2677172, 0x3c03e4d1, 0x4b04d447, 0xd20d85fd, 0xa50ab56b,
   0x35b5a8fa, 0x42b2986c, 0xdbbbc9d6, 0xacbcf940, 0x32d86ce3, 0x45df5c75, 0xdcd60dcf, 0xabd13d59,
   0x26d930ac, 0x51de003a, 0xc8d75180, 0xbfd06116, 0x21b4f4b5, 0x56b3c423, 0xcfba9599, 0xb8bda50f,
   0x2802b89e, 0x5f058808, 0xc60cd9b2, 0xb10be924, 0x2f6f7c87, 0x58684c11, 0xc1611dab, 0xb6662d3d,
   0x76dc4190, 0x01db7106, 0x98d220bc, 0xefd5102a, 0x71b18589, 0x06b6b51f, 0x9fbfe4a5, 0xe8b8d433,
   0x7807c9a2, 0x0f00f934, 0x9609a88e, 0xe10e9818, 0x7f6a0dbb, 0x086d3d2d, 0x91646c97, 0xe6635c01,
   0x6b6b51f4, 0x1c6c6162, 0x856530d8, 0xf262004e, 0x6c0695ed, 0x1b01a57b, 0x8208f4c1, 0xf50fc457,
   0x65b0d9c6, 0x12b7e950, 0x8bbeb8ea, 0xfcb9887c, 0x62dd1ddf, 0x15da2d49, 0x8cd37cf3, 0xfbd44c65,
   0x4db26158, 0x3ab551ce, 0xa3bc0074, 0xd4bb30e2, 0x4adfa541, 0x3dd895d7, 0xa4d1c46d, 0xd3d6f4fb,
   0x4369e96a, 0x346ed9fc, 0xad678846, 0xda60b8d0, 0x44042d73, 0x33031de5, 0xaa0a4c5f, 0xdd0d7cc9,
   0x5005713c, 0x270241aa, 0xbe0b1010, 0xc90c2086, 0x5768b525, 0x206f85b3, 0xb966d409, 0xce61e49f,
   0x5edef90e, 0x29d9c998, 0xb0d09822, 0xc7d7a8b4, 0x59b33d17, 0x2eb40d81, 0xb7bd5c3b, 0xc0ba6cad,
   0xedb88320, 0x9abfb3b6, 0x03b6e20c, 0x74b1d29a, 0xead54739, 0x9dd277af, 0x04db2615, 0x73dc1683,
   0xe3630b12, 0x94643b84, 0x0d6d6a3e, 0x7a6a5aa8, 0xe40ecf0b, 0x9309ff9d, 0x0a00ae27, 0x7d079eb1,
   0xf00f9344, 0x8708a3d2, 0x1e01f268, 0x6906c2fe, 0xf762575d, 0x806567cb, 0x196c3671, 0x6e6b06e7,
   0xfed41b76, 0x89d32be0, 0x10da7a5a, 0x67dd4acc, 0xf9b9df6f, 0x8ebeeff9, 0x17b7be43, 0x60b08ed5,
   0xd6d6a3e8, 0xa1d1937e, 0x38d8c2c4, 0x4fdff252, 0xd1bb67f1, 0xa6bc5767, 0x3fb506dd, 0x48b2364b,
   0xd80d2bda, 0xaf0a1b4c, 0x36034af6, 0x41047a60, 0xdf60efc3, 0xa867df55, 0x316e8eef, 0x4669be79,
   0xcb61b38c, 0xbc66831a, 0x256fd2a0, 0x5268e236, 0xcc0c7795, 0xbb0b4703, 0x220216b9, 0x5505262f,
   0xc5ba3bbe, 0xb2bd0b28, 0x2bb45a92, 0x5cb36a04, 0xc2d7ffa7, 0xb5d0cf31, 0x2cd99e8b, 0x5bdeae1d,
   0x9b64c2b0, 0xec63f226, 0x756aa39c, 0x026d930a, 0x9c0906a9, 0xeb0e363f, 0x72076785, 0x05005713,
   0x95bf4a82, 0xe2b87a14, 0x7bb12bae, 0x0cb61b38, 0x92d28e9b, 0xe5d5be0d, 0x7cdcefb7, 0x0bdbdf21,
   0x86d3d2d4, 0xf1d4e242, 0x68ddb3f8, 0x1fda836e, 0x81be16cd, 0xf6b9265b, 0x6fb077e1, 0x18b74777,
   0x88085ae6, 0xff0f6a70, 0x66063bca, 0x11010b5c, 0x8f659eff, 0xf862ae69, 0x616bffd3, 0x166ccf45,
   0xa00ae278, 0xd70dd2ee, 0x4e048354, 0x3903b3c2, 0xa7672661, 0xd06016f7, 0x4969474d, 0x3e6e77db,
   0xaed16a4a, 0xd9d65adc, 0x40df0b66, 0x37d83bf0, 0xa9bcae53, 0xdebb9ec5, 0x47b2cf7f, 0x30b5ffe9,
   0xbdbdf21c, 0xcabac28a, 0x53b39330, 0x24b4a3a6, 0xbad03605, 0xcdd70693, 0x54de5729, 0x23d967bf,
   0xb3667a2e, 0xc4614ab8, 0x5d681b02, 0x2a6f2b94, 0xb40bbe37, 0xc30c8ea1, 0x5a05df1b, 0x2d02ef8d
  ]"

text \<open>\<^verbatim>\<open>DO_CRC\<close>, one table step.\<close>

definition do_crc :: "u32 \<Rightarrow> u32 \<Rightarrow> u32" where
  "do_crc crc x = crc_table ! unat ((crc XOR x) AND 255) XOR drop_bit 8 crc"

text \<open>Single bytes until the address is a multiple of four.\<close>

fun crc_align :: "nat \<Rightarrow> u32 \<Rightarrow> bytes \<Rightarrow> u32 \<times> bytes" where
  "crc_align a crc [] = (crc, [])"
| "crc_align a crc (b # bs) =
     (if a mod 4 = 0 then (crc, b # bs) else crc_align (Suc a) (do_crc crc (ucast b)) bs)"

text \<open>Whole 32-bit words.\<close>

fun crc_words :: "u32 \<Rightarrow> bytes \<Rightarrow> u32 \<times> bytes" where
  "crc_words crc (b0 # b1 # b2 # b3 # bs) =
     (let crc = crc XOR dec32 [b0, b1, b2, b3];
          crc = do_crc crc 0; crc = do_crc crc 0; crc = do_crc crc 0; crc = do_crc crc 0
      in crc_words crc bs)"
| "crc_words crc bs = (crc, bs)"

text \<open>The last few bytes.\<close>

primrec crc_tail :: "u32 \<Rightarrow> bytes \<Rightarrow> u32" where
  "crc_tail crc [] = crc"
| "crc_tail crc (b # bs) = crc_tail (do_crc crc (ucast b)) bs"

definition crc32_no_comp :: "nat \<Rightarrow> u32 \<Rightarrow> bytes \<Rightarrow> u32" where
  "crc32_no_comp a crc buf =
     (let (crc, buf) = crc_align a crc buf; (crc, buf) = crc_words crc buf in crc_tail crc buf)"

definition crc32 :: "nat \<Rightarrow> u32 \<Rightarrow> bytes \<Rightarrow> u32" where
  "crc32 a crc p = crc32_no_comp a (crc XOR 0xffffffff) p XOR 0xffffffff"

text \<open>The wrapper splits the buffer into pieces of at most \<^verbatim>\<open>UINT_MAX\<close> bytes.\<close>

function nmbm_crc32 :: "nat \<Rightarrow> u32 \<Rightarrow> bytes \<Rightarrow> u32" where
  "nmbm_crc32 a crcval buf =
     (if buf = [] then crcval
      else let chksz = (if int (length buf) > 0xffffffff then 0xffffffff else length buf)
           in nmbm_crc32 (a + chksz) (crc32_no_comp a crcval (take chksz buf)) (drop chksz buf))"
  by pat_completeness auto
termination
  by (relation "measure (\<lambda>(a, c, buf). length buf)") auto

declare nmbm_crc32.simps [simp del]

section \<open>The bit-serial reference\<close>

definition crc_bit :: "u32 \<Rightarrow> u32" where
  "crc_bit c = (if bit c 0 then drop_bit 1 c XOR 0xedb88320 else drop_bit 1 c)"

definition crc_eight :: "u32 \<Rightarrow> u32" where
  "crc_eight c = crc_bit (crc_bit (crc_bit (crc_bit (crc_bit (crc_bit (crc_bit (crc_bit c)))))))"

definition crc_byte :: "u32 \<Rightarrow> byte \<Rightarrow> u32" where
  "crc_byte c b = crc_eight (c XOR ucast b)"

definition crc_ref :: "u32 \<Rightarrow> bytes \<Rightarrow> u32" where
  "crc_ref c bs = foldl crc_byte c bs"

section \<open>The table and the bit-serial step\<close>

text \<open>Every entry of the static table is eight bit-serial steps of its index.\<close>

lemma crc_table_entries: "crc_table = map (\<lambda>i. crc_eight (of_nat i)) [0..<256]"
proof -
  have "[0..<256] = 0 # 1 # [2..<256]" by (simp add: upt_conv_Cons numeral_2_eq_2)
  then have "map (\<lambda>i. crc_eight (of_nat i)) [0..<256]
      = map crc_eight (0 # 1 # map of_nat [2..<256])" by simp
  also have "\<dots> = crc_table"
    by (simp add: upt_rec_numeral) (simp add: crc_eight_def crc_bit_def crc_table_def)
  finally show ?thesis by simp
qed

lemma crc_bit_xor: "crc_bit (x XOR y) = crc_bit x XOR crc_bit y"
  by (rule bit_word_eqI) (auto simp: crc_bit_def bit_simps)

lemma crc_eight_xor: "crc_eight (x XOR y) = crc_eight x XOR crc_eight y"
  by (simp add: crc_eight_def crc_bit_xor)

lemma crc_bit_even: "\<not> bit x 0 \<Longrightarrow> crc_bit x = drop_bit 1 x"
  by (simp add: crc_bit_def)

lemma mask8: "(255 :: u32) = mask 8"
  by (simp add: mask_eq_exp_minus_1)

lemma crc_eight_low_zero:
  assumes "x AND 255 = 0"
  shows "crc_eight x = drop_bit 8 x"
proof -
  have "\<not> bit x i" if "i < 8" for i
  proof -
    have "bit (x AND 255) i = (bit x i \<and> bit (mask 8 :: u32) i)"
      by (simp add: bit_and_iff mask_eq_exp_minus_1)
    with that assms show ?thesis by (simp add: bit_mask_iff)
  qed
  then show ?thesis
    by (simp add: crc_eight_def crc_bit_even bit_drop_bit_eq numeral_eq_Suc)
qed

lemma xor_right_cancel: "(x :: 'a::len word) XOR z = y XOR z \<longleftrightarrow> x = y"
  by (metis xor.assoc xor_self_eq xor.right_neutral)

lemma crc_bit_top: "bit (crc_bit x) 31 \<longleftrightarrow> bit x 0"
  using bit_imp_le_length [of x 32] by (auto simp: crc_bit_def bit_simps)

lemma crc_bit_inj: "crc_bit x = crc_bit y \<Longrightarrow> x = y"
proof -
  assume eq: "crc_bit x = crc_bit y"
  then have z: "bit x 0 = bit y 0" by (metis crc_bit_top)
  with eq have "drop_bit 1 x = drop_bit 1 y"
    by (auto simp: crc_bit_def xor_right_cancel split: if_splits)
  then have s: "bit x (Suc i) = bit y (Suc i)" for i
    by (metis bit_drop_bit_eq comp_apply plus_1_eq_Suc)
  show "x = y"
  proof (rule bit_word_eqI)
    fix n assume "n < LENGTH(32)"
    show "bit x n = bit y n" using z s by (cases n) auto
  qed
qed

lemma crc_eight_inj: "crc_eight x = crc_eight y \<Longrightarrow> x = y"
  unfolding crc_eight_def by (drule crc_bit_inj)+

lemma length_crc_table: "length crc_table = 256"
  by (simp add: crc_table_entries)

lemma crc_table_nth: "crc_table ! unat (x AND 255) = crc_eight (x AND 255)"
proof -
  have "x AND 255 \<le> 255" by (rule word_and_le1)
  then have "unat (x AND 255) < 256" by (simp add: word_le_nat_alt)
  then show ?thesis by (simp add: crc_table_entries)
qed

lemma do_crc_eight: "do_crc crc (ucast b) = crc_byte crc b"
proof -
  let ?x = "crc XOR ucast b :: u32"
  have b: "drop_bit 8 (ucast b :: u32) = 0"
    by (rule bit_word_eqI) (auto simp: bit_simps dest: bit_imp_le_length)
  have s: "?x = (?x AND 255) XOR (?x AND NOT 255)"
    by (rule bit_word_eqI) (auto simp: bit_simps)
  have "crc_eight ?x = crc_eight (?x AND 255) XOR crc_eight (?x AND NOT 255)"
    by (subst s) (rule crc_eight_xor)
  also have "crc_eight (?x AND NOT 255) = drop_bit 8 (?x AND NOT 255)"
    by (rule crc_eight_low_zero) (rule bit_word_eqI, auto simp: bit_simps)
  also have "drop_bit 8 (?x AND NOT 255) = drop_bit 8 ?x"
    unfolding mask8 by (rule bit_word_eqI) (auto simp: bit_simps dest: bit_imp_le_length)
  also have "drop_bit 8 ?x = drop_bit 8 crc"
    using b by simp
  finally show ?thesis by (simp add: do_crc_def crc_byte_def crc_table_nth)
qed

lemma do_crc_zero: "do_crc crc 0 = crc_eight crc"
  using do_crc_eight [of crc 0] by (simp add: crc_byte_def)

lemma crc_tail_ref: "crc_tail crc bs = crc_ref crc bs"
  by (induction bs arbitrary: crc) (simp_all add: crc_ref_def do_crc_eight)

lemma crc_align_ref: "crc_align a crc bs = (c', bs') \<Longrightarrow> crc_ref c' bs' = crc_ref crc bs"
  by (induction a crc bs rule: crc_align.induct)
    (auto simp: crc_ref_def do_crc_eight split: if_splits)

lemma crc_eight_word: "crc_eight (c XOR (ucast (b :: byte) OR push_bit 8 w)) = crc_byte c b XOR take_bit 24 w"
proof -
  have s: "c XOR (ucast b OR push_bit 8 w) = (c XOR ucast b) XOR push_bit 8 w"
    by (rule bit_word_eqI) (auto simp: bit_simps dest: bit_imp_le_length)
  have "crc_eight (push_bit 8 w) = drop_bit 8 (push_bit 8 w)"
    by (rule crc_eight_low_zero, unfold mask8) (rule bit_word_eqI, auto simp: bit_simps)
  also have "\<dots> = take_bit 24 w"
    by (rule bit_word_eqI) (auto simp: bit_simps)
  finally show ?thesis
    by (simp only: s crc_eight_xor crc_byte_def)
qed

lemma crc_words_ref: "crc_words crc bs = (c', bs') \<Longrightarrow> crc_ref c' bs' = crc_ref crc bs"
proof (induction crc bs rule: crc_words.induct)
  case (1 crc b0 b1 b2 b3 bs)
  have t: "take_bit 24 (ucast b1 OR push_bit 8 (ucast b2 OR push_bit 8 (ucast b3)) :: u32)
        = ucast b1 OR push_bit 8 (ucast b2 OR push_bit 8 (ucast b3))"
    "take_bit 24 (ucast b2 OR push_bit 8 (ucast b3) :: u32) = ucast b2 OR push_bit 8 (ucast b3)"
    "take_bit 24 (ucast b3 :: u32) = ucast b3"
    by (rule bit_word_eqI; auto simp: bit_simps dest: bit_imp_le_length)+
  have d: "dec32 [b0, b1, b2, b3] =
      ucast b0 OR push_bit 8 (ucast b1 OR push_bit 8 (ucast b2 OR push_bit 8 (ucast b3)))"
    by simp
  have "crc_eight (crc_eight (crc_eight (crc_eight (crc XOR dec32 [b0, b1, b2, b3]))))
      = crc_byte (crc_byte (crc_byte (crc_byte crc b0) b1) b2) b3"
    unfolding d by (simp only: crc_eight_word t crc_byte_def [symmetric])
  with 1 show ?case
    by (simp add: crc_ref_def do_crc_zero Let_def)
qed auto

lemma crc_byte_inj_state: "crc_byte c b = crc_byte c' b \<Longrightarrow> c = c'"
  by (auto simp: crc_byte_def xor_right_cancel dest: crc_eight_inj)

lemma crc_byte_inj_byte: "crc_byte c b = crc_byte c b' \<Longrightarrow> b = b'"
proof -
  assume "crc_byte c b = crc_byte c b'"
  then have "ucast b XOR c = (ucast b' XOR c :: u32)"
    by (auto simp: crc_byte_def xor.commute dest: crc_eight_inj)
  then have "(ucast b :: u32) = ucast b'" by (simp add: xor_right_cancel)
  then have eq: "bit (ucast b :: u32) n = bit (ucast b' :: u32) n" for n by simp
  show "b = b'"
  proof (rule bit_word_eqI)
    fix n assume "n < LENGTH(8)"
    with eq [of n] show "bit b n = bit b' n" by (simp add: bit_simps)
  qed
qed

section \<open>What a protected structure relies on\<close>

text \<open>
  A checksum folded over bytes whose step loses neither the state nor the byte: the sum
  of a concatenation is the sum continued, and two equally long messages that differ in
  exactly one byte have different sums.
\<close>

locale byte_checksum =
  fixes step :: "u32 \<Rightarrow> byte \<Rightarrow> u32" and sum :: "u32 \<Rightarrow> bytes \<Rightarrow> u32"
  assumes sum_fold: "sum c bs = foldl step c bs"
    and step_inj_state: "step c b = step c' b \<Longrightarrow> c = c'"
    and step_inj_byte: "step c b = step c b' \<Longrightarrow> b = b'"
begin

lemma sum_Nil: "sum c [] = c"
  by (simp add: sum_fold)

lemma sum_append: "sum c (xs @ ys) = sum (sum c xs) ys"
  by (simp add: sum_fold)

lemma sum_inj_state: "sum c bs = sum c' bs \<Longrightarrow> c = c'"
  unfolding sum_fold
  by (induction bs arbitrary: c c') (auto dest: step_inj_state)

lemma one_byte_detected:
  assumes "b \<noteq> b'"
  shows "sum c (xs @ b # ys) \<noteq> sum c (xs @ b' # ys)"
proof
  assume "sum c (xs @ b # ys) = sum c (xs @ b' # ys)"
  then have "sum (step (sum c xs) b) ys = sum (step (sum c xs) b') ys"
    by (simp add: sum_fold)
  then have "step (sum c xs) b = step (sum c xs) b'" by (rule sum_inj_state)
  with assms show False by (blast dest: step_inj_byte)
qed

end

interpretation ref: byte_checksum crc_byte crc_ref
  by unfold_locales (auto simp: crc_ref_def dest: crc_byte_inj_state crc_byte_inj_byte)

section \<open>The optimised routines\<close>

lemma crc32_no_comp_ref: "crc32_no_comp a crc buf = crc_ref crc buf"
  by (simp add: crc32_no_comp_def crc_tail_ref crc_words_ref crc_align_ref split: prod.split)

lemma nmbm_crc32_ref: "nmbm_crc32 a crc buf = crc_ref crc buf"
proof (induction a crc buf rule: nmbm_crc32.induct)
  case (1 a crc buf)
  show ?case
  proof (cases "buf = []")
    case True
    then show ?thesis by (simp add: nmbm_crc32.simps ref.sum_Nil)
  next
    case False
    define n where "n = (if int (length buf) > 0xffffffff then 0xffffffff else length buf)"
    have "nmbm_crc32 a crc buf =
        nmbm_crc32 (a + n) (crc32_no_comp a crc (take n buf)) (drop n buf)"
      using False by (subst nmbm_crc32.simps) (simp add: Let_def n_def)
    also have "\<dots> = crc_ref (crc_ref crc (take n buf)) (drop n buf)"
      using 1 [OF False n_def] by (simp add: crc32_no_comp_ref)
    also have "\<dots> = crc_ref crc buf"
      by (simp flip: ref.sum_append)
    finally show ?thesis .
  qed
qed

interpretation nmbm: byte_checksum crc_byte "nmbm_crc32 a"
  by unfold_locales
    (auto simp: nmbm_crc32_ref crc_ref_def dest: crc_byte_inj_state crc_byte_inj_byte)

text \<open>
  C27: the table-driven, word-at-a-time \<open>crc32_no_comp\<close> computes the bit-serial CRC-32
  remainder of its input, whatever the alignment of the buffer; \<open>crc32\<close> is the same
  with the register and the result complemented.
\<close>

theorem crc32_no_comp_correct:
  "crc32_no_comp a crc buf = foldl crc_byte crc buf \<and>
   crc32 a crc buf = NOT (foldl crc_byte (NOT crc) buf)"
proof -
  have "x XOR 0xffffffff = NOT x" for x :: u32
  proof -
    have m: "(0xffffffff :: u32) = mask 32" by (simp add: mask_eq_exp_minus_1)
    show ?thesis unfolding m by (rule bit_word_eqI) (simp add: bit_simps)
  qed
  then show ?thesis
    using crc32_no_comp_ref [of a crc buf] crc32_no_comp_ref [of a "NOT crc" buf]
    by (simp add: crc_ref_def crc32_def)
qed

text \<open>
  \<open>nmbm_crc32\<close> can be computed piecewise: the sum of a buffer given in two parts is
  the sum of the second part started from the sum of the first, whatever the alignments,
  and the loop over \<^verbatim>\<open>UINT_MAX\<close> pieces is invisible. NMBM's header check relies on it.
\<close>

lemma nmbm_crc32_streams:
  "nmbm_crc32 a crc (xs @ ys) = nmbm_crc32 a' (nmbm_crc32 a'' crc xs) ys \<and>
   nmbm_crc32 a crc xs = crc32_no_comp a crc xs"
  by (simp add: nmbm_crc32_ref crc32_no_comp_ref ref.sum_append)

end
