(* ===== verification/Nmbm_Types.thy ===== *)
theory Nmbm_Types
  imports Crc32
begin

text \<open>
  The data of NMBM (NAND mapped-block management): the on-flash structures and the
  instance of \<^verbatim>\<open>drivers/mtd/nmbm/nmbm-private.h\<close>, the lower-device interface of
  \<^verbatim>\<open>include/nmbm/nmbm.h\<close>, and the checks of \<^verbatim>\<open>nmbm-core.c\<close> that work on raw bytes.

  \<^item> The on-flash structures are records together with their byte images (little endian,
    with the layout of the 32-bit MIPS ABI: \<^verbatim>\<open>struct nmbm_signature\<close> has its 8-byte member
    at offset 16 and is padded to 48 bytes; the three bytes of \<^verbatim>\<open>padding\<close> and the four the
    compiler adds are the seven bytes of \<open>sig_padding\<close>).
  \<^item> A lower device is the record of its callbacks. A callback that the driver may leave
    NULL is an option. What \<^verbatim>\<open>void *arg\<close> points to is a value of type \<open>'d\<close>, passed to each
    callback and returned by it; a buffer argument is an option (NULL or the bytes), and
    a reading callback returns what the buffers hold afterwards.
  \<^item> The four tables that \<open>nmbm_init_structure\<close> carves out of the memory behind the
    instance are lists: \<open>ni_info_table_cache\<close>, \<open>ni_block_state\<close>, \<open>ni_block_mapping\<close> and
    \<open>ni_page_cache\<close>.
\<close>

section \<open>Constants\<close>

definition NMBM_MAGIC_SIGNATURE :: u32 where "NMBM_MAGIC_SIGNATURE = 0x304d4d4e"
definition NMBM_MAGIC_INFO_TABLE :: u32 where "NMBM_MAGIC_INFO_TABLE = 0x314d4d4e"

definition NMBM_VERSION_MAKE :: "u32 \<Rightarrow> u32 \<Rightarrow> u32" where
  "NMBM_VERSION_MAKE major minor = (major AND 0xffff) OR push_bit 16 (minor AND 0xffff)"

definition NMBM_VER :: u32 where "NMBM_VER = NMBM_VERSION_MAKE 1 0"

abbreviation (input) NMBM_BITMAP_BLOCKS_PER_UNIT :: "'a::numeral" where
  "NMBM_BITMAP_BLOCKS_PER_UNIT \<equiv> 16"
abbreviation (input) NMBM_BITMAP_BITS_PER_BLOCK :: "'a::numeral" where
  "NMBM_BITMAP_BITS_PER_BLOCK \<equiv> 2"
abbreviation (input) NMBM_BITMAP_UNIT_SIZE :: "'a::numeral" where
  "NMBM_BITMAP_UNIT_SIZE \<equiv> 4"
abbreviation (input) NMBM_SPARE_BLOCK_MULTI :: u32 where "NMBM_SPARE_BLOCK_MULTI \<equiv> 1"
abbreviation (input) NMBM_SPARE_BLOCK_DIV :: u32 where "NMBM_SPARE_BLOCK_DIV \<equiv> 2"
abbreviation (input) NMBM_SPARE_BLOCK_MIN :: u32 where "NMBM_SPARE_BLOCK_MIN \<equiv> 2"
abbreviation (input) NMBM_MGMT_DIV :: u32 where "NMBM_MGMT_DIV \<equiv> 16"
abbreviation (input) NMBM_MGMT_BLOCKS_MIN :: u32 where "NMBM_MGMT_BLOCKS_MIN \<equiv> 32"
abbreviation (input) NMBM_TRY_COUNT :: nat where "NMBM_TRY_COUNT \<equiv> 3"
abbreviation (input) BLOCK_ST_BAD :: u32 where "BLOCK_ST_BAD \<equiv> 0"
abbreviation (input) BLOCK_ST_NEED_REMAP :: u32 where "BLOCK_ST_NEED_REMAP \<equiv> 2"
abbreviation (input) BLOCK_ST_GOOD :: u32 where "BLOCK_ST_GOOD \<equiv> 3"
abbreviation (input) BLOCK_ST_MASK :: u32 where "BLOCK_ST_MASK \<equiv> 3"
abbreviation (input) NMBM_F_CREATE :: u32 where "NMBM_F_CREATE \<equiv> 1"

definition NMBM_ALIGN :: "u32 \<Rightarrow> u32 \<Rightarrow> u32" where
  "NMBM_ALIGN v a = (v + a - 1) AND NOT (a - 1)"

datatype nmbm_log_category =
  NMBM_LOG_DEBUG | NMBM_LOG_INFO | NMBM_LOG_WARN | NMBM_LOG_ERR | NMBM_LOG_EMERG | NMBM_LOG_MAX

datatype nmbm_oob_mode = NMBM_MODE_PLACE_OOB | NMBM_MODE_AUTO_OOB | NMBM_MODE_RAW

section \<open>On-flash structures\<close>

record nmbm_header =
  hdr_magic :: u32
  hdr_version :: u32
  hdr_size :: u32
  hdr_checksum :: u32

record nmbm_signature =
  sig_header :: nmbm_header
  sig_nand_size :: u64
  sig_block_size :: u32
  sig_page_size :: u32
  sig_spare_size :: u32
  sig_mgmt_start_pb :: u32
  sig_max_try_count :: u8
  sig_padding :: bytes

record nmbm_info_table_header =
  ift_header :: nmbm_header
  ift_write_count :: u32
  ift_state_table_off :: u32
  ift_mapping_table_off :: u32
  ift_padding :: u32

abbreviation (input) sizeof_header :: nat where "sizeof_header \<equiv> 16"
abbreviation (input) sizeof_signature :: nat where "sizeof_signature \<equiv> 48"
abbreviation (input) sizeof_info_table_header :: nat where "sizeof_info_table_header \<equiv> 32"

text \<open>The four-byte field at offset \<open>off\<close>.\<close>

definition field32 :: "nat \<Rightarrow> bytes \<Rightarrow> u32" where
  "field32 off bs = dec32 (take 4 (drop off bs))"

definition header_bytes :: "nmbm_header \<Rightarrow> bytes" where
  "header_bytes h = enc32 (hdr_magic h) @ enc32 (hdr_version h) @ enc32 (hdr_size h)
     @ enc32 (hdr_checksum h)"

definition header_of :: "bytes \<Rightarrow> nmbm_header" where
  "header_of bs = \<lparr>hdr_magic = field32 0 bs, hdr_version = field32 4 bs,
     hdr_size = field32 8 bs, hdr_checksum = field32 12 bs\<rparr>"

definition signature_bytes :: "nmbm_signature \<Rightarrow> bytes" where
  "signature_bytes s = header_bytes (sig_header s) @ enc64 (sig_nand_size s)
     @ enc32 (sig_block_size s) @ enc32 (sig_page_size s) @ enc32 (sig_spare_size s)
     @ enc32 (sig_mgmt_start_pb s) @ [sig_max_try_count s] @ sig_padding s"

definition signature_of :: "bytes \<Rightarrow> nmbm_signature" where
  "signature_of bs = \<lparr>sig_header = header_of bs, sig_nand_size = dec64 (take 8 (drop 16 bs)),
     sig_block_size = field32 24 bs, sig_page_size = field32 28 bs,
     sig_spare_size = field32 32 bs, sig_mgmt_start_pb = field32 36 bs,
     sig_max_try_count = bs ! 40, sig_padding = take 7 (drop 41 bs)\<rparr>"

definition info_header_bytes :: "nmbm_info_table_header \<Rightarrow> bytes" where
  "info_header_bytes t = header_bytes (ift_header t) @ enc32 (ift_write_count t)
     @ enc32 (ift_state_table_off t) @ enc32 (ift_mapping_table_off t) @ enc32 (ift_padding t)"

definition info_header_of :: "bytes \<Rightarrow> nmbm_info_table_header" where
  "info_header_of bs = \<lparr>ift_header = header_of bs, ift_write_count = field32 16 bs,
     ift_state_table_off = field32 20 bs, ift_mapping_table_off = field32 24 bs,
     ift_padding = field32 28 bs\<rparr>"

section \<open>The lower device and the instance\<close>

type_synonym 'd reset_fn = "'d \<Rightarrow> int \<times> 'd"
type_synonym 'd read_fn =
  "'d \<Rightarrow> u64 \<Rightarrow> bytes option \<Rightarrow> bytes option \<Rightarrow> nmbm_oob_mode
     \<Rightarrow> int \<times> bytes option \<times> bytes option \<times> 'd"
type_synonym 'd write_fn =
  "'d \<Rightarrow> u64 \<Rightarrow> bytes option \<Rightarrow> bytes option \<Rightarrow> nmbm_oob_mode \<Rightarrow> int \<times> 'd"
type_synonym 'd block_fn = "'d \<Rightarrow> u64 \<Rightarrow> int \<times> 'd"

record 'd nmbm_lower_device =
  nld_max_ratio :: u32
  nld_max_reserved_blocks :: u32
  nld_flags :: u32
  nld_size :: u64
  nld_erasesize :: u32
  nld_writesize :: u32
  nld_oobsize :: u32
  nld_oobavail :: u32
  nld_reset_chip :: "'d reset_fn option"
  nld_read_page :: "'d read_fn option"
  nld_write_page :: "'d write_fn option"
  nld_erase_block :: "'d block_fn option"
  nld_is_bad_block :: "'d block_fn option"
  nld_mark_bad_block :: "'d block_fn option"

record 'd nmbm_instance =
  ni_lower :: "'d nmbm_lower_device"
  ni_arg :: 'd
  ni_rawpage_size :: u32
  ni_rawblock_size :: u32
  ni_rawchip_size :: u32
  ni_writesize_mask :: u32
  ni_erasesize_mask :: u32
  ni_writesize_shift :: u16
  ni_erasesize_shift :: u16
  ni_signature :: nmbm_signature
  ni_info_table_cache :: bytes
  ni_info_table_size :: u32
  ni_info_table_spare_blocks :: u32
  ni_info_table :: nmbm_info_table_header
  ni_block_state :: "u32 list"
  ni_block_state_changed :: u32
  ni_state_table_size :: u32
  ni_block_mapping :: "u32 list"
  ni_block_mapping_changed :: u32
  ni_mapping_table_size :: u32
  ni_page_cache :: bytes
  ni_protected :: int
  ni_block_count :: u32
  ni_data_block_count :: u32
  ni_mgmt_start_ba :: u32
  ni_main_table_ba :: u32
  ni_backup_table_ba :: u32
  ni_mapping_blocks_ba :: u32
  ni_mapping_blocks_top_ba :: u32
  ni_signature_ba :: u32
  ni_log_display_level :: nmbm_log_category

text \<open>Abbreviations for the geometry read through the instance.\<close>

abbreviation ni_erasesize :: "'d nmbm_instance \<Rightarrow> u32" where
  "ni_erasesize ni \<equiv> nld_erasesize (ni_lower ni)"
abbreviation ni_writesize :: "'d nmbm_instance \<Rightarrow> u32" where
  "ni_writesize ni \<equiv> nld_writesize (ni_lower ni)"
abbreviation ni_oobsize :: "'d nmbm_instance \<Rightarrow> u32" where
  "ni_oobsize ni \<equiv> nld_oobsize (ni_lower ni)"

section \<open>Header checks\<close>

text \<open>
  \<^verbatim>\<open>nmbm_check_header\<close>: the size in the header must not exceed the buffer, and the
  checksum of the structure with its checksum field set to 0 must match.
\<close>

definition nmbm_check_header :: "bytes \<Rightarrow> u32 \<Rightarrow> bool option" where
  "nmbm_check_header data sz = do {
     hb \<leftarrow> mem_read 0 sizeof_header data;
     let header = header_of hb;
     if hdr_size header > sz then Some False
     else do {
       let nhdr = header\<lparr>hdr_checksum := 0\<rparr>;
       let new_checksum = nmbm_crc32 0 0 (header_bytes nhdr);
       new_checksum \<leftarrow>
         (if hdr_size header > 16
          then do {
            body \<leftarrow> mem_read sizeof_header (unat (hdr_size header - 16)) data;
            Some (nmbm_crc32 0 new_checksum body) }
          else Some new_checksum);
       Some (hdr_checksum header = new_checksum)
     }
   }"

definition nmbm_update_checksum :: "bytes \<Rightarrow> bytes option" where
  "nmbm_update_checksum data = do {
     data \<leftarrow> mem_write 12 (enc32 0) data;
     hb \<leftarrow> mem_read 0 sizeof_header data;
     body \<leftarrow> mem_read 0 (unat (hdr_size (header_of hb))) data;
     mem_write 12 (enc32 (nmbm_crc32 0 0 body)) data
   }"

definition nmbm_get_spare_block_count :: "u32 \<Rightarrow> u32" where
  "nmbm_get_spare_block_count block_count =
     (let val = (block_count + NMBM_SPARE_BLOCK_DIV div 2) div NMBM_SPARE_BLOCK_DIV;
          val = val * NMBM_SPARE_BLOCK_MULTI
      in if val < NMBM_SPARE_BLOCK_MIN then NMBM_SPARE_BLOCK_MIN else val)"

section \<open>Structures and their byte images\<close>

lemma field32_app [simp]: "length xs = off \<Longrightarrow> field32 off (xs @ enc32 w @ rest) = w"
  by (simp add: field32_def u32.dec_enc)

lemma field32_app_last [simp]: "length xs = off \<Longrightarrow> field32 off (xs @ enc32 w) = w"
  using field32_app [of xs off w "[]"] by simp

lemma field32_skip: "length xs \<le> off \<Longrightarrow> field32 off (xs @ ys) = field32 (off - length xs) ys"
  by (simp add: field32_def)

lemma field32_front: "off + 4 \<le> length xs \<Longrightarrow> field32 off (xs @ ys) = field32 off xs"
  by (simp add: field32_def)

lemma field32_take: "off + 4 \<le> n \<Longrightarrow> field32 off (take n xs) = field32 off xs"
  by (simp add: field32_def drop_take)

lemma length_header_bytes [simp]: "length (header_bytes h) = sizeof_header"
  by (simp add: header_bytes_def)

lemma header_of_bytes [simp]: "header_of (header_bytes h @ rest) = h"
proof -
  have "field32 0 (header_bytes h @ rest) = hdr_magic h"
    "field32 4 (header_bytes h @ rest) = hdr_version h"
    "field32 8 (header_bytes h @ rest) = hdr_size h"
    "field32 12 (header_bytes h @ rest) = hdr_checksum h"
    by (simp_all add: header_bytes_def field32_def u32.dec_enc)
  then show ?thesis by (simp add: header_of_def)
qed

lemma enc32_field32: "off + 4 \<le> length bs \<Longrightarrow> enc32 (field32 off bs) = take 4 (drop off bs)"
  by (simp add: field32_def u32.enc_dec)

lemma take_three_fields: "take 4 bs @ take 4 (drop 4 bs) @ take 4 (drop 8 bs) = take 12 bs"
  using take_add [of 4 8 bs] take_add [of 4 4 "drop 4 bs"] by simp

lemma take_four_fields:
  "take 4 bs @ take 4 (drop 4 bs) @ take 4 (drop 8 bs) @ take 4 (drop 12 bs) = take 16 bs"
proof -
  have "take 16 bs = take 12 bs @ take 4 (drop 12 bs)" using take_add [of 12 4 bs] by simp
  then show ?thesis by (simp flip: take_three_fields)
qed

lemma header_bytes_of:
  assumes "16 \<le> length bs"
  shows "header_bytes (header_of bs) = take 16 bs"
  using assms take_four_fields [of bs]
  by (simp add: header_bytes_def header_of_def enc32_field32)

lemma length_signature_bytes:
  "length (sig_padding s) = 7 \<Longrightarrow> length (signature_bytes s) = sizeof_signature"
  by (simp add: signature_bytes_def)

lemma signature_of_bytes:
  assumes "length (sig_padding s) = 7"
  shows "signature_of (signature_bytes s) = s"
proof -
  have "header_of (signature_bytes s) = sig_header s"
    by (simp add: signature_bytes_def)
  moreover have "dec64 (take 8 (drop 16 (signature_bytes s))) = sig_nand_size s"
    by (simp add: signature_bytes_def u64.dec_enc)
  moreover have "field32 24 (signature_bytes s) = sig_block_size s"
    "field32 28 (signature_bytes s) = sig_page_size s"
    "field32 32 (signature_bytes s) = sig_spare_size s"
    "field32 36 (signature_bytes s) = sig_mgmt_start_pb s"
    by (simp_all add: signature_bytes_def field32_def u32.dec_enc)
  moreover have "signature_bytes s ! 40 = sig_max_try_count s"
    by (simp add: signature_bytes_def nth_append)
  moreover have "take 7 (drop 41 (signature_bytes s)) = sig_padding s"
    using assms by (simp add: signature_bytes_def)
  ultimately show ?thesis by (simp add: signature_of_def)
qed

lemma length_info_header_bytes [simp]:
  "length (info_header_bytes t) = sizeof_info_table_header"
  by (simp add: info_header_bytes_def)

lemma info_header_of_bytes [simp]: "info_header_of (info_header_bytes t @ rest) = t"
proof -
  have "header_of (info_header_bytes t @ rest) = ift_header t"
    by (simp add: info_header_bytes_def)
  moreover have "field32 16 (info_header_bytes t @ rest) = ift_write_count t"
    "field32 20 (info_header_bytes t @ rest) = ift_state_table_off t"
    "field32 24 (info_header_bytes t @ rest) = ift_mapping_table_off t"
    "field32 28 (info_header_bytes t @ rest) = ift_padding t"
    by (simp_all add: info_header_bytes_def field32_def u32.dec_enc)
  ultimately show ?thesis by (simp add: info_header_of_def)
qed

section \<open>The checksum of a structure\<close>

text \<open>The bytes the checksum covers: the first \<open>n\<close>, with the checksum field set to 0.\<close>

definition covered :: "nat \<Rightarrow> bytes \<Rightarrow> bytes" where
  "covered n data = take 12 data @ enc32 0 @ drop 16 (take n data)"

lemma header_size_field [simp]: "hdr_size (header_of bs) = field32 8 bs"
  by (simp add: header_of_def)

lemma nmbm_check_header_eq:
  assumes "16 \<le> unat (field32 8 data)" and "field32 8 data \<le> sz"
    and "unat (field32 8 data) \<le> length data"
  shows "nmbm_check_header data sz =
     Some (field32 12 data = crc_ref 0 (covered (unat (field32 8 data)) data))"
proof -
  let ?n = "unat (field32 8 data)"
  let ?h = "header_of (take 16 data)"
  have len: "16 \<le> length data" using assms by linarith
  have f: "field32 8 (take 16 data) = field32 8 data" "field32 12 (take 16 data) = field32 12 data"
    by (simp_all add: field32_take)
  have sz: "\<not> hdr_size ?h > sz" "hdr_checksum ?h = field32 12 data"
    using assms(2) f by (simp_all add: header_of_def)
  have z: "header_bytes (?h\<lparr>hdr_checksum := 0\<rparr>) = take 12 data @ enc32 0"
    using len take_three_fields [of data]
    by (simp add: header_bytes_def header_of_def enc32_field32 drop_take)
  have body: "mem_read 16 (unat (field32 8 data - 16)) data = Some (drop 16 (take ?n data))"
    if "field32 8 data > 16"
  proof -
    have "unat (field32 8 data - 16) = ?n - 16"
      using that by (simp add: unat_sub)
    then show ?thesis using assms by (simp add: mem_read_def drop_take)
  qed
  have nobody: "drop 16 (take ?n data) = []" if "\<not> field32 8 data > 16"
    using that by (simp add: word_less_nat_alt)
  show ?thesis
    using len sz f body nobody
    by (cases "field32 8 data > 16")
      (simp_all add: nmbm_check_header_def mem_read_def [of 0] z nmbm_crc32_ref covered_def
        ref.sum_append ref.sum_Nil Let_def del: enc_le.simps)
qed

lemma covered_update:
  assumes "mem_write 12 src data = Some data'" and "length src = 4" and "16 \<le> n"
  shows "covered n data' = covered n data"
proof -
  have "16 \<le> length data" and "data' = take 12 data @ src @ drop 16 data"
    using assms by (simp_all add: mem_write_Some)
  with assms(2,3) show ?thesis
    by (simp add: covered_def drop_take)
qed

lemma covered_zeroed:
  assumes "mem_write 12 (enc32 0) data = Some data'" and "16 \<le> n" and "n \<le> length data"
  shows "take n data' = covered n data"
proof -
  have "16 \<le> length data" and "data' = take 12 data @ enc32 0 @ drop 16 data"
    using assms(1) by (simp_all add: mem_write_Some del: enc_le.simps)
  with assms(2,3) show ?thesis
    by (simp add: covered_def drop_take del: enc_le.simps)
qed

lemma field32_update:
  assumes "mem_write 12 src data = Some data'" and "length src = 4"
  shows "field32 8 data' = field32 8 data" and "field32 12 data' = dec32 src"
proof -
  have "16 \<le> length data" and "data' = take 12 data @ src @ drop 16 data"
    using assms by (simp_all add: mem_write_Some)
  with assms(2) show "field32 8 data' = field32 8 data" and "field32 12 data' = dec32 src"
    by (simp_all add: field32_def drop_take)
qed

lemma nmbm_update_checksum_eq:
  assumes "16 \<le> unat (field32 8 data)" and "unat (field32 8 data) \<le> length data"
  shows "nmbm_update_checksum data =
    mem_write 12 (enc32 (crc_ref 0 (covered (unat (field32 8 data)) data))) data"
proof -
  let ?n = "unat (field32 8 data)"
  have len: "16 \<le> length data" using assms by linarith
  then obtain data1 where d1: "mem_write 12 (enc32 0) data = Some data1"
    by (simp add: mem_write_def del: enc_le.simps)
  then have eq1: "data1 = take 12 data @ enc32 0 @ drop 16 data"
    by (simp add: mem_write_Some del: enc_le.simps)
  have l1: "length data1 = length data" using mem_write_length [OF d1] .
  have f1: "field32 8 data1 = field32 8 data" using field32_update(1) [OF d1] by simp
  have t: "take ?n data1 = covered ?n data" using covered_zeroed [OF d1 assms] .
  have "mem_write 12 src data1 = mem_write 12 src data" if "length src = 4" for src
    using that len by (simp add: mem_write_def l1) (simp add: eq1)
  then show ?thesis
    using len l1 assms by (simp add: nmbm_update_checksum_def d1 mem_read_def f1 field32_take t
        nmbm_crc32_ref del: enc_le.simps)
qed

lemma update_checksum_passes:
  assumes "16 \<le> unat (field32 8 data)" and "unat (field32 8 data) \<le> length data"
    and "field32 8 data \<le> sz"
  shows "\<exists>data'. nmbm_update_checksum data = Some data' \<and>
     take 12 data' = take 12 data \<and> drop 16 data' = drop 16 data \<and>
     length data' = length data \<and> nmbm_check_header data' sz = Some True"
proof -
  let ?n = "unat (field32 8 data)"
  let ?crc = "crc_ref 0 (covered ?n data)"
  have len: "16 \<le> length data" using assms by linarith
  then obtain data' where d: "mem_write 12 (enc32 ?crc) data = Some data'"
    by (simp add: mem_write_def del: enc_le.simps)
  then have eq: "data' = take 12 data @ enc32 ?crc @ drop 16 data"
    by (simp add: mem_write_Some del: enc_le.simps)
  have l: "length data' = length data" using mem_write_length [OF d] .
  have f: "field32 8 data' = field32 8 data" "field32 12 data' = ?crc"
    using field32_update [OF d] by (simp_all add: u32.dec_enc)
  have "covered ?n data' = covered ?n data"
    using covered_update [OF d] assms(1) by simp
  then have "nmbm_check_header data' sz = Some True"
    using nmbm_check_header_eq [of data' sz] assms f l by simp
  then show ?thesis
    using nmbm_update_checksum_eq [OF assms(1,2)] d len l by (simp add: eq del: enc_le.simps)
qed

text \<open>
  C25: a structure whose checksum was just computed passes the check. For every buffer
  that holds the structure (header size at least a header's and at most the buffer's),
  \<open>nmbm_update_checksum\<close> returns, changes nothing but the four checksum bytes, and
  \<open>nmbm_check_header\<close> accepts the result for every size limit that admits the structure.
\<close>

theorem nmbm_checksum_roundtrip:
  assumes "16 \<le> unat (field32 8 data)" and "unat (field32 8 data) \<le> length data"
    and "field32 8 data \<le> sz"
  shows "\<exists>data'. nmbm_update_checksum data = Some data' \<and>
     take 12 data' = take 12 data \<and> drop 16 data' = drop 16 data \<and>
     length data' = length data \<and> nmbm_check_header data' sz = Some True"
  using update_checksum_passes [OF assms] .

lemma covered_list_update:
  assumes "i < n" and "n \<le> length data" and "16 \<le> n" and "i < 12 \<or> 16 \<le> i"
  shows "covered n (data[i := b]) = (covered n data)[i := b]"
    and "covered n data ! i = data ! i" and "i < length (covered n data)"
proof -
  show "covered n (data[i := b]) = (covered n data)[i := b]"
    using assms by (auto simp: covered_def list_update_append drop_update_swap take_update_swap list_update_beyond
        simp del: enc_le.simps)
  show "covered n data ! i = data ! i"
    using assms by (auto simp: covered_def nth_append simp del: enc_le.simps)
  show "i < length (covered n data)"
    using assms by (simp add: covered_def)
qed

lemma crc_ref_list_update:
  assumes "i < length bs" and "b \<noteq> bs ! i"
  shows "crc_ref c (bs[i := b]) \<noteq> crc_ref c bs"
  using ref.one_byte_detected [OF assms(2), of c "take i bs" "drop (Suc i) bs"] assms(1)
  by (simp add: upd_conv_take_nth_drop id_take_nth_drop [symmetric])

theorem nmbm_checksum_roundtrip_witness:
  "\<exists>data'. nmbm_update_checksum
       [1, 2, 3, 4, 0, 0, 1, 0, 20, 0, 0, 0, 9, 9, 9, 9, 7, 7, 7, 7] = Some data' \<and>
     take 12 data' = [1, 2, 3, 4, 0, 0, 1, 0, 20, 0, 0, 0] \<and> drop 16 data' = [7, 7, 7, 7] \<and>
     nmbm_check_header data' 48 = Some True"
  using nmbm_checksum_roundtrip
    [of "[1, 2, 3, 4, 0, 0, 1, 0, 20, 0, 0, 0, 9, 9, 9, 9, 7, 7, 7, 7]" 48]
  by (auto simp: field32_def)

text \<open>
  C26: the check detects the corruption of any single byte. If a structure passes and one
  byte inside it other than the four bytes of the size field is changed, the changed
  structure is rejected.
\<close>

theorem nmbm_check_header_detects:
  assumes ok: "nmbm_check_header data sz = Some True"
    and n: "16 \<le> unat (field32 8 data)" "unat (field32 8 data) \<le> length data"
      "field32 8 data \<le> sz"
    and i: "i < unat (field32 8 data)" "i < 8 \<or> 12 \<le> i" and b: "b \<noteq> data ! i"
  shows "nmbm_check_header (data[i := b]) sz = Some False"
proof -
  let ?n = "unat (field32 8 data)" and ?d = "data[i := b]"
  have il: "i < length data" using i n by linarith
  have f8: "field32 8 ?d = field32 8 data"
    using i(2) by (auto simp: field32_def drop_update_swap take_update_swap list_update_beyond)
  have good: "field32 12 data = crc_ref 0 (covered ?n data)"
    using ok nmbm_check_header_eq [OF n(1,3,2)] by simp
  have "field32 12 ?d \<noteq> crc_ref 0 (covered ?n ?d)"
  proof (cases "12 \<le> i \<and> i < 16")
    case True
    then have c: "covered ?n ?d = covered ?n data"
      using n by (simp add: covered_def drop_update_cancel drop_take)
    have "take 4 (drop 12 ?d) ! (i - 12) \<noteq> take 4 (drop 12 data) ! (i - 12)"
    proof -
      have "12 \<le> length data" "i - 12 < 4" "12 + (i - 12) = i" using n True by linarith+
      then show ?thesis using il b by (simp add: nth_drop nth_take)
    qed
    then have "field32 12 ?d \<noteq> field32 12 data"
      using n il u32.dec_inj [of "take 4 (drop 12 ?d)" "take 4 (drop 12 data)"]
      by (auto simp: field32_def)
    with good c show ?thesis by simp
  next
    case False
    with i(2) have i': "i < 12 \<or> 16 \<le> i" by linarith
    have "field32 12 ?d = field32 12 data"
      using i' by (auto simp: field32_def drop_update_swap take_update_swap list_update_beyond)
    moreover have "crc_ref 0 (covered ?n ?d) \<noteq> crc_ref 0 (covered ?n data)"
      using covered_list_update [OF i(1) n(2,1) i'] b by (simp add: crc_ref_list_update)
    ultimately show ?thesis using good by simp
  qed
  with nmbm_check_header_eq [of ?d sz] n f8 show ?thesis by simp
qed

theorem nmbm_check_header_detects_witness:
  "nmbm_check_header
     [1, 2, 3, 4, 0, 0, 1, 0, 20, 0, 0, 0, 183, 221, 241, 83, 7, 7, 9, 7] 20 = Some False"
proof -
  let ?d = "[1, 2, 3, 4, 0, 0, 1, 0, 20, 0, 0, 0, 183, 221, 241, 83, 7, 7, 7, 7] :: bytes"
  have f: "field32 8 ?d = 20" "field32 12 ?d = 0x53f1ddb7"
    by (simp_all add: field32_def)
  have c: "covered 20 ?d =
      [1, 2, 3, 4, 0, 0, 1, 0, 20, 0, 0, 0, 0, 0, 0, 0, 7, 7, 7, 7]"
    by (simp add: covered_def numeral_eq_Suc)
  have "crc_ref 0 [1, 2, 3, 4, 0, 0, 1, 0, 20, 0, 0, 0, 0, 0, 0, 0, 7, 7, 7, 7] = 0x53f1ddb7"
    by (simp add: crc_ref_def crc_byte_def crc_eight_def crc_bit_def)
  with f c have "nmbm_check_header ?d 20 = Some True"
    using nmbm_check_header_eq [of ?d 20] by simp
  from nmbm_check_header_detects [OF this, of 18 9] show ?thesis
    by (simp add: field32_def)
qed

end
