(* ===== verification/Nand_Sim.thy ===== *)
theory Nand_Sim
  imports Nmbm_Types
begin

text \<open>
  A reference NAND chip, on which the theorems about NMBM are exercised. NMBM itself is
  verified for every lower device; this one shows that the hypotheses can hold.

  The chip keeps pages of main data and of spare data by address; an erased byte is
  \<open>0xff\<close> and programming can only clear bits. \<open>nand_fail\<close> counts the operations that
  still fail, for exercising retries and error paths.
\<close>

record nand =
  nand_page :: "u64 \<Rightarrow> bytes"
  nand_spare :: "u64 \<Rightarrow> bytes"
  nand_fail :: nat

definition nand_failing :: "nand \<Rightarrow> int \<times> nand" where
  "nand_failing d = (if nand_fail d = 0 then (0, d) else (- EIO, d\<lparr>nand_fail := nand_fail d - 1\<rparr>))"

text \<open>What a read leaves in a buffer: the page's bytes, as many as the buffer holds.\<close>

definition fill :: "bytes \<Rightarrow> bytes \<Rightarrow> bytes" where
  "fill src buf = take (length buf) src @ drop (length src) buf"

definition sim_read_page :: "nand read_fn" where
  "sim_read_page d addr data oob mode =
     (let (ret, d) = nand_failing d
      in if ret \<noteq> 0 then (ret, data, oob, d)
         else (0, map_option (fill (nand_page d addr)) data,
               map_option (fill (nand_spare d addr)) oob, d))"

definition program :: "bytes \<Rightarrow> bytes option \<Rightarrow> bytes" where
  "program old data = (case data of None \<Rightarrow> old | Some bs \<Rightarrow> map2 (AND) old bs)"

definition sim_write_page :: "nand write_fn" where
  "sim_write_page d addr data oob mode =
     (let (ret, d) = nand_failing d
      in if ret \<noteq> 0 then (ret, d)
         else (0, d\<lparr>nand_page := (nand_page d)(addr := program (nand_page d addr) data),
                    nand_spare := (nand_spare d)(addr := program (nand_spare d addr) oob)\<rparr>))"

definition sim_erase_block :: "u64 \<Rightarrow> nat \<Rightarrow> nat \<Rightarrow> nand block_fn" where
  "sim_erase_block es ws ob d addr =
     (let (ret, d) = nand_failing d
      in if ret \<noteq> 0 then (ret, d)
         else (0, d\<lparr>nand_page := (\<lambda>a. if addr \<le> a \<and> a < addr + es then replicate ws 0xff
                                    else nand_page d a),
                    nand_spare := (\<lambda>a. if addr \<le> a \<and> a < addr + es then replicate ob 0xff
                                     else nand_spare d a)\<rparr>))"

text \<open>A small chip: 32 blocks of two 64-byte pages with 4 spare bytes each.\<close>

definition sample_lower :: "nand nmbm_lower_device" where
  "sample_lower = \<lparr>nld_max_ratio = 8, nld_max_reserved_blocks = 0, nld_flags = 1,
     nld_size = 4096, nld_erasesize = 128, nld_writesize = 64, nld_oobsize = 4, nld_oobavail = 4,
     nld_reset_chip = None, nld_read_page = Some sim_read_page,
     nld_write_page = Some sim_write_page,
     nld_erase_block = Some (sim_erase_block 128 64 4),
     nld_is_bad_block = None, nld_mark_bad_block = None\<rparr>"

definition sample_nand :: "nat \<Rightarrow> nand" where
  "sample_nand fail = \<lparr>nand_page = \<lambda>_. replicate 64 0xff, nand_spare = \<lambda>_. replicate 4 0xff,
     nand_fail = fail\<rparr>"

definition sample_header :: nmbm_header where
  "sample_header = \<lparr>hdr_magic = 0, hdr_version = 0, hdr_size = 0, hdr_checksum = 0\<rparr>"

text \<open>
  An instance attached to the small chip: 16 data blocks mapped one to one, the info
  tables at blocks 16 and 20, blocks 22 to 30 for remapping, the signature in block 31.
  The next \<open>fail\<close> chip operations fail.
\<close>

definition sample :: "nat \<Rightarrow> nand nmbm_instance" where
  "sample fail = \<lparr>ni_lower = sample_lower, ni_arg = sample_nand fail,
     ni_rawpage_size = 68, ni_rawblock_size = 136, ni_rawchip_size = 4352,
     ni_writesize_mask = 63, ni_erasesize_mask = 127,
     ni_writesize_shift = 6, ni_erasesize_shift = 7,
     ni_signature = \<lparr>sig_header = sample_header, sig_nand_size = 4096, sig_block_size = 128,
       sig_page_size = 64, sig_spare_size = 4, sig_mgmt_start_pb = 16, sig_max_try_count = 3,
       sig_padding = replicate 7 0\<rparr>,
     ni_info_table_cache = replicate 256 0, ni_info_table_size = 256,
     ni_info_table_spare_blocks = 2,
     ni_info_table = \<lparr>ift_header = sample_header, ift_write_count = 1, ift_state_table_off = 64,
       ift_mapping_table_off = 128, ift_padding = 0\<rparr>,
     ni_block_state = [0xffffffff, 0xffffffff], ni_block_state_changed = 0,
     ni_state_table_size = 8,
     ni_block_mapping = [0, 1, 2, 3, 4, 5, 6, 7, 8, 9, 10, 11, 12, 13, 14, 15]
       @ replicate 16 (-1), ni_block_mapping_changed = 0, ni_mapping_table_size = 128,
     ni_page_cache = replicate 68 0, ni_protected = 0, ni_block_count = 32,
     ni_data_block_count = 16, ni_mgmt_start_ba = 16, ni_main_table_ba = 16,
     ni_backup_table_ba = 20, ni_mapping_blocks_ba = 22, ni_mapping_blocks_top_ba = 30,
     ni_signature_ba = 31, ni_log_display_level = NMBM_LOG_INFO\<rparr>"

lemma sample_simps [simp]:
  "ni_lower (sample f) = sample_lower" "ni_arg (sample f) = sample_nand f"
  "ni_rawpage_size (sample f) = 68" "ni_writesize_mask (sample f) = 63"
  "ni_erasesize_mask (sample f) = 127" "ni_erasesize_shift (sample f) = 7"
  "ni_info_table_size (sample f) = 256" "ni_info_table_spare_blocks (sample f) = 2"
  "length (ni_info_table_cache (sample f)) = 256"
  "ift_state_table_off (ni_info_table (sample f)) = 64"
  "ift_mapping_table_off (ni_info_table (sample f)) = 128"
  "ni_block_state (sample f) = [0xffffffff, 0xffffffff]" "ni_block_state_changed (sample f) = 0"
  "ni_state_table_size (sample f) = 8"
  "ni_block_mapping (sample f) = [0, 1, 2, 3, 4, 5, 6, 7, 8, 9, 10, 11, 12, 13, 14, 15]
     @ replicate 16 (-1)"
  "ni_block_mapping_changed (sample f) = 0" "ni_mapping_table_size (sample f) = 128"
  "ni_page_cache (sample f) = replicate 68 0" "ni_protected (sample f) = 0"
  "ni_block_count (sample f) = 32" "ni_data_block_count (sample f) = 16"
  "ni_mgmt_start_ba (sample f) = 16" "ni_main_table_ba (sample f) = 16"
  "ni_backup_table_ba (sample f) = 20" "ni_mapping_blocks_ba (sample f) = 22"
  "ni_mapping_blocks_top_ba (sample f) = 30" "ni_signature_ba (sample f) = 31"
  by (simp_all add: sample_def)

lemma sample_lower_simps [simp]:
  "nld_erasesize sample_lower = 128" "nld_writesize sample_lower = 64"
  "nld_oobsize sample_lower = 4" "nld_size sample_lower = 4096" "nld_flags sample_lower = 1"
  "nld_reset_chip sample_lower = None" "nld_read_page sample_lower = Some sim_read_page"
  "nld_write_page sample_lower = Some sim_write_page"
  "nld_erase_block sample_lower = Some (sim_erase_block 128 64 4)"
  "nld_is_bad_block sample_lower = None" "nld_mark_bad_block sample_lower = None"
  "nld_max_ratio sample_lower = 8" "nld_max_reserved_blocks sample_lower = 0"
  by (simp_all add: sample_lower_def)

end
