(* ===== verification/Nmbm_Phys.thy ===== *)
theory Nmbm_Phys
  imports Nand_Sim
begin

text \<open>
  Physical access (\<^verbatim>\<open>nmbm-core.c\<close>, sections ``Address conversion functions'' and ``High
  level NAND chip APIs''): page reads, page writes and block erasures with retry, and the
  bad-block marks of the chip.

  Log output is not modelled; the log level, which \<open>nmbm_mark_phys_bad_block\<close> saves and
  restores, is a field of the instance like any other.
\<close>

section \<open>Log level\<close>

definition set_log_level :: "'d nmbm_instance \<Rightarrow> nmbm_log_category
    \<Rightarrow> nmbm_log_category \<times> 'd nmbm_instance" where
  "set_log_level ni level = (ni_log_display_level ni, ni\<lparr>ni_log_display_level := level\<rparr>)"

definition nmbm_set_log_level :: "'d nmbm_instance option \<Rightarrow> nmbm_log_category
    \<Rightarrow> nmbm_log_category \<times> 'd nmbm_instance option" where
  "nmbm_set_log_level nip level =
     (case nip of None \<Rightarrow> (NMBM_LOG_MAX, None)
      | Some ni \<Rightarrow> let (old, ni) = set_log_level ni level in (old, Some ni))"

section \<open>Address conversion\<close>

definition addr2ba :: "'d nmbm_instance \<Rightarrow> u64 \<Rightarrow> u32" where
  "addr2ba ni addr = ucast (drop_bit (unat (ni_erasesize_shift ni)) addr)"

definition ba2addr :: "'d nmbm_instance \<Rightarrow> u32 \<Rightarrow> u64" where
  "ba2addr ni ba = push_bit (unat (ni_erasesize_shift ni)) (ucast ba)"

definition size2blk :: "'d nmbm_instance \<Rightarrow> u64 \<Rightarrow> u32" where
  "size2blk ni sz =
     ucast (drop_bit (unat (ni_erasesize_shift ni)) (sz + ucast (ni_erasesize ni) - 1))"

section \<open>Retried chip operations\<close>

definition nmbm_reset_chip :: "'d nmbm_instance \<Rightarrow> 'd nmbm_instance" where
  "nmbm_reset_chip ni =
     (case nld_reset_chip (ni_lower ni) of None \<Rightarrow> ni
      | Some reset \<Rightarrow> ni\<lparr>ni_arg := snd (reset (ni_arg ni))\<rparr>)"

text \<open>The loops over \<open>tries\<close>; the last argument is the result of the last attempt.\<close>

primrec read_tries :: "nat \<Rightarrow> 'd nmbm_instance \<Rightarrow> u64 \<Rightarrow> bytes option \<Rightarrow> bytes option
    \<Rightarrow> nmbm_oob_mode \<Rightarrow> int \<Rightarrow> (int \<times> bytes option \<times> bytes option \<times> 'd nmbm_instance) option"
where
  "read_tries 0 ni addr data oob mode ret = Some (ret, data, oob, ni)"
| "read_tries (Suc n) ni addr data oob mode ret = do {
     read_page \<leftarrow> nld_read_page (ni_lower ni);
     let (ret, data, oob, arg) = read_page (ni_arg ni) addr data oob mode;
     let ni = ni\<lparr>ni_arg := arg\<rparr>;
     if ret = 0 then Some (0, data, oob, ni)
     else read_tries n (nmbm_reset_chip ni) addr data oob mode ret
   }"

definition nmbm_read_phys_page :: "'d nmbm_instance \<Rightarrow> u64 \<Rightarrow> bytes option \<Rightarrow> bytes option
    \<Rightarrow> nmbm_oob_mode \<Rightarrow> (int \<times> bytes option \<times> bytes option \<times> 'd nmbm_instance) option" where
  "nmbm_read_phys_page ni addr data oob mode = read_tries NMBM_TRY_COUNT ni addr data oob mode 0"

primrec write_tries :: "nat \<Rightarrow> 'd nmbm_instance \<Rightarrow> u64 \<Rightarrow> bytes option \<Rightarrow> bytes option
    \<Rightarrow> nmbm_oob_mode \<Rightarrow> (bool \<times> 'd nmbm_instance) option" where
  "write_tries 0 ni addr data oob mode = Some (False, ni)"
| "write_tries (Suc n) ni addr data oob mode = do {
     write_page \<leftarrow> nld_write_page (ni_lower ni);
     let (ret, arg) = write_page (ni_arg ni) addr data oob mode;
     let ni = ni\<lparr>ni_arg := arg\<rparr>;
     if ret = 0 then Some (True, ni)
     else write_tries n (nmbm_reset_chip ni) addr data oob mode
   }"

definition nmbm_write_phys_page :: "'d nmbm_instance \<Rightarrow> u64 \<Rightarrow> bytes option \<Rightarrow> bytes option
    \<Rightarrow> nmbm_oob_mode \<Rightarrow> (bool \<times> 'd nmbm_instance) option" where
  "nmbm_write_phys_page ni addr data oob mode = write_tries NMBM_TRY_COUNT ni addr data oob mode"

primrec erase_tries :: "nat \<Rightarrow> 'd nmbm_instance \<Rightarrow> u64 \<Rightarrow> (bool \<times> 'd nmbm_instance) option" where
  "erase_tries 0 ni addr = Some (False, ni)"
| "erase_tries (Suc n) ni addr = do {
     erase_block \<leftarrow> nld_erase_block (ni_lower ni);
     let (ret, arg) = erase_block (ni_arg ni) addr;
     let ni = ni\<lparr>ni_arg := arg\<rparr>;
     if ret = 0 then Some (True, ni) else erase_tries n (nmbm_reset_chip ni) addr
   }"

definition nmbm_erase_phys_block :: "'d nmbm_instance \<Rightarrow> u64 \<Rightarrow> (bool \<times> 'd nmbm_instance) option" where
  "nmbm_erase_phys_block ni addr = erase_tries NMBM_TRY_COUNT ni addr"

section \<open>The page cache\<close>

text \<open>
  Reads into \<^verbatim>\<open>ni->page_cache\<close>: the callback is given the main-data part (or the spare
  part) of the cache and what it leaves there goes back into the cache.
\<close>

definition read_page_to_cache :: "'d nmbm_instance \<Rightarrow> u64 \<Rightarrow> nmbm_oob_mode
    \<Rightarrow> (int \<times> 'd nmbm_instance) option" where
  "read_page_to_cache ni addr mode = do {
     buf \<leftarrow> mem_read 0 (unat (ni_writesize ni)) (ni_page_cache ni);
     (ret, data, _, ni) \<leftarrow> nmbm_read_phys_page ni addr (Some buf) None mode;
     data \<leftarrow> data;
     cache \<leftarrow> mem_write 0 data (ni_page_cache ni);
     Some (ret, ni\<lparr>ni_page_cache := cache\<rparr>)
   }"

definition read_oob_to_cache :: "'d nmbm_instance \<Rightarrow> u64 \<Rightarrow> nmbm_oob_mode
    \<Rightarrow> (int \<times> 'd nmbm_instance) option" where
  "read_oob_to_cache ni addr mode = do {
     buf \<leftarrow> mem_read (unat (ni_writesize ni)) (unat (ni_oobsize ni)) (ni_page_cache ni);
     (ret, _, oob, ni) \<leftarrow> nmbm_read_phys_page ni addr None (Some buf) mode;
     oob \<leftarrow> oob;
     cache \<leftarrow> mem_write (unat (ni_writesize ni)) oob (ni_page_cache ni);
     Some (ret, ni\<lparr>ni_page_cache := cache\<rparr>)
   }"

section \<open>Bad-block marks of the chip\<close>

definition nmbm_check_bad_phys_block :: "'d nmbm_instance \<Rightarrow> u32
    \<Rightarrow> (bool \<times> 'd nmbm_instance) option" where
  "nmbm_check_bad_phys_block ni ba =
     (let addr = ba2addr ni ba in
      case nld_is_bad_block (ni_lower ni) of
        Some is_bad_block \<Rightarrow>
          (let (ret, arg) = is_bad_block (ni_arg ni) addr
           in Some (ret \<noteq> 0, ni\<lparr>ni_arg := arg\<rparr>))
      | None \<Rightarrow> do {
          (ret, ni) \<leftarrow> read_oob_to_cache ni addr NMBM_MODE_PLACE_OOB;
          if ret < 0 then Some (True, ni)
          else do {
            mark \<leftarrow> arr_get (ni_page_cache ni) (unat (ni_writesize ni));
            Some (mark \<noteq> 0xff, ni)
          }
        })"

text \<open>The pages of a block, each overwritten with the all-zero raw page.\<close>

definition mark_bad_body :: "u64 \<Rightarrow> 'd nmbm_instance \<times> u32
    \<Rightarrow> ('d nmbm_instance + 'd nmbm_instance \<times> u32) option" where
  "mark_bad_body addr = (\<lambda>(ni, off).
     if off < ni_erasesize ni then do {
       data \<leftarrow> mem_read 0 (unat (ni_writesize ni)) (ni_page_cache ni);
       oob \<leftarrow> mem_read (unat (ni_writesize ni)) (unat (ni_oobsize ni)) (ni_page_cache ni);
       (_, ni) \<leftarrow> nmbm_write_phys_page ni (addr + ucast off) (Some data) (Some oob) NMBM_MODE_RAW;
       Some (Inr (ni, off + ni_writesize ni))
     } else Some (Inl ni))"

definition nmbm_mark_phys_bad_block :: "'d nmbm_instance \<Rightarrow> u32
    \<Rightarrow> (int \<times> 'd nmbm_instance) option" where
  "nmbm_mark_phys_bad_block ni ba =
     (let addr = ba2addr ni ba in
      case nld_mark_bad_block (ni_lower ni) of
        Some mark_bad_block \<Rightarrow>
          (let (ret, arg) = mark_bad_block (ni_arg ni) addr
           in Some (ret, ni\<lparr>ni_arg := arg\<rparr>))
      | None \<Rightarrow> do {
          cache \<leftarrow> mem_write 0 (replicate (unat (ni_rawpage_size ni)) 0) (ni_page_cache ni);
          let (level, ni) = set_log_level (ni\<lparr>ni_page_cache := cache\<rparr>) NMBM_LOG_MAX;
          ni \<leftarrow> loop (mark_bad_body addr) (ni, 0);
          let (_, ni) = set_log_level ni level;
          Some (0, ni)
        })"

section \<open>What a lower device must provide\<close>

text \<open>
  The three mandatory callbacks are present, and a read fills the buffers it is given: it
  neither drops a buffer nor changes its length. Nothing is assumed about success, about
  the data, or about the device's state.
\<close>

definition lower_ok :: "'d nmbm_lower_device \<Rightarrow> bool" where
  "lower_ok nld \<longleftrightarrow>
     nld_write_page nld \<noteq> None \<and> nld_erase_block nld \<noteq> None \<and>
     (\<exists>rd. nld_read_page nld = Some rd \<and>
        (\<forall>d addr data oob mode ret data' oob' d'.
           rd d addr data oob mode = (ret, data', oob', d') \<longrightarrow>
             map_option length data' = map_option length data \<and>
             map_option length oob' = map_option length oob))"

text \<open>
  The page geometry of an instance, which \<open>nmbm_init_structure\<close> sets up and no operation
  changes: a page fits a block, the masks belong to the sizes, and the page cache holds
  one raw page.
\<close>

definition page_geom :: "'d nmbm_instance \<Rightarrow> bool" where
  "page_geom ni \<longleftrightarrow>
     lower_ok (ni_lower ni) \<and>
     0 < ni_writesize ni \<and> ni_writesize ni \<le> ni_erasesize ni \<and> ni_erasesize ni \<le> 0x80000000 \<and>
     0 < ni_oobsize ni \<and>
     ni_writesize_mask ni = ni_writesize ni - 1 \<and> ni_erasesize_mask ni = ni_erasesize ni - 1 \<and>
     unat (ni_rawpage_size ni) = unat (ni_writesize ni) + unat (ni_oobsize ni) \<and>
     length (ni_page_cache ni) = unat (ni_writesize ni) + unat (ni_oobsize ni)"

named_theorems wp "rules that reduce a call to its postcondition"

section \<open>Retries\<close>

text \<open>
  The contract the three retry loops share: \<open>step\<close> either ends with a result or leaves a
  state for the next attempt; after \<open>n\<close> attempts the loop gives up.
\<close>

locale retried =
  fixes tries :: "nat \<Rightarrow> 's \<Rightarrow> 'r option"
    and step :: "'s \<Rightarrow> ('r + 's) option"
    and giveup :: "'s \<Rightarrow> 'r"
  assumes tries_0: "tries 0 s = Some (giveup s)"
    and tries_Suc: "tries (Suc n) s =
      step s \<bind> (\<lambda>x. case x of Inl r \<Rightarrow> Some r | Inr s' \<Rightarrow> tries n s')"
begin

text \<open>The state after \<open>k\<close> failed attempts.\<close>

primrec after :: "nat \<Rightarrow> 's \<Rightarrow> 's \<Rightarrow> bool" where
  "after 0 s s' \<longleftrightarrow> s' = s"
| "after (Suc k) s s' \<longleftrightarrow> (\<exists>s1. step s = Some (Inr s1) \<and> after k s1 s')"

lemma tries_success:
  "after k s s' \<Longrightarrow> step s' = Some (Inl r) \<Longrightarrow> k < n \<Longrightarrow> tries n s = Some r"
proof (induction k arbitrary: s n)
  case 0
  then show ?case by (cases n) (simp_all add: tries_Suc)
next
  case (Suc k)
  then show ?case by (cases n) (auto simp: tries_Suc)
qed

lemma tries_exhausted: "after n s s' \<Longrightarrow> tries n s = Some (giveup s')"
  by (induction n arbitrary: s) (auto simp: tries_0 tries_Suc)

text \<open>One of the two happens: an attempt among the first \<open>n\<close> ends the loop, or all fail.\<close>

lemma tries_cases:
  assumes "tries n s = Some r"
  obtains k s' where "k < n" "after k s s'" "step s' = Some (Inl r)"
  | s' where "after n s s'" "r = giveup s'"
  using assms
proof (induction n arbitrary: s thesis)
  case 0
  then show ?case by (auto simp: tries_0)
next
  case (Suc n)
  from Suc.prems(3) obtain x where x: "step s = Some x"
    and r: "(case x of Inl r \<Rightarrow> Some r | Inr s' \<Rightarrow> tries n s') = Some r"
    by (auto simp: tries_Suc split: Option.bind_splits)
  show ?case
  proof (cases x)
    case (Inl r')
    with x r Suc.prems(1) [of 0 s] show ?thesis by simp
  next
    case (Inr s1)
    with r have "tries n s1 = Some r" by simp
    from Suc.IH [OF _ _ this] x Inr show ?thesis
      by (metis Suc.prems(1,2) Suc_less_eq after.simps(2))
  qed
qed

lemma tries_inv:
  assumes "I s" and "\<And>s. I s \<Longrightarrow> returns (step s) (\<lambda>x. case x of Inl r \<Rightarrow> Q r | Inr s' \<Rightarrow> I s')"
    and "\<And>s. I s \<Longrightarrow> Q (giveup s)"
  shows "returns (tries n s) Q"
  using assms(1)
proof (induction n arbitrary: s)
  case 0
  then show ?case using assms(3) by (simp add: tries_0)
next
  case (Suc n)
  from assms(2) [OF Suc.prems] obtain x where "step s = Some x"
    and "case x of Inl r \<Rightarrow> Q r | Inr s' \<Rightarrow> I s'" by (rule returnsE)
  with Suc.IH show ?case by (cases x) (simp_all add: tries_Suc)
qed

end

text \<open>One attempt of each kind on the instance.\<close>

definition read_step :: "u64 \<Rightarrow> nmbm_oob_mode
    \<Rightarrow> int \<times> bytes option \<times> bytes option \<times> 'd nmbm_instance
    \<Rightarrow> (int \<times> bytes option \<times> bytes option \<times> 'd nmbm_instance
        + int \<times> bytes option \<times> bytes option \<times> 'd nmbm_instance) option" where
  "read_step addr mode = (\<lambda>(_, data, oob, ni). do {
     read_page \<leftarrow> nld_read_page (ni_lower ni);
     let (ret, data, oob, arg) = read_page (ni_arg ni) addr data oob mode;
     let ni = ni\<lparr>ni_arg := arg\<rparr>;
     Some (if ret = 0 then Inl (0, data, oob, ni) else Inr (ret, data, oob, nmbm_reset_chip ni))
   })"

definition write_step :: "u64 \<Rightarrow> bytes option \<Rightarrow> bytes option \<Rightarrow> nmbm_oob_mode
    \<Rightarrow> 'd nmbm_instance \<Rightarrow> (bool \<times> 'd nmbm_instance + 'd nmbm_instance) option" where
  "write_step addr data oob mode ni = do {
     write_page \<leftarrow> nld_write_page (ni_lower ni);
     let (ret, arg) = write_page (ni_arg ni) addr data oob mode;
     let ni = ni\<lparr>ni_arg := arg\<rparr>;
     Some (if ret = 0 then Inl (True, ni) else Inr (nmbm_reset_chip ni))
   }"

definition erase_step :: "u64 \<Rightarrow> 'd nmbm_instance
    \<Rightarrow> (bool \<times> 'd nmbm_instance + 'd nmbm_instance) option" where
  "erase_step addr ni = do {
     erase_block \<leftarrow> nld_erase_block (ni_lower ni);
     let (ret, arg) = erase_block (ni_arg ni) addr;
     let ni = ni\<lparr>ni_arg := arg\<rparr>;
     Some (if ret = 0 then Inl (True, ni) else Inr (nmbm_reset_chip ni))
   }"

interpretation rd: retried
  "\<lambda>n (ret, data, oob, ni). read_tries n ni addr data oob mode ret" "read_step addr mode" "\<lambda>s. s"
  for addr mode
  by unfold_locales
    (auto simp: read_step_def Let_def split: prod.splits Option.bind_splits)

interpretation wr: retried
  "\<lambda>n ni. write_tries n ni addr data oob mode" "write_step addr data oob mode" "\<lambda>ni. (False, ni)"
  for addr data oob mode
  by unfold_locales
    (auto simp: write_step_def Let_def split: prod.splits Option.bind_splits)

interpretation er: retried
  "\<lambda>n ni. erase_tries n ni addr" "erase_step addr" "\<lambda>ni. (False, ni)"
  for addr
  by unfold_locales
    (auto simp: erase_step_def Let_def split: prod.splits Option.bind_splits)

lemma lower_okD:
  assumes "lower_ok nld"
  shows "\<exists>wr. nld_write_page nld = Some wr" "\<exists>er. nld_erase_block nld = Some er"
    "\<exists>rd. nld_read_page nld = Some rd \<and>
       (\<forall>d addr data oob mode ret data' oob' d'.
          rd d addr data oob mode = (ret, data', oob', d') \<longrightarrow>
            map_option length data' = map_option length data \<and>
            map_option length oob' = map_option length oob)"
  using assms by (auto simp: lower_ok_def)

lemma reset_chip_eq:
  "nmbm_reset_chip ni = ni\<lparr>ni_arg :=
     (case nld_reset_chip (ni_lower ni) of None \<Rightarrow> ni_arg ni | Some reset \<Rightarrow> snd (reset (ni_arg ni)))\<rparr>"
  by (cases "nld_reset_chip (ni_lower ni)") (simp_all add: nmbm_reset_chip_def)

text \<open>
  Reads, writes and erasures return on every device that provides the callbacks, and
  change nothing of the instance but the device's own state.
\<close>

lemma read_phys_page_wp [wp]:
  assumes "lower_ok (ni_lower ni)"
    and "\<And>ret data' oob' d. map_option length data' = map_option length data \<Longrightarrow>
      map_option length oob' = map_option length oob \<Longrightarrow> Q (ret, data', oob', ni\<lparr>ni_arg := d\<rparr>)"
  shows "returns (nmbm_read_phys_page ni addr data oob mode) Q"
proof -
  let ?I = "\<lambda>(ret, data', oob', ni'). map_option length data' = map_option length data \<and>
    map_option length oob' = map_option length oob \<and> (\<exists>d. ni' = ni\<lparr>ni_arg := d\<rparr>)"
  from lower_okD(3) [OF assms(1)] obtain rd where rd: "nld_read_page (ni_lower ni) = Some rd"
    and len: "\<And>d addr data oob mode ret data' oob' d'. rd d addr data oob mode = (ret, data', oob', d')
      \<Longrightarrow> map_option length data' = map_option length data \<and>
          map_option length oob' = map_option length oob" by blast
  have "returns (read_step addr mode s) (\<lambda>x. case x of Inl r \<Rightarrow> ?I r | Inr s' \<Rightarrow> ?I s')"
    if "?I s" for s
    using that rd by (auto simp: read_step_def reset_chip_eq Let_def dest!: len split: prod.splits)
  then have "returns ((\<lambda>(ret, data, oob, ni). read_tries 3 ni addr data oob mode ret)
      (0, data, oob, ni)) ?I"
    by (intro rd.tries_inv [where I = ?I]) (auto intro: exI [of _ "ni_arg ni"])
  then show ?thesis unfolding nmbm_read_phys_page_def
    by (auto intro: assms(2) elim!: returns_mono)
qed

lemma write_phys_page_wp [wp]:
  assumes "lower_ok (ni_lower ni)" and "\<And>ok d. Q (ok, ni\<lparr>ni_arg := d\<rparr>)"
  shows "returns (nmbm_write_phys_page ni addr data oob mode) Q"
proof -
  let ?I = "\<lambda>ni'. \<exists>d. ni' = ni\<lparr>ni_arg := d\<rparr>"
  from lower_okD(1) [OF assms(1)] obtain wr where wr: "nld_write_page (ni_lower ni) = Some wr" ..
  have "returns (write_step addr data oob mode s) (\<lambda>x. case x of Inl r \<Rightarrow> ?I (snd r) | Inr s' \<Rightarrow> ?I s')"
    if "?I s" for s
    using that wr by (auto simp: write_step_def reset_chip_eq Let_def split: prod.splits)
  then have "returns (write_tries 3 ni addr data oob mode) (\<lambda>r. ?I (snd r))"
    by (intro wr.tries_inv [where I = ?I]) (auto intro: exI [of _ "ni_arg ni"])
  then show ?thesis unfolding nmbm_write_phys_page_def
    by (auto intro: assms(2) elim!: returns_mono)
qed

lemma erase_phys_block_wp [wp]:
  assumes "lower_ok (ni_lower ni)" and "\<And>ok d. Q (ok, ni\<lparr>ni_arg := d\<rparr>)"
  shows "returns (nmbm_erase_phys_block ni addr) Q"
proof -
  let ?I = "\<lambda>ni'. \<exists>d. ni' = ni\<lparr>ni_arg := d\<rparr>"
  from lower_okD(2) [OF assms(1)] obtain er where er: "nld_erase_block (ni_lower ni) = Some er" ..
  have "returns (erase_step addr s) (\<lambda>x. case x of Inl r \<Rightarrow> ?I (snd r) | Inr s' \<Rightarrow> ?I s')"
    if "?I s" for s
    using that er by (auto simp: erase_step_def reset_chip_eq Let_def split: prod.splits)
  then have "returns (erase_tries 3 ni addr) (\<lambda>r. ?I (snd r))"
    by (intro er.tries_inv [where I = ?I]) (auto intro: exI [of _ "ni_arg ni"])
  then show ?thesis unfolding nmbm_erase_phys_block_def
    by (auto intro: assms(2) elim!: returns_mono)
qed

section \<open>The page cache and the bad-block marks\<close>

lemma page_geomD:
  assumes "page_geom ni"
  shows "lower_ok (ni_lower ni)" "0 < ni_writesize ni" "ni_writesize ni \<le> ni_erasesize ni"
    "ni_erasesize ni \<le> 0x80000000" "0 < unat (ni_oobsize ni)"
    "ni_writesize_mask ni = ni_writesize ni - 1" "ni_erasesize_mask ni = ni_erasesize ni - 1"
    "unat (ni_rawpage_size ni) = unat (ni_writesize ni) + unat (ni_oobsize ni)"
    "length (ni_page_cache ni) = unat (ni_writesize ni) + unat (ni_oobsize ni)"
  using assms by (simp_all add: page_geom_def word_less_nat_alt)

lemma page_geom_frame [simp]:
  "page_geom (ni\<lparr>ni_arg := d\<rparr>) = page_geom ni"
  "length c = length (ni_page_cache ni) \<Longrightarrow> page_geom (ni\<lparr>ni_page_cache := c\<rparr>) = page_geom ni"
  "page_geom (ni\<lparr>ni_log_display_level := l\<rparr>) = page_geom ni"
  by (simp_all add: page_geom_def)

lemma read_page_to_cache_wp [wp]:
  assumes "page_geom ni"
    and "\<And>ret d c. length c = length (ni_page_cache ni) \<Longrightarrow>
      Q (ret, ni\<lparr>ni_arg := d, ni_page_cache := c\<rparr>)"
  shows "returns (read_page_to_cache ni addr mode) Q"
  using page_geomD [OF assms(1)] assms(2)
  by (auto simp: read_page_to_cache_def ret_simps intro!: wp)

lemma read_oob_to_cache_wp [wp]:
  assumes "page_geom ni"
    and "\<And>ret d c. length c = length (ni_page_cache ni) \<Longrightarrow>
      Q (ret, ni\<lparr>ni_arg := d, ni_page_cache := c\<rparr>)"
  shows "returns (read_oob_to_cache ni addr mode) Q"
  using page_geomD [OF assms(1)] assms(2)
  by (auto simp: read_oob_to_cache_def ret_simps intro!: wp)

lemma check_bad_phys_block_wp [wp]:
  assumes "page_geom ni"
    and "\<And>bad d c. length c = length (ni_page_cache ni) \<Longrightarrow>
      Q (bad, ni\<lparr>ni_arg := d, ni_page_cache := c\<rparr>)"
  shows "returns (nmbm_check_bad_phys_block ni ba) Q"
  using page_geomD [OF assms(1)] assms(2) [of "ni_page_cache ni"]
  by (auto simp: nmbm_check_bad_phys_block_def ret_simps assms Let_def
      split: option.split prod.split intro!: wp)

lemma unat_add_page:
  assumes "(off :: u32) < es" and "es \<le> 0x80000000" and "ws \<le> es"
  shows "unat (off + ws) = unat off + unat ws"
proof -
  have "unat off < unat es" "unat es \<le> 0x80000000" "unat ws \<le> unat es"
    using assms by (simp_all add: word_less_nat_alt word_le_nat_alt)
  then have "unat off + unat ws < 2 ^ 32" by simp
  then show ?thesis by (simp add: unat_word_ariths)
qed

lemma mark_bad_loop:
  assumes "page_geom ni" and "\<And>d. Q (ni\<lparr>ni_arg := d\<rparr>)"
  shows "returns (loop (mark_bad_body addr) (ni, off)) Q"
proof (rule loop_rule [where I = "\<lambda>(ni', off). \<exists>d. ni' = ni\<lparr>ni_arg := d\<rparr>"
      and m = "\<lambda>(ni', off). unat (ni_erasesize ni) - unat off"], goal_cases)
  case 1
  show ?case by (auto intro: exI [of _ "ni_arg ni"])
next
  case (2 s)
  note g = page_geomD [OF assms(1)]
  have pos: "0 < unat (ni_writesize ni)" using g(2) by (simp add: word_less_nat_alt)
  from 2 show ?case
    using g assms(2) pos unat_add_page [OF _ g(4,3)]
    by (auto simp: mark_bad_body_def ret_simps word_less_nat_alt intro!: wp)
qed

text \<open>Updates of different fields, brought into one order.\<close>

lemma ni_update_order [simp]:
  "ni\<lparr>ni_page_cache := c, ni_arg := d\<rparr> = ni\<lparr>ni_arg := d, ni_page_cache := c\<rparr>"
  by simp

lemma mark_phys_bad_block_wp [wp]:
  assumes "page_geom ni"
    and "\<And>ret d c. length c = length (ni_page_cache ni) \<Longrightarrow>
      Q (ret, ni\<lparr>ni_arg := d, ni_page_cache := c\<rparr>)"
  shows "returns (nmbm_mark_phys_bad_block ni ba) Q"
proof (cases "nld_mark_bad_block (ni_lower ni)")
  case None
  then show ?thesis
    using page_geomD [OF assms(1)] assms
    by (auto simp: nmbm_mark_phys_bad_block_def ret_simps set_log_level_def Let_def
        intro!: mark_bad_loop)
next
  case (Some mark)
  then show ?thesis
    using assms(2) [of "ni_page_cache ni"]
    by (auto simp: nmbm_mark_phys_bad_block_def Let_def split: prod.split)
qed

section \<open>Address conversions\<close>

lemma unat_ba2addr:
  assumes "unat (ni_erasesize_shift ni) \<le> 32"
  shows "unat (ba2addr ni ba) = unat ba * 2 ^ unat (ni_erasesize_shift ni)"
proof -
  have "(2::nat) ^ unat (ni_erasesize_shift ni) \<le> 2 ^ 32"
    using assms by (rule power_increasing) simp
  then have "unat ba * 2 ^ unat (ni_erasesize_shift ni) < 2 ^ 32 * 2 ^ 32"
    using unat_u32_less [of ba] by (intro mult_less_le_imp_less) simp_all
  then show ?thesis by (simp add: ba2addr_def unat_push_bit)
qed

lemma unat_addr2ba:
  "unat (addr2ba ni addr) = unat addr div 2 ^ unat (ni_erasesize_shift ni) mod 2 ^ 32"
  unfolding addr2ba_def unat_ucast_u32 unat_drop_bit by simp

text \<open>
  The address conversions are inverse on the blocks of a chip. For every block size up
  to 4 GiB, the byte at offset \<open>off\<close> inside block \<open>ba\<close> belongs to block \<open>ba\<close>, the masked
  address is the offset, and nothing overflows.
\<close>

lemma addr2ba_ba2addr:
  assumes "unat (ni_erasesize_shift ni) \<le> 32" and "unat off < 2 ^ unat (ni_erasesize_shift ni)"
  shows "addr2ba ni (ba2addr ni ba + off) = ba \<and>
    unat (ba2addr ni ba + off) = unat ba * 2 ^ unat (ni_erasesize_shift ni) + unat off"
proof -
  let ?n = "unat (ni_erasesize_shift ni)"
  have ba: "Suc (unat ba) \<le> 2 ^ 32" using unat_u32_less [of ba] by (rule Suc_leI)
  have "unat ba * 2 ^ ?n + unat off < Suc (unat ba) * 2 ^ ?n" using assms(2) by simp
  also have "\<dots> \<le> 2 ^ 32 * 2 ^ 32"
    using ba assms(1) by (intro mult_le_mono) (simp_all add: power_increasing del: power_numeral)
  finally have sum: "unat (ba2addr ni ba + off) = unat ba * 2 ^ ?n + unat off"
    by (simp add: unat_word_ariths unat_ba2addr [OF assms(1)])
  then have "unat (addr2ba ni (ba2addr ni ba + off)) = unat ba"
    using ba assms(2) by (simp add: unat_addr2ba div_mult_self3 mod_less)
  with sum show ?thesis by (simp add: word_unat_eq_iff)
qed

section \<open>Retries on the chip\<close>

text \<open>The chip's state before attempt number \<open>k\<close> of an erasure that keeps failing.\<close>

primrec chip_before :: "'d nmbm_lower_device \<Rightarrow> ('d \<Rightarrow> int \<times> 'd) \<Rightarrow> 'd \<Rightarrow> nat \<Rightarrow> 'd" where
  "chip_before nld attempt d 0 = d"
| "chip_before nld attempt d (Suc k) =
     (case nld_reset_chip nld of None \<Rightarrow> snd (attempt (chip_before nld attempt d k))
      | Some reset \<Rightarrow> snd (reset (snd (attempt (chip_before nld attempt d k)))))"

text \<open>
  erasing a block makes at most three attempts, resets the chip after each failed one,
  and reports success exactly when one of the three succeeds: at the first successful
  attempt it stops, and after three failures it gives up.
\<close>

theorem nmbm_erase_phys_block_retries:
  assumes "nld_erase_block (ni_lower ni) = Some er"
  shows "let dev = chip_before (ni_lower ni) (\<lambda>d. er d addr) (ni_arg ni) in
    (\<forall>k<3. fst (er (dev k) addr) = 0 \<longrightarrow> (\<forall>j<k. fst (er (dev j) addr) \<noteq> 0) \<longrightarrow>
      nmbm_erase_phys_block ni addr = Some (True, ni\<lparr>ni_arg := snd (er (dev k) addr)\<rparr>)) \<and>
    ((\<forall>k<3. fst (er (dev k) addr) \<noteq> 0) \<longrightarrow>
      nmbm_erase_phys_block ni addr = Some (False, ni\<lparr>ni_arg := dev 3\<rparr>))"
proof -
  define dev where "dev = chip_before (ni_lower ni) (\<lambda>d. er d addr) (ni_arg ni)"
  let ?at = "\<lambda>k. ni\<lparr>ni_arg := dev k\<rparr>"
  have step: "erase_step addr (?at k) = Some
      (if fst (er (dev k) addr) = 0 then Inl (True, ni\<lparr>ni_arg := snd (er (dev k) addr)\<rparr>)
       else Inr (?at (Suc k)))" for k
    using assms(1)
    by (cases "er (dev k) addr") (simp add: erase_step_def reset_chip_eq dev_def split: option.split)
  have after: "er.after addr k ni (?at k)" if "\<forall>j<k. fst (er (dev j) addr) \<noteq> 0" for k
  proof -
    have "er.after addr n (?at i) (?at (i + n))"
      if "\<forall>j<i + n. fst (er (dev j) addr) \<noteq> 0" for n i
      using that
    proof (induction n arbitrary: i)
      case (Suc n)
      from Suc.IH [of "Suc i"] Suc.prems step [of i] show ?case by simp
    qed simp
    from this [of 0 k] that show ?thesis by (simp add: dev_def)
  qed
  show ?thesis
    unfolding nmbm_erase_phys_block_def Let_def dev_def [symmetric]
    using er.tries_success [OF after] er.tries_exhausted [OF after] step by auto
qed

theorem nmbm_erase_phys_block_retries_witness:
  "nmbm_erase_phys_block (sample 3) 128 = Some (False, sample 0)"
  using nmbm_erase_phys_block_retries [of "sample 3" "sim_erase_block 128 64 4" 128]
  by (simp add: sim_erase_block_def nand_failing_def numeral_3_eq_3 sample_nand_def sample_def
      All_less_Suc)

end
