(* ===== verification/Nmbm_State.thy ===== *)
theory Nmbm_State
  imports Nmbm_Phys
begin

text \<open>
  The block state table, walks over good blocks, the bad-block scan and the initial block
  mapping (\<^verbatim>\<open>nmbm-core.c\<close>, section ``NMBM related functions'', first part).

  The state table is a bitmap with two bits per block. A walk returns \<open>Some nba\<close> where the
  code returns true with \<^verbatim>\<open>*nba\<close> set, and \<open>None\<close> where it returns false.
\<close>

section \<open>The block state table\<close>

definition nmbm_get_block_state_raw :: "u32 list \<Rightarrow> u32 \<Rightarrow> u32 option" where
  "nmbm_get_block_state_raw block_state ba = do {
     let unit = ba div NMBM_BITMAP_BLOCKS_PER_UNIT;
     let shift = (ba mod NMBM_BITMAP_BLOCKS_PER_UNIT) * NMBM_BITMAP_BITS_PER_BLOCK;
     uv \<leftarrow> arr_get block_state (unat unit);
     Some (drop_bit (unat shift) uv AND BLOCK_ST_MASK)
   }"

definition nmbm_get_block_state :: "'d nmbm_instance \<Rightarrow> u32 \<Rightarrow> u32 option" where
  "nmbm_get_block_state ni ba = nmbm_get_block_state_raw (ni_block_state ni) ba"

definition nmbm_set_block_state :: "'d nmbm_instance \<Rightarrow> u32 \<Rightarrow> u32
    \<Rightarrow> (bool \<times> 'd nmbm_instance) option" where
  "nmbm_set_block_state ni ba state = do {
     let unit = ba div NMBM_BITMAP_BLOCKS_PER_UNIT;
     let shift = (ba mod NMBM_BITMAP_BLOCKS_PER_UNIT) * NMBM_BITMAP_BITS_PER_BLOCK;
     old \<leftarrow> arr_get (ni_block_state ni) (unat unit);
     let orig = drop_bit (unat shift) old AND BLOCK_ST_MASK;
     let state = state AND BLOCK_ST_MASK;
     let uv = old AND NOT (push_bit (unat shift) BLOCK_ST_MASK);
     let uv = uv OR push_bit (unat shift) state;
     table \<leftarrow> arr_set (ni_block_state ni) (unat unit) uv;
     let ni = ni\<lparr>ni_block_state := table\<rparr>;
     if orig \<noteq> state
     then Some (True, ni\<lparr>ni_block_state_changed := ni_block_state_changed ni + 1\<rparr>)
     else Some (False, ni)
   }"

section \<open>Walks over good blocks\<close>

definition walk_asc_body :: "'d nmbm_instance \<Rightarrow> u32 \<Rightarrow> u32 \<times> int
    \<Rightarrow> (u32 option + u32 \<times> int) option" where
  "walk_asc_body ni limit = (\<lambda>(ba, nblock).
     if ba < limit then do {
       st \<leftarrow> nmbm_get_block_state ni ba;
       let nblock = (if st = BLOCK_ST_GOOD then nblock - 1 else nblock);
       if nblock < 0 then Some (Inl (Some ba)) else Some (Inr (ba + 1, nblock))
     } else Some (Inl None))"

definition nmbm_block_walk_asc :: "'d nmbm_instance \<Rightarrow> u32 \<Rightarrow> u32 \<Rightarrow> u32 \<Rightarrow> u32 option option" where
  "nmbm_block_walk_asc ni ba count limit =
     (let nblock = sint count;
          limit = (if limit \<ge> ni_block_count ni then ni_block_count ni - 1 else limit)
      in loop (walk_asc_body ni limit) (ba, nblock))"

definition walk_desc_body :: "'d nmbm_instance \<Rightarrow> u32 \<Rightarrow> u32 \<times> int
    \<Rightarrow> (u32 option + u32 \<times> int) option" where
  "walk_desc_body ni limit = (\<lambda>(ba, nblock).
     if ba > limit then do {
       st \<leftarrow> nmbm_get_block_state ni ba;
       let nblock = (if st = BLOCK_ST_GOOD then nblock - 1 else nblock);
       if nblock < 0 then Some (Inl (Some ba)) else Some (Inr (ba - 1, nblock))
     } else Some (Inl None))"

definition nmbm_block_walk_desc :: "'d nmbm_instance \<Rightarrow> u32 \<Rightarrow> u32 \<Rightarrow> u32 \<Rightarrow> u32 option option" where
  "nmbm_block_walk_desc ni ba count limit =
     (let nblock = sint count;
          limit = (if limit \<ge> ni_block_count ni then ni_block_count ni - 1 else limit)
      in loop (walk_desc_body ni limit) (ba, nblock))"

definition nmbm_block_walk :: "'d nmbm_instance \<Rightarrow> bool \<Rightarrow> u32 \<Rightarrow> u32 \<Rightarrow> u32
    \<Rightarrow> u32 option option" where
  "nmbm_block_walk ni ascending ba count limit =
     (if ascending then nmbm_block_walk_asc ni ba count limit
      else nmbm_block_walk_desc ni ba count limit)"

definition try_reserve_body :: "'d nmbm_instance \<Rightarrow> u32 \<Rightarrow> int \<Rightarrow> u32 \<Rightarrow> int
    \<Rightarrow> (u32 option + int) option" where
  "try_reserve_body ni ba min_count limit nblocks =
     (if nblocks \<ge> min_count then do {
        r \<leftarrow> nmbm_block_walk ni True ba (word_of_int nblocks) limit;
        case r of Some nba \<Rightarrow> Some (Inl (Some nba)) | None \<Rightarrow> Some (Inr (nblocks - 1))
      } else Some (Inl None))"

definition nmbm_try_reserve_blocks :: "'d nmbm_instance \<Rightarrow> u32 \<Rightarrow> u32 \<Rightarrow> int \<Rightarrow> u32
    \<Rightarrow> u32 option option" where
  "nmbm_try_reserve_blocks ni ba count min_count limit =
     loop (try_reserve_body ni ba min_count limit) (sint count)"

section \<open>Bad-block scan and initial mapping\<close>

definition scan_body :: "'d nmbm_instance \<times> u32
    \<Rightarrow> ('d nmbm_instance + 'd nmbm_instance \<times> u32) option" where
  "scan_body = (\<lambda>(ni, ba).
     if ba < ni_block_count ni then do {
       (bad, ni) \<leftarrow> nmbm_check_bad_phys_block ni ba;
       if bad then do {
         (_, ni) \<leftarrow> nmbm_set_block_state ni ba BLOCK_ST_BAD;
         Some (Inr (ni, ba + 1))
       } else Some (Inr (ni, ba + 1))
     } else Some (Inl ni))"

definition nmbm_scan_badblocks :: "'d nmbm_instance \<Rightarrow> 'd nmbm_instance option" where
  "nmbm_scan_badblocks ni = loop scan_body (ni, 0)"

definition build_body :: "'d nmbm_instance \<times> u32 \<times> u32
    \<Rightarrow> ('d nmbm_instance \<times> u32 + 'd nmbm_instance \<times> u32 \<times> u32) option" where
  "build_body = (\<lambda>(ni, pb, lb).
     if pb < ni_mgmt_start_ba ni then do {
       st \<leftarrow> nmbm_get_block_state ni pb;
       if st = BLOCK_ST_BAD then Some (Inr (ni, pb + 1, lb))
       else do {
         mapping \<leftarrow> arr_set (ni_block_mapping ni) (unat lb) pb;
         Some (Inr (ni\<lparr>ni_block_mapping := mapping\<rparr>, pb + 1, lb + 1))
       }
     } else Some (Inl (ni, lb)))"

definition unmap_body :: "'d nmbm_instance \<times> u32
    \<Rightarrow> ('d nmbm_instance + 'd nmbm_instance \<times> u32) option" where
  "unmap_body = (\<lambda>(ni, pb).
     if pb < ni_block_count ni then do {
       mapping \<leftarrow> arr_set (ni_block_mapping ni) (unat pb) (-1);
       Some (Inr (ni\<lparr>ni_block_mapping := mapping\<rparr>, pb + 1))
     } else Some (Inl ni))"

definition nmbm_build_mapping_table :: "'d nmbm_instance \<Rightarrow> 'd nmbm_instance option" where
  "nmbm_build_mapping_table ni = do {
     (ni, lb) \<leftarrow> loop build_body (ni, 0, 0);
     let ni = ni\<lparr>ni_data_block_count := lb\<rparr>;
     loop unmap_body (ni, lb)
   }"

section \<open>The state table as an abstract table\<close>

text \<open>The state of one block, and the table with one state replaced.\<close>

definition blk :: "u32 list \<Rightarrow> u32 \<Rightarrow> u32" where
  "blk bs ba = drop_bit (unat (ba mod 16 * 2)) (bs ! unat (ba div 16)) AND 3"

definition put_blk :: "u32 list \<Rightarrow> u32 \<Rightarrow> u32 \<Rightarrow> u32 list" where
  "put_blk bs ba st = bs[unat (ba div 16) :=
     (bs ! unat (ba div 16)) AND NOT (push_bit (unat (ba mod 16 * 2)) 3)
       OR push_bit (unat (ba mod 16 * 2)) (st AND 3)]"

lemma mask_2_u32: "(mask 2 :: u32) = 3"
  by (simp add: mask_eq_exp_minus_1)

lemma unat_shift: "unat (ba mod 16 * 2 :: u32) = 2 * (unat ba mod 16)"
proof -
  have "unat (ba mod 16) = unat ba mod 16" by (simp add: unat_mod)
  then show ?thesis by (simp add: unat_word_ariths)
qed

lemma unat_unit: "unat (ba div 16 :: u32) = unat ba div 16"
  by (simp add: unat_div)

lemma field_same:
  assumes "s + 2 \<le> 32"
  shows "drop_bit s ((w :: u32) AND NOT (push_bit s 3) OR push_bit s (st AND 3)) AND 3 = st AND 3"
  unfolding mask_2_u32 [symmetric]
  by (rule bit_word_eqI) (use assms in \<open>auto simp: bit_simps\<close>)

lemma field_other:
  assumes "t + 2 \<le> s \<or> s + 2 \<le> t"
  shows "drop_bit t ((w :: u32) AND NOT (push_bit s 3) OR push_bit s (st AND 3)) AND 3 =
    drop_bit t w AND 3"
  unfolding mask_2_u32 [symmetric]
  by (rule bit_word_eqI) (use assms in \<open>auto simp: bit_simps dest: bit_imp_le_length\<close>)

lemma blk_put_same: "unat ba < 16 * length bs \<Longrightarrow> blk (put_blk bs ba st) ba = st AND 3"
  unfolding blk_def put_blk_def unat_shift unat_unit
  using field_same [of "2 * (unat ba mod 16)"] by simp

lemma blk_put_other: 
  assumes "bb \<noteq> ba" shows "blk (put_blk bs ba st) bb = blk bs bb"
proof (cases "unat bb div 16 = unat ba div 16 \<and> unat ba div 16 < length bs")
  case True
  have "unat bb \<noteq> unat ba" using assms by (simp add: word_unat_eq_iff)
  then have "unat bb mod 16 \<noteq> unat ba mod 16" using True by (metis div_mult_mod_eq)
  then have "2 * (unat bb mod 16) + 2 \<le> 2 * (unat ba mod 16) \<or>
     2 * (unat ba mod 16) + 2 \<le> 2 * (unat bb mod 16)" by linarith
  from field_other [OF this] True show ?thesis
    by (simp add: blk_def put_blk_def unat_shift unat_unit)
next
  case False
  then show ?thesis by (auto simp: blk_def put_blk_def unat_unit list_update_beyond)
qed
text \<open>
  The contract of a table of block states, and what follows from it for the number of
  blocks that are not marked bad, which bounds every loop that retires blocks.
\<close>

locale state_table =
  fixes get :: "'t \<Rightarrow> u32 \<Rightarrow> u32" and put :: "'t \<Rightarrow> u32 \<Rightarrow> u32 \<Rightarrow> 't"
    and covers :: "'t \<Rightarrow> u32 \<Rightarrow> bool"
  assumes get_put_same: "covers t b \<Longrightarrow> get (put t b st) b = st AND 3"
    and get_put_other: "b' \<noteq> b \<Longrightarrow> get (put t b st) b' = get t b'"
    and covers_put: "covers (put t b st) b' = covers t b'"
begin

definition usable :: "'t \<Rightarrow> nat \<Rightarrow> u32 set" where
  "usable t n = {b. unat b < n \<and> get t b \<noteq> 0}"

lemma finite_usable [simp]: "finite (usable t n)"
  by (simp add: usable_def)

lemma usable_put_bad: "covers t b \<Longrightarrow> usable (put t b 0) n = usable t n - {b}"
proof -
  assume c: "covers t b"
  have "get (put t b 0) b' = (if b' = b then 0 else get t b')" for b'
    using get_put_same [OF c, of 0] get_put_other [of b' b t 0] by auto
  then show ?thesis by (auto simp: usable_def)
qed

lemma usable_put_less:
  "covers t b \<Longrightarrow> unat b < n \<Longrightarrow> get t b \<noteq> 0 \<Longrightarrow> card (usable (put t b 0) n) < card (usable t n)"
  by (simp add: usable_put_bad) (rule card_Diff1_less, simp_all add: usable_def)

lemma usable_put_le: "covers t b \<Longrightarrow> card (usable (put t b 0) n) \<le> card (usable t n)"
  by (simp add: usable_put_bad card_Diff1_le)

end

interpretation bst: state_table blk put_blk "\<lambda>bs b. unat b < 16 * length bs"
  by unfold_locales (simp_all add: blk_put_same blk_put_other, simp add: put_blk_def)

lemma length_put_blk [simp]: "length (put_blk bs b st) = length bs"
  by (simp add: put_blk_def)

lemma get_block_state_raw_eq:
  "nmbm_get_block_state_raw bs b = (if unat b < 16 * length bs then Some (blk bs b) else None)"
  by (auto simp: nmbm_get_block_state_raw_def blk_def arr_get_def unat_unit)

lemma returns_get_block_state [ret_simps]:
  "returns (nmbm_get_block_state ni b) Q \<longleftrightarrow>
     unat b < 16 * length (ni_block_state ni) \<and> Q (blk (ni_block_state ni) b)"
  by (simp add: nmbm_get_block_state_def get_block_state_raw_eq)

text \<open>The instance after a block's state was set: the table, and the change counter.\<close>

definition with_state :: "u32 \<Rightarrow> u32 \<Rightarrow> 'd nmbm_instance \<Rightarrow> 'd nmbm_instance" where
  "with_state b st ni = ni\<lparr>ni_block_state := put_blk (ni_block_state ni) b st,
     ni_block_state_changed := (if blk (ni_block_state ni) b \<noteq> st AND 3
       then ni_block_state_changed ni + 1 else ni_block_state_changed ni)\<rparr>"

lemma set_block_state_eq:
  "nmbm_set_block_state ni b st =
     (if unat b < 16 * length (ni_block_state ni)
      then Some (blk (ni_block_state ni) b \<noteq> st AND 3, with_state b st ni) else None)"
  by (auto simp: nmbm_set_block_state_def with_state_def blk_def put_blk_def arr_get_def
      arr_set_def unat_unit Let_def)

lemma returns_set_block_state [ret_simps]:
  "returns (nmbm_set_block_state ni b st) Q \<longleftrightarrow>
     unat b < 16 * length (ni_block_state ni) \<and>
     Q (blk (ni_block_state ni) b \<noteq> st AND 3, with_state b st ni)"
  by (simp add: set_block_state_eq)

text \<open>
  the two-bit state table behaves as a table. For every block the table covers, setting
  its state returns, the state read back is the one set (its two low bits), every other
  block keeps its state, and the change flag and the change counter tell exactly whether
  the state was a different one before.
\<close>

theorem nmbm_block_state_laws:
  assumes "unat ba < 16 * length (ni_block_state ni)"
  shows "\<exists>changed ni'. nmbm_set_block_state ni ba st = Some (changed, ni') \<and>
    nmbm_get_block_state ni' ba = Some (st AND BLOCK_ST_MASK) \<and>
    (\<forall>b. b \<noteq> ba \<longrightarrow> nmbm_get_block_state ni' b = nmbm_get_block_state ni b) \<and>
    (changed \<longleftrightarrow> nmbm_get_block_state ni ba \<noteq> Some (st AND BLOCK_ST_MASK)) \<and>
    ni_block_state_changed ni' = ni_block_state_changed ni + (if changed then 1 else 0)"
  using assms
  by (simp add: set_block_state_eq nmbm_get_block_state_def get_block_state_raw_eq with_state_def
      bst.get_put_same bst.get_put_other)

theorem nmbm_block_state_laws_witness:
  "\<exists>changed ni'. nmbm_set_block_state (sample 0) 17 BLOCK_ST_NEED_REMAP = Some (changed, ni') \<and>
    nmbm_get_block_state ni' 17 = Some BLOCK_ST_NEED_REMAP \<and>
    nmbm_get_block_state ni' 18 = nmbm_get_block_state (sample 0) 18"
  using nmbm_block_state_laws [of 17 "sample 0" BLOCK_ST_NEED_REMAP] by auto

section \<open>The walks\<close>

abbreviation good :: "'d nmbm_instance \<Rightarrow> u32 \<Rightarrow> bool" where
  "good ni b \<equiv> blk (ni_block_state ni) b = BLOCK_ST_GOOD"

text \<open>The good block after \<open>k\<close> others, in a list of block addresses in walking order.\<close>

definition nth_good :: "'d nmbm_instance \<Rightarrow> nat \<Rightarrow> u32 list \<Rightarrow> u32 option" where
  "nth_good ni k bas =
     (let gs = filter (good ni) bas in if k < length gs then Some (gs ! k) else None)"

lemma nth_good_simps [simp]:
  "nth_good ni k [] = None"
  "\<not> good ni b \<Longrightarrow> nth_good ni k (b # bas) = nth_good ni k bas"
  "good ni b \<Longrightarrow> nth_good ni 0 (b # bas) = Some b"
  "good ni b \<Longrightarrow> nth_good ni (Suc k) (b # bas) = nth_good ni k bas"
  by (simp_all add: nth_good_def)

lemma nth_good_SomeD:
  "nth_good ni k bas = Some b \<Longrightarrow> b \<in> set bas \<and> good ni b"
  using nth_mem [of k "filter (good ni) bas"] by (auto simp: nth_good_def Let_def split: if_splits)

text \<open>The addresses from \<open>a\<close> up to but not including \<open>b\<close>, and down from \<open>a\<close> to above \<open>b\<close>.\<close>

definition blocks_up :: "u32 \<Rightarrow> u32 \<Rightarrow> u32 list" where
  "blocks_up a b = map of_nat [unat a..<unat b]"

definition blocks_down :: "u32 \<Rightarrow> u32 \<Rightarrow> u32 list" where
  "blocks_down a b = rev (map of_nat [Suc (unat b)..<Suc (unat a)])"

lemma blocks_up_step: "a < b \<Longrightarrow> blocks_up a b = a # blocks_up (a + 1) b"
  using unat_inc [of a b] by (simp add: blocks_up_def upt_conv_Cons word_less_nat_alt)

lemma blocks_up_done: "\<not> a < b \<Longrightarrow> blocks_up a b = []"
  by (simp add: blocks_up_def word_less_nat_alt)

lemma blocks_down_step: "b < a \<Longrightarrow> blocks_down a b = a # blocks_down (a - 1) b"
proof -
  assume "b < a"
  then have "a \<noteq> 0" "unat b < unat a" by (auto simp: word_less_nat_alt)
  moreover from this have "Suc (unat (a - 1)) = unat a" using unat_dec [of a] by simp
  ultimately show ?thesis by (simp add: blocks_down_def)
qed

lemma blocks_down_done: "\<not> b < a \<Longrightarrow> blocks_down a b = []"
  by (simp add: blocks_down_def word_less_nat_alt)

lemma set_blocks_up: "b \<in> set (blocks_up a c) \<longleftrightarrow> a \<le> b \<and> b < c"
proof -
  have "b \<in> of_nat ` {unat a..<unat c} \<longleftrightarrow> unat b \<in> {unat a..<unat c}"
    by (auto simp: image_iff unat_of_nat intro!: bexI [of _ "unat b"])
       (use unat_u32_less [of c] in \<open>auto simp: mod_less\<close>)
  then show ?thesis by (simp add: blocks_up_def word_less_nat_alt word_le_nat_alt)
qed

lemma set_blocks_down: "b \<in> set (blocks_down a c) \<longleftrightarrow> c < b \<and> b \<le> a"
proof -
  have "b \<in> of_nat ` {Suc (unat c)..<Suc (unat a)} \<longleftrightarrow> unat b \<in> {Suc (unat c)..<Suc (unat a)}"
    by (auto simp: image_iff unat_of_nat intro!: bexI [of _ "unat b"])
       (use unat_u32_less [of a] in \<open>auto simp: mod_less\<close>)
  then show ?thesis
    by (auto simp: blocks_down_def word_less_nat_alt word_le_nat_alt simp del: upt_Suc)
qed

text \<open>
  What the two walks share: the body looks at one block of a list of addresses and either
  stops there or goes on to the next. Such a walk finds the wanted good block of the list.
\<close>

locale good_block_walk =
  fixes ni :: "'d nmbm_instance" and body :: "u32 \<times> int \<Rightarrow> (u32 option + u32 \<times> int) option"
    and route :: "u32 \<Rightarrow> u32 list" and nxt :: "u32 \<Rightarrow> u32" and inside :: "u32 \<Rightarrow> bool"
  assumes route_step: "inside b \<Longrightarrow> route b = b # route (nxt b)"
    and route_done: "\<not> inside b \<Longrightarrow> route b = []"
    and body_step: "inside b \<Longrightarrow> body (b, n) = do {
        st \<leftarrow> nmbm_get_block_state ni b;
        let n = (if st = BLOCK_ST_GOOD then n - 1 else n);
        if n < 0 then Some (Inl (Some b)) else Some (Inr (nxt b, n)) }"
    and body_done: "\<not> inside b \<Longrightarrow> body (b, n) = Some (Inl None)"
begin

lemma walk_finds:
  assumes "0 \<le> n" and "\<forall>b\<in>set (route ba). unat b < 16 * length (ni_block_state ni)"
  shows "loop body (ba, n) = Some (nth_good ni (nat n) (route ba))"
  using assms
proof (induction "length (route ba)" arbitrary: ba n rule: less_induct)
  case less
  show ?case
  proof (cases "inside ba")
    case False
    then show ?thesis by (intro loop_leave) (simp add: body_done route_done)
  next
    case True
    note route = route_step [OF True]
    let ?n = "if good ni ba then n - 1 else n"
    have body: "body (ba, n) = Some (if ?n < 0 then Inl (Some ba) else Inr (nxt ba, ?n))"
      using less.prems(2) route
      by (simp add: body_step [OF True] nmbm_get_block_state_def get_block_state_raw_eq)
    show ?thesis
    proof (cases "?n < 0")
      case stop: True
      then have "good ni ba" "n = 0" using less.prems by (simp_all split: if_splits)
      with body route show ?thesis by (intro loop_leave) simp
    next
      case go: False
      have "loop body (ba, n) = loop body (nxt ba, ?n)"
        using body go by (intro loop_continue) simp
      also have "\<dots> = Some (nth_good ni (nat ?n) (route (nxt ba)))"
        using go less.prems route by (intro less.hyps) simp_all
      also have "nth_good ni (nat ?n) (route (nxt ba)) = nth_good ni (nat n) (route ba)"
      proof (cases "good ni ba")
        case g: True
        with go obtain m where "nat n = Suc m" by (cases "nat n") auto
        with g route show ?thesis by (simp add: nat_diff_distrib)
      qed (use route in simp)
      finally show ?thesis .
    qed
  qed
qed

end

interpretation asc: good_block_walk ni "walk_asc_body ni lim" "\<lambda>b. blocks_up b lim" "\<lambda>b. b + 1"
  "\<lambda>b. b < lim" for ni lim
  by unfold_locales (simp_all add: blocks_up_step blocks_up_done walk_asc_body_def)

interpretation desc: good_block_walk ni "walk_desc_body ni lim" "\<lambda>b. blocks_down b lim"
  "\<lambda>b. b - 1" "\<lambda>b. b > lim" for ni lim
  by unfold_locales (simp_all add: blocks_down_step blocks_down_done walk_desc_body_def)

text \<open>The limit of a walk, clipped to the last block of the chip.\<close>

definition clip :: "'d nmbm_instance \<Rightarrow> u32 \<Rightarrow> u32" where
  "clip ni limit = (if limit \<ge> ni_block_count ni then ni_block_count ni - 1 else limit)"

lemma clip_less: "0 < ni_block_count ni \<Longrightarrow> clip ni limit < ni_block_count ni"
  using unat_dec [of "ni_block_count ni"]
  by (cases "ni_block_count ni = 0") (auto simp: clip_def word_less_nat_alt word_le_nat_alt)

definition states_cover :: "'d nmbm_instance \<Rightarrow> bool" where
  "states_cover ni \<longleftrightarrow> 0 < ni_block_count ni \<and>
     unat (ni_block_count ni) \<le> 16 * length (ni_block_state ni)"

lemma states_coverD:
  "states_cover ni \<Longrightarrow> b < ni_block_count ni \<Longrightarrow> unat b < 16 * length (ni_block_state ni)"
  by (simp add: states_cover_def word_less_nat_alt)

lemma walk_asc_eq:
  assumes "states_cover ni" and "0 \<le> sint count"
  shows "nmbm_block_walk_asc ni ba count limit =
    Some (nth_good ni (nat (sint count)) (blocks_up ba (clip ni limit)))"
proof -
  have "unat b < 16 * length (ni_block_state ni)" if "b < clip ni limit" for b
    using assms(1) that clip_less [of ni limit]
    by (simp add: states_cover_def word_less_nat_alt)
  then show ?thesis
    unfolding nmbm_block_walk_asc_def Let_def clip_def [symmetric]
    using assms(2) by (intro asc.walk_finds) (simp_all add: set_blocks_up)
qed

lemma walk_desc_eq:
  assumes "states_cover ni" and "0 \<le> sint count" and "ba < ni_block_count ni"
  shows "nmbm_block_walk_desc ni ba count limit =
    Some (nth_good ni (nat (sint count)) (blocks_down ba (clip ni limit)))"
  unfolding nmbm_block_walk_desc_def Let_def clip_def [symmetric]
  using assms by (intro desc.walk_finds) (auto simp: set_blocks_down intro!: states_coverD)

text \<open>
  what \<open>nmbm_block_walk\<close> finds. In both directions, for a count and a limit that
  are not negative, it returns the good block that follows \<open>count\<close> other good blocks on the
  way from \<open>ba\<close> to the limit (the limit itself not included, and an ascending walk never
  looking at the last block of the chip), and false when there are not enough of them. (For a negative
  limit, which the comment of the function documents as no limit, see \<open>nmbm_block_walk_negative_limit\<close> below.)
\<close>

theorem nmbm_block_walk_finds:
  assumes "states_cover ni" and "0 \<le> sint count" and "ba < ni_block_count ni" and "0 \<le> sint limit"
  shows "nmbm_block_walk ni ascending ba count limit =
    Some (let way = (if ascending then blocks_up ba (clip ni limit)
                     else blocks_down ba (clip ni limit));
              gs = filter (good ni) way
          in if nat (sint count) < length gs then Some (gs ! nat (sint count)) else None)"
  using assms
  by (simp add: nmbm_block_walk_def walk_asc_eq walk_desc_eq nth_good_def Let_def)

theorem nmbm_block_walk_finds_witness:
  "nmbm_block_walk (sample 0) True 22 2 30 = Some (Some 24) \<and>
   nmbm_block_walk (sample 0) False 30 2 22 = Some (Some 28)"
  using nmbm_block_walk_finds [of "sample 0" 2 22 30 True]
    nmbm_block_walk_finds [of "sample 0" 2 30 22 False]
  by (simp add: states_cover_def clip_def blocks_up_def blocks_down_def upt_rec blk_def)

text \<open>
  The comment of \<open>nmbm_block_walk\<close> says that a negative limit means no limit. In the
  descending direction a negative limit makes the walk fail at once, whatever the states:
  the limit is clipped to the last block, and no block lies above it.
\<close>

lemma nmbm_block_walk_negative_limit:
  assumes "states_cover ni" and "0 \<le> sint count" and "ba < ni_block_count ni"
    and "sint limit < 0" and "ni_block_count ni \<le> 0x80000000"
  shows "nmbm_block_walk ni False ba count limit = Some None"
proof -
  have "0x80000000 \<le> limit" using assms(4) unfolding sint_neg by (simp add: word_le_nat_alt)
  with assms(5) have "clip ni limit = ni_block_count ni - 1" by (auto simp: clip_def)
  moreover have "\<not> ni_block_count ni - 1 < ba"
    using assms(3) unat_dec [of "ni_block_count ni"]
    by (cases "ni_block_count ni = 0") (auto simp: word_less_nat_alt)
  ultimately show ?thesis
    using assms(1-3) by (simp add: nmbm_block_walk_def walk_desc_eq blocks_down_done)
qed

section \<open>Reserving blocks\<close>

lemma try_reserve_loop:
  fixes ni :: "'d nmbm_instance" and ba limit :: u32
  assumes "states_cover ni" and "0 \<le> m" and "n < 2 ^ 31"
  defines "gs \<equiv> filter (good ni) (blocks_up ba (clip ni limit))"
  shows "loop (try_reserve_body ni ba m limit) n =
    Some (if m \<le> n \<and> nat m < length gs then Some (gs ! min (nat n) (length gs - 1)) else None)"
  using assms(3)
proof (induction "nat (n + 1 - m)" arbitrary: n rule: less_induct)
  case less
  show ?case
  proof (cases "m \<le> n")
    case False
    then show ?thesis by (subst loop.simps) (simp add: try_reserve_body_def)
  next
    case True
    have walk: "nmbm_block_walk ni True ba (word_of_int n) limit =
        Some (if nat n < length gs then Some (gs ! nat n) else None)"
      using assms(1,2) True less.prems
      by (simp add: nmbm_block_walk_def walk_asc_eq sint_word_of_int_u32 nth_good_def Let_def gs_def)
    show ?thesis
    proof (cases "nat n < length gs")
      case enough: True
      then have "min (nat n) (length gs - 1) = nat n" "nat m < length gs" using True by auto
      with True walk enough show ?thesis
        by (intro loop_leave) (simp add: try_reserve_body_def)
    next
      case few: False
      have "loop (try_reserve_body ni ba m limit) n = loop (try_reserve_body ni ba m limit) (n - 1)"
        using True walk few by (intro loop_continue) (simp add: try_reserve_body_def)
      also have "\<dots> = Some (if m \<le> n - 1 \<and> nat m < length gs
          then Some (gs ! min (nat (n - 1)) (length gs - 1)) else None)"
        using True less.prems by (intro less.hyps) auto
      also have "min (nat (n - 1)) (length gs - 1) = min (nat n) (length gs - 1)"
        using few by linarith
      finally show ?thesis using True few by auto
    qed
  qed
qed

text \<open>
  C23: \<open>nmbm_try_reserve_blocks\<close> reserves as many blocks as it can. With the good blocks
  between \<open>ba\<close> and the limit in order, it returns the one after \<open>count\<close> others, or the last
  one when there are fewer, provided more than \<open>min_count\<close> exist; otherwise it fails. It
  always returns.
\<close>

theorem nmbm_try_reserve_blocks_best:
  assumes "states_cover ni" and "0 \<le> min_count" and "min_count \<le> sint count"
  shows "nmbm_try_reserve_blocks ni ba count min_count limit =
    Some (let gs = filter (good ni) (blocks_up ba (clip ni limit))
          in if nat min_count < length gs
             then Some (gs ! min (nat (sint count)) (length gs - 1)) else None)"
proof -
  have "sint count < 2 ^ 31" using sint_lt [of count] by simp
  then show ?thesis
    using assms try_reserve_loop [of ni min_count "sint count" ba limit]
    by (simp add: nmbm_try_reserve_blocks_def Let_def)
qed

theorem nmbm_try_reserve_blocks_best_witness:
  "nmbm_try_reserve_blocks (sample 0) 26 9 0 30 = Some (Some 29)"
  using nmbm_try_reserve_blocks_best [of "sample 0" 0 9 26 30]
  by (simp add: states_cover_def clip_def blocks_up_def upt_rec blk_def)

section \<open>The initial mapping\<close>

text \<open>The blocks below \<open>n\<close> that are not marked bad, in ascending order.\<close>

definition nonbad :: "'d nmbm_instance \<Rightarrow> nat \<Rightarrow> u32 list" where
  "nonbad ni n = filter (\<lambda>b. blk (ni_block_state ni) b \<noteq> BLOCK_ST_BAD) (map of_nat [0..<n])"

lemma nonbad_Suc:
  "nonbad ni (Suc n) = nonbad ni n
     @ (if blk (ni_block_state ni) (of_nat n) \<noteq> BLOCK_ST_BAD then [of_nat n] else [])"
  by (simp add: nonbad_def)

lemma length_nonbad: "length (nonbad ni n) \<le> n"
  using length_filter_le [of _ "map of_nat [0..<n] :: u32 list"] by (simp add: nonbad_def)

lemma nonbad_sorted: "n \<le> 2 ^ 32 \<Longrightarrow> sorted_wrt (<) (nonbad ni n)"
  unfolding nonbad_def
  by (intro sorted_wrt_filter)
    (auto simp: sorted_wrt_map word_less_nat_alt unat_of_nat mod_less
      intro!: sorted_wrt_mono_rel [OF _ sorted_wrt_upt])

lemma list_update_snoc:
  "length xs < length M \<Longrightarrow>
   (xs @ drop (length xs) M)[length xs := v] = xs @ v # drop (Suc (length xs)) M"
  by (simp add: list_update_append Cons_nth_drop_Suc [symmetric])

lemma build_loop:
  assumes "unat (ni_mgmt_start_ba ni) \<le> 16 * length (ni_block_state ni)"
    and "unat (ni_mgmt_start_ba ni) \<le> length (ni_block_mapping ni)"
  defines "ds \<equiv> nonbad ni (unat (ni_mgmt_start_ba ni))"
  shows "loop build_body (ni, 0, 0) = Some
    (ni\<lparr>ni_block_mapping := ds @ drop (length ds) (ni_block_mapping ni)\<rparr>, of_nat (length ds))"
proof -
  let ?M = "ni_block_mapping ni" and ?n = "ni_mgmt_start_ba ni"
  let ?I = "\<lambda>(ni', pb, lb). pb \<le> ?n \<and> lb = of_nat (length (nonbad ni (unat pb))) \<and>
    ni' = ni\<lparr>ni_block_mapping := nonbad ni (unat pb) @ drop (length (nonbad ni (unat pb))) ?M\<rparr>"
  have "returns (loop build_body (ni, 0, 0)) (\<lambda>r. r =
    (ni\<lparr>ni_block_mapping := ds @ drop (length ds) ?M\<rparr>, of_nat (length ds)))"
  proof (rule loop_rule [where I = ?I and m = "\<lambda>(_, pb, _). unat ?n - unat pb"], goal_cases)
    case 1
    show ?case by (simp add: nonbad_def)
  next
    case (2 s)
    obtain ni' pb lb where s: "s = (ni', pb, lb)" by (cases s)
    let ?ds = "nonbad ni (unat pb)"
    show ?case
    proof (cases "pb < ?n")
      case False
      with 2 have "pb = ?n" by (simp add: s)
      with 2 show ?thesis by (simp add: s build_body_def ds_def)
    next
      case True
      have len: "length ?ds \<le> unat pb" by (rule length_nonbad)
      have pb: "unat pb < unat ?n" using True by (simp add: word_less_nat_alt)
      have inc: "unat (pb + 1) = Suc (unat pb)" using unat_inc [OF True] .
      have lb: "unat (of_nat (length ?ds) :: u32) = length ?ds"
        using len unat_u32_less [of pb] by (simp add: unat_of_nat mod_less)
      have lenM: "length ?ds < length ?M" using len pb assms(2) by simp
      have cov: "unat pb < 16 * length (ni_block_state ni)" using pb assms(1) by simp
      have le: "pb + 1 \<le> ?n" using pb inc by (simp add: word_le_nat_alt)
      show ?thesis
        using 2 True cov lenM lb inc le pb
        by (auto simp: s build_body_def ret_simps nonbad_Suc list_update_snoc)
    qed
  qed
  then show ?thesis by (auto simp: returns_iff)
qed

lemma unmap_loop:
  assumes "length (ni_block_mapping ni) = unat (ni_block_count ni)" and "lb \<le> ni_block_count ni"
  shows "loop unmap_body (ni, lb) = Some (ni\<lparr>ni_block_mapping :=
    take (unat lb) (ni_block_mapping ni) @ replicate (unat (ni_block_count ni) - unat lb) (-1)\<rparr>)"
proof -
  let ?M = "ni_block_mapping ni" and ?n = "ni_block_count ni"
  let ?upto = "\<lambda>pb. take (unat lb) ?M @ replicate (unat pb - unat lb) (-1) @ drop (unat pb) ?M"
  have "returns (loop unmap_body (ni, lb)) (\<lambda>r. r = ni\<lparr>ni_block_mapping := ?upto ?n\<rparr>)"
  proof (rule loop_rule [where m = "\<lambda>(_, pb). unat ?n - unat pb"
        and I = "\<lambda>(ni', pb). lb \<le> pb \<and> pb \<le> ?n \<and> ni' = ni\<lparr>ni_block_mapping := ?upto pb\<rparr>"],
      goal_cases)
    case 1
    show ?case using assms(2) by simp
  next
    case (2 s)
    obtain ni' pb where s: "s = (ni', pb)" by (cases s)
    show ?case
    proof (cases "pb < ?n")
      case False
      with 2 have "pb = ?n" by (simp add: s)
      with 2 show ?thesis by (simp add: s unmap_body_def)
    next
      case True
      have inc: "unat (pb + 1) = Suc (unat pb)" using unat_inc [OF True] .
      have pb: "unat pb < unat ?n" "unat lb \<le> unat pb"
        using True 2 by (simp_all add: s word_less_nat_alt word_le_nat_alt)
      have "(?upto pb)[unat pb := -1] = ?upto (pb + 1)"
        using pb assms(1) unfolding inc
        by (simp add: list_update_append Cons_nth_drop_Suc [symmetric] Suc_diff_le
            replicate_append_same [symmetric] del: replicate_Suc)
           (simp add: replicate_app_Cons_same)
      then show ?thesis
        using 2 True pb assms(1) inc
        by (auto simp: s unmap_body_def ret_simps word_le_nat_alt)
    qed
  qed
  then show ?thesis using assms(1) by (auto simp: returns_iff)
qed

text \<open>
  the initial mapping maps the logical blocks, in order, to the physical blocks below
  the management area that are not bad: the mapping table holds exactly those blocks, in
  ascending order and without repetition, then \<open>-1\<close> up to the end of the chip, and
  \<open>data_block_count\<close> is their number. Nothing else of the instance changes.
\<close>

theorem nmbm_build_mapping_table_spec:
  assumes "unat (ni_mgmt_start_ba ni) \<le> 16 * length (ni_block_state ni)"
    and "ni_mgmt_start_ba ni \<le> ni_block_count ni"
    and "length (ni_block_mapping ni) = unat (ni_block_count ni)"
  shows "let ds = nonbad ni (unat (ni_mgmt_start_ba ni)) in
    nmbm_build_mapping_table ni = Some (ni\<lparr>ni_data_block_count := of_nat (length ds),
      ni_block_mapping := ds @ replicate (unat (ni_block_count ni) - length ds) (-1)\<rparr>) \<and>
    sorted_wrt (<) ds \<and> length ds \<le> unat (ni_mgmt_start_ba ni)"
proof -
  let ?ds = "nonbad ni (unat (ni_mgmt_start_ba ni))" and ?M = "ni_block_mapping ni"
  let ?ni = "ni\<lparr>ni_block_mapping := ?ds @ drop (length ?ds) ?M, ni_data_block_count := of_nat (length ?ds)\<rparr>"
  have le: "unat (ni_mgmt_start_ba ni) \<le> length ?M"
    using assms(2,3) by (simp add: word_le_nat_alt)
  have len: "length ?ds \<le> unat (ni_mgmt_start_ba ni)" by (rule length_nonbad)
  have u: "unat (of_nat (length ?ds) :: u32) = length ?ds"
    using len unat_u32_less [of "ni_mgmt_start_ba ni"] by (simp add: unat_of_nat mod_less)
  have "loop unmap_body (?ni, of_nat (length ?ds)) = Some (?ni\<lparr>ni_block_mapping :=
      ?ds @ replicate (unat (ni_block_count ni) - length ?ds) (-1)\<rparr>)"
    using unmap_loop [of ?ni "of_nat (length ?ds)"] len le assms(3) u
    by (simp add: word_le_nat_alt)
  then have "nmbm_build_mapping_table ni = Some (ni\<lparr>ni_data_block_count := of_nat (length ?ds),
      ni_block_mapping := ?ds @ replicate (unat (ni_block_count ni) - length ?ds) (-1)\<rparr>)"
    by (simp add: nmbm_build_mapping_table_def build_loop [OF assms(1) le])
  moreover have "sorted_wrt (<) ?ds"
    using unat_u32_less [of "ni_mgmt_start_ba ni"] by (intro nonbad_sorted) simp
  ultimately show ?thesis using len by (simp add: Let_def)
qed

theorem nmbm_build_mapping_table_spec_witness:
  "\<exists>ni'. nmbm_build_mapping_table ((sample 0)\<lparr>ni_block_state := [0xffffff3f, 0xffffffff]\<rparr>) = Some ni' \<and>
     ni_data_block_count ni' = 15 \<and> take 5 (ni_block_mapping ni') = [0, 1, 2, 4, 5]"
  using nmbm_build_mapping_table_spec
    [of "(sample 0)\<lparr>ni_block_state := [0xffffff3f, 0xffffffff]\<rparr>"]
  by (simp add: Let_def nonbad_def upt_rec blk_def)

section \<open>The bad-block scan\<close>

lemma blk_with_state:
  "unat b < 16 * length (ni_block_state ni) \<Longrightarrow>
   blk (ni_block_state (with_state b st ni)) b' =
     (if b' = b then st AND 3 else blk (ni_block_state ni) b')"
  by (simp add: with_state_def bst.get_put_same bst.get_put_other)

lemma with_state_fields [simp]:
  "ni_block_count (with_state b st ni) = ni_block_count ni"
  "ni_lower (with_state b st ni) = ni_lower ni" "ni_arg (with_state b st ni) = ni_arg ni"
  "length (ni_block_state (with_state b st ni)) = length (ni_block_state ni)"
  "ni_erasesize_shift (with_state b st ni) = ni_erasesize_shift ni"
  by (simp_all add: with_state_def)

text \<open>
  C24: the scan marks exactly the blocks the chip reports as bad. For a chip whose bad-block
  query is a fixed function of the address, after \<open>nmbm_scan_badblocks\<close> every block the
  query reports has state BAD and every other block has the state it had.
\<close>

theorem nmbm_scan_badblocks_marks:
  assumes "states_cover ni" and "nld_is_bad_block (ni_lower ni) = Some is_bad"
    and "\<And>d addr. is_bad d addr = (r addr, d)"
  shows "\<exists>ni'. nmbm_scan_badblocks ni = Some ni' \<and> (\<forall>b. b < ni_block_count ni \<longrightarrow>
    nmbm_get_block_state ni' b = (if r (ba2addr ni b) \<noteq> 0 then Some BLOCK_ST_BAD
      else nmbm_get_block_state ni b))"
proof -
  let ?n = "ni_block_count ni" and ?st = "\<lambda>ni. blk (ni_block_state ni)"
  let ?after = "\<lambda>ba b. if b < ba \<and> r (ba2addr ni b) \<noteq> 0 then BLOCK_ST_BAD else ?st ni b"
  let ?I = "\<lambda>(ni', ba). ba \<le> ?n \<and> ni_block_count ni' = ?n \<and> ni_lower ni' = ni_lower ni \<and>
    ni_erasesize_shift ni' = ni_erasesize_shift ni \<and>
    length (ni_block_state ni') = length (ni_block_state ni) \<and> (\<forall>b. ?st ni' b = ?after ba b)"
  have "returns (loop scan_body (ni, 0)) (\<lambda>ni'. (\<forall>b. ?st ni' b = ?after ?n b) \<and>
      length (ni_block_state ni') = length (ni_block_state ni))"
  proof (rule loop_rule [where I = ?I and m = "\<lambda>(_, ba). unat ?n - unat ba"], goal_cases)
    case 1
    show ?case by simp
  next
    case (2 s)
    obtain ni' ba where s: "s = (ni', ba)" by (cases s)
    show ?case
    proof (cases "ba < ?n")
      case False
      with 2 have "ba = ?n" by (simp add: s)
      with 2 show ?thesis by (simp add: s scan_body_def)
    next
      case True
      have inc: "unat (ba + 1) = Suc (unat ba)" using unat_inc [OF True] .
      have cov: "unat ba < 16 * length (ni_block_state ni)" using states_coverD [OF assms(1) True] .
      have lt: "b < ba + 1 \<longleftrightarrow> b < ba \<or> b = ba" for b
        using inc by (auto simp: word_less_nat_alt less_Suc_eq word_unat_eq_iff)
      have "nmbm_check_bad_phys_block ni' ba = Some (r (ba2addr ni ba) \<noteq> 0, ni')"
        using 2 assms(2,3) by (simp add: s nmbm_check_bad_phys_block_def ba2addr_def)
      moreover have "ba + 1 \<le> ?n" "unat ?n - unat (ba + 1) < unat ?n - unat ba"
        using True inc by (simp_all add: word_le_nat_alt word_less_nat_alt)
      ultimately show ?thesis
        using 2 True cov by (auto simp: s scan_body_def ret_simps blk_with_state lt)
    qed
  qed
  then obtain ni' where "nmbm_scan_badblocks ni = Some ni'"
    and "\<forall>b. ?st ni' b = ?after ?n b" "length (ni_block_state ni') = length (ni_block_state ni)"
    by (auto simp: returns_iff nmbm_scan_badblocks_def)
  then show ?thesis
    by (auto simp: nmbm_get_block_state_def get_block_state_raw_eq states_coverD [OF assms(1)])
qed

theorem nmbm_scan_badblocks_marks_witness:
  "\<exists>ni'. nmbm_scan_badblocks ((sample 0)\<lparr>ni_lower := sample_lower\<lparr>nld_is_bad_block :=
       Some (\<lambda>d addr. (if addr = 384 then 1 else 0, d))\<rparr>\<rparr>) = Some ni' \<and>
     nmbm_get_block_state ni' 3 = Some BLOCK_ST_BAD"
  using nmbm_scan_badblocks_marks [of "(sample 0)\<lparr>ni_lower := sample_lower\<lparr>nld_is_bad_block :=
       Some (\<lambda>d addr. (if addr = 384 then 1 else 0, d))\<rparr>\<rparr>" _ "\<lambda>addr. if addr = 384 then 1 else 0"]
  by (auto simp: states_cover_def ba2addr_def dest!: spec [of _ 3])

end
