(* ===== verification/Nmbm_Mgmt.thy ===== *)
theory Nmbm_Mgmt
  imports Nmbm_State
begin

text \<open>
  Writing management data (\<^verbatim>\<open>nmbm-core.c\<close>): erasing ranges, writing and verifying data, the
  signature block, the two copies of the info table and the procedures that keep them
  alive when blocks go bad.

  A function that sets \<^verbatim>\<open>*actual_start_ba\<close> and \<^verbatim>\<open>*actual_end_ba\<close> and returns true has the
  result \<open>Some (start, end)\<close>, and \<open>None\<close> where it returns false. A local variable that C
  leaves uninitialised is an option, and reading it before it is set has no value.
\<close>

section \<open>Erasing and writing\<close>

definition mark_block_bad :: "'d nmbm_instance \<Rightarrow> u32 \<Rightarrow> 'd nmbm_instance option" where
  "mark_block_bad ni ba = do {
     (_, ni) \<leftarrow> nmbm_mark_phys_bad_block ni ba;
     (_, ni) \<leftarrow> nmbm_set_block_state ni ba BLOCK_ST_BAD;
     Some ni
   }"

definition erase_range_body :: "u32 \<Rightarrow> 'd nmbm_instance \<times> u32
    \<Rightarrow> ('d nmbm_instance + 'd nmbm_instance \<times> u32) option" where
  "erase_range_body limit = (\<lambda>(ni, ba).
     if ba < limit then do {
       st \<leftarrow> nmbm_get_block_state ni ba;
       if st \<noteq> BLOCK_ST_GOOD then Some (Inr (ni, ba + 1))
       else do {
         (success, ni) \<leftarrow> nmbm_erase_phys_block ni (ba2addr ni ba);
         if success then Some (Inr (ni, ba + 1))
         else do {
           ni \<leftarrow> mark_block_bad ni ba;
           Some (Inr (ni, ba + 1))
         }
       }
     } else Some (Inl ni))"

definition nmbm_erase_range :: "'d nmbm_instance \<Rightarrow> u32 \<Rightarrow> u32 \<Rightarrow> 'd nmbm_instance option" where
  "nmbm_erase_range ni ba limit = loop (erase_range_body limit) (ni, ba)"

definition write_repeated_body :: "u64 \<Rightarrow> bytes \<Rightarrow> 'd nmbm_instance \<times> u64
    \<Rightarrow> (bool \<times> 'd nmbm_instance + 'd nmbm_instance \<times> u64) option" where
  "write_repeated_body addr data = (\<lambda>(ni, off).
     if off < ucast (ni_erasesize ni) then do {
       cache \<leftarrow> mem_write 0 data (ni_page_cache ni);
       cache \<leftarrow> mem_write (length data)
         (replicate (unat (ni_rawpage_size ni - of_nat (length data))) 0xff) cache;
       let ni = ni\<lparr>ni_page_cache := cache\<rparr>;
       page \<leftarrow> mem_read 0 (unat (ni_writesize ni)) (ni_page_cache ni);
       (success, ni) \<leftarrow> nmbm_write_phys_page ni (addr + off) (Some page) None
         NMBM_MODE_PLACE_OOB;
       if \<not> success then Some (Inl (False, ni))
       else do {
         (ret, ni) \<leftarrow> read_page_to_cache ni (addr + off) NMBM_MODE_PLACE_OOB;
         if ret \<noteq> 0 then Some (Inl (False, ni))
         else do {
           back \<leftarrow> mem_read 0 (length data) (ni_page_cache ni);
           if back \<noteq> data then Some (Inl (False, ni))
           else Some (Inr (ni, off + ucast (ni_writesize ni)))
         }
       }
     } else Some (Inl (True, ni)))"

definition nmbm_write_repeated_data :: "'d nmbm_instance \<Rightarrow> u32 \<Rightarrow> bytes \<Rightarrow> u32
    \<Rightarrow> (bool \<times> 'd nmbm_instance) option" where
  "nmbm_write_repeated_data ni ba data sz =
     (if sz > ni_writesize ni then Some (False, ni)
      else do {
        data \<leftarrow> mem_read 0 (unat sz) data;
        loop (write_repeated_body (ba2addr ni ba) data) (ni, 0)
      })"

definition write_signature_body :: "u32 \<Rightarrow> nmbm_signature \<Rightarrow> 'd nmbm_instance \<times> u32
    \<Rightarrow> (u32 option \<times> 'd nmbm_instance + 'd nmbm_instance \<times> u32) option" where
  "write_signature_body limit signature = (\<lambda>(ni, ba).
     if ba > limit then do {
       st \<leftarrow> nmbm_get_block_state ni ba;
       if st \<noteq> BLOCK_ST_GOOD then Some (Inr (ni, ba - 1))
       else do {
         (success, ni) \<leftarrow> nmbm_erase_phys_block ni (ba2addr ni ba);
         (success, ni) \<leftarrow>
           (if success
            then nmbm_write_repeated_data ni ba (signature_bytes signature)
              (of_nat sizeof_signature)
            else Some (False, ni));
         if success then Some (Inl (Some ba, ni))
         else do {
           ni \<leftarrow> mark_block_bad ni ba;
           Some (Inr (ni, ba - 1))
         }
       }
     } else Some (Inl (None, ni)))"

definition nmbm_write_signature :: "'d nmbm_instance \<Rightarrow> u32 \<Rightarrow> nmbm_signature
    \<Rightarrow> (u32 option \<times> 'd nmbm_instance) option" where
  "nmbm_write_signature ni limit signature =
     loop (write_signature_body limit signature) (ni, ni_block_count ni - 1)"

text \<open>
  The part of a page a chunked transfer handles in one turn: the offset \<^verbatim>\<open>leading\<close> of
  \<open>off\<close> inside its page, and \<^verbatim>\<open>chunksize\<close>, what is left of the page or of the transfer.
\<close>

definition page_chunk :: "'d nmbm_instance \<Rightarrow> u64 \<Rightarrow> u32 \<Rightarrow> u32 \<times> u32" where
  "page_chunk ni off sizeremain =
     (let leading = ucast (off AND ucast (ni_writesize_mask ni));
          chunksize = ni_writesize ni - leading
      in (leading, if chunksize > sizeremain then sizeremain else chunksize))"

text \<open>
  \<^verbatim>\<open>nmbn_read_data\<close>: \<open>data\<close> is the destination buffer, \<open>sizeremain\<close> what is still to be
  read; the write pointer is therefore at \<open>sz - sizeremain\<close>.
\<close>

definition read_data_body :: "u32 \<Rightarrow> 'd nmbm_instance \<times> u64 \<times> u32 \<times> bytes
    \<Rightarrow> (int \<times> bytes \<times> 'd nmbm_instance + 'd nmbm_instance \<times> u64 \<times> u32 \<times> bytes) option" where
  "read_data_body sz = (\<lambda>(ni, off, sizeremain, data).
     if sizeremain \<noteq> 0 then do {
       let (leading, chunksize) = page_chunk ni off sizeremain;
       let ptr = unat (sz - sizeremain);
       (ret, data, ni) \<leftarrow>
         (if chunksize = ni_writesize ni then do {
            buf \<leftarrow> mem_read ptr (unat (ni_writesize ni)) data;
            (ret, page, _, ni) \<leftarrow> nmbm_read_phys_page ni (off - ucast leading) (Some buf) None
              NMBM_MODE_PLACE_OOB;
            page \<leftarrow> page;
            data \<leftarrow> mem_write ptr page data;
            Some (ret, data, ni)
          } else do {
            (ret, ni) \<leftarrow> read_page_to_cache ni (off - ucast leading) NMBM_MODE_PLACE_OOB;
            if ret \<noteq> 0 then Some (ret, data, ni)
            else do {
              chunk \<leftarrow> mem_read (unat leading) (unat chunksize) (ni_page_cache ni);
              data \<leftarrow> mem_write ptr chunk data;
              Some (ret, data, ni)
            }
          });
       if ret \<noteq> 0 then Some (Inl (ret, data, ni))
       else Some (Inr (ni, off + ucast chunksize, sizeremain - chunksize, data))
     } else Some (Inl (0, data, ni)))"

definition nmbn_read_data :: "'d nmbm_instance \<Rightarrow> u64 \<Rightarrow> bytes \<Rightarrow> u32
    \<Rightarrow> (int \<times> bytes \<times> 'd nmbm_instance) option" where
  "nmbn_read_data ni addr data sz = loop (read_data_body sz) (ni, addr, sz, data)"

definition write_verify_body :: "u32 \<Rightarrow> bytes \<Rightarrow> 'd nmbm_instance \<times> u64 \<times> u32
    \<Rightarrow> (bool \<times> 'd nmbm_instance + 'd nmbm_instance \<times> u64 \<times> u32) option" where
  "write_verify_body sz data = (\<lambda>(ni, off, sizeremain).
     if sizeremain \<noteq> 0 then do {
       let (leading, chunksize) = page_chunk ni off sizeremain;
       chunk \<leftarrow> mem_read (unat (sz - sizeremain)) (unat chunksize) data;
       cache \<leftarrow> mem_write 0 (replicate (unat (ni_rawpage_size ni)) 0xff) (ni_page_cache ni);
       cache \<leftarrow> mem_write (unat leading) chunk cache;
       let ni = ni\<lparr>ni_page_cache := cache\<rparr>;
       page \<leftarrow> mem_read 0 (unat (ni_writesize ni)) (ni_page_cache ni);
       (success, ni) \<leftarrow> nmbm_write_phys_page ni (off - ucast leading) (Some page) None
         NMBM_MODE_PLACE_OOB;
       if \<not> success then Some (Inl (False, ni))
       else do {
         (ret, ni) \<leftarrow> read_page_to_cache ni (off - ucast leading) NMBM_MODE_PLACE_OOB;
         if ret \<noteq> 0 then Some (Inl (False, ni))
         else do {
           back \<leftarrow> mem_read (unat leading) (unat chunksize) (ni_page_cache ni);
           if back \<noteq> chunk then Some (Inl (False, ni))
           else Some (Inr (ni, off + ucast chunksize, sizeremain - chunksize))
         }
       }
     } else Some (Inl (True, ni)))"

definition nmbn_write_verify_data :: "'d nmbm_instance \<Rightarrow> u64 \<Rightarrow> bytes \<Rightarrow> u32
    \<Rightarrow> (bool \<times> 'd nmbm_instance) option" where
  "nmbn_write_verify_data ni addr data sz = loop (write_verify_body sz data) (ni, addr, sz)"

text \<open>What a transfer to one block handles: a whole block or what is left.\<close>

definition block_chunk :: "'d nmbm_instance \<Rightarrow> u32 \<Rightarrow> u32" where
  "block_chunk ni sizeremain =
     (if sizeremain > ni_erasesize ni then ni_erasesize ni else sizeremain)"

text \<open>Erase one block and write the \<open>chunksize\<close> bytes at offset \<open>ptr\<close> of \<open>data\<close> to it.\<close>

definition write_mgmt_block :: "'d nmbm_instance \<Rightarrow> u32 \<Rightarrow> bytes \<Rightarrow> nat \<Rightarrow> u32
    \<Rightarrow> (bool \<times> 'd nmbm_instance) option" where
  "write_mgmt_block ni ba data ptr chunksize = do {
     (success, ni) \<leftarrow> nmbm_erase_phys_block ni (ba2addr ni ba);
     if success then do {
       chunk \<leftarrow> mem_read ptr (unat chunksize) data;
       nmbn_write_verify_data ni (ba2addr ni ba) chunk chunksize
     } else Some (False, ni)
   }"

definition write_mgmt_body :: "u32 \<Rightarrow> bytes \<Rightarrow> u32
    \<Rightarrow> 'd nmbm_instance \<times> u32 \<times> u32 \<times> u32 option
    \<Rightarrow> ((u32 option \<times> u32) option \<times> 'd nmbm_instance
        + 'd nmbm_instance \<times> u32 \<times> u32 \<times> u32 option) option" where
  "write_mgmt_body limit data sz = (\<lambda>(ni, ba, sizeremain, start).
     if sizeremain \<noteq> 0 \<and> ba < limit then do {
       let chunksize = block_chunk ni sizeremain;
       st \<leftarrow> nmbm_get_block_state ni ba;
       if st \<noteq> BLOCK_ST_GOOD then Some (Inr (ni, ba + 1, sizeremain, start))
       else do {
         (success, ni) \<leftarrow> write_mgmt_block ni ba data (unat (sz - sizeremain)) chunksize;
         if success
         then Some (Inr (ni, ba + 1, sizeremain - chunksize,
                (if sizeremain = sz then Some ba else start)))
         else do {
           ni \<leftarrow> mark_block_bad ni ba;
           Some (Inr (ni, ba + 1, sizeremain, start))
         }
       }
     }
     else if sizeremain \<noteq> 0 then Some (Inl (None, ni))
     else Some (Inl (Some (start, ba), ni)))"

definition nmbm_write_mgmt_range :: "'d nmbm_instance \<Rightarrow> u32 \<Rightarrow> u32 \<Rightarrow> bytes \<Rightarrow> u32
    \<Rightarrow> ((u32 \<times> u32) option \<times> 'd nmbm_instance) option" where
  "nmbm_write_mgmt_range ni ba limit data sz = do {
     (r, ni) \<leftarrow> loop (write_mgmt_body limit data sz) (ni, ba, sz, None);
     case r of
       None \<Rightarrow> Some (None, ni)
     | Some (start, end_ba) \<Rightarrow> do {
         start \<leftarrow> start;
         Some (Some (start, end_ba), ni)
       }
   }"

section \<open>The info table\<close>

definition nmbm_generate_info_table_cache :: "'d nmbm_instance
    \<Rightarrow> (bool \<times> 'd nmbm_instance) option" where
  "nmbm_generate_info_table_cache ni = do {
     cache \<leftarrow> mem_write 0 (replicate (unat (ni_info_table_size ni)) 0xff) (ni_info_table_cache ni);
     states \<leftarrow> mem_read 0 (unat (ni_state_table_size ni)) (enc_words (ni_block_state ni));
     cache \<leftarrow> mem_write (unat (ift_state_table_off (ni_info_table ni))) states cache;
     mapping \<leftarrow> mem_read 0 (unat (ni_mapping_table_size ni)) (enc_words (ni_block_mapping ni));
     cache \<leftarrow> mem_write (unat (ift_mapping_table_off (ni_info_table ni))) mapping cache;
     let changed = (ni_block_state_changed ni \<noteq> 0 \<or> ni_block_mapping_changed ni \<noteq> 0);
     let table = (ni_info_table ni)
       \<lparr>ift_header := (ift_header (ni_info_table ni))
          \<lparr>hdr_magic := NMBM_MAGIC_INFO_TABLE, hdr_version := NMBM_VER,
           hdr_size := ni_info_table_size ni\<rparr>\<rparr>;
     let table = (if changed then table\<lparr>ift_write_count := ift_write_count table + 1\<rparr> else table);
     cache \<leftarrow> mem_write 0 (info_header_bytes table) cache;
     cache \<leftarrow> nmbm_update_checksum cache;
     Some (changed, ni\<lparr>ni_info_table := table, ni_info_table_cache := cache\<rparr>)
   }"

definition nmbm_write_info_table :: "'d nmbm_instance \<Rightarrow> u32 \<Rightarrow> u32
    \<Rightarrow> ((u32 \<times> u32) option \<times> 'd nmbm_instance) option" where
  "nmbm_write_info_table ni ba limit =
     nmbm_write_mgmt_range ni ba limit (ni_info_table_cache ni) (ni_info_table_size ni)"

definition nmbm_mark_tables_clean :: "'d nmbm_instance \<Rightarrow> 'd nmbm_instance" where
  "nmbm_mark_tables_clean ni = ni\<lparr>ni_block_state_changed := 0, ni_block_mapping_changed := 0\<rparr>"

text \<open>The number of blocks an info table needs, as the code computes it at each use.\<close>

abbreviation info_table_blocks :: "'d nmbm_instance \<Rightarrow> u32" where
  "info_table_blocks ni \<equiv> size2blk ni (ucast (ni_info_table_size ni))"

definition nmbm_rebuild_info_table :: "'d nmbm_instance \<Rightarrow> (bool \<times> 'd nmbm_instance) option" where
  "nmbm_rebuild_info_table ni = do {
     let ni = ni\<lparr>ni_main_table_ba := 0, ni_backup_table_ba := 0,
                ni_mapping_blocks_ba := ni_mapping_blocks_top_ba ni\<rparr>;
     (r, ni) \<leftarrow> nmbm_write_info_table ni (ni_mgmt_start_ba ni) (ni_mapping_blocks_top_ba ni);
     case r of
       None \<Rightarrow> Some (False, ni\<lparr>ni_protected := 1\<rparr>)
     | Some (table_start_ba, table_end_ba) \<Rightarrow> do {
         let main_table_end_ba = table_end_ba;
         let ni = nmbm_mark_tables_clean
           (ni\<lparr>ni_main_table_ba := table_start_ba, ni_mapping_blocks_ba := table_end_ba\<rparr>);
         r \<leftarrow> nmbm_try_reserve_blocks ni table_end_ba (ni_info_table_spare_blocks ni) 0
           (ni_mapping_blocks_top_ba ni - info_table_blocks ni);
         case r of
           None \<Rightarrow> Some (True, ni)
         | Some next_start_ba \<Rightarrow> do {
             (r, ni) \<leftarrow> nmbm_write_info_table ni next_start_ba (ni_mapping_blocks_top_ba ni);
             case r of
               None \<Rightarrow> Some (True, ni)
             | Some (table_start_ba, table_end_ba) \<Rightarrow> do {
                 let ni = ni\<lparr>ni_backup_table_ba := table_start_ba,
                            ni_mapping_blocks_ba := table_end_ba\<rparr>;
                 ni \<leftarrow> nmbm_erase_range ni main_table_end_ba (ni_backup_table_ba ni);
                 Some (True, ni)
               }
           }
       }
   }"

text \<open>
  The loops of the rescue procedures: try to write the table at \<open>write_ba\<close>, then one block
  lower, down to \<open>low\<close>. \<open>success\<close> and the position written keep their values from before
  the loop when it makes no turn.
\<close>

definition write_back_body :: "u32 \<Rightarrow> 'd nmbm_instance \<times> u32 \<times> bool \<times> (u32 \<times> u32) option
    \<Rightarrow> (bool \<times> (u32 \<times> u32) option \<times> 'd nmbm_instance
        + 'd nmbm_instance \<times> u32 \<times> bool \<times> (u32 \<times> u32) option) option" where
  "write_back_body low = (\<lambda>(ni, write_ba, success, table).
     if write_ba \<ge> low then do {
       (r, ni) \<leftarrow> nmbm_write_info_table ni write_ba (ni_mapping_blocks_top_ba ni);
       case r of Some t \<Rightarrow> Some (Inl (True, Some t, ni))
       | None \<Rightarrow> Some (Inr (ni, write_ba - 1, False, table))
     } else Some (Inl (success, table, ni)))"

definition write_back :: "'d nmbm_instance \<Rightarrow> u32 \<Rightarrow> u32
    \<Rightarrow> (bool \<times> (u32 \<times> u32) option \<times> 'd nmbm_instance) option" where
  "write_back ni write_ba low = loop (write_back_body low) (ni, write_ba, True, None)"

definition nmbm_rescue_single_info_table :: "'d nmbm_instance
    \<Rightarrow> (bool \<times> 'd nmbm_instance) option" where
  "nmbm_rescue_single_info_table ni = do {
     (r, ni) \<leftarrow> nmbm_write_info_table ni (ni_mgmt_start_ba ni) (ni_main_table_ba ni);
     case r of
       Some (table_start_ba, table_end_ba) \<Rightarrow> do {
         let ni = ni\<lparr>ni_backup_table_ba := ni_main_table_ba ni\<rparr>;
         let ni = nmbm_mark_tables_clean (ni\<lparr>ni_main_table_ba := table_start_ba\<rparr>);
         ni \<leftarrow> nmbm_erase_range ni table_end_ba (ni_backup_table_ba ni);
         Some (True, ni)
       }
     | None \<Rightarrow> do {
         r \<leftarrow> nmbm_try_reserve_blocks ni (ni_mapping_blocks_ba ni) (ni_info_table_spare_blocks ni) 0
           (ni_mapping_blocks_top_ba ni - info_table_blocks ni);
         case r of
           None \<Rightarrow> Some (False, ni)
         | Some write_ba \<Rightarrow> do {
             (success, table, ni) \<leftarrow> write_back ni write_ba (ni_mapping_blocks_ba ni);
             if success then do {
               (table_start_ba, table_end_ba) \<leftarrow> table;
               ni \<leftarrow> nmbm_erase_range ni (ni_mapping_blocks_ba ni) table_start_ba;
               Some (True, nmbm_mark_tables_clean
                 (ni\<lparr>ni_backup_table_ba := table_start_ba, ni_mapping_blocks_ba := table_end_ba\<rparr>))
             } else Some (False, ni)
           }
       }
   }"

definition nmbm_update_single_info_table :: "'d nmbm_instance \<Rightarrow> bool
    \<Rightarrow> (bool \<times> 'd nmbm_instance) option" where
  "nmbm_update_single_info_table ni update_main_table = do {
     let (write_start_ba, write_limit) =
       (if update_main_table then (ni_main_table_ba ni, ni_backup_table_ba ni)
        else (ni_backup_table_ba ni, ni_mapping_blocks_top_ba ni));
     (r, ni) \<leftarrow> nmbm_write_info_table ni write_start_ba write_limit;
     case r of
       Some (table_start_ba, table_end_ba) \<Rightarrow>
         Some (True, nmbm_mark_tables_clean
           (if update_main_table then ni\<lparr>ni_main_table_ba := table_start_ba\<rparr>
            else ni\<lparr>ni_backup_table_ba := table_start_ba, ni_mapping_blocks_ba := table_end_ba\<rparr>))
     | None \<Rightarrow>
         (if update_main_table
          then nmbm_rescue_single_info_table
            (ni\<lparr>ni_main_table_ba := ni_backup_table_ba ni, ni_backup_table_ba := 0\<rparr>)
          else Some (False,
            ni\<lparr>ni_mapping_blocks_ba := ni_backup_table_ba ni, ni_backup_table_ba := 0\<rparr>))
   }"

definition nmbm_rescue_main_info_table :: "'d nmbm_instance
    \<Rightarrow> (bool \<times> 'd nmbm_instance) option" where
  "nmbm_rescue_main_info_table ni = do {
     let info_table_erasesize = info_table_blocks ni;
     r \<leftarrow> nmbm_try_reserve_blocks ni (ni_mapping_blocks_ba ni) (ni_info_table_spare_blocks ni) 0
       (ni_mapping_blocks_top_ba ni - info_table_erasesize);
     case r of
       None \<Rightarrow>
         Some (True, ni\<lparr>ni_main_table_ba := ni_backup_table_ba ni, ni_backup_table_ba := 0\<rparr>)
     | Some write_ba \<Rightarrow> do {
         (success, table, ni) \<leftarrow> write_back ni write_ba (ni_mapping_blocks_ba ni);
         if \<not> success then
           Some (True, ni\<lparr>ni_main_table_ba := ni_backup_table_ba ni, ni_backup_table_ba := 0\<rparr>)
         else do {
           (tmp_table_start_ba, tmp_table_end_ba) \<leftarrow> table;
           let ni = ni\<lparr>ni_mapping_blocks_ba := tmp_table_end_ba\<rparr>;
           (r, ni) \<leftarrow> nmbm_write_info_table ni (ni_mgmt_start_ba ni) tmp_table_start_ba;
           case r of
             None \<Rightarrow> Some (True, nmbm_mark_tables_clean
               (ni\<lparr>ni_main_table_ba := tmp_table_start_ba, ni_backup_table_ba := 0\<rparr>))
           | Some (main_table_start_ba, main_table_end_ba) \<Rightarrow> do {
               let ni = nmbm_mark_tables_clean (ni\<lparr>ni_main_table_ba := main_table_start_ba\<rparr>);
               if main_table_end_ba \<le> tmp_table_start_ba
               then Some (True, ni\<lparr>ni_backup_table_ba := tmp_table_start_ba\<rparr>)
               else do {
                 let ni = ni\<lparr>ni_mapping_blocks_ba := main_table_end_ba\<rparr>;
                 r \<leftarrow> nmbm_try_reserve_blocks ni main_table_end_ba
                   (ni_info_table_spare_blocks ni) 0
                   (ni_mapping_blocks_top_ba ni - info_table_erasesize);
                 case r of
                   None \<Rightarrow> Some (True, ni\<lparr>ni_backup_table_ba := 0\<rparr>)
                 | Some write_ba \<Rightarrow> do {
                     (success, table, ni) \<leftarrow> write_back ni write_ba main_table_end_ba;
                     if \<not> success then Some (True, ni\<lparr>ni_backup_table_ba := 0\<rparr>)
                     else do {
                       (tmp_table_start_ba, tmp_table_end_ba) \<leftarrow> table;
                       let ni = ni\<lparr>ni_backup_table_ba := tmp_table_start_ba,
                                  ni_mapping_blocks_ba := tmp_table_end_ba\<rparr>;
                       ni \<leftarrow> nmbm_erase_range ni main_table_end_ba (ni_backup_table_ba ni);
                       Some (True, ni)
                     }
                   }
               }
             }
         }
       }
   }"

text \<open>The part of \<open>nmbm_update_info_table_once\<close> from its label \<^verbatim>\<open>write_main_table\<close> on.\<close>

definition write_main_table :: "'d nmbm_instance \<Rightarrow> u32 \<Rightarrow> (bool \<times> 'd nmbm_instance) option" where
  "write_main_table ni main_table_limit =
     (if ni_main_table_ba ni = 0 then nmbm_rebuild_info_table ni
      else do {
        (r, ni) \<leftarrow> nmbm_write_info_table ni (ni_main_table_ba ni) main_table_limit;
        case r of
          None \<Rightarrow>
            (if ni_backup_table_ba ni = 0 then nmbm_rebuild_info_table ni
             else nmbm_rescue_main_info_table ni)
        | Some (table_start_ba, table_end_ba) \<Rightarrow> do {
            let ni = ni\<lparr>ni_main_table_ba := table_start_ba\<rparr>;
            let ni = (if ni_backup_table_ba ni = 0
                      then ni\<lparr>ni_mapping_blocks_ba := table_end_ba\<rparr> else ni);
            Some (True, nmbm_mark_tables_clean ni)
          }
      })"

definition nmbm_update_info_table_once :: "'d nmbm_instance \<Rightarrow> bool
    \<Rightarrow> (bool \<times> 'd nmbm_instance) option" where
  "nmbm_update_info_table_once ni force = do {
     (changed, ni) \<leftarrow> nmbm_generate_info_table_cache ni;
     if \<not> changed \<and> \<not> force then Some (True, ni)
     else if ni_backup_table_ba ni = 0
     then write_main_table ni (ni_mapping_blocks_top_ba ni)
     else do {
       (r, ni) \<leftarrow> nmbm_write_info_table ni (ni_backup_table_ba ni) (ni_mapping_blocks_top_ba ni);
       case r of
         None \<Rightarrow> do {
           let ni = ni\<lparr>ni_mapping_blocks_ba := ni_backup_table_ba ni, ni_backup_table_ba := 0\<rparr>;
           write_main_table ni (ni_mapping_blocks_top_ba ni)
         }
       | Some (table_start_ba, table_end_ba) \<Rightarrow> do {
           let ni = nmbm_mark_tables_clean
             (ni\<lparr>ni_backup_table_ba := table_start_ba, ni_mapping_blocks_ba := table_end_ba\<rparr>);
           write_main_table ni (ni_backup_table_ba ni)
         }
     }
   }"

definition update_info_table_body :: "'d nmbm_instance
    \<Rightarrow> (bool \<times> 'd nmbm_instance + 'd nmbm_instance) option" where
  "update_info_table_body ni =
     (if ni_block_state_changed ni \<noteq> 0 \<or> ni_block_mapping_changed ni \<noteq> 0 then do {
        (success, ni) \<leftarrow> nmbm_update_info_table_once ni False;
        if \<not> success then Some (Inl (False, ni)) else Some (Inr ni)
      } else Some (Inl (True, ni)))"

definition nmbm_update_info_table :: "'d nmbm_instance \<Rightarrow> (bool \<times> 'd nmbm_instance) option" where
  "nmbm_update_info_table ni =
     (if ni_protected ni \<noteq> 0 then Some (True, ni) else loop update_info_table_body ni)"

section \<open>Remapping\<close>

definition nmbm_map_block :: "'d nmbm_instance \<Rightarrow> u32 \<Rightarrow> (bool \<times> 'd nmbm_instance) option" where
  "nmbm_map_block ni lb =
     (if ni_mapping_blocks_ba ni = ni_mapping_blocks_top_ba ni then Some (False, ni)
      else do {
        r \<leftarrow> nmbm_block_walk ni False (ni_mapping_blocks_top_ba ni) 0 (ni_mapping_blocks_ba ni);
        case r of
          None \<Rightarrow> do {
            (_, ni) \<leftarrow> nmbm_update_info_table ni;
            Some (False, ni\<lparr>ni_mapping_blocks_top_ba := ni_mapping_blocks_ba ni\<rparr>)
          }
        | Some pb \<Rightarrow> do {
            mapping \<leftarrow> arr_set (ni_block_mapping ni) (unat lb) pb;
            Some (True, ni\<lparr>ni_block_mapping := mapping,
              ni_mapping_blocks_top_ba := ni_mapping_blocks_top_ba ni - 1,
              ni_block_mapping_changed := ni_block_mapping_changed ni + 1\<rparr>)
          }
      })"

section \<open>Geometry of an instance\<close>

text \<open>
  What \<open>nmbm_init_structure\<close> sets up and every operation keeps: the page geometry, tables
  that cover every block of the chip, and an info table whose three parts lie one after
  the other inside the cache.
\<close>

definition geom :: "'d nmbm_instance \<Rightarrow> bool" where
  "geom ni \<longleftrightarrow> page_geom ni \<and> states_cover ni \<and> ni_block_count ni \<le> 0x80000000 \<and>
     length (ni_block_mapping ni) = unat (ni_block_count ni) \<and>
     unat (ni_state_table_size ni) = 4 * length (ni_block_state ni) \<and>
     unat (ni_mapping_table_size ni) = 4 * length (ni_block_mapping ni) \<and>
     length (ni_info_table_cache ni) = unat (ni_info_table_size ni) \<and>
     32 \<le> unat (ift_state_table_off (ni_info_table ni)) \<and>
     unat (ift_state_table_off (ni_info_table ni)) + unat (ni_state_table_size ni)
       \<le> unat (ift_mapping_table_off (ni_info_table ni)) \<and>
     unat (ift_mapping_table_off (ni_info_table ni)) + unat (ni_mapping_table_size ni)
       \<le> unat (ni_info_table_size ni)"

definition usable_blocks :: "'d nmbm_instance \<Rightarrow> nat" where
  "usable_blocks ni = card (bst.usable (ni_block_state ni) (unat (ni_block_count ni)))"

definition retires :: "'d nmbm_instance \<Rightarrow> 'd nmbm_instance \<Rightarrow> bool" where
  "retires ni ni' \<longleftrightarrow>
     (\<exists>d c bs ch. ni' = ni\<lparr>ni_arg := d, ni_page_cache := c, ni_block_state := bs,
        ni_block_state_changed := ch\<rparr> \<and>
      length c = length (ni_page_cache ni) \<and> length bs = length (ni_block_state ni)) \<and>
     (\<forall>b. blk (ni_block_state ni') b = blk (ni_block_state ni) b \<or>
        blk (ni_block_state ni') b = BLOCK_ST_BAD) \<and>
     (usable_blocks ni' < usable_blocks ni \<or>
       usable_blocks ni' = usable_blocks ni \<and>
       ni_block_state_changed ni' = ni_block_state_changed ni)"

lemma retires_fields:
  assumes "retires ni ni'"
  shows "ni_lower ni' = ni_lower ni" "ni_erasesize_shift ni' = ni_erasesize_shift ni"
    "ni_info_table_cache ni' = ni_info_table_cache ni"
    "ni_info_table_size ni' = ni_info_table_size ni"
    "ni_info_table_spare_blocks ni' = ni_info_table_spare_blocks ni"
    "ni_info_table ni' = ni_info_table ni"
    "ni_block_mapping ni' = ni_block_mapping ni"
    "ni_block_mapping_changed ni' = ni_block_mapping_changed ni"
    "ni_protected ni' = ni_protected ni" "ni_block_count ni' = ni_block_count ni"
    "ni_data_block_count ni' = ni_data_block_count ni"
    "ni_mgmt_start_ba ni' = ni_mgmt_start_ba ni" "ni_main_table_ba ni' = ni_main_table_ba ni"
    "ni_backup_table_ba ni' = ni_backup_table_ba ni"
    "ni_mapping_blocks_ba ni' = ni_mapping_blocks_ba ni"
    "ni_mapping_blocks_top_ba ni' = ni_mapping_blocks_top_ba ni"
    "ni_signature_ba ni' = ni_signature_ba ni" "ni_signature ni' = ni_signature ni"
    "geom ni' = geom ni" "page_geom ni' = page_geom ni" "states_cover ni' = states_cover ni"
    "length (ni_block_state ni') = length (ni_block_state ni)"
    "ni_state_table_size ni' = ni_state_table_size ni"
    "ni_mapping_table_size ni' = ni_mapping_table_size ni"
  using assms unfolding retires_def
  by (auto simp: geom_def page_geom_def states_cover_def)

lemma retires_refl [intro, simp]: "retires ni ni"
  by (auto simp: retires_def intro!: exI [of _ "ni_arg ni"] exI [of _ "ni_page_cache ni"]
     exI [of _ "ni_block_state ni"] exI [of _ "ni_block_state_changed ni"])

lemma retires_usable:
  "retires ni ni' \<Longrightarrow> usable_blocks ni' < usable_blocks ni \<or>
     usable_blocks ni' = usable_blocks ni \<and>
     ni_block_state_changed ni' = ni_block_state_changed ni"
  by (simp add: retires_def)

lemma retires_states:
  "retires ni ni' \<Longrightarrow> blk (ni_block_state ni') b = blk (ni_block_state ni) b \<or>
     blk (ni_block_state ni') b = BLOCK_ST_BAD"
  by (simp add: retires_def)

lemma retires_trans [trans]:
  assumes "retires a b" and "retires b c" shows "retires a c"
proof -
  obtain d1 c1 s1 n1 where b: "b = a\<lparr>ni_arg := d1, ni_page_cache := c1, ni_block_state := s1,
      ni_block_state_changed := n1\<rparr>" "length c1 = length (ni_page_cache a)"
      "length s1 = length (ni_block_state a)"
    using assms(1) unfolding retires_def by blast
  obtain d2 c2 s2 n2 where c: "c = b\<lparr>ni_arg := d2, ni_page_cache := c2, ni_block_state := s2,
      ni_block_state_changed := n2\<rparr>" "length c2 = length (ni_page_cache b)"
      "length s2 = length (ni_block_state b)"
    using assms(2) unfolding retires_def by blast
  have "c = a\<lparr>ni_arg := d2, ni_page_cache := c2, ni_block_state := s2, ni_block_state_changed := n2\<rparr>"
    by (simp add: b(1) c(1))
  moreover have "blk (ni_block_state c) x = blk (ni_block_state a) x \<or> blk (ni_block_state c) x = 0" for x
    using assms unfolding retires_def by metis
  moreover have "usable_blocks c < usable_blocks a \<or> usable_blocks c = usable_blocks a \<and>
      ni_block_state_changed c = ni_block_state_changed a"
    using retires_usable [OF assms(1)] retires_usable [OF assms(2)] by auto
  ultimately show ?thesis
    using b(2,3) c(2,3) unfolding retires_def b(1) by (intro conjI) (blast | simp)+
qed

lemma retires_phys:
  "length c = length (ni_page_cache ni) \<Longrightarrow> retires ni (ni\<lparr>ni_arg := d, ni_page_cache := c\<rparr>)"
  unfolding retires_def
  by (intro conjI exI [of _ d] exI [of _ c] exI [of _ "ni_block_state ni"]
     exI [of _ "ni_block_state_changed ni"]) (simp_all add: usable_blocks_def)

lemma retires_arg: "retires ni (ni\<lparr>ni_arg := d\<rparr>)"
  using retires_phys [of "ni_page_cache ni" ni d] by simp

lemma retires_bad:
  assumes "states_cover ni" and "b < ni_block_count ni"
  shows "retires ni (with_state b BLOCK_ST_BAD ni)"
proof -
  have cov: "unat b < 16 * length (ni_block_state ni)" using states_coverD [OF assms] .
  have "\<exists>d c bs ch. with_state b 0 ni = ni\<lparr>ni_arg := d, ni_page_cache := c, ni_block_state := bs,
        ni_block_state_changed := ch\<rparr> \<and> length c = length (ni_page_cache ni) \<and>
        length bs = length (ni_block_state ni)"
    unfolding with_state_def
    by (rule exI [of _ "ni_arg ni"], rule exI [of _ "ni_page_cache ni"],
        rule exI [of _ "put_blk (ni_block_state ni) b 0"], rule exI) simp
  moreover have "usable_blocks (with_state b 0 ni) < usable_blocks ni \<or>
      usable_blocks (with_state b 0 ni) = usable_blocks ni \<and>
      ni_block_state_changed (with_state b 0 ni) = ni_block_state_changed ni"
  proof (cases "blk (ni_block_state ni) b = 0")
    case True
    then have "bst.usable (ni_block_state ni) n - {b} = bst.usable (ni_block_state ni) n" for n
      by (auto simp: bst.usable_def)
    then show ?thesis
      using True cov by (simp add: usable_blocks_def with_state_def bst.usable_put_bad)
  next
    case False
    then show ?thesis
      using bst.usable_put_less [OF cov _ False] assms(2)
      by (simp add: usable_blocks_def with_state_def word_less_nat_alt)
  qed
  ultimately show ?thesis
    unfolding retires_def using blk_with_state [OF cov, of 0] by simp
qed


lemma phys_refl:
  "\<exists>d c. length c = length (ni_page_cache ni) \<and> ni = ni\<lparr>ni_arg := d, ni_page_cache := c\<rparr>"
  by (rule exI [of _ "ni_arg ni"], rule exI [of _ "ni_page_cache ni"]) simp

lemma phys_ex:
  "length c = n \<Longrightarrow>
   \<exists>d' c'. length c' = n \<and> ni\<lparr>ni_arg := d, ni_page_cache := c\<rparr> = ni\<lparr>ni_arg := d', ni_page_cache := c'\<rparr>"
  by blast

lemma leading_less:
  assumes "page_geom ni"
  shows "(ucast (off AND ucast (ni_writesize_mask ni) :: u64) :: u32) < ni_writesize ni"
proof -
  have "off AND ucast (ni_writesize_mask ni) \<le> (ucast (ni_writesize_mask ni) :: u64)"
    by (simp add: word_and_le1)
  then have "unat (off AND ucast (ni_writesize_mask ni)) \<le> unat (ni_writesize_mask ni)"
    by (simp add: word_le_nat_alt)
  also have "\<dots> < unat (ni_writesize ni)"
    using page_geomD(2,6) [OF assms] by (simp add: unat_pred_less)
  finally have *: "unat (off AND ucast (ni_writesize_mask ni)) < unat (ni_writesize ni)" .
  then have "unat (off AND ucast (ni_writesize_mask ni)) < 2 ^ 32"
    using unat_u32_less [of "ni_writesize ni"] by simp
  then have "unat (ucast (off AND ucast (ni_writesize_mask ni) :: u64) :: u32)
      = unat (off AND ucast (ni_writesize_mask ni))"
    unfolding unat_ucast_u32 by (rule mod_less)
  with * show ?thesis unfolding word_less_nat_alt by simp
qed

text \<open>The arithmetic of one turn of a chunked transfer.\<close>

lemma page_chunk_bounds:
  assumes "page_geom ni" and "page_chunk ni off sizeremain = (leading, chunk)" and "sizeremain \<noteq> 0"
  shows "unat leading + unat chunk \<le> unat (ni_writesize ni)" "0 < unat chunk"
    "unat chunk \<le> unat sizeremain" "unat (sizeremain - chunk) = unat sizeremain - unat chunk"
proof -
  let ?ws = "ni_writesize ni"
  have leading: "leading < ?ws"
    using assms(2) leading_less [OF assms(1), of off] by (simp add: page_chunk_def Let_def)
  have chunk: "chunk = (if ?ws - leading > sizeremain then sizeremain else ?ws - leading)"
    using assms(2) by (auto simp: page_chunk_def Let_def)
  have l: "unat leading < unat ?ws" "0 < unat sizeremain"
    using assms(3) leading by (simp_all add: word_less_nat_alt unat_gt_0)
  have d: "unat (?ws - leading) = unat ?ws - unat leading"
    using leading by (simp add: unat_sub)
  show "unat leading + unat chunk \<le> unat ?ws" "0 < unat chunk"
    and le: "unat chunk \<le> unat sizeremain"
    using l d unfolding chunk by (auto simp: word_less_nat_alt)
  show "unat (sizeremain - chunk) = unat sizeremain - unat chunk"
    using le by (simp add: unat_sub word_le_nat_alt)
qed

lemma unat_remaining: "(r :: u32) \<le> sz \<Longrightarrow> unat (sz - r) = unat sz - unat r \<and> unat r \<le> unat sz"
  by (simp add: unat_sub word_le_nat_alt)

lemma page_chunk_frame [simp]:
  "page_chunk (ni\<lparr>ni_arg := d\<rparr>) = page_chunk ni"
  "page_chunk (ni\<lparr>ni_page_cache := c\<rparr>) = page_chunk ni"
  by (simp_all add: page_chunk_def fun_eq_iff)

lemma write_verify_wp [wp]:
  assumes "page_geom ni" and "unat sz \<le> length data"
    and "\<And>ok d c. length c = length (ni_page_cache ni) \<Longrightarrow>
      Q (ok, ni\<lparr>ni_arg := d, ni_page_cache := c\<rparr>)"
  shows "returns (nmbn_write_verify_data ni addr data sz) Q"
  unfolding nmbn_write_verify_data_def
proof (rule loop_rule [where m = "\<lambda>(_, _, sizeremain). unat sizeremain" and
      I = "\<lambda>(ni', _, sizeremain). sizeremain \<le> sz \<and> (\<exists>d c. length c = length (ni_page_cache ni) \<and>
        ni' = ni\<lparr>ni_arg := d, ni_page_cache := c\<rparr>)"], goal_cases)
  case 1
  show ?case by (simp add: phys_refl)
next
  case (2 s)
  note g = page_geomD(1,8,9) [OF assms(1)]
  obtain ni' off sizeremain where s: "s = (ni', off, sizeremain)" by (cases s)
  show ?case
  proof (cases "sizeremain = 0")
    case True
    with 2 assms(3) show ?thesis by (auto simp: s write_verify_body_def)
  next
    case False
    obtain leading chunk where pc: "page_chunk ni off sizeremain = (leading, chunk)" by (cases "page_chunk ni off sizeremain")
    note b = page_chunk_bounds [OF assms(1) pc False]
    have sr: "sizeremain \<le> sz" using 2 by (simp add: s)
    have "sizeremain - chunk \<le> sz" using b sr by (simp add: word_le_nat_alt)
    with 2 False b unat_remaining [OF sr] g assms show ?thesis
      by (auto simp: s write_verify_body_def pc ret_simps intro!: wp phys_ex)
  qed
qed

lemma read_data_wp [wp]:
  assumes "page_geom ni" and "unat sz \<le> length data"
    and "\<And>ret data' d c. length data' = length data \<Longrightarrow> length c = length (ni_page_cache ni) \<Longrightarrow>
      Q (ret, data', ni\<lparr>ni_arg := d, ni_page_cache := c\<rparr>)"
  shows "returns (nmbn_read_data ni addr data sz) Q"
  unfolding nmbn_read_data_def
proof (rule loop_rule [where m = "\<lambda>(_, _, sizeremain, _). unat sizeremain" and
      I = "\<lambda>(ni', _, sizeremain, data'). sizeremain \<le> sz \<and> length data' = length data \<and>
        (\<exists>d c. length c = length (ni_page_cache ni) \<and>
           ni' = ni\<lparr>ni_arg := d, ni_page_cache := c\<rparr>)"], goal_cases)
  case 1
  show ?case by (simp add: phys_refl)
next
  case (2 s)
  note g = page_geomD(1,9) [OF assms(1)]
  obtain ni' off sizeremain data' where s: "s = (ni', off, sizeremain, data')" by (cases s)
  show ?case
  proof (cases "sizeremain = 0")
    case True
    with 2 assms(3) show ?thesis by (auto simp: s read_data_body_def)
  next
    case False
    obtain leading chunk where pc: "page_chunk ni off sizeremain = (leading, chunk)"
      by (cases "page_chunk ni off sizeremain")
    note b = page_chunk_bounds [OF assms(1) pc False]
    have sr: "sizeremain \<le> sz" using 2 by (simp add: s)
    have "sizeremain - chunk \<le> sz" using b sr by (simp add: word_le_nat_alt)
    moreover have "unat sz + unat chunk - unat sizeremain \<le> length data"
      using b assms(2) by linarith
    ultimately show ?thesis
      using 2 False b unat_remaining [OF sr] g assms
      by (auto simp: s read_data_body_def pc ret_simps Let_def intro!: wp phys_ex)
  qed
qed

lemma mark_block_bad_wp [wp]:
  assumes "page_geom ni" and "states_cover ni" and "b < ni_block_count ni"
    and "\<And>ni'. retires ni ni' \<Longrightarrow> blk (ni_block_state ni') b = BLOCK_ST_BAD \<Longrightarrow> Q ni'"
  shows "returns (mark_block_bad ni b) Q"
proof -
  have "Q (with_state b 0 (ni\<lparr>ni_arg := d, ni_page_cache := c\<rparr>))" (is "Q (with_state b 0 ?ni)")
    if "length c = length (ni_page_cache ni)" for d c
  proof (rule assms(4))
    have "states_cover ?ni" "b < ni_block_count ?ni" using assms(2,3) by (simp_all add: states_cover_def)
    then show "retires ni (with_state b 0 ?ni)"
      using retires_trans [OF retires_phys [OF that] retires_bad] by simp
    show "blk (ni_block_state (with_state b 0 ?ni)) b = 0"
      using states_coverD [OF assms(2,3)] by (simp add: blk_with_state)
  qed
  then show ?thesis
    using assms(1) states_coverD [OF assms(2,3)]
    by (auto simp: mark_block_bad_def ret_simps intro!: wp)
qed

lemma erase_range_wp [wp]:
  assumes "page_geom ni" and "states_cover ni" and "limit \<le> ni_block_count ni"
    and "\<And>ni'. retires ni ni' \<Longrightarrow> Q ni'"
  shows "returns (nmbm_erase_range ni ba limit) Q"
  unfolding nmbm_erase_range_def
proof (rule loop_rule [where m = "\<lambda>(_, ba). unat limit - unat ba" and
      I = "\<lambda>(ni', ba). retires ni ni'"], goal_cases)
  case 1
  show ?case by simp
next
  case (2 s)
  obtain ni' ba where s: "s = (ni', ba)" by (cases s)
  have r: "retires ni ni'" using 2 by (simp add: s)
  note f = retires_fields [OF r]
  show ?case
  proof (cases "ba < limit")
    case False
    with r assms(4) show ?thesis by (simp add: s erase_range_body_def)
  next
    case True
    have dec: "unat limit - unat (ba + 1) < unat limit - unat ba"
      using True unat_inc [OF True] by (simp add: word_less_nat_alt)
    have ba: "ba < ni_block_count ni" using True assms(3) by simp
    have "retires ni ni''" if "retires (ni'\<lparr>ni_arg := d\<rparr>) ni''" for d ni''
      using retires_trans [OF r retires_trans [OF retires_arg that]] .
    moreover have "retires ni (ni'\<lparr>ni_arg := d\<rparr>)" for d
      using retires_trans [OF r retires_arg] .
    ultimately show ?thesis
      using True dec ba f r assms(1,2) states_coverD [OF assms(2) ba] page_geomD(1) [OF assms(1)]
      by (auto simp: s erase_range_body_def ret_simps states_cover_def intro!: wp)
  qed
qed

lemma block_chunk_bounds:
  assumes "page_geom ni" and "sr \<noteq> 0" and "sr \<le> sz"
  shows "0 < unat (block_chunk ni sr)" "unat (block_chunk ni sr) \<le> unat sr"
    "unat (sr - block_chunk ni sr) = unat sr - unat (block_chunk ni sr)"
    "sr - block_chunk ni sr \<le> sz" "sr - block_chunk ni sr \<noteq> sz"
    "unat (sz - sr) + unat (block_chunk ni sr) \<le> unat sz"
proof -
  have es: "0 < unat (ni_erasesize ni)"
    using page_geomD(2,3) [OF assms(1)] by (auto simp: word_less_nat_alt word_le_nat_alt)
  have sr0: "0 < unat sr" using assms(2) by (simp add: unat_gt_0)
  show p: "0 < unat (block_chunk ni sr)" and le: "unat (block_chunk ni sr) \<le> unat sr"
    using es sr0 by (auto simp: word_less_nat_alt block_chunk_def)
  show sub: "unat (sr - block_chunk ni sr) = unat sr - unat (block_chunk ni sr)"
    using le by (simp add: unat_sub word_le_nat_alt)
  have "unat (sr - block_chunk ni sr) < unat sz"
    using p le sub unat_remaining [OF assms(3)] by linarith
  then show "sr - block_chunk ni sr \<le> sz" "sr - block_chunk ni sr \<noteq> sz"
    by (auto simp: word_le_nat_alt)
  show "unat (sz - sr) + unat (block_chunk ni sr) \<le> unat sz"
    using le unat_remaining [OF assms(3)] by linarith
qed

lemma block_chunk_frame [simp]:
  "block_chunk (ni\<lparr>ni_arg := d\<rparr>) = block_chunk ni"
  "block_chunk (ni\<lparr>ni_page_cache := c\<rparr>) = block_chunk ni"
  by (simp_all add: block_chunk_def fun_eq_iff)

lemma block_chunk_retires: "retires ni ni' \<Longrightarrow> block_chunk ni' = block_chunk ni"
  by (simp add: block_chunk_def fun_eq_iff retires_fields)

lemma retires_after_phys:
  assumes "retires ni ni'" and "length c = length (ni_page_cache ni')"
    and "retires (ni'\<lparr>ni_arg := d, ni_page_cache := c\<rparr>) ni''"
  shows "retires ni ni''"
  using retires_trans [OF assms(1) retires_trans [OF retires_phys [OF assms(2)] assms(3)]] .

lemma write_mgmt_block_wp [wp]:
  assumes "page_geom ni" and "ptr + unat chunksize \<le> length data"
    and "\<And>ok ni'. retires ni ni' \<Longrightarrow> Q (ok, ni')"
  shows "returns (write_mgmt_block ni ba data ptr chunksize) Q"
  using assms page_geomD(1) [OF assms(1)] retires_arg [of ni] retires_phys [of _ ni]
  by (auto simp: write_mgmt_block_def ret_simps intro!: wp)

lemma write_mgmt_loop:
  assumes "page_geom ni" and "states_cover ni" and "limit \<le> ni_block_count ni"
    and "unat sz \<le> length data" and "sz \<noteq> 0"
  shows "returns (loop (write_mgmt_body limit data sz) (ni, ba, sz, None)) (\<lambda>(r, ni').
    retires ni ni' \<and> (\<forall>start end_ba. r = Some (start, end_ba) \<longrightarrow>
      (\<exists>s. start = Some s \<and> ba \<le> s \<and> s < end_ba \<and> end_ba \<le> limit)))"
proof -
  define I where "I = (\<lambda>(ni', ba', sr, start). retires ni ni' \<and> sr \<le> sz \<and> ba \<le> ba' \<and>
    (case start of None \<Rightarrow> sr = sz | Some s \<Rightarrow> ba \<le> s \<and> s < ba' \<and> ba' \<le> limit \<and> sr \<noteq> sz))"
  show ?thesis
  proof (rule loop_rule [where m = "\<lambda>(_, ba, _, _). unat limit - unat ba" and I = I], goal_cases)
    case 1
    show ?case by (simp add: I_def)
  next
    case (2 s)
    obtain ni' ba' sr start where s: "s = (ni', ba', sr, start)" by (cases s)
    have r: "retires ni ni'" and sr: "sr \<le> sz" using 2 by (simp_all add: s I_def)
    note f = retires_fields [OF r]
    show ?case
    proof (cases "sr \<noteq> 0 \<and> ba' < limit")
      case False
      with 2 assms(5) show ?thesis by (auto simp: s I_def write_mgmt_body_def split: option.splits)
    next
      case True
      then have lt: "ba' < limit" "sr \<noteq> 0" by simp_all
      have adv: "unat limit - unat (ba' + 1) < unat limit - unat ba'" "ba' < ba' + 1" "ba' + 1 \<le> limit"
        using lt unat_inc [OF lt(1)] by (simp_all add: word_less_nat_alt word_le_nat_alt)
      have ba: "ba' < ni_block_count ni" using lt assms(3) by simp
      note chunk = block_chunk_bounds [OF assms(1) lt(2) sr]
      have skip: "I (ni'', ba' + 1, sr, start)" if "retires ni ni''" for ni''
        using 2 that adv by (auto simp: s I_def split: option.splits)
      define start' where "start' = (if sr = sz then Some ba' else start)"
      have step: "I (ni'', ba' + 1, sr - block_chunk ni sr, start')" if "retires ni ni''" for ni''
        using 2 that adv chunk by (auto simp: s I_def start'_def split: option.splits)
      have cov: "unat ba' < 16 * length (ni_block_state ni')"
        using states_coverD [OF assms(2) ba] f by simp
      have mark: "returns (mark_block_bad ni'' ba') (\<lambda>ni. I (ni, ba' + 1, sr, start))"
        if "retires ni ni''" for ni''
        using that assms(1,2) ba
        by (intro wp skip) (auto simp: retires_fields intro: retires_trans)
      have "returns (write_mgmt_block ni' ba' data (unat (sz - sr)) (block_chunk ni sr))
          (\<lambda>(ok, ni''). retires ni ni'')"
        using assms(1,4) f chunk(6) r by (auto intro!: wp intro: retires_trans)
      then show ?thesis
        using True adv(1) cov skip [OF r]
        by (auto simp: s write_mgmt_body_def Let_def ret_simps block_chunk_retires [OF r]
            start'_def [symmetric] intro: step mark elim!: returns_mono)
    qed
  qed
qed

lemma write_mgmt_range_wp [wp]:
  assumes "page_geom ni" and "states_cover ni" and "limit \<le> ni_block_count ni"
    and "unat sz \<le> length data" and "sz \<noteq> 0"
    and "\<And>ni'. retires ni ni' \<Longrightarrow> Q (None, ni')"
    and "\<And>start end_ba ni'. retires ni ni' \<Longrightarrow> ba \<le> start \<Longrightarrow> start < end_ba \<Longrightarrow> end_ba \<le> limit \<Longrightarrow>
      Q (Some (start, end_ba), ni')"
  shows "returns (nmbm_write_mgmt_range ni ba limit data sz) Q"
proof -
  obtain r ni' where "loop (write_mgmt_body limit data sz) (ni, ba, sz, None) = Some (r, ni')"
    and "retires ni ni'" and "\<forall>start end_ba. r = Some (start, end_ba) \<longrightarrow>
      (\<exists>s. start = Some s \<and> ba \<le> s \<and> s < end_ba \<and> end_ba \<le> limit)"
    using write_mgmt_loop [OF assms(1-5), of ba] by (auto simp: returns_pair_iff)
  with assms(6,7) show ?thesis
    by (cases r) (auto simp: nmbm_write_mgmt_range_def)
qed

lemma geomD:
  assumes "geom ni"
  shows "page_geom ni" "states_cover ni" "ni_block_count ni \<le> 0x80000000"
    "length (ni_block_mapping ni) = unat (ni_block_count ni)"
    "unat (ni_state_table_size ni) = 4 * length (ni_block_state ni)"
    "unat (ni_mapping_table_size ni) = 4 * length (ni_block_mapping ni)"
    "length (ni_info_table_cache ni) = unat (ni_info_table_size ni)"
    "32 \<le> unat (ift_state_table_off (ni_info_table ni))"
    "unat (ift_state_table_off (ni_info_table ni)) + unat (ni_state_table_size ni)
       \<le> unat (ift_mapping_table_off (ni_info_table ni))"
    "unat (ift_mapping_table_off (ni_info_table ni)) + unat (ni_mapping_table_size ni)
       \<le> unat (ni_info_table_size ni)"
    "lower_ok (ni_lower ni)" "ni_info_table_size ni \<noteq> 0" "32 \<le> unat (ni_info_table_size ni)"
proof -
  show "32 \<le> unat (ni_info_table_size ni)" using assms unfolding geom_def by linarith
  then show "ni_info_table_size ni \<noteq> 0" by auto
qed (use assms page_geomD(1) in \<open>auto simp: geom_def\<close>)

lemma write_info_table_wp [wp]:
  assumes "geom ni" and "limit \<le> ni_block_count ni"
    and "\<And>ni'. retires ni ni' \<Longrightarrow> Q (None, ni')"
    and "\<And>start end_ba ni'. retires ni ni' \<Longrightarrow> ba \<le> start \<Longrightarrow> start < end_ba \<Longrightarrow> end_ba \<le> limit \<Longrightarrow>
      Q (Some (start, end_ba), ni')"
  shows "returns (nmbm_write_info_table ni ba limit) Q"
  unfolding nmbm_write_info_table_def using geomD [OF assms(1)] assms(2-4) by (intro wp) auto

text \<open>The header \<open>nmbm_generate_info_table_cache\<close> writes, before its checksum.\<close>

definition next_header :: "'d nmbm_instance \<Rightarrow> nmbm_info_table_header" where
  "next_header ni = (ni_info_table ni)
     \<lparr>ift_header := (ift_header (ni_info_table ni))
        \<lparr>hdr_magic := NMBM_MAGIC_INFO_TABLE, hdr_version := NMBM_VER,
         hdr_size := ni_info_table_size ni\<rparr>,
      ift_write_count := ift_write_count (ni_info_table ni) +
        (if ni_block_state_changed ni \<noteq> 0 \<or> ni_block_mapping_changed ni \<noteq> 0 then 1 else 0)\<rparr>"

text \<open>The image of the info table before its checksum is set.\<close>

definition raw_image :: "'d nmbm_instance \<Rightarrow> bytes" where
  "raw_image ni =
     (let so = unat (ift_state_table_off (ni_info_table ni));
          mo = unat (ift_mapping_table_off (ni_info_table ni))
      in info_header_bytes (next_header ni) @ replicate (so - 32) 0xff
         @ enc_words (ni_block_state ni)
         @ replicate (mo - (so + 4 * length (ni_block_state ni))) 0xff
         @ enc_words (ni_block_mapping ni)
         @ replicate (unat (ni_info_table_size ni) - (mo + 4 * length (ni_block_mapping ni))) 0xff)"

lemma generate_eq:
  assumes "geom ni"
  shows "nmbm_generate_info_table_cache ni = do {
    cache \<leftarrow> nmbm_update_checksum (raw_image ni);
    Some (ni_block_state_changed ni \<noteq> 0 \<or> ni_block_mapping_changed ni \<noteq> 0,
      ni\<lparr>ni_info_table := next_header ni, ni_info_table_cache := cache\<rparr>) }"
proof -
  note g = geomD [OF assms]
  let ?so = "unat (ift_state_table_off (ni_info_table ni))"
  let ?mo = "unat (ift_mapping_table_off (ni_info_table ni))"
  let ?sz = "unat (ni_info_table_size ni)" and ?S = "enc_words (ni_block_state ni)"
  let ?M = "enc_words (ni_block_mapping ni)"
  have w0: "mem_write 0 (replicate ?sz 0xff) (ni_info_table_cache ni) = Some (replicate ?sz 0xff)"
    using g by (simp add: mem_write_def)
  have r1: "mem_read 0 (unat (ni_state_table_size ni)) ?S = Some ?S"
    and r2: "mem_read 0 (unat (ni_mapping_table_size ni)) ?M = Some ?M"
    using g by (simp_all add: mem_read_def)
  have w1: "mem_write ?so ?S (replicate ?sz 0xff) =
      Some (replicate ?so 0xff @ ?S @ replicate (?sz - (?so + length ?S)) 0xff)"
    using g by (simp add: mem_write_def)
  have w2: "mem_write ?mo ?M (replicate ?so 0xff @ ?S @ replicate (?sz - (?so + length ?S)) 0xff) =
      Some (replicate ?so 0xff @ ?S @ replicate (?mo - (?so + length ?S)) 0xff @ ?M
        @ replicate (?sz - (?mo + length ?M)) 0xff)"
    using g by (simp add: mem_write_def)
  have w3: "mem_write 0 (info_header_bytes (next_header ni)) (replicate ?so 0xff @ ?S
       @ replicate (?mo - (?so + length ?S)) 0xff @ ?M @ replicate (?sz - (?mo + length ?M)) 0xff)
     = Some (raw_image ni)"
    using g by (simp add: mem_write_def raw_image_def Let_def)
  show ?thesis
    unfolding nmbm_generate_info_table_cache_def
    using w0 r1 r2 w1 w2 w3 [unfolded next_header_def]
    by (cases "ni_block_state_changed ni \<noteq> 0 \<or> ni_block_mapping_changed ni \<noteq> 0")
      (simp_all add: next_header_def)
qed

lemma length_raw_image: "geom ni \<Longrightarrow> length (raw_image ni) = unat (ni_info_table_size ni)"
  using geomD [of ni] by (simp add: raw_image_def Let_def)

lemma raw_image_size: "field32 8 (raw_image ni) = ni_info_table_size ni"
proof -
  have "header_of (raw_image ni) = ift_header (next_header ni)"
    by (simp add: raw_image_def Let_def info_header_bytes_def)
  then show ?thesis using header_size_field [of "raw_image ni"] by (simp add: next_header_def)
qed

lemma next_header_offsets [simp]:
  "ift_state_table_off (next_header ni) = ift_state_table_off (ni_info_table ni)"
  "ift_mapping_table_off (next_header ni) = ift_mapping_table_off (ni_info_table ni)"
  by (simp_all add: next_header_def)

lemma generate_wp [wp]:
  assumes "geom ni"
    and "\<And>cache. length cache = length (ni_info_table_cache ni) \<Longrightarrow>
      Q (ni_block_state_changed ni \<noteq> 0 \<or> ni_block_mapping_changed ni \<noteq> 0,
         ni\<lparr>ni_info_table := next_header ni, ni_info_table_cache := cache\<rparr>)"
  shows "returns (nmbm_generate_info_table_cache ni) Q"
proof -
  let ?raw = "raw_image ni"
  have "nmbm_update_checksum ?raw = mem_write 12
      (enc32 (crc_ref 0 (covered (unat (field32 8 ?raw)) ?raw))) ?raw"
    using geomD(13) [OF assms(1)]
    by (intro nmbm_update_checksum_eq) (simp_all add: raw_image_size length_raw_image [OF assms(1)])
  then have "returns (nmbm_update_checksum ?raw) (\<lambda>c. length c = length (ni_info_table_cache ni))"
    using geomD(7,13) [OF assms(1)]
    by (simp add: ret_simps length_raw_image [OF assms(1)] del: enc_le.simps)
  then show ?thesis
    using assms(2) by (auto simp: generate_eq [OF assms(1)] elim!: returns_mono)
qed

definition keeps :: "'d nmbm_instance \<Rightarrow> 'd nmbm_instance \<Rightarrow> bool" where
  "keeps ni ni' \<longleftrightarrow> ni_lower ni' = ni_lower ni \<and> ni_rawpage_size ni' = ni_rawpage_size ni \<and>
     ni_writesize_mask ni' = ni_writesize_mask ni \<and> ni_erasesize_mask ni' = ni_erasesize_mask ni \<and>
     ni_erasesize_shift ni' = ni_erasesize_shift ni \<and>
     ni_info_table_size ni' = ni_info_table_size ni \<and>
     ni_info_table_spare_blocks ni' = ni_info_table_spare_blocks ni \<and>
     ni_state_table_size ni' = ni_state_table_size ni \<and>
     ni_mapping_table_size ni' = ni_mapping_table_size ni \<and>
     ni_block_mapping ni' = ni_block_mapping ni \<and> ni_block_count ni' = ni_block_count ni \<and>
     ni_data_block_count ni' = ni_data_block_count ni \<and>
     ni_mgmt_start_ba ni' = ni_mgmt_start_ba ni \<and>
     ni_mapping_blocks_top_ba ni' = ni_mapping_blocks_top_ba ni \<and>
     ni_signature ni' = ni_signature ni \<and> ni_signature_ba ni' = ni_signature_ba ni \<and>
     length (ni_page_cache ni') = length (ni_page_cache ni) \<and>
     length (ni_block_state ni') = length (ni_block_state ni) \<and>
     length (ni_info_table_cache ni') = length (ni_info_table_cache ni) \<and>
     ift_state_table_off (ni_info_table ni') = ift_state_table_off (ni_info_table ni) \<and>
     ift_mapping_table_off (ni_info_table ni') = ift_mapping_table_off (ni_info_table ni) \<and>
     usable_blocks ni' \<le> usable_blocks ni \<and>
     (\<forall>b. blk (ni_block_state ni') b = blk (ni_block_state ni) b \<or>
        blk (ni_block_state ni') b = BLOCK_ST_BAD)"

lemma keeps_refl [simp]: "keeps ni ni"
  by (simp add: keeps_def)

lemma keeps_states:
  "keeps ni ni' \<Longrightarrow> blk (ni_block_state ni') b = blk (ni_block_state ni) b \<or>
     blk (ni_block_state ni') b = BLOCK_ST_BAD"
  by (simp add: keeps_def)

lemma keeps_trans [trans]:
  assumes "keeps a b" and "keeps b c" shows "keeps a c"
proof -
  have "blk (ni_block_state c) x = blk (ni_block_state a) x \<or> blk (ni_block_state c) x = 0" for x
    using keeps_states [OF assms(1), of x] keeps_states [OF assms(2), of x] by auto
  then show ?thesis using assms unfolding keeps_def by simp
qed

lemma retires_keeps:
  assumes "retires ni ni'"
  shows "keeps ni ni'"
proof -
  obtain d c bs ch where eq: "ni' = ni\<lparr>ni_arg := d, ni_page_cache := c, ni_block_state := bs,
      ni_block_state_changed := ch\<rparr>" and len: "length c = length (ni_page_cache ni)"
      "length bs = length (ni_block_state ni)"
    using assms unfolding retires_def by blast
  have "usable_blocks ni' \<le> usable_blocks ni" using retires_usable [OF assms] by auto
  with len retires_states [OF assms] show ?thesis unfolding keeps_def by (simp add: eq)
qed

lemma keeps_geom: "keeps ni ni' \<Longrightarrow> geom ni' = geom ni"
  by (simp add: keeps_def geom_def page_geom_def states_cover_def)

lemma keepsD:
  assumes "keeps ni ni'"
  shows "ni_lower ni' = ni_lower ni" "ni_block_mapping ni' = ni_block_mapping ni"
    "ni_block_count ni' = ni_block_count ni"
    "ni_mapping_blocks_top_ba ni' = ni_mapping_blocks_top_ba ni"
    "ni_data_block_count ni' = ni_data_block_count ni"
    "ni_erasesize_shift ni' = ni_erasesize_shift ni"
    "ni_mgmt_start_ba ni' = ni_mgmt_start_ba ni"
    "usable_blocks ni' \<le> usable_blocks ni" "geom ni' = geom ni"
  using assms keeps_geom [OF assms] by (simp_all add: keeps_def)

lemma usable_blocks_upd [simp]:
  "usable_blocks (ni\<lparr>ni_main_table_ba := a\<rparr>) = usable_blocks ni"
  "usable_blocks (ni\<lparr>ni_backup_table_ba := a\<rparr>) = usable_blocks ni"
  "usable_blocks (ni\<lparr>ni_mapping_blocks_ba := a\<rparr>) = usable_blocks ni"
  "usable_blocks (ni\<lparr>ni_protected := p\<rparr>) = usable_blocks ni"
  "usable_blocks (ni\<lparr>ni_block_state_changed := n\<rparr>) = usable_blocks ni"
  "usable_blocks (ni\<lparr>ni_block_mapping_changed := n\<rparr>) = usable_blocks ni"
  "usable_blocks (ni\<lparr>ni_info_table := t\<rparr>) = usable_blocks ni"
  "usable_blocks (ni\<lparr>ni_info_table_cache := c\<rparr>) = usable_blocks ni"
  by (simp_all add: usable_blocks_def)

lemma keeps_upd [simp]:
  "keeps ni (ni'\<lparr>ni_main_table_ba := a\<rparr>) = keeps ni ni'"
  "keeps ni (ni'\<lparr>ni_backup_table_ba := a\<rparr>) = keeps ni ni'"
  "keeps ni (ni'\<lparr>ni_mapping_blocks_ba := a\<rparr>) = keeps ni ni'"
  "keeps ni (ni'\<lparr>ni_protected := p\<rparr>) = keeps ni ni'"
  "keeps ni (ni'\<lparr>ni_block_state_changed := n\<rparr>) = keeps ni ni'"
  "keeps ni (ni'\<lparr>ni_block_mapping_changed := n\<rparr>) = keeps ni ni'"
  by (simp_all add: keeps_def)

lemma geom_upd [simp]:
  "geom (ni\<lparr>ni_main_table_ba := a\<rparr>) = geom ni"
  "geom (ni\<lparr>ni_backup_table_ba := a\<rparr>) = geom ni"
  "geom (ni\<lparr>ni_mapping_blocks_ba := a\<rparr>) = geom ni"
  "geom (ni\<lparr>ni_mapping_blocks_top_ba := a\<rparr>) = geom ni"
  "geom (ni\<lparr>ni_protected := p\<rparr>) = geom ni"
  "geom (ni\<lparr>ni_block_state_changed := n\<rparr>) = geom ni"
  "geom (ni\<lparr>ni_block_mapping_changed := n\<rparr>) = geom ni"
  "geom (ni\<lparr>ni_data_block_count := n\<rparr>) = geom ni"
  by (simp_all add: geom_def page_geom_def states_cover_def)

definition settled :: "nat \<Rightarrow> 'd nmbm_instance \<Rightarrow> bool" where
  "settled u ni \<longleftrightarrow> usable_blocks ni < u \<or>
     ni_block_state_changed ni = 0 \<and> ni_block_mapping_changed ni = 0"

lemma settled_upd [simp]:
  "settled u (ni\<lparr>ni_main_table_ba := a\<rparr>) = settled u ni"
  "settled u (ni\<lparr>ni_backup_table_ba := a\<rparr>) = settled u ni"
  "settled u (ni\<lparr>ni_mapping_blocks_ba := a\<rparr>) = settled u ni"
  "settled u (ni\<lparr>ni_protected := p\<rparr>) = settled u ni"
  by (simp_all add: settled_def)

lemma settled_clean [simp]: "settled u (nmbm_mark_tables_clean ni)"
  by (simp add: settled_def nmbm_mark_tables_clean_def)

lemma settled_retires: "settled u a \<Longrightarrow> usable_blocks a \<le> u \<Longrightarrow> retires a b \<Longrightarrow> settled u b"
  using retires_usable [of a b] retires_fields(8) [of a b] by (auto simp: settled_def)

definition layout :: "'d nmbm_instance \<Rightarrow> bool" where
  "layout ni \<longleftrightarrow> geom ni \<and> ni_main_table_ba ni < ni_block_count ni \<and>
     ni_backup_table_ba ni < ni_block_count ni \<and>
     0 < ni_mapping_blocks_ba ni \<and> ni_mapping_blocks_ba ni < ni_block_count ni \<and>
     0 < ni_mapping_blocks_top_ba ni \<and> ni_mapping_blocks_top_ba ni < ni_block_count ni"

lemma try_reserve_wp [wp]:
  assumes "states_cover ni" and "Q None"
    and "\<And>nba. ba \<le> nba \<Longrightarrow> nba < ni_block_count ni \<Longrightarrow> good ni nba \<Longrightarrow> Q (Some nba)"
  shows "returns (nmbm_try_reserve_blocks ni ba count 0 limit) Q"
proof -
  let ?gs = "filter (good ni) (blocks_up ba (clip ni limit))"
  have "sint count < 2 ^ 31" using sint_lt [of count] by simp
  from try_reserve_loop [OF assms(1) order_refl this, of ba limit]
  have eq: "nmbm_try_reserve_blocks ni ba count 0 limit = Some (if 0 \<le> sint count \<and> 0 < length ?gs
      then Some (?gs ! min (nat (sint count)) (length ?gs - 1)) else None)"
    by (simp add: nmbm_try_reserve_blocks_def)
  have "Q (Some b)" if "b \<in> set ?gs" for b
    using that assms clip_less [of ni limit] by (auto simp: set_blocks_up states_cover_def)
  moreover have "?gs ! min (nat (sint count)) (length ?gs - 1) \<in> set ?gs" if "0 < length ?gs"
    using that by (intro nth_mem) linarith
  ultimately show ?thesis unfolding eq using assms(2) by auto
qed

lemma write_back_wp [wp]:
  assumes "geom ni" and "ni_mapping_blocks_top_ba ni \<le> ni_block_count ni"
    and "0 < low" and "low \<le> write_ba"
    and "\<And>ni' t. retires ni ni' \<Longrightarrow> Q (False, t, ni')"
    and "\<And>ni' start end_ba. retires ni ni' \<Longrightarrow> low \<le> start \<Longrightarrow> start < end_ba \<Longrightarrow>
      end_ba \<le> ni_mapping_blocks_top_ba ni \<Longrightarrow> Q (True, Some (start, end_ba), ni')"
  shows "returns (write_back ni write_ba low) Q"
  unfolding write_back_def
proof (rule loop_rule [where m = "\<lambda>(_, write_ba, _, _). unat write_ba" and
      I = "\<lambda>(ni', write_ba, success, t). retires ni ni' \<and> (success \<longrightarrow> low \<le> write_ba)"], goal_cases)
  case 1
  show ?case using assms(4) by simp
next
  case (2 s)
  obtain ni' wb success t where s: "s = (ni', wb, success, t)" by (cases s)
  have r: "retires ni ni'" using 2 by (simp add: s)
  note f = retires_fields [OF r]
  show ?case
  proof (cases "low \<le> wb")
    case False
    with 2 assms(5) show ?thesis by (auto simp: s write_back_body_def)
  next
    case True
    then have "unat (wb - 1) < unat wb" using assms(3) by (intro unat_pred_less) auto
    moreover have "Q (True, Some (start, end_ba), ni'')"
      if "retires ni' ni''" "wb \<le> start" "start < end_ba" "end_ba \<le> ni_mapping_blocks_top_ba ni"
      for ni'' start end_ba
      using that True assms(6) [OF retires_trans [OF r that(1)]] by simp
    moreover have "retires ni ni''" if "retires ni' ni''" for ni'' using retires_trans [OF r that] .
    ultimately show ?thesis
      using True f(10,16,19) assms(1,2) by (auto simp: s write_back_body_def intro!: wp)
  qed
qed
end
