(* ===== verification/Nmbm_Update.thy ===== *)
theory Nmbm_Update
  imports Nmbm_Mgmt
begin

text \<open>
  The procedures that keep the two info tables alive (\<^verbatim>\<open>nmbm_rebuild_info_table\<close>,
  \<^verbatim>\<open>nmbm_rescue_single_info_table\<close>, \<^verbatim>\<open>nmbm_update_single_info_table\<close>,
  \<^verbatim>\<open>nmbm_rescue_main_info_table\<close>, \<^verbatim>\<open>nmbm_update_info_table_once\<close>, \<^verbatim>\<open>nmbm_update_info_table\<close>),
  verified for every lower device, failing in whatever way it likes: they return, never
  leave a buffer, keep the layout of the management area, and every further turn of the
  update loop is paid for with a block that turned bad.
\<close>

section \<open>Calls inside an update\<close>

lemma keeps_upd_left [simp]:
  "keeps (ni\<lparr>ni_main_table_ba := a\<rparr>) ni' = keeps ni ni'"
  "keeps (ni\<lparr>ni_backup_table_ba := a\<rparr>) ni' = keeps ni ni'"
  "keeps (ni\<lparr>ni_mapping_blocks_ba := a\<rparr>) ni' = keeps ni ni'"
  "keeps (ni\<lparr>ni_protected := p\<rparr>) ni' = keeps ni ni'"
  "keeps (ni\<lparr>ni_block_state_changed := n\<rparr>) ni' = keeps ni ni'"
  "keeps (ni\<lparr>ni_block_mapping_changed := n\<rparr>) ni' = keeps ni ni'"
  by (simp_all add: keeps_def)

lemma mark_tables_clean_fields [simp]:
  "ni_main_table_ba (nmbm_mark_tables_clean ni) = ni_main_table_ba ni"
  "ni_backup_table_ba (nmbm_mark_tables_clean ni) = ni_backup_table_ba ni"
  "ni_mapping_blocks_ba (nmbm_mark_tables_clean ni) = ni_mapping_blocks_ba ni"
  "ni_mapping_blocks_top_ba (nmbm_mark_tables_clean ni) = ni_mapping_blocks_top_ba ni"
  "ni_block_count (nmbm_mark_tables_clean ni) = ni_block_count ni"
  "ni_mgmt_start_ba (nmbm_mark_tables_clean ni) = ni_mgmt_start_ba ni"
  "ni_protected (nmbm_mark_tables_clean ni) = ni_protected ni"
  "geom (nmbm_mark_tables_clean ni) = geom ni"
  "keeps ni' (nmbm_mark_tables_clean ni) = keeps ni' ni"
  "keeps (nmbm_mark_tables_clean ni) ni' = keeps ni ni'"
  "usable_blocks (nmbm_mark_tables_clean ni) = usable_blocks ni"
  by (simp_all add: nmbm_mark_tables_clean_def)

text \<open>
  The state of an update: started with at most \<open>u\<close> usable blocks at \<open>ni0\<close>, everything the
  management procedures rely on still holds.
\<close>

definition updating :: "nat \<Rightarrow> 'd nmbm_instance \<Rightarrow> 'd nmbm_instance \<Rightarrow> bool" where
  "updating u ni0 ni \<longleftrightarrow> geom ni0 \<and> keeps ni0 ni \<and> usable_blocks ni0 \<le> u \<and>
     0 < ni_mapping_blocks_top_ba ni0 \<and> ni_mapping_blocks_top_ba ni0 < ni_block_count ni0"

lemma updating_upd [simp]:
  "updating u ni0 (ni\<lparr>ni_main_table_ba := a\<rparr>) = updating u ni0 ni"
  "updating u ni0 (ni\<lparr>ni_backup_table_ba := a\<rparr>) = updating u ni0 ni"
  "updating u ni0 (ni\<lparr>ni_mapping_blocks_ba := a\<rparr>) = updating u ni0 ni"
  "updating u ni0 (ni\<lparr>ni_protected := p\<rparr>) = updating u ni0 ni"
  "updating u ni0 (nmbm_mark_tables_clean ni) = updating u ni0 ni"
  by (simp_all add: updating_def)

lemma updatingD:
  assumes "updating u ni0 ni"
  shows "geom ni" "states_cover ni" "page_geom ni" "ni_block_count ni = ni_block_count ni0"
    "ni_mapping_blocks_top_ba ni = ni_mapping_blocks_top_ba ni0"
    "0 < ni_mapping_blocks_top_ba ni0" "ni_mapping_blocks_top_ba ni0 < ni_block_count ni0"
    "usable_blocks ni \<le> u"
  using assms geomD(1,2) [of ni] keepsD [of ni0 ni] by (auto simp: updating_def)

lemma updating_retires:
  assumes "updating u ni0 a" and "retires a b"
  shows "updating u ni0 b" "ni_main_table_ba b = ni_main_table_ba a"
    "ni_backup_table_ba b = ni_backup_table_ba a" "ni_mapping_blocks_ba b = ni_mapping_blocks_ba a"
    "settled u a \<Longrightarrow> settled u b"
  using assms retires_keeps [OF assms(2)] retires_fields [OF assms(2)] updatingD(8) [OF assms(1)]
  by (auto simp: updating_def intro: keeps_trans settled_retires)

text \<open>A call inside an update: the chip and the states may change, the positions stay.\<close>

definition stays :: "nat \<Rightarrow> 'd nmbm_instance \<Rightarrow> 'd nmbm_instance \<Rightarrow> 'd nmbm_instance \<Rightarrow> bool" where
  "stays u ni0 a b \<longleftrightarrow> updating u ni0 b \<and> (settled u a \<longrightarrow> settled u b) \<and>
     ni_main_table_ba b = ni_main_table_ba a \<and> ni_backup_table_ba b = ni_backup_table_ba a \<and>
     ni_mapping_blocks_ba b = ni_mapping_blocks_ba a \<and>
     ni_mapping_blocks_top_ba b = ni_mapping_blocks_top_ba ni0"

lemma stays_retires:
  assumes "updating u ni0 a" and "retires a b"
  shows "stays u ni0 a b"
  unfolding stays_def
  using updating_retires [OF assms] updatingD(5) [OF updating_retires(1) [OF assms]] by blast

lemma write_table:
  assumes "updating u ni0 a" and "limit \<le> ni_block_count ni0"
    and "\<And>b. stays u ni0 a b \<Longrightarrow> Q (None, b)"
    and "\<And>b start end_ba. stays u ni0 a b \<Longrightarrow> ba \<le> start \<Longrightarrow> start < end_ba \<Longrightarrow> end_ba \<le> limit \<Longrightarrow>
      Q (Some (start, end_ba), b)"
  shows "returns (nmbm_write_info_table a ba limit) Q"
proof (rule write_info_table_wp)
  show "geom a" "limit \<le> ni_block_count a" using updatingD [OF assms(1)] assms(2) by simp_all
qed (blast intro: assms(3,4) stays_retires [OF assms(1)])+

lemma erase_range:
  assumes "updating u ni0 a" and "limit \<le> ni_block_count ni0" and "\<And>b. stays u ni0 a b \<Longrightarrow> Q b"
  shows "returns (nmbm_erase_range a ba limit) Q"
proof (rule erase_range_wp)
  show "page_geom a" "states_cover a" "limit \<le> ni_block_count a"
    using updatingD [OF assms(1)] assms(2) by simp_all
qed (blast intro: assms(3) stays_retires [OF assms(1)])

lemma reserve:
  assumes "updating u ni0 a" and "Q None"
    and "\<And>nba. ba \<le> nba \<Longrightarrow> nba < ni_block_count ni0 \<Longrightarrow> Q (Some nba)"
  shows "returns (nmbm_try_reserve_blocks a ba count 0 limit) Q"
proof (rule try_reserve_wp)
  show "states_cover a" using updatingD [OF assms(1)] by simp
qed (use assms(2,3) updatingD(4) [OF assms(1)] in auto)

lemma write_back_table:
  assumes "updating u ni0 a" and "0 < low" and "low \<le> write_ba"
    and "\<And>b t. stays u ni0 a b \<Longrightarrow> Q (False, t, b)"
    and "\<And>b start end_ba. stays u ni0 a b \<Longrightarrow> low \<le> start \<Longrightarrow> start < end_ba \<Longrightarrow>
      end_ba \<le> ni_mapping_blocks_top_ba ni0 \<Longrightarrow> Q (True, Some (start, end_ba), b)"
  shows "returns (write_back a write_ba low) Q"
proof (rule write_back_wp)
  show "geom a" "ni_mapping_blocks_top_ba a \<le> ni_block_count a"
    using updatingD [OF assms(1)] by simp_all
next
  fix b start end_ba
  assume "retires a b" "low \<le> start" "start < end_ba" "end_ba \<le> ni_mapping_blocks_top_ba a"
  then show "Q (True, Some (start, end_ba), b)"
    using updatingD(5) [OF assms(1)] by (intro assms(5) stays_retires [OF assms(1)]) simp_all
qed (use assms(2,3) in \<open>blast intro: assms(4) stays_retires [OF assms(1)]\<close>)+

lemmas update_calls = write_table erase_range reserve write_back_table

text \<open>Where the tables are at the end of an update.\<close>

definition placed :: "nat \<Rightarrow> 'd nmbm_instance \<Rightarrow> bool \<times> 'd nmbm_instance \<Rightarrow> bool" where
  "placed u ni0 = (\<lambda>(ok, ni). updating u ni0 ni \<and> (ok \<longrightarrow> settled u ni) \<and>
     ni_main_table_ba ni < ni_block_count ni0 \<and> ni_backup_table_ba ni < ni_block_count ni0 \<and>
     0 < ni_mapping_blocks_ba ni \<and> ni_mapping_blocks_ba ni < ni_block_count ni0)"

lemma placed_iff:
  "placed u ni0 (ok, ni) \<longleftrightarrow> updating u ni0 ni \<and> (ok \<longrightarrow> settled u ni) \<and>
     ni_main_table_ba ni < ni_block_count ni0 \<and> ni_backup_table_ba ni < ni_block_count ni0 \<and>
     0 < ni_mapping_blocks_ba ni \<and> ni_mapping_blocks_ba ni < ni_block_count ni0"
  by (simp add: placed_def)

lemma rebuild_placed:
  assumes "updating u ni0 ni"
  shows "returns (nmbm_rebuild_info_table ni) (placed u ni0)"
  using assms updatingD [OF assms]
  by (auto simp: nmbm_rebuild_info_table_def Let_def placed_iff stays_def word_less_nat_alt
      word_le_nat_alt intro!: update_calls [of u ni0])

lemma rescue_single_placed:
  assumes "updating u ni0 ni" and "ni_main_table_ba ni < ni_block_count ni0"
    and "ni_backup_table_ba ni < ni_block_count ni0"
    and "0 < ni_mapping_blocks_ba ni" and "ni_mapping_blocks_ba ni < ni_block_count ni0"
  shows "returns (nmbm_rescue_single_info_table ni) (placed u ni0)"
  using assms updatingD [OF assms(1)]
  by (auto simp: nmbm_rescue_single_info_table_def Let_def placed_iff stays_def word_less_nat_alt
      word_le_nat_alt intro!: update_calls [of u ni0])

lemma update_single_placed:
  assumes "updating u ni0 ni" and "ni_main_table_ba ni < ni_block_count ni0"
    and "ni_backup_table_ba ni < ni_block_count ni0" and "0 < ni_backup_table_ba ni"
    and "0 < ni_mapping_blocks_ba ni" and "ni_mapping_blocks_ba ni < ni_block_count ni0"
  shows "returns (nmbm_update_single_info_table ni update_main) (placed u ni0)"
  using assms updatingD [OF assms(1)]
  by (auto simp: nmbm_update_single_info_table_def Let_def placed_iff stays_def word_less_nat_alt
      word_le_nat_alt intro!: update_calls [of u ni0] rescue_single_placed)

lemma rescue_main_placed:
  assumes "updating u ni0 ni" and "ni_main_table_ba ni < ni_block_count ni0"
    and "ni_backup_table_ba ni < ni_block_count ni0" and "settled u ni"
    and "0 < ni_mapping_blocks_ba ni" and "ni_mapping_blocks_ba ni < ni_block_count ni0"
  shows "returns (nmbm_rescue_main_info_table ni) (placed u ni0)"
  using assms updatingD [OF assms(1)]
  by (auto simp: nmbm_rescue_main_info_table_def Let_def placed_iff stays_def word_less_nat_alt
      word_le_nat_alt intro!: update_calls [of u ni0])

lemma write_main_placed:
  assumes "updating u ni0 ni" and "ni_main_table_ba ni < ni_block_count ni0"
    and "ni_backup_table_ba ni < ni_block_count ni0"
    and "ni_backup_table_ba ni \<noteq> 0 \<Longrightarrow> settled u ni"
    and "0 < ni_mapping_blocks_ba ni" and "ni_mapping_blocks_ba ni < ni_block_count ni0"
    and "limit < ni_block_count ni0"
  shows "returns (write_main_table ni limit) (placed u ni0)"
  using assms updatingD [OF assms(1)]
  by (auto simp: write_main_table_def Let_def placed_iff stays_def word_less_nat_alt
      word_le_nat_alt intro!: update_calls [of u ni0] rebuild_placed
      rescue_main_placed)

lemma layout_updating:
  assumes "layout ni" and "keeps ni ni'"
  shows "updating (usable_blocks ni) ni ni'"
  using assms by (simp add: layout_def updating_def)

lemma keeps_generated:
  assumes "length cache = length (ni_info_table_cache ni)"
  shows "keeps ni (ni\<lparr>ni_info_table := next_header ni, ni_info_table_cache := cache\<rparr>)"
  using assms by (simp add: keeps_def)

lemma settled_upd_table [simp]:
  "settled u (ni\<lparr>ni_info_table := t\<rparr>) = settled u ni"
  "settled u (ni\<lparr>ni_info_table_cache := c\<rparr>) = settled u ni"
  by (simp_all add: settled_def)

lemma update_once_placed:
  assumes "layout ni"
  shows "returns (nmbm_update_info_table_once ni force) (placed (usable_blocks ni) ni)"
proof -
  have geom: "geom ni" using assms by (simp add: layout_def)
  have "returns (if \<not> (ni_block_state_changed ni \<noteq> 0 \<or> ni_block_mapping_changed ni \<noteq> 0) \<and> \<not> force
       then Some (True, ni1)
       else if ni_backup_table_ba ni1 = 0 then write_main_table ni1 (ni_mapping_blocks_top_ba ni1)
       else nmbm_write_info_table ni1 (ni_backup_table_ba ni1) (ni_mapping_blocks_top_ba ni1) \<bind>
         (\<lambda>(r, ni). case r of
            None \<Rightarrow> let ni = ni\<lparr>ni_mapping_blocks_ba := ni_backup_table_ba ni, ni_backup_table_ba := 0\<rparr>
              in write_main_table ni (ni_mapping_blocks_top_ba ni)
          | Some (table_start_ba, table_end_ba) \<Rightarrow>
              let ni = nmbm_mark_tables_clean
                (ni\<lparr>ni_backup_table_ba := table_start_ba, ni_mapping_blocks_ba := table_end_ba\<rparr>)
              in write_main_table ni (ni_backup_table_ba ni)))
     (placed (usable_blocks ni) ni)"
    if "updating (usable_blocks ni) ni ni1" and "ni_main_table_ba ni1 = ni_main_table_ba ni"
      "ni_backup_table_ba ni1 = ni_backup_table_ba ni"
      "ni_mapping_blocks_ba ni1 = ni_mapping_blocks_ba ni"
      "ni_block_state_changed ni1 = ni_block_state_changed ni"
      "ni_block_mapping_changed ni1 = ni_block_mapping_changed ni" for ni1
    using that assms updatingD [OF that(1)]
    by (auto simp: layout_def placed_iff stays_def settled_def [of _ ni1] Let_def word_less_nat_alt word_le_nat_alt
        unat_gt_0 intro!: update_calls [of "usable_blocks ni" ni] write_main_placed)
  then show ?thesis
    unfolding nmbm_update_info_table_once_def
    using layout_updating [OF assms keeps_generated]
    by (auto intro!: generate_wp [OF geom])
qed

lemma placed_layout:
  assumes "placed u ni (ok, ni')"
  shows "layout ni' \<and> keeps ni ni'"
proof -
  have up: "updating u ni ni'" using assms by (simp add: placed_iff)
  show ?thesis
    using assms updatingD [OF up] up unfolding layout_def placed_iff by (simp add: updating_def)
qed

lemma update_info_table_wp [wp]:
  assumes "layout ni"
    and "\<And>ok ni'. layout ni' \<Longrightarrow> keeps ni ni' \<Longrightarrow>
      (ok \<and> ni_protected ni = 0 \<longrightarrow> ni_block_state_changed ni' = 0 \<and> ni_block_mapping_changed ni' = 0) \<Longrightarrow>
      Q (ok, ni')"
  shows "returns (nmbm_update_info_table ni) Q"
proof (cases "ni_protected ni = 0")
  case False
  then show ?thesis using assms by (simp add: nmbm_update_info_table_def)
next
  case True
  have "returns (loop update_info_table_body ni) Q"
  proof (rule loop_rule [where I = "\<lambda>ni'. layout ni' \<and> keeps ni ni'" and
        m = "\<lambda>ni'. 2 * usable_blocks ni' +
          (if ni_block_state_changed ni' = 0 \<and> ni_block_mapping_changed ni' = 0 then 0 else 1)"],
      goal_cases)
    case 1
    show ?case using assms(1) by simp
  next
    case (2 s)
    show ?case
    proof (cases "ni_block_state_changed s = 0 \<and> ni_block_mapping_changed s = 0")
      case True
      with 2 assms(2) show ?thesis by (simp add: update_info_table_body_def)
    next
      case dirty: False
      obtain ok s' where once: "nmbm_update_info_table_once s False = Some (ok, s')"
        and p: "placed (usable_blocks s) s (ok, s')"
        using update_once_placed [of s False] 2 by (auto simp: returns_iff)
      have l: "layout s'" "keeps ni s'" using placed_layout [OF p] 2 keeps_trans by blast+
      have "settled (usable_blocks s) s'" if ok using p that by (simp add: placed_iff)
      then have "2 * usable_blocks s' + (if ni_block_state_changed s' = 0 \<and>
          ni_block_mapping_changed s' = 0 then 0 else 1) < 2 * usable_blocks s + 1" if ok
        using that keepsD(8) [of s s'] placed_layout [OF p] by (auto simp: settled_def)
      with dirty once l assms(2) show ?thesis
        by (auto simp: update_info_table_body_def)
    qed
  qed
  with True show ?thesis by (simp add: nmbm_update_info_table_def)
qed

section \<open>Properties\<close>

lemma sim_read_lengths:
  "sim_read_page d addr data oob mode = (ret, data', oob', d') \<Longrightarrow>
   map_option length data' = map_option length data \<and> map_option length oob' = map_option length oob"
  by (auto simp: sim_read_page_def fill_def option.map_comp o_def split: prod.splits if_splits)
    (cases data; cases oob; simp)+

lemma sample_lower_ok [simp]: "lower_ok sample_lower"
  using sim_read_lengths by (auto simp: lower_ok_def)

lemma sample_geom: "geom (sample f)"
  by (simp add: geom_def page_geom_def states_cover_def)

lemma sample_layout [simp]: "layout (sample f)"
  by (simp add: layout_def sample_geom)

text \<open>
  C9: updating the info tables terminates and is memory safe on every lower device. From
  every instance with a well-formed layout, and however reads, writes and erasures fail,
  \<open>nmbm_update_info_table\<close> returns without leaving a buffer; the layout stays well formed,
  the block mapping and the geometry are untouched, block states only change to BAD, and
  when it reports success on an unprotected instance nothing is left to be written.
\<close>

theorem nmbm_update_info_table_total:
  assumes "layout ni"
  shows "\<exists>ok ni'. nmbm_update_info_table ni = Some (ok, ni') \<and> layout ni' \<and>
    ni_block_mapping ni' = ni_block_mapping ni \<and> keeps ni ni' \<and>
    (ok \<and> ni_protected ni = 0 \<longrightarrow>
      ni_block_state_changed ni' = 0 \<and> ni_block_mapping_changed ni' = 0)"
proof -
  have "returns (nmbm_update_info_table ni) (\<lambda>(ok, ni'). layout ni' \<and> keeps ni ni' \<and>
      (ok \<and> ni_protected ni = 0 \<longrightarrow>
        ni_block_state_changed ni' = 0 \<and> ni_block_mapping_changed ni' = 0))"
    using assms by (intro update_info_table_wp) simp_all
  then show ?thesis by (auto simp: returns_pair_iff dest: keepsD(2))
qed

theorem nmbm_update_info_table_total_witness:
  "\<exists>ok ni'. nmbm_update_info_table ((sample 5)\<lparr>ni_block_state_changed := 1\<rparr>) = Some (ok, ni') \<and>
     layout ni' \<and> ni_block_mapping ni' = ni_block_mapping (sample 5)"
proof -
  have "layout ((sample 5)\<lparr>ni_block_state_changed := 1\<rparr>)"
    using sample_layout [of 5] by (simp add: layout_def del: sample_layout)
  from nmbm_update_info_table_total [OF this] show ?thesis by auto
qed

end
