(* ===== verification/Nmbm_Attach.thy ===== *)
theory Nmbm_Attach
  imports Nmbm_Update
begin

text \<open>
  Creating, finding and loading the management area, and attaching to a lower device
  (\<^verbatim>\<open>nmbm-core.c\<close>, from \<^verbatim>\<open>nmbm_create_info_table\<close> to \<^verbatim>\<open>nmbm_detach\<close>).

  The instance handed to \<open>nmbm_attach\<close> is zeroed memory (its caller allocates it with
  \<^verbatim>\<open>calloc\<close>), so the tables \<open>nmbm_init_structure\<close> places behind it start as zeros. The
  loops of \<^verbatim>\<open>nmbm_load_info_table\<close> that only colour blocks for debugging expand to nothing
  and are left out.
\<close>

section \<open>Creating\<close>

definition remap_tail_body :: "'d nmbm_instance \<times> u32
    \<Rightarrow> ('d nmbm_instance + 'd nmbm_instance \<times> u32) option" where
  "remap_tail_body = (\<lambda>(ni, lb).
     if lb < ni_mgmt_start_ba ni then do {
       (success, ni) \<leftarrow> nmbm_map_block ni lb;
       if \<not> success then Some (Inl ni)
       else Some (Inr (ni\<lparr>ni_data_block_count := ni_data_block_count ni + 1\<rparr>, lb + 1))
     } else Some (Inl ni))"

definition nmbm_create_info_table :: "'d nmbm_instance \<Rightarrow> (bool \<times> 'd nmbm_instance) option" where
  "nmbm_create_info_table ni = do {
     r \<leftarrow> nmbm_block_walk ni False (ni_signature_ba ni) 1 (ni_mgmt_start_ba ni);
     case r of
       None \<Rightarrow> Some (False, ni)
     | Some tba \<Rightarrow> do {
         let ni = ni\<lparr>ni_mapping_blocks_top_ba := tba\<rparr>;
         (_, ni) \<leftarrow> nmbm_generate_info_table_cache ni;
         (success, ni) \<leftarrow> nmbm_rebuild_info_table ni;
         if \<not> success then Some (False, ni)
         else do {
           ni \<leftarrow> loop remap_tail_body (ni, ni_data_block_count ni);
           (success, ni) \<leftarrow> nmbm_update_info_table ni;
           Some (success, ni)
         }
       }
   }"

definition nmbm_create_new :: "'d nmbm_instance \<Rightarrow> (bool \<times> 'd nmbm_instance) option" where
  "nmbm_create_new ni = do {
     let mgmt_start = ni_block_count ni * (NMBM_MGMT_DIV - nld_max_ratio (ni_lower ni))
       div NMBM_MGMT_DIV;
     let max_reserved = nld_max_reserved_blocks (ni_lower ni);
     let mgmt_start =
       (if max_reserved \<noteq> 0 \<and> ni_block_count ni - mgmt_start > max_reserved
        then ni_block_count ni - max_reserved else mgmt_start);
     let ni = ni\<lparr>ni_mgmt_start_ba := mgmt_start\<rparr>;
     ni \<leftarrow> nmbm_scan_badblocks ni;
     ni \<leftarrow> nmbm_build_mapping_table ni;
     let signature = (ni_signature ni)
       \<lparr>sig_header := (sig_header (ni_signature ni))
          \<lparr>hdr_magic := NMBM_MAGIC_SIGNATURE, hdr_version := NMBM_VER,
           hdr_size := of_nat sizeof_signature\<rparr>,
        sig_nand_size := nld_size (ni_lower ni), sig_block_size := ni_erasesize ni,
        sig_page_size := ni_writesize ni, sig_spare_size := ni_oobsize ni,
        sig_mgmt_start_pb := ni_mgmt_start_ba ni, sig_max_try_count := of_nat NMBM_TRY_COUNT\<rparr>;
     image \<leftarrow> nmbm_update_checksum (signature_bytes signature);
     let ni = ni\<lparr>ni_signature := signature_of image\<rparr>;
     (r, ni) \<leftarrow> nmbm_write_signature ni (ni_mgmt_start_ba ni) (ni_signature ni);
     case r of
       None \<Rightarrow> Some (False, ni)
     | Some ba \<Rightarrow> nmbm_create_info_table (ni\<lparr>ni_signature_ba := ba\<rparr>)
   }"

section \<open>Loading\<close>

definition nmbm_check_info_table_header :: "'d nmbm_instance \<Rightarrow> bytes \<Rightarrow> bool option" where
  "nmbm_check_info_table_header ni data = do {
     hb \<leftarrow> mem_read 0 sizeof_info_table_header data;
     let ifthdr = info_header_of hb;
     if hdr_magic (ift_header ifthdr) \<noteq> NMBM_MAGIC_INFO_TABLE then Some False
     else if hdr_size (ift_header ifthdr) \<noteq> ni_info_table_size ni then Some False
     else if ift_mapping_table_off ifthdr - ift_state_table_off ifthdr < ni_state_table_size ni
     then Some False
     else if ni_info_table_size ni - ift_mapping_table_off ifthdr < ni_mapping_table_size ni
     then Some False
     else Some True
   }"

text \<open>The array of 32-bit words a pointer into a buffer sees, up to the buffer's end.\<close>

definition words_at :: "nat \<Rightarrow> bytes \<Rightarrow> u32 list" where
  "words_at off data = dec_words ((length data - off) div 4) (drop off data)"

definition check_mapping_body :: "'d nmbm_instance \<Rightarrow> u32 \<Rightarrow> u32 list \<Rightarrow> u32 \<times> u32
    \<Rightarrow> (u32 option + u32 \<times> u32) option" where
  "check_mapping_body ni end_ba block_mapping = (\<lambda>(ba, minimum_mapping_pb).
     if ba < ni_data_block_count ni then do {
       pb \<leftarrow> arr_get block_mapping (unat ba);
       if (pb \<ge> ni_data_block_count ni \<and> pb < end_ba) \<or> pb = ni_signature_ba ni
       then Some (Inl None)
       else Some (Inr (ba + 1,
         if pb \<ge> end_ba \<and> pb < minimum_mapping_pb then pb else minimum_mapping_pb))
     } else Some (Inl (Some minimum_mapping_pb)))"

definition check_states_body :: "'d nmbm_instance \<Rightarrow> u32 \<Rightarrow> u32 list \<Rightarrow> u32
    \<Rightarrow> (bool + u32) option" where
  "check_states_body ni end_ba block_state ba =
     (if ba < end_ba then do {
        st \<leftarrow> nmbm_get_block_state ni ba;
        if st \<noteq> BLOCK_ST_GOOD then Some (Inr (ba + 1))
        else do {
          st \<leftarrow> nmbm_get_block_state_raw block_state ba;
          if st \<noteq> BLOCK_ST_GOOD then Some (Inl False) else Some (Inr (ba + 1))
        }
      } else Some (Inl True))"

definition nmbm_check_info_table :: "'d nmbm_instance \<Rightarrow> u32 \<Rightarrow> u32 \<Rightarrow> bytes
    \<Rightarrow> u32 option option" where
  "nmbm_check_info_table ni start_ba end_ba data = do {
     hb \<leftarrow> mem_read 0 sizeof_info_table_header data;
     let ifthdr = info_header_of hb;
     let block_mapping = words_at (unat (ift_mapping_table_off ifthdr)) data;
     let block_state = words_at (unat (ift_state_table_off ifthdr)) data;
     r \<leftarrow> loop (check_mapping_body ni end_ba block_mapping) (0, ni_signature_ba ni);
     case r of
       None \<Rightarrow> Some None
     | Some minimum_mapping_pb \<Rightarrow> do {
         ok \<leftarrow> loop (check_states_body ni end_ba block_state) start_ba;
         Some (if ok then Some (minimum_mapping_pb - 1) else None)
       }
   }"

definition try_load_body :: "u32 \<Rightarrow> 'd nmbm_instance \<times> u32 \<times> u32 \<times> u32 \<times> bool
    \<Rightarrow> ((u32 \<times> u32) option \<times> 'd nmbm_instance
        + 'd nmbm_instance \<times> u32 \<times> u32 \<times> u32 \<times> bool) option" where
  "try_load_body limit = (\<lambda>(ni, ba, sizeremain, start_ba, checkhdr).
     if sizeremain \<noteq> 0 \<and> ba < limit then do {
       st \<leftarrow> nmbm_get_block_state ni ba;
       if st \<noteq> BLOCK_ST_GOOD then Some (Inr (ni, ba + 1, sizeremain, start_ba, checkhdr))
       else do {
         (bad, ni) \<leftarrow> nmbm_check_bad_phys_block ni ba;
         if bad then do {
           (_, ni) \<leftarrow> nmbm_set_block_state ni ba BLOCK_ST_BAD;
           Some (Inr (ni, ba + 1, sizeremain, start_ba, checkhdr))
         } else do {
           let chunksize = block_chunk ni sizeremain;
           let off = unat (ni_info_table_size ni - sizeremain);
           buf \<leftarrow> mem_read off (unat chunksize) (ni_info_table_cache ni);
           (ret, buf, ni) \<leftarrow> nmbn_read_data ni (ba2addr ni ba) buf chunksize;
           cache \<leftarrow> mem_write off buf (ni_info_table_cache ni);
           let ni = ni\<lparr>ni_info_table_cache := cache\<rparr>;
           if ret < 0 then do {
             (_, ni) \<leftarrow> nmbm_set_block_state ni ba BLOCK_ST_BAD;
             Some (Inr (ni, ba + 1, sizeremain, start_ba, checkhdr))
           }
           else if ret > 0 then Some (Inl (None, ni))
           else if checkhdr then do {
             success \<leftarrow> nmbm_check_info_table_header ni (drop off cache);
             if \<not> success then Some (Inl (None, ni))
             else Some (Inr (ni, ba + 1, sizeremain - chunksize, ba, False))
           }
           else Some (Inr (ni, ba + 1, sizeremain - chunksize, start_ba, checkhdr))
         }
       }
     }
     else if sizeremain \<noteq> 0 then Some (Inl (None, ni))
     else Some (Inl (Some (start_ba, ba), ni)))"

text \<open>
  On success the result is the block after the table, the table's write count and the
  block address below the lowest remapped block.
\<close>

definition nmbm_try_load_info_table :: "'d nmbm_instance \<Rightarrow> u32 \<Rightarrow> bool
    \<Rightarrow> ((u32 \<times> u32 \<times> u32) option \<times> 'd nmbm_instance) option" where
  "nmbm_try_load_info_table ni ba table_loaded = do {
     let limit = ba + info_table_blocks ni;
     (r, ni) \<leftarrow> loop (try_load_body limit) (ni, ba, ni_info_table_size ni, 0, True);
     case r of
       None \<Rightarrow> Some (None, ni)
     | Some (start_ba, ba) \<Rightarrow> do {
         success \<leftarrow> nmbm_check_header (ni_info_table_cache ni) (ni_info_table_size ni);
         if \<not> success then Some (None, ni)
         else do {
           hb \<leftarrow> mem_read 0 sizeof_info_table_header (ni_info_table_cache ni);
           let ifthdr = info_header_of hb;
           r \<leftarrow> nmbm_check_info_table ni start_ba ba (ni_info_table_cache ni);
           case r of
             None \<Rightarrow> Some (None, ni)
           | Some mapping_blocks_top_ba \<Rightarrow>
               (if \<not> table_loaded \<or>
                   ift_write_count ifthdr > ift_write_count (ni_info_table ni)
                then do {
                  states \<leftarrow> mem_read (unat (ift_state_table_off ifthdr))
                    (unat (ni_state_table_size ni)) (ni_info_table_cache ni);
                  states \<leftarrow> mem_write 0 states (enc_words (ni_block_state ni));
                  mapping \<leftarrow> mem_read (unat (ift_mapping_table_off ifthdr))
                    (unat (ni_mapping_table_size ni)) (ni_info_table_cache ni);
                  mapping \<leftarrow> mem_write 0 mapping (enc_words (ni_block_mapping ni));
                  Some (Some (ba, ift_write_count ifthdr, mapping_blocks_top_ba),
                    ni\<lparr>ni_info_table := ifthdr,
                       ni_block_state := dec_words (length (ni_block_state ni)) states,
                       ni_block_mapping := dec_words (length (ni_block_mapping ni)) mapping\<rparr>)
                }
                else Some (Some (ba, ift_write_count ifthdr, mapping_blocks_top_ba), ni))
         }
       }
   }"

definition search_body :: "u32 \<Rightarrow> bool \<Rightarrow> 'd nmbm_instance \<times> u32
    \<Rightarrow> ((u32 \<times> u32 \<times> u32 \<times> u32) option \<times> 'd nmbm_instance + 'd nmbm_instance \<times> u32) option"
where
  "search_body limit table_loaded = (\<lambda>(ni, ba).
     if ba < limit - info_table_blocks ni then do {
       (r, ni) \<leftarrow> nmbm_try_load_info_table ni ba table_loaded;
       case r of
         Some (table_end_ba, write_count, tba) \<Rightarrow>
           Some (Inl (Some (ba, table_end_ba, write_count, tba), ni))
       | None \<Rightarrow> Some (Inr (ni, ba + 1))
     } else Some (Inl (None, ni)))"

definition nmbm_search_info_table :: "'d nmbm_instance \<Rightarrow> u32 \<Rightarrow> u32 \<Rightarrow> bool
    \<Rightarrow> ((u32 \<times> u32 \<times> u32 \<times> u32) option \<times> 'd nmbm_instance) option" where
  "nmbm_search_info_table ni ba limit table_loaded =
     loop (search_body limit table_loaded) (ni, ba)"

definition data_count_body :: "'d nmbm_instance \<Rightarrow> u32 \<Rightarrow> (u32 + u32) option" where
  "data_count_body ni i =
     (if i > 0 then do {
        pb \<leftarrow> arr_get (ni_block_mapping ni) (unat (i - 1));
        if sint pb \<ge> 0 then Some (Inl i) else Some (Inr (i - 1))
      } else Some (Inl (ni_data_block_count ni)))"

definition nmbm_load_info_table :: "'d nmbm_instance \<Rightarrow> u32 \<Rightarrow> u32
    \<Rightarrow> (bool \<times> 'd nmbm_instance) option" where
  "nmbm_load_info_table ni ba limit = do {
     let ni = ni\<lparr>ni_main_table_ba := 0, ni_backup_table_ba := 0,
                ni_info_table := (ni_info_table ni)\<lparr>ift_write_count := 0\<rparr>,
                ni_mapping_blocks_top_ba := ni_signature_ba ni - 1,
                ni_data_block_count := sig_mgmt_start_pb (ni_signature ni)\<rparr>;
     (r, ni) \<leftarrow> nmbm_search_info_table ni ba limit False;
     case r of
       None \<Rightarrow> Some (False, ni)
     | Some (main_ba, main_table_end_ba, main_table_write_count, main_top) \<Rightarrow> do {
         let ni = ni\<lparr>ni_main_table_ba := main_ba\<rparr>;
         (r, ni) \<leftarrow> nmbm_search_info_table ni main_table_end_ba limit True;
         let (ni, table_end_ba, backup_table_write_count, backup_top) =
           (case r of
              None \<Rightarrow> (ni, main_table_end_ba, 0, 0)
            | Some (backup_ba, backup_table_end_ba, wc, tba) \<Rightarrow>
                (ni\<lparr>ni_backup_table_ba := backup_ba\<rparr>, backup_table_end_ba, wc, tba));
         let ni = ni\<lparr>ni_mapping_blocks_top_ba :=
             (if ni_backup_table_ba ni = 0 \<or> main_table_write_count \<ge> backup_table_write_count
              then main_top else backup_top),
             ni_mapping_blocks_ba := table_end_ba\<rparr>;
         count \<leftarrow> loop (data_count_body ni) (sig_mgmt_start_pb (ni_signature ni));
         let ni = ni\<lparr>ni_data_block_count := count\<rparr>;
         (_, ni) \<leftarrow> nmbm_generate_info_table_cache ni;
         (success, ni) \<leftarrow>
           (if ni_backup_table_ba ni = 0 then nmbm_rescue_single_info_table ni
            else if main_table_write_count \<noteq> backup_table_write_count
            then nmbm_update_single_info_table
              (ni\<lparr>ni_block_state_changed := 1, ni_block_mapping_changed := 1\<rparr>)
              (main_table_write_count < backup_table_write_count)
            else Some (True, ni));
         Some (True,
           if ni_mapping_blocks_ba ni = ni_mapping_blocks_top_ba ni \<or> \<not> success
           then ni\<lparr>ni_protected := 1\<rparr> else ni)
       }
   }"

definition nmbm_load_existing :: "'d nmbm_instance \<Rightarrow> (bool \<times> 'd nmbm_instance) option" where
  "nmbm_load_existing ni = do {
     let ni = ni\<lparr>ni_mgmt_start_ba := sig_mgmt_start_pb (ni_signature ni)\<rparr>;
     (success, ni) \<leftarrow> nmbm_load_info_table ni (ni_mgmt_start_ba ni) (ni_signature_ba ni);
     if success then Some (True, ni)
     else if nld_flags (ni_lower ni) AND NMBM_F_CREATE = 0 then Some (False, ni)
     else do {
       ni \<leftarrow> nmbm_scan_badblocks ni;
       ni \<leftarrow> nmbm_build_mapping_table ni;
       nmbm_create_info_table ni
     }
   }"

section \<open>Finding the signature\<close>

definition find_page_body :: "u64 \<Rightarrow> 'd nmbm_instance \<times> u64 \<times> bytes
    \<Rightarrow> (nmbm_signature option \<times> 'd nmbm_instance \<times> bytes
        + 'd nmbm_instance \<times> u64 \<times> bytes) option" where
  "find_page_body addr = (\<lambda>(ni, off, sig).
     if off < ucast (ni_erasesize ni) then do {
       (ret, sig, ni) \<leftarrow> nmbn_read_data ni (addr + off) sig (of_nat sizeof_signature);
       let next = (ni, off + ucast (ni_writesize ni), sig);
       if ret \<noteq> 0 then Some (Inr next)
       else do {
         success \<leftarrow> nmbm_check_header sig (of_nat sizeof_signature);
         if \<not> success then Some (Inr next)
         else if hdr_magic (sig_header (signature_of sig)) = NMBM_MAGIC_SIGNATURE
         then Some (Inl (Some (signature_of sig), ni, sig))
         else Some (Inr next)
       }
     } else Some (Inl (None, ni, sig)))"

definition find_signature_body :: "u32 \<Rightarrow> 'd nmbm_instance \<times> u32 \<times> bytes
    \<Rightarrow> ((nmbm_signature \<times> u32) option \<times> 'd nmbm_instance
        + 'd nmbm_instance \<times> u32 \<times> bytes) option" where
  "find_signature_body limit = (\<lambda>(ni, ba, sig).
     if ba \<ge> limit then do {
       let ba = ba - 1;
       (bad, ni) \<leftarrow> nmbm_check_bad_phys_block ni ba;
       if bad then Some (Inr (ni, ba, sig))
       else do {
         (r, ni, sig) \<leftarrow> loop (find_page_body (ba2addr ni ba)) (ni, 0, sig);
         case r of
           Some signature \<Rightarrow> Some (Inl (Some (signature, ba), ni))
         | None \<Rightarrow> Some (Inr (ni, ba, sig))
       }
     } else Some (Inl (None, ni)))"

definition signature_limit :: "'d nmbm_instance \<Rightarrow> u32 \<Rightarrow> u32" where
  "signature_limit ni block_count =
     (let limit = (block_count div NMBM_MGMT_DIV) * (NMBM_MGMT_DIV - nld_max_ratio (ni_lower ni));
          max_reserved = nld_max_reserved_blocks (ni_lower ni)
      in if max_reserved \<noteq> 0 \<and> block_count - limit > max_reserved
         then block_count - max_reserved else limit)"

definition nmbm_find_signature :: "'d nmbm_instance
    \<Rightarrow> ((nmbm_signature \<times> u32) option \<times> 'd nmbm_instance) option" where
  "nmbm_find_signature ni =
     (let block_count = ucast (drop_bit (unat (ni_erasesize_shift ni)) (nld_size (ni_lower ni)))
      in loop (find_signature_body (signature_limit ni block_count))
           (ni, block_count, replicate sizeof_signature 0))"

section \<open>Attaching\<close>

definition is_power_of_2_u64 :: "u64 \<Rightarrow> bool" where
  "is_power_of_2_u64 n \<longleftrightarrow> n \<noteq> 0 \<and> n AND (n - 1) = 0"

definition is_power_of_2 :: "u32 \<Rightarrow> bool" where
  "is_power_of_2 n \<longleftrightarrow> n \<noteq> 0 \<and> n AND (n - 1) = 0"

definition nmbm_check_lower_members :: "'d nmbm_lower_device
    \<Rightarrow> bool \<times> 'd nmbm_lower_device" where
  "nmbm_check_lower_members nld =
     (if nld_size nld = 0 \<or> \<not> is_power_of_2_u64 (nld_size nld) then (False, nld)
      else if nld_erasesize nld = 0 \<or> \<not> is_power_of_2 (nld_erasesize nld) then (False, nld)
      else if nld_writesize nld = 0 \<or> \<not> is_power_of_2 (nld_writesize nld) then (False, nld)
      else if nld_oobsize nld = 0 \<or> \<not> is_power_of_2 (nld_oobsize nld) then (False, nld)
      else if nld_read_page nld = None \<or> nld_write_page nld = None \<or> nld_erase_block nld = None
      then (False, nld)
      else
        let nld = (if nld_max_ratio nld = 0 then nld\<lparr>nld_max_ratio := 1\<rparr> else nld)
        in if nld_max_ratio nld \<ge> NMBM_MGMT_DIV - 1 then (False, nld)
           else if nld_max_reserved_blocks nld \<noteq> 0 \<and>
                   nld_max_reserved_blocks nld < NMBM_MGMT_BLOCKS_MIN then (False, nld)
           else (True, nld))"

definition nmbm_lldiv :: "u64 \<Rightarrow> u32 \<Rightarrow> u32" where
  "nmbm_lldiv dividend divisor = ucast (dividend div ucast divisor)"

text \<open>\<open>isz\<close> is \<^verbatim>\<open>sizeof(struct nmbm_instance)\<close>.\<close>

definition nmbm_calc_structure_size :: "u32 \<Rightarrow> 'd nmbm_lower_device \<Rightarrow> u32" where
  "nmbm_calc_structure_size isz nld =
     (let block_count = nmbm_lldiv (nld_size nld) (nld_erasesize nld);
          state_table_size = ((block_count + NMBM_BITMAP_BLOCKS_PER_UNIT - 1)
            div NMBM_BITMAP_BLOCKS_PER_UNIT) * NMBM_BITMAP_UNIT_SIZE;
          mapping_table_size = block_count * 4;
          info_table_size = NMBM_ALIGN (of_nat sizeof_info_table_header) (nld_writesize nld);
          info_table_size = info_table_size + NMBM_ALIGN state_table_size (nld_writesize nld);
          info_table_size = info_table_size + NMBM_ALIGN mapping_table_size (nld_writesize nld)
      in info_table_size + state_table_size + mapping_table_size
         + nld_writesize nld + nld_oobsize nld + isz)"

text \<open>\<^verbatim>\<open>ffs\<close>: one more than the index of the lowest set bit, 0 for 0.\<close>

definition ffs :: "u32 \<Rightarrow> nat" where
  "ffs w = (case find (bit w) [0..<32] of None \<Rightarrow> 0 | Some i \<Rightarrow> Suc i)"

definition nmbm_init_structure :: "'d nmbm_instance \<Rightarrow> 'd nmbm_instance" where
  "nmbm_init_structure ni =
     (let lower = ni_lower ni;
          pages_per_block = nld_erasesize lower div nld_writesize lower;
          blocks_per_chip = nmbm_lldiv (nld_size lower) (nld_erasesize lower);
          rawpage_size = nld_writesize lower + nld_oobsize lower;
          rawblock_size = pages_per_block * rawpage_size;
          writesize_shift = of_nat (ffs (nld_writesize lower)) - 1;
          erasesize_shift = of_nat (ffs (nld_erasesize lower)) - 1;
          block_count = ucast (drop_bit (unat erasesize_shift) (nld_size lower));
          state_table_size = ((block_count + NMBM_BITMAP_BLOCKS_PER_UNIT - 1)
            div NMBM_BITMAP_BLOCKS_PER_UNIT) * NMBM_BITMAP_UNIT_SIZE;
          mapping_table_size = block_count * 4;
          state_table_off = NMBM_ALIGN (of_nat sizeof_info_table_header) (nld_writesize lower);
          mapping_table_off = state_table_off + NMBM_ALIGN state_table_size (nld_writesize lower);
          info_table_size =
            mapping_table_off + NMBM_ALIGN mapping_table_size (nld_writesize lower);
          ni = ni\<lparr>ni_rawpage_size := rawpage_size, ni_rawblock_size := rawblock_size,
                 ni_rawchip_size := blocks_per_chip * rawblock_size,
                 ni_writesize_mask := nld_writesize lower - 1,
                 ni_erasesize_mask := nld_erasesize lower - 1,
                 ni_writesize_shift := writesize_shift, ni_erasesize_shift := erasesize_shift,
                 ni_block_count := block_count,
                 ni_state_table_size := state_table_size,
                 ni_mapping_table_size := mapping_table_size,
                 ni_info_table := (ni_info_table ni)
                   \<lparr>ift_state_table_off := state_table_off,
                    ift_mapping_table_off := mapping_table_off\<rparr>,
                 ni_info_table_size := info_table_size\<rparr>
      in ni\<lparr>ni_info_table_spare_blocks := nmbm_get_spare_block_count (info_table_blocks ni),
            ni_info_table_cache := replicate (unat info_table_size) 0,
            ni_block_state := replicate (unat state_table_size div 4) 0xffffffff,
            ni_block_mapping := replicate (unat mapping_table_size div 4) 0,
            ni_page_cache := replicate (unat (nld_writesize lower) + unat (nld_oobsize lower)) 0,
            ni_block_state_changed := 0, ni_block_mapping_changed := 0\<rparr>)"

text \<open>
  \<open>arg\<close> is what \<^verbatim>\<open>nld->arg\<close> points to. The default log level is that of the build,
  \<^verbatim>\<open>NMBM_LOG_INFO\<close>.
\<close>

definition nmbm_attach :: "'d nmbm_lower_device option \<Rightarrow> 'd \<Rightarrow> 'd nmbm_instance option
    \<Rightarrow> (int \<times> 'd nmbm_instance option) option" where
  "nmbm_attach nldp arg nip =
     (case (nldp, nip) of
        (Some nld, Some ni) \<Rightarrow> do {
          let ni = ni\<lparr>ni_log_display_level := NMBM_LOG_INFO\<rparr>;
          let (success, nld) = nmbm_check_lower_members nld;
          if \<not> success then Some (- EINVAL, Some ni)
          else do {
            let ni = nmbm_init_structure (ni\<lparr>ni_lower := nld, ni_arg := arg\<rparr>);
            (r, ni) \<leftarrow> nmbm_find_signature ni;
            case r of
              None \<Rightarrow>
                (if nld_flags nld AND NMBM_F_CREATE = 0 then Some (- ENODEV, Some ni)
                 else do {
                   (success, ni) \<leftarrow> nmbm_create_new ni;
                   Some (if success then 0 else - ENODEV, Some ni)
                 })
            | Some (signature, signature_ba) \<Rightarrow> do {
                let ni = ni\<lparr>ni_signature := signature, ni_signature_ba := signature_ba\<rparr>;
                if hdr_version (sig_header signature) \<noteq> NMBM_VER then Some (- EINVAL, Some ni)
                else if sig_nand_size signature \<noteq> nld_size nld \<or>
                        sig_block_size signature \<noteq> nld_erasesize nld \<or>
                        sig_page_size signature \<noteq> nld_writesize nld \<or>
                        sig_spare_size signature \<noteq> nld_oobsize nld
                then Some (- EINVAL, Some ni)
                else do {
                  (success, ni) \<leftarrow> nmbm_load_existing ni;
                  Some (if success then 0 else - ENODEV, Some ni)
                }
              }
          }
        }
      | _ \<Rightarrow> Some (- EINVAL, nip))"

definition nmbm_detach :: "'d nmbm_instance option \<Rightarrow> (int \<times> 'd nmbm_instance option) option" where
  "nmbm_detach nip =
     (case nip of
        None \<Rightarrow> Some (- EINVAL, None)
      | Some ni \<Rightarrow> do {
          (_, ni) \<leftarrow> nmbm_update_info_table ni;
          Some (0, Some ni)
        })"

section \<open>The info table image\<close>

text \<open>The info table image with its checksum in place.\<close>

lemma generate_image:
  assumes "geom ni"
  obtains crc where "nmbm_generate_info_table_cache ni = Some
     (ni_block_state_changed ni \<noteq> 0 \<or> ni_block_mapping_changed ni \<noteq> 0,
      ni\<lparr>ni_info_table := next_header ni,
         ni_info_table_cache := take 12 (raw_image ni) @ enc32 crc @ drop 16 (raw_image ni)\<rparr>)"
    and "nmbm_update_checksum (raw_image ni) =
      Some (take 12 (raw_image ni) @ enc32 crc @ drop 16 (raw_image ni))"
proof -
  let ?raw = "raw_image ni"
  define crc where "crc = crc_ref 0 (covered (unat (field32 8 ?raw)) ?raw)"
  have "nmbm_update_checksum ?raw = mem_write 12 (enc32 crc) ?raw"
    using geomD(13) [OF assms] unfolding crc_def
    by (intro nmbm_update_checksum_eq) (simp_all add: raw_image_size length_raw_image [OF assms])
  also have "\<dots> = Some (take 12 ?raw @ enc32 crc @ drop 16 ?raw)"
    using geomD(13) [OF assms] length_raw_image [OF assms]
    by (simp add: mem_write_Some del: enc_le.simps)
  finally have upd: "nmbm_update_checksum ?raw = Some (take 12 ?raw @ enc32 crc @ drop 16 ?raw)" .
  show thesis
    by (rule that [OF _ upd]) (simp only: generate_eq [OF assms] upd bind.bind_lunit)
qed

lemma raw_image_header:
  "take 32 (raw_image ni) = info_header_bytes (next_header ni)"
  by (simp add: raw_image_def Let_def)

lemma raw_image_states:
  assumes "geom ni"
  shows "dec_words (length (ni_block_state ni))
      (drop (unat (ift_state_table_off (ni_info_table ni))) (raw_image ni)) = ni_block_state ni"
  using geomD(8) [OF assms] by (simp add: raw_image_def Let_def dec_enc_words)

lemma raw_image_mapping:
  assumes "geom ni"
  shows "dec_words (length (ni_block_mapping ni))
      (drop (unat (ift_mapping_table_off (ni_info_table ni))) (raw_image ni)) = ni_block_mapping ni"
  using geomD(5,8,9) [OF assms] by (simp add: raw_image_def Let_def dec_enc_words)


lemma take_dec_words: "n \<le> m \<Longrightarrow> take n (dec_words m bs) = dec_words n bs"
proof (induction m arbitrary: n bs)
  case (Suc m)
  then show ?case by (cases n) simp_all
qed simp

lemma take_words_at:
  "off + 4 * n \<le> length bs \<Longrightarrow> take n (words_at off bs) = dec_words n (drop off bs)"
  by (simp add: words_at_def take_dec_words)

lemma info_header_of_parts:
  assumes "take 12 bs = take 12 (info_header_bytes t)" "drop 16 (take 32 bs) = drop 16 (info_header_bytes t)"
    "32 \<le> length bs"
  shows "info_header_of bs = t\<lparr>ift_header := (ift_header t)\<lparr>hdr_checksum := field32 12 bs\<rparr>\<rparr>"
proof -
  have f: "field32 off bs = field32 off (info_header_bytes t)" if "off + 4 \<le> 12 \<or> 16 \<le> off \<and> off + 4 \<le> 32" for off
  proof (cases "off + 4 \<le> 12")
    case True
    then show ?thesis using field32_take [of off 12 bs] field32_take [of off 12 "info_header_bytes t"] assms(1) by simp
  next
    case False
    have m: "min 4 (32 - off) = 4" using that False by linarith
    have "field32 off bs = field32 (off - 16) (drop 16 (take 32 bs))"
      using that False by (simp add: field32_def drop_take m)
    also have "\<dots> = field32 off (info_header_bytes t)"
      using that False unfolding assms(2) by (simp add: field32_def)
    finally show ?thesis .
  qed
  have "info_header_of (info_header_bytes t) = t" using info_header_of_bytes [of t "[]"] by simp
  then have "t = info_header_of (info_header_bytes t)" ..
  then have "ift_header t = header_of (info_header_bytes t)" "ift_write_count t = field32 16 (info_header_bytes t)"
    "ift_state_table_off t = field32 20 (info_header_bytes t)"
    "ift_mapping_table_off t = field32 24 (info_header_bytes t)" "ift_padding t = field32 28 (info_header_bytes t)"
    unfolding info_header_of_def by (metis nmbm_info_table_header.select_convs)+
  then show ?thesis
    by (simp add: info_header_of_def header_of_def f)
qed

text \<open>
  What the loader asks of the tables of an image: no logical block is mapped into the blocks behind the data area up to the end of the table,
  nor onto the signature block. \<open>lowest_spare\<close> is the lowest block used as a spare.
\<close>

definition misplaced :: "'d nmbm_instance \<Rightarrow> u32 \<Rightarrow> u32 \<Rightarrow> bool" where
  "misplaced ni end_ba pb \<longleftrightarrow> ni_data_block_count ni \<le> pb \<and> pb < end_ba \<or> pb = ni_signature_ba ni"

definition lowest_spare :: "u32 \<Rightarrow> u32 \<Rightarrow> u32 list \<Rightarrow> u32" where
  "lowest_spare sig end_ba pbs = foldl min sig (filter (\<lambda>pb. end_ba \<le> pb) pbs)"

lemma check_mapping_loop:
  fixes ni :: "'d nmbm_instance"
  assumes "unat (ni_data_block_count ni) \<le> length m"
  defines "used \<equiv> take (unat (ni_data_block_count ni)) m"
  shows "returns (loop (check_mapping_body ni end_ba m) (0, ni_signature_ba ni)) (\<lambda>r.
    r = (if \<exists>pb\<in>set used. misplaced ni end_ba pb then None
         else Some (lowest_spare (ni_signature_ba ni) end_ba used)))"
proof (rule loop_rule [where m = "\<lambda>(ba, _). unat (ni_data_block_count ni) - unat ba" and
      I = "\<lambda>(ba, mn). ba \<le> ni_data_block_count ni \<and> (\<forall>pb\<in>set (take (unat ba) m). \<not> misplaced ni end_ba pb) \<and>
        mn = lowest_spare (ni_signature_ba ni) end_ba (take (unat ba) m)"], goal_cases)
  case 1
  show ?case by (simp add: lowest_spare_def)
next
  case (2 s)
  obtain ba mn where s: "s = (ba, mn)" by (cases s)
  show ?case
  proof (cases "ba < ni_data_block_count ni")
    case False
    with 2 have "ba = ni_data_block_count ni" by (simp add: s)
    with 2 show ?thesis by (simp add: s check_mapping_body_def used_def)
  next
    case True
    then have lt: "unat ba < length m" and inc: "unat (ba + 1) = Suc (unat ba)"
      using assms(1) unat_inc [OF True] by (simp_all add: word_less_nat_alt)
    have mem: "m ! unat ba \<in> set used"
      using True lt by (auto simp: used_def in_set_conv_nth word_less_nat_alt intro!: exI [of _ "unat ba"])
    show ?thesis
    proof (cases "misplaced ni end_ba (m ! unat ba)")
      case bad: True
      with mem True lt show ?thesis by (auto simp: s check_mapping_body_def misplaced_def arr_get_def)
    next
      case False
      have "ba + 1 \<le> ni_data_block_count ni" "unat (ni_data_block_count ni) - unat (ba + 1) < unat (ni_data_block_count ni) - unat ba"
        using True inc by (simp_all add: word_less_nat_alt word_le_nat_alt)
      moreover have "take (unat (ba + 1)) m = take (unat ba) m @ [m ! unat ba]"
        unfolding inc using lt by (rule take_Suc_conv_app_nth)
      moreover have "check_mapping_body ni end_ba m (ba, mn) =
          Some (Inr (ba + 1, if end_ba \<le> m ! unat ba then min mn (m ! unat ba) else mn))"
        using True lt False by (auto simp: check_mapping_body_def arr_get_def misplaced_def min_def)
      ultimately show ?thesis
        using 2 False by (auto simp: s lowest_spare_def)
    qed
  qed
qed

lemma check_states_loop:
  assumes "states_cover ni" and "end_ba \<le> ni_block_count ni"
    and "take (length (ni_block_state ni)) bs = ni_block_state ni"
  shows "loop (check_states_body ni end_ba bs) ba = Some True"
proof -
  have len: "length (ni_block_state ni) \<le> length bs" using assms(3) by (metis length_take min.cobounded1)
  have "returns (loop (check_states_body ni end_ba bs) ba) (\<lambda>r. r = True)"
  proof (rule loop_rule [where m = "\<lambda>ba. unat end_ba - unat ba" and I = "\<lambda>_. True"], goal_cases)
    case (2 b)
    show ?case
    proof (cases "b < end_ba")
      case True
      then have b: "unat b < 16 * length (ni_block_state ni)" using assms(2) states_coverD [OF assms(1), of b] by simp
      then have "unat (b div 16) < length (ni_block_state ni)" by (simp add: unat_unit)
      then have "ni_block_state ni ! unat (b div 16) = bs ! unat (b div 16)" using assms(3) by (metis nth_take)
      then have same: "blk bs b = blk (ni_block_state ni) b" by (simp add: blk_def)
      have "unat end_ba - unat (b + 1) < unat end_ba - unat b"
        using True unat_inc [OF True] by (auto simp: word_less_nat_alt)
      with True b same len show ?thesis
        by (auto simp: check_states_body_def nmbm_get_block_state_def get_block_state_raw_eq)
    qed (simp add: check_states_body_def)
  qed simp
  then show ?thesis by (auto simp: returns_iff)
qed
text \<open>
  C12: an info table is read back as it was written. From every well-formed instance,
  \<open>nmbm_generate_info_table_cache\<close> returns an image that passes the header check and the
  plausibility check of the loader, carries a write count one higher exactly when there was
  something to save, and whose two tables, read at the offsets of the header, are the block
  states and the block mapping of the instance. The last check of the loader, \<open>nmbm_check_info_table\<close>, on a table that ends before block \<open>end_ba\<close>, is decided by the
  mapping alone: it rejects the image exactly when a logical block is mapped into the blocks between the data area and \<open>end_ba\<close> or onto the signature
  block, and otherwise accepts it and finds the top of the free spare blocks below the lowest spare block in use.
\<close>

theorem nmbm_info_table_roundtrip:
  assumes "geom ni" and "ni_data_block_count ni \<le> ni_block_count ni" and "end_ba \<le> ni_block_count ni"
  shows "\<exists>changed ni'. nmbm_generate_info_table_cache ni = Some (changed, ni') \<and>
    (let cache = ni_info_table_cache ni'; hdr = info_header_of cache in
      nmbm_check_header cache (ni_info_table_size ni) = Some True \<and>
      nmbm_check_info_table_header ni' cache = Some True \<and>
      ift_write_count hdr = ift_write_count (ni_info_table ni) + (if changed then 1 else 0) \<and>
      take (length (ni_block_state ni)) (words_at (unat (ift_state_table_off hdr)) cache)
        = ni_block_state ni \<and>
      take (length (ni_block_mapping ni)) (words_at (unat (ift_mapping_table_off hdr)) cache)
        = ni_block_mapping ni \<and>
      nmbm_check_info_table ni' start_ba end_ba cache =
        Some (let used = take (unat (ni_data_block_count ni)) (ni_block_mapping ni) in
          if \<exists>pb\<in>set used. ni_data_block_count ni \<le> pb \<and> pb < end_ba \<or> pb = ni_signature_ba ni then None
          else Some (lowest_spare (ni_signature_ba ni) end_ba used - 1)))"
proof -
  let ?raw = "raw_image ni" and ?t = "next_header ni"
  note g = geomD [OF assms(1)]
  obtain cache where upd: "nmbm_update_checksum ?raw = Some cache"
    and parts: "take 12 cache = take 12 ?raw" "drop 16 cache = drop 16 ?raw"
    and len: "length cache = length ?raw" and chk: "nmbm_check_header cache (ni_info_table_size ni) = Some True"
    using update_checksum_passes [of ?raw "ni_info_table_size ni"] g(13) length_raw_image [OF assms(1)]
    by (auto simp: raw_image_size)
  have lc: "length cache = unat (ni_info_table_size ni)" using len length_raw_image [OF assms(1)] by simp
  have low: "drop off cache = drop off ?raw" if "16 \<le> off" for off
    using that parts(2) drop_drop [of "off - 16" 16 cache] drop_drop [of "off - 16" 16 ?raw] by simp
  have "take 12 cache = take 12 (info_header_bytes ?t)"
    using parts(1) by (simp add: raw_image_def Let_def)
  moreover have "drop 16 (take 32 cache) = drop 16 (info_header_bytes ?t)"
    using parts(2) arg_cong [OF raw_image_header [of ni], of "drop 16"] by (simp add: drop_take)
  ultimately have hdr: "info_header_of cache =
      ?t\<lparr>ift_header := (ift_header ?t)\<lparr>hdr_checksum := field32 12 cache\<rparr>\<rparr>"
    using g(13) lc by (intro info_header_of_parts) simp_all
  have f32: "info_header_of (take 32 cache) = info_header_of cache"
    by (simp add: info_header_of_def header_of_def field32_take)
  have sub: "unat (ift_mapping_table_off ?t - ift_state_table_off ?t)
      = unat (ift_mapping_table_off ?t) - unat (ift_state_table_off ?t)"
    "unat (ni_info_table_size ni - ift_mapping_table_off ?t)
      = unat (ni_info_table_size ni) - unat (ift_mapping_table_off ?t)"
    using g by (auto intro!: unat_sub simp: word_le_nat_alt)
  let ?ni = "ni\<lparr>ni_info_table := ?t, ni_info_table_cache := cache\<rparr>"
  have "nmbm_check_info_table_header ?ni cache = Some True"
    using g sub lc
    by (simp add: nmbm_check_info_table_header_def mem_read_def f32 hdr word_less_nat_alt)
      (auto simp: next_header_def word_less_nat_alt)
  moreover have st: "take (length (ni_block_state ni)) (words_at (unat (ift_state_table_off ?t)) cache)
      = ni_block_state ni"
    using g lc by (subst take_words_at) (simp_all add: low raw_image_states [OF assms(1)])
  moreover have mp: "take (length (ni_block_mapping ni)) (words_at (unat (ift_mapping_table_off ?t)) cache)
      = ni_block_mapping ni"
    using g(6,8-10,13) lc raw_image_mapping [OF assms(1)] by (subst take_words_at) (simp_all add: low)
  moreover have "nmbm_check_info_table ?ni start_ba end_ba cache =
      Some (let used = take (unat (ni_data_block_count ni)) (ni_block_mapping ni) in
        if \<exists>pb\<in>set used. misplaced ni end_ba pb then None
        else Some (lowest_spare (ni_signature_ba ni) end_ba used - 1))"
  proof -
    let ?m = "words_at (unat (ift_mapping_table_off ?t)) cache" and ?n = "unat (ni_data_block_count ni)"
    have n: "?n \<le> length (ni_block_mapping ni)" using assms(2) g by (simp add: word_le_nat_alt)
    have "length (ni_block_mapping ni) \<le> length ?m" using mp by (metis length_take min.cobounded1)
    moreover have "take ?n ?m = take ?n (ni_block_mapping ni)" using mp n by (metis min.absorb1 take_take)
    moreover have "states_cover ?ni" using g by (simp add: states_cover_def)
    ultimately show ?thesis
      using check_mapping_loop [of ?ni ?m end_ba] n check_states_loop [of ?ni end_ba _ start_ba] assms(3) st g(13) lc
      by (auto simp: nmbm_check_info_table_def mem_read_def f32 hdr returns_iff misplaced_def Let_def)
  qed
  ultimately show ?thesis
    using chk by (simp add: generate_eq [OF assms(1)] upd Let_def hdr) (simp add: next_header_def misplaced_def)
qed

theorem nmbm_info_table_roundtrip_witness:
  "\<exists>changed ni'. nmbm_generate_info_table_cache (sample 0) = Some (changed, ni') \<and>
     nmbm_check_header (ni_info_table_cache ni') 256 = Some True \<and>
     nmbm_check_info_table_header ni' (ni_info_table_cache ni') = Some True \<and>
     nmbm_check_info_table ni' 16 18 (ni_info_table_cache ni') = Some (Some 30)"
proof -
  have "ni_signature_ba (sample 0) = 31" by (simp add: sample_def)
  then show ?thesis
    using nmbm_info_table_roundtrip [OF sample_geom [of 0], of 18 16] by (auto simp: Let_def lowest_spare_def word_le_nat_alt)
qed

section \<open>Initialisation\<close>

lemma odd_unat_div_bit: "bit (w :: 'a::len word) k \<longleftrightarrow> odd (unat w div 2 ^ k)"
proof -
  have "bit (unat w) k \<longleftrightarrow> bit w k" by (simp add: bit_unsigned_iff)
  then show ?thesis by (simp add: bit_iff_odd [of "unat w"])
qed
lemma is_power_of_2_word:
  assumes "(n :: 'a::len word) \<noteq> 0" and "n AND (n - 1) = 0"
  obtains k where "k < LENGTH('a)" and "n = 2 ^ k"
proof -
  have pos: "1 \<le> unat n" using assms(1) by (simp add: Suc_leI unat_gt_0)
  then obtain k where k: "2 ^ k \<le> unat n" "unat n < 2 ^ (k + 1)"
    using ex_power_ivl1 [of 2 "unat n"] by auto
  have "unat n = 2 ^ k"
  proof (rule ccontr)
    assume "unat n \<noteq> 2 ^ k"
    then have "2 ^ k \<le> unat n - 1" "unat n - 1 < 2 * 2 ^ k" using k by auto
    then have "(unat n - 1) div 2 ^ k = 1" "unat n div 2 ^ k = 1" using k
      by (auto intro!: div_nat_eqI)
    then have "bit n k" "bit (n - 1) k"
      using unat_dec [OF assms(1)] by (simp_all add: odd_unat_div_bit)
    then have "bit (n AND (n - 1)) k" by (simp add: bit_and_iff)
    with assms(2) show False by simp
  qed
  moreover from this have "k < LENGTH('a)" using unat_less_len [of n] by simp
  moreover have "n = of_nat (unat n)" by simp
  ultimately show thesis using that [of k] by simp
qed

lemma unat_pow2: "k < LENGTH('a) \<Longrightarrow> unat (2 ^ k :: 'a::len word) = 2 ^ k"
  using unat_of_nat [of "2 ^ k", where 'a = 'a] by simp

lemma ffs_pow2: "k < 32 \<Longrightarrow> ffs (2 ^ k) = Suc k"
proof -
  assume k: "k < 32"
  have "bit (2 ^ k :: u32) i \<longleftrightarrow> i = k" for i using k by (auto simp: bit_exp_iff)
  then have "find (bit (2 ^ k :: u32)) [0..<32] = Some k"
    unfolding find_Some_iff using k by (intro exI [of _ k]) auto
  then show ?thesis by (simp add: ffs_def)
qed

lemma unat_align:
  assumes "k < 32" and "unat v + 2 ^ k \<le> 2 ^ 32"
  shows "unat (NMBM_ALIGN v (2 ^ k)) = (unat v + 2 ^ k - 1) div 2 ^ k * 2 ^ k"
proof -
  have m: "(2 ^ k - 1 :: u32) = mask k" by (simp add: mask_eq_exp_minus_1)
  let ?x = "v + mask k"
  have p: "(1::nat) \<le> 2 ^ k" by simp
  have "unat (mask k :: u32) = 2 ^ k - 1"
    using unat_pow2 [of k, where 'a = 32] assms(1) unat_dec [of "2 ^ k :: u32"] unfolding m [symmetric]
    by (cases "(2 ^ k :: u32) = 0") simp_all
  then have x: "unat ?x = unat v + 2 ^ k - 1"
    using assms p by (simp add: unat_word_ariths)
  have "?x AND NOT (mask k) = push_bit k (drop_bit k ?x)"
    by (rule bit_word_eqI) (auto simp: bit_simps)
  moreover have "NMBM_ALIGN v (2 ^ k) = ?x AND NOT (mask k)"
    unfolding NMBM_ALIGN_def m [symmetric] by (simp add: algebra_simps)
  moreover have "unat (push_bit k (drop_bit k ?x)) = unat ?x div 2 ^ k * 2 ^ k"
  proof -
    have "unat ?x div 2 ^ k * 2 ^ k \<le> unat ?x" by simp
    also have "\<dots> < 2 ^ 32" by (rule unat_u32_less)
    finally show ?thesis by (simp add: unat_push_bit unat_drop_bit)
  qed
  ultimately show ?thesis by (simp add: x)
qed

lemma align_bounds:
  assumes "k < 32" and "unat v + 2 ^ k \<le> 2 ^ 32"
  shows "unat v \<le> unat (NMBM_ALIGN v (2 ^ k))" "unat (NMBM_ALIGN v (2 ^ k)) < unat v + 2 ^ k"
proof -
  let ?p = "2 ^ k :: nat"
  have p: "0 < ?p" by simp
  show "unat v \<le> unat (NMBM_ALIGN v (2 ^ k))"
    unfolding unat_align [OF assms]
    using div_mult_mod_eq [of "unat v + ?p - 1" ?p] mod_less_divisor [OF p, of "unat v + ?p - 1"] p
    by linarith
  show "unat (NMBM_ALIGN v (2 ^ k)) < unat v + ?p"
    unfolding unat_align [OF assms]
    using div_mult_mod_eq [of "unat v + ?p - 1" ?p] p by linarith
qed

text \<open>
  The sizes NMBM can serve: a page fits a block, a block fits the chip, and the tables of
  the chip fit 32-bit offsets with room to spare.
\<close>

definition supported :: "'d nmbm_lower_device \<Rightarrow> bool" where
  "supported nld \<longleftrightarrow> lower_ok nld \<and> nld_writesize nld \<le> nld_erasesize nld \<and>
     ucast (nld_erasesize nld) \<le> nld_size nld \<and>
     unat (nld_size nld) div unat (nld_erasesize nld) \<le> 2 ^ 28 \<and>
     nld_writesize nld \<le> 0x8000000 \<and> nld_oobsize nld \<le> 0x8000000"

lemma check_lower_members_shape:
  assumes "nmbm_check_lower_members nld = (True, nld')"
  obtains e w s where "e < 32" "nld_erasesize nld' = 2 ^ e" "w < 32" "nld_writesize nld' = 2 ^ w"
    "s < 64" "nld_size nld' = 2 ^ s" "0 < nld_oobsize nld'"
    "\<exists>r. nld' = nld\<lparr>nld_max_ratio := r\<rparr>"
proof -
  have c: "nld_size nld \<noteq> 0" "nld_size nld AND (nld_size nld - 1) = 0"
    "nld_erasesize nld \<noteq> 0" "nld_erasesize nld AND (nld_erasesize nld - 1) = 0"
    "nld_writesize nld \<noteq> 0" "nld_writesize nld AND (nld_writesize nld - 1) = 0"
    "nld_oobsize nld \<noteq> 0"
    using assms
    by (auto simp: nmbm_check_lower_members_def is_power_of_2_def is_power_of_2_u64_def Let_def
        split: if_splits)
  have r: "nld' = (if nld_max_ratio nld = 0 then nld\<lparr>nld_max_ratio := 1\<rparr> else nld)"
    using assms by (auto simp: nmbm_check_lower_members_def Let_def split: if_splits)
  have "\<exists>r. nld' = nld\<lparr>nld_max_ratio := r\<rparr>"
    using r by (cases "nld_max_ratio nld = 0") (auto intro: exI [of _ "nld_max_ratio nld"])
  moreover have f: "nld_size nld' = nld_size nld" "nld_erasesize nld' = nld_erasesize nld"
    "nld_writesize nld' = nld_writesize nld" "nld_oobsize nld' = nld_oobsize nld"
    by (simp_all add: r)
  moreover obtain s where "s < 64" "nld_size nld = 2 ^ s" by (rule is_power_of_2_word [OF c(1,2)]) simp
  moreover obtain e where "e < 32" "nld_erasesize nld = 2 ^ e" by (rule is_power_of_2_word [OF c(3,4)]) simp
  moreover obtain w where "w < 32" "nld_writesize nld = 2 ^ w" by (rule is_power_of_2_word [OF c(5,6)]) simp
  ultimately show thesis using that c(7) by (simp add: word_gt_0)
qed

lemma table_sizes:
  fixes bc :: u32
  assumes "unat bc \<le> 2 ^ 28"
  shows "unat ((bc + 16 - 1) div 16 * 4) = (unat bc + 15) div 16 * 4" "unat (bc * 4) = 4 * unat bc"
proof -
  have "unat (bc + 15) = unat bc + 15" using assms by (simp add: unat_word_ariths)
  moreover have "(unat bc + 15) div 16 * 4 < 2 ^ 32" using assms by simp
  ultimately show "unat ((bc + 16 - 1) div 16 * 4) = (unat bc + 15) div 16 * 4"
    by (simp add: unat_word_ariths unat_div)
  show "unat (bc * 4) = 4 * unat bc" using assms by (simp add: unat_word_ariths)
qed

text \<open>The numbers \<open>nmbm_init_structure\<close> computes, for power-of-two sizes.\<close>

lemma init_structure_numbers:
  fixes ni :: "'d nmbm_instance"
  assumes "e < 32" "ni_erasesize ni = 2 ^ e" "w \<le> 27" "ni_writesize ni = 2 ^ w"
    and "s < 64" "nld_size (ni_lower ni) = 2 ^ s" "e \<le> s" "s - e \<le> 28"
  defines "x \<equiv> nmbm_init_structure ni" and "b \<equiv> 2 ^ (s - e) :: nat"
  shows "unat (ni_erasesize_shift x) = e" "unat (ni_block_count x) = b"
    "unat (ni_state_table_size x) = (b + 15) div 16 * 4" "unat (ni_mapping_table_size x) = 4 * b"
    "32 \<le> unat (ift_state_table_off (ni_info_table x))"
    "unat (ift_state_table_off (ni_info_table x)) + unat (ni_state_table_size x)
       \<le> unat (ift_mapping_table_off (ni_info_table x))"
    "unat (ift_mapping_table_off (ni_info_table x)) + unat (ni_mapping_table_size x)
       \<le> unat (ni_info_table_size x)"
    "unat (ni_info_table_size x) < 2 ^ 31"
proof -
  define bc :: u32 where "bc = ucast (drop_bit (unat (of_nat (ffs (2 ^ e)) - 1 :: u16)) (2 ^ s :: u64))"
  define st where "st = (bc + 16 - 1) div 16 * 4"
  define so where "so = NMBM_ALIGN 32 (2 ^ w)"
  define mo where "mo = so + NMBM_ALIGN st (2 ^ w)"
  define sz where "sz = mo + NMBM_ALIGN (bc * 4) (2 ^ w)"
  have shift: "unat (of_nat (ffs (2 ^ e)) - 1 :: u16) = e"
    using assms(1) by (simp add: ffs_pow2 unat_of_nat)
  have b28: "b \<le> 2 ^ 28" unfolding b_def using assms(8) by (rule power_increasing) simp
  have "unat (drop_bit e (2 ^ s :: u64)) = 2 ^ s div 2 ^ e"
    using assms(5) by (simp add: unat_drop_bit unat_pow2)
  also have "\<dots> = b" unfolding b_def using assms(7) by (simp add: power_diff)
  finally have bc: "unat bc = b"
    unfolding bc_def shift unat_ucast_u32 using b28 by simp
  have w: "w < 32" "(2::nat) ^ w \<le> 2 ^ 27" using assms(3) by (simp, intro power_increasing) simp_all
  have st: "unat st = (b + 15) div 16 * 4" "unat (bc * 4) = 4 * b"
    using table_sizes [of bc] b28 by (simp_all add: bc st_def)
  have so: "32 \<le> unat so" "unat so < 32 + 2 ^ w"
    using align_bounds [OF w(1), of 32] w(2) by (simp_all add: so_def)
  have a2: "unat st \<le> unat (NMBM_ALIGN st (2 ^ w))" "unat (NMBM_ALIGN st (2 ^ w)) < unat st + 2 ^ w"
    using align_bounds [OF w(1), of st] w(2) b28 st by simp_all
  have a3: "4 * b \<le> unat (NMBM_ALIGN (bc * 4) (2 ^ w))" "unat (NMBM_ALIGN (bc * 4) (2 ^ w)) < 4 * b + 2 ^ w"
    using align_bounds [OF w(1), of "bc * 4"] w(2) b28 st by simp_all
  have mo: "unat mo = unat so + unat (NMBM_ALIGN st (2 ^ w))"
    unfolding mo_def using so a2 w(2) b28 st by (simp add: unat_word_ariths)
  have sz: "unat sz = unat mo + unat (NMBM_ALIGN (bc * 4) (2 ^ w))"
    unfolding sz_def using so a2 a3 mo w(2) b28 st by (simp add: unat_word_ariths)
  have fields: "unat (ni_erasesize_shift x) = e" "ni_block_count x = bc" "ni_state_table_size x = st"
    "ni_mapping_table_size x = bc * 4" "ift_state_table_off (ni_info_table x) = so"
    "ift_mapping_table_off (ni_info_table x) = mo" "ni_info_table_size x = sz"
    using shift
    by (simp_all add: x_def nmbm_init_structure_def Let_def assms(2,4,6) bc_def st_def so_def mo_def sz_def)
  show "unat (ni_erasesize_shift x) = e" "unat (ni_block_count x) = b"
    "unat (ni_state_table_size x) = (b + 15) div 16 * 4" "unat (ni_mapping_table_size x) = 4 * b"
    "32 \<le> unat (ift_state_table_off (ni_info_table x))"
    "unat (ift_state_table_off (ni_info_table x)) + unat (ni_state_table_size x)
       \<le> unat (ift_mapping_table_off (ni_info_table x))"
    "unat (ift_mapping_table_off (ni_info_table x)) + unat (ni_mapping_table_size x)
       \<le> unat (ni_info_table_size x)"
    "unat (ni_info_table_size x) < 2 ^ 31"
    unfolding fields using bc st so a2 a3 mo sz w b28 by simp_all
qed

lemma supported_shape:
  assumes "nmbm_check_lower_members nld = (True, nld')" and "supported nld"
  obtains e w s where "e < 32" "nld_erasesize nld' = 2 ^ e" "w \<le> 27" "nld_writesize nld' = 2 ^ w"
    "s < 64" "nld_size nld' = 2 ^ s" "e \<le> s" "s - e \<le> 28" "w \<le> e"
    "0 < nld_oobsize nld'" "unat (nld_oobsize nld') \<le> 2 ^ 27" "lower_ok nld'"
proof -
  obtain e w s where sh: "e < 32" "nld_erasesize nld' = 2 ^ e" "w < 32" "nld_writesize nld' = 2 ^ w"
      "s < 64" "nld_size nld' = 2 ^ s" "0 < nld_oobsize nld'"
    and "\<exists>r. nld' = nld\<lparr>nld_max_ratio := r\<rparr>"
    by (rule check_lower_members_shape [OF assms(1)])
  then obtain r where "nld' = nld\<lparr>nld_max_ratio := r\<rparr>" by blast
  with assms(2) have sup: "supported nld'" by (simp add: supported_def lower_ok_def)
  have u: "unat (2 ^ e :: u32) = 2 ^ e" "unat (2 ^ w :: u32) = 2 ^ w" "unat (2 ^ s :: u64) = 2 ^ s"
    using sh by (simp_all add: unat_pow2)
  have "(2::nat) ^ w \<le> 2 ^ 27" "(2::nat) ^ w \<le> 2 ^ e" "(2::nat) ^ e \<le> 2 ^ s"
    "(2::nat) ^ s div 2 ^ e \<le> 2 ^ 28"
    using sup sh u by (simp_all add: supported_def word_le_nat_alt)
  moreover from this have "e \<le> s" by (simp only: power_increasing_iff)
  ultimately have "w \<le> 27" "w \<le> e" "s - e \<le> 28"
    by (simp_all only: power_increasing_iff power_diff [symmetric])
  then show thesis
    using that sh sup \<open>e \<le> s\<close> by (simp add: supported_def word_le_nat_alt)
qed

lemma sample_lower_checked: "nmbm_check_lower_members sample_lower = (True, sample_lower)"
  by (simp add: nmbm_check_lower_members_def is_power_of_2_def is_power_of_2_u64_def)

lemma sample_supported: "supported sample_lower"
  by (simp add: supported_def)

lemma init_structure_frame:
  "ni_lower (nmbm_init_structure ni) = ni_lower ni" "ni_arg (nmbm_init_structure ni) = ni_arg ni"
  "ni_writesize_mask (nmbm_init_structure ni) = ni_writesize ni - 1"
  "ni_erasesize_mask (nmbm_init_structure ni) = ni_erasesize ni - 1"
  "ni_rawpage_size (nmbm_init_structure ni) = ni_writesize ni + ni_oobsize ni"
  "length (ni_page_cache (nmbm_init_structure ni)) = unat (ni_writesize ni) + unat (ni_oobsize ni)"
  "length (ni_info_table_cache (nmbm_init_structure ni)) =
     unat (ni_info_table_size (nmbm_init_structure ni))"
  "length (ni_block_state (nmbm_init_structure ni)) =
     unat (ni_state_table_size (nmbm_init_structure ni)) div 4"
  "length (ni_block_mapping (nmbm_init_structure ni)) =
     unat (ni_mapping_table_size (nmbm_init_structure ni)) div 4"
  by (simp_all add: nmbm_init_structure_def Let_def)

text \<open>
  C28: initialisation establishes the geometry every other operation relies on. For every
  lower device that passes \<open>nmbm_check_lower_members\<close> and whose tables fit the 32-bit
  offsets, the instance \<open>nmbm_init_structure\<close> builds is well formed: the shifts are the logarithms of the erase and the page size and
  the masks belong to them, the blocks counted make up the chip, the state and mapping tables cover every block, and the parts of the
  info table lie inside its cache without overlap.
\<close>

theorem nmbm_init_structure_geom:
  assumes "nmbm_check_lower_members nld = (True, nld')" and "supported nld"
  shows "let x = nmbm_init_structure (ni\<lparr>ni_lower := nld', ni_arg := arg\<rparr>) in geom x \<and>
    unat (nld_erasesize nld') = 2 ^ unat (ni_erasesize_shift x) \<and> unat (nld_writesize nld') = 2 ^ unat (ni_writesize_shift x) \<and>
    ni_erasesize_mask x = nld_erasesize nld' - 1 \<and> ni_writesize_mask x = nld_writesize nld' - 1 \<and>
    unat (ni_block_count x) * unat (nld_erasesize nld') = unat (nld_size nld')"
proof -
  let ?ni = "ni\<lparr>ni_lower := nld', ni_arg := arg\<rparr>"
  obtain e w s where sh: "e < 32" "nld_erasesize nld' = 2 ^ e" "w \<le> 27" "nld_writesize nld' = 2 ^ w"
    "s < 64" "nld_size nld' = 2 ^ s" "e \<le> s" "s - e \<le> 28"
    and le: "w \<le> e" and oob: "0 < nld_oobsize nld'" "unat (nld_oobsize nld') \<le> 2 ^ 27"
    and ok: "lower_ok nld'" by (rule supported_shape [OF assms])
  note num = init_structure_numbers [of e ?ni w s, simplified, OF sh]
  note fr = init_structure_frame [of ?ni, simplified]
  have u: "unat (2 ^ e :: u32) = 2 ^ e" "unat (2 ^ w :: u32) = 2 ^ w"
    using sh by (simp_all add: unat_pow2)
  have w: "(2::nat) ^ w \<le> 2 ^ 27" "(2::nat) ^ w \<le> 2 ^ e" "(2::nat) ^ e \<le> 2 ^ 31"
    "(2::nat) ^ (s - e) \<le> 2 ^ 28"
    using sh le by (intro power_increasing; simp)+
  have pg: "page_geom (nmbm_init_structure ?ni)"
    unfolding page_geom_def
    using ok oob w u by (simp add: fr sh word_less_nat_alt word_le_nat_alt unat_word_ariths)
  have "unat (ni_block_count (nmbm_init_structure ?ni)) \<le> 16 * ((2 ^ (s - e) + 15) div 16)"
    using num(2) by simp
  moreover have "0 < (2::nat) ^ (s - e)" by simp
  ultimately have "geom (nmbm_init_structure ?ni)"
    unfolding geom_def states_cover_def
    using pg num fr w by (simp add: word_less_nat_alt word_le_nat_alt)
  moreover have "unat (ni_writesize_shift (nmbm_init_structure ?ni)) = w"
    using sh(3) by (simp add: nmbm_init_structure_def Let_def sh(4) ffs_pow2 unat_of_nat)
  moreover have "unat (nld_size nld') = 2 ^ (s - e) * 2 ^ e"
    using sh(5-7) by (simp add: unat_pow2 flip: power_add)
  ultimately show ?thesis using num(1,2) fr(3,4) by (simp add: Let_def sh u)
qed


lemma lldiv_pow2:
  assumes "e < 32"
  shows "nmbm_lldiv sz (2 ^ e) = ucast (drop_bit e sz)"
proof -
  have "(ucast (2 ^ e :: u32) :: u64) = 2 ^ e"
    using assms by (simp add: word_unat_eq_iff unat_pow2)
  then show ?thesis by (simp add: nmbm_lldiv_def drop_bit_eq_div)
qed

theorem nmbm_init_structure_geom_witness:
  "let x = nmbm_init_structure ((sample 0)\<lparr>ni_lower := sample_lower, ni_arg := sample_nand 0\<rparr>) in
     geom x \<and> (2::nat) ^ unat (ni_erasesize_shift x) = 128 \<and> (2::nat) ^ unat (ni_writesize_shift x) = 64 \<and> unat (ni_block_count x) = 32"
  using nmbm_init_structure_geom [OF sample_lower_checked sample_supported, of "sample_nand 0" "sample 0"] by (auto simp: Let_def)

text \<open>
  the memory the caller is told to allocate is what the tables use. For every supported
  device, \<open>nmbm_calc_structure_size\<close> is exactly the size of the instance plus the sizes of
  the info table cache, the state table, the mapping table and the page cache that
  \<open>nmbm_init_structure\<close> places behind it; the sum does not wrap.
\<close>

theorem nmbm_calc_structure_size_exact:
  assumes "nmbm_check_lower_members nld = (True, nld')" and "supported nld" and "unat isz \<le> 2 ^ 16"
  shows "let x = nmbm_init_structure (ni\<lparr>ni_lower := nld', ni_arg := arg\<rparr>) in
    unat (nmbm_calc_structure_size isz nld') = unat isz + length (ni_info_table_cache x) +
      4 * length (ni_block_state x) + 4 * length (ni_block_mapping x) + length (ni_page_cache x)"
proof -
  let ?ni = "ni\<lparr>ni_lower := nld', ni_arg := arg\<rparr>" and ?ws = "nld_writesize nld'"
  obtain e w s where sh: "e < 32" "nld_erasesize nld' = 2 ^ e" "w \<le> 27" "?ws = 2 ^ w"
    "s < 64" "nld_size nld' = 2 ^ s" "e \<le> s" "s - e \<le> 28"
    and oob: "unat (nld_oobsize nld') \<le> 2 ^ 27" by (rule supported_shape [OF assms(1,2)])
  note num = init_structure_numbers [of e ?ni w s, simplified, OF sh]
  note fr = init_structure_frame [of ?ni, simplified]
  define x where "x = nmbm_init_structure ?ni"
  have "unat (of_nat (ffs (2 ^ e)) - 1 :: u16) = e"
    using sh(1) by (simp add: ffs_pow2 unat_of_nat)
  then have calc: "nmbm_calc_structure_size isz nld' = ni_info_table_size x + ni_state_table_size x +
      ni_mapping_table_size x + ?ws + nld_oobsize nld' + isz"
    by (simp add: nmbm_calc_structure_size_def x_def nmbm_init_structure_def Let_def sh lldiv_pow2)
  have b: "(2::nat) ^ (s - e) \<le> 2 ^ 28" "(2::nat) ^ w \<le> 2 ^ 27"
    using sh by (intro power_increasing; simp)+
  have u: "unat (2 ^ w :: u32) = 2 ^ w" using sh by (simp add: unat_pow2)
  have "unat (ni_info_table_size x) + unat (ni_state_table_size x) + unat (ni_mapping_table_size x) +
      unat ?ws + unat (nld_oobsize nld') + unat isz < 2 ^ 32"
    using num(3,4,8) b oob assms(3) u unfolding x_def [symmetric] by (simp add: sh)
  then have "unat (nmbm_calc_structure_size isz nld') = unat (ni_info_table_size x) +
      unat (ni_state_table_size x) + unat (ni_mapping_table_size x) + unat ?ws +
      unat (nld_oobsize nld') + unat isz"
    unfolding calc by (simp add: unat_word_ariths)
  then show ?thesis
    using num(3,4) by (simp add: Let_def fr x_def)
qed
theorem nmbm_calc_structure_size_exact_witness:
  "let x = nmbm_init_structure ((sample 0)\<lparr>ni_lower := sample_lower, ni_arg := sample_nand 0\<rparr>) in
    unat (nmbm_calc_structure_size 300 sample_lower) = 300 + length (ni_info_table_cache x) +
      4 * length (ni_block_state x) + 4 * length (ni_block_mapping x) + length (ni_page_cache x)"
  using nmbm_calc_structure_size_exact [OF sample_lower_checked sample_supported, of 300
      "sample_nand 0" "sample 0"]
  by simp

end
