(* ===== verification/Nmbm_Logic.thy ===== *)
theory Nmbm_Logic
  imports Nmbm_Attach
begin

text \<open>
  The logical device (\<^verbatim>\<open>nmbm-core.c\<close>, from \<^verbatim>\<open>nmbm_erase_logic_block\<close> to the end of the file):
  erasing, reading and writing through the block mapping, and the bad-block queries.

  A function of the exported interface takes \<open>None\<close> for a NULL instance. An output
  parameter such as \<^verbatim>\<open>*retlen\<close> or \<^verbatim>\<open>*failed_addr\<close> is an option: \<open>None\<close> where the function
  leaves it as it was. \<^verbatim>\<open>size_t\<close> is 32 bits wide, as on the MIPS target.
\<close>

section \<open>Erasing\<close>

text \<open>The part of \<open>nmbm_erase_logic_block\<close> from its label \<^verbatim>\<open>remap_logic_block\<close> on.\<close>

definition set_bad_unless_need_remap :: "'d nmbm_instance \<Rightarrow> u32 \<Rightarrow> 'd nmbm_instance option" where
  "set_bad_unless_need_remap ni pb = do {
     st \<leftarrow> nmbm_get_block_state ni pb;
     if st \<noteq> BLOCK_ST_NEED_REMAP then do {
       (_, ni) \<leftarrow> nmbm_set_block_state ni pb BLOCK_ST_BAD;
       Some ni
     } else Some ni
   }"

definition remap_logic_block :: "'d nmbm_instance \<Rightarrow> u32 \<Rightarrow> u32
    \<Rightarrow> (int \<times> 'd nmbm_instance + 'd nmbm_instance) option" where
  "remap_logic_block ni block_addr pb = do {
     (success, ni) \<leftarrow> nmbm_map_block ni block_addr;
     if \<not> success then do {
       mapping \<leftarrow> arr_set (ni_block_mapping ni) (unat block_addr) (-1);
       ni \<leftarrow> set_bad_unless_need_remap (ni\<lparr>ni_block_mapping := mapping\<rparr>) pb;
       (_, ni) \<leftarrow> nmbm_update_info_table ni;
       Some (Inl (- EIO, ni))
     } else do {
       ni \<leftarrow> set_bad_unless_need_remap ni pb;
       (_, ni) \<leftarrow> nmbm_update_info_table ni;
       Some (Inr ni)
     }
   }"

definition erase_logic_body :: "u32 \<Rightarrow> 'd nmbm_instance
    \<Rightarrow> (int \<times> 'd nmbm_instance + 'd nmbm_instance) option" where
  "erase_logic_body block_addr ni = do {
     pb \<leftarrow> arr_get (ni_block_mapping ni) (unat block_addr);
     if sint pb < 0 then Some (Inl (- EIO, ni))
     else do {
       st \<leftarrow> nmbm_get_block_state ni pb;
       if st = BLOCK_ST_BAD \<or> st = BLOCK_ST_NEED_REMAP then remap_logic_block ni block_addr pb
       else do {
         (success, ni) \<leftarrow> nmbm_erase_phys_block ni (ba2addr ni pb);
         if success then Some (Inl (0, ni))
         else do {
           ni \<leftarrow> mark_block_bad ni pb;
           remap_logic_block ni block_addr pb
         }
       }
     }
   }"

definition nmbm_erase_logic_block :: "'d nmbm_instance \<Rightarrow> u32
    \<Rightarrow> (int \<times> 'd nmbm_instance) option" where
  "nmbm_erase_logic_block ni block_addr = loop (erase_logic_body block_addr) ni"

definition erase_blocks_body :: "u32 \<Rightarrow> 'd nmbm_instance \<times> u32
    \<Rightarrow> (int \<times> u64 option \<times> 'd nmbm_instance + 'd nmbm_instance \<times> u32) option" where
  "erase_blocks_body end_ba = (\<lambda>(ni, start_ba).
     if start_ba \<le> end_ba then do {
       (ret, ni) \<leftarrow> nmbm_erase_logic_block ni start_ba;
       if ret \<noteq> 0 then Some (Inl (ret, Some (ba2addr ni start_ba), ni))
       else Some (Inr (ni, start_ba + 1))
     } else Some (Inl (0, None, ni)))"

definition nmbm_erase_block_range :: "'d nmbm_instance option \<Rightarrow> u64 \<Rightarrow> u64
    \<Rightarrow> (int \<times> u64 option \<times> 'd nmbm_instance option) option" where
  "nmbm_erase_block_range nip addr sz =
     (case nip of
        None \<Rightarrow> Some (- EINVAL, None, None)
      | Some ni \<Rightarrow>
          if ni_protected ni \<noteq> 0 then Some (- EROFS, None, Some ni)
          else if addr \<ge> ba2addr ni (ni_data_block_count ni) then Some (- EINVAL, None, Some ni)
          else if addr + sz > ba2addr ni (ni_data_block_count ni)
          then Some (- EINVAL, None, Some ni)
          else if sz = 0 then Some (0, None, Some ni)
          else do {
            (ret, failed_addr, ni) \<leftarrow> loop (erase_blocks_body (addr2ba ni (addr + sz - 1)))
              (ni, addr2ba ni addr);
            Some (ret, failed_addr, Some ni)
          })"

section \<open>Reading\<close>

text \<open>What a failed read or write does: mark the block for remapping and save the tables.\<close>

definition mark_need_remap :: "'d nmbm_instance \<Rightarrow> u32 \<Rightarrow> 'd nmbm_instance option" where
  "mark_need_remap ni pb = do {
     (_, ni) \<leftarrow> nmbm_set_block_state ni pb BLOCK_ST_NEED_REMAP;
     (_, ni) \<leftarrow> nmbm_update_info_table ni;
     Some ni
   }"

text \<open>
  The body of \<open>nmbm_read_logic_page\<close>, for a destination \<open>dst\<close> that the physical read fills:
  the caller's buffers, or the page cache of the instance. What was read is in place
  before the info table is updated, which uses the page cache too.
\<close>

definition read_logic_page_with :: "('d nmbm_instance \<Rightarrow> u64 \<Rightarrow> 'b
      \<Rightarrow> (int \<times> 'b \<times> 'd nmbm_instance) option)
    \<Rightarrow> 'd nmbm_instance \<Rightarrow> u64 \<Rightarrow> 'b \<Rightarrow> (int \<times> 'b \<times> 'd nmbm_instance) option" where
  "read_logic_page_with read_phys ni addr dst = do {
     let lb = addr2ba ni addr;
     let offset = (ucast (addr AND ucast (ni_erasesize_mask ni)) :: u32);
     pb \<leftarrow> arr_get (ni_block_mapping ni) (unat lb);
     if sint pb < 0 then Some (- EIO, dst, ni)
     else do {
       st \<leftarrow> nmbm_get_block_state ni pb;
       if st = BLOCK_ST_BAD then Some (- EIO, dst, ni)
       else do {
         (ret, dst, ni) \<leftarrow> read_phys ni (ba2addr ni pb + ucast offset) dst;
         if ret = 0 then Some (0, dst, ni)
         else if ret > 0 then Some (1, dst, ni)
         else do {
           ni \<leftarrow> mark_need_remap ni pb;
           Some (- EIO, dst, ni)
         }
       }
     }
   }"

definition read_phys_to_buffers :: "nmbm_oob_mode \<Rightarrow> 'd nmbm_instance \<Rightarrow> u64
    \<Rightarrow> bytes option \<times> bytes option
    \<Rightarrow> (int \<times> (bytes option \<times> bytes option) \<times> 'd nmbm_instance) option" where
  "read_phys_to_buffers mode ni paddr = (\<lambda>(data, oob). do {
     (ret, data, oob, ni) \<leftarrow> nmbm_read_phys_page ni paddr data oob mode;
     Some (ret, (data, oob), ni)
   })"

definition read_phys_to_cache :: "nmbm_oob_mode \<Rightarrow> 'd nmbm_instance \<Rightarrow> u64 \<Rightarrow> unit
    \<Rightarrow> (int \<times> unit \<times> 'd nmbm_instance) option" where
  "read_phys_to_cache mode ni paddr u = do {
     (ret, ni) \<leftarrow> read_page_to_cache ni paddr mode;
     Some (ret, (), ni)
   }"

definition nmbm_read_logic_page :: "'d nmbm_instance \<Rightarrow> u64 \<Rightarrow> bytes option \<Rightarrow> bytes option
    \<Rightarrow> nmbm_oob_mode \<Rightarrow> (int \<times> (bytes option \<times> bytes option) \<times> 'd nmbm_instance) option" where
  "nmbm_read_logic_page ni addr data oob mode =
     read_logic_page_with (read_phys_to_buffers mode) ni addr (data, oob)"

definition read_logic_page_to_cache :: "'d nmbm_instance \<Rightarrow> u64 \<Rightarrow> nmbm_oob_mode
    \<Rightarrow> (int \<times> unit \<times> 'd nmbm_instance) option" where
  "read_logic_page_to_cache ni addr mode =
     read_logic_page_with (read_phys_to_cache mode) ni addr ()"

definition nmbm_read_single_page :: "'d nmbm_instance option \<Rightarrow> u64 \<Rightarrow> bytes option
    \<Rightarrow> bytes option \<Rightarrow> nmbm_oob_mode
    \<Rightarrow> (int \<times> (bytes option \<times> bytes option) \<times> 'd nmbm_instance option) option" where
  "nmbm_read_single_page nip addr data oob mode =
     (case nip of
        None \<Rightarrow> Some (- EINVAL, (data, oob), None)
      | Some ni \<Rightarrow>
          if ni_protected ni \<noteq> 0 then Some (- EROFS, (data, oob), Some ni)
          else if addr \<ge> ba2addr ni (ni_data_block_count ni)
          then Some (- EINVAL, (data, oob), Some ni)
          else do {
            (ret, bufs, ni) \<leftarrow> nmbm_read_logic_page ni addr data oob mode;
            Some (ret, bufs, Some ni)
          })"

text \<open>
  The loop of \<open>nmbm_read_range\<close>. Its variables are the instance, \<^verbatim>\<open>off\<close>, \<^verbatim>\<open>sizeremain\<close>, the
  caller's buffer and \<^verbatim>\<open>ret\<close>; it is left with \<^verbatim>\<open>ret\<close>, \<^verbatim>\<open>sizeremain\<close>, the buffer and the
  instance. The write pointer is at \<open>sz - sizeremain\<close>.
\<close>

definition read_range_body :: "u32 \<Rightarrow> nmbm_oob_mode \<Rightarrow> 'd nmbm_instance \<times> u64 \<times> u32 \<times> bytes \<times> int
    \<Rightarrow> (int \<times> u32 \<times> bytes \<times> 'd nmbm_instance
        + 'd nmbm_instance \<times> u64 \<times> u32 \<times> bytes \<times> int) option" where
  "read_range_body sz mode = (\<lambda>(ni, off, sizeremain, data, ret).
     if sizeremain \<noteq> 0 then do {
       let (leading, chunksize) = page_chunk ni off sizeremain;
       let ptr = unat (sz - sizeremain);
       (ret, data, ni) \<leftarrow>
         (if chunksize = ni_writesize ni then do {
            buf \<leftarrow> mem_read ptr (unat (ni_writesize ni)) data;
            (ret, bufs, ni) \<leftarrow> nmbm_read_logic_page ni (off - ucast leading) (Some buf) None mode;
            page \<leftarrow> fst bufs;
            data \<leftarrow> mem_write ptr page data;
            Some (ret, data, ni)
          } else do {
            (ret, _, ni) \<leftarrow> read_logic_page_to_cache ni (off - ucast leading) mode;
            if ret \<noteq> 0 then Some (ret, data, ni)
            else do {
              chunk \<leftarrow> mem_read (unat leading) (unat chunksize) (ni_page_cache ni);
              data \<leftarrow> mem_write ptr chunk data;
              Some (ret, data, ni)
            }
          });
       if ret \<noteq> 0 then Some (Inl (ret, sizeremain, data, ni))
       else Some (Inr (ni, off + ucast chunksize, sizeremain - chunksize, data, ret))
     } else Some (Inl (ret, sizeremain, data, ni)))"

definition nmbm_read_range :: "'d nmbm_instance option \<Rightarrow> u64 \<Rightarrow> u32 \<Rightarrow> bytes \<Rightarrow> nmbm_oob_mode
    \<Rightarrow> (int \<times> bytes \<times> u32 option \<times> 'd nmbm_instance option) option" where
  "nmbm_read_range nip addr sz data mode =
     (case nip of
        None \<Rightarrow> Some (- EINVAL, data, None, None)
      | Some ni \<Rightarrow>
          if ni_protected ni \<noteq> 0 then Some (- EROFS, data, None, Some ni)
          else if addr \<ge> ba2addr ni (ni_data_block_count ni)
          then Some (- EINVAL, data, None, Some ni)
          else if addr + ucast sz > ba2addr ni (ni_data_block_count ni)
          then Some (- EINVAL, data, None, Some ni)
          else if sz = 0 then Some (0, data, None, Some ni)
          else do {
            (ret, sizeremain, data, ni) \<leftarrow> loop (read_range_body sz mode) (ni, addr, sz, data, 0);
            Some (ret, data, Some (sz - sizeremain), Some ni)
          })"

section \<open>Writing\<close>

definition nmbm_write_logic_page :: "'d nmbm_instance \<Rightarrow> u64 \<Rightarrow> bytes option \<Rightarrow> bytes option
    \<Rightarrow> nmbm_oob_mode \<Rightarrow> (int \<times> 'd nmbm_instance) option" where
  "nmbm_write_logic_page ni addr data oob mode = do {
     let lb = addr2ba ni addr;
     let offset = (ucast (addr AND ucast (ni_erasesize_mask ni)) :: u32);
     pb \<leftarrow> arr_get (ni_block_mapping ni) (unat lb);
     if sint pb < 0 then Some (- EIO, ni)
     else do {
       st \<leftarrow> nmbm_get_block_state ni pb;
       if st = BLOCK_ST_BAD then Some (- EIO, ni)
       else do {
         (success, ni) \<leftarrow> nmbm_write_phys_page ni (ba2addr ni pb + ucast offset) data oob mode;
         if success then Some (0, ni)
         else do {
           ni \<leftarrow> mark_need_remap ni pb;
           Some (- EIO, ni)
         }
       }
     }
   }"

definition nmbm_write_single_page :: "'d nmbm_instance option \<Rightarrow> u64 \<Rightarrow> bytes option
    \<Rightarrow> bytes option \<Rightarrow> nmbm_oob_mode \<Rightarrow> (int \<times> 'd nmbm_instance option) option" where
  "nmbm_write_single_page nip addr data oob mode =
     (case nip of
        None \<Rightarrow> Some (- EINVAL, None)
      | Some ni \<Rightarrow>
          if ni_protected ni \<noteq> 0 then Some (- EROFS, Some ni)
          else if addr \<ge> ba2addr ni (ni_data_block_count ni) then Some (- EINVAL, Some ni)
          else do {
            (ret, ni) \<leftarrow> nmbm_write_logic_page ni addr data oob mode;
            Some (ret, Some ni)
          })"

definition write_range_body :: "u32 \<Rightarrow> bytes \<Rightarrow> nmbm_oob_mode \<Rightarrow> 'd nmbm_instance \<times> u64 \<times> u32 \<times> int
    \<Rightarrow> (int \<times> u32 \<times> 'd nmbm_instance + 'd nmbm_instance \<times> u64 \<times> u32 \<times> int) option" where
  "write_range_body sz data mode = (\<lambda>(ni, off, sizeremain, ret).
     if sizeremain \<noteq> 0 then do {
       let (leading, chunksize) = page_chunk ni off sizeremain;
       chunk \<leftarrow> mem_read (unat (sz - sizeremain)) (unat chunksize) data;
       (ret, ni) \<leftarrow>
         (if chunksize = ni_writesize ni
          then nmbm_write_logic_page ni (off - ucast leading) (Some chunk) None mode
          else do {
            cache \<leftarrow> mem_write 0 (replicate (unat leading) 0xff) (ni_page_cache ni);
            cache \<leftarrow> mem_write (unat leading) chunk cache;
            let ni = ni\<lparr>ni_page_cache := cache\<rparr>;
            page \<leftarrow> mem_read 0 (unat (ni_writesize ni)) (ni_page_cache ni);
            nmbm_write_logic_page ni (off - ucast leading) (Some page) None mode
          });
       if ret \<noteq> 0 then Some (Inl (ret, sizeremain, ni))
       else Some (Inr (ni, off + ucast chunksize, sizeremain - chunksize, ret))
     } else Some (Inl (ret, sizeremain, ni)))"

definition nmbm_write_range :: "'d nmbm_instance option \<Rightarrow> u64 \<Rightarrow> u32 \<Rightarrow> bytes \<Rightarrow> nmbm_oob_mode
    \<Rightarrow> (int \<times> u32 option \<times> 'd nmbm_instance option) option" where
  "nmbm_write_range nip addr sz data mode =
     (case nip of
        None \<Rightarrow> Some (- EINVAL, None, None)
      | Some ni \<Rightarrow>
          if ni_protected ni \<noteq> 0 then Some (- EROFS, None, Some ni)
          else if addr \<ge> ba2addr ni (ni_data_block_count ni)
          then Some (- EINVAL, None, Some ni)
          else if addr + ucast sz > ba2addr ni (ni_data_block_count ni)
          then Some (- EINVAL, None, Some ni)
          else if sz = 0 then Some (0, None, Some ni)
          else do {
            (ret, sizeremain, ni) \<leftarrow> loop (write_range_body sz data mode) (ni, addr, sz, 0);
            Some (ret, Some (sz - sizeremain), Some ni)
          })"

section \<open>Bad-block queries and the rest of the interface\<close>

definition nmbm_check_bad_block :: "'d nmbm_instance option \<Rightarrow> u64 \<Rightarrow> int option" where
  "nmbm_check_bad_block nip addr =
     (case nip of
        None \<Rightarrow> Some (- EINVAL)
      | Some ni \<Rightarrow>
          if addr \<ge> ba2addr ni (ni_data_block_count ni) then Some (- EINVAL)
          else do {
            pb \<leftarrow> arr_get (ni_block_mapping ni) (unat (addr2ba ni addr));
            if sint pb < 0 then Some 1
            else do {
              st \<leftarrow> nmbm_get_block_state ni pb;
              Some (if st = BLOCK_ST_BAD then 1 else 0)
            }
          })"

definition nmbm_mark_bad_block :: "'d nmbm_instance option \<Rightarrow> u64
    \<Rightarrow> (int \<times> 'd nmbm_instance option) option" where
  "nmbm_mark_bad_block nip addr =
     (case nip of
        None \<Rightarrow> Some (- EINVAL, None)
      | Some ni \<Rightarrow>
          if addr \<ge> ba2addr ni (ni_data_block_count ni) then Some (- EINVAL, Some ni)
          else do {
            let lb = addr2ba ni addr;
            pb \<leftarrow> arr_get (ni_block_mapping ni) (unat lb);
            if sint pb < 0 then Some (0, Some ni)
            else do {
              mapping \<leftarrow> arr_set (ni_block_mapping ni) (unat lb) (-1);
              ni \<leftarrow> mark_block_bad (ni\<lparr>ni_block_mapping := mapping\<rparr>) pb;
              (_, ni) \<leftarrow> nmbm_update_info_table ni;
              Some (0, Some ni)
            }
          })"

definition nmbm_get_avail_size :: "'d nmbm_instance option \<Rightarrow> u64" where
  "nmbm_get_avail_size nip =
     (case nip of None \<Rightarrow> 0
      | Some ni \<Rightarrow> push_bit (unat (ni_erasesize_shift ni)) (ucast (ni_data_block_count ni)))"

definition nmbm_get_lower_device :: "'d nmbm_instance option \<Rightarrow> bool
    \<Rightarrow> int \<times> 'd nmbm_lower_device option" where
  "nmbm_get_lower_device nip nld_given =
     (case nip of None \<Rightarrow> (- EINVAL, None)
      | Some ni \<Rightarrow> (0, if nld_given then Some (ni_lower ni) else None))"

section \<open>Attached instances\<close>

text \<open>
  The invariant of an attached instance: a well-formed layout, a block size that is the
  power of two of the shift, no more data blocks than blocks, and mapping entries that are
  either negative (no block) or blocks of the chip.
\<close>

definition attached :: "'d nmbm_instance \<Rightarrow> bool" where
  "attached ni \<longleftrightarrow> layout ni \<and> unat (ni_erasesize_shift ni) \<le> 31 \<and>
     unat (ni_erasesize ni) = 2 ^ unat (ni_erasesize_shift ni) \<and>
     ni_data_block_count ni \<le> ni_block_count ni \<and>
     (\<forall>pb\<in>set (ni_block_mapping ni). 0 \<le> sint pb \<longrightarrow> pb < ni_block_count ni)"

lemma attachedD:
  assumes "attached ni"
  shows "layout ni" "geom ni" "page_geom ni" "states_cover ni" "lower_ok (ni_lower ni)"
    "unat (ni_erasesize_shift ni) \<le> 31"
    "unat (ni_erasesize ni) = 2 ^ unat (ni_erasesize_shift ni)"
    "ni_data_block_count ni \<le> ni_block_count ni"
    "length (ni_block_mapping ni) = unat (ni_block_count ni)"
  using assms geomD [of ni] by (auto simp: attached_def layout_def)

lemma attached_mapping:
  "attached ni \<Longrightarrow> i < length (ni_block_mapping ni) \<Longrightarrow> 0 \<le> sint (ni_block_mapping ni ! i) \<Longrightarrow>
   ni_block_mapping ni ! i < ni_block_count ni"
  unfolding attached_def by (meson nth_mem)

lemma attached_keeps: "attached ni \<Longrightarrow> keeps ni ni' \<Longrightarrow> layout ni' \<Longrightarrow> attached ni'"
  by (simp add: attached_def keeps_def)

lemma layout_keeps:
  "layout ni \<Longrightarrow> retires ni ni' \<Longrightarrow> layout ni'"
  by (simp add: layout_def retires_fields)

lemma attached_retires: "attached ni \<Longrightarrow> retires ni ni' \<Longrightarrow> attached ni'"
  by (metis attached_keeps retires_keeps layout_keeps attachedD(1))

lemma layout_with_state [simp]: "layout (with_state b st ni) = layout ni"
  by (simp add: layout_def geom_def page_geom_def states_cover_def with_state_def)

lemma attached_with_state [simp]: "attached (with_state b st ni) = attached ni"
  by (simp add: attached_def) (simp add: with_state_def)

lemma attached_addr:
  assumes "attached ni" and "addr < ba2addr ni (ni_data_block_count ni)"
  shows "addr2ba ni addr < ni_data_block_count ni"
    "unat (addr2ba ni addr) < length (ni_block_mapping ni)"
proof -
  let ?n = "unat (ni_erasesize_shift ni)"
  have n: "?n \<le> 32" using attachedD(6) [OF assms(1)] by simp
  have "unat addr < unat (ni_data_block_count ni) * 2 ^ ?n"
    using assms(2) unat_ba2addr [OF n] by (simp add: word_less_nat_alt)
  then have lt: "unat addr div 2 ^ ?n < unat (ni_data_block_count ni)"
    by (simp add: less_mult_imp_div_less)
  then show l: "addr2ba ni addr < ni_data_block_count ni"
    using unat_u32_less [of "ni_data_block_count ni"]
    by (simp add: word_less_nat_alt unat_addr2ba)
  then show "unat (addr2ba ni addr) < length (ni_block_mapping ni)"
    using attachedD(8,9) [OF assms(1)] by (simp add: word_less_nat_alt word_le_nat_alt)
qed

section \<open>Remapping a block\<close>

text \<open>The good block the descending walk of \<open>nmbm_map_block\<close> finds: the highest one.\<close>

lemma map_block_walk:
  assumes "layout ni"
  shows "returns (nmbm_block_walk ni False (ni_mapping_blocks_top_ba ni) 0 (ni_mapping_blocks_ba ni))
    (\<lambda>r. case r of
       None \<Rightarrow> \<forall>b. ni_mapping_blocks_ba ni < b \<and> b \<le> ni_mapping_blocks_top_ba ni \<longrightarrow> \<not> good ni b
     | Some pb \<Rightarrow> ni_mapping_blocks_ba ni < pb \<and> pb \<le> ni_mapping_blocks_top_ba ni \<and> good ni pb \<and>
         (\<forall>b. pb < b \<and> b \<le> ni_mapping_blocks_top_ba ni \<longrightarrow> \<not> good ni b))"
proof -
  let ?low = "ni_mapping_blocks_ba ni" and ?top = "ni_mapping_blocks_top_ba ni"
  have l: "states_cover ni" "?top < ni_block_count ni" "?low < ni_block_count ni"
    using assms geomD(2) [of ni] by (auto simp: layout_def)
  have clip: "clip ni ?low = ?low" using l(3) by (auto simp: clip_def)
  define gs where "gs = filter (good ni) (blocks_down ?top ?low)"
  have walk: "nmbm_block_walk ni False ?top 0 ?low = Some (if gs = [] then None else Some (hd gs))"
    using l by (simp add: nmbm_block_walk_def walk_desc_eq clip nth_good_def gs_def hd_conv_nth Let_def)
  have mem: "b \<in> set gs \<longleftrightarrow> ?low < b \<and> b \<le> ?top \<and> good ni b" for b
    by (auto simp: gs_def set_blocks_down)
  have "sorted_wrt (>) (blocks_down ?top ?low)"
    unfolding blocks_down_def sorted_wrt_rev sorted_wrt_map
    by (rule sorted_wrt_mono_rel [OF _ sorted_wrt_upt])
      (use unat_u32_less [of ?top] in \<open>auto simp: word_less_nat_alt unat_of_nat mod_less\<close>)
  then have sorted: "sorted_wrt (>) gs" unfolding gs_def by (rule sorted_wrt_filter)
  show ?thesis
  proof (cases gs)
    case Nil
    with mem walk show ?thesis by auto
  next
    case (Cons pb rest)
    have "\<not> good ni b" if "pb < b" "b \<le> ?top" for b
    proof
      assume "good ni b"
      moreover have "?low < pb" using mem [of pb] Cons by simp
      ultimately have "b \<in> set gs" using that mem [of b] by simp
      with sorted Cons that show False by auto
    qed
    with mem [of pb] walk Cons show ?thesis by simp
  qed
qed


text \<open>What \<open>nmbm_map_block\<close> does to the instance when it succeeds and when it fails.\<close>

definition remaps :: "'d nmbm_instance \<Rightarrow> u32 \<Rightarrow> u32 \<Rightarrow> 'd nmbm_instance" where
  "remaps ni lb pb = ni\<lparr>ni_block_mapping := (ni_block_mapping ni)[unat lb := pb],
     ni_mapping_blocks_top_ba := ni_mapping_blocks_top_ba ni - 1,
     ni_block_mapping_changed := ni_block_mapping_changed ni + 1\<rparr>"

lemma map_block_wp [wp]:
  assumes "layout ni" and "unat lb < length (ni_block_mapping ni)"
    and "\<And>pb. ni_mapping_blocks_ba ni < pb \<Longrightarrow> pb \<le> ni_mapping_blocks_top_ba ni \<Longrightarrow> good ni pb \<Longrightarrow>
      (\<forall>b. pb < b \<and> b \<le> ni_mapping_blocks_top_ba ni \<longrightarrow> \<not> good ni b) \<Longrightarrow> Q (True, remaps ni lb pb)"
    and "\<And>ni'. layout ni' \<Longrightarrow> keeps ni ni' \<Longrightarrow>
      (\<forall>b. ni_mapping_blocks_ba ni < b \<and> b \<le> ni_mapping_blocks_top_ba ni \<longrightarrow> \<not> good ni b) \<Longrightarrow>
      Q (False, ni'\<lparr>ni_mapping_blocks_top_ba := ni_mapping_blocks_ba ni'\<rparr>)"
  shows "returns (nmbm_map_block ni lb) Q"
proof (cases "ni_mapping_blocks_ba ni = ni_mapping_blocks_top_ba ni")
  case True
  have "ni\<lparr>ni_mapping_blocks_top_ba := ni_mapping_blocks_ba ni\<rparr> = ni" by (simp add: True)
  moreover have "\<forall>b. ni_mapping_blocks_ba ni < b \<and> b \<le> ni_mapping_blocks_top_ba ni \<longrightarrow> \<not> good ni b"
    using True by (auto simp: not_le [symmetric])
  ultimately have "Q (False, ni)" using assms(4) [OF assms(1) keeps_refl] by (simp only:)
  then show ?thesis by (simp add: nmbm_map_block_def True)
next
  case False
  show ?thesis
    unfolding nmbm_map_block_def
    using map_block_walk [OF assms(1)] assms(2) False
    by (auto simp: remaps_def [symmetric] ret_simps split: option.splits elim!: returns_mono
        intro!: assms(3,4) update_info_table_wp [OF assms(1)])
qed

lemma layout_remaps:
  assumes "layout ni" and "ni_mapping_blocks_ba ni < pb" and "pb \<le> ni_mapping_blocks_top_ba ni"
  shows "layout (remaps ni lb pb)"
    "unat (ni_mapping_blocks_top_ba (remaps ni lb pb)) < unat (ni_mapping_blocks_top_ba ni)"
proof -
  let ?top = "ni_mapping_blocks_top_ba ni"
  have l: "0 < ni_mapping_blocks_ba ni" "?top < ni_block_count ni"
    using assms(1) by (simp_all add: layout_def)
  have "0 < ?top" using l assms by (auto simp: word_less_nat_alt word_le_nat_alt)
  then have "unat (?top - 1) = unat ?top - 1" by (intro unat_dec) auto
  then show "unat (ni_mapping_blocks_top_ba (remaps ni lb pb)) < unat ?top"
    using \<open>0 < ?top\<close> by (simp add: remaps_def word_less_nat_alt)
  have "0 < ?top - 1" "?top - 1 < ni_block_count ni"
    using \<open>unat (?top - 1) = unat ?top - 1\<close> l assms(2,3)
    by (auto simp: word_less_nat_alt word_le_nat_alt)
  then show "layout (remaps ni lb pb)"
    using assms(1) by (simp add: layout_def remaps_def geom_def page_geom_def states_cover_def)
qed

lemma attached_remaps:
  assumes "attached ni" and "ni_mapping_blocks_ba ni < pb" and "pb \<le> ni_mapping_blocks_top_ba ni"
  shows "attached (remaps ni lb pb)"
proof -
  have "ni_mapping_blocks_top_ba ni < ni_block_count ni" using attachedD(1) [OF assms(1)] by (simp add: layout_def)
  then have "pb < ni_block_count ni" using assms(3) by simp
  then show ?thesis
    using assms(1) layout_remaps(1) [OF attachedD(1) [OF assms(1)] assms(2,3), of lb]
      set_update_subset_insert [of "ni_block_mapping ni" "unat lb" pb]
    by (auto simp: attached_def) (auto simp: remaps_def)
qed

lemma attached_unmap:
  assumes "attached ni"
  shows "attached (ni\<lparr>ni_block_mapping := (ni_block_mapping ni)[i := -1]\<rparr>)"
  using assms set_update_subset_insert [of "ni_block_mapping ni" i "-1"]
  by (auto simp: attached_def layout_def geom_def page_geom_def states_cover_def)

lemma attached_top:
  "attached ni \<Longrightarrow> attached (ni\<lparr>ni_mapping_blocks_top_ba := ni_mapping_blocks_ba ni\<rparr>)"
  by (simp add: attached_def layout_def)

lemma update_attached_wp [wp]:
  assumes "attached ni" and "\<And>ok ni'. attached ni' \<Longrightarrow> keeps ni ni' \<Longrightarrow> Q (ok, ni')"
  shows "returns (nmbm_update_info_table ni) Q"
  using assms(1) by (auto intro!: update_info_table_wp attachedD assms(2) intro: attached_keeps)


section \<open>Erasing\<close>

text \<open>
  The states between which an erasure of logical block \<open>lb\<close> moves: a well-formed instance
  in which only the mapping of \<open>lb\<close> may have changed.
\<close>

definition erasing :: "u32 \<Rightarrow> 'd nmbm_instance \<Rightarrow> 'd nmbm_instance \<Rightarrow> bool" where
  "erasing lb ni0 ni \<longleftrightarrow> attached ni \<and> ni_block_count ni = ni_block_count ni0 \<and>
     ni_data_block_count ni = ni_data_block_count ni0 \<and>
     ni_erasesize_shift ni = ni_erasesize_shift ni0 \<and>
     length (ni_block_mapping ni) = length (ni_block_mapping ni0) \<and>
     (\<forall>i. i \<noteq> unat lb \<longrightarrow> ni_block_mapping ni ! i = ni_block_mapping ni0 ! i)"

lemma erasing_keeps: "erasing lb ni0 ni \<Longrightarrow> keeps ni ni' \<Longrightarrow> attached ni' \<Longrightarrow> erasing lb ni0 ni'"
  by (simp add: erasing_def keepsD)

lemma erasing_retires: "erasing lb ni0 ni \<Longrightarrow> retires ni ni' \<Longrightarrow> erasing lb ni0 ni'"
  by (metis erasing_keeps erasing_def retires_keeps attached_retires)

lemma erasing_retires_keeps:
  "erasing lb ni0 a \<Longrightarrow> retires a b \<Longrightarrow> keeps b c \<Longrightarrow> attached c \<Longrightarrow> erasing lb ni0 c"
  by (rule erasing_keeps [OF erasing_retires])

lemma erasing_with_state [simp]: "erasing lb ni0 (with_state b st ni) = erasing lb ni0 ni"
  by (simp add: erasing_def) (simp add: with_state_def)

lemma set_bad_unless_wp [wp]:
  assumes "states_cover ni" and "pb < ni_block_count ni"
    and "\<And>ni'. retires ni ni' \<Longrightarrow> Q ni'"
  shows "returns (set_bad_unless_need_remap ni pb) Q"
  using states_coverD [OF assms(1,2)] assms(3) retires_bad [OF assms(1,2)]
  by (auto simp: set_bad_unless_need_remap_def ret_simps)

lemma remap_logic_block_wp [wp]:
  assumes "erasing lb ni0 ni" and "unat lb < length (ni_block_mapping ni0)" and "pb < ni_block_count ni0"
    and "\<And>ni'. erasing lb ni0 ni' \<Longrightarrow> ni_block_mapping ni' ! unat lb = -1 \<Longrightarrow> Q (Inl (- EIO, ni'))"
    and "\<And>ni'. erasing lb ni0 ni' \<Longrightarrow>
      unat (ni_mapping_blocks_top_ba ni') < unat (ni_mapping_blocks_top_ba ni) \<Longrightarrow> Q (Inr ni')"
  shows "returns (remap_logic_block ni lb pb) Q"
proof -
  have attached: "attached ni" and len: "length (ni_block_mapping ni) = length (ni_block_mapping ni0)"
    and bc: "ni_block_count ni = ni_block_count ni0"
    using assms(1) by (simp_all add: erasing_def)
  have ok: "returns (set_bad_unless_need_remap (remaps ni lb b) pb \<bind>
        (\<lambda>ni. nmbm_update_info_table ni \<bind> (\<lambda>(_, ni). Some (Inr ni)))) Q"
    if "ni_mapping_blocks_ba ni < b" "b \<le> ni_mapping_blocks_top_ba ni" for b
  proof -
    have w: "attached (remaps ni lb b)" using attached_remaps [OF attached that] .
    have e: "erasing lb ni0 (remaps ni lb b)"
      using assms(1) w unfolding erasing_def by (simp add: remaps_def)
    have t: "unat (ni_mapping_blocks_top_ba (remaps ni lb b)) < unat (ni_mapping_blocks_top_ba ni)"
      using layout_remaps(2) [OF attachedD(1) [OF attached] that] .
    show ?thesis
      using w e t assms(3) bc attachedD(4) [OF w]
      by (auto simp: remaps_def [THEN arg_cong, of ni_block_count] retires_fields keepsD
          intro!: wp assms(5) intro: attached_retires erasing_retires_keeps)
  qed
  have fail: "returns (arr_set (ni_block_mapping x) (unat lb) (-1) \<bind>
       (\<lambda>mapping. set_bad_unless_need_remap (x\<lparr>ni_block_mapping := mapping\<rparr>) pb \<bind>
         (\<lambda>ni. nmbm_update_info_table ni \<bind> (\<lambda>(_, ni). Some (Inl (- EIO, ni)))))) Q"
    if l: "layout ni'" and k: "keeps ni ni'"
      and x: "x = ni'\<lparr>ni_mapping_blocks_top_ba := ni_mapping_blocks_ba ni'\<rparr>" for ni' x
  proof -
    have w: "attached x" using attached_keeps [OF attached k l] unfolding x by (rule attached_top)
    have e: "erasing lb ni0 x" using assms(1) w k by (simp add: erasing_def x keepsD)
    define y where "y = x\<lparr>ni_block_mapping := (ni_block_mapping x)[unat lb := -1]\<rparr>"
    have wy: "attached y" unfolding y_def using attached_unmap [OF w] .
    have ey: "erasing lb ni0 y" using e wy by (simp add: erasing_def y_def)
    have lb: "unat lb < length (ni_block_mapping x)" using e assms(2) by (simp add: erasing_def)
    then have "ni_block_mapping y ! unat lb = -1" "ni_block_count y = ni_block_count ni0"
      using e by (simp_all add: y_def erasing_def)
    then show ?thesis
      using wy ey assms(3) attachedD(4) [OF wy] lb
      by (auto simp: ret_simps retires_fields keepsD y_def [symmetric]
          intro!: wp assms(4) intro: attached_retires erasing_retires_keeps)
  qed
  show ?thesis
    unfolding remap_logic_block_def
    using assms(2) len ok fail attachedD(1) [OF attached] by (auto intro!: wp)
qed

definition erased :: "u32 \<Rightarrow> 'd nmbm_instance \<Rightarrow> int \<times> 'd nmbm_instance \<Rightarrow> bool" where
  "erased lb ni0 = (\<lambda>(ret, ni). erasing lb ni0 ni \<and>
     (let pb = ni_block_mapping ni ! unat lb in
      ret = 0 \<and> 0 \<le> sint pb \<and> blk (ni_block_state ni) pb \<noteq> BLOCK_ST_BAD \<and>
        blk (ni_block_state ni) pb \<noteq> BLOCK_ST_NEED_REMAP \<or>
      ret = - EIO \<and> sint pb < 0))"

lemma erasing_arg: "erasing lb ni0 ni \<Longrightarrow> erasing lb ni0 (ni\<lparr>ni_arg := d\<rparr>)"
  by (rule erasing_retires [OF _ retires_arg])

lemma erase_logic_block_erased:
  assumes "attached ni0" and "unat lb < length (ni_block_mapping ni0)"
  shows "returns (nmbm_erase_logic_block ni0 lb) (erased lb ni0)"
  unfolding nmbm_erase_logic_block_def
proof (rule loop_rule [where I = "erasing lb ni0" and m = "\<lambda>ni. unat (ni_mapping_blocks_top_ba ni)"],
    goal_cases)
  case 1
  show ?case using assms(1) by (simp add: erasing_def)
next
  case (2 ni)
  have att: "attached ni" and len: "length (ni_block_mapping ni) = length (ni_block_mapping ni0)"
    and bc: "ni_block_count ni = ni_block_count ni0" using 2 by (simp_all add: erasing_def)
  define pb where "pb = ni_block_mapping ni ! unat lb"
  have lb: "unat lb < length (ni_block_mapping ni)" using len assms(2) by simp
  show ?case
  proof (cases "sint pb < 0")
    case True
    with 2 lb show ?thesis by (simp add: erase_logic_body_def ret_simps pb_def erased_def Let_def)
  next
    case False
    then have pb: "pb < ni_block_count ni" using attached_mapping [OF att lb] by (simp add: pb_def)
    have remap: "returns (remap_logic_block ni' lb pb)
        (\<lambda>x. case x of Inl r \<Rightarrow> erased lb ni0 r
           | Inr s' \<Rightarrow> erasing lb ni0 s' \<and>
               unat (ni_mapping_blocks_top_ba s') < unat (ni_mapping_blocks_top_ba ni))"
      if "erasing lb ni0 ni'" "ni_mapping_blocks_top_ba ni' = ni_mapping_blocks_top_ba ni" for ni'
      using that pb bc assms(2) by (intro wp) (auto simp: erased_def Let_def)
    have mark: "returns (mark_block_bad (ni\<lparr>ni_arg := d\<rparr>) pb)
        (\<lambda>ni'. erasing lb ni0 ni' \<and> ni_mapping_blocks_top_ba ni' = ni_mapping_blocks_top_ba ni)" for d
      using attachedD(3,4) [OF att] pb erasing_arg [OF 2]
      by (intro wp) (auto simp: states_cover_def retires_fields intro: erasing_retires)
    have fin: "erased lb ni0 (0, ni\<lparr>ni_arg := d\<rparr>)"
      if "blk (ni_block_state ni) pb \<noteq> 0" "blk (ni_block_state ni) pb \<noteq> 2" for d
      using that False erasing_arg [OF 2, of d] by (simp add: erased_def Let_def pb_def)
    show ?thesis
      using lb False remap [OF 2 refl] states_coverD [OF attachedD(4) [OF att] pb] attachedD(5) [OF att]
      by (auto simp: erase_logic_body_def ret_simps pb_def [symmetric]
          intro!: erase_phys_block_wp fin returns_mono [OF mark] remap)
  qed
qed

lemma erased_iff:
  "erased lb ni0 (ret, ni) \<longleftrightarrow> erasing lb ni0 ni \<and>
     (ret = 0 \<and> 0 \<le> sint (ni_block_mapping ni ! unat lb) \<and>
        blk (ni_block_state ni) (ni_block_mapping ni ! unat lb) \<noteq> BLOCK_ST_BAD \<and>
        blk (ni_block_state ni) (ni_block_mapping ni ! unat lb) \<noteq> BLOCK_ST_NEED_REMAP \<or>
      ret = - EIO \<and> sint (ni_block_mapping ni ! unat lb) < 0)"
  by (simp add: erased_def Let_def)

text \<open>Where an erasure of the blocks \<open>first\<close> to \<open>lst\<close> may change the mapping.\<close>

definition erasing_range :: "u32 \<Rightarrow> u32 \<Rightarrow> 'd nmbm_instance \<Rightarrow> 'd nmbm_instance \<Rightarrow> bool" where
  "erasing_range first lst ni0 ni \<longleftrightarrow> attached ni \<and> ni_block_count ni = ni_block_count ni0 \<and>
     ni_data_block_count ni = ni_data_block_count ni0 \<and>
     ni_erasesize_shift ni = ni_erasesize_shift ni0 \<and>
     length (ni_block_mapping ni) = length (ni_block_mapping ni0) \<and>
     (\<forall>i. i < unat first \<or> unat lst < i \<longrightarrow> ni_block_mapping ni ! i = ni_block_mapping ni0 ! i)"

lemma erasing_range_step:
  "erasing_range first lst ni0 ni \<Longrightarrow> erasing lb ni ni' \<Longrightarrow> first \<le> lb \<Longrightarrow> lb \<le> lst \<Longrightarrow>
   erasing_range first lst ni0 ni'"
  by (auto simp: erasing_range_def erasing_def word_le_nat_alt)

lemma erase_blocks_loop:
  assumes "attached ni0" and "lst < ni_data_block_count ni0"
  shows "returns (loop (erase_blocks_body lst) (ni0, first)) (\<lambda>(ret, failed_addr, ni).
    erasing_range first lst ni0 ni \<and>
    (ret = 0 \<and> failed_addr = None \<and> (\<forall>j. unat first \<le> j \<and> j \<le> unat lst \<longrightarrow> 0 \<le> sint (ni_block_mapping ni ! j)) \<or>
     ret = - EIO \<and> (\<exists>lb. first \<le> lb \<and> lb \<le> lst \<and> failed_addr = Some (ba2addr ni0 lb) \<and>
        sint (ni_block_mapping ni ! unat lb) < 0 \<and>
        (\<forall>j. unat first \<le> j \<and> j < unat lb \<longrightarrow> 0 \<le> sint (ni_block_mapping ni ! j)) \<and>
        (\<forall>j. unat lb < j \<longrightarrow> ni_block_mapping ni ! j = ni_block_mapping ni0 ! j))))"
proof (rule loop_rule [where m = "\<lambda>(_, b). Suc (unat lst) - unat b" and
      I = "\<lambda>(ni, b). erasing_range first lst ni0 ni \<and> first \<le> b \<and>
        (\<forall>j. unat first \<le> j \<and> j < unat b \<longrightarrow> 0 \<le> sint (ni_block_mapping ni ! j)) \<and>
        (\<forall>j. unat b \<le> j \<longrightarrow> ni_block_mapping ni ! j = ni_block_mapping ni0 ! j)"], goal_cases)
  case 1
  show ?case using assms(1) by (simp add: erasing_range_def)
next
  case (2 s)
  obtain ni b where s: "s = (ni, b)" by (cases s)
  have er: "erasing_range first lst ni0 ni" and fb: "first \<le> b"
    and prev: "\<forall>j. unat first \<le> j \<and> j < unat b \<longrightarrow> 0 \<le> sint (ni_block_mapping ni ! j)"
    and rest: "\<forall>j. unat b \<le> j \<longrightarrow> ni_block_mapping ni ! j = ni_block_mapping ni0 ! j" using 2 by (simp_all add: s)
  then have att: "attached ni" and bc: "ni_data_block_count ni = ni_data_block_count ni0"
    and sh: "ni_erasesize_shift ni = ni_erasesize_shift ni0" by (simp_all add: erasing_range_def)
  show ?case
  proof (cases "b \<le> lst")
    case False
    with er prev show ?thesis by (auto simp: s erase_blocks_body_def word_le_nat_alt)
  next
    case True
    have "b < ni_data_block_count ni" using True assms(2) bc by simp
    then have lb: "unat b < length (ni_block_mapping ni)"
      using attachedD(8,9) [OF att] by (simp add: word_less_nat_alt word_le_nat_alt)
    have inc: "unat (b + 1) = Suc (unat b)" using True assms(2) by (intro unat_inc [of b "ni_data_block_count ni0"]) simp
    have adv: "first \<le> b + 1" "Suc (unat lst) - unat (b + 1) < Suc (unat lst) - unat b"
      using inc fb True by (simp_all add: word_le_nat_alt)
    have "returns (nmbm_erase_logic_block ni b) (\<lambda>(ret, ni'). erasing_range first lst ni0 ni' \<and>
        (\<forall>j. j \<noteq> unat b \<longrightarrow> ni_block_mapping ni' ! j = ni_block_mapping ni ! j) \<and>
        (ret = 0 \<and> 0 \<le> sint (ni_block_mapping ni' ! unat b) \<or> ret = - EIO \<and> sint (ni_block_mapping ni' ! unat b) < 0))"
      using erase_logic_block_erased [OF att lb] erasing_range_step [OF er _ fb True]
      by (auto simp: erased_iff erasing_def elim!: returns_mono)
    then show ?thesis
      unfolding s
    proof (clarsimp simp: erase_blocks_body_def True ba2addr_def sh, elim returns_mono, goal_cases)
      case (1 x)
      obtain ret ni' where x: "x = (ret, ni')" by (cases x)
      have same: "ni_block_mapping ni' ! j = ni_block_mapping ni ! j" if "j \<noteq> unat b" for j using 1 that by (simp add: x)
      consider "ret = 0" "0 \<le> sint (ni_block_mapping ni' ! unat b)" | "ret = - EIO" "sint (ni_block_mapping ni' ! unat b) < 0"
        using 1 by (auto simp: x)
      then show ?case
      proof cases
        case a: 1
        have "0 \<le> sint (ni_block_mapping ni' ! j)" if "unat first \<le> j" "j < Suc (unat b)" for j
          using that prev same a(2) by (cases "j = unat b") auto
        then show ?thesis using 1 a adv inc rest same by (auto simp: x)
      next
        case a: 2
        then show ?thesis using 1 fb True prev rest same by (auto simp: x ba2addr_def erasing_range_def intro!: exI [of _ b])
      qed
    qed
  qed
qed

lemma last_block:
  assumes "attached ni" and "addr < ba2addr ni (ni_data_block_count ni)"
    and "unat addr + unat sz < 2 ^ 64" and "sz \<noteq> 0"
    and "\<not> ba2addr ni (ni_data_block_count ni) < addr + sz"
  shows "addr2ba ni (addr + sz - 1) < ni_data_block_count ni"
proof -
  have s: "unat (addr + sz) = unat addr + unat sz" using assms(3) by (simp add: unat_word_ariths)
  have "0 < unat sz" using assms(4) by (simp add: unat_gt_0)
  then have "unat (addr + sz - 1) < unat (addr + sz)"
    using s by (intro unat_pred_less) (simp add: word_less_nat_alt)
  then have "addr + sz - 1 < ba2addr ni (ni_data_block_count ni)"
    using assms(5) by (simp add: word_less_nat_alt)
  then show ?thesis by (rule attached_addr(1) [OF assms(1)])
qed

section \<open>Reading and writing\<close>

text \<open>What reads and writes leave alone: the mapping and the geometry.\<close>

definition serves :: "'d nmbm_instance \<Rightarrow> 'd nmbm_instance \<Rightarrow> bool" where
  "serves ni ni' \<longleftrightarrow> attached ni' \<and> ni_lower ni' = ni_lower ni \<and>
     ni_block_mapping ni' = ni_block_mapping ni \<and> ni_block_count ni' = ni_block_count ni \<and>
     ni_data_block_count ni' = ni_data_block_count ni \<and>
     ni_erasesize_shift ni' = ni_erasesize_shift ni \<and>
     length (ni_page_cache ni') = length (ni_page_cache ni)"

lemma serves_refl: "attached ni \<Longrightarrow> serves ni ni"
  by (simp add: serves_def)

lemma serves_trans: "serves a b \<Longrightarrow> serves b c \<Longrightarrow> serves a c"
  by (simp add: serves_def)

lemma serves_keeps: "attached ni' \<Longrightarrow> keeps ni ni' \<Longrightarrow> serves ni ni'"
  by (simp add: serves_def keeps_def)

lemma serves_retires: "attached ni \<Longrightarrow> retires ni ni' \<Longrightarrow> serves ni ni'"
  by (blast intro: serves_keeps retires_keeps attached_retires)

lemma serves_with_state: "serves ni ni' \<Longrightarrow> serves ni (with_state b st ni')"
  by (simp add: serves_def) (simp add: with_state_def)

lemma mark_need_remap_wp [wp]:
  assumes "serves ni0 ni" and "pb < ni_block_count ni0" and "\<And>ni'. serves ni0 ni' \<Longrightarrow> Q ni'"
  shows "returns (mark_need_remap ni pb) Q"
proof -
  have att: "attached ni" and "ni_block_count ni = ni_block_count ni0"
    using assms(1) by (simp_all add: serves_def)
  then have cov: "unat pb < 16 * length (ni_block_state ni)"
    using assms(2) states_coverD [OF attachedD(4) [OF att]] by simp
  have "serves ni0 ni'" if "attached ni'" "keeps (with_state pb 2 ni) ni'" for ni'
    using serves_trans [OF serves_with_state [OF assms(1)] serves_keeps [OF that]] .
  with cov att show ?thesis
    by (auto simp: mark_need_remap_def ret_simps intro!: update_attached_wp assms(3))
qed

text \<open>
  The contract of a physical page read, whatever its destination: it returns, keeps the
  shape of the destination, and touches only the chip and the page cache. It is provided
  by the read into the caller's buffers and by the read into the page cache.
\<close>

locale page_reader =
  fixes rd :: "'d nmbm_instance \<Rightarrow> u64 \<Rightarrow> 'b \<Rightarrow> (int \<times> 'b \<times> 'd nmbm_instance) option"
    and shape :: "'b \<Rightarrow> 'b \<Rightarrow> bool"
  assumes rd_total: "attached ni \<Longrightarrow>
      returns (rd ni addr dst) (\<lambda>(ret, dst', ni'). shape dst dst' \<and> retires ni ni')"
    and shape_refl: "shape dst dst"
begin

lemma read_page_total:
  assumes "attached ni" and "unat (addr2ba ni addr) < length (ni_block_mapping ni)"
  shows "returns (read_logic_page_with rd ni addr dst) (\<lambda>(ret, dst', ni').
    (ret = 0 \<or> ret = 1 \<or> ret = - EIO) \<and> shape dst dst' \<and> serves ni ni')"
proof -
  define pb where "pb = ni_block_mapping ni ! unat (addr2ba ni addr)"
  show ?thesis
  proof (cases "sint pb < 0")
    case True
    with assms show ?thesis
      by (simp add: read_logic_page_with_def ret_simps Let_def pb_def shape_refl serves_refl)
  next
    case False
    then have pb: "pb < ni_block_count ni" using attached_mapping [OF assms] by (simp add: pb_def)
    show ?thesis
      using assms(2) False states_coverD [OF attachedD(4) [OF assms(1)] pb] shape_refl
        serves_refl [OF assms(1)]
      by (auto simp: read_logic_page_with_def ret_simps Let_def pb_def [symmetric]
          intro!: returns_mono [OF rd_total [OF assms(1)]] mark_need_remap_wp [OF _ pb]
          intro: serves_retires [OF assms(1)])
  qed
qed

end

interpretation buf_reader: page_reader "read_phys_to_buffers mode"
  "\<lambda>(data, oob) (data', oob'). map_option length data' = map_option length data \<and>
     map_option length oob' = map_option length oob" for mode
  by unfold_locales
    (auto simp: read_phys_to_buffers_def attachedD retires_arg intro!: wp split: prod.splits)

interpretation cache_reader: page_reader "read_phys_to_cache mode" "\<lambda>_ _. True" for mode
  by unfold_locales
    (auto simp: read_phys_to_cache_def attachedD intro!: wp retires_phys)

abbreviation io_result :: "int \<Rightarrow> bool" where
  "io_result ret \<equiv> ret = 0 \<or> ret = 1 \<or> ret = - EIO"

lemma read_logic_page_wp [wp]:
  assumes "attached ni" and "unat (addr2ba ni addr) < length (ni_block_mapping ni)"
    and "\<And>ret data' oob' ni'. io_result ret \<Longrightarrow> map_option length data' = map_option length data \<Longrightarrow>
      map_option length oob' = map_option length oob \<Longrightarrow> serves ni ni' \<Longrightarrow> Q (ret, (data', oob'), ni')"
  shows "returns (nmbm_read_logic_page ni addr data oob mode) Q"
  unfolding nmbm_read_logic_page_def
  using buf_reader.read_page_total [OF assms(1,2), of mode "(data, oob)"]
  by (rule returns_mono) (auto intro: assms(3))

lemma read_logic_page_to_cache_wp [wp]:
  assumes "attached ni" and "unat (addr2ba ni addr) < length (ni_block_mapping ni)"
    and "\<And>ret ni'. io_result ret \<Longrightarrow> serves ni ni' \<Longrightarrow> Q (ret, (), ni')"
  shows "returns (read_logic_page_to_cache ni addr mode) Q"
  unfolding read_logic_page_to_cache_def
  using cache_reader.read_page_total [OF assms(1,2), of mode "()"]
  by (rule returns_mono) (auto intro: assms(3))

lemma write_logic_page_wp [wp]:
  assumes "attached ni" and "unat (addr2ba ni addr) < length (ni_block_mapping ni)"
    and "\<And>ret ni'. ret = 0 \<or> ret = - EIO \<Longrightarrow> serves ni ni' \<Longrightarrow> Q (ret, ni')"
  shows "returns (nmbm_write_logic_page ni addr data oob mode) Q"
proof -
  define pb where "pb = ni_block_mapping ni ! unat (addr2ba ni addr)"
  have arg: "serves ni (ni\<lparr>ni_arg := d\<rparr>)" for d
    by (rule serves_retires [OF assms(1) retires_arg])
  show ?thesis
  proof (cases "sint pb < 0")
    case True
    with assms show ?thesis
      by (simp add: nmbm_write_logic_page_def ret_simps Let_def pb_def serves_refl)
  next
    case False
    then have pb: "pb < ni_block_count ni" using attached_mapping [OF assms(1,2)] by (simp add: pb_def)
    show ?thesis
      using assms(2,3) False states_coverD [OF attachedD(4) [OF assms(1)] pb]
        serves_refl [OF assms(1)] attachedD(5) [OF assms(1)] arg
      by (auto simp: nmbm_write_logic_page_def ret_simps Let_def pb_def [symmetric]
          intro!: write_phys_page_wp mark_need_remap_wp [OF _ pb])
  qed
qed

text \<open>The blocks a transfer of \<open>sz\<close> bytes at \<open>addr\<close> touches are data blocks.\<close>

lemma page_start:
  assumes "attached ni" and "page_chunk ni off sr = (leading, chunk)" and "sr \<noteq> 0"
    and "off < ba2addr ni (ni_data_block_count ni)"
  shows "unat (addr2ba ni (off - ucast leading)) < length (ni_block_mapping ni)"
proof -
  have "leading = ucast (off AND ucast (ni_writesize_mask ni))"
    using assms(2) by (simp add: page_chunk_def Let_def)
  moreover have "unat (off AND ucast (ni_writesize_mask ni)) \<le> unat off"
    using word_and_le2 [of off "ucast (ni_writesize_mask ni)"] by (simp add: word_le_nat_alt)
  ultimately have "ucast leading \<le> off"
    by (simp add: word_le_nat_alt unat_ucast_u32)
  then have "off - ucast leading \<le> off" by (simp add: word_le_nat_alt unat_sub)
  then have "off - ucast leading < ba2addr ni (ni_data_block_count ni)" using assms(4) by simp
  then show ?thesis by (rule attached_addr(2) [OF assms(1)])
qed

text \<open>
  One turn of a ranged transfer: the position \<open>off\<close> and what is left, \<open>sr\<close>, stay inside the
  data area, whose size is a multiple of the page.
\<close>

definition in_range :: "'d nmbm_instance \<Rightarrow> u64 \<Rightarrow> u32 \<Rightarrow> bool" where
  "in_range ni off sr \<longleftrightarrow>
     unat off + unat sr \<le> unat (ba2addr ni (ni_data_block_count ni))"

lemma in_rangeD:
  "in_range ni off sr \<Longrightarrow> sr \<noteq> 0 \<Longrightarrow> off < ba2addr ni (ni_data_block_count ni)"
  using unat_gt_0 [of sr] by (auto simp: in_range_def word_less_nat_alt)

lemma in_range_step:
  assumes "in_range ni off sr" and "unat chunk \<le> unat sr"
    and "unat (sr - chunk) = unat sr - unat chunk"
  shows "in_range ni (off + ucast chunk) (sr - chunk)"
proof -
  have "unat off + unat chunk < 2 ^ 64"
    using assms(1,2) unat_less_len [of "ba2addr ni (ni_data_block_count ni)"]
    unfolding in_range_def by simp
  then have "unat (off + ucast chunk) = unat off + unat chunk"
    by (simp add: unat_word_ariths)
  with assms show ?thesis by (simp add: in_range_def)
qed

lemma in_range_serves: "serves ni0 ni \<Longrightarrow> in_range ni off sr = in_range ni0 off sr"
  by (simp add: in_range_def serves_def ba2addr_def)

text \<open>Two buffers agree from a position on.\<close>

definition same_behind :: "nat \<Rightarrow> bytes \<Rightarrow> bytes \<Rightarrow> bool" where
  "same_behind k d' d \<longleftrightarrow> drop k d' = drop k d"

lemma same_behind_refl [simp]: "same_behind k d d"
  by (simp add: same_behind_def)

lemma same_behind_mono:
  assumes "same_behind j d' d" and "j \<le> k"
  shows "same_behind k d' d"
proof -
  have "drop k x = drop (k - j) (drop j x)" for x :: bytes using assms(2) by simp
  then show ?thesis using assms(1) unfolding same_behind_def by metis
qed

lemma same_behind_put:
  assumes "same_behind p d' d" and "p + length c \<le> length d'" and "p + length c \<le> k"
  shows "same_behind k (take p d' @ c @ drop (p + length c) d') d"
proof -
  obtain j where j: "k = p + length c + j" using assms(3) le_Suc_ex by blast
  have "drop k (take p d' @ c @ drop (p + length c) d') = drop k d'" using assms(2) by (simp add: j add.commute add.left_commute)
  then show ?thesis using same_behind_mono [OF assms(1), of k] assms(3) by (simp add: same_behind_def)
qed

lemma read_range_loop:
  assumes "attached ni0" and "in_range ni0 addr sz" and "unat sz \<le> length data"
  shows "returns (loop (read_range_body sz mode) (ni0, addr, sz, data, 0)) (\<lambda>(ret, left, data', ni).
    serves ni0 ni \<and> io_result ret \<and> (ret = 0 \<longleftrightarrow> left = 0) \<and> left \<le> sz \<and> length data' = length data \<and>
    same_behind (min (unat sz) (unat sz - unat left + unat (ni_writesize ni0))) data' data)"
proof (rule loop_rule [where m = "\<lambda>(_, _, sr, _, _). unat sr" and
      I = "\<lambda>(ni, off, sr, data', ret). serves ni0 ni \<and> in_range ni0 off sr \<and> sr \<le> sz \<and>
        length data' = length data \<and> ret = 0 \<and> same_behind (unat sz - unat sr) data' data"], goal_cases)
  case 1
  show ?case using assms by (simp add: serves_refl)
next
  case (2 s)
  obtain ni off sr data' ret where s: "s = (ni, off, sr, data', ret)" by (cases s)
  have srv: "serves ni0 ni" and rng: "in_range ni0 off sr" and sr: "sr \<le> sz"
    and len': "length data' = length data" and beh: "same_behind (unat sz - unat sr) data' data"
    using 2 by (simp_all add: s)
  then have att: "attached ni" and len: "length (ni_page_cache ni) = length (ni_page_cache ni0)"
    by (simp_all add: serves_def)
  show ?case
  proof (cases "sr = 0")
    case True
    with 2 show ?thesis by (simp add: s read_range_body_def)
  next
    case False
    obtain leading chunk where pc: "page_chunk ni off sr = (leading, chunk)"
      by (cases "page_chunk ni off sr")
    note b = page_chunk_bounds [OF attachedD(3) [OF att] pc False]
    have rng': "in_range ni off sr" using rng in_range_serves [OF srv] by simp
    have lb: "unat (addr2ba ni (off - ucast leading)) < length (ni_block_mapping ni)"
      by (rule page_start [OF att pc False in_rangeD [OF rng' False]])
    have nxt: "in_range ni0 (off + ucast chunk) (sr - chunk)" by (rule in_range_step [OF rng b(3,4)])
    have "sr - chunk \<le> sz" "unat sz + unat chunk - unat sr \<le> length data"
      using b sr assms(3) by (auto simp: word_le_nat_alt)
    moreover have "serves ni0 ni'" if "serves ni ni'" for ni' using serves_trans [OF srv that] .
    moreover have "unat leading + unat chunk \<le> length (ni_page_cache ni')" if "serves ni ni'" for ni'
      using that b(1) page_geomD(9) [OF attachedD(3) [OF att]] by (simp add: serves_def)
    moreover have "min (length (ni_page_cache ni') - unat leading) (unat chunk) = unat chunk" if "serves ni ni'" for ni'
      using that b(1) page_geomD(9) [OF attachedD(3) [OF att]] by (simp add: serves_def)
    moreover have ws: "ni_writesize ni0 = ni_writesize ni" using srv by (simp add: serves_def)
    have put: "same_behind (unat sz - (unat sr - unat chunk)) (take (unat sz - unat sr) data' @ c @ drop (unat sz - unat sr + length c) data') data"
      "unat chunk = unat (ni_writesize ni) \<Longrightarrow>
        same_behind (min (unat sz) (unat sz - unat sr + unat (ni_writesize ni))) (take (unat sz - unat sr) data' @ c @ drop (unat sz - unat sr + length c) data') data"
      if "length c = unat chunk" for c
      using that b sr assms(3) len' by (intro same_behind_put [OF beh]; auto simp: word_le_nat_alt)+
    have same: "same_behind (min (unat sz) (unat sz - unat sr + unat (ni_writesize ni))) data' data" by (rule same_behind_mono [OF beh]) simp
    note put same ws
    ultimately show ?thesis
      using 2 False b nxt unat_remaining [OF sr] lb att
      by (auto simp: s read_range_body_def pc ret_simps Let_def intro!: wp)
  qed
qed

lemma serves_cache:
  assumes "attached ni" and "length c = length (ni_page_cache ni)"
  shows "serves ni (ni\<lparr>ni_page_cache := c\<rparr>)"
proof -
  have "ni\<lparr>ni_page_cache := c\<rparr> = ni\<lparr>ni_arg := ni_arg ni, ni_page_cache := c\<rparr>" by simp
  then show ?thesis
    using serves_retires [OF assms(1) retires_phys [OF assms(2), of "ni_arg ni"]] by simp
qed

lemma write_range_loop:
  assumes "attached ni0" and "in_range ni0 addr sz" and "unat sz \<le> length data"
  shows "returns (loop (write_range_body sz data mode) (ni0, addr, sz, 0)) (\<lambda>(ret, left, ni).
    serves ni0 ni \<and> (ret = 0 \<or> ret = - EIO) \<and> (ret = 0 \<longleftrightarrow> left = 0) \<and> left \<le> sz)"
proof (rule loop_rule [where m = "\<lambda>(_, _, sr, _). unat sr" and
      I = "\<lambda>(ni, off, sr, ret). serves ni0 ni \<and> in_range ni0 off sr \<and> sr \<le> sz \<and> ret = 0"], goal_cases)
  case 1
  show ?case using assms by (simp add: serves_refl)
next
  case (2 s)
  obtain ni off sr ret where s: "s = (ni, off, sr, ret)" by (cases s)
  have srv: "serves ni0 ni" and rng: "in_range ni0 off sr" and sr: "sr \<le> sz"
    using 2 by (simp_all add: s)
  then have att: "attached ni" by (simp add: serves_def)
  show ?case
  proof (cases "sr = 0")
    case True
    with 2 show ?thesis by (simp add: s write_range_body_def)
  next
    case False
    obtain leading chunk where pc: "page_chunk ni off sr = (leading, chunk)"
      by (cases "page_chunk ni off sr")
    note b = page_chunk_bounds [OF attachedD(3) [OF att] pc False]
    have rng': "in_range ni off sr" using rng in_range_serves [OF srv] by simp
    have lb: "unat (addr2ba ni (off - ucast leading)) < length (ni_block_mapping ni)"
      by (rule page_start [OF att pc False in_rangeD [OF rng' False]])
    have nxt: "in_range ni0 (off + ucast chunk) (sr - chunk)" by (rule in_range_step [OF rng b(3,4)])
    have cache: "unat leading + unat chunk \<le> length (ni_page_cache ni)"
      "unat (ni_writesize ni) \<le> length (ni_page_cache ni)"
      using b(1) page_geomD(9) [OF attachedD(3) [OF att]] by simp_all
    have "sr - chunk \<le> sz" "unat sz + unat chunk - unat sr \<le> length data"
      using b sr assms(3) by (auto simp: word_le_nat_alt)
    moreover have "serves ni0 ni'" if "serves ni ni'" for ni' using serves_trans [OF srv that] .
    moreover have "attached (ni\<lparr>ni_page_cache := c\<rparr>)"
      if "length c = length (ni_page_cache ni)" for c
      using serves_cache [OF att that] by (simp add: serves_def)
    moreover have via_cache: "serves ni0 ni'"
      if "serves (ni\<lparr>ni_page_cache := c\<rparr>) ni'" "length c = length (ni_page_cache ni)" for c ni'
      using serves_trans [OF srv serves_trans [OF serves_cache [OF att that(2)] that(1)]] .
    ultimately show ?thesis
      using 2 False b nxt unat_remaining [OF sr] lb att cache
      by (auto simp: s write_range_body_def pc ret_simps addr2ba_def [of "ni\<lparr>ni_page_cache := c\<rparr>" for c]
          addr2ba_def [of ni] intro!: wp dest!: via_cache)
  qed
qed

text \<open>A ranged transfer that stops early did what the transfer of the bytes before the stop does.\<close>

lemma page_chunk_prefix:
  assumes "page_chunk ni off sr = (leading, chunk)" and "left \<le> sr - chunk"
  shows "chunk \<le> sr" "page_chunk ni off (sr - left) = (leading, chunk)" "left \<le> sr" "left = sr \<Longrightarrow> chunk = 0"
proof -
  define w where "w = ni_writesize ni - leading"
  have lead: "leading = ucast (off AND ucast (ni_writesize_mask ni))"
    and chunk: "chunk = (if w > sr then sr else w)"
    using assms(1) by (auto simp: page_chunk_def Let_def w_def)
  show le: "chunk \<le> sr" by (simp add: chunk not_less)
  then have u: "unat left \<le> unat sr - unat chunk" using assms(2) by (simp add: word_le_nat_alt unat_sub)
  then show l: "left \<le> sr" by (simp add: word_le_nat_alt)
  then have s: "unat (sr - left) = unat sr - unat left" by (simp add: word_le_nat_alt unat_sub)
  have "(if w > sr - left then sr - left else w) = chunk"
  proof (cases "w > sr")
    case True
    with u have "left = 0" by (simp add: chunk word_unat_eq_iff)
    with True show ?thesis by (simp add: chunk)
  next
    case False
    with u s le have "\<not> w > sr - left" by (auto simp: chunk word_less_nat_alt word_le_nat_alt)
    with False show ?thesis by (simp add: chunk)
  qed
  then show "page_chunk ni off (sr - left) = (leading, chunk)"
    by (auto simp: page_chunk_def Let_def lead [symmetric] w_def [symmetric] split: if_splits)
  show "left = sr \<Longrightarrow> chunk = 0" using u le by (auto simp: word_le_nat_alt word_unat_eq_iff)
qed

lemma write_range_prefix:
  fixes ni :: "'a nmbm_instance"
  assumes "loop (write_range_body sz data mode) (ni, off, sr, 0) = Some (ret, left, ni')"
  shows "left \<le> sr \<and> (\<exists>ni''. loop (write_range_body (sz - left) data mode) (ni, off, sr - left, 0) = Some (0, 0, ni''))"
proof -
  define P :: "_ \<Rightarrow> int \<times> u32 \<times> 'a nmbm_instance \<Rightarrow> bool" where
    "P = (\<lambda>(ni :: 'a nmbm_instance, off :: u64, sr :: u32, r :: int) (ret, left, ni'). r = 0 \<longrightarrow> left \<le> sr \<and>
    (\<exists>ni''. loop (write_range_body (sz - left) data mode) (ni, off, sr - left, 0) = Some (0, 0, ni'')))"
  have "P (ni, off, sr, 0) (ret, left, ni')"
  proof (rule loop_result_induct [OF assms, where P = P], goal_cases)
    case (1 s r)
    obtain ni off sr ro ret left ni' where s: "s = (ni, off, sr, ro)" and r: "r = (ret, left, ni')" by (cases s, cases r)
    have "left = sr"
      using 1 by (auto simp: s r write_range_body_def bind_eq_Some_conv Let_def split: if_splits prod.splits)
    moreover have "loop (write_range_body (sz - left) data mode) (ni, off, 0, 0) = Some (0, 0, ni)"
      by (rule loop_leave) (simp add: write_range_body_def)
    ultimately show ?case by (auto simp: P_def s r)
  next
    case (2 s s' r)
    obtain ni off sr ro ret left ni' where s: "s = (ni, off, sr, ro)" and r: "r = (ret, left, ni')" by (cases s, cases r)
    obtain leading chunk where pc: "page_chunk ni off sr = (leading, chunk)" by (cases "page_chunk ni off sr")
    from 2(1) pc obtain ni1 where s': "s' = (ni1, off + ucast chunk, sr - chunk, 0)" and sr: "sr \<noteq> 0"
      by (auto simp: s write_range_body_def bind_eq_Some_conv Let_def split: if_splits)
    show ?case
    proof (simp add: P_def s r, intro impI)
      assume ro: "ro = 0"
      from 2(2) have le: "left \<le> sr - chunk" and ex: "\<exists>ni''. loop (write_range_body (sz - left) data mode)
          (ni1, off + ucast chunk, sr - chunk - left, 0) = Some (0, 0, ni'')"
        by (auto simp: P_def s' r)
      note p = page_chunk_prefix [OF pc le]
      show "left \<le> sr \<and> (\<exists>ni''. loop (write_range_body (sz - left) data mode) (ni, off, sr - left, 0) = Some (0, 0, ni''))"
      proof (cases "left = sr")
        case True
        have "loop (write_range_body (sz - left) data mode) (ni, off, 0, 0) = Some (0, 0, ni)"
          by (rule loop_leave) (simp add: write_range_body_def)
        with True show ?thesis by auto
      next
        case False
        then have "write_range_body (sz - left) data mode (ni, off, sr - left, 0) =
            Some (Inr (ni1, off + ucast chunk, sr - chunk - left, 0))"
          using 2(1) pc p(2) sr
          by (auto simp: s s' write_range_body_def bind_eq_Some_conv Let_def algebra_simps split: if_splits)
        from loop_continue [of "write_range_body (sz - left) data mode", OF this] ex p(3) show ?thesis by simp
      qed
    qed
  qed
  then show ?thesis by (simp add: P_def)
qed

lemma take_mem_write:
  "mem_write p c d = Some d' \<Longrightarrow> take p d' = take p d"
  by (auto simp: mem_write_def split: if_splits)

lemma read_range_prefix:
  fixes ni :: "'a nmbm_instance"
  assumes "loop (read_range_body sz mode) (ni, off, sr, data, 0) = Some (ret, left, data', ni')"
  shows "left \<le> sr \<and> (\<exists>data'' ni''. loop (read_range_body (sz - left) mode) (ni, off, sr - left, data, 0) = Some (0, 0, data'', ni'') \<and>
    take (unat (sz - left)) data'' = take (unat (sz - left)) data')"
proof -
  define P :: "_ \<Rightarrow> int \<times> u32 \<times> bytes \<times> 'a nmbm_instance \<Rightarrow> bool" where
    "P = (\<lambda>(ni :: 'a nmbm_instance, off :: u64, sr :: u32, data :: bytes, r :: int) (ret, left, data', ni'). r = 0 \<longrightarrow> left \<le> sr \<and>
    (\<exists>data'' ni''. loop (read_range_body (sz - left) mode) (ni, off, sr - left, data, 0) = Some (0, 0, data'', ni'') \<and>
       take (unat (sz - left)) data'' = take (unat (sz - left)) data'))"
  have leave: "loop (read_range_body (sz - left) mode) (ni, off, 0, data, 0) = Some (0, 0, data, ni)"
    for left off data and ni :: "'a nmbm_instance"
    by (rule loop_leave) (simp add: read_range_body_def)
  have "P (ni, off, sr, data, 0) (ret, left, data', ni')"
  proof (rule loop_result_induct [OF assms, where P = P], goal_cases)
    case (1 s r)
    obtain ni off sr data ro ret left data' ni' where s: "s = (ni, off, sr, data, ro)" and r: "r = (ret, left, data', ni')"
      by (cases s, cases r)
    have "left = sr \<and> take (unat (sz - sr)) data = take (unat (sz - sr)) data'"
      using 1 by (auto simp: s r read_range_body_def bind_eq_Some_conv Let_def take_mem_write split: if_splits prod.splits)
    with leave [of left ni off data] show ?case by (auto simp: P_def s r)
  next
    case (2 s s' r)
    obtain ni off sr data ro ret left data' ni' where s: "s = (ni, off, sr, data, ro)" and r: "r = (ret, left, data', ni')"
      by (cases s, cases r)
    obtain leading chunk where pc: "page_chunk ni off sr = (leading, chunk)" by (cases "page_chunk ni off sr")
    from 2(1) pc obtain ni1 data1 where s': "s' = (ni1, off + ucast chunk, sr - chunk, data1, 0)" and sr: "sr \<noteq> 0"
      by (auto simp: s read_range_body_def bind_eq_Some_conv Let_def split: if_splits prod.splits)
    from 2(1) pc have tk: "take (unat (sz - sr)) data1 = take (unat (sz - sr)) data"
      by (auto simp: s s' read_range_body_def bind_eq_Some_conv Let_def take_mem_write split: if_splits prod.splits)
    from 2(2) have le: "left \<le> sr - chunk" and ex: "\<exists>data'' ni''. loop (read_range_body (sz - left) mode)
        (ni1, off + ucast chunk, sr - chunk - left, data1, 0) = Some (0, 0, data'', ni'') \<and>
        take (unat (sz - left)) data'' = take (unat (sz - left)) data'"
      by (auto simp: P_def s' r)
    note p = page_chunk_prefix [OF pc le]
    have "\<exists>data'' ni''. loop (read_range_body (sz - left) mode) (ni, off, sr - left, data, 0) = Some (0, 0, data'', ni'') \<and>
        take (unat (sz - left)) data'' = take (unat (sz - left)) data'"
    proof (cases "left = sr")
      case True
      then have "chunk = 0" by (rule p(4))
      with ex True leave [of left ni1 off data1] tk have "take (unat (sz - sr)) data = take (unat (sz - sr)) data'" by auto
      with True leave [of left ni off data] show ?thesis by auto
    next
      case False
      then have "read_range_body (sz - left) mode (ni, off, sr - left, data, 0) =
          Some (Inr (ni1, off + ucast chunk, sr - chunk - left, data1, 0))"
        using 2(1) pc p(2) sr
        by (auto simp: s s' read_range_body_def bind_eq_Some_conv Let_def algebra_simps split: if_splits)
      from loop_continue [of "read_range_body (sz - left) mode", OF this] ex show ?thesis by simp
    qed
    with p(3) show ?case by (simp add: P_def s r)
  qed
  then show ?thesis by (simp add: P_def)
qed

end
