(* ===== verification/Nmbm_Device.thy ===== *)
theory Nmbm_Device
  imports Nmbm_Logic
begin

text \<open>
  What NMBM promises its users: the properties of the exported operations
  (\<^verbatim>\<open>nmbm_erase_block_range\<close>, \<^verbatim>\<open>nmbm_read_range\<close>, \<^verbatim>\<open>nmbm_write_range\<close>, the single-page and
  bad-block operations) on an attached instance, for every lower device.
\<close>

lemma sample_attached [simp]: "attached (sample f)"
  by (auto simp: attached_def)

section \<open>Remapping\<close>

text \<open>
  C19: remapping a logical block takes the highest good block of the spare area. On every
  well-formed instance \<open>nmbm_map_block\<close> returns, and it succeeds exactly when there is a good block above \<open>mapping_blocks_ba\<close> and
  not above \<open>mapping_blocks_top_ba\<close>. Then the logical block is mapped to the highest of these blocks,
  no other logical block's mapping changes and the top moves down by one. When it fails no mapping changes and the spare area is empty from
  then on. The layout stays well formed either way.
\<close>

theorem nmbm_map_block_spec:
  assumes "layout ni" and "unat lb < length (ni_block_mapping ni)"
  shows "\<exists>success ni'. nmbm_map_block ni lb = Some (success, ni') \<and> layout ni' \<and>
    (let spare = {b. ni_mapping_blocks_ba ni < b \<and> b \<le> ni_mapping_blocks_top_ba ni \<and> good ni b} in
     (success \<longleftrightarrow> spare \<noteq> {}) \<and>
     (if success
      then ni_block_mapping ni' = (ni_block_mapping ni)[unat lb := Max spare] \<and>
        ni_mapping_blocks_top_ba ni' = ni_mapping_blocks_top_ba ni - 1
      else ni_block_mapping ni' = ni_block_mapping ni \<and>
        ni_mapping_blocks_top_ba ni' = ni_mapping_blocks_ba ni'))"
proof -
  let ?spare = "{b. ni_mapping_blocks_ba ni < b \<and> b \<le> ni_mapping_blocks_top_ba ni \<and> good ni b}"
  have "returns (nmbm_map_block ni lb) (\<lambda>(success, ni'). layout ni' \<and> (success \<longleftrightarrow> ?spare \<noteq> {}) \<and>
    (if success
     then ni_block_mapping ni' = (ni_block_mapping ni)[unat lb := Max ?spare] \<and>
       ni_mapping_blocks_top_ba ni' = ni_mapping_blocks_top_ba ni - 1
     else ni_block_mapping ni' = ni_block_mapping ni \<and>
       ni_mapping_blocks_top_ba ni' = ni_mapping_blocks_ba ni'))"
  proof (rule map_block_wp [OF assms], goal_cases)
    case (1 pb)
    then have "Max ?spare = pb" by (intro Max_eqI) (auto simp: not_less [symmetric])
    then show ?case
      using 1 layout_remaps(1) [OF assms(1) 1(1,2), of lb] by (auto simp: remaps_def)
  next
    case (2 ni')
    then show ?case by (auto simp: layout_def keepsD)
  qed
  then show ?thesis by (auto simp: returns_pair_iff Let_def)
qed

theorem nmbm_map_block_spec_witness:
  "\<exists>success ni'. nmbm_map_block (sample 0) 3 = Some (success, ni') \<and> layout ni'"
  using nmbm_map_block_spec [of "sample 0" 3] by auto

text \<open>
  C29: remapping can give one physical block to two logical blocks. The top of the spare
  area moves down by one and not below the block just taken, so when the topmost spare
  block is not good, the block found below it is found again: two successive remappings of
  different logical blocks both succeed with the same physical block.
\<close>

theorem nmbm_map_block_reuses_block:
  assumes "layout ni" and "unat lb < length (ni_block_mapping ni)"
    and "unat lb' < length (ni_block_mapping ni)" and "lb \<noteq> lb'"
    and "\<not> good ni (ni_mapping_blocks_top_ba ni)"
    and "ni_mapping_blocks_ba ni < b" and "b < ni_mapping_blocks_top_ba ni" and "good ni b"
  shows "\<exists>ni1 ni2. nmbm_map_block ni lb = Some (True, ni1) \<and>
    nmbm_map_block ni1 lb' = Some (True, ni2) \<and>
    ni_block_mapping ni2 ! unat lb = ni_block_mapping ni2 ! unat lb'"
proof -
  let ?top = "ni_mapping_blocks_top_ba ni" and ?low = "ni_mapping_blocks_ba ni"
  have walk: "\<exists>pb. nmbm_map_block x l = Some (True, remaps x l pb) \<and> ?low < pb \<and>
      pb \<le> ni_mapping_blocks_top_ba x \<and> good ni pb \<and>
      (\<forall>c. pb < c \<and> c \<le> ni_mapping_blocks_top_ba x \<longrightarrow> \<not> good ni c)"
    if x: "layout x" "ni_mapping_blocks_ba x = ?low" "ni_block_state x = ni_block_state ni"
      and l: "unat l < length (ni_block_mapping x)"
      and b: "b \<le> ni_mapping_blocks_top_ba x" for x and l :: u32
  proof -
    have ne: "ni_mapping_blocks_ba x \<noteq> ni_mapping_blocks_top_ba x"
      using assms(6) b x(2) by auto
    obtain r where r: "nmbm_block_walk x False (ni_mapping_blocks_top_ba x) 0 (ni_mapping_blocks_ba x) = Some r"
      and post: "case r of None \<Rightarrow> \<forall>b. ni_mapping_blocks_ba x < b \<and> b \<le> ni_mapping_blocks_top_ba x \<longrightarrow> \<not> good x b
        | Some pb \<Rightarrow> ni_mapping_blocks_ba x < pb \<and> pb \<le> ni_mapping_blocks_top_ba x \<and> good x pb \<and>
          (\<forall>b. pb < b \<and> b \<le> ni_mapping_blocks_top_ba x \<longrightarrow> \<not> good x b)"
      using map_block_walk [OF x(1)] by (rule returnsE)
    then obtain pb where "r = Some pb" using assms(6,8) b x(2,3) by (cases r) auto
    with r post ne l x show ?thesis
      by (auto simp: nmbm_map_block_def arr_set_def remaps_def)
  qed
  from walk [OF assms(1) refl refl assms(2) order.strict_implies_order [OF assms(7)]] obtain pb
    where m1: "nmbm_map_block ni lb = Some (True, remaps ni lb pb)"
      and pb: "?low < pb" "pb \<le> ?top" "good ni pb" "\<forall>c. pb < c \<and> c \<le> ?top \<longrightarrow> \<not> good ni c"
    by blast
  let ?x = "remaps ni lb pb"
  have lt: "pb < ?top" using pb(2,3) assms(5) by (cases "pb = ?top") auto
  have top: "unat (?top - 1) = unat ?top - 1" using lt by (intro unat_dec) (auto simp: word_less_nat_alt)
  have le: "c \<le> ?top - 1 \<longleftrightarrow> c < ?top" for c
    using top lt by (auto simp: word_le_nat_alt word_less_nat_alt)
  have x: "ni_mapping_blocks_ba ?x = ?low" "ni_block_state ?x = ni_block_state ni"
    "ni_mapping_blocks_top_ba ?x = ?top - 1" "length (ni_block_mapping ?x) = length (ni_block_mapping ni)"
    by (simp_all add: remaps_def)
  from walk [OF layout_remaps(1) [OF assms(1) pb(1,2)] x(1,2), of lb'] assms(3,7) obtain pb'
    where m2: "nmbm_map_block ?x lb' = Some (True, remaps ?x lb' pb')"
      and pb': "pb' \<le> ?top - 1" "good ni pb'" "\<forall>c. pb' < c \<and> c \<le> ?top - 1 \<longrightarrow> \<not> good ni c"
    by (auto simp: x le)
  have "pb' = pb"
    using pb pb' lt le by (metis linorder_neqE order_less_imp_le)
  then have "ni_block_mapping (remaps ?x lb' pb') ! unat lb = ni_block_mapping (remaps ?x lb' pb') ! unat lb'"
    using assms(2-4) by (simp add: remaps_def nth_list_update)
  with m1 m2 show ?thesis by blast
qed

theorem nmbm_map_block_reuses_block_witness:
  "\<exists>ni1 ni2. nmbm_map_block ((sample 0)\<lparr>ni_block_state := [0xffffffff, 0xcfffffff]\<rparr>) 3 = Some (True, ni1) \<and>
    nmbm_map_block ni1 5 = Some (True, ni2) \<and>
    ni_block_mapping ni2 ! unat (3 :: u32) = ni_block_mapping ni2 ! unat (5 :: u32)"
proof (rule nmbm_map_block_reuses_block [where b = 29])
  show "layout ((sample 0)\<lparr>ni_block_state := [0xffffffff, 0xcfffffff]\<rparr>)"
    using sample_layout [of 0]
    by (simp add: layout_def geom_def page_geom_def states_cover_def del: sample_layout)
qed (simp_all add: blk_def)

section \<open>Erasing\<close>

text \<open>
  C11: erasing a logical block terminates on every lower device and ends in one of two ways.
  Either it returns 0 and the block is mapped to a physical block that is neither bad nor
  waiting to be remapped, or it returns \<open>-EIO\<close> and the block is marked unusable (its mapping
  is negative). No other logical block's mapping changes, and the instance stays well formed.
\<close>

theorem nmbm_erase_logic_block_spec:
  assumes "attached ni" and "unat lb < length (ni_block_mapping ni)"
  shows "\<exists>ret ni'. nmbm_erase_logic_block ni lb = Some (ret, ni') \<and> attached ni' \<and>
    (\<forall>i. i \<noteq> unat lb \<longrightarrow> ni_block_mapping ni' ! i = ni_block_mapping ni ! i) \<and>
    (let pb = ni_block_mapping ni' ! unat lb in
      ret = 0 \<and> 0 \<le> sint pb \<and> nmbm_get_block_state ni' pb \<notin> {Some BLOCK_ST_BAD, Some BLOCK_ST_NEED_REMAP} \<or>
      ret = - EIO \<and> sint pb < 0)"
  using erase_logic_block_erased [OF assms]
  by (auto simp: returns_pair_iff returns_iff erased_def erasing_def Let_def nmbm_get_block_state_def
      get_block_state_raw_eq)

theorem nmbm_erase_logic_block_spec_witness:
  "\<exists>ret ni'. nmbm_erase_logic_block (sample 9) 3 = Some (ret, ni') \<and> attached ni' \<and>
     (ret = 0 \<or> ret = - EIO)"
  using nmbm_erase_logic_block_spec [of "sample 9" 3] by (auto simp: Let_def)

lemma erase_block_range_returns:
  assumes "attached ni" and "unat addr + unat sz < 2 ^ 64"
  shows "\<exists>ret failed_addr ni'. nmbm_erase_block_range (Some ni) addr sz = Some (ret, failed_addr, Some ni') \<and>
    attached ni' \<and>
    (let m = ni_block_mapping ni; m' = ni_block_mapping ni'; first = addr2ba ni addr; lst = addr2ba ni (addr + sz - 1);
         limit = ba2addr ni (ni_data_block_count ni) in
     if ni_protected ni \<noteq> 0 then ret = - EROFS \<and> failed_addr = None \<and> ni' = ni
     else if addr \<ge> limit \<or> addr + sz > limit then ret = - EINVAL \<and> failed_addr = None \<and> ni' = ni
     else if sz = 0 then ret = 0 \<and> failed_addr = None \<and> ni' = ni
     else (\<forall>j. j < unat first \<or> unat lst < j \<longrightarrow> m' ! j = m ! j) \<and>
       (ret = 0 \<and> failed_addr = None \<and> (\<forall>j. unat first \<le> j \<and> j \<le> unat lst \<longrightarrow> 0 \<le> sint (m' ! j)) \<or>
        ret = - EIO \<and> (\<exists>lb. first \<le> lb \<and> lb \<le> lst \<and> failed_addr = Some (ba2addr ni lb) \<and> sint (m' ! unat lb) < 0 \<and>
          (\<forall>j. unat first \<le> j \<and> j < unat lb \<longrightarrow> 0 \<le> sint (m' ! j)) \<and> (\<forall>j. unat lb < j \<longrightarrow> m' ! j = m ! j))))"
proof (cases "ni_protected ni \<noteq> 0 \<or> addr \<ge> ba2addr ni (ni_data_block_count ni) \<or>
    addr + sz > ba2addr ni (ni_data_block_count ni) \<or> sz = 0")
  case True
  with assms(1) show ?thesis by (auto simp: nmbm_erase_block_range_def Let_def)
next
  case False
  then have "addr2ba ni (addr + sz - 1) < ni_data_block_count ni"
    using assms by (intro last_block) auto
  from erase_blocks_loop [OF assms(1) this, of "addr2ba ni addr"]
  obtain ret fa ni' where "loop (erase_blocks_body (addr2ba ni (addr + sz - 1))) (ni, addr2ba ni addr) =
      Some (ret, fa, ni')"
    and "erasing_range (addr2ba ni addr) (addr2ba ni (addr + sz - 1)) ni ni'"
    and "ret = 0 \<and> fa = None \<and> (\<forall>j. unat (addr2ba ni addr) \<le> j \<and> j \<le> unat (addr2ba ni (addr + sz - 1)) \<longrightarrow> 0 \<le> sint (ni_block_mapping ni' ! j)) \<or>
      ret = - EIO \<and> (\<exists>lb. addr2ba ni addr \<le> lb \<and> lb \<le> addr2ba ni (addr + sz - 1) \<and> fa = Some (ba2addr ni lb) \<and>
      sint (ni_block_mapping ni' ! unat lb) < 0 \<and>
      (\<forall>j. unat (addr2ba ni addr) \<le> j \<and> j < unat lb \<longrightarrow> 0 \<le> sint (ni_block_mapping ni' ! j)) \<and>
      (\<forall>j. unat lb < j \<longrightarrow> ni_block_mapping ni' ! j = ni_block_mapping ni ! j))"
    by (auto simp: returns_iff)
  moreover have "\<not> ni_protected ni \<noteq> 0" "\<not> (addr \<ge> ba2addr ni (ni_data_block_count ni) \<or> addr + sz > ba2addr ni (ni_data_block_count ni))" "sz \<noteq> 0"
    using False by auto
  ultimately show ?thesis
    by (intro exI [of _ ret] exI [of _ fa] exI [of _ ni']) (simp add: nmbm_erase_block_range_def erasing_range_def Let_def)
qed

text \<open>
  C22: erasing a range of the logical device is total, and tells which block failed. For every attached instance, every
  address and every size that does not wrap past the 64-bit address space, \<open>nmbm_erase_block_range\<close> returns and leaves
  an attached instance. On a protected instance and outside the device it fails and changes nothing. Otherwise it
  changes no mapping outside the addressed blocks, and either returns 0, with every addressed block mapped, or returns
  \<open>-EIO\<close> and the address of the first block that could not be erased: that block is unmapped,
  the blocks before it are mapped, and the blocks behind it are untouched.
\<close>

theorem nmbm_erase_block_range_total:
  assumes "attached ni" and "unat addr + unat sz < 2 ^ 64"
  shows "\<exists>ret failed_addr ni'. nmbm_erase_block_range (Some ni) addr sz = Some (ret, failed_addr, Some ni') \<and>
    attached ni' \<and>
    (let m = ni_block_mapping ni; m' = ni_block_mapping ni'; first = addr2ba ni addr; lst = addr2ba ni (addr + sz - 1);
         limit = ba2addr ni (ni_data_block_count ni) in
     if ni_protected ni \<noteq> 0 then ret = - EROFS \<and> failed_addr = None \<and> ni' = ni
     else if addr \<ge> limit \<or> addr + sz > limit then ret = - EINVAL \<and> failed_addr = None \<and> ni' = ni
     else if sz = 0 then ret = 0 \<and> failed_addr = None \<and> ni' = ni
     else (\<forall>j. j < unat first \<or> unat lst < j \<longrightarrow> m' ! j = m ! j) \<and>
       (ret = 0 \<and> failed_addr = None \<and> (\<forall>j. unat first \<le> j \<and> j \<le> unat lst \<longrightarrow> 0 \<le> sint (m' ! j)) \<or>
        ret = - EIO \<and> (\<exists>lb. first \<le> lb \<and> lb \<le> lst \<and> failed_addr = Some (ba2addr ni lb) \<and> sint (m' ! unat lb) < 0 \<and>
          (\<forall>j. unat first \<le> j \<and> j < unat lb \<longrightarrow> 0 \<le> sint (m' ! j)) \<and> (\<forall>j. unat lb < j \<longrightarrow> m' ! j = m ! j))))"
  by (rule erase_block_range_returns [OF assms])

theorem nmbm_erase_block_range_total_witness:
  "\<exists>ret failed_addr ni'. nmbm_erase_block_range (Some (sample 4)) 256 512 = Some (ret, failed_addr, Some ni') \<and>
     attached ni'"
  using nmbm_erase_block_range_total [of "sample 4" 256 512] by auto

text \<open>
  The range check of \<open>nmbm_erase_block_range\<close> can be bypassed by a size that wraps. With
  \<open>addr + size\<close> past the end of the 64-bit space and small again, the call is accepted, erases
  nothing and reports success.
\<close>

lemma nmbm_erase_block_range_wraps:
  assumes "ni_protected ni = 0" and "addr < ba2addr ni (ni_data_block_count ni)" and "sz \<noteq> 0"
    and "addr + sz \<le> ba2addr ni (ni_data_block_count ni)"
    and "addr2ba ni (addr + sz - 1) < addr2ba ni addr"
  shows "nmbm_erase_block_range (Some ni) addr sz = Some (0, None, Some ni)"
proof -
  have "loop (erase_blocks_body (addr2ba ni (addr + sz - 1))) (ni, addr2ba ni addr) = Some (0, None, ni)"
    using assms(5) by (intro loop_leave) (auto simp: erase_blocks_body_def dest: leD)
  then show ?thesis using assms(1-4) by (simp add: nmbm_erase_block_range_def not_le not_less)
qed

section \<open>Reading and writing\<close>

lemma range_check:
  assumes "attached ni" and "addr < ba2addr ni (ni_data_block_count ni)"
    and "\<not> ba2addr ni (ni_data_block_count ni) < addr + ucast (sz :: u32)"
  shows "in_range ni addr sz"
proof -
  let ?n = "unat (ni_erasesize_shift ni)"
  have n: "?n \<le> 31" using attachedD(6) [OF assms(1)] .
  then have "(2::nat) ^ ?n \<le> 2 ^ 31" by (rule power_increasing) simp
  then have "unat (ni_data_block_count ni) * 2 ^ ?n \<le> 2 ^ 32 * 2 ^ 31"
    using unat_u32_less [of "ni_data_block_count ni"] by (intro mult_le_mono) simp_all
  then have "unat (ba2addr ni (ni_data_block_count ni)) \<le> 2 ^ 63"
    using n by (simp add: unat_ba2addr)
  moreover have "unat addr < unat (ba2addr ni (ni_data_block_count ni))"
    using assms(2) by (simp add: word_less_nat_alt)
  ultimately have "unat (addr + ucast sz) = unat addr + unat sz"
    using unat_u32_less [of sz] by (simp add: unat_word_ariths)
  with assms(3) show ?thesis by (simp add: in_range_def word_less_nat_alt)
qed

lemma range_prefix:
  assumes "attached ni" and "addr < ba2addr ni (ni_data_block_count ni)"
    and "\<not> ba2addr ni (ni_data_block_count ni) < addr + ucast (sz :: u32)" and "n \<le> sz"
  shows "\<not> ba2addr ni (ni_data_block_count ni) < addr + ucast n"
proof -
  have r: "unat addr + unat sz \<le> unat (ba2addr ni (ni_data_block_count ni))"
    using range_check [OF assms(1-3)] by (simp add: in_range_def)
  have "unat n \<le> unat sz" using assms(4) by (simp add: word_le_nat_alt)
  then have "unat (addr + ucast n) = unat addr + unat n"
    using r unat_less_len [of "ba2addr ni (ni_data_block_count ni)"] by (simp add: unat_word_ariths)
  then show ?thesis using r \<open>unat n \<le> unat sz\<close> by (simp add: word_less_nat_alt)
qed

text \<open>
  What a ranged transfer returns and reports. Nothing is transferred, and no length reported, on a protected instance, outside the device and for
  an empty range; otherwise a length is reported, which is the whole size exactly when the transfer succeeds.
\<close>

definition transferred :: "'d nmbm_instance \<Rightarrow> u64 \<Rightarrow> u32 \<Rightarrow> int \<Rightarrow> u32 option \<Rightarrow> bool" where
  "transferred ni addr sz ret retlen \<longleftrightarrow>
     (let limit = ba2addr ni (ni_data_block_count ni) in
      if ni_protected ni \<noteq> 0 then ret = - EROFS \<and> retlen = None
      else if addr \<ge> limit \<or> addr + ucast sz > limit then ret = - EINVAL \<and> retlen = None
      else if sz = 0 then ret = 0 \<and> retlen = None
      else (\<exists>n. retlen = Some n \<and> n \<le> sz \<and> (ret = 0 \<longleftrightarrow> n = sz) \<and> ret \<in> {0, 1, - EIO}))"

text \<open>What the layers above go by: success means completeness, and a reported length is that of a prefix.\<close>

definition completes :: "u32 \<Rightarrow> int \<Rightarrow> u32 option \<Rightarrow> bool" where
  "completes sz ret retlen \<longleftrightarrow>
     (case retlen of None \<Rightarrow> ret = 0 \<longrightarrow> sz = 0 | Some n \<Rightarrow> n \<le> sz \<and> (ret = 0 \<longleftrightarrow> n = sz))"

lemma transferred_completes: "transferred ni addr sz ret retlen \<Longrightarrow> completes sz ret retlen"
  by (auto simp: transferred_def completes_def Let_def split: if_splits)

lemma read_range_returns:
  assumes "attached ni" and "unat sz \<le> length data"
  shows "returns (nmbm_read_range (Some ni) addr sz data mode) (\<lambda>(ret, data', retlen, nip).
    \<exists>ni'. nip = Some ni' \<and> serves ni ni' \<and> length data' = length data \<and>
      ret \<in> {0, 1, - EIO, - EINVAL, - EROFS} \<and> transferred ni addr sz ret retlen \<and>
      same_behind (case retlen of None \<Rightarrow> 0 | Some n \<Rightarrow> min (unat sz) (unat n + unat (ni_writesize ni))) data' data)"
proof (cases "ni_protected ni \<noteq> 0 \<or> addr \<ge> ba2addr ni (ni_data_block_count ni) \<or>
    addr + ucast sz > ba2addr ni (ni_data_block_count ni) \<or> sz = 0")
  case True
  with serves_refl [OF assms(1)] show ?thesis by (auto simp: nmbm_read_range_def transferred_def Let_def)
next
  case False
  then have "in_range ni addr sz" using assms(1) by (intro range_check) auto
  from read_range_loop [OF assms(1) this assms(2), of mode]
  obtain ret left data' ni' where l: "loop (read_range_body sz mode) (ni, addr, sz, data, 0) = Some (ret, left, data', ni')"
    and srv: "serves ni ni'" and ret: "io_result ret" "ret = 0 \<longleftrightarrow> left = 0" and left: "left \<le> sz"
    and len: "length data' = length data" and beh: "same_behind (min (unat sz) (unat sz - unat left + unat (ni_writesize ni))) data' data"
    by (auto simp: returns_iff)
  have n: "sz - left \<le> sz" "sz - left = sz \<longleftrightarrow> left = 0" "unat (sz - left) = unat sz - unat left"
    using left by (auto simp: word_le_nat_alt unat_sub)
  with beh have "same_behind (min (unat sz) (unat (sz - left) + unat (ni_writesize ni))) data' data" by simp
  with False l srv ret len n show ?thesis by (auto simp: nmbm_read_range_def transferred_def ret_simps Let_def)
qed

text \<open>The length a read reports counts bytes that were read: the same call for just these bytes succeeds and reads the same.\<close>

lemma read_range_reported:
  assumes "attached ni" and "nmbm_read_range (Some ni) addr sz data mode = Some (ret, data', Some n, nip)" and "n \<noteq> 0"
  shows "\<exists>data'' ni''. nmbm_read_range (Some ni) addr n data mode = Some (0, data'', Some n, Some ni'') \<and>
    take (unat n) data'' = take (unat n) data'"
proof -
  from assms(2) have g: "ni_protected ni = 0" "addr < ba2addr ni (ni_data_block_count ni)"
    "\<not> ba2addr ni (ni_data_block_count ni) < addr + ucast sz"
    by (auto simp: nmbm_read_range_def not_le split: if_splits)
  with assms(2) obtain left ni' where l: "loop (read_range_body sz mode) (ni, addr, sz, data, 0) = Some (ret, left, data', ni')"
    and n: "n = sz - left"
    by (auto simp: nmbm_read_range_def bind_eq_Some_conv split: if_splits)
  from read_range_prefix [OF l] have le: "left \<le> sz" and "\<exists>data'' ni''. loop (read_range_body n mode) (ni, addr, n, data, 0) = Some (0, 0, data'', ni'') \<and>
      take (unat n) data'' = take (unat n) data'" by (auto simp: n)
  moreover have "\<not> ba2addr ni (ni_data_block_count ni) < addr + ucast n"
    using le by (intro range_prefix [OF assms(1) g(2,3)]) (simp add: n word_le_nat_alt unat_sub)
  ultimately show ?thesis using g assms(3) by (auto simp: nmbm_read_range_def not_le)
qed

text \<open>
  C20: reading a range is total and memory safe, and tells how much was read. For every attached instance, address, size
  and destination buffer of at least that size, \<open>nmbm_read_range\<close> returns and leaves the block
  mapping alone. On a protected instance and outside the device it fails without touching the buffer. Otherwise it stores a length to \<open>*retlen\<close>, the whole
  size exactly when it returns 0. The bytes it reports are the ones that were read: the call for just these bytes succeeds and gives the same bytes. The buffer
  behind the size asked for is untouched, and after a failure so is everything behind the page that failed.
\<close>

theorem nmbm_read_range_total:
  assumes "attached ni" and "unat sz \<le> length data"
  shows "\<exists>ret data' retlen ni'. nmbm_read_range (Some ni) addr sz data mode = Some (ret, data', retlen, Some ni') \<and>
    attached ni' \<and> ni_block_mapping ni' = ni_block_mapping ni \<and> length data' = length data \<and>
    (let limit = ba2addr ni (ni_data_block_count ni) in
     if ni_protected ni \<noteq> 0 then ret = - EROFS \<and> retlen = None \<and> data' = data
     else if addr \<ge> limit \<or> addr + ucast sz > limit then ret = - EINVAL \<and> retlen = None \<and> data' = data
     else if sz = 0 then ret = 0 \<and> retlen = None \<and> data' = data
     else (\<exists>n. retlen = Some n \<and> n \<le> sz \<and> (ret = 0 \<longleftrightarrow> n = sz) \<and> ret \<in> {0, 1, - EIO} \<and>
       (n \<noteq> 0 \<longrightarrow> (\<exists>data'' ni''. nmbm_read_range (Some ni) addr n data mode = Some (0, data'', Some n, Some ni'') \<and>
          take (unat n) data'' = take (unat n) data')) \<and>
       drop (unat sz) data' = drop (unat sz) data \<and>
       drop (unat n + unat (ni_writesize ni)) data' = drop (unat n + unat (ni_writesize ni)) data))"
proof -
  obtain ret data' retlen ni' where r: "nmbm_read_range (Some ni) addr sz data mode = Some (ret, data', retlen, Some ni')"
    and srv: "serves ni ni'" and len: "length data' = length data" and tr: "transferred ni addr sz ret retlen"
    and beh: "same_behind (case retlen of None \<Rightarrow> 0 | Some n \<Rightarrow> min (unat sz) (unat n + unat (ni_writesize ni))) data' data"
    using read_range_returns [OF assms, of addr mode] by (auto simp: returns_iff)
  have "drop (unat sz) data' = drop (unat sz) data \<and> drop (unat n + unat (ni_writesize ni)) data' = drop (unat n + unat (ni_writesize ni)) data"
    if "retlen = Some n" for n
    using beh that same_behind_mono [of "min (unat sz) (unat n + unat (ni_writesize ni))" data' data] by (auto simp flip: same_behind_def)
  moreover have "data' = data" if "retlen = None" using beh that by (simp add: same_behind_def)
  ultimately show ?thesis
    using r srv len tr read_range_reported [OF assms(1), of addr sz data mode ret data' _ "Some ni'"]
    by (intro exI [of _ ret] exI [of _ data'] exI [of _ retlen] exI [of _ ni'])
      (auto simp: transferred_def serves_def Let_def)
qed

theorem nmbm_read_range_total_witness:
  "\<exists>ret data' retlen ni'. nmbm_read_range (Some (sample 2)) 100 200 (replicate 200 0) NMBM_MODE_PLACE_OOB =
     Some (ret, data', retlen, Some ni') \<and> attached ni' \<and> length data' = 200"
  using nmbm_read_range_total [of "sample 2" 200 "replicate 200 0" 100 NMBM_MODE_PLACE_OOB] by auto

lemma write_range_returns:
  assumes "attached ni" and "unat sz \<le> length data"
  shows "returns (nmbm_write_range (Some ni) addr sz data mode) (\<lambda>(ret, retlen, nip).
    \<exists>ni'. nip = Some ni' \<and> serves ni ni' \<and> ret \<in> {0, - EIO, - EINVAL, - EROFS} \<and> transferred ni addr sz ret retlen)"
proof (cases "ni_protected ni \<noteq> 0 \<or> addr \<ge> ba2addr ni (ni_data_block_count ni) \<or>
    addr + ucast sz > ba2addr ni (ni_data_block_count ni) \<or> sz = 0")
  case True
  with serves_refl [OF assms(1)] show ?thesis by (auto simp: nmbm_write_range_def transferred_def Let_def)
next
  case False
  then have "in_range ni addr sz" using assms(1) by (intro range_check) auto
  from write_range_loop [OF assms(1) this assms(2), of mode]
  obtain ret left ni' where l: "loop (write_range_body sz data mode) (ni, addr, sz, 0) = Some (ret, left, ni')"
    and srv: "serves ni ni'" and ret: "ret = 0 \<or> ret = - EIO" "ret = 0 \<longleftrightarrow> left = 0" and left: "left \<le> sz"
    by (auto simp: returns_iff)
  have "sz - left \<le> sz" "sz - left = sz \<longleftrightarrow> left = 0"
    using left by (auto simp: word_le_nat_alt unat_sub)
  with False l srv ret show ?thesis by (auto simp: nmbm_write_range_def transferred_def ret_simps Let_def)
qed

lemma write_range_reported:
  assumes "attached ni" and "nmbm_write_range (Some ni) addr sz data mode = Some (ret, Some n, nip)" and "n \<noteq> 0"
  shows "\<exists>ni''. nmbm_write_range (Some ni) addr n data mode = Some (0, Some n, Some ni'')"
proof -
  from assms(2) have g: "ni_protected ni = 0" "addr < ba2addr ni (ni_data_block_count ni)"
    "\<not> ba2addr ni (ni_data_block_count ni) < addr + ucast sz"
    by (auto simp: nmbm_write_range_def not_le split: if_splits)
  with assms(2) obtain left ni' where l: "loop (write_range_body sz data mode) (ni, addr, sz, 0) = Some (ret, left, ni')"
    and n: "n = sz - left"
    by (auto simp: nmbm_write_range_def bind_eq_Some_conv split: if_splits)
  from write_range_prefix [OF l] have le: "left \<le> sz" and "\<exists>ni''. loop (write_range_body n data mode) (ni, addr, n, 0) = Some (0, 0, ni'')"
    by (auto simp: n)
  moreover have "\<not> ba2addr ni (ni_data_block_count ni) < addr + ucast n"
    using le by (intro range_prefix [OF assms(1) g(2,3)]) (simp add: n word_le_nat_alt unat_sub)
  ultimately show ?thesis using g assms(3) by (auto simp: nmbm_write_range_def not_le)
qed

text \<open>
  C21: writing a range is total and memory safe, and tells how much was written. For every attached instance, address, size
  and buffer of at least that size, \<open>nmbm_write_range\<close> returns and leaves the block mapping alone. On a protected instance and outside the
  device it fails and stores no length. Otherwise it stores a length to \<open>*retlen\<close>: the whole size exactly when it returns 0, and less, with the
  code \<open>-EIO\<close>, when a page fails. The bytes it reports are the ones that were written: the call for just these bytes succeeds and reports them all.
\<close>

theorem nmbm_write_range_total:
  assumes "attached ni" and "unat sz \<le> length data"
  shows "\<exists>ret retlen ni'. nmbm_write_range (Some ni) addr sz data mode = Some (ret, retlen, Some ni') \<and>
    attached ni' \<and> ni_block_mapping ni' = ni_block_mapping ni \<and>
    (let limit = ba2addr ni (ni_data_block_count ni) in
     if ni_protected ni \<noteq> 0 then ret = - EROFS \<and> retlen = None
     else if addr \<ge> limit \<or> addr + ucast sz > limit then ret = - EINVAL \<and> retlen = None
     else if sz = 0 then ret = 0 \<and> retlen = None
     else (\<exists>n. retlen = Some n \<and> n \<le> sz \<and> (ret = 0 \<longleftrightarrow> n = sz) \<and> (ret = - EIO \<longleftrightarrow> n < sz) \<and>
       (n \<noteq> 0 \<longrightarrow> (\<exists>ni''. nmbm_write_range (Some ni) addr n data mode = Some (0, Some n, Some ni'')))))"
proof -
  obtain ret retlen ni' where r: "nmbm_write_range (Some ni) addr sz data mode = Some (ret, retlen, Some ni')"
    and srv: "serves ni ni'" and tr: "transferred ni addr sz ret retlen" and codes: "ret \<in> {0, - EIO, - EINVAL, - EROFS}"
    using write_range_returns [OF assms, of addr mode] by (auto simp: returns_iff)
  then show ?thesis
    using write_range_reported [OF assms(1), of addr sz data mode ret _ "Some ni'"]
    by (intro exI [of _ ret] exI [of _ retlen] exI [of _ ni'])
      (auto simp: transferred_def serves_def Let_def)
qed

theorem nmbm_write_range_total_witness:
  "\<exists>ret retlen ni'. nmbm_write_range (Some (sample 3)) 100 200 (replicate 200 0) NMBM_MODE_PLACE_OOB =
     Some (ret, retlen, Some ni') \<and> attached ni'"
  using nmbm_write_range_total [of "sample 3" 200 "replicate 200 0" 100 NMBM_MODE_PLACE_OOB] by auto

section \<open>Bad blocks and protection\<close>

lemma mark_bad_block_unmapped:
  assumes "attached ni" and "addr < ba2addr ni (ni_data_block_count ni)"
  shows "returns (nmbm_mark_bad_block (Some ni) addr) (\<lambda>(ret, nip). ret = 0 \<and>
    (\<exists>ni'. nip = Some ni' \<and> attached ni' \<and> ni_data_block_count ni' = ni_data_block_count ni \<and>
       ni_erasesize_shift ni' = ni_erasesize_shift ni \<and>
       sint (ni_block_mapping ni' ! unat (addr2ba ni addr)) < 0))"
proof -
  let ?lb = "unat (addr2ba ni addr)"
  define pb where "pb = ni_block_mapping ni ! ?lb"
  have lb: "?lb < length (ni_block_mapping ni)" using attached_addr(2) [OF assms] .
  have guard: "\<not> ba2addr ni (ni_data_block_count ni) \<le> addr" using assms(2) by simp
  show ?thesis
  proof (cases "sint pb < 0")
    case True
    with assms guard lb show ?thesis
      by (simp add: nmbm_mark_bad_block_def ret_simps Let_def pb_def)
  next
    case False
    then have pb: "pb < ni_block_count ni" using attached_mapping [OF assms(1) lb] by (simp add: pb_def)
    define y where "y = ni\<lparr>ni_block_mapping := (ni_block_mapping ni)[?lb := -1]\<rparr>"
    have y: "attached y" "ni_block_mapping y ! ?lb = -1" "ni_data_block_count y = ni_data_block_count ni"
      "ni_erasesize_shift y = ni_erasesize_shift ni" "ni_block_count y = ni_block_count ni"
      using attached_unmap [OF assms(1)] lb by (simp_all add: y_def)
    show ?thesis
      using False lb guard y pb attachedD(3,4) [OF y(1)]
      by (auto simp: nmbm_mark_bad_block_def ret_simps Let_def pb_def [symmetric] y_def [symmetric]
          retires_fields keepsD intro!: wp attached_retires [OF y(1)])
  qed
qed

text \<open>
  a logical block that was marked bad is reported bad. For every address of the device,
  \<open>nmbm_mark_bad_block\<close> returns 0 and leaves an attached instance on which
  \<open>nmbm_check_bad_block\<close> answers 1 for that address.
\<close>

theorem nmbm_mark_bad_block_checked:
  assumes "attached ni" and "addr < ba2addr ni (ni_data_block_count ni)"
  shows "\<exists>ni'. nmbm_mark_bad_block (Some ni) addr = Some (0, Some ni') \<and> attached ni' \<and>
    nmbm_check_bad_block (Some ni') addr = Some 1"
proof -
  obtain ni' where m: "nmbm_mark_bad_block (Some ni) addr = Some (0, Some ni')" and att: "attached ni'"
    and eq: "ni_data_block_count ni' = ni_data_block_count ni" "ni_erasesize_shift ni' = ni_erasesize_shift ni"
    and neg: "sint (ni_block_mapping ni' ! unat (addr2ba ni addr)) < 0"
    using mark_bad_block_unmapped [OF assms] by (auto simp: returns_iff)
  have "addr < ba2addr ni' (ni_data_block_count ni')" "addr2ba ni' addr = addr2ba ni addr"
    using assms(2) eq by (simp_all add: ba2addr_def addr2ba_def)
  moreover from this have "unat (addr2ba ni addr) < length (ni_block_mapping ni')"
    using attached_addr(2) [OF att, of addr] by simp
  ultimately have "nmbm_check_bad_block (Some ni') addr = Some 1"
    using neg by (auto simp: nmbm_check_bad_block_def arr_get_def dest: leD)
  with m att show ?thesis by blast
qed

theorem nmbm_mark_bad_block_checked_witness:
  "\<exists>ni'. nmbm_mark_bad_block (Some (sample 1)) 1030 = Some (0, Some ni') \<and> attached ni' \<and>
    nmbm_check_bad_block (Some ni') 1030 = Some 1"
  by (rule nmbm_mark_bad_block_checked) (simp_all add: ba2addr_def)

text \<open>
  C30: a protected instance refuses every transfer, reads included. The log message calls the
  device ``forced read-only'', but on it \<open>nmbm_read_single_page\<close> and \<open>nmbm_read_range\<close> return
  \<open>-EROFS\<close> exactly as writing and erasing do; nothing changes.
\<close>

theorem nmbm_protected_refuses:
  assumes "ni_protected ni \<noteq> 0"
  shows "nmbm_read_single_page (Some ni) addr data oob mode = Some (- EROFS, (data, oob), Some ni) \<and>
    nmbm_read_range (Some ni) addr sz buf mode = Some (- EROFS, buf, None, Some ni) \<and>
    nmbm_write_single_page (Some ni) addr data oob mode = Some (- EROFS, Some ni) \<and>
    nmbm_write_range (Some ni) addr sz buf mode = Some (- EROFS, None, Some ni) \<and>
    nmbm_erase_block_range (Some ni) addr len = Some (- EROFS, None, Some ni)"
  using assms
  by (simp add: nmbm_read_single_page_def nmbm_read_range_def nmbm_write_single_page_def
      nmbm_write_range_def nmbm_erase_block_range_def)

theorem nmbm_protected_refuses_witness:
  "nmbm_read_range (Some ((sample 0)\<lparr>ni_protected := 1\<rparr>)) 0 8 (replicate 8 0) NMBM_MODE_PLACE_OOB =
     Some (- EROFS, replicate 8 0, None, Some ((sample 0)\<lparr>ni_protected := 1\<rparr>))"
  using nmbm_protected_refuses [of "(sample 0)\<lparr>ni_protected := 1\<rparr>"] by simp

section \<open>Sequences of operations\<close>

text \<open>
  One call of the exported interface on an attached instance, with any arguments a caller
  may pass: buffers at least as long as the transfer, and for an erasure a size that does
  not wrap.
\<close>

inductive api_step :: "'d nmbm_instance \<Rightarrow> 'd nmbm_instance \<Rightarrow> bool" where
  api_erase: "unat addr + unat len < 2 ^ 64 \<Longrightarrow>
    nmbm_erase_block_range (Some ni) addr len = Some (ret, failed, Some ni') \<Longrightarrow> api_step ni ni'"
| api_read_page: "nmbm_read_single_page (Some ni) addr data oob mode = Some (ret, bufs, Some ni') \<Longrightarrow> api_step ni ni'"
| api_read: "unat sz \<le> length buf \<Longrightarrow>
    nmbm_read_range (Some ni) addr sz buf mode = Some (ret, buf', retlen, Some ni') \<Longrightarrow> api_step ni ni'"
| api_write_page: "nmbm_write_single_page (Some ni) addr data oob mode = Some (ret, Some ni') \<Longrightarrow> api_step ni ni'"
| api_write: "unat sz \<le> length buf \<Longrightarrow>
    nmbm_write_range (Some ni) addr sz buf mode = Some (ret, retlen, Some ni') \<Longrightarrow> api_step ni ni'"
| api_mark_bad: "nmbm_mark_bad_block (Some ni) addr = Some (ret, Some ni') \<Longrightarrow> api_step ni ni'"
| api_detach: "nmbm_detach (Some ni) = Some (ret, Some ni') \<Longrightarrow> api_step ni ni'"

inductive_cases api_stepE: "api_step ni ni'"

text \<open>Each operation, seen from its caller: it returns an attached instance.\<close>

lemma read_single_page_attached:
  assumes "attached ni"
  shows "returns (nmbm_read_single_page (Some ni) addr data oob mode)
    (\<lambda>(ret, bufs, nip). \<exists>ni'. nip = Some ni' \<and> attached ni')"
proof (cases "ni_protected ni \<noteq> 0 \<or> addr \<ge> ba2addr ni (ni_data_block_count ni)")
  case True
  with assms show ?thesis by (auto simp: nmbm_read_single_page_def ret_simps)
next
  case False
  with attached_addr(2) [OF assms, of addr] assms show ?thesis
    by (auto simp: nmbm_read_single_page_def ret_simps serves_def intro!: read_logic_page_wp)
qed

lemma write_single_page_attached:
  assumes "attached ni"
  shows "returns (nmbm_write_single_page (Some ni) addr data oob mode)
    (\<lambda>(ret, nip). \<exists>ni'. nip = Some ni' \<and> attached ni')"
proof (cases "ni_protected ni \<noteq> 0 \<or> addr \<ge> ba2addr ni (ni_data_block_count ni)")
  case True
  with assms show ?thesis by (auto simp: nmbm_write_single_page_def ret_simps)
next
  case False
  with attached_addr(2) [OF assms, of addr] assms show ?thesis
    by (auto simp: nmbm_write_single_page_def ret_simps serves_def intro!: write_logic_page_wp)
qed

lemma mark_bad_block_attached:
  assumes "attached ni"
  shows "returns (nmbm_mark_bad_block (Some ni) addr) (\<lambda>(ret, nip). \<exists>ni'. nip = Some ni' \<and> attached ni')"
proof (cases "addr < ba2addr ni (ni_data_block_count ni)")
  case True
  from mark_bad_block_unmapped [OF assms this] show ?thesis by (rule returns_mono) auto
next
  case False
  with assms show ?thesis by (auto simp: nmbm_mark_bad_block_def ret_simps not_less)
qed

lemma detach_attached:
  "attached ni \<Longrightarrow> returns (nmbm_detach (Some ni)) (\<lambda>(ret, nip). \<exists>ni'. nip = Some ni' \<and> attached ni')"
  by (auto simp: nmbm_detach_def ret_simps intro!: update_attached_wp)

lemma api_step_attached: "api_step ni ni' \<Longrightarrow> attached ni \<Longrightarrow> attached ni'"
proof (induction rule: api_step.induct)
  case (api_erase addr len ni ret failed ni')
  then show ?case using erase_block_range_returns [of ni addr len] by auto
next
  case (api_read_page ni addr data oob mode ret bufs ni')
  then show ?case
    using read_single_page_attached [of ni addr data oob mode] by (auto simp: returns_iff)
next
  case (api_read sz buf ni addr mode ret buf' retlen ni')
  then show ?case using read_range_returns [of ni sz buf addr mode]
    by (auto simp: returns_iff serves_def)
next
  case (api_write_page ni addr data oob mode ret ni')
  then show ?case
    using write_single_page_attached [of ni addr data oob mode] by (auto simp: returns_iff)
next
  case (api_write sz buf ni addr mode ret retlen ni')
  then show ?case using write_range_returns [of ni sz buf addr mode]
    by (auto simp: returns_iff serves_def)
next
  case (api_mark_bad ni addr ret ni')
  then show ?case using mark_bad_block_attached [of ni addr] by (auto simp: returns_iff)
next
  case (api_detach ni ret ni')
  then show ?case using detach_attached [of ni] by (auto simp: returns_iff)
qed

text \<open>
  C2: the invariant of an attached instance survives every sequence of calls of the exported
  operations (erasing, reading and writing ranges and single pages, marking bad blocks,
  saving the tables), in any order, with any arguments and any behaviour of the chip: the
  instance reached is attached again.
\<close>

theorem nmbm_calls_keep_attached:
  assumes "attached ni" and "api_step\<^sup>*\<^sup>* ni ni'"
  shows "attached ni'"
  using assms(2,1) by (induction rule: rtranclp_induct) (auto intro: api_step_attached)

theorem nmbm_calls_keep_attached_witness:
  "\<exists>ni'. api_step (sample 5) ni' \<and> attached ni'"
proof -
  obtain ret ni' where "nmbm_detach (Some (sample 5)) = Some (ret, Some ni')"
    using detach_attached [of "sample 5"] by (auto simp: returns_iff)
  then have step: "api_step (sample 5) ni'" by (rule api_detach)
  from nmbm_calls_keep_attached [OF sample_attached r_into_rtranclp [of api_step, OF this]]
  show ?thesis using step by blast
qed

end
