(* ===== verification/Nmbm_Image.thy ===== *)
theory Nmbm_Image
  imports Nmbm_Device
begin

text \<open>
  NMBM as a linear array of bytes. On a chip that works, an instance whose data blocks are
  all mapped to good blocks implements a flash: every logical address has a byte, a ranged
  read returns the bytes of the range, a ranged write programs them, and an erasure sets
  whole blocks to \<open>0xff\<close>, without touching anything else.

  What the chip promises is the contract \<open>reliable_chip\<close>. The chip is hardware, so the
  contract is provided by the reference chip of \<open>Nand_Sim\<close>.
\<close>

section \<open>Arithmetic of pages and blocks\<close>

lemma unat_and_mask:
  assumes "unat (m :: 'a::len word) = 2 ^ n - 1" and "n \<le> LENGTH('a)"
  shows "unat (w AND m) = unat w mod 2 ^ n"
proof -
  have "m = of_nat (unat m)" by simp
  also have "\<dots> = mask n" unfolding assms(1) by (simp add: of_nat_diff mask_eq_exp_minus_1)
  finally have "m = mask n" .
  then have "w AND m = take_bit n w" by (simp add: take_bit_eq_mask)
  then have "unat (w AND m) = take_bit n (unat w)" by (simp only: unsigned_take_bit_eq)
  then show ?thesis by (simp add: take_bit_eq_mod)
qed

lemma pow2_dvd: "(2::nat) ^ k \<le> 2 ^ n \<Longrightarrow> 2 ^ k dvd (2::nat) ^ n"
  by (simp add: le_imp_power_dvd power_le_imp_le_exp)

text \<open>A page does not straddle a block boundary.\<close>

lemma page_in_block:
  assumes "ws dvd (es :: nat)" and "a mod ws = 0" and "i < ws" and "0 < es"
  shows "(a + i) div es = a div es" "(a + i) mod es = a mod es + i"
proof -
  obtain q where es: "es = ws * q" using assms(1) by blast
  have "a mod es mod ws = 0" using assms(1,2) by (simp add: mod_mod_cancel)
  then obtain r where r: "a mod es = ws * r" by (auto simp: mod_eq_0_iff_dvd)
  have "ws * r < ws * q" using mod_less_divisor [OF assms(4), of a] r es by simp
  then have "Suc r \<le> q" by simp
  then have "ws * Suc r \<le> ws * q" by (rule mult_le_mono2)
  then have lt: "a mod es + i < es" using r es assms(3) by simp
  show "(a + i) mod es = a mod es + i"
    using lt by (metis mod_add_left_eq mod_less)
  show "(a + i) div es = a div es" using lt by (simp add: div_add1_eq [of a i es])
qed

lemma page_above:
  assumes "ws dvd (p :: nat)" and "p \<le> x" and "x < p + ws" and "x div ws < a div ws"
  shows "p + ws \<le> a"
proof -
  obtain q where p: "p = ws * q" using assms(1) by blast
  have "x div ws = q" using assms(2,3) by (intro div_nat_eqI) (simp_all add: p)
  then have "Suc q * ws \<le> a div ws * ws" using assms(4) by (intro mult_le_mono1) simp
  also have "\<dots> \<le> a" by simp
  finally show ?thesis by (simp add: p mult.commute)
qed

lemma block_iff: "0 < es \<Longrightarrow> q * es \<le> x \<and> x < q * es + es \<longleftrightarrow> x div es = (q :: nat)"
  using div_times_less_eq_dividend [of x es] dividend_less_div_times [of es x]
  by (auto simp: mult.commute intro: div_nat_eqI)

lemma ff_and: "(0xff :: u8) AND x = x"
proof -
  have "(0xff :: u8) = - 1" by simp
  then show ?thesis by (simp only: and.left_neutral)
qed

lemma block_before: "a div es < b div es \<Longrightarrow> a < (b :: nat)"
  by (meson div_le_mono leD leI)

lemma page_after:
  assumes "ws dvd (es :: nat)" and "x div es < a div es" and "0 < es"
  shows "x div ws < a div ws"
proof (rule ccontr)
  assume "\<not> ?thesis"
  then have "a div ws \<le> x div ws" by simp
  moreover obtain q where "es = ws * q" using assms(1) by blast
  ultimately have "a div es \<le> x div es" by (simp add: div_mult2_eq div_le_mono)
  with assms(2) show False by simp
qed

section \<open>The logical image\<close>

text \<open>
  Where a logical address lives on the chip, and the byte it holds, for a chip whose state
  \<open>d\<close> stands for the bytes \<open>img d\<close>.
\<close>

definition paddr :: "'d nmbm_instance \<Rightarrow> nat \<Rightarrow> nat" where
  "paddr ni a = unat (ni_block_mapping ni ! (a div unat (ni_erasesize ni))) * unat (ni_erasesize ni)
     + a mod unat (ni_erasesize ni)"

definition image_of :: "('d \<Rightarrow> nat \<Rightarrow> u8) \<Rightarrow> 'd nmbm_instance \<Rightarrow> nat \<Rightarrow> u8" where
  "image_of img ni a = img (ni_arg ni) (paddr ni a)"

abbreviation logic_size :: "'d nmbm_instance \<Rightarrow> nat" where
  "logic_size ni \<equiv> unat (ni_data_block_count ni) * unat (ni_erasesize ni)"

text \<open>
  A healthy instance: attached, not protected, and every data block mapped to a good
  physical block of its own.
\<close>

definition healthy :: "'d nmbm_instance \<Rightarrow> bool" where
  "healthy ni \<longleftrightarrow> attached ni \<and> ni_protected ni = 0 \<and> (\<exists>k. unat (ni_writesize ni) = 2 ^ k) \<and>
     unat (ni_block_count ni) * unat (ni_erasesize ni) \<le> unat (nld_size (ni_lower ni)) \<and>
     (\<forall>lb < unat (ni_data_block_count ni). 0 \<le> sint (ni_block_mapping ni ! lb) \<and>
        good ni (ni_block_mapping ni ! lb)) \<and>
     inj_on (\<lambda>lb. ni_block_mapping ni ! lb) {..< unat (ni_data_block_count ni)}"

text \<open>
  What a ranged write has programmed once it reached \<open>off\<close>: the bytes from \<open>addr\<close> on are the
  old ones masked with the data. The rest of the page that holds the last byte is left open
  when the write is over (\<open>fin\<close>).
\<close>

definition programmed :: "('d \<Rightarrow> nat \<Rightarrow> u8) \<Rightarrow> u8 list \<Rightarrow> nat \<Rightarrow> 'd nmbm_instance \<Rightarrow> 'd nmbm_instance \<Rightarrow> nat \<Rightarrow> bool \<Rightarrow> bool"
where
  "programmed img data addr ni ni' off fin \<longleftrightarrow> (\<forall>a < logic_size ni. a < off \<or>
     (if fin then (off - 1) div unat (ni_writesize ni) < a div unat (ni_writesize ni) else off \<le> a) \<longrightarrow>
     image_of img ni' a = (if addr \<le> a \<and> a < off
       then image_of img ni a AND data ! (a - addr) else image_of img ni a))"

lemma programmed_start: "programmed img data addr ni ni addr fin"
  by (simp add: programmed_def)

lemma programmed_step:
  assumes "programmed img data addr ni ni' off False"
    and new: "\<forall>a < logic_size ni'. a < off + n \<or> p + unat (ni_writesize ni') \<le> a \<longrightarrow>
       image_of img ni2 a = (if off \<le> a \<and> a < off + n
         then image_of img ni' a AND data ! (k + (a - off)) else image_of img ni' a)"
    and fields: "logic_size ni' = logic_size ni" "ni_writesize ni' = ni_writesize ni"
    and k: "off - addr = k" "addr \<le> off"
    and p: "unat (ni_writesize ni') dvd p" "p \<le> off" "off + n \<le> p + unat (ni_writesize ni')" "0 < n"
    and last: "fin \<or> p + unat (ni_writesize ni') = off + n"
  shows "programmed img data addr ni ni2 (off + n) fin"
  unfolding programmed_def
proof (intro allI impI)
  fix a
  assume a: "a < logic_size ni" and out: "a < off + n \<or>
    (if fin then (off + n - 1) div unat (ni_writesize ni) < a div unat (ni_writesize ni) else off + n \<le> a)"
  have "p + unat (ni_writesize ni') \<le> a"
    if "(off + n - 1) div unat (ni_writesize ni) < a div unat (ni_writesize ni)"
    by (rule page_above [OF p(1), of "off + n - 1"]) (use p that fields in simp_all)
  then have out': "a < off + n \<or> p + unat (ni_writesize ni') \<le> a"
    using out last by (cases fin) auto
  have a': "a < logic_size ni'" using a fields by simp
  note new' = new [rule_format, OF a' out']
  have old: "image_of img ni' a = (if addr \<le> a \<and> a < off
      then image_of img ni a AND data ! (a - addr) else image_of img ni a)"
    using assms(1) a unfolding programmed_def by (cases "a < off") auto
  have "k + (a - off) = a - addr" if "off \<le> a" using that k by simp
  then show "image_of img ni2 a = (if addr \<le> a \<and> a < off + n
      then image_of img ni a AND data ! (a - addr) else image_of img ni a)"
    unfolding new' old using k by auto
qed

lemma healthyD:
  assumes "healthy ni"
  shows "attached ni" "ni_protected ni = 0" "0 < unat (ni_erasesize ni)" "0 < unat (ni_writesize ni)"
    "unat (ni_writesize ni) dvd unat (ni_erasesize ni)"
    "unat (ni_erasesize ni) = 2 ^ unat (ni_erasesize_shift ni)" "unat (ni_erasesize_shift ni) \<le> 31"
    "\<exists>k. unat (ni_writesize ni) = 2 ^ k"
    "ba2addr ni (ni_data_block_count ni) = of_nat (logic_size ni)"
    "unat (ba2addr ni (ni_data_block_count ni)) = logic_size ni"
proof -
  show att: "attached ni" and "ni_protected ni = 0" and k: "\<exists>k. unat (ni_writesize ni) = 2 ^ k"
    using assms by (auto simp: healthy_def)
  show es: "unat (ni_erasesize ni) = 2 ^ unat (ni_erasesize_shift ni)" "unat (ni_erasesize_shift ni) \<le> 31"
    using attachedD(6,7) [OF att] by simp_all
  then show "0 < unat (ni_erasesize ni)" by simp
  obtain k where "unat (ni_writesize ni) = 2 ^ k" using k by blast
  moreover have "unat (ni_writesize ni) \<le> unat (ni_erasesize ni)"
    using attachedD(3) [OF att] by (simp add: page_geom_def word_le_nat_alt)
  ultimately show "0 < unat (ni_writesize ni)" "unat (ni_writesize ni) dvd unat (ni_erasesize ni)"
    using es by (auto intro: pow2_dvd)
  show sz: "unat (ba2addr ni (ni_data_block_count ni)) = logic_size ni"
    using es by (simp add: unat_ba2addr)
  show "ba2addr ni (ni_data_block_count ni) = of_nat (logic_size ni)"
    unfolding sz [symmetric] by simp
qed

lemma healthy_upd:
  "healthy ni \<Longrightarrow> length c = length (ni_page_cache ni) \<Longrightarrow> healthy (ni\<lparr>ni_arg := d, ni_page_cache := c\<rparr>)"
  by (auto simp: healthy_def attached_def layout_def geom_def page_geom_def states_cover_def)

lemma paddr_upd [simp]: "paddr (ni\<lparr>ni_arg := d, ni_page_cache := c\<rparr>) = paddr ni"
  "paddr (ni\<lparr>ni_arg := d\<rparr>) = paddr ni" "paddr (ni\<lparr>ni_page_cache := c\<rparr>) = paddr ni"
  by (simp_all add: paddr_def fun_eq_iff)

text \<open>The words the code computes with, for an address of the device.\<close>

lemma healthy_block:
  assumes "healthy ni" and "unat addr < logic_size ni"
  shows "unat (addr2ba ni addr) = unat addr div unat (ni_erasesize ni)"
    "unat (addr2ba ni addr) < length (ni_block_mapping ni)"
    "unat (addr2ba ni addr) < unat (ni_data_block_count ni)"
    "0 \<le> sint (ni_block_mapping ni ! unat (addr2ba ni addr))"
    "good ni (ni_block_mapping ni ! unat (addr2ba ni addr))"
    "ni_block_mapping ni ! unat (addr2ba ni addr) < ni_block_count ni"
    "unat (ba2addr ni (ni_block_mapping ni ! unat (addr2ba ni addr)) +
       ucast (ucast (addr AND ucast (ni_erasesize_mask ni)) :: u32)) = paddr ni (unat addr)"
proof -
  note h = healthyD [OF assms(1)]
  let ?es = "unat (ni_erasesize ni)" and ?pb = "ni_block_mapping ni ! unat (addr2ba ni addr)"
  have lt: "addr < ba2addr ni (ni_data_block_count ni)"
    using assms(2) h(10) by (simp add: word_less_nat_alt)
  note a = attached_addr [OF h(1) lt]
  have "unat addr div ?es < unat (ni_data_block_count ni)"
    using assms(2) by (simp add: less_mult_imp_div_less)
  then show ba: "unat (addr2ba ni addr) = unat addr div ?es"
    using h(6) unat_u32_less [of "ni_data_block_count ni"] by (simp add: unat_addr2ba)
  show len: "unat (addr2ba ni addr) < length (ni_block_mapping ni)"
    and dbc: "unat (addr2ba ni addr) < unat (ni_data_block_count ni)"
    using a by (simp_all add: word_less_nat_alt)
  show pb: "0 \<le> sint ?pb" and "good ni ?pb" using assms(1) dbc by (auto simp: healthy_def)
  show bc: "?pb < ni_block_count ni" using attached_mapping [OF h(1) len pb] .
  have m: "unat (ucast (ni_erasesize_mask ni) :: u64) = 2 ^ unat (ni_erasesize_shift ni) - 1"
    using attachedD(3) [OF h(1)] h(3,6) unat_dec [of "ni_erasesize ni"] by (auto simp: page_geom_def)
  have off: "unat (addr AND ucast (ni_erasesize_mask ni)) = unat addr mod ?es"
    using unat_and_mask [OF m] h(6,7) by simp
  moreover have "unat addr mod ?es < ?es" using h(3) by simp
  moreover have "?es < 2 ^ 32" by (rule unat_u32_less)
  ultimately have off': "unat (ucast (ucast (addr AND ucast (ni_erasesize_mask ni)) :: u32) :: u64) = unat addr mod ?es"
    by (simp add: unat_ucast_u32)
  have "unat ?pb * ?es + ?es \<le> 2 ^ 32 * 2 ^ 31"
  proof -
    have "Suc (unat ?pb) * ?es \<le> 2 ^ 32 * 2 ^ 31"
    proof (rule mult_le_mono)
      show "Suc (unat ?pb) \<le> 2 ^ 32" using unat_u32_less [of ?pb] by (rule Suc_leI)
      show "?es \<le> 2 ^ 31" unfolding h(6) using h(7) by (rule power_increasing) simp
    qed
    then show ?thesis by simp
  qed
  then have "unat ?pb * ?es + unat addr mod ?es < 2 ^ 64"
    using \<open>unat addr mod ?es < ?es\<close> by simp
  then have "unat (ba2addr ni ?pb + ucast (ucast (addr AND ucast (ni_erasesize_mask ni)) :: u32)) =
      unat ?pb * ?es + unat addr mod ?es"
    using h(6,7) off' by (simp add: unat_word_ariths unat_ba2addr)
  then show "unat (ba2addr ni ?pb + ucast (ucast (addr AND ucast (ni_erasesize_mask ni)) :: u32)) = paddr ni (unat addr)"
    by (simp add: paddr_def ba)
qed


lemma paddr_page:
  assumes "healthy ni" and "unat (ni_writesize ni) dvd a" and "a < logic_size ni"
  shows "i < unat (ni_writesize ni) \<Longrightarrow> paddr ni (a + i) = paddr ni a + i"
    "unat (ni_writesize ni) dvd paddr ni a"
    "paddr ni a + unat (ni_writesize ni) \<le> unat (nld_size (ni_lower ni))"
proof -
  note h = healthyD [OF assms(1)]
  let ?es = "unat (ni_erasesize ni)" and ?ws = "unat (ni_writesize ni)"
  have a: "a mod ?ws = 0" using assms(2) by simp
  show "paddr ni (a + i) = paddr ni a + i" if "i < ?ws" for i
    using page_in_block [OF h(5) a that h(3)] by (simp add: paddr_def)
  show "?ws dvd paddr ni a"
    unfolding paddr_def using h(5) assms(2) by (auto intro!: dvd_add dvd_mult simp: dvd_mod)
  have "a mod ?es + (?ws - 1) < ?es"
    using page_in_block(2) [OF h(5) a, of "?ws - 1"] h(3,4) mod_less_divisor [of ?es "a + (?ws - 1)"] by simp
  moreover have lb: "a div ?es < unat (ni_data_block_count ni)"
    using assms(3) by (simp add: less_mult_imp_div_less)
  then have "unat (ni_block_mapping ni ! (a div ?es)) < unat (ni_block_count ni)"
    using assms(1) attached_mapping [OF h(1), of "a div ?es"] attachedD(8,9) [OF h(1)]
    by (simp add: healthy_def word_less_nat_alt word_le_nat_alt)
  then have "(unat (ni_block_mapping ni ! (a div ?es)) + 1) * ?es \<le> unat (ni_block_count ni) * ?es"
    by (intro mult_le_mono1) simp
  ultimately have "paddr ni a + ?ws \<le> unat (ni_block_count ni) * ?es"
    using h(4) by (simp add: paddr_def)
  also have "\<dots> \<le> unat (nld_size (ni_lower ni))" using assms(1) by (simp add: healthy_def)
  finally show "paddr ni a + ?ws \<le> unat (nld_size (ni_lower ni))" .
qed

text \<open>Different logical addresses have different places on the chip.\<close>

lemma paddr_inj:
  assumes "healthy ni" and "a < logic_size ni" and "b < logic_size ni" and "paddr ni a = paddr ni b"
  shows "a = b"
proof -
  let ?es = "unat (ni_erasesize ni)" and ?m = "\<lambda>a. ni_block_mapping ni ! (a div unat (ni_erasesize ni))"
  have es: "0 < ?es" using healthyD(3) [OF assms(1)] .
  from assms(4) have "(unat (?m a) * ?es + a mod ?es) div ?es = (unat (?m b) * ?es + b mod ?es) div ?es"
    and "(unat (?m a) * ?es + a mod ?es) mod ?es = (unat (?m b) * ?es + b mod ?es) mod ?es"
    by (simp_all add: paddr_def)
  then have "unat (?m a) = unat (?m b)" and mod: "a mod ?es = b mod ?es" using es by simp_all
  then have "?m a = ?m b" by (simp add: word_unat_eq_iff)
  moreover have "a div ?es < unat (ni_data_block_count ni)" "b div ?es < unat (ni_data_block_count ni)"
    using assms(2,3) by (auto simp: less_mult_imp_div_less)
  ultimately have "a div ?es = b div ?es"
    using assms(1) by (auto simp: healthy_def inj_on_def)
  with mod show ?thesis by (metis div_mult_mod_eq)
qed

text \<open>The \<open>n\<close> bytes from a logical address on.\<close>

definition image_bytes :: "('d \<Rightarrow> nat \<Rightarrow> u8) \<Rightarrow> 'd nmbm_instance \<Rightarrow> nat \<Rightarrow> nat \<Rightarrow> bytes" where
  "image_bytes img ni a n = map (\<lambda>i. image_of img ni (a + i)) [0..<n]"

lemma length_image_bytes [simp]: "length (image_bytes img ni a n) = n"
  by (simp add: image_bytes_def)

lemma nth_image_bytes [simp]: "i < n \<Longrightarrow> image_bytes img ni a n ! i = image_of img ni (a + i)"
  by (simp add: image_bytes_def)

lemma image_bytes_slice: "k + n \<le> m \<Longrightarrow> take n (drop k (image_bytes img ni a m)) = image_bytes img ni (a + k) n"
  by (rule nth_equalityI) (auto simp: add.assoc)

lemma image_bytes_append: "image_bytes img ni a m @ image_bytes img ni (a + m) n = image_bytes img ni a (m + n)"
  by (rule nth_equalityI) (auto simp: nth_append)

text \<open>The chunk a ranged transfer moves next, in natural numbers.\<close>

lemma page_chunk_nat:
  assumes "healthy ni" and "page_chunk ni off sr = (leading, chunk)"
  shows "unat leading = unat off mod unat (ni_writesize ni)"
    "unat (off - ucast leading) = unat off - unat off mod unat (ni_writesize ni)"
    "unat (ni_writesize ni) dvd unat (off - ucast leading)"
    "unat (off - ucast leading) + unat leading = unat off"
    "chunk = sr \<or> unat leading + unat chunk = unat (ni_writesize ni)"
proof -
  note h = healthyD [OF assms(1)]
  let ?ws = "unat (ni_writesize ni)"
  obtain k where k: "?ws = 2 ^ k" using h(8) by blast
  have m: "unat (ucast (ni_writesize_mask ni) :: u64) = 2 ^ k - 1"
    using attachedD(3) [OF h(1)] h(4) k unat_dec [of "ni_writesize ni"] by (auto simp: page_geom_def)
  have "(2::nat) ^ k < 2 ^ 32" using unat_u32_less [of "ni_writesize ni"] k by simp
  then have "k < 32" using power_less_imp_less_exp [of 2 k 32] by simp
  then have l: "unat (off AND ucast (ni_writesize_mask ni)) = unat off mod ?ws"
    using unat_and_mask [OF m] k by simp
  have lt: "unat off mod ?ws < ?ws" using h(4) by simp
  have lead: "leading = ucast (off AND ucast (ni_writesize_mask ni))"
    using assms(2) by (simp add: page_chunk_def Let_def)
  show lo: "unat leading = unat off mod ?ws"
    unfolding lead unat_ucast_u32 l using lt unat_u32_less [of "ni_writesize ni"] by simp
  have "unat (ucast leading :: u64) \<le> unat off" using lo by simp
  then show sub: "unat (off - ucast leading) = unat off - unat off mod ?ws"
    using lo by (simp add: unat_sub word_le_nat_alt)
  then show "?ws dvd unat (off - ucast leading)" by (simp add: minus_mod_eq_mult_div)
  show "unat (off - ucast leading) + unat leading = unat off" using sub lo by simp
  have "leading \<le> ni_writesize ni" using lo lt by (simp add: word_le_nat_alt)
  then show "chunk = sr \<or> unat leading + unat chunk = ?ws"
    using assms(2) lead by (auto simp: page_chunk_def Let_def unat_sub word_le_nat_alt split: if_splits)
qed

section \<open>A reliable chip\<close>

text \<open>
  A chip that does what it is told: \<open>fit d\<close> says that the state \<open>d\<close> is a sound one, \<open>img d\<close>
  the bytes of its pages. A read of a page returns its bytes, programming a page can only
  clear bits of it, and erasing a block sets its bytes to \<open>0xff\<close>.
\<close>

locale reliable_chip =
  fixes L :: "'d nmbm_lower_device" and fit :: "'d \<Rightarrow> bool" and img :: "'d \<Rightarrow> nat \<Rightarrow> u8"
  assumes reads: "fit d \<Longrightarrow> unat (nld_writesize L) dvd unat addr \<Longrightarrow>
      unat addr + unat (nld_writesize L) \<le> unat (nld_size L) \<Longrightarrow> length buf = unat (nld_writesize L) \<Longrightarrow>
      \<exists>rd d'. nld_read_page L = Some rd \<and> fit d' \<and> img d' = img d \<and>
        rd d addr (Some buf) None NMBM_MODE_PLACE_OOB =
          (0, Some (map (\<lambda>i. img d (unat addr + i)) [0..<unat (nld_writesize L)]), None, d')"
    and writes: "fit d \<Longrightarrow> unat (nld_writesize L) dvd unat addr \<Longrightarrow>
      unat addr + unat (nld_writesize L) \<le> unat (nld_size L) \<Longrightarrow> length data = unat (nld_writesize L) \<Longrightarrow>
      \<exists>wr d'. nld_write_page L = Some wr \<and> fit d' \<and> wr d addr (Some data) None NMBM_MODE_PLACE_OOB = (0, d') \<and>
        (\<forall>a. img d' a = (if unat addr \<le> a \<and> a < unat addr + unat (nld_writesize L)
           then img d a AND data ! (a - unat addr) else img d a))"
    and erases: "fit d \<Longrightarrow> unat (nld_erasesize L) dvd unat addr \<Longrightarrow>
      unat addr + unat (nld_erasesize L) \<le> unat (nld_size L) \<Longrightarrow>
      \<exists>er d'. nld_erase_block L = Some er \<and> fit d' \<and> er d addr = (0, d') \<and>
        (\<forall>a. img d' a = (if unat addr \<le> a \<and> a < unat addr + unat (nld_erasesize L) then 0xff else img d a))"
begin

lemma read_phys:
  assumes "ni_lower ni = L" "fit (ni_arg ni)" "unat (nld_writesize L) dvd unat addr"
    "unat addr + unat (nld_writesize L) \<le> unat (nld_size L)" "length buf = unat (nld_writesize L)"
  obtains d' where "fit d'" "img d' = img (ni_arg ni)"
    "nmbm_read_phys_page ni addr (Some buf) None NMBM_MODE_PLACE_OOB =
       Some (0, Some (map (\<lambda>i. img (ni_arg ni) (unat addr + i)) [0..<unat (nld_writesize L)]), None,
         ni\<lparr>ni_arg := d'\<rparr>)"
  using reads [OF assms(2-5)] assms(1)
  by (auto simp: nmbm_read_phys_page_def numeral_3_eq_3)

lemma write_phys:
  assumes "ni_lower ni = L" "fit (ni_arg ni)" "unat (nld_writesize L) dvd unat addr"
    "unat addr + unat (nld_writesize L) \<le> unat (nld_size L)" "length data = unat (nld_writesize L)"
  obtains d' where "fit d'"
    "\<forall>a. img d' a = (if unat addr \<le> a \<and> a < unat addr + unat (nld_writesize L)
       then img (ni_arg ni) a AND data ! (a - unat addr) else img (ni_arg ni) a)"
    "nmbm_write_phys_page ni addr (Some data) None NMBM_MODE_PLACE_OOB = Some (True, ni\<lparr>ni_arg := d'\<rparr>)"
  using writes [OF assms(2-5)] assms(1)
  by (auto simp: nmbm_write_phys_page_def numeral_3_eq_3)

lemma erase_phys:
  assumes "ni_lower ni = L" "fit (ni_arg ni)" "unat (nld_erasesize L) dvd unat addr"
    "unat addr + unat (nld_erasesize L) \<le> unat (nld_size L)"
  obtains d' where "fit d'"
    "\<forall>a. img d' a = (if unat addr \<le> a \<and> a < unat addr + unat (nld_erasesize L) then 0xff else img (ni_arg ni) a)"
    "nmbm_erase_phys_block ni addr = Some (True, ni\<lparr>ni_arg := d'\<rparr>)"
  using erases [OF assms(2-4)] assms(1)
  by (auto simp: nmbm_erase_phys_block_def numeral_3_eq_3)

text \<open>A running device: a healthy instance on this chip.\<close>

abbreviation running :: "'d nmbm_instance \<Rightarrow> bool" where
  "running ni \<equiv> healthy ni \<and> ni_lower ni = L \<and> fit (ni_arg ni)"

text \<open>The physical page behind a logical one, and the state of its block.\<close>

lemma phys_page:
  assumes "running ni" and "unat (ni_writesize ni) dvd unat addr" and "unat addr < logic_size ni"
  obtains pb pa where "arr_get (ni_block_mapping ni) (unat (addr2ba ni addr)) = Some pb" "0 \<le> sint pb"
    "nmbm_get_block_state ni pb = Some 3"
    "pa = ba2addr ni pb + ucast (ucast (addr AND ucast (ni_erasesize_mask ni)) :: u32)"
    "unat pa = paddr ni (unat addr)" "unat (nld_writesize L) dvd unat pa"
    "unat pa + unat (nld_writesize L) \<le> unat (nld_size L)"
    "map (\<lambda>i. img (ni_arg ni) (unat pa + i)) [0..<unat (nld_writesize L)] =
       image_bytes img ni (unat addr) (unat (ni_writesize ni))"
proof -
  have h: "healthy ni" and l: "ni_lower ni = L" using assms(1) by auto
  note b = healthy_block [OF h assms(3)] and p = paddr_page [OF h assms(2,3)]
  show ?thesis
  proof (rule that [OF _ b(4) _ refl b(7)])
    show "nmbm_get_block_state ni (ni_block_mapping ni ! unat (addr2ba ni addr)) = Some 3"
      using b(5) states_coverD [OF attachedD(4) [OF healthyD(1) [OF h]] b(6)]
      by (simp add: nmbm_get_block_state_def get_block_state_raw_eq)
  qed (use b p l in \<open>auto simp: arr_get_def image_of_def image_bytes_def\<close>)
qed

lemma read_page:
  assumes "running ni" and "unat (ni_writesize ni) dvd unat addr" and "unat addr < logic_size ni"
    and "length buf = unat (ni_writesize ni)"
  obtains d' where "fit d'" "img d' = img (ni_arg ni)"
    "nmbm_read_logic_page ni addr (Some buf) None NMBM_MODE_PLACE_OOB =
       Some (0, (Some (image_bytes img ni (unat addr) (unat (ni_writesize ni))), None), ni\<lparr>ni_arg := d'\<rparr>)"
proof -
  have l: "ni_lower ni = L" and f: "fit (ni_arg ni)" using assms(1) by auto
  have len: "length buf = unat (nld_writesize L)" using assms(4) l by simp
  obtain pb pa where p: "arr_get (ni_block_mapping ni) (unat (addr2ba ni addr)) = Some pb" "0 \<le> sint pb"
      "nmbm_get_block_state ni pb = Some 3"
      "pa = ba2addr ni pb + ucast (ucast (addr AND ucast (ni_erasesize_mask ni)) :: u32)"
    and pa: "unat (nld_writesize L) dvd unat pa" "unat pa + unat (nld_writesize L) \<le> unat (nld_size L)"
    and bytes: "map (\<lambda>i. img (ni_arg ni) (unat pa + i)) [0..<unat (nld_writesize L)] =
       image_bytes img ni (unat addr) (unat (ni_writesize ni))"
    by (rule phys_page [OF assms(1-3)])
  obtain d' where "fit d'" "img d' = img (ni_arg ni)"
    and "nmbm_read_phys_page ni pa (Some buf) None NMBM_MODE_PLACE_OOB =
       Some (0, Some (map (\<lambda>i. img (ni_arg ni) (unat pa + i)) [0..<unat (nld_writesize L)]), None, ni\<lparr>ni_arg := d'\<rparr>)"
    by (rule read_phys [OF l f pa len])
  with p show ?thesis
    unfolding bytes
    by (intro that) (auto simp: nmbm_read_logic_page_def read_logic_page_with_def read_phys_to_buffers_def Let_def)
qed

lemma read_page_cache:
  assumes "running ni" and "unat (ni_writesize ni) dvd unat addr" and "unat addr < logic_size ni"
  obtains d' where "fit d'" "img d' = img (ni_arg ni)"
    "read_logic_page_to_cache ni addr NMBM_MODE_PLACE_OOB =
       Some (0, (), ni\<lparr>ni_arg := d', ni_page_cache := image_bytes img ni (unat addr) (unat (ni_writesize ni)) @
         drop (unat (ni_writesize ni)) (ni_page_cache ni)\<rparr>)"
proof -
  let ?ws = "unat (ni_writesize ni)" and ?buf = "take (unat (ni_writesize ni)) (ni_page_cache ni)"
  have h: "healthy ni" and l: "ni_lower ni = L" and f: "fit (ni_arg ni)" using assms(1) by auto
  have ws: "?ws \<le> length (ni_page_cache ni)"
    using attachedD(3) [OF healthyD(1) [OF h]] by (simp add: page_geom_def)
  then have len: "length ?buf = unat (nld_writesize L)" using l by simp
  obtain pb pa where p: "arr_get (ni_block_mapping ni) (unat (addr2ba ni addr)) = Some pb" "0 \<le> sint pb"
      "nmbm_get_block_state ni pb = Some 3"
      "pa = ba2addr ni pb + ucast (ucast (addr AND ucast (ni_erasesize_mask ni)) :: u32)"
    and pa: "unat (nld_writesize L) dvd unat pa" "unat pa + unat (nld_writesize L) \<le> unat (nld_size L)"
    and bytes: "map (\<lambda>i. img (ni_arg ni) (unat pa + i)) [0..<unat (nld_writesize L)] =
       image_bytes img ni (unat addr) (unat (ni_writesize ni))"
    by (rule phys_page [OF assms])
  obtain d' where "fit d'" "img d' = img (ni_arg ni)"
    and "nmbm_read_phys_page ni pa (Some ?buf) None NMBM_MODE_PLACE_OOB =
       Some (0, Some (map (\<lambda>i. img (ni_arg ni) (unat pa + i)) [0..<unat (nld_writesize L)]), None, ni\<lparr>ni_arg := d'\<rparr>)"
    by (rule read_phys [OF l f pa len])
  with p ws show ?thesis
    unfolding bytes
    by (intro that) (auto simp: read_logic_page_to_cache_def read_logic_page_with_def read_phys_to_cache_def
        read_page_to_cache_def mem_read_def mem_write_def Let_def)
qed

lemma write_page:
  assumes "running ni" and "unat (ni_writesize ni) dvd unat addr" and "unat addr < logic_size ni"
    and "length data = unat (ni_writesize ni)"
  obtains d' where "fit d'"
    "\<forall>a < logic_size ni. img d' (paddr ni a) = (if unat addr \<le> a \<and> a < unat addr + unat (ni_writesize ni)
       then image_of img ni a AND data ! (a - unat addr) else image_of img ni a)"
    "nmbm_write_logic_page ni addr (Some data) None NMBM_MODE_PLACE_OOB = Some (0, ni\<lparr>ni_arg := d'\<rparr>)"
proof -
  have h: "healthy ni" and l: "ni_lower ni = L" and f: "fit (ni_arg ni)" using assms(1) by auto
  note b = healthy_block [OF h assms(3)] and p = paddr_page [OF h assms(2,3)]
  let ?pa = "ba2addr ni (ni_block_mapping ni ! unat (addr2ba ni addr)) +
    ucast (ucast (addr AND ucast (ni_erasesize_mask ni)) :: u32)" and ?ws = "unat (ni_writesize ni)"
  have pa: "unat (nld_writesize L) dvd unat ?pa" "unat ?pa + unat (nld_writesize L) \<le> unat (nld_size L)"
    using p(2,3) b(7) l by simp_all
  have len: "length data = unat (nld_writesize L)" using assms(4) l by simp
  obtain d' where d': "fit d'"
    and im: "\<forall>a. img d' a = (if unat ?pa \<le> a \<and> a < unat ?pa + unat (nld_writesize L)
       then img (ni_arg ni) a AND data ! (a - unat ?pa) else img (ni_arg ni) a)"
    and wr: "nmbm_write_phys_page ni ?pa (Some data) None NMBM_MODE_PLACE_OOB = Some (True, ni\<lparr>ni_arg := d'\<rparr>)"
    by (rule write_phys [OF l f pa len])
  have st: "nmbm_get_block_state ni (ni_block_mapping ni ! unat (addr2ba ni addr)) = Some 3"
    using b(5,6) states_coverD [OF attachedD(4) [OF healthyD(1) [OF h]] b(6)]
    by (simp add: nmbm_get_block_state_def get_block_state_raw_eq)
  have inside: "unat addr \<le> a \<and> a < unat addr + ?ws \<and> paddr ni a = unat ?pa + (a - unat addr)"
    if "a < logic_size ni" "unat ?pa \<le> paddr ni a" "paddr ni a < unat ?pa + ?ws" for a
  proof -
    define i where "i = paddr ni a - unat ?pa"
    have i: "i < ?ws" "paddr ni a = paddr ni (unat addr + i)"
      using that(2,3) p(1) [of i] b(7) by (auto simp: i_def)
    have "unat addr + i < logic_size ni"
    proof -
      have "(unat addr + i) div unat (ni_erasesize ni) = unat addr div unat (ni_erasesize ni)"
        using page_in_block(1) [OF healthyD(5) [OF h] _ i(1) healthyD(3) [OF h], of "unat addr"] assms(2) by simp
      then show ?thesis
        using assms(3) healthyD(3) [OF h] by (metis div_less_iff_less_mult less_mult_imp_div_less)
    qed
    then have a: "a = unat addr + i" using paddr_inj [OF h that(1) _ i(2)] by simp
    show ?thesis unfolding a using i(1) p(1) [OF i(1)] b(7) by simp
  qed
  have "img d' (paddr ni a) = (if unat addr \<le> a \<and> a < unat addr + ?ws
      then image_of img ni a AND data ! (a - unat addr) else image_of img ni a)" if "a < logic_size ni" for a
  proof (cases "unat addr \<le> a \<and> a < unat addr + ?ws")
    case True
    then obtain i where a: "a = unat addr + i" "i < ?ws" by (metis le_iff_add nat_add_left_cancel_less)
    from p(1) [OF a(2)] b(7) have "paddr ni a = unat ?pa + i" by (simp add: a(1))
    with a im l show ?thesis by (simp add: image_of_def)
  next
    case False
    then have "\<not> (unat ?pa \<le> paddr ni a \<and> paddr ni a < unat ?pa + ?ws)" using inside [OF that] by blast
    with False im l show ?thesis by (auto simp: image_of_def)
  qed
  with d' b(2,4) st wr show ?thesis
    by (intro that) (auto simp: nmbm_write_logic_page_def arr_get_def Let_def)
qed

lemma erase_block:
  assumes "running ni" and "unat lb < unat (ni_data_block_count ni)"
  obtains d' where "fit d'"
    "\<forall>a < logic_size ni. img d' (paddr ni a) =
       (if a div unat (ni_erasesize ni) = unat lb then 0xff else image_of img ni a)"
    "nmbm_erase_logic_block ni lb = Some (0, ni\<lparr>ni_arg := d'\<rparr>)"
proof -
  have h: "healthy ni" and l: "ni_lower ni = L" and f: "fit (ni_arg ni)" using assms(1) by auto
  note hd = healthyD [OF h]
  let ?pb = "ni_block_mapping ni ! unat lb" and ?es = "unat (ni_erasesize ni)"
  have len: "unat lb < length (ni_block_mapping ni)"
    using assms(2) attachedD(8,9) [OF hd(1)] by (simp add: word_le_nat_alt)
  have pb: "0 \<le> sint ?pb" "good ni ?pb" using h assms(2) by (auto simp: healthy_def)
  have bc: "?pb < ni_block_count ni" using attached_mapping [OF hd(1) len pb(1)] .
  have pa: "unat (ba2addr ni ?pb) = unat ?pb * ?es" using hd(6,7) by (simp add: unat_ba2addr)
  have "(unat ?pb + 1) * ?es \<le> unat (ni_block_count ni) * ?es"
    using bc by (intro mult_le_mono1) (simp add: word_less_nat_alt)
  also have "\<dots> \<le> unat (nld_size L)" using h l by (simp add: healthy_def)
  finally have room: "unat (ba2addr ni ?pb) + unat (nld_erasesize L) \<le> unat (nld_size L)"
    using pa l by simp
  have al: "unat (nld_erasesize L) dvd unat (ba2addr ni ?pb)" using pa l by simp
  obtain d' where d': "fit d'"
    and im: "\<forall>a. img d' a = (if unat (ba2addr ni ?pb) \<le> a \<and> a < unat (ba2addr ni ?pb) + unat (nld_erasesize L)
      then 0xff else img (ni_arg ni) a)"
    and er: "nmbm_erase_phys_block ni (ba2addr ni ?pb) = Some (True, ni\<lparr>ni_arg := d'\<rparr>)"
    by (rule erase_phys [OF l f al room])
  have st: "nmbm_get_block_state ni ?pb = Some 3"
    using pb(2) states_coverD [OF attachedD(4) [OF hd(1)] bc]
    by (simp add: nmbm_get_block_state_def get_block_state_raw_eq)
  have here: "unat ?pb * ?es \<le> paddr ni a \<and> paddr ni a < unat ?pb * ?es + ?es \<longleftrightarrow> a div ?es = unat lb"
    if "a < logic_size ni" for a
  proof -
    let ?b = "ni_block_mapping ni ! (a div ?es)"
    have lb: "a div ?es < unat (ni_data_block_count ni)" using that by (simp add: less_mult_imp_div_less)
    have "(unat ?pb * ?es \<le> paddr ni a \<and> paddr ni a < unat ?pb * ?es + ?es) \<longleftrightarrow> paddr ni a div ?es = unat ?pb"
      by (rule block_iff [OF hd(3)])
    also have "paddr ni a div ?es = unat ?b" using hd(3) by (simp add: paddr_def)
    also have "unat ?b = unat ?pb \<longleftrightarrow> ?b = ?pb" by (simp add: word_unat_eq_iff)
    also have "\<dots> \<longleftrightarrow> a div ?es = unat lb"
      using h lb assms(2) by (auto simp: healthy_def inj_on_def)
    finally show ?thesis .
  qed
  have "img d' (paddr ni a) = (if a div ?es = unat lb then 0xff else image_of img ni a)"
    if "a < logic_size ni" for a
    using here [OF that] im pa l by (simp add: image_of_def)
  moreover have "nmbm_erase_logic_block ni lb = Some (0, ni\<lparr>ni_arg := d'\<rparr>)"
    unfolding nmbm_erase_logic_block_def
    using len pb st er by (intro loop_leave) (auto simp: erase_logic_body_def arr_get_def)
  ultimately show ?thesis using d' by (intro that) auto
qed

text \<open>The states a transfer passes through: only the chip and the page cache change.\<close>

abbreviation runs_to :: "'d nmbm_instance \<Rightarrow> 'd nmbm_instance \<Rightarrow> bool" where
  "runs_to ni ni' \<equiv> \<exists>d c. ni' = ni\<lparr>ni_arg := d, ni_page_cache := c\<rparr> \<and> fit d \<and> length c = length (ni_page_cache ni)"

lemma runs_toI: "fit d \<Longrightarrow> length c = length (ni_page_cache ni) \<Longrightarrow> runs_to ni (ni\<lparr>ni_arg := d, ni_page_cache := c\<rparr>)"
  by blast

lemma runs_toI_arg: "fit d \<Longrightarrow> runs_to ni (ni\<lparr>ni_arg := d\<rparr>)"
  using runs_toI [of d "ni_page_cache ni" ni] by simp

lemma runs_to_trans:
  assumes "runs_to a b" and "runs_to b c" shows "runs_to a c"
proof -
  from assms obtain d x d' x' where "c = a\<lparr>ni_arg := d', ni_page_cache := x'\<rparr>" "fit d'"
    "length x' = length (ni_page_cache a)" by fastforce
  then show ?thesis by blast
qed

lemma runs_to_running: "running ni \<Longrightarrow> runs_to ni ni' \<Longrightarrow> running ni'"
  using healthy_upd by auto

lemma runs_to_fields:
  "runs_to ni ni' \<Longrightarrow> ni_lower ni' = ni_lower ni" "runs_to ni ni' \<Longrightarrow> paddr ni' = paddr ni"
  "runs_to ni ni' \<Longrightarrow> ni_data_block_count ni' = ni_data_block_count ni"
  "runs_to ni ni' \<Longrightarrow> page_chunk ni' = page_chunk ni"
  by auto

lemma read_range_step:
  assumes "running ni" and "unat off + unat sr \<le> logic_size ni" and "sr \<noteq> 0"
    and "unat sz - unat sr + unat sr \<le> length data" and "unat sr \<le> unat sz"
    and "page_chunk ni off sr = (leading, chunk)"
  obtains ni' where "runs_to ni ni'" "img (ni_arg ni') = img (ni_arg ni)"
    "read_range_body sz NMBM_MODE_PLACE_OOB (ni, off, sr, data, 0) = Some (Inr (ni', off + ucast chunk, sr - chunk,
       take (unat sz - unat sr) data @ image_bytes img ni (unat off) (unat chunk) @
         drop (unat sz - unat sr + unat chunk) data, 0))"
proof -
  have h: "healthy ni" and l: "ni_lower ni = L" using assms(1) by auto
  let ?ws = "unat (ni_writesize ni)" and ?addr = "off - ucast leading"
  note c = page_chunk_nat [OF h assms(6)]
  note b = page_chunk_bounds [OF attachedD(3) [OF healthyD(1) [OF h]] assms(6,3)]
  have in_dev: "unat ?addr < logic_size ni" using c(4) assms(2) b(2,3) by linarith
  have ptr: "unat (sz - sr) = unat sz - unat sr" using assms(5) by (simp add: unat_sub word_le_nat_alt)
  show ?thesis
  proof (cases "chunk = ni_writesize ni")
    case True
    then have lead: "unat leading = 0" using b(1) by simp
    have len: "length (take ?ws (drop (unat sz - unat sr) data)) = ?ws"
      using assms(4,5) b(3) True by simp
    obtain d' where "fit d'" "img d' = img (ni_arg ni)"
      and "nmbm_read_logic_page ni ?addr (Some (take ?ws (drop (unat sz - unat sr) data))) None NMBM_MODE_PLACE_OOB =
         Some (0, (Some (image_bytes img ni (unat ?addr) ?ws), None), ni\<lparr>ni_arg := d'\<rparr>)"
      by (rule read_page [OF assms(1) c(3) in_dev len])
    with True assms(3-6) b(3) c(4) lead ptr show ?thesis
      by (intro that [of "ni\<lparr>ni_arg := d'\<rparr>"])
        (auto simp: read_range_body_def mem_read_def mem_write_def Let_def intro!: runs_toI_arg)
  next
    case False
    obtain d' where "fit d'" "img d' = img (ni_arg ni)"
      and "read_logic_page_to_cache ni ?addr NMBM_MODE_PLACE_OOB =
       Some (0, (), ni\<lparr>ni_arg := d', ni_page_cache := image_bytes img ni (unat ?addr) ?ws @ drop ?ws (ni_page_cache ni)\<rparr>)"
      by (rule read_page_cache [OF assms(1) c(3) in_dev])
    moreover have "?ws \<le> length (ni_page_cache ni)"
      using attachedD(3) [OF healthyD(1) [OF h]] by (simp add: page_geom_def)
    moreover have "image_bytes img ni (unat ?addr + unat leading) (unat chunk) = image_bytes img ni (unat off) (unat chunk)"
      by (simp only: c(4))
    moreover note image_bytes_slice [OF b(1), of img ni "unat ?addr"]
    ultimately show ?thesis
      using False assms(3-6) b(1,3) ptr
      by (intro that [of "ni\<lparr>ni_arg := d', ni_page_cache := image_bytes img ni (unat ?addr) ?ws @ drop ?ws (ni_page_cache ni)\<rparr>"])
        (auto simp: read_range_body_def mem_read_def mem_write_def Let_def intro!: runs_toI simp del: ex_simps)
  qed
qed

lemma read_range_image:
  assumes "running ni" and "unat addr + unat sz \<le> logic_size ni" and "unat sz \<le> length data"
  shows "returns (loop (read_range_body sz NMBM_MODE_PLACE_OOB) (ni, addr, sz, data, 0)) (\<lambda>(ret, left, data', ni').
    ret = 0 \<and> left = 0 \<and> runs_to ni ni' \<and> img (ni_arg ni') = img (ni_arg ni) \<and>
    data' = image_bytes img ni (unat addr) (unat sz) @ drop (unat sz) data)"
proof (rule loop_rule [where m = "\<lambda>(_, _, sr, _, _). unat sr" and
      I = "\<lambda>(ni', off, sr, data', ret). ret = 0 \<and> runs_to ni ni' \<and> img (ni_arg ni') = img (ni_arg ni) \<and>
        unat sr \<le> unat sz \<and> unat off = unat addr + (unat sz - unat sr) \<and>
        length data' = length data \<and> drop (unat sz) data' = drop (unat sz) data \<and>
        take (unat sz - unat sr) data' = image_bytes img ni (unat addr) (unat sz - unat sr)"], goal_cases)
  case 1
  show ?case
    using assms
    by (auto simp: image_bytes_def intro!: exI [of _ "ni_arg ni"] exI [of _ "ni_page_cache ni"])
next
  case (2 s)
  obtain ni' off sr data' ret where s: "s = (ni', off, sr, data', ret)" by (cases s)
  have run: "runs_to ni ni'" and im: "img (ni_arg ni') = img (ni_arg ni)" and sr: "unat sr \<le> unat sz"
    and off: "unat off = unat addr + (unat sz - unat sr)" and len: "length data' = length data"
    and rest: "drop (unat sz) data' = drop (unat sz) data"
    and got: "take (unat sz - unat sr) data' = image_bytes img ni (unat addr) (unat sz - unat sr)"
    and ret: "ret = 0"
    using 2 unfolding s by auto
  have running: "running ni'" by (rule runs_to_running [OF assms(1) run])
  have sz': "logic_size ni' = logic_size ni" using run by auto
  show ?case
  proof (cases "sr = 0")
    case True
    with got rest len assms(3) have "data' = image_bytes img ni (unat addr) (unat sz) @ drop (unat sz) data"
      by (metis append_take_drop_id diff_zero unsigned_0)
    with True run im ret show ?thesis by (simp add: s read_range_body_def)
  next
    case False
    obtain leading chunk where pc: "page_chunk ni' off sr = (leading, chunk)" by (cases "page_chunk ni' off sr")
    have h: "healthy ni'" using running by simp
    note b = page_chunk_bounds [OF attachedD(3) [OF healthyD(1) [OF h]] pc False]
    have room: "unat off + unat sr \<le> logic_size ni'" "unat sz - unat sr + unat sr \<le> length data'"
      using off sr assms(2,3) len sz' by auto
    obtain ni2 where n2: "runs_to ni' ni2" "img (ni_arg ni2) = img (ni_arg ni')"
      and st: "read_range_body sz NMBM_MODE_PLACE_OOB (ni', off, sr, data', 0) = Some (Inr (ni2, off + ucast chunk, sr - chunk,
       take (unat sz - unat sr) data' @ image_bytes img ni' (unat off) (unat chunk) @
         drop (unat sz - unat sr + unat chunk) data', 0))"
      by (rule read_range_step [OF running room(1) False room(2) sr pc])
    have same: "image_bytes img ni' (unat off) (unat chunk) = image_bytes img ni (unat addr + (unat sz - unat sr)) (unat chunk)"
      using run im off by (auto simp: image_bytes_def image_of_def)
    have "unat (off + ucast chunk) = unat off + unat chunk"
    proof -
      have "unat off + unat chunk < 2 ^ 64"
        using room(1) b(3) healthyD(10) [OF h] unat_less_len [of "ba2addr ni' (ni_data_block_count ni')"] by simp
      then show ?thesis by (simp add: unat_word_ariths)
    qed
    moreover have "unat sz - (unat sr - unat chunk) = unat sz - unat sr + unat chunk" using b(3) sr by simp
    moreover have "runs_to ni ni2" by (rule runs_to_trans [OF run n2(1)])
    moreover have "image_bytes img ni (unat addr) (unat sz - unat sr) @
        image_bytes img ni (unat addr + unat sz - unat sr) (unat chunk) =
      image_bytes img ni (unat addr) (unat sz + unat chunk - unat sr)"
      using image_bytes_append [of img ni "unat addr" "unat sz - unat sr" "unat chunk"] sr by simp
    ultimately show ?thesis
      using st n2 im b sr off len rest got ret same room by (auto simp: s)
  qed
qed

text \<open>
  Writing. The bytes of the range get the data, combined with what was there; in front of
  the range and behind its last page nothing changes. (Between the end of the range and the
  end of its last page, what the page cache held before is programmed.)
\<close>

lemma write_range_step:
  assumes "running ni" and "unat off + unat sr \<le> logic_size ni" and "sr \<noteq> 0"
    and "unat sz \<le> length data" and "unat sr \<le> unat sz"
    and "page_chunk ni off sr = (leading, chunk)"
  obtains ni' where "runs_to ni ni'"
    "write_range_body sz data NMBM_MODE_PLACE_OOB (ni, off, sr, 0) = Some (Inr (ni', off + ucast chunk, sr - chunk, 0))"
    "\<forall>a < logic_size ni. a < unat off + unat chunk \<or> unat (off - ucast leading) + unat (ni_writesize ni) \<le> a \<longrightarrow>
       image_of img ni' a = (if unat off \<le> a \<and> a < unat off + unat chunk
         then image_of img ni a AND data ! (unat sz - unat sr + (a - unat off)) else image_of img ni a)"
proof -
  have h: "healthy ni" and l: "ni_lower ni = L" using assms(1) by auto
  let ?ws = "unat (ni_writesize ni)" and ?addr = "off - ucast leading"
  let ?chunk = "take (unat chunk) (drop (unat sz - unat sr) data)"
  note c = page_chunk_nat [OF h assms(6)]
  note b = page_chunk_bounds [OF attachedD(3) [OF healthyD(1) [OF h]] assms(6,3)]
  have in_dev: "unat ?addr < logic_size ni" using c(4) assms(2) b(2,3) by linarith
  have ptr: "unat (sz - sr) = unat sz - unat sr" using assms(5) by (simp add: unat_sub word_le_nat_alt)
  have lc: "length ?chunk = unat chunk" using b(3) assms(4,5) by simp
  have nth: "?chunk ! i = data ! (unat sz - unat sr + i)" if "i < unat chunk" for i
    using that b(3) assms(4,5) by simp
  show ?thesis
  proof (cases "chunk = ni_writesize ni")
    case True
    then have lead: "unat leading = 0" using b(1) by simp
    then have addr: "unat ?addr = unat off" using c(4) by simp
    have len: "length ?chunk = ?ws" using lc True by simp
    obtain d' where d': "fit d'"
      and im: "\<forall>a < logic_size ni. img d' (paddr ni a) = (if unat ?addr \<le> a \<and> a < unat ?addr + ?ws
         then image_of img ni a AND ?chunk ! (a - unat ?addr) else image_of img ni a)"
      and wr: "nmbm_write_logic_page ni ?addr (Some ?chunk) None NMBM_MODE_PLACE_OOB = Some (0, ni\<lparr>ni_arg := d'\<rparr>)"
      by (rule write_page [OF assms(1) c(3) in_dev len])
    have "image_of img (ni\<lparr>ni_arg := d'\<rparr>) a = (if unat off \<le> a \<and> a < unat off + unat chunk
         then image_of img ni a AND data ! (unat sz - unat sr + (a - unat off)) else image_of img ni a)"
      if "a < logic_size ni" for a
      using im that nth True by (auto simp: addr image_of_def [of img "ni\<lparr>ni_arg := d'\<rparr>"])
    with True assms(3-6) b(3) ptr d' wr show ?thesis
      by (intro that [of "ni\<lparr>ni_arg := d'\<rparr>"])
        (auto simp: write_range_body_def mem_read_def Let_def intro!: runs_toI_arg)
  next
    case False
    let ?cache = "replicate (unat leading) 0xff @ ?chunk @ drop (unat leading + unat chunk) (ni_page_cache ni)"
    let ?page = "take ?ws ?cache" and ?ni = "ni\<lparr>ni_page_cache := ?cache\<rparr>"
    have ws: "?ws \<le> length (ni_page_cache ni)"
      using attachedD(3) [OF healthyD(1) [OF h]] by (simp add: page_geom_def)
    have cl: "length ?cache = length (ni_page_cache ni)" using lc b(1) ws by simp
    have len: "length ?page = ?ws" unfolding length_take cl using ws by simp
    have run: "runs_to ni ?ni" using runs_toI [of "ni_arg ni" ?cache ni] assms(1) cl by simp
    have r: "running ?ni" by (rule runs_to_running [OF assms(1) run])
    have "unat (ni_writesize ?ni) dvd unat ?addr" "unat ?addr < logic_size ?ni" "length ?page = unat (ni_writesize ?ni)"
      using c(3) in_dev len by simp_all
    then obtain d' where d': "fit d'"
      and im: "\<forall>a < logic_size ?ni. img d' (paddr ?ni a) = (if unat ?addr \<le> a \<and> a < unat ?addr + unat (ni_writesize ?ni)
         then image_of img ?ni a AND ?page ! (a - unat ?addr) else image_of img ?ni a)"
      and wr: "nmbm_write_logic_page ?ni ?addr (Some ?page) None NMBM_MODE_PLACE_OOB = Some (0, ?ni\<lparr>ni_arg := d'\<rparr>)"
      by (rule write_page [OF r])
    have front: "?page ! i = 0xff" if "i < unat leading" for i
      using that b(1) by (simp add: nth_append)
    have mid: "?page ! (unat leading + i) = data ! (unat sz - unat sr + i)" if "i < unat chunk" for i
      using that b(1) lc nth [OF that] by (simp add: nth_append)
    have ff: "x AND (0xff :: u8) = x" for x
    proof -
      have "(0xff :: u8) = - 1" by simp
      then show ?thesis by (metis and.right_neutral)
    qed
    have "image_of img (?ni\<lparr>ni_arg := d'\<rparr>) a = (if unat off \<le> a \<and> a < unat off + unat chunk
         then image_of img ni a AND data ! (unat sz - unat sr + (a - unat off)) else image_of img ni a)"
      if a: "a < logic_size ni" and out: "a < unat off + unat chunk \<or> unat ?addr + ?ws \<le> a" for a
    proof -
      have new: "image_of img (?ni\<lparr>ni_arg := d'\<rparr>) a = (if unat ?addr \<le> a \<and> a < unat ?addr + ?ws
         then image_of img ni a AND ?page ! (a - unat ?addr) else image_of img ni a)"
        using im a by (simp add: image_of_def)
      consider "a < unat ?addr \<or> unat ?addr + ?ws \<le> a" | i where "a = unat ?addr + i" "i < unat leading"
        | i where "a = unat off + i" "i < unat chunk"
        using out c(4) by (metis add_less_cancel_left le_add_diff_inverse not_le)
      then show ?thesis
      proof cases
        case 1
        then show ?thesis using new c(4) b(1) by auto
      next
        case 2
        then show ?thesis using new front ff c(4) b(1) by auto
      next
        case 3
        then have "a - unat ?addr = unat leading + i" "unat ?addr \<le> a" "a < unat ?addr + ?ws"
          using c(4) b(1) by linarith+
        then show ?thesis using new mid 3 by simp
      qed
    qed
    moreover have "runs_to ni (?ni\<lparr>ni_arg := d'\<rparr>)"
      using runs_toI [OF d' cl] by simp
    moreover have "mem_write 0 (replicate (unat leading) 0xff) (ni_page_cache ni) =
        Some (replicate (unat leading) 0xff @ drop (unat leading) (ni_page_cache ni))"
      "mem_write (unat leading) ?chunk (replicate (unat leading) 0xff @ drop (unat leading) (ni_page_cache ni)) =
        Some ?cache"
      "mem_read 0 ?ws ?cache = Some ?page" "mem_read (unat sz - unat sr) (unat chunk) data = Some ?chunk"
      using b(1,3) ws lc cl assms(4,5) by (auto simp: mem_write_def mem_read_def add.commute)
    then have "write_range_body sz data NMBM_MODE_PLACE_OOB (ni, off, sr, 0) =
        Some (Inr (?ni\<lparr>ni_arg := d'\<rparr>, off + ucast chunk, sr - chunk, 0))"
      using False assms(3,6) ptr wr unfolding write_range_body_def by simp
    ultimately show ?thesis by (intro that) auto
  qed
qed

lemma write_range_image:
  assumes "running ni" and "unat addr + unat sz \<le> logic_size ni" and "unat sz \<le> length data"
  shows "returns (loop (write_range_body sz data NMBM_MODE_PLACE_OOB) (ni, addr, sz, 0)) (\<lambda>(ret, left, ni').
    ret = 0 \<and> left = 0 \<and> runs_to ni ni' \<and> programmed img data (unat addr) ni ni' (unat addr + unat sz) True)"
proof (rule loop_rule [where m = "\<lambda>(_, _, sr, _). unat sr" and
      I = "\<lambda>(ni', off, sr, ret). ret = 0 \<and> runs_to ni ni' \<and>
        unat sr \<le> unat sz \<and> unat off = unat addr + (unat sz - unat sr) \<and>
        programmed img data (unat addr) ni ni' (unat off) (sr = 0)"], goal_cases)
  case 1
  show ?case
    using assms runs_toI [of "ni_arg ni" "ni_page_cache ni" ni] programmed_start by simp
next
  case (2 s)
  obtain ni' off sr ret where s: "s = (ni', off, sr, ret)" by (cases s)
  have run: "runs_to ni ni'" and sr: "unat sr \<le> unat sz" and ret: "ret = 0"
    and off: "unat off = unat addr + (unat sz - unat sr)"
    and got: "programmed img data (unat addr) ni ni' (unat off) (sr = 0)"
    using 2 unfolding s prod.case by blast+
  have running: "running ni'" by (rule runs_to_running [OF assms(1) run])
  have fields: "logic_size ni' = logic_size ni" "ni_writesize ni' = ni_writesize ni" using run by auto
  show ?case
  proof (cases "sr = 0")
    case True
    then have "unat off = unat addr + unat sz" using off by simp
    with True run got have "programmed img data (unat addr) ni ni' (unat addr + unat sz) True" by simp
    with True run ret show ?thesis
      by (simp only: s write_range_body_def prod.case not_True_eq_False if_False returns_Some sum.case if_True) simp
  next
    case False
    obtain leading chunk where pc: "page_chunk ni' off sr = (leading, chunk)" by (cases "page_chunk ni' off sr")
    have h: "healthy ni'" using running by simp
    note b = page_chunk_bounds [OF attachedD(3) [OF healthyD(1) [OF h]] pc False]
    note c = page_chunk_nat [OF h pc]
    have room: "unat off + unat sr \<le> logic_size ni'" using off sr assms(2) fields by simp
    obtain ni2 where n2: "runs_to ni' ni2"
      and st: "write_range_body sz data NMBM_MODE_PLACE_OOB (ni', off, sr, 0) =
        Some (Inr (ni2, off + ucast chunk, sr - chunk, 0))"
      and im: "\<forall>a < logic_size ni'. a < unat off + unat chunk \<or> unat (off - ucast leading) + unat (ni_writesize ni') \<le> a \<longrightarrow>
       image_of img ni2 a = (if unat off \<le> a \<and> a < unat off + unat chunk
         then image_of img ni' a AND data ! (unat sz - unat sr + (a - unat off)) else image_of img ni' a)"
      by (rule write_range_step [OF running room False assms(3) sr pc])
    have off': "unat (off + ucast chunk) = unat off + unat chunk"
    proof -
      have "unat off + unat chunk < 2 ^ 64"
        using room b(3) healthyD(10) [OF h] unat_less_len [of "ba2addr ni' (ni_data_block_count ni')"] by simp
      then show ?thesis by (simp add: unat_word_ariths)
    qed
    have "programmed img data (unat addr) ni ni2 (unat off + unat chunk) (sr - chunk = 0)"
    proof (rule programmed_step [OF _ im fields _ _ _ _ _ _])
      show "programmed img data (unat addr) ni ni' (unat off) False" using got False by simp
      show "unat off - unat addr = unat sz - unat sr" "unat addr \<le> unat off" using off by simp_all
      show "unat (ni_writesize ni') dvd unat (off - ucast leading)" using c(3) by auto
      show "unat (off - ucast leading) \<le> unat off" using c by linarith
      show "unat off + unat chunk \<le> unat (off - ucast leading) + unat (ni_writesize ni')" "0 < unat chunk"
        using c(4) b by linarith+
      show "sr - chunk = 0 \<or> unat (off - ucast leading) + unat (ni_writesize ni') = unat off + unat chunk"
        using c(4,5) by auto
    qed
    then have all: "programmed img data (unat addr) ni ni2 (unat (off + ucast chunk)) (sr - chunk = 0)"
      unfolding off' .
    have "unat (sr - chunk) \<le> unat sz" "unat (sr - chunk) < unat sr"
      "unat (off + ucast chunk) = unat addr + (unat sz - unat (sr - chunk))"
      using b sr off off' by linarith+
    with all runs_to_trans [OF run n2] show ?thesis
      unfolding s ret st returns_Some sum.case prod.case by blast
  qed
qed

lemma erase_range_image:
  assumes "running ni" and "unat hi < unat (ni_data_block_count ni)"
  shows "returns (loop (erase_blocks_body hi) (ni, lo)) (\<lambda>(ret, failed, ni'). ret = 0 \<and> failed = None \<and> runs_to ni ni' \<and>
    (\<forall>a < logic_size ni. image_of img ni' a =
      (if unat lo \<le> a div unat (ni_erasesize ni) \<and> a div unat (ni_erasesize ni) \<le> unat hi then 0xff else image_of img ni a)))"
proof (rule loop_rule [where m = "\<lambda>(_, b). Suc (unat hi) - unat b" and
      I = "\<lambda>(ni', b). runs_to ni ni' \<and> unat lo \<le> unat b \<and>
        (\<forall>a < logic_size ni. image_of img ni' a = (if unat lo \<le> a div unat (ni_erasesize ni) \<and>
           a div unat (ni_erasesize ni) \<le> unat hi \<and> a div unat (ni_erasesize ni) < unat b then 0xff else image_of img ni a))"],
      goal_cases)
  case 1
  show ?case using assms runs_toI [of "ni_arg ni" "ni_page_cache ni" ni] by auto
next
  case (2 s)
  obtain ni' b where s: "s = (ni', b)" by (cases s)
  have run: "runs_to ni ni'" and lo: "unat lo \<le> unat b"
    and got: "\<forall>a < logic_size ni. image_of img ni' a = (if unat lo \<le> a div unat (ni_erasesize ni) \<and>
           a div unat (ni_erasesize ni) \<le> unat hi \<and> a div unat (ni_erasesize ni) < unat b then 0xff else image_of img ni a)"
    using 2 unfolding s by auto
  have running: "running ni'" by (rule runs_to_running [OF assms(1) run])
  have fields: "logic_size ni' = logic_size ni" "ni_erasesize ni' = ni_erasesize ni"
    "ni_data_block_count ni' = ni_data_block_count ni" using run by auto
  show ?case
  proof (cases "b \<le> hi")
    case False
    then have "unat hi < unat b" by (simp add: not_le word_less_nat_alt)
    with False run got show ?thesis by (auto simp: s erase_blocks_body_def)
  next
    case True
    then have le: "unat b \<le> unat hi" by (simp add: word_le_nat_alt)
    have "unat b < unat (ni_data_block_count ni')" using le assms(2) fields by simp
    from erase_block [OF running this] obtain d' where d': "fit d'"
      and im: "\<forall>a < logic_size ni'. img d' (paddr ni' a) =
       (if a div unat (ni_erasesize ni') = unat b then 0xff else image_of img ni' a)"
      and er: "nmbm_erase_logic_block ni' b = Some (0, ni'\<lparr>ni_arg := d'\<rparr>)" by blast
    have suc: "unat (b + 1) = Suc (unat b)"
      using le assms(2) unat_u32_less [of "ni_data_block_count ni"] by (simp add: unat_word_ariths)
    have "image_of img (ni'\<lparr>ni_arg := d'\<rparr>) a = (if unat lo \<le> a div unat (ni_erasesize ni) \<and>
           a div unat (ni_erasesize ni) \<le> unat hi \<and> a div unat (ni_erasesize ni) < Suc (unat b) then 0xff else image_of img ni a)"
      if "a < logic_size ni" for a
      using im got that fields le lo by (auto simp: image_of_def [of img "ni'\<lparr>ni_arg := d'\<rparr>"])
    moreover have "runs_to ni (ni'\<lparr>ni_arg := d'\<rparr>)" by (rule runs_to_trans [OF run runs_toI_arg [OF d']])
    ultimately show ?thesis
      using True er lo le suc by (simp add: s erase_blocks_body_def)
  qed
qed

text \<open>The three ranged operations on a running device, as operations on its logical image.\<close>

lemma range_guards:
  assumes "running ni" and "unat addr + n \<le> logic_size ni" and "0 < n" and "unat (len :: u64) = n"
  shows "\<not> addr \<ge> ba2addr ni (ni_data_block_count ni)" "\<not> addr + len > ba2addr ni (ni_data_block_count ni)"
    "unat (addr + len) = unat addr + n" "ni_protected ni = 0"
proof -
  have h: "healthy ni" using assms(1) by simp
  note sz = healthyD(10) [OF h]
  have "logic_size ni < 2 ^ 64" using unat_less_len [of "ba2addr ni (ni_data_block_count ni)"] sz by simp
  then show sum: "unat (addr + len) = unat addr + n" using assms(2,4) by (simp add: unat_word_ariths)
  show "\<not> addr \<ge> ba2addr ni (ni_data_block_count ni)" "\<not> addr + len > ba2addr ni (ni_data_block_count ni)"
    using sum sz assms(2,3) by (auto simp: word_le_nat_alt word_less_nat_alt)
  show "ni_protected ni = 0" using healthyD(2) [OF h] .
qed

lemma nmbm_read_range_image:
  assumes "running ni" and "unat addr + unat sz \<le> logic_size ni" and "sz \<noteq> 0" and "unat sz \<le> length data"
  obtains ni' where "runs_to ni ni'" "image_of img ni' = image_of img ni"
    "nmbm_read_range (Some ni) addr sz data NMBM_MODE_PLACE_OOB =
      Some (0, image_bytes img ni (unat addr) (unat sz) @ drop (unat sz) data, Some sz, Some ni')"
proof -
  have "0 < unat sz" using assms(3) by (simp add: unat_gt_0)
  note g = range_guards [OF assms(1,2) this, of "ucast sz"]
  from read_range_image [OF assms(1,2,4)] obtain ni' where n: "runs_to ni ni'" "img (ni_arg ni') = img (ni_arg ni)"
    and l: "loop (read_range_body sz NMBM_MODE_PLACE_OOB) (ni, addr, sz, data, 0) =
      Some (0, 0, image_bytes img ni (unat addr) (unat sz) @ drop (unat sz) data, ni')"
    by (auto simp: returns_iff)
  show ?thesis
  proof (rule that [OF n(1)])
    show "image_of img ni' = image_of img ni" using n by (auto simp: image_of_def fun_eq_iff)
    show "nmbm_read_range (Some ni) addr sz data NMBM_MODE_PLACE_OOB =
      Some (0, image_bytes img ni (unat addr) (unat sz) @ drop (unat sz) data, Some sz, Some ni')"
      using g l assms(3) by (simp add: nmbm_read_range_def)
  qed
qed

lemma nmbm_write_range_image:
  assumes "running ni" and "unat addr + unat sz \<le> logic_size ni" and "sz \<noteq> 0" and "unat sz \<le> length data"
  obtains ni' where "runs_to ni ni'"
    "nmbm_write_range (Some ni) addr sz data NMBM_MODE_PLACE_OOB = Some (0, Some sz, Some ni')"
    "programmed img data (unat addr) ni ni' (unat addr + unat sz) True"
proof -
  have "0 < unat sz" using assms(3) by (simp add: unat_gt_0)
  note g = range_guards [OF assms(1,2) this, of "ucast sz"]
  from write_range_image [OF assms(1,2,4)] obtain ni' where n: "runs_to ni ni'"
    and l: "loop (write_range_body sz data NMBM_MODE_PLACE_OOB) (ni, addr, sz, 0) = Some (0, 0, ni')"
    and im: "programmed img data (unat addr) ni ni' (unat addr + unat sz) True"
    by (auto simp: returns_iff)
  have "nmbm_write_range (Some ni) addr sz data NMBM_MODE_PLACE_OOB = Some (0, Some sz, Some ni')"
    using g l assms(3) by (simp add: nmbm_write_range_def)
  from that [OF n this im] show ?thesis .
qed

lemma nmbm_erase_range_image:
  assumes "running ni" and "unat addr + unat len \<le> logic_size ni" and "len \<noteq> 0"
  obtains ni' where "runs_to ni ni'" "nmbm_erase_block_range (Some ni) addr len = Some (0, None, Some ni')"
    "\<forall>a < logic_size ni. image_of img ni' a =
      (if unat addr div unat (ni_erasesize ni) \<le> a div unat (ni_erasesize ni) \<and>
          a div unat (ni_erasesize ni) \<le> (unat addr + unat len - 1) div unat (ni_erasesize ni)
       then 0xff else image_of img ni a)"
proof -
  have h: "healthy ni" using assms(1) by simp
  have pos: "0 < unat len" using assms(3) by (simp add: unat_gt_0)
  note g = range_guards [OF assms(1,2) pos refl]
  have "addr + len \<noteq> 0" using g(3) pos by auto
  then have end_addr: "unat (addr + len - 1) = unat addr + unat len - 1" using g(3) by (simp add: unat_dec)
  then have "unat (addr + len - 1) < logic_size ni" "unat addr < logic_size ni" using assms(2) pos by simp_all
  note hi = healthy_block(1,3) [OF h this(1)] and lo = healthy_block(1) [OF h this(2)]
  from erase_range_image [OF assms(1) hi(2), of "addr2ba ni addr"] obtain ni' where n: "runs_to ni ni'"
    and l: "loop (erase_blocks_body (addr2ba ni (addr + len - 1))) (ni, addr2ba ni addr) = Some (0, None, ni')"
    and im: "\<forall>a < logic_size ni. image_of img ni' a =
      (if unat (addr2ba ni addr) \<le> a div unat (ni_erasesize ni) \<and>
          a div unat (ni_erasesize ni) \<le> unat (addr2ba ni (addr + len - 1)) then 0xff else image_of img ni a)"
    by (auto simp: returns_iff)
  have "nmbm_erase_block_range (Some ni) addr len = Some (0, None, Some ni')"
    using g l assms(3) by (simp add: nmbm_erase_block_range_def)
  from that [OF n this im [unfolded hi(1) lo end_addr]] show ?thesis .
qed

end

section \<open>The reference chip is reliable\<close>

text \<open>The byte at an address of the reference chip, and the states in which it works.\<close>

definition chip_byte :: "nand \<Rightarrow> nat \<Rightarrow> u8" where
  "chip_byte d a = (if a < 4096 then nand_page d (of_nat (a div 64 * 64)) ! (a mod 64) else 0)"

definition chip_fit :: "nand \<Rightarrow> bool" where
  "chip_fit d \<longleftrightarrow> nand_fail d = 0 \<and> (\<forall>a. length (nand_page d a) = 64)"

lemma chip_fitD: "chip_fit d \<Longrightarrow> nand_fail d = 0" "chip_fit d \<Longrightarrow> length (nand_page d a) = 64"
  by (simp_all add: chip_fit_def)

lemma chip_page:
  assumes "64 dvd unat (addr :: u64)" and "unat addr + 64 \<le> 4096" and "i < 64"
  shows "chip_byte d (unat addr + i) = nand_page d addr ! i"
proof -
  obtain q where q: "unat addr = 64 * q" using assms(1) by blast
  then have "(unat addr + i) div 64 * 64 = unat addr" "(unat addr + i) mod 64 = i" using assms(3) by simp_all
  then show ?thesis using assms(2,3) by (simp add: chip_byte_def)
qed

lemma chip_bytes:
  "64 dvd unat (addr :: u64) \<Longrightarrow> unat addr + 64 \<le> 4096 \<Longrightarrow> chip_fit d \<Longrightarrow>
    map (\<lambda>i. chip_byte d (unat addr + i)) [0..<64] = nand_page d addr"
  by (rule nth_equalityI) (simp_all add: chip_page chip_fitD)

text \<open>The page that holds a byte, and whether it lies in a block.\<close>

lemma unat_page_of: "a < 4096 \<Longrightarrow> unat (of_nat (a div 64 * 64) :: u64) = a div 64 * 64"
  using div_times_less_eq_dividend [of a 64] by (simp only: unat_of_nat) simp

lemma page_of_in:
  assumes "k * 64 dvd unat (addr :: u64)" and "unat addr + k * 64 \<le> 4096" and "a < 4096"
  shows "addr \<le> of_nat (a div 64 * 64) \<and> (of_nat (a div 64 * 64) :: u64) < addr + of_nat (k * 64) \<longleftrightarrow>
    unat addr \<le> a \<and> a < unat addr + k * 64"
proof -
  obtain q where "unat addr = k * 64 * q" using assms(1) by blast
  then have n: "unat addr = (k * q) * 64" by simp
  have sum: "unat (addr + of_nat (k * 64)) = (k * q + k) * 64"
    using assms(2) n by (simp only: unat_word_ariths unat_of_nat) simp
  show ?thesis
    unfolding word_le_nat_alt word_less_nat_alt unat_page_of [OF assms(3)] sum n add_mult_distrib [symmetric]
      mult_less_cancel2 mult_le_cancel2
    using less_eq_div_iff_mult_less_eq [of 64 "k * q" a] div_less_iff_less_mult [of 64 a "k * q + k"] by simp
qed

lemma chip_fit_page: "chip_fit d \<Longrightarrow> length p = 64 \<Longrightarrow> chip_fit (d\<lparr>nand_page := (nand_page d)(addr := p)\<rparr>)"
  by (simp add: chip_fit_def)

interpretation chip: reliable_chip sample_lower chip_fit chip_byte
proof
  fix d :: nand and addr :: u64 and buf :: bytes
  assume fit: "chip_fit d" and "unat (nld_writesize sample_lower) dvd unat addr"
    "unat addr + unat (nld_writesize sample_lower) \<le> unat (nld_size sample_lower)"
    and len: "length buf = unat (nld_writesize sample_lower)"
  then have page: "64 dvd unat addr" "unat addr + 64 \<le> 4096" by simp_all
  show "\<exists>rd d'. nld_read_page sample_lower = Some rd \<and> chip_fit d' \<and> chip_byte d' = chip_byte d \<and>
      rd d addr (Some buf) None NMBM_MODE_PLACE_OOB =
        (0, Some (map (\<lambda>i. chip_byte d (unat addr + i)) [0..<unat (nld_writesize sample_lower)]), None, d')"
    using fit len chip_bytes [OF page fit] by (simp add: sim_read_page_def nand_failing_def fill_def chip_fitD)
  show "\<exists>wr d'. nld_write_page sample_lower = Some wr \<and> chip_fit d' \<and>
      wr d addr (Some buf) None NMBM_MODE_PLACE_OOB = (0, d') \<and>
      (\<forall>a. chip_byte d' a = (if unat addr \<le> a \<and> a < unat addr + unat (nld_writesize sample_lower)
        then chip_byte d a AND buf ! (a - unat addr) else chip_byte d a))"
  proof -
    let ?d = "d\<lparr>nand_page := (nand_page d)(addr := program (nand_page d addr) (Some buf)),
        nand_spare := (nand_spare d)(addr := program (nand_spare d addr) None)\<rparr>"
    have addr_less: "addr < addr + of_nat (1 * 64)"
      using page(2) by (simp add: word_less_nat_alt unat_word_ariths)
    have "chip_byte ?d a = (if unat addr \<le> a \<and> a < unat addr + 64
        then chip_byte d a AND buf ! (a - unat addr) else chip_byte d a)" for a
    proof (cases "unat addr \<le> a \<and> a < unat addr + 64")
      case True
      then obtain i where "a = unat addr + i" "i < 64" by (metis add_less_cancel_left le_Suc_ex)
      then show ?thesis using chip_page [OF page] fit len by (simp add: program_def chip_fitD)
    next
      case False
      then have "(of_nat (a div 64 * 64) :: u64) \<noteq> addr" if "a < 4096"
        using page_of_in [of 1 addr a] page that addr_less by auto
      then show ?thesis using False by (auto simp: chip_byte_def)
    qed
    then show ?thesis
      using fit len by (simp add: sim_write_page_def nand_failing_def chip_fit_page program_def chip_fitD)
  qed
next
  fix d :: nand and addr :: u64
  assume fit: "chip_fit d" and "unat (nld_erasesize sample_lower) dvd unat addr"
    "unat addr + unat (nld_erasesize sample_lower) \<le> unat (nld_size sample_lower)"
  then have "addr \<le> of_nat (a div 64 * 64) \<and> (of_nat (a div 64 * 64) :: u64) < addr + 128 \<longleftrightarrow>
      unat addr \<le> a \<and> a < unat addr + 128" if "a < 4096" for a
    using page_of_in [of 2 addr a] that by simp
  moreover have "a < 4096" if "a < unat addr + 128" for a
    using that \<open>unat addr + unat (nld_erasesize sample_lower) \<le> _\<close> by simp
  ultimately show "\<exists>er d'. nld_erase_block sample_lower = Some er \<and> chip_fit d' \<and> er d addr = (0, d') \<and>
      (\<forall>a. chip_byte d' a = (if unat addr \<le> a \<and> a < unat addr + unat (nld_erasesize sample_lower) then 0xff else chip_byte d a))"
    using fit by (auto simp: sim_erase_block_def nand_failing_def chip_byte_def chip_fit_def)
qed

lemma sample_mapping: "lb < 16 \<Longrightarrow> ni_block_mapping (sample 0) ! lb = of_nat lb"
proof -
  assume lb: "lb < 16"
  have "[0, 1, 2, 3, 4, 5, 6, 7, 8, 9, 10, 11, 12, 13, 14, 15] = (map of_nat [0..<16] :: u32 list)"
    by (simp add: upt_rec)
  with lb show ?thesis by (simp only: sample_simps nth_append length_map) simp
qed

lemma sample_running [simp]: "healthy (sample 0)" "chip_fit (sample_nand 0)"
proof -
  have "inj_on (\<lambda>lb. ni_block_mapping (sample 0) ! lb) {..<16}"
    by (auto simp: inj_on_def sample_mapping word_unat_eq_iff unsigned_of_nat take_bit_nat_eq_self
        simp del: sample_simps)
  moreover have "0 \<le> sint (ni_block_mapping (sample 0) ! lb) \<and> good (sample 0) (ni_block_mapping (sample 0) ! lb)"
    if "lb < 16" for lb
  proof -
    have "\<forall>lb \<in> set [0..<16]. 0 \<le> sint (of_nat lb :: u32) \<and> good (sample 0) (of_nat lb)"
      by (simp add: upt_rec blk_def)
    then show ?thesis using that by (simp add: sample_mapping del: sample_simps)
  qed
  moreover have "\<exists>k. (64::nat) = 2 ^ k" by (rule exI [of _ 6]) simp
  ultimately show "healthy (sample 0)"
    by (simp add: healthy_def)
  show "chip_fit (sample_nand 0)" by (simp add: chip_fit_def sample_nand_def)
qed

section \<open>NMBM implements a flash\<close>

lemma programmed_blank:
  assumes "programmed img data addr ni ni' (addr + length data) fin" and "length data = n"
    and "\<And>i. i < n \<Longrightarrow> image_of img ni (addr + i) = 0xff" and "addr + n \<le> logic_size ni"
  shows "image_bytes img ni' addr n = data"
proof (rule nth_equalityI)
  fix i assume "i < length (image_bytes img ni' addr n)"
  then have i: "i < n" by simp
  then have "image_of img ni' (addr + i) = 0xff AND data ! i"
    using assms unfolding programmed_def by auto
  then show "image_bytes img ni' addr n ! i = data ! i" using i by (simp add: ff_and)
qed (use assms(2) in simp)

text \<open>
  C10: On a reliable chip, a ranged read of a healthy device refines reading the logical
  image: it returns success, fills the buffer with the bytes of the range, reports the whole
  length, and leaves every byte of the device as it was.
\<close>

theorem nmbm_read_range_refines:
  assumes "reliable_chip (ni_lower ni) fit img" and "healthy ni" and "fit (ni_arg ni)"
    and "unat addr + unat sz \<le> logic_size ni" and "sz \<noteq> 0" and "unat sz \<le> length data"
  shows "\<exists>ni'. nmbm_read_range (Some ni) addr sz data NMBM_MODE_PLACE_OOB =
      Some (0, image_bytes img ni (unat addr) (unat sz) @ drop (unat sz) data, Some sz, Some ni') \<and>
    healthy ni' \<and> image_of img ni' = image_of img ni"
proof -
  have run: "healthy ni \<and> ni_lower ni = ni_lower ni \<and> fit (ni_arg ni)" using assms(2,3) by simp
  obtain ni' where "\<exists>d c. ni' = ni\<lparr>ni_arg := d, ni_page_cache := c\<rparr> \<and> fit d \<and> length c = length (ni_page_cache ni)"
    "image_of img ni' = image_of img ni" "nmbm_read_range (Some ni) addr sz data NMBM_MODE_PLACE_OOB =
      Some (0, image_bytes img ni (unat addr) (unat sz) @ drop (unat sz) data, Some sz, Some ni')"
    by (rule reliable_chip.nmbm_read_range_image [OF assms(1) run assms(4-6)])
  with assms(2) show ?thesis by (auto intro: healthy_upd)
qed

theorem nmbm_read_range_refines_witness:
  "\<exists>ni'. nmbm_read_range (Some (sample 0)) 100 200 (replicate 200 0) NMBM_MODE_PLACE_OOB =
      Some (0, image_bytes chip_byte (sample 0) 100 200, Some 200, Some ni') \<and>
    healthy ni' \<and> image_of chip_byte ni' = image_of chip_byte (sample 0)"
  using nmbm_read_range_refines [of "sample 0" chip_fit chip_byte 100 200 "replicate 200 0"]
    chip.reliable_chip_axioms by simp

text \<open>
  C1: Erase, write, read back: on a reliable chip, a healthy device that erases the blocks of
  a range, programs data over the range and reads the range returns the data, every call
  succeeding with the whole length; blocks that the range does not touch keep their bytes.
\<close>

theorem nmbm_write_read_back:
  assumes "reliable_chip (ni_lower ni) fit img" and "healthy ni" and "fit (ni_arg ni)"
    and "unat addr + unat sz \<le> logic_size ni" and "sz \<noteq> 0" and "length data = unat sz" and "length buf = unat sz"
  shows "\<exists>ni1 ni2 ni3. nmbm_erase_block_range (Some ni) addr (ucast sz) = Some (0, None, Some ni1) \<and>
    nmbm_write_range (Some ni1) addr sz data NMBM_MODE_PLACE_OOB = Some (0, Some sz, Some ni2) \<and>
    nmbm_read_range (Some ni2) addr sz buf NMBM_MODE_PLACE_OOB = Some (0, data, Some sz, Some ni3) \<and>
    (\<forall>a < logic_size ni. a div unat (ni_erasesize ni) < unat addr div unat (ni_erasesize ni) \<or>
        (unat addr + unat sz - 1) div unat (ni_erasesize ni) < a div unat (ni_erasesize ni) \<longrightarrow>
      image_of img ni3 a = image_of img ni a)"
proof -
  let ?same = "\<lambda>a b. \<exists>d c. b = a\<lparr>ni_arg := d, ni_page_cache := c\<rparr> \<and> fit d \<and> length c = length (ni_page_cache a)"
  let ?es = "unat (ni_erasesize ni)" and ?ws = "unat (ni_writesize ni)" and ?stop = "unat addr + unat sz"
  have run: "healthy ni \<and> ni_lower ni = ni_lower ni \<and> fit (ni_arg ni)" using assms(2,3) by simp
  have pos: "0 < unat sz" using assms(5) by (simp add: unat_gt_0)
  have len: "unat (ucast sz :: u64) = unat sz" "ucast sz \<noteq> (0 :: u64)" using pos by (auto simp: word_unat_eq_iff)
  obtain ni1 where s1: "?same ni ni1"
    and e: "nmbm_erase_block_range (Some ni) addr (ucast sz) = Some (0, None, Some ni1)"
    and i1: "\<forall>a < logic_size ni. image_of img ni1 a =
      (if unat addr div ?es \<le> a div ?es \<and> a div ?es \<le> (?stop - 1) div ?es then 0xff else image_of img ni a)"
    using reliable_chip.nmbm_erase_range_image [OF assms(1) run, of addr "ucast sz"] assms(4) len by auto
  have run1: "healthy ni1 \<and> ni_lower ni1 = ni_lower ni \<and> fit (ni_arg ni1)"
    by (rule reliable_chip.runs_to_running [OF assms(1) run s1])
  have f1: "logic_size ni1 = logic_size ni" "ni_writesize ni1 = ni_writesize ni" using s1 by auto
  obtain ni2 where s2: "?same ni1 ni2"
    and w: "nmbm_write_range (Some ni1) addr sz data NMBM_MODE_PLACE_OOB = Some (0, Some sz, Some ni2)"
    and i2: "programmed img data (unat addr) ni1 ni2 ?stop True"
    using reliable_chip.nmbm_write_range_image [OF assms(1) run1, of addr sz data] assms(4-6) f1 by auto
  have run2: "healthy ni2 \<and> ni_lower ni2 = ni_lower ni \<and> fit (ni_arg ni2)"
    by (rule reliable_chip.runs_to_running [OF assms(1) run1 s2])
  have f2: "logic_size ni2 = logic_size ni" using s2 f1 by auto
  obtain ni3 where i3: "image_of img ni3 = image_of img ni2"
    and r: "nmbm_read_range (Some ni2) addr sz buf NMBM_MODE_PLACE_OOB =
      Some (0, image_bytes img ni2 (unat addr) (unat sz) @ drop (unat sz) buf, Some sz, Some ni3)"
    using reliable_chip.nmbm_read_range_image [OF assms(1) run2, of addr sz buf] assms(4,5,7) f2 by auto
  have "image_bytes img ni2 (unat addr) (unat sz) = data"
  proof (rule programmed_blank [OF i2 [folded assms(6)] assms(6)])
    fix i assume i: "i < unat sz"
    then have "unat addr div ?es \<le> (unat addr + i) div ?es" "(unat addr + i) div ?es \<le> (?stop - 1) div ?es"
      by (auto intro: div_le_mono)
    then show "image_of img ni1 (unat addr + i) = 0xff" using i1 i assms(4) by simp
  qed (use assms(4) f1 in simp)
  moreover have "image_of img ni3 a = image_of img ni a"
    if a: "a < logic_size ni" and out: "a div ?es < unat addr div ?es \<or> (?stop - 1) div ?es < a div ?es" for a
  proof -
    have "image_of img ni1 a = image_of img ni a" using i1 a out by auto
    moreover have "a < unat addr \<or> (?stop - 1) div ?ws < a div ?ws \<and> ?stop \<le> a"
      using out pos block_before [of a ?es "unat addr"] page_after [OF healthyD(5) [OF assms(2)], of "?stop - 1" a] healthyD(3) [OF assms(2)] block_before [of "?stop - 1" ?es a] by auto
    ultimately show ?thesis using i2 i3 a f1 unfolding programmed_def by auto
  qed
  ultimately show ?thesis using e w r assms(7) by auto
qed

theorem nmbm_write_read_back_witness:
  "\<exists>ni1 ni2 ni3. nmbm_erase_block_range (Some (sample 0)) 100 200 = Some (0, None, Some ni1) \<and>
    nmbm_write_range (Some ni1) 100 200 (replicate 200 0x5a) NMBM_MODE_PLACE_OOB = Some (0, Some 200, Some ni2) \<and>
    nmbm_read_range (Some ni2) 100 200 (replicate 200 0) NMBM_MODE_PLACE_OOB =
      Some (0, replicate 200 0x5a, Some 200, Some ni3)"
  using nmbm_write_read_back [of "sample 0" chip_fit chip_byte 100 200 "replicate 200 0x5a" "replicate 200 0"]
    chip.reliable_chip_axioms by auto
end
