(* ===== verification/Mtd_Core.thy ===== *)
theory Mtd_Core
  imports Prelude
begin

text \<open>
  The part of the MTD core that NMBM and the boot code go through
  (\<^verbatim>\<open>drivers/mtd/mtdcore.c\<close>, \<^verbatim>\<open>drivers/mtd/mtdpart.c\<close>, \<^verbatim>\<open>include/linux/mtd/mtd.h\<close>).

  \<^item> \<open>mtd_info\<close> holds the members of \<^verbatim>\<open>struct mtd_info\<close> that describe a device. A device
    adds its callbacks: \<open>nand_mtd\<close> for the raw NAND chip (its driver is not modelled, a
    callback is any function of the chip's state) and \<open>mtd_dev\<close> for a device whose
    callbacks are themselves modelled, and may fault or not return.
  \<^item> \<^verbatim>\<open>loff_t\<close> is a \<open>u64\<close> read through \<open>sint\<close>; \<^verbatim>\<open>size_t\<close> has 32 bits.
  \<^item> A \<^verbatim>\<open>size_t *retlen\<close> argument is an option: NULL, or what it points to. A driver's
    callback returns the value it stores there, if it stores one.
\<close>

abbreviation (input) EOPNOTSUPP :: int where "EOPNOTSUPP \<equiv> 95"
abbreviation (input) MTD_OPS_PLACE_OOB :: u32 where "MTD_OPS_PLACE_OOB \<equiv> 0"
abbreviation (input) MTD_OPS_AUTO_OOB :: u32 where "MTD_OPS_AUTO_OOB \<equiv> 1"
abbreviation (input) MTD_OPS_RAW :: u32 where "MTD_OPS_RAW \<equiv> 2"
abbreviation (input) MTD_NANDFLASH :: u8 where "MTD_NANDFLASH \<equiv> 4"
abbreviation (input) MTD_DEV_TYPE_NMBM :: u8 where "MTD_DEV_TYPE_NMBM \<equiv> 0x10"
abbreviation (input) MTD_WRITEABLE :: u32 where "MTD_WRITEABLE \<equiv> 0x400"
abbreviation (input) MTD_CAP_NANDFLASH :: u32 where "MTD_CAP_NANDFLASH \<equiv> 0x400"
abbreviation (input) MTD_ERASING :: u8 where "MTD_ERASING \<equiv> 0x02"
abbreviation (input) MTD_ERASE_DONE :: u8 where "MTD_ERASE_DONE \<equiv> 0x08"
abbreviation (input) MTD_ERASE_FAILED :: u8 where "MTD_ERASE_FAILED \<equiv> 0x10"
abbreviation (input) MTD_FAIL_ADDR_UNKNOWN :: u64 where "MTD_FAIL_ADDR_UNKNOWN \<equiv> -1"

section \<open>Structures\<close>

record mtd_oob_ops =
  oo_mode :: u32
  oo_len :: u32
  oo_retlen :: u32
  oo_ooblen :: u32
  oo_oobretlen :: u32
  oo_ooboffs :: u32
  oo_datbuf :: "bytes option"
  oo_oobbuf :: "bytes option"

text \<open>The \<^verbatim>\<open>mtd\<close> member of an erase request is NULL or the address of a device.\<close>

record erase_info =
  ei_mtd :: "nat option"
  ei_addr :: u64
  ei_len :: u64
  ei_fail_addr :: u64
  ei_state :: u8

text \<open>\<^verbatim>\<open>memset(&instr, 0, sizeof(instr))\<close>.\<close>

definition erase_info_zero :: erase_info where
  "erase_info_zero = \<lparr>ei_mtd = None, ei_addr = 0, ei_len = 0, ei_fail_addr = 0, ei_state = 0\<rparr>"

record mtd_info =
  mtd_ptr :: nat
  mtd_name :: string
  mtd_type :: u8
  mtd_flags :: u32
  mtd_size :: u64
  mtd_erasesize :: u32
  mtd_writesize :: u32
  mtd_writebufsize :: u32
  mtd_oobsize :: u32
  mtd_oobavail_bytes :: u32
  mtd_erasesize_shift :: u32
  mtd_writesize_shift :: u32
  mtd_erasesize_mask :: u32
  mtd_writesize_mask :: u32
  mtd_bitflip_threshold :: u32
  mtd_ecc_step_size :: u32
  mtd_ecc_strength :: u32

text \<open>The raw NAND chip below: the callbacks its driver sets, and the page shift of its \<^verbatim>\<open>nand_chip\<close>.\<close>

record 'c nand_mtd = mtd_info +
  nand_page_shift :: nat
  nand_reset :: "'c \<Rightarrow> int \<times> 'c"
  nand__read_oob :: "('c \<Rightarrow> u64 \<Rightarrow> mtd_oob_ops \<Rightarrow> int \<times> mtd_oob_ops \<times> 'c) option"
  nand__write_oob :: "('c \<Rightarrow> u64 \<Rightarrow> mtd_oob_ops \<Rightarrow> int \<times> 'c) option"
  nand__erase :: "'c \<Rightarrow> erase_info \<Rightarrow> int \<times> 'c"
  nand__block_isbad :: "('c \<Rightarrow> u64 \<Rightarrow> int \<times> 'c) option"
  nand__block_markbad :: "('c \<Rightarrow> u64 \<Rightarrow> int \<times> 'c) option"
  nand_ecc_stats :: "'c \<Rightarrow> u32 \<times> u32"

record 's mtd_dev = mtd_info +
  mtd__erase :: "'s \<Rightarrow> erase_info \<Rightarrow> (int \<times> erase_info \<times> 's) option"
  mtd__read :: "'s \<Rightarrow> u64 \<Rightarrow> u32 \<Rightarrow> bytes \<Rightarrow> (int \<times> bytes \<times> u32 option \<times> 's) option"
  mtd__write :: "('s \<Rightarrow> u64 \<Rightarrow> u32 \<Rightarrow> bytes \<Rightarrow> (int \<times> u32 option \<times> 's) option) option"
  mtd__read_oob :: "('s \<Rightarrow> u64 \<Rightarrow> mtd_oob_ops \<Rightarrow> (int \<times> mtd_oob_ops \<times> 's) option) option"
  mtd__write_oob :: "('s \<Rightarrow> u64 \<Rightarrow> mtd_oob_ops \<Rightarrow> (int \<times> mtd_oob_ops \<times> 's) option) option"
  mtd__block_isbad :: "('s \<Rightarrow> u64 \<Rightarrow> int option) option"
  mtd__block_markbad :: "('s \<Rightarrow> u64 \<Rightarrow> (int \<times> 's) option) option"

definition mtd_oobavail :: "('m) mtd_info_scheme \<Rightarrow> mtd_oob_ops \<Rightarrow> u32" where
  "mtd_oobavail mtd ops = (if oo_mode ops = MTD_OPS_AUTO_OOB then mtd_oobavail_bytes mtd else mtd_oobsize mtd)"

section \<open>The raw chip through the MTD core\<close>

text \<open>The result of a read that corrected bit flips: \<open>-EUCLEAN\<close> from the threshold on.\<close>

definition bitflip_result :: "('m) mtd_info_scheme \<Rightarrow> int \<Rightarrow> int" where
  "bitflip_result mtd ret_code =
     (if ret_code < 0 then ret_code
      else if mtd_ecc_strength mtd = 0 then 0
      else if ret_code \<ge> uint (mtd_bitflip_threshold mtd) then - EUCLEAN else 0)"

definition nand_read_oob :: "'c nand_mtd \<Rightarrow> 'c \<Rightarrow> u64 \<Rightarrow> mtd_oob_ops \<Rightarrow> int \<times> mtd_oob_ops \<times> 'c" where
  "nand_read_oob mtd c from ops =
     (let ops = ops\<lparr>oo_retlen := 0, oo_oobretlen := 0\<rparr>
      in case nand__read_oob mtd of
           None \<Rightarrow> (- EOPNOTSUPP, ops, c)
         | Some rd \<Rightarrow> (let (ret_code, ops, c) = rd c from ops in (bitflip_result mtd ret_code, ops, c)))"

definition nand_write_oob :: "'c nand_mtd \<Rightarrow> 'c \<Rightarrow> u64 \<Rightarrow> mtd_oob_ops \<Rightarrow> int \<times> 'c" where
  "nand_write_oob mtd c to ops =
     (let ops = ops\<lparr>oo_retlen := 0, oo_oobretlen := 0\<rparr>
      in case nand__write_oob mtd of
           None \<Rightarrow> (- EOPNOTSUPP, c)
         | Some wr \<Rightarrow> if mtd_flags mtd AND MTD_WRITEABLE = 0 then (- EROFS, c) else wr c to ops)"

text \<open>
  \<^verbatim>\<open>mtd_erase\<close> on the raw chip. The callers below set \<^verbatim>\<open>instr.mtd\<close>, and the chip is not an MTD
  partition, so the completion callback does nothing.
\<close>

definition nand_erase :: "'c nand_mtd \<Rightarrow> 'c \<Rightarrow> erase_info \<Rightarrow> int \<times> 'c" where
  "nand_erase mtd c instr =
     (if ei_addr instr > mtd_size mtd \<or> ei_len instr > mtd_size mtd - ei_addr instr then (- EINVAL, c)
      else if mtd_flags mtd AND MTD_WRITEABLE = 0 then (- EROFS, c)
      else if ei_len instr = 0 then (0, c)
      else nand__erase mtd c (instr\<lparr>ei_fail_addr := MTD_FAIL_ADDR_UNKNOWN\<rparr>))"

definition nand_block_isbad :: "'c nand_mtd \<Rightarrow> 'c \<Rightarrow> u64 \<Rightarrow> int \<times> 'c" where
  "nand_block_isbad mtd c ofs =
     (if sint ofs < 0 \<or> ofs > mtd_size mtd then (- EINVAL, c)
      else case nand__block_isbad mtd of None \<Rightarrow> (0, c) | Some f \<Rightarrow> f c ofs)"

definition nand_block_markbad :: "'c nand_mtd \<Rightarrow> 'c \<Rightarrow> u64 \<Rightarrow> int \<times> 'c" where
  "nand_block_markbad mtd c ofs =
     (case nand__block_markbad mtd of
        None \<Rightarrow> (- EOPNOTSUPP, c)
      | Some f \<Rightarrow>
          if sint ofs < 0 \<or> ofs > mtd_size mtd then (- EINVAL, c)
          else if mtd_flags mtd AND MTD_WRITEABLE = 0 then (- EROFS, c)
          else f c ofs)"

section \<open>A modelled device through the MTD core\<close>

text \<open>
  The completion callback of an erasure, which the devices here leave NULL. Built with
  \<^verbatim>\<open>CONFIG_MTD_PARTITIONS\<close> the function first compares \<^verbatim>\<open>instr->mtd->_erase\<close> with \<^verbatim>\<open>part_erase\<close>; no device here is
  a partition. When \<^verbatim>\<open>instr->mtd\<close> is NULL the load has no defined result in C (\<open>Partitions\<close>). What a machine makes of it
  is a property of the board, not of the sources: \<open>Partitions_null_readable\<close> is the same build on a machine on which the load goes
  through and gives a word that is not the address of \<^verbatim>\<open>part_erase\<close>. Without the option the function is the call of the callback only.
\<close>

datatype mtd_build = No_partitions | Partitions_null_readable | Partitions

definition mtd_erase_callback :: "mtd_build \<Rightarrow> erase_info \<Rightarrow> unit option" where
  "mtd_erase_callback parts instr = (if parts = Partitions \<and> ei_mtd instr = None then None else Some ())"

definition mtd_erase :: "mtd_build \<Rightarrow> 's mtd_dev \<Rightarrow> 's \<Rightarrow> erase_info \<Rightarrow> (int \<times> erase_info \<times> 's) option" where
  "mtd_erase parts mtd s instr =
     (if ei_addr instr > mtd_size mtd \<or> ei_len instr > mtd_size mtd - ei_addr instr
      then Some (- EINVAL, instr, s)
      else if mtd_flags mtd AND MTD_WRITEABLE = 0 then Some (- EROFS, instr, s)
      else do {
        let instr = instr\<lparr>ei_fail_addr := MTD_FAIL_ADDR_UNKNOWN\<rparr>;
        if ei_len instr = 0 then do {
          let instr = instr\<lparr>ei_state := MTD_ERASE_DONE\<rparr>;
          _ \<leftarrow> mtd_erase_callback parts instr;
          Some (0, instr, s)
        } else mtd__erase mtd s instr
      })"

definition mtd_read :: "'s mtd_dev \<Rightarrow> 's \<Rightarrow> u64 \<Rightarrow> u32 \<Rightarrow> u32 option \<Rightarrow> bytes
    \<Rightarrow> (int \<times> bytes \<times> u32 \<times> 's) option" where
  "mtd_read mtd s from len retlen buf = do {
     _ \<leftarrow> retlen;
     if sint from < 0 \<or> from > mtd_size mtd \<or> ucast len > mtd_size mtd - from
     then Some (- EINVAL, buf, 0, s)
     else if len = 0 then Some (0, buf, 0, s)
     else do {
       (ret_code, buf, stored, s) \<leftarrow> mtd__read mtd s from len buf;
       Some (bitflip_result mtd ret_code, buf, case stored of None \<Rightarrow> 0 | Some n \<Rightarrow> n, s)
     }
   }"

definition mtd_write :: "'s mtd_dev \<Rightarrow> 's \<Rightarrow> u64 \<Rightarrow> u32 \<Rightarrow> u32 option \<Rightarrow> bytes
    \<Rightarrow> (int \<times> u32 \<times> 's) option" where
  "mtd_write mtd s to len retlen buf = do {
     _ \<leftarrow> retlen;
     if sint to < 0 \<or> to > mtd_size mtd \<or> ucast len > mtd_size mtd - to then Some (- EINVAL, 0, s)
     else case mtd__write mtd of
       None \<Rightarrow> Some (- EROFS, 0, s)
     | Some wr \<Rightarrow>
         if mtd_flags mtd AND MTD_WRITEABLE = 0 then Some (- EROFS, 0, s)
         else if len = 0 then Some (0, 0, s)
         else do {
           (ret, stored, s) \<leftarrow> wr s to len buf;
           Some (ret, case stored of None \<Rightarrow> 0 | Some n \<Rightarrow> n, s)
         }
   }"

end
