(* ===== verification/Strto.thy ===== *)
theory Strto
  imports Prelude
begin

text \<open>
  Numbers in command lines and requests: \<^verbatim>\<open>simple_strtoul\<close> and \<^verbatim>\<open>simple_strtoull\<close> (\<^verbatim>\<open>lib/strto.c\<close>), and the
  digits that \<^verbatim>\<open>%x\<close> and \<^verbatim>\<open>%u\<close> print.

  A C string is the list of its characters up to the terminating NUL; reading the NUL finds
  no digit. The end pointer of a conversion is the rest of the string, so that \<^verbatim>\<open>end == str\<close> is
  equality with the string itself. \<^verbatim>\<open>unsigned long\<close> has 32 bits and \<^verbatim>\<open>unsigned long long\<close> 64.
\<close>

section \<open>Characters\<close>

definition isdigit :: "char \<Rightarrow> bool" where
  "isdigit c \<longleftrightarrow> of_char c \<in> {48 .. (57 :: nat)}"

definition isxdigit :: "char \<Rightarrow> bool" where
  "isxdigit c \<longleftrightarrow> isdigit c \<or> of_char c \<in> {65 .. (70 :: nat)} \<or> of_char c \<in> {97 .. (102 :: nat)}"

definition digit_value :: "char \<Rightarrow> nat" where
  "digit_value c =
     (if isdigit c then of_char c - 48
      else (if of_char c \<in> {97 .. (122 :: nat)} then of_char c - 32 else of_char c) - 65 + 10)"

section \<open>Parsing\<close>

definition parse_integer_fixup_radix :: "string \<Rightarrow> nat \<Rightarrow> string \<times> nat" where
  "parse_integer_fixup_radix s base =
     (let x = (2 \<le> length s \<and> s ! 0 = CHR ''0'' \<and> (s ! 1 = CHR ''x'' \<or> s ! 1 = CHR ''X''));
          base = (if base \<noteq> 0 then base
                  else if s \<noteq> [] \<and> s ! 0 = CHR ''0'' then
                    if x \<and> 3 \<le> length s \<and> isxdigit (s ! 2) then 16 else 8
                  else 10)
      in (if base = 16 \<and> x then drop 2 s else s, base))"

fun parse_digits :: "nat \<Rightarrow> 'a::len word \<Rightarrow> string \<Rightarrow> 'a word \<times> string" where
  "parse_digits base result [] = (result, [])"
| "parse_digits base result (c # cp) =
     (if isxdigit c \<and> digit_value c < base then parse_digits base (result * of_nat base + of_nat (digit_value c)) cp
      else (result, c # cp))"

definition simple_strtoul :: "string \<Rightarrow> nat \<Rightarrow> u32 \<times> string" where
  "simple_strtoul cp base = (let (cp, base) = parse_integer_fixup_radix cp base in parse_digits base 0 cp)"

definition simple_strtoull :: "string \<Rightarrow> nat \<Rightarrow> u64 \<times> string" where
  "simple_strtoull cp base = (let (cp, base) = parse_integer_fixup_radix cp base in parse_digits base 0 cp)"

section \<open>Printing\<close>

definition hex_digit :: "nat \<Rightarrow> char" where
  "hex_digit n = char_of (if n < 10 then 48 + n else 87 + n)"

fun hexadecimal :: "nat \<Rightarrow> string" where
  "hexadecimal n = (if n < 16 then [hex_digit n] else hexadecimal (n div 16) @ [hex_digit (n mod 16)])"

declare hexadecimal.simps [simp del]

text \<open>\<^verbatim>\<open>0x%x\<close>\<close>

definition hex_arg :: "nat \<Rightarrow> string" where "hex_arg n = ''0x'' @ hexadecimal n"

text \<open>\<^verbatim>\<open>%u\<close>\<close>

fun decimal :: "nat \<Rightarrow> string" where
  "decimal n = (if n < 10 then [char_of (48 + n)] else decimal (n div 10) @ [char_of (48 + n mod 10)])"

declare decimal.simps [simp del]

section \<open>What is printed is parsed\<close>

lemma hex_digit [simp]:
  assumes "n < 16"
  shows "isxdigit (hex_digit n)" "digit_value (hex_digit n) = n"
  using assms by (auto simp: hex_digit_def isxdigit_def isdigit_def digit_value_def of_char_of)

lemma parse_digits_append:
  assumes "\<forall>c \<in> set cs. isxdigit c \<and> digit_value c < base"
  shows "parse_digits base r (cs @ rest) = parse_digits base (fst (parse_digits base r cs)) rest"
  using assms by (induction cs arbitrary: r) auto

lemma hexadecimal_digits: "\<forall>c \<in> set (hexadecimal n). isxdigit c \<and> digit_value c < 16"
  by (induction n rule: hexadecimal.induct) (subst hexadecimal.simps, auto)

lemma parse_hexadecimal:
  "parse_digits 16 0 (hexadecimal n) = (of_nat n :: 'a::len word, [])"
proof (induction n rule: hexadecimal.induct)
  case (1 n)
  show ?case
  proof (cases "n < 16")
    case True
    then show ?thesis by (simp add: hexadecimal.simps [of n])
  next
    case False
    have "of_nat (n div 16) * 16 + of_nat (n mod 16) = (of_nat (n div 16 * 16 + n mod 16) :: 'a word)"
      by (simp only: of_nat_add of_nat_mult of_nat_numeral)
    also have "\<dots> = of_nat n" by simp
    finally show ?thesis
      using False 1 [OF False] by (simp add: hexadecimal.simps [of n] parse_digits_append [OF hexadecimal_digits])
  qed
qed

lemma strtoull_hex [simp]: "simple_strtoull (hex_arg n) 16 = (of_nat n, [])"
  and strtoul_hex [simp]: "simple_strtoul (hex_arg n) 16 = (of_nat n, [])"
  by (simp_all add: simple_strtoull_def simple_strtoul_def parse_integer_fixup_radix_def hex_arg_def parse_hexadecimal)

lemma dec_digit:
  assumes "n < 10"
  shows "isxdigit (char_of (48 + n))" "digit_value (char_of (48 + n)) = n"
  using assms by (auto simp: isxdigit_def isdigit_def digit_value_def of_char_of)

lemma decimal_digits: "\<forall>c \<in> set (decimal n). isxdigit c \<and> digit_value c < 10"
  by (induction n rule: decimal.induct) (subst decimal.simps, auto simp: dec_digit)

lemma parse_decimal:
  "parse_digits 10 0 (decimal n) = (of_nat n :: 'a::len word, [])"
proof (induction n rule: decimal.induct)
  case (1 n)
  show ?case
  proof (cases "n < 10")
    case True
    then show ?thesis by (simp add: decimal.simps [of n] dec_digit)
  next
    case False
    have "of_nat (n div 10) * 10 + of_nat (n mod 10) = (of_nat (n div 10 * 10 + n mod 10) :: 'a word)"
      by (simp only: of_nat_add of_nat_mult of_nat_numeral)
    also have "\<dots> = of_nat n" by simp
    finally show ?thesis
      using False 1 [OF False] dec_digit [of "n mod 10"] by (simp add: decimal.simps [of n] parse_digits_append [OF decimal_digits])
  qed
qed

text \<open>A decimal number up to a character that is no digit.\<close>

lemma strtoul_decimal:
  assumes "rest = [] \<or> \<not> isxdigit (hd rest)"
  shows "simple_strtoul (decimal n @ rest) 10 = (of_nat n, rest)"
proof -
  have "parse_digits 10 r rest = (r, rest)" for r :: u32 using assms by (cases rest) simp_all
  then show ?thesis
    by (simp add: simple_strtoul_def parse_integer_fixup_radix_def parse_digits_append [OF decimal_digits] parse_decimal)
qed

lemma hex_arg_not_Nil [simp]: "hex_arg n \<noteq> []" "[] \<noteq> hex_arg n"
  by (simp_all add: hex_arg_def)

end
