(* ===== verification/Nmbm_Mtd.thy ===== *)
theory Nmbm_Mtd
  imports Nmbm_Device Mtd_Core Strto
begin

text \<open>
  NMBM as an MTD device (\<^verbatim>\<open>drivers/mtd/nmbm/nmbm-mtd.c\<close>): the callbacks that let NMBM use a
  raw NAND chip as its lower device, the callbacks of the MTD device it offers to the rest
  of the boot loader, and attaching and freeing such devices.

  \<^item> \<open>nm_arg\<close> is what the lower device's \<^verbatim>\<open>arg\<close> gives the callbacks access to: the chip's
    state and the ECC statistics of the upper device. The description of the chip,
    \<^verbatim>\<open>nm->lower\<close>, does not change and is a parameter of the callbacks.
  \<^item> \<open>nmbm_mtd\<close> is \<^verbatim>\<open>struct nmbm_mtd\<close>, with the instance and the page cache it owns; its
    first member is the upper device, so both have the same address.
  \<^item> The functions that only print (\<^verbatim>\<open>nmbm_mtd_print_info\<close> and the like) are not modelled.
\<close>

record 'c nm_arg =
  nd_chip :: 'c
  nd_corrected :: u32
  nd_failed :: u32

record 'c nmbm_mtd =
  nm_upper :: mtd_info
  nm_name :: string
  nm_id :: u32
  nm_lower :: "'c nand_mtd"
  nm_ni :: "'c nm_arg nmbm_instance"
  nm_page_cache :: bytes

abbreviation nm_size :: "'c nmbm_mtd \<Rightarrow> u64" where "nm_size nm \<equiv> mtd_size (nm_upper nm)"

section \<open>The lower device\<close>

primrec mtd_mode :: "nmbm_oob_mode \<Rightarrow> u32" where
  "mtd_mode NMBM_MODE_PLACE_OOB = MTD_OPS_PLACE_OOB"
| "mtd_mode NMBM_MODE_AUTO_OOB = MTD_OPS_AUTO_OOB"
| "mtd_mode NMBM_MODE_RAW = MTD_OPS_RAW"

text \<open>The request the two page callbacks build from their arguments.\<close>

definition lower_ops :: "'c nand_mtd \<Rightarrow> bytes option \<Rightarrow> bytes option \<Rightarrow> nmbm_oob_mode \<Rightarrow> mtd_oob_ops" where
  "lower_ops lower buf oob mode =
     (let ops = \<lparr>oo_mode = mtd_mode mode, oo_len = 0, oo_retlen = 0, oo_ooblen = 0, oo_oobretlen = 0,
            oo_ooboffs = 0, oo_datbuf = None, oo_oobbuf = None\<rparr>;
          ops = (if buf \<noteq> None then ops\<lparr>oo_datbuf := buf, oo_len := mtd_writesize lower\<rparr> else ops)
      in if oob \<noteq> None then ops\<lparr>oo_oobbuf := oob, oo_ooblen := mtd_oobavail lower ops\<rparr> else ops)"

definition nmbm_lower_reset_chip :: "'c nand_mtd \<Rightarrow> 'c nm_arg reset_fn" where
  "nmbm_lower_reset_chip lower d =
     (let (ret, c) = nand_reset lower (nd_chip d) in (ret, d\<lparr>nd_chip := c\<rparr>))"

definition nmbm_lower_read_page :: "'c nand_mtd \<Rightarrow> 'c nm_arg read_fn" where
  "nmbm_lower_read_page lower d addr buf oob mode =
     (let (ret, ops, c) = nand_read_oob lower (nd_chip d) addr (lower_ops lower buf oob mode);
          (corrected, failed) = nand_ecc_stats lower c;
          d = d\<lparr>nd_chip := c, nd_corrected := corrected, nd_failed := failed\<rparr>;
          ret = (if ret = - EBADMSG then 1 else if ret \<noteq> 0 \<and> ret \<noteq> - EUCLEAN then ret else 0)
      in (ret, oo_datbuf ops, oo_oobbuf ops, d))"

definition nmbm_lower_write_page :: "'c nand_mtd \<Rightarrow> 'c nm_arg write_fn" where
  "nmbm_lower_write_page lower d addr buf oob mode =
     (let (ret, c) = nand_write_oob lower (nd_chip d) addr (lower_ops lower buf oob mode)
      in (ret, d\<lparr>nd_chip := c\<rparr>))"

definition nmbm_lower_erase_block :: "'c nand_mtd \<Rightarrow> 'c nm_arg block_fn" where
  "nmbm_lower_erase_block lower d addr =
     (let ei = erase_info_zero\<lparr>ei_mtd := Some (mtd_ptr lower), ei_addr := addr,
            ei_len := ucast (mtd_erasesize lower)\<rparr>;
          (ret, c) = nand_erase lower (nd_chip d) ei
      in (ret, d\<lparr>nd_chip := c\<rparr>))"

definition nmbm_lower_is_bad_block :: "'c nand_mtd \<Rightarrow> 'c nm_arg block_fn" where
  "nmbm_lower_is_bad_block lower d addr =
     (let (ret, c) = nand_block_isbad lower (nd_chip d) addr in (ret, d\<lparr>nd_chip := c\<rparr>))"

definition nmbm_lower_mark_bad_block :: "'c nand_mtd \<Rightarrow> 'c nm_arg block_fn" where
  "nmbm_lower_mark_bad_block lower d addr =
     (let (ret, c) = nand_block_markbad lower (nd_chip d) addr in (ret, d\<lparr>nd_chip := c\<rparr>))"

section \<open>The upper device: data\<close>

definition nmbm_mtd_read :: "'c nmbm_mtd \<Rightarrow> u64 \<Rightarrow> u32 \<Rightarrow> bytes
    \<Rightarrow> (int \<times> bytes \<times> u32 option \<times> 'c nmbm_mtd) option" where
  "nmbm_mtd_read nm from len buf =
     (if from + ucast len > nm_size nm then Some (- EINVAL, buf, None, nm)
      else do {
        (ret, buf, retlen, nip) \<leftarrow> nmbm_read_range (Some (nm_ni nm)) from len buf NMBM_MODE_PLACE_OOB;
        ni \<leftarrow> nip;
        Some (ret, buf, retlen, nm\<lparr>nm_ni := ni\<rparr>)
      })"

definition nmbm_mtd_write :: "'c nmbm_mtd \<Rightarrow> u64 \<Rightarrow> u32 \<Rightarrow> bytes
    \<Rightarrow> (int \<times> u32 option \<times> 'c nmbm_mtd) option" where
  "nmbm_mtd_write nm to len buf =
     (if to + ucast len > nm_size nm then Some (- EINVAL, None, nm)
      else do {
        (ret, retlen, nip) \<leftarrow> nmbm_write_range (Some (nm_ni nm)) to len buf NMBM_MODE_PLACE_OOB;
        ni \<leftarrow> nip;
        Some (ret, retlen, nm\<lparr>nm_ni := ni\<rparr>)
      })"

definition nmbm_mtd_erase :: "mtd_build \<Rightarrow> 'c nmbm_mtd \<Rightarrow> erase_info
    \<Rightarrow> (int \<times> erase_info \<times> 'c nmbm_mtd) option" where
  "nmbm_mtd_erase parts nm instr = do {
     let instr = instr\<lparr>ei_state := MTD_ERASING\<rparr>;
     (ret, failed_addr, nip) \<leftarrow> nmbm_erase_block_range (Some (nm_ni nm)) (ei_addr instr) (ei_len instr);
     ni \<leftarrow> nip;
     let nm = nm\<lparr>nm_ni := ni\<rparr>;
     let instr = (case failed_addr of None \<Rightarrow> instr | Some a \<Rightarrow> instr\<lparr>ei_fail_addr := a\<rparr>);
     if ret \<noteq> 0 then Some (- EIO, instr\<lparr>ei_state := MTD_ERASE_FAILED\<rparr>, nm)
     else do {
       let instr = instr\<lparr>ei_state := MTD_ERASE_DONE\<rparr>;
       _ \<leftarrow> mtd_erase_callback parts instr;
       Some (ret, instr, nm)
     }
   }"

section \<open>The upper device: data and spare bytes\<close>

text \<open>
  The parts of the page cache behind \<^verbatim>\<open>datcache\<close> and \<^verbatim>\<open>oobcache\<close>; a pointer is NULL when
  nothing of its kind was asked for.
\<close>

definition nm_cache :: "'c nmbm_mtd \<Rightarrow> bool \<Rightarrow> bool \<Rightarrow> (bytes option \<times> bytes option) option" where
  "nm_cache nm dat oob = do {
     let ws = unat (mtd_writesize (nm_lower nm));
     d \<leftarrow> mem_read 0 ws (nm_page_cache nm);
     b \<leftarrow> mem_read ws (unat (mtd_oobsize (nm_lower nm))) (nm_page_cache nm);
     Some (if dat then Some d else None, if oob then Some b else None)
   }"

definition nm_cache_store :: "'c nmbm_mtd \<Rightarrow> bytes option \<Rightarrow> bytes option \<Rightarrow> 'c nmbm_mtd option" where
  "nm_cache_store nm d b = do {
     cache \<leftarrow> (case d of None \<Rightarrow> Some (nm_page_cache nm) | Some bs \<Rightarrow> mem_write 0 bs (nm_page_cache nm));
     cache \<leftarrow> (case b of None \<Rightarrow> Some cache
       | Some bs \<Rightarrow> mem_write (unat (mtd_writesize (nm_lower nm))) bs cache);
     Some (nm\<lparr>nm_page_cache := cache\<rparr>)
   }"

text \<open>A page read into the page cache, and a page written from it.\<close>

definition nm_read_page :: "'c nmbm_mtd \<Rightarrow> bool \<Rightarrow> bool \<Rightarrow> u64 \<Rightarrow> nmbm_oob_mode
    \<Rightarrow> (int \<times> 'c nmbm_mtd) option" where
  "nm_read_page nm dat oob addr mode = do {
     (d, b) \<leftarrow> nm_cache nm dat oob;
     (ret, (d, b), nip) \<leftarrow> nmbm_read_single_page (Some (nm_ni nm)) addr d b mode;
     ni \<leftarrow> nip;
     nm \<leftarrow> nm_cache_store (nm\<lparr>nm_ni := ni\<rparr>) d b;
     Some (ret, nm)
   }"

definition nm_write_page :: "'c nmbm_mtd \<Rightarrow> bool \<Rightarrow> bool \<Rightarrow> u64 \<Rightarrow> nmbm_oob_mode
    \<Rightarrow> (int \<times> 'c nmbm_mtd) option" where
  "nm_write_page nm dat oob addr mode = do {
     (d, b) \<leftarrow> nm_cache nm dat oob;
     (ret, nip) \<leftarrow> nmbm_write_single_page (Some (nm_ni nm)) addr d b mode;
     ni \<leftarrow> nip;
     Some (ret, nm\<lparr>nm_ni := ni\<rparr>)
   }"

text \<open>
  The two moves of a page: from the page cache at \<open>cacheoff + col\<close> into the caller's buffer,
  and back. \<open>width\<close> is the room the page has, \<open>col\<close> where the move starts in it and \<open>len\<close>
  what is left to move; the result has the new buffer or cache and the bytes moved.
\<close>

definition chunk_len :: "u32 \<Rightarrow> u32 \<Rightarrow> u32 \<Rightarrow> u32" where
  "chunk_len width col len = (if width - col > len then len else width - col)"

definition move_out :: "bytes \<Rightarrow> nat \<Rightarrow> u32 \<Rightarrow> u32 \<Rightarrow> bytes option \<Rightarrow> u32 \<Rightarrow> bytes option" where
  "move_out cache cacheoff col chklen buf retlen = do {
     chunk \<leftarrow> mem_read (cacheoff + unat col) (unat chklen) cache;
     dst \<leftarrow> buf;
     mem_write (unat retlen) chunk dst
   }"

definition move_in :: "bytes \<Rightarrow> nat \<Rightarrow> u32 \<Rightarrow> u32 \<Rightarrow> u32 \<Rightarrow> bytes option \<Rightarrow> u32 \<Rightarrow> bytes option" where
  "move_in cache cacheoff room col chklen buf retlen = do {
     src \<leftarrow> buf;
     chunk \<leftarrow> mem_read (unat retlen) (unat chklen) src;
     cache \<leftarrow> mem_write cacheoff (replicate (unat col) 0xff) cache;
     cache \<leftarrow> mem_write (cacheoff + unat col) chunk cache;
     mem_write (cacheoff + unat col + unat chklen) (replicate (unat (room - col - chklen)) 0xff) cache
   }"

text \<open>The ``Move data'' and ``Move oob'' steps of the two loops, each skipped when nothing is left.\<close>

definition data_out :: "'c nmbm_mtd \<Rightarrow> u32 \<Rightarrow> u32 \<Rightarrow> mtd_oob_ops \<Rightarrow> (u32 \<times> u32 \<times> mtd_oob_ops) option" where
  "data_out nm len col ops =
     (if len \<noteq> 0 then do {
        let chklen = chunk_len (mtd_writesize (nm_lower nm)) col len;
        dst \<leftarrow> move_out (nm_page_cache nm) 0 col chklen (oo_datbuf ops) (oo_retlen ops);
        Some (len - chklen, 0, ops\<lparr>oo_datbuf := Some dst, oo_retlen := oo_retlen ops + chklen\<rparr>)
      } else Some (len, col, ops))"

definition oob_out :: "'c nmbm_mtd \<Rightarrow> u32 \<Rightarrow> u32 \<Rightarrow> u32 \<Rightarrow> mtd_oob_ops
    \<Rightarrow> (u32 \<times> u32 \<times> mtd_oob_ops) option" where
  "oob_out nm maxooblen ooblen ooboffs ops =
     (if ooblen \<noteq> 0 then do {
        let chklen = chunk_len maxooblen ooboffs ooblen;
        dst \<leftarrow> move_out (nm_page_cache nm) (unat (mtd_writesize (nm_lower nm))) ooboffs chklen
          (oo_oobbuf ops) (oo_oobretlen ops);
        Some (ooblen - chklen, 0, ops\<lparr>oo_oobbuf := Some dst, oo_oobretlen := oo_oobretlen ops + chklen\<rparr>)
      } else Some (ooblen, ooboffs, ops))"

definition data_in :: "'c nmbm_mtd \<Rightarrow> u32 \<Rightarrow> u32 \<Rightarrow> mtd_oob_ops
    \<Rightarrow> ('c nmbm_mtd \<times> u32 \<times> u32 \<times> mtd_oob_ops) option" where
  "data_in nm len col ops =
     (if len \<noteq> 0 then do {
        let ws = mtd_writesize (nm_lower nm);
        let chklen = chunk_len ws col len;
        cache \<leftarrow> move_in (nm_page_cache nm) 0 ws col chklen (oo_datbuf ops) (oo_retlen ops);
        Some (nm\<lparr>nm_page_cache := cache\<rparr>, len - chklen, 0, ops\<lparr>oo_retlen := oo_retlen ops + chklen\<rparr>)
      } else Some (nm, len, col, ops))"

definition oob_in :: "'c nmbm_mtd \<Rightarrow> u32 \<Rightarrow> u32 \<Rightarrow> u32 \<Rightarrow> mtd_oob_ops
    \<Rightarrow> ('c nmbm_mtd \<times> u32 \<times> u32 \<times> mtd_oob_ops) option" where
  "oob_in nm maxooblen ooblen ooboffs ops =
     (if ooblen \<noteq> 0 then do {
        let chklen = chunk_len maxooblen ooboffs ooblen;
        cache \<leftarrow> move_in (nm_page_cache nm) (unat (mtd_writesize (nm_lower nm)))
          (mtd_oobsize (nm_lower nm)) ooboffs chklen (oo_oobbuf ops) (oo_oobretlen ops);
        Some (nm\<lparr>nm_page_cache := cache\<rparr>, ooblen - chklen, 0,
          ops\<lparr>oo_oobretlen := oo_oobretlen ops + chklen\<rparr>)
      } else Some (nm, ooblen, ooboffs, ops))"

text \<open>
  The loop of \<open>nmbm_mtd_read_data\<close>; \<open>dat\<close> and \<open>oob\<close> tell whether \<^verbatim>\<open>datcache\<close> and \<^verbatim>\<open>oobcache\<close> are
  set. Its variables are the device, \<^verbatim>\<open>addr\<close>, \<^verbatim>\<open>len\<close>, \<^verbatim>\<open>ooblen\<close>, \<^verbatim>\<open>col\<close>, \<^verbatim>\<open>ooboffs\<close> and the request.
\<close>

definition read_data_loop_body :: "bool \<Rightarrow> bool \<Rightarrow> u32 \<Rightarrow> nmbm_oob_mode
    \<Rightarrow> 'c nmbm_mtd \<times> u64 \<times> u32 \<times> u32 \<times> u32 \<times> u32 \<times> mtd_oob_ops
    \<Rightarrow> (int \<times> mtd_oob_ops \<times> 'c nmbm_mtd
        + 'c nmbm_mtd \<times> u64 \<times> u32 \<times> u32 \<times> u32 \<times> u32 \<times> mtd_oob_ops) option" where
  "read_data_loop_body dat oob maxooblen mode = (\<lambda>(nm, addr, len, ooblen, col, ooboffs, ops).
     if len \<noteq> 0 \<or> ooblen \<noteq> 0 then do {
       (ret, nm) \<leftarrow> nm_read_page nm dat oob addr mode;
       if ret \<noteq> 0 then Some (Inl (if ret > 0 then - EBADMSG else - EIO, ops, nm))
       else do {
         (len, col, ops) \<leftarrow> data_out nm len col ops;
         (ooblen, ooboffs, ops) \<leftarrow> oob_out nm maxooblen ooblen ooboffs ops;
         Some (Inr (nm, addr + ucast (mtd_writesize (nm_lower nm)), len, ooblen, col, ooboffs, ops))
       }
     } else Some (Inl (0, ops, nm)))"

definition nmbm_mtd_read_data :: "'c nmbm_mtd \<Rightarrow> u64 \<Rightarrow> mtd_oob_ops \<Rightarrow> nmbm_oob_mode
    \<Rightarrow> (int \<times> mtd_oob_ops \<times> 'c nmbm_mtd) option" where
  "nmbm_mtd_read_data nm addr ops mode =
     (let lower = nm_lower nm;
          col = ucast (addr AND ucast (mtd_writesize_mask lower));
          addr = addr AND ucast (NOT (mtd_writesize_mask lower));
          maxooblen = mtd_oobavail lower ops
      in loop (read_data_loop_body (oo_len ops \<noteq> 0) (oo_ooblen ops \<noteq> 0) maxooblen mode)
           (nm, addr, oo_len ops, oo_ooblen ops, col, oo_ooboffs ops,
            ops\<lparr>oo_oobretlen := 0, oo_retlen := 0\<rparr>))"

text \<open>\<open>Inl\<close> is \<^verbatim>\<open>-ENOTSUPP\<close>: the request's mode is none of the three.\<close>

definition nmbm_mode :: "u32 \<Rightarrow> nmbm_oob_mode option" where
  "nmbm_mode mode =
     (if mode = MTD_OPS_PLACE_OOB then Some NMBM_MODE_PLACE_OOB
      else if mode = MTD_OPS_AUTO_OOB then Some NMBM_MODE_AUTO_OOB
      else if mode = MTD_OPS_RAW then Some NMBM_MODE_RAW else None)"

text \<open>The check both transfers with spare bytes make: they start and end on the device.\<close>

definition oob_beyond_end :: "'c nmbm_mtd \<Rightarrow> u64 \<Rightarrow> mtd_oob_ops \<Rightarrow> u32 \<Rightarrow> bool" where
  "oob_beyond_end nm ofs ops maxooblen \<longleftrightarrow>
     (let shift = nand_page_shift (nm_lower nm)
      in ofs \<ge> nm_size nm \<or>
         ucast (oo_ooboffs ops + oo_ooblen ops) >
           (drop_bit shift (nm_size nm) - drop_bit shift ofs) * ucast maxooblen)"

definition nmbm_mtd_read_oob :: "'c nmbm_mtd \<Rightarrow> u64 \<Rightarrow> mtd_oob_ops
    \<Rightarrow> (int \<times> mtd_oob_ops \<times> 'c nmbm_mtd) option" where
  "nmbm_mtd_read_oob nm from ops =
     (if oo_oobbuf ops = None \<and> oo_datbuf ops = None
      then Some (if oo_ooblen ops \<noteq> 0 \<or> oo_len ops \<noteq> 0 then - EINVAL else 0, ops, nm)
      else case nmbm_mode (oo_mode ops) of
        None \<Rightarrow> Some (- ENOTSUPP, ops, nm)
      | Some mode \<Rightarrow> do {
          let maxooblen = mtd_oobavail (nm_upper nm) ops;
          if oo_datbuf ops \<noteq> None \<and> from + ucast (oo_len ops) > nm_size nm
          then Some (- EINVAL, ops, nm)
          else if oo_oobbuf ops = None then do {
            buf \<leftarrow> oo_datbuf ops;
            (ret, buf, retlen, nip) \<leftarrow> nmbm_read_range (Some (nm_ni nm)) from (oo_len ops) buf mode;
            ni \<leftarrow> nip;
            let ops = ops\<lparr>oo_datbuf := Some buf,
              oo_retlen := (case retlen of None \<Rightarrow> oo_retlen ops | Some n \<Rightarrow> n)\<rparr>;
            Some (if ret > 0 then - EBADMSG else if ret \<noteq> 0 then - EIO else 0, ops, nm\<lparr>nm_ni := ni\<rparr>)
          }
          else if oo_ooboffs ops \<ge> maxooblen then Some (- EINVAL, ops, nm)
          else if oob_beyond_end nm from ops maxooblen then Some (- EINVAL, ops, nm)
          else nmbm_mtd_read_data nm from ops mode
        })"

definition write_data_loop_body :: "bool \<Rightarrow> bool \<Rightarrow> u32 \<Rightarrow> nmbm_oob_mode
    \<Rightarrow> 'c nmbm_mtd \<times> u64 \<times> u32 \<times> u32 \<times> u32 \<times> u32 \<times> mtd_oob_ops
    \<Rightarrow> (int \<times> mtd_oob_ops \<times> 'c nmbm_mtd
        + 'c nmbm_mtd \<times> u64 \<times> u32 \<times> u32 \<times> u32 \<times> u32 \<times> mtd_oob_ops) option" where
  "write_data_loop_body dat oob maxooblen mode = (\<lambda>(nm, addr, len, ooblen, col, ooboffs, ops).
     if len \<noteq> 0 \<or> ooblen \<noteq> 0 then do {
       (nm, len, col, ops) \<leftarrow> data_in nm len col ops;
       (nm, ooblen, ooboffs, ops) \<leftarrow> oob_in nm maxooblen ooblen ooboffs ops;
       (ret, nm) \<leftarrow> nm_write_page nm dat oob addr mode;
       if ret \<noteq> 0 then Some (Inl (ret, ops, nm))
       else Some (Inr (nm, addr + ucast (mtd_writesize (nm_lower nm)), len, ooblen, col, ooboffs, ops))
     } else Some (Inl (0, ops, nm)))"

definition nmbm_mtd_write_data :: "'c nmbm_mtd \<Rightarrow> u64 \<Rightarrow> mtd_oob_ops \<Rightarrow> nmbm_oob_mode
    \<Rightarrow> (int \<times> mtd_oob_ops \<times> 'c nmbm_mtd) option" where
  "nmbm_mtd_write_data nm addr ops mode =
     (let lower = nm_lower nm;
          col = ucast (addr AND ucast (mtd_writesize_mask lower));
          addr = addr AND ucast (NOT (mtd_writesize_mask lower));
          maxooblen = mtd_oobavail lower ops
      in loop (write_data_loop_body (oo_len ops \<noteq> 0) (oo_ooblen ops \<noteq> 0) maxooblen mode)
           (nm, addr, oo_len ops, oo_ooblen ops, col, oo_ooboffs ops,
            ops\<lparr>oo_oobretlen := 0, oo_retlen := 0\<rparr>))"

definition nmbm_mtd_write_oob :: "'c nmbm_mtd \<Rightarrow> u64 \<Rightarrow> mtd_oob_ops
    \<Rightarrow> (int \<times> mtd_oob_ops \<times> 'c nmbm_mtd) option" where
  "nmbm_mtd_write_oob nm to ops =
     (if oo_oobbuf ops = None \<and> oo_datbuf ops = None
      then Some (if oo_ooblen ops \<noteq> 0 \<or> oo_len ops \<noteq> 0 then - EINVAL else 0, ops, nm)
      else case nmbm_mode (oo_mode ops) of
        None \<Rightarrow> Some (- ENOTSUPP, ops, nm)
      | Some mode \<Rightarrow> do {
          let maxooblen = mtd_oobavail (nm_upper nm) ops;
          if oo_datbuf ops \<noteq> None \<and> to + ucast (oo_len ops) > nm_size nm
          then Some (- EINVAL, ops, nm)
          else if oo_oobbuf ops = None then do {
            buf \<leftarrow> oo_datbuf ops;
            (ret, retlen, nip) \<leftarrow> nmbm_write_range (Some (nm_ni nm)) to (oo_len ops) buf mode;
            ni \<leftarrow> nip;
            Some (ret, ops\<lparr>oo_retlen := (case retlen of None \<Rightarrow> oo_retlen ops | Some n \<Rightarrow> n)\<rparr>,
              nm\<lparr>nm_ni := ni\<rparr>)
          }
          else if oo_ooboffs ops \<ge> maxooblen then Some (- EINVAL, ops, nm)
          else if oob_beyond_end nm to ops maxooblen then Some (- EINVAL, ops, nm)
          else nmbm_mtd_write_data nm to ops mode
        })"

definition nmbm_mtd_block_isbad :: "'c nmbm_mtd \<Rightarrow> u64 \<Rightarrow> int option" where
  "nmbm_mtd_block_isbad nm offs = nmbm_check_bad_block (Some (nm_ni nm)) offs"

definition nmbm_mtd_block_markbad :: "'c nmbm_mtd \<Rightarrow> u64 \<Rightarrow> (int \<times> 'c nmbm_mtd) option" where
  "nmbm_mtd_block_markbad nm offs = do {
     (ret, nip) \<leftarrow> nmbm_mark_bad_block (Some (nm_ni nm)) offs;
     ni \<leftarrow> nip;
     Some (ret, nm\<lparr>nm_ni := ni\<rparr>)
   }"

section \<open>Attaching and freeing\<close>

text \<open>The MTD device of \<open>nm\<close>: its description and the callbacks attaching installs.\<close>

definition nm_dev :: "mtd_build \<Rightarrow> 'c nmbm_mtd \<Rightarrow> 'c nmbm_mtd mtd_dev" where
  "nm_dev parts nm = mtd_info.extend (nm_upper nm)
     (mtd_dev.fields (nmbm_mtd_erase parts) nmbm_mtd_read (Some nmbm_mtd_write)
        (Some nmbm_mtd_read_oob) (Some nmbm_mtd_write_oob) (Some nmbm_mtd_block_isbad)
        (Some nmbm_mtd_block_markbad))"

definition nm_lower_device :: "'c nand_mtd \<Rightarrow> u32 \<Rightarrow> u32 \<Rightarrow> u32 \<Rightarrow> 'c nm_arg nmbm_lower_device" where
  "nm_lower_device lower flags max_ratio max_reserved_blocks =
     \<lparr>nld_max_ratio = max_ratio, nld_max_reserved_blocks = max_reserved_blocks, nld_flags = flags,
      nld_size = mtd_size lower, nld_erasesize = mtd_erasesize lower,
      nld_writesize = mtd_writesize lower, nld_oobsize = mtd_oobsize lower,
      nld_oobavail = mtd_oobavail_bytes lower,
      nld_reset_chip = Some (nmbm_lower_reset_chip lower),
      nld_read_page = Some (nmbm_lower_read_page lower),
      nld_write_page = Some (nmbm_lower_write_page lower),
      nld_erase_block = Some (nmbm_lower_erase_block lower),
      nld_is_bad_block = Some (nmbm_lower_is_bad_block lower),
      nld_mark_bad_block = Some (nmbm_lower_mark_bad_block lower)\<rparr>"

text \<open>The description of the upper device, made of the lower one's and of the instance's size.\<close>

definition upper_info :: "'c nand_mtd \<Rightarrow> nat \<Rightarrow> string \<Rightarrow> 'd nmbm_instance \<Rightarrow> mtd_info" where
  "upper_info lower ptr name ni =
     \<lparr>mtd_ptr = ptr, mtd_name = name, mtd_type = MTD_DEV_TYPE_NMBM, mtd_flags = mtd_flags lower,
      mtd_size = ucast (ni_data_block_count ni) * ucast (nld_erasesize (ni_lower ni)),
      mtd_erasesize = mtd_erasesize lower, mtd_writesize = mtd_writesize lower,
      mtd_writebufsize = mtd_writesize lower, mtd_oobsize = mtd_oobsize lower,
      mtd_oobavail_bytes = mtd_oobavail_bytes lower,
      mtd_erasesize_shift = mtd_erasesize_shift lower, mtd_writesize_shift = mtd_writesize_shift lower,
      mtd_erasesize_mask = mtd_erasesize_mask lower, mtd_writesize_mask = mtd_writesize_mask lower,
      mtd_bitflip_threshold = mtd_bitflip_threshold lower, mtd_ecc_step_size = mtd_ecc_step_size lower,
      mtd_ecc_strength = mtd_ecc_strength lower\<rparr>"

text \<open>
  The module's state: the counter for the devices' names and the list of the devices.
  Attaching takes from \<open>calloc\<close> the addresses of the two objects it allocates (\<open>None\<close>: no
  memory), and \<open>blank\<close>, an instance in zeroed memory; \<open>chip\<close> is the state of the lower device.
\<close>

record 'c nmbm_devices =
  nmbm_id_cnt :: u32
  nmbm_devs :: "'c nmbm_mtd list"

definition nmbm_attach_mtd :: "nat option \<times> nat option \<Rightarrow> 'c nm_arg nmbm_instance
    \<Rightarrow> 'c nmbm_devices \<Rightarrow> 'c nand_mtd option \<Rightarrow> 'c \<Rightarrow> u32 \<Rightarrow> u32 \<Rightarrow> u32
    \<Rightarrow> (int \<times> nat option \<times> 'c nmbm_devices) option" where
  "nmbm_attach_mtd calloc blank g lowerp chip flags max_ratio max_reserved_blocks =
     (case lowerp of
        None \<Rightarrow> Some (- EINVAL, None, g)
      | Some lower \<Rightarrow>
          if mtd_type lower \<noteq> MTD_NANDFLASH \<or> mtd_flags lower \<noteq> MTD_CAP_NANDFLASH
          then Some (- ENOTSUPP, None, g)
          else case fst calloc of
            None \<Rightarrow> Some (- ENOMEM, None, g)
          | Some ptr \<Rightarrow> do {
              let nid = nmbm_id_cnt g;
              let g = g\<lparr>nmbm_id_cnt := nid + 1\<rparr>;
              let name = ''nmbm'' @ decimal (unat nid);
              let nld = nm_lower_device lower flags max_ratio max_reserved_blocks;
              case snd calloc of
                None \<Rightarrow> Some (- ENOMEM, None, g)
              | Some _ \<Rightarrow> do {
                  (ret, nip) \<leftarrow> nmbm_attach (Some nld) \<lparr>nd_chip = chip, nd_corrected = 0, nd_failed = 0\<rparr>
                    (Some blank);
                  ni \<leftarrow> nip;
                  if ret \<noteq> 0 then Some (ret, None, g)
                  else do {
                    let nm = \<lparr>nm_upper = upper_info lower ptr name ni, nm_name = name, nm_id = nid,
                      nm_lower = lower, nm_ni = ni,
                      nm_page_cache = replicate (unat (mtd_writesize lower) + unat (mtd_oobsize lower)) 0\<rparr>;
                    Some (0, Some ptr, g\<lparr>nmbm_devs := nmbm_devs g @ [nm]\<rparr>)
                  }
                }
            })"

text \<open>Freeing also returns the state the chip is left in.\<close>

definition nmbm_free_mtd :: "'c nmbm_devices \<Rightarrow> nat option
    \<Rightarrow> (int \<times> 'c option \<times> 'c nmbm_devices) option" where
  "nmbm_free_mtd g upper =
     (case upper of
        None \<Rightarrow> Some (- EINVAL, None, g)
      | Some ptr \<Rightarrow>
          (case List.extract (\<lambda>nm. mtd_ptr (nm_upper nm) = ptr) (nmbm_devs g) of
             None \<Rightarrow> Some (- ENODEV, None, g)
           | Some (before, pos, behind) \<Rightarrow> do {
               (_, nip) \<leftarrow> nmbm_detach (Some (nm_ni pos));
               ni \<leftarrow> nip;
               Some (0, Some (nd_chip (ni_arg ni)), g\<lparr>nmbm_devs := before @ behind\<rparr>)
             }))"

definition nmbm_mtd_get_upper_by_index :: "'c nmbm_devices \<Rightarrow> u32 \<Rightarrow> 'c nmbm_mtd option" where
  "nmbm_mtd_get_upper_by_index g index = find (\<lambda>nm. nm_id nm = index) (nmbm_devs g)"

definition nmbm_mtd_get_upper :: "'c nmbm_devices \<Rightarrow> nat \<Rightarrow> 'c nmbm_mtd option" where
  "nmbm_mtd_get_upper g lower = find (\<lambda>nm. mtd_ptr (nm_lower nm) = lower) (nmbm_devs g)"

section \<open>Transfers with spare bytes\<close>

text \<open>
  The invariant of an NMBM device: an attached instance, a page cache of one raw page, the
  mask of the page size, no more spare bytes for the user than there are, and the same spare
  bytes in the description of the upper device.
\<close>

definition nm_ok :: "'c nmbm_mtd \<Rightarrow> bool" where
  "nm_ok nm \<longleftrightarrow> attached (nm_ni nm) \<and> 0 < mtd_writesize (nm_lower nm) \<and>
     mtd_writesize_mask (nm_lower nm) = mtd_writesize (nm_lower nm) - 1 \<and>
     mtd_oobavail_bytes (nm_lower nm) \<le> mtd_oobsize (nm_lower nm) \<and>
     mtd_oobavail_bytes (nm_upper nm) = mtd_oobavail_bytes (nm_lower nm) \<and>
     mtd_oobsize (nm_upper nm) = mtd_oobsize (nm_lower nm) \<and>
     length (nm_page_cache nm) = unat (mtd_writesize (nm_lower nm)) + unat (mtd_oobsize (nm_lower nm))"

definition nm_serves :: "'c nmbm_mtd \<Rightarrow> 'c nmbm_mtd \<Rightarrow> bool" where
  "nm_serves nm nm' \<longleftrightarrow> nm_ok nm' \<and> serves (nm_ni nm) (nm_ni nm') \<and>
     nm_lower nm' = nm_lower nm \<and> nm_upper nm' = nm_upper nm"

lemma nm_serves_refl: "nm_ok nm \<Longrightarrow> nm_serves nm nm"
  by (simp add: nm_serves_def nm_ok_def serves_refl)

lemma nm_serves_trans: "nm_serves a b \<Longrightarrow> nm_serves b c \<Longrightarrow> nm_serves a c"
  by (auto simp: nm_serves_def intro: serves_trans)

lemma read_single_page_wp:
  assumes "attached ni"
    and "\<And>ret data' oob' ni'. map_option length data' = map_option length data \<Longrightarrow>
      map_option length oob' = map_option length oob \<Longrightarrow> serves ni ni' \<Longrightarrow> Q (ret, (data', oob'), Some ni')"
  shows "returns (nmbm_read_single_page (Some ni) addr data oob mode) Q"
proof (cases "ni_protected ni \<noteq> 0 \<or> addr \<ge> ba2addr ni (ni_data_block_count ni)")
  case True
  with assms show ?thesis by (auto simp: nmbm_read_single_page_def ret_simps serves_refl)
next
  case False
  with attached_addr(2) [OF assms(1), of addr] assms show ?thesis
    by (auto simp: nmbm_read_single_page_def ret_simps intro!: read_logic_page_wp)
qed

lemma write_single_page_wp:
  assumes "attached ni" and "\<And>ret ni'. serves ni ni' \<Longrightarrow> Q (ret, Some ni')"
  shows "returns (nmbm_write_single_page (Some ni) addr data oob mode) Q"
proof (cases "ni_protected ni \<noteq> 0 \<or> addr \<ge> ba2addr ni (ni_data_block_count ni)")
  case True
  with assms show ?thesis by (auto simp: nmbm_write_single_page_def ret_simps serves_refl)
next
  case False
  with attached_addr(2) [OF assms(1), of addr] assms show ?thesis
    by (auto simp: nmbm_write_single_page_def ret_simps intro!: write_logic_page_wp)
qed

lemma chunk_len_bounds:
  assumes "col < width" and "len \<noteq> 0"
  shows "chunk_len width col len \<noteq> 0" "chunk_len width col len \<le> len"
    "unat col + unat (chunk_len width col len) \<le> unat width"
    "unat (len - chunk_len width col len) < unat len"
proof -
  let ?c = "chunk_len width col len"
  have sub: "unat (width - col) = unat width - unat col" "unat col < unat width" "0 < unat len"
    using assms unat_sub [of col width] by (auto simp: word_less_nat_alt word_le_nat_alt unat_gt_0)
  then show c: "?c \<le> len" "unat col + unat ?c \<le> unat width"
    by (auto simp: chunk_len_def word_less_nat_alt word_le_nat_alt)
  have pos: "0 < unat ?c" using sub by (auto simp: chunk_len_def)
  then show "?c \<noteq> 0" by auto
  show "unat (len - ?c) < unat len" using pos sub c(1) by (simp add: unat_sub)
qed

text \<open>The buffers of a request have room for what it asks.\<close>

definition ops_ok :: "mtd_oob_ops \<Rightarrow> bool" where
  "ops_ok ops \<longleftrightarrow>
     (case oo_datbuf ops of None \<Rightarrow> oo_len ops = 0 | Some b \<Rightarrow> unat (oo_len ops) \<le> length b) \<and>
     (case oo_oobbuf ops of None \<Rightarrow> oo_ooblen ops = 0 | Some b \<Rightarrow> unat (oo_ooblen ops) \<le> length b)"

text \<open>The request after \<open>len\<close> data and \<open>ooblen\<close> spare bytes are left to move.\<close>

definition moved :: "mtd_oob_ops \<Rightarrow> u32 \<Rightarrow> u32 \<Rightarrow> mtd_oob_ops \<Rightarrow> bool" where
  "moved ops0 len ooblen ops \<longleftrightarrow> len \<le> oo_len ops0 \<and> ooblen \<le> oo_ooblen ops0 \<and>
     oo_retlen ops = oo_len ops0 - len \<and> oo_oobretlen ops = oo_ooblen ops0 - ooblen \<and>
     map_option length (oo_datbuf ops) = map_option length (oo_datbuf ops0) \<and>
     map_option length (oo_oobbuf ops) = map_option length (oo_oobbuf ops0)"

lemma nm_cache_wp:
  assumes "nm_ok nm" and "\<And>d b. length d = unat (mtd_writesize (nm_lower nm)) \<Longrightarrow>
      length b = unat (mtd_oobsize (nm_lower nm)) \<Longrightarrow>
      Q (if dat then Some d else None, if oob then Some b else None)"
  shows "returns (nm_cache nm dat oob) Q"
  using assms by (auto simp: nm_cache_def ret_simps Let_def nm_ok_def)

lemma nm_cache_store_wp:
  assumes "nm_ok nm" and "case d of None \<Rightarrow> True | Some bs \<Rightarrow> length bs = unat (mtd_writesize (nm_lower nm))"
    and "case b of None \<Rightarrow> True | Some bs \<Rightarrow> length bs = unat (mtd_oobsize (nm_lower nm))"
    and "\<And>c. length c = length (nm_page_cache nm) \<Longrightarrow> Q (nm\<lparr>nm_page_cache := c\<rparr>)"
  shows "returns (nm_cache_store nm d b) Q"
  using assms assms(4) [of "nm_page_cache nm"]
  by (auto simp: nm_cache_store_def ret_simps nm_ok_def split: option.splits)


lemma nm_read_page_wp:
  assumes "nm_ok nm" and "\<And>ret nm'. nm_serves nm nm' \<Longrightarrow> Q (ret, nm')"
  shows "returns (nm_read_page nm dat oob addr mode) Q"
proof -
  have att: "attached (nm_ni nm)" using assms(1) by (simp add: nm_ok_def)
  have keep: "nm_serves nm (nm\<lparr>nm_ni := ni, nm_page_cache := c\<rparr>)"
    if "serves (nm_ni nm) ni" "length c = length (nm_page_cache nm)" for ni c
    using that assms(1) by (auto simp: nm_serves_def nm_ok_def serves_def)
  have ok: "nm_ok (nm\<lparr>nm_ni := ni\<rparr>)" if "serves (nm_ni nm) ni" for ni
    using that assms(1) by (auto simp: nm_ok_def serves_def)
  show ?thesis
    unfolding nm_read_page_def
    by (auto simp: ret_simps intro!: nm_cache_wp [OF assms(1)] read_single_page_wp [OF att]
        nm_cache_store_wp keep ok assms(2) split: option.splits if_splits)
qed

lemma nm_write_page_wp:
  assumes "nm_ok nm" and "\<And>ret nm'. nm_serves nm nm' \<Longrightarrow> Q (ret, nm')"
  shows "returns (nm_write_page nm dat oob addr mode) Q"
proof -
  have att: "attached (nm_ni nm)" using assms(1) by (simp add: nm_ok_def)
  have keep: "nm_serves nm (nm\<lparr>nm_ni := ni\<rparr>)" if "serves (nm_ni nm) ni" for ni
    using that assms(1) by (auto simp: nm_serves_def nm_ok_def serves_def)
  show ?thesis
    unfolding nm_write_page_def
    by (auto simp: ret_simps intro!: nm_cache_wp [OF assms(1)] write_single_page_wp [OF att] keep assms(2))
qed

lemma nm_serves_cache:
  "nm_serves nm0 nm \<Longrightarrow> length c = length (nm_page_cache nm) \<Longrightarrow> nm_serves nm0 (nm\<lparr>nm_page_cache := c\<rparr>)"
  by (auto simp: nm_serves_def nm_ok_def)

lemma nm_servesD: "nm_serves nm0 nm \<Longrightarrow> nm_ok nm" "nm_serves nm0 nm \<Longrightarrow> nm_lower nm = nm_lower nm0"
  by (simp_all add: nm_serves_def)

lemma move_out_wp:
  assumes "cacheoff + unat col + unat chklen \<le> length cache" and "buf = Some dst"
    and "unat retlen + unat chklen \<le> length dst"
    and "\<And>dst'. length dst' = length dst \<Longrightarrow> Q dst'"
  shows "returns (move_out cache cacheoff col chklen buf retlen) Q"
  using assms by (auto simp: move_out_def ret_simps)

lemma move_in_wp:
  assumes "cacheoff + unat room \<le> length cache" and "buf = Some src"
    and "unat retlen + unat chklen \<le> length src" and "unat col + unat chklen \<le> unat room"
    and "\<And>c. length c = length cache \<Longrightarrow> Q c"
  shows "returns (move_in cache cacheoff room col chklen buf retlen) Q"
proof -
  have "unat (room - col) = unat room - unat col" using assms(4) by (simp add: unat_sub word_le_nat_alt)
  then have "unat (room - col - chklen) = unat room - unat col - unat chklen"
    using assms(4) unat_sub [of chklen "room - col"] by (simp add: word_le_nat_alt)
  with assms show ?thesis by (auto simp: move_in_def ret_simps)
qed

lemma moved_data:
  assumes "moved ops0 len ooblen ops" and "chk \<le> len"
  shows "moved ops0 (len - chk) ooblen (ops\<lparr>oo_retlen := oo_retlen ops + chk\<rparr>)"
    "length dst = length (the (oo_datbuf ops)) \<Longrightarrow> oo_datbuf ops \<noteq> None \<Longrightarrow>
      moved ops0 (len - chk) ooblen (ops\<lparr>oo_datbuf := Some dst, oo_retlen := oo_retlen ops + chk\<rparr>)"
  using assms word_sub_le [of chk len] by (auto simp: moved_def)

lemma moved_oob:
  assumes "moved ops0 len ooblen ops" and "chk \<le> ooblen"
  shows "moved ops0 len (ooblen - chk) (ops\<lparr>oo_oobretlen := oo_oobretlen ops + chk\<rparr>)"
    "length dst = length (the (oo_oobbuf ops)) \<Longrightarrow> oo_oobbuf ops \<noteq> None \<Longrightarrow>
      moved ops0 len (ooblen - chk) (ops\<lparr>oo_oobbuf := Some dst, oo_oobretlen := oo_oobretlen ops + chk\<rparr>)"
  using assms word_sub_le [of chk ooblen] by (auto simp: moved_def)

text \<open>What is left to move fits behind what was moved.\<close>

lemma moved_room:
  assumes "ops_ok ops0" and "moved ops0 len ooblen ops"
  shows "len \<noteq> 0 \<Longrightarrow> chk \<le> len \<Longrightarrow>
      \<exists>b. oo_datbuf ops = Some b \<and> unat (oo_retlen ops) + unat chk \<le> length b"
    "ooblen \<noteq> 0 \<Longrightarrow> chk \<le> ooblen \<Longrightarrow>
      \<exists>b. oo_oobbuf ops = Some b \<and> unat (oo_oobretlen ops) + unat chk \<le> length b"
  using assms
  by (auto simp: moved_def ops_ok_def unat_sub word_le_nat_alt unat_eq_zero split: option.splits)

text \<open>The two positions stay inside a page.\<close>

definition inside :: "u32 \<Rightarrow> u32 \<Rightarrow> u32 \<Rightarrow> bool" where
  "inside width col len \<longleftrightarrow> (len \<noteq> 0 \<longrightarrow> col < width)"

lemma nm_cache_shape:
  assumes "nm_ok nm"
  shows "cl \<le> mtd_oobsize (nm_lower nm) \<Longrightarrow> unat col + unat chk \<le> unat cl \<Longrightarrow>
      unat (mtd_writesize (nm_lower nm)) + unat col + unat chk \<le> length (nm_page_cache nm)"
    "unat col + unat chk \<le> unat (mtd_writesize (nm_lower nm)) \<Longrightarrow>
      0 + unat col + unat chk \<le> length (nm_page_cache nm)"
  using assms by (auto simp: nm_ok_def word_le_nat_alt)


text \<open>A step of either kind: what is left gets less, and the positions stay inside a page.\<close>

lemma data_out_wp:
  assumes "nm_ok nm" "ops_ok ops0" "moved ops0 len ooblen ops" "inside (mtd_writesize (nm_lower nm)) col len"
    and "\<And>len' col' ops'. moved ops0 len' ooblen ops' \<Longrightarrow> inside (mtd_writesize (nm_lower nm)) col' len' \<Longrightarrow>
      unat len' \<le> unat len \<Longrightarrow> (len \<noteq> 0 \<Longrightarrow> unat len' < unat len) \<Longrightarrow> Q (len', col', ops')"
  shows "returns (data_out nm len col ops) Q"
proof (cases "len = 0")
  case True
  with assms show ?thesis by (simp add: data_out_def)
next
  case False
  let ?c = "chunk_len (mtd_writesize (nm_lower nm)) col len"
  have "col < mtd_writesize (nm_lower nm)" using assms(4) False by (simp add: inside_def)
  note c = chunk_len_bounds [OF this False]
  obtain b where b: "oo_datbuf ops = Some b" "unat (oo_retlen ops) + unat ?c \<le> length b"
    using moved_room(1) [OF assms(2,3) False c(2)] by blast
  show ?thesis
    using False b c nm_cache_shape(2) [OF assms(1) c(3)] assms(1) moved_data(2) [OF assms(3) c(2)]
    by (auto simp: data_out_def ret_simps Let_def inside_def nm_ok_def intro!: move_out_wp assms(5))
qed

lemma oob_out_wp:
  assumes "nm_ok nm" "ops_ok ops0" "moved ops0 len ooblen ops" "inside maxooblen ooboffs ooblen"
    and "maxooblen \<le> mtd_oobsize (nm_lower nm)"
    and "\<And>ooblen' ooboffs' ops'. moved ops0 len ooblen' ops' \<Longrightarrow> inside maxooblen ooboffs' ooblen' \<Longrightarrow>
      unat ooblen' \<le> unat ooblen \<Longrightarrow> (ooblen \<noteq> 0 \<Longrightarrow> unat ooblen' < unat ooblen) \<Longrightarrow> Q (ooblen', ooboffs', ops')"
  shows "returns (oob_out nm maxooblen ooblen ooboffs ops) Q"
proof (cases "ooblen = 0")
  case True
  with assms show ?thesis by (simp add: oob_out_def)
next
  case False
  let ?c = "chunk_len maxooblen ooboffs ooblen"
  have lt: "ooboffs < maxooblen" using assms(4) False by (simp add: inside_def)
  note c = chunk_len_bounds [OF this False]
  obtain b where b: "oo_oobbuf ops = Some b" "unat (oo_oobretlen ops) + unat ?c \<le> length b"
    using moved_room(2) [OF assms(2,3) False c(2)] by blast
  have "0 < maxooblen" using lt by (simp add: word_less_nat_alt)
  then show ?thesis
    using False b c nm_cache_shape(1) [OF assms(1,5) c(3)] moved_oob(2) [OF assms(3) c(2)]
    by (auto simp: oob_out_def ret_simps Let_def inside_def intro!: move_out_wp assms(6))
qed

lemma data_in_wp:
  assumes "nm_ok nm" "ops_ok ops0" "moved ops0 len ooblen ops" "inside (mtd_writesize (nm_lower nm)) col len"
    and "\<And>c len' col' ops'. length c = length (nm_page_cache nm) \<Longrightarrow>
      moved ops0 len' ooblen ops' \<Longrightarrow> inside (mtd_writesize (nm_lower nm)) col' len' \<Longrightarrow>
      unat len' \<le> unat len \<Longrightarrow> (len \<noteq> 0 \<Longrightarrow> unat len' < unat len) \<Longrightarrow>
      Q (nm\<lparr>nm_page_cache := c\<rparr>, len', col', ops')"
  shows "returns (data_in nm len col ops) Q"
proof (cases "len = 0")
  case True
  with assms(3,4) assms(5) [of "nm_page_cache nm"] show ?thesis by (simp add: data_in_def)
next
  case False
  let ?c = "chunk_len (mtd_writesize (nm_lower nm)) col len"
  have "col < mtd_writesize (nm_lower nm)" using assms(4) False by (simp add: inside_def)
  note c = chunk_len_bounds [OF this False]
  obtain b where b: "oo_datbuf ops = Some b" "unat (oo_retlen ops) + unat ?c \<le> length b"
    using moved_room(1) [OF assms(2,3) False c(2)] by blast
  show ?thesis
    using False b c assms(1) moved_data(1) [OF assms(3) c(2)]
    by (auto simp: data_in_def ret_simps Let_def inside_def nm_ok_def intro!: move_in_wp assms(5))
qed

lemma oob_in_wp:
  assumes "nm_ok nm" "ops_ok ops0" "moved ops0 len ooblen ops" "inside maxooblen ooboffs ooblen"
    and "maxooblen \<le> mtd_oobsize (nm_lower nm)"
    and "\<And>c ooblen' ooboffs' ops'. length c = length (nm_page_cache nm) \<Longrightarrow>
      moved ops0 len ooblen' ops' \<Longrightarrow> inside maxooblen ooboffs' ooblen' \<Longrightarrow>
      unat ooblen' \<le> unat ooblen \<Longrightarrow> (ooblen \<noteq> 0 \<Longrightarrow> unat ooblen' < unat ooblen) \<Longrightarrow>
      Q (nm\<lparr>nm_page_cache := c\<rparr>, ooblen', ooboffs', ops')"
  shows "returns (oob_in nm maxooblen ooblen ooboffs ops) Q"
proof (cases "ooblen = 0")
  case True
  with assms(3,4) assms(6) [of "nm_page_cache nm"] show ?thesis by (simp add: oob_in_def)
next
  case False
  let ?c = "chunk_len maxooblen ooboffs ooblen"
  have lt: "ooboffs < maxooblen" using assms(4) False by (simp add: inside_def)
  note c = chunk_len_bounds [OF this False]
  obtain b where b: "oo_oobbuf ops = Some b" "unat (oo_oobretlen ops) + unat ?c \<le> length b"
    using moved_room(2) [OF assms(2,3) False c(2)] by blast
  have "0 < maxooblen" "unat ooboffs + unat ?c \<le> unat (mtd_oobsize (nm_lower nm))"
    using lt c(3) assms(5) by (auto simp: word_less_nat_alt word_le_nat_alt)
  then show ?thesis
    using False b c assms(1) moved_oob(1) [OF assms(3) c(2)]
    by (auto simp: oob_in_def ret_simps Let_def inside_def nm_ok_def intro!: move_in_wp assms(6))
qed


lemma read_data_loop:
  assumes "nm_ok nm0" and "ops_ok ops0" and "maxooblen \<le> mtd_oobsize (nm_lower nm0)"
    and "inside (mtd_writesize (nm_lower nm0)) col0 (oo_len ops0)"
    and "inside maxooblen ooboffs0 (oo_ooblen ops0)"
  shows "returns (loop (read_data_loop_body dat oob maxooblen mode)
      (nm0, addr0, oo_len ops0, oo_ooblen ops0, col0, ooboffs0, ops0\<lparr>oo_oobretlen := 0, oo_retlen := 0\<rparr>))
    (\<lambda>(ret, ops, nm). nm_serves nm0 nm \<and>
       (\<exists>len ooblen. moved ops0 len ooblen ops \<and> (ret = 0 \<and> len = 0 \<and> ooblen = 0 \<or> ret \<in> {- EBADMSG, - EIO})))"
proof (rule loop_rule [where m = "\<lambda>(_, _, len, ooblen, _). unat len + unat ooblen" and
      I = "\<lambda>(nm, _, len, ooblen, col, ooboffs, ops). nm_serves nm0 nm \<and> moved ops0 len ooblen ops \<and>
        inside (mtd_writesize (nm_lower nm0)) col len \<and> inside maxooblen ooboffs ooblen"], goal_cases)
  case 1
  show ?case using assms by (simp add: nm_serves_refl moved_def)
next
  case (2 s)
  obtain nm addr len ooblen col ooboffs ops where s: "s = (nm, addr, len, ooblen, col, ooboffs, ops)"
    by (cases s)
  have srv: "nm_serves nm0 nm" and mv: "moved ops0 len ooblen ops"
    and ins: "inside (mtd_writesize (nm_lower nm0)) col len" "inside maxooblen ooboffs ooblen"
    using 2 by (simp_all add: s)
  have ok: "nm_ok nm" and low: "nm_lower nm = nm_lower nm0" using srv by (simp_all add: nm_serves_def)
  have att: "attached (nm_ni nm)" using ok by (simp add: nm_ok_def)
  show ?case
  proof (cases "len = 0 \<and> ooblen = 0")
    case True
    with 2 show ?thesis by (auto simp: s read_data_loop_body_def)
  next
    case False
    have step: "returns (read_data_loop_body dat oob maxooblen mode (nm, addr, len, ooblen, col, ooboffs, ops)) Q"
      if leave: "\<And>ret nm'. nm_serves nm0 nm' \<Longrightarrow> ret \<in> {- EBADMSG, - EIO} \<Longrightarrow> Q (Inl (ret, ops, nm'))"
        and cont: "\<And>nm' addr' len' ooblen' col' ooboffs' ops'. nm_serves nm0 nm' \<Longrightarrow>
          moved ops0 len' ooblen' ops' \<Longrightarrow> inside (mtd_writesize (nm_lower nm0)) col' len' \<Longrightarrow>
          inside maxooblen ooboffs' ooblen' \<Longrightarrow> unat len' + unat ooblen' < unat len + unat ooblen \<Longrightarrow>
          Q (Inr (nm', addr', len', ooblen', col', ooboffs', ops'))" for Q
    proof -
      have less: "unat l + unat b < unat len + unat ooblen"
        if "unat l \<le> unat len" "len \<noteq> 0 \<Longrightarrow> unat l < unat len" "unat b \<le> unat ooblen"
          "ooblen \<noteq> 0 \<Longrightarrow> unat b < unat ooblen" for l b :: u32
        using that False by (cases "len = 0") auto
      have page: "returns (if ret \<noteq> 0 then Some (Inl (if ret > 0 then - EBADMSG else - EIO, ops, nm'))
          else do {
            (len, col, ops) \<leftarrow> data_out nm' len col ops;
            (ooblen, ooboffs, ops) \<leftarrow> oob_out nm' maxooblen ooblen ooboffs ops;
            Some (Inr (nm', addr + ucast (mtd_writesize (nm_lower nm')), len, ooblen, col, ooboffs, ops))
          }) Q" if nm': "nm_serves nm0 nm'" for ret nm'
        using nm_servesD [OF nm'] ins assms(2,3) mv False
        by (auto simp: ret_simps intro!: leave [OF nm'] data_out_wp [where nm = nm'] oob_out_wp [where nm = nm']
            cont [OF nm'] less)
      show ?thesis
        unfolding read_data_loop_body_def prod.case
        by (subst if_P, use False in blast, unfold returns_bind, rule nm_read_page_wp [OF ok],
            unfold prod.case, rule page, rule nm_serves_trans [OF srv])
    qed
    show ?thesis unfolding s using mv by (intro step) auto
  qed
qed

lemma write_data_loop:
  assumes "nm_ok nm0" and "ops_ok ops0" and "maxooblen \<le> mtd_oobsize (nm_lower nm0)"
    and "inside (mtd_writesize (nm_lower nm0)) col0 (oo_len ops0)"
    and "inside maxooblen ooboffs0 (oo_ooblen ops0)"
  shows "returns (loop (write_data_loop_body dat oob maxooblen mode)
      (nm0, addr0, oo_len ops0, oo_ooblen ops0, col0, ooboffs0, ops0\<lparr>oo_oobretlen := 0, oo_retlen := 0\<rparr>))
    (\<lambda>(ret, ops, nm). nm_serves nm0 nm \<and>
       (\<exists>len ooblen. moved ops0 len ooblen ops \<and> (ret = 0 \<longrightarrow> len = 0 \<and> ooblen = 0)))"
proof (rule loop_rule [where m = "\<lambda>(_, _, len, ooblen, _). unat len + unat ooblen" and
      I = "\<lambda>(nm, _, len, ooblen, col, ooboffs, ops). nm_serves nm0 nm \<and> moved ops0 len ooblen ops \<and>
        inside (mtd_writesize (nm_lower nm0)) col len \<and> inside maxooblen ooboffs ooblen"], goal_cases)
  case 1
  show ?case using assms by (simp add: nm_serves_refl moved_def)
next
  case (2 s)
  obtain nm addr len ooblen col ooboffs ops where s: "s = (nm, addr, len, ooblen, col, ooboffs, ops)"
    by (cases s)
  have srv: "nm_serves nm0 nm" and mv: "moved ops0 len ooblen ops"
    and ins: "inside (mtd_writesize (nm_lower nm0)) col len" "inside maxooblen ooboffs ooblen"
    using 2 by (simp_all add: s)
  show ?case
  proof (cases "len = 0 \<and> ooblen = 0")
    case True
    with 2 show ?thesis by (auto simp: s write_data_loop_body_def)
  next
    case False
    have less: "unat l + unat b < unat len + unat ooblen"
      if "unat l \<le> unat len" "len \<noteq> 0 \<Longrightarrow> unat l < unat len" "unat b \<le> unat ooblen"
        "ooblen \<noteq> 0 \<Longrightarrow> unat b < unat ooblen" for l b :: u32
      using that False by (cases "len = 0") auto
    have cache: "nm_serves nm0 (nm\<lparr>nm_page_cache := c\<rparr>)" "nm_ok (nm\<lparr>nm_page_cache := c\<rparr>)"
      if "length c = length (nm_page_cache nm)" for c
      using nm_serves_cache [OF srv that] nm_servesD(1) by blast+
    have via: "nm_serves nm0 nm'"
      if "nm_serves (nm\<lparr>nm_page_cache := c\<rparr>) nm'" "length c = length (nm_page_cache nm)" for c nm'
      using nm_serves_trans [OF cache(1) [OF that(2)] that(1)] .
    show ?thesis
      using False ins assms(2,3) mv nm_servesD [OF srv] cache
      unfolding s write_data_loop_body_def
      by (auto simp: ret_simps less intro!: data_in_wp [where nm = nm] oob_in_wp nm_write_page_wp
          intro: via)
  qed
qed

lemma nm_col:
  assumes "nm_ok nm"
  shows "inside (mtd_writesize (nm_lower nm))
    (ucast (addr AND ucast (mtd_writesize_mask (nm_lower nm)) :: u64)) len"
proof -
  let ?w = "mtd_writesize (nm_lower nm)"
  have w: "0 < ?w" "mtd_writesize_mask (nm_lower nm) = ?w - 1" using assms by (auto simp: nm_ok_def)
  have "addr AND ucast (?w - 1) \<le> (ucast (?w - 1) :: u64)" by (rule word_and_le1)
  then have "unat (addr AND ucast (?w - 1)) \<le> unat (?w - 1)" by (simp add: word_le_nat_alt)
  moreover have "unat (?w - 1) < unat ?w" using unat_pred_less [OF w(1)] .
  moreover have "unat ?w < 2 ^ 32" by (rule unat_u32_less)
  ultimately have "unat (ucast (addr AND ucast (?w - 1)) :: u32) < unat ?w"
    by (simp add: unat_ucast_u32)
  then show ?thesis by (simp add: inside_def w(2) word_less_nat_alt)
qed

lemma nm_maxooblen: "nm_ok nm \<Longrightarrow> mtd_oobavail (nm_lower nm) ops \<le> mtd_oobsize (nm_lower nm)"
  by (simp add: mtd_oobavail_def nm_ok_def)

lemma nm_oobavail: "nm_ok nm \<Longrightarrow> mtd_oobavail (nm_upper nm) ops = mtd_oobavail (nm_lower nm) ops"
  by (simp add: mtd_oobavail_def nm_ok_def)

lemma read_data_returns:
  assumes "nm_ok nm" and "ops_ok ops" and "oo_ooboffs ops < mtd_oobavail (nm_lower nm) ops"
  shows "returns (nmbm_mtd_read_data nm addr ops mode) (\<lambda>(ret, ops', nm'). nm_serves nm nm' \<and>
    (\<exists>len ooblen. moved ops len ooblen ops' \<and> (ret = 0 \<and> len = 0 \<and> ooblen = 0 \<or> ret \<in> {- EBADMSG, - EIO})))"
  unfolding nmbm_mtd_read_data_def Let_def
  using read_data_loop [OF assms(1,2) nm_maxooblen [OF assms(1), of ops] nm_col [OF assms(1)]] assms(3)
  by (simp add: inside_def)

lemma write_data_returns:
  assumes "nm_ok nm" and "ops_ok ops" and "oo_ooboffs ops < mtd_oobavail (nm_lower nm) ops"
  shows "returns (nmbm_mtd_write_data nm addr ops mode) (\<lambda>(ret, ops', nm'). nm_serves nm nm' \<and>
    (\<exists>len ooblen. moved ops len ooblen ops' \<and> (ret = 0 \<longrightarrow> len = 0 \<and> ooblen = 0)))"
  unfolding nmbm_mtd_write_data_def Let_def
  using write_data_loop [OF assms(1,2) nm_maxooblen [OF assms(1), of ops] nm_col [OF assms(1)]] assms(3)
  by (simp add: inside_def)

lemma nm_serves_ni: "nm_ok nm \<Longrightarrow> serves (nm_ni nm) ni \<Longrightarrow> nm_serves nm (nm\<lparr>nm_ni := ni\<rparr>)"
  by (auto simp: nm_serves_def nm_ok_def serves_def)

text \<open>The outcome of a transfer: the buffers keep their lengths, and success means completeness.\<close>

definition oob_done :: "mtd_oob_ops \<Rightarrow> int \<Rightarrow> mtd_oob_ops \<Rightarrow> bool" where
  "oob_done ops ret ops' \<longleftrightarrow>
     map_option length (oo_datbuf ops') = map_option length (oo_datbuf ops) \<and>
     map_option length (oo_oobbuf ops') = map_option length (oo_oobbuf ops) \<and>
     (ret = 0 \<longrightarrow> (oo_len ops \<noteq> 0 \<longrightarrow> oo_retlen ops' = oo_len ops) \<and>
        (oo_ooblen ops \<noteq> 0 \<longrightarrow> oo_oobretlen ops' = oo_ooblen ops))"

lemma oob_done_same: "oo_len ops = 0 \<and> oo_ooblen ops = 0 \<or> ret \<noteq> 0 \<Longrightarrow> oob_done ops ret ops"
  by (auto simp: oob_done_def)

lemma oob_done_moved:
  "moved ops len ooblen ops' \<Longrightarrow> ret = 0 \<longrightarrow> len = 0 \<and> ooblen = 0 \<Longrightarrow> oob_done ops ret ops'"
  by (cases "ret = 0") (simp_all add: oob_done_def moved_def)

lemma read_oob_returns:
  assumes "nm_ok nm" and "ops_ok ops"
  shows "returns (nmbm_mtd_read_oob nm from ops) (\<lambda>(ret, ops', nm'). nm_serves nm nm' \<and>
    oob_done ops ret ops' \<and> ret \<in> {0, - EINVAL, - ENOTSUPP, - EBADMSG, - EIO})"
proof -
  have att: "attached (nm_ni nm)" using assms(1) by (simp add: nm_ok_def)
  have data: "returns (nmbm_read_range (Some (nm_ni nm)) from (oo_len ops) buf mode) (\<lambda>(ret, buf', retlen, nip).
      \<exists>ni. nip = Some ni \<and> nm_serves nm (nm\<lparr>nm_ni := ni\<rparr>) \<and> length buf' = length buf \<and>
        completes (oo_len ops) ret retlen)"
    if "oo_datbuf ops = Some buf" for buf mode
  proof -
    have "unat (oo_len ops) \<le> length buf" using assms(2) that by (simp add: ops_ok_def)
    from read_range_returns [OF att this, of "from" mode] show ?thesis
      by (rule returns_mono) (auto intro: nm_serves_ni [OF assms(1)] transferred_completes)
  qed
  have none: "oo_datbuf ops = None \<Longrightarrow> oo_len ops = 0" "oo_oobbuf ops = None \<Longrightarrow> oo_ooblen ops = 0"
    using assms(2) by (auto simp: ops_ok_def)
  show ?thesis
    using nm_serves_refl [OF assms(1)] none
    by (auto simp: nmbm_mtd_read_oob_def nm_oobavail [OF assms(1)] ret_simps Let_def not_le split: option.splits
        intro!: oob_done_same returns_mono [OF read_data_returns [OF assms]]
          returns_mono [OF data] intro: oob_done_moved)
      (auto simp: oob_done_def completes_def)
qed

lemma write_oob_returns:
  assumes "nm_ok nm" and "ops_ok ops"
  shows "returns (nmbm_mtd_write_oob nm to ops) (\<lambda>(ret, ops', nm'). nm_serves nm nm' \<and> oob_done ops ret ops')"
proof -
  have att: "attached (nm_ni nm)" using assms(1) by (simp add: nm_ok_def)
  have data: "returns (nmbm_write_range (Some (nm_ni nm)) to (oo_len ops) buf mode) (\<lambda>(ret, retlen, nip).
      \<exists>ni. nip = Some ni \<and> nm_serves nm (nm\<lparr>nm_ni := ni\<rparr>) \<and> completes (oo_len ops) ret retlen)"
    if "oo_datbuf ops = Some buf" for buf mode
  proof -
    have "unat (oo_len ops) \<le> length buf" using assms(2) that by (simp add: ops_ok_def)
    from write_range_returns [OF att this, of to mode] show ?thesis
      by (rule returns_mono) (auto intro: nm_serves_ni [OF assms(1)] transferred_completes)
  qed
  have none: "oo_datbuf ops = None \<Longrightarrow> oo_len ops = 0" "oo_oobbuf ops = None \<Longrightarrow> oo_ooblen ops = 0"
    using assms(2) by (auto simp: ops_ok_def)
  show ?thesis
    using nm_serves_refl [OF assms(1)] none
    by (auto simp: nmbm_mtd_write_oob_def nm_oobavail [OF assms(1)] ret_simps Let_def not_le split: option.splits
        intro!: oob_done_same returns_mono [OF write_data_returns [OF assms]]
          returns_mono [OF data] intro: oob_done_moved)
      (auto simp: oob_done_def completes_def)
qed

text \<open>
  A device on the reference chip: the small instance of before, whose lower device is now
  a raw NAND chip seen through the MTD core. The chip answers every request with its
  pages' bytes and \<open>flips\<close>, the code its reads return.
\<close>

definition chip_read_oob :: "int \<Rightarrow> nand \<Rightarrow> u64 \<Rightarrow> mtd_oob_ops \<Rightarrow> int \<times> mtd_oob_ops \<times> nand" where
  "chip_read_oob flips c from ops =
     (let (ret, d, b, c) = sim_read_page c from (oo_datbuf ops) (oo_oobbuf ops) NMBM_MODE_PLACE_OOB
      in (if ret = 0 then flips else ret, ops\<lparr>oo_datbuf := d, oo_oobbuf := b\<rparr>, c))"

definition chip_write_oob :: "nand \<Rightarrow> u64 \<Rightarrow> mtd_oob_ops \<Rightarrow> int \<times> nand" where
  "chip_write_oob c to ops = sim_write_page c to (oo_datbuf ops) (oo_oobbuf ops) NMBM_MODE_PLACE_OOB"

definition sample_nand_mtd :: "int \<Rightarrow> nand nand_mtd" where
  "sample_nand_mtd flips = \<lparr>mtd_ptr = 1, mtd_name = ''nand0'', mtd_type = MTD_NANDFLASH,
     mtd_flags = MTD_CAP_NANDFLASH, mtd_size = 4096, mtd_erasesize = 128, mtd_writesize = 64,
     mtd_writebufsize = 64, mtd_oobsize = 4, mtd_oobavail_bytes = 2, mtd_erasesize_shift = 7,
     mtd_writesize_shift = 6, mtd_erasesize_mask = 127, mtd_writesize_mask = 63,
     mtd_bitflip_threshold = 3, mtd_ecc_step_size = 64, mtd_ecc_strength = 4,
     nand_page_shift = 6, nand_reset = (\<lambda>c. (0, c)), nand__read_oob = Some (chip_read_oob flips),
     nand__write_oob = Some chip_write_oob,
     nand__erase = (\<lambda>c ei. sim_erase_block 128 64 4 c (ei_addr ei)),
     nand__block_isbad = None, nand__block_markbad = None, nand_ecc_stats = (\<lambda>c. (0, 0))\<rparr>"

definition sample_nm :: "int \<Rightarrow> nat \<Rightarrow> nand nmbm_mtd" where
  "sample_nm flips f =
     (let lower = sample_nand_mtd flips;
          nld = nm_lower_device lower 1 8 0;
          ni = nmbm_instance.make nld \<lparr>nd_chip = sample_nand f, nd_corrected = 0, nd_failed = 0\<rparr>
            (ni_rawpage_size (sample f)) (ni_rawblock_size (sample f)) (ni_rawchip_size (sample f))
            (ni_writesize_mask (sample f)) (ni_erasesize_mask (sample f))
            (ni_writesize_shift (sample f)) (ni_erasesize_shift (sample f)) (ni_signature (sample f))
            (ni_info_table_cache (sample f)) (ni_info_table_size (sample f))
            (ni_info_table_spare_blocks (sample f)) (ni_info_table (sample f))
            (ni_block_state (sample f)) (ni_block_state_changed (sample f)) (ni_state_table_size (sample f))
            (ni_block_mapping (sample f)) (ni_block_mapping_changed (sample f))
            (ni_mapping_table_size (sample f)) (ni_page_cache (sample f)) (ni_protected (sample f))
            (ni_block_count (sample f)) (ni_data_block_count (sample f)) (ni_mgmt_start_ba (sample f))
            (ni_main_table_ba (sample f)) (ni_backup_table_ba (sample f)) (ni_mapping_blocks_ba (sample f))
            (ni_mapping_blocks_top_ba (sample f)) (ni_signature_ba (sample f))
            (ni_log_display_level (sample f))
      in \<lparr>nm_upper = upper_info lower 2 ''nmbm0'' ni, nm_name = ''nmbm0'', nm_id = 0, nm_lower = lower,
          nm_ni = ni, nm_page_cache = replicate 68 0\<rparr>)"

lemma sample_nand_mtd_simps [simp]:
  "mtd_size (sample_nand_mtd x) = 4096" "mtd_erasesize (sample_nand_mtd x) = 128"
  "mtd_writesize (sample_nand_mtd x) = 64" "mtd_oobsize (sample_nand_mtd x) = 4"
  "mtd_oobavail_bytes (sample_nand_mtd x) = 2" "mtd_writesize_mask (sample_nand_mtd x) = 63"
  "mtd_flags (sample_nand_mtd x) = 0x400" "mtd_bitflip_threshold (sample_nand_mtd x) = 3"
  "mtd_ecc_strength (sample_nand_mtd x) = 4" "nand__read_oob (sample_nand_mtd x) = Some (chip_read_oob x)"
  "nand__write_oob (sample_nand_mtd x) = Some chip_write_oob"
  "nand_ecc_stats (sample_nand_mtd x) = (\<lambda>c. (0, 0))"
  by (simp_all add: sample_nand_mtd_def)

lemma sample_nm_simps [simp]:
  "nm_lower (sample_nm x f) = sample_nand_mtd x" "length (nm_page_cache (sample_nm x f)) = 68"
  "nm_size (sample_nm x f) = 2048"
  by (simp_all add: sample_nm_def Let_def upper_info_def nm_lower_device_def nmbm_instance.defs)

lemma lower_ops_bufs [simp]:
  "oo_datbuf (lower_ops lower buf oob mode) = buf" "oo_oobbuf (lower_ops lower buf oob mode) = oob"
  by (auto simp: lower_ops_def Let_def)

lemma nm_lower_ok:
  assumes "\<And>rd c from ops ret ops' c'. nand__read_oob lower = Some rd \<Longrightarrow> rd c from ops = (ret, ops', c') \<Longrightarrow>
    map_option length (oo_datbuf ops') = map_option length (oo_datbuf ops) \<and>
    map_option length (oo_oobbuf ops') = map_option length (oo_oobbuf ops)"
  shows "lower_ok (nm_lower_device lower flags ratio blocks)"
proof -
  have "map_option length data' = map_option length data \<and> map_option length oob' = map_option length oob"
    if "nmbm_lower_read_page lower d addr data oob mode = (ret, data', oob', d')"
    for d addr data oob mode ret data' oob' d'
    using that
    by (auto simp: nmbm_lower_read_page_def nand_read_oob_def Let_def
        split: option.splits prod.splits if_splits dest!: assms)
  then show ?thesis by (auto simp: lower_ok_def nm_lower_device_def)
qed

lemma sample_nm_attached [simp]: "attached (nm_ni (sample_nm x f))"
proof -
  have "lower_ok (nm_lower_device (sample_nand_mtd x) 1 8 0)"
    by (rule nm_lower_ok)
      (auto simp: chip_read_oob_def Let_def split: prod.splits dest!: sim_read_lengths)
  then show ?thesis
    using sample_attached [of f] sample_layout [of f]
    by (simp add: sample_nm_def Let_def attached_def layout_def geom_def page_geom_def states_cover_def
        nmbm_instance.defs nm_lower_device_def)
qed

lemma sample_nm_ok [simp]: "nm_ok (sample_nm x f)"
proof -
  have "mtd_oobavail_bytes (nm_upper (sample_nm x f)) = 2" "mtd_oobsize (nm_upper (sample_nm x f)) = 4"
    by (simp_all add: sample_nm_def Let_def upper_info_def)
  then show ?thesis by (simp add: nm_ok_def)
qed


text \<open>
  C31: transfers with spare bytes terminate and stay inside the caller's buffers. For every
  device in order and every request whose buffers hold what it asks for, \<open>nmbm_mtd_read_oob\<close>
  and \<open>nmbm_mtd_write_oob\<close> return, leave the device in order and the buffers with their lengths,
  and when they report success everything asked for was transferred.
\<close>

theorem nmbm_mtd_oob_total:
  assumes "nm_ok nm" and "ops_ok ops"
  shows "(\<exists>ret ops' nm'. nmbm_mtd_read_oob nm from ops = Some (ret, ops', nm') \<and> nm_ok nm' \<and>
      oob_done ops ret ops' \<and> ret \<in> {0, - EINVAL, - ENOTSUPP, - EBADMSG, - EIO}) \<and>
    (\<exists>ret ops' nm'. nmbm_mtd_write_oob nm from ops = Some (ret, ops', nm') \<and> nm_ok nm' \<and>
      oob_done ops ret ops')"
  using read_oob_returns [OF assms, of "from"] write_oob_returns [OF assms, of "from"]
  by (auto simp: returns_iff nm_serves_def)

theorem nmbm_mtd_oob_total_witness:
  "\<exists>ret ops' nm'. nmbm_mtd_read_oob (sample_nm 0 3) 32 \<lparr>oo_mode = 0, oo_len = 100, oo_retlen = 0,
      oo_ooblen = 6, oo_oobretlen = 0, oo_ooboffs = 1, oo_datbuf = Some (replicate 100 0),
      oo_oobbuf = Some (replicate 6 0)\<rparr> = Some (ret, ops', nm') \<and> nm_ok nm'"
  using nmbm_mtd_oob_total [of "sample_nm 0 3" "\<lparr>oo_mode = 0, oo_len = 100, oo_retlen = 0,
      oo_ooblen = 6, oo_oobretlen = 0, oo_ooboffs = 1, oo_datbuf = Some (replicate 100 0),
      oo_oobbuf = Some (replicate 6 0)\<rparr>" 32]
  by (auto simp: ops_ok_def)

end
