(* ===== verification/Flash_Helper.thy ===== *)
theory Flash_Helper
  imports Nmbm_Mtd
begin

text \<open>
  The board's flash interface (\<^verbatim>\<open>board/ralink/common/flash_helper.h\<close>) and its implementation
  on the NAND boards (\<^verbatim>\<open>board/ralink/mt7621_nand_rfb/mt7621_nand_rfb.c\<close>).

  The boot code above (image checking, bootloader and firmware upgrades, the boot
  configuration) uses a flash only through these functions. They are a record of
  functions of the flash's state, \<open>flash_ops\<close>; what the boot code relies on is the
  contract \<open>flash\<close>, which the NMBM device provides for every chip.
\<close>

section \<open>The interface\<close>

record 's flash_ops =
  fl_erase_size :: "'s \<Rightarrow> u32"
  fl_erase :: "'s \<Rightarrow> u64 \<Rightarrow> u64 \<Rightarrow> (int \<times> 's) option"
  fl_read :: "'s \<Rightarrow> u64 \<Rightarrow> u32 \<Rightarrow> bytes \<Rightarrow> (int \<times> bytes \<times> 's) option"
  fl_write :: "'s \<Rightarrow> u64 \<Rightarrow> u32 \<Rightarrow> bytes \<Rightarrow> (int \<times> 's) option"

section \<open>The NAND boards\<close>

definition mtk_board_get_flash_erase_size :: "'s mtd_dev \<Rightarrow> u32" where
  "mtk_board_get_flash_erase_size mtd = mtd_erasesize mtd"

text \<open>The request is zeroed, and its \<^verbatim>\<open>mtd\<close> member is never set.\<close>

definition mtk_board_flash_erase :: "mtd_build \<Rightarrow> 's mtd_dev \<Rightarrow> 's \<Rightarrow> u64 \<Rightarrow> u64 \<Rightarrow> (int \<times> 's) option" where
  "mtk_board_flash_erase parts mtd s offset len = do {
     (ret, instr, s) \<leftarrow> mtd_erase parts mtd s (erase_info_zero\<lparr>ei_addr := offset, ei_len := len\<rparr>);
     if ret \<noteq> 0 then Some (ret, s)
     else if ei_state instr \<noteq> MTD_ERASE_DONE then Some (-1, s)
     else Some (0, s)
   }"

definition mtk_board_flash_read :: "'s mtd_dev \<Rightarrow> 's \<Rightarrow> u64 \<Rightarrow> u32 \<Rightarrow> bytes
    \<Rightarrow> (int \<times> bytes \<times> 's) option" where
  "mtk_board_flash_read mtd s offset len buf = do {
     (ret, buf, retlen, s) \<leftarrow> mtd_read mtd s offset len (Some 0) buf;
     if ret \<noteq> 0 \<and> ret \<noteq> - EUCLEAN then Some (ret, buf, s)
     else if retlen \<noteq> len then Some (- EIO, buf, s)
     else Some (0, buf, s)
   }"

definition mtk_board_flash_write :: "'s mtd_dev \<Rightarrow> 's \<Rightarrow> u64 \<Rightarrow> u32 \<Rightarrow> bytes \<Rightarrow> (int \<times> 's) option" where
  "mtk_board_flash_write mtd s offset len buf = do {
     (ret, _, s) \<leftarrow> mtd_write mtd s offset len (Some 0) buf;
     Some (ret, s)
   }"

text \<open>
  The device the board works on: the NMBM device once \<^verbatim>\<open>board_nmbm_init\<close> has attached one,
  and the raw chip otherwise.
\<close>

definition get_mtk_board_nand_mtd :: "bool \<Rightarrow> 'm option \<Rightarrow> 'm option \<Rightarrow> 'm option" where
  "get_mtk_board_nand_mtd nmbm_usable nmbm0 nand0 = (if nmbm_usable then nmbm0 else nand0)"

text \<open>
  \<open>nand0\<close> is the first raw chip, if there is one, with its state; \<open>ratio\<close> and \<open>blocks\<close> are
  \<^verbatim>\<open>CONFIG_NMBM_MAX_RATIO\<close> and \<^verbatim>\<open>CONFIG_NMBM_MAX_BLOCKS\<close>. The results are the device list and
  the address of the device that is registered; \<^verbatim>\<open>nmbm_usable\<close> is set when there is one.
\<close>

definition board_nmbm_init :: "nat option \<times> nat option \<Rightarrow> 'c nm_arg nmbm_instance \<Rightarrow> u32 \<Rightarrow> u32
    \<Rightarrow> 'c nmbm_devices \<Rightarrow> ('c nand_mtd \<times> 'c) option \<Rightarrow> (nat option \<times> 'c nmbm_devices) option" where
  "board_nmbm_init calloc blank ratio blocks g nand0 =
     (case nand0 of
        None \<Rightarrow> Some (None, g)
      | Some (lower, chip) \<Rightarrow> do {
          (ret, upper, g) \<leftarrow> nmbm_attach_mtd calloc blank g (Some lower) chip NMBM_F_CREATE ratio blocks;
          Some (if ret \<noteq> 0 then None else upper, g)
        })"

text \<open>The flash of a board with an attached NMBM device, in a build of the MTD core.\<close>

definition nmbm_flash :: "mtd_build \<Rightarrow> 'c nmbm_mtd flash_ops" where
  "nmbm_flash parts = \<lparr>
     fl_erase_size = (\<lambda>nm. mtk_board_get_flash_erase_size (nm_dev parts nm)),
     fl_erase = (\<lambda>nm. mtk_board_flash_erase parts (nm_dev parts nm) nm),
     fl_read = (\<lambda>nm. mtk_board_flash_read (nm_dev parts nm) nm),
     fl_write = (\<lambda>nm. mtk_board_flash_write (nm_dev parts nm) nm)\<rparr>"


section \<open>The contract\<close>

text \<open>
  What the boot code relies on: on a flash in order, every operation returns, whatever code
  it returns with; a read leaves the length of the buffer alone; the flash stays in order
  and keeps its erase size. Nothing is said about the data.
\<close>

locale flash =
  fixes fl :: "'s flash_ops" and ok :: "'s \<Rightarrow> bool"
  assumes read_total: "ok s \<Longrightarrow> unat len \<le> length buf \<Longrightarrow>
      returns (fl_read fl s off len buf) (\<lambda>(ret, buf', s'). length buf' = length buf \<and> ok s' \<and>
        fl_erase_size fl s' = fl_erase_size fl s)"
    and write_total: "ok s \<Longrightarrow> unat len \<le> length buf \<Longrightarrow>
      returns (fl_write fl s off len buf) (\<lambda>(ret, s'). ok s' \<and> fl_erase_size fl s' = fl_erase_size fl s)"
    and erase_total: "ok s \<Longrightarrow>
      returns (fl_erase fl s off elen) (\<lambda>(ret, s'). ok s' \<and> fl_erase_size fl s' = fl_erase_size fl s)"

lemma nm_dev_simps [simp]:
  "mtd_size (nm_dev parts nm) = nm_size nm" "mtd_flags (nm_dev parts nm) = mtd_flags (nm_upper nm)"
  "mtd_erasesize (nm_dev parts nm) = mtd_erasesize (nm_upper nm)"
  "mtd_ecc_strength (nm_dev parts nm) = mtd_ecc_strength (nm_upper nm)"
  "mtd_bitflip_threshold (nm_dev parts nm) = mtd_bitflip_threshold (nm_upper nm)"
  "mtd__read (nm_dev parts nm) = nmbm_mtd_read" "mtd__write (nm_dev parts nm) = Some nmbm_mtd_write"
  "mtd__erase (nm_dev parts nm) = nmbm_mtd_erase parts"
  by (simp_all add: nm_dev_def mtd_info.defs mtd_dev.defs)

text \<open>
  The builds differ in \<open>mtd_erase_callback\<close> only: on a machine on which the load through NULL goes through, a build with
  partitions behaves like one without.
\<close>

lemma null_readable_builds:
  assumes "parts \<noteq> Partitions"
  shows "nm_dev parts = (nm_dev No_partitions :: 'c nmbm_mtd \<Rightarrow> _)"
    "nmbm_flash parts = (nmbm_flash No_partitions :: 'c nmbm_mtd flash_ops)"
proof -
  have "mtd_erase_callback parts instr = mtd_erase_callback No_partitions instr" for instr
    using assms by (simp add: mtd_erase_callback_def)
  then have e: "nmbm_mtd_erase parts = (nmbm_mtd_erase No_partitions :: 'x nmbm_mtd \<Rightarrow> _)"
    "mtd_erase parts = (mtd_erase No_partitions :: 's mtd_dev \<Rightarrow> _)"
    by (auto simp: nmbm_mtd_erase_def mtd_erase_def cong: if_cong intro!: ext)
  show "nm_dev parts = (nm_dev No_partitions :: 'c nmbm_mtd \<Rightarrow> _)" by (simp add: nm_dev_def e fun_eq_iff)
  then show "nmbm_flash parts = (nmbm_flash No_partitions :: 'c nmbm_mtd flash_ops)"
    by (simp add: nmbm_flash_def mtk_board_flash_erase_def e fun_eq_iff)
qed

lemma nmbm_mtd_read_returns:
  assumes "nm_ok nm" and "unat len \<le> length buf"
  shows "returns (nmbm_mtd_read nm off len buf) (\<lambda>(ret, buf', retlen, nm'). nm_serves nm nm' \<and>
    length buf' = length buf \<and> ret \<in> {0, 1, - EIO, - EINVAL, - EROFS} \<and> completes len ret retlen)"
proof -
  have "attached (nm_ni nm)" using assms(1) by (simp add: nm_ok_def)
  from read_range_returns [OF this assms(2), of off NMBM_MODE_PLACE_OOB] show ?thesis
    using nm_serves_refl [OF assms(1)]
    by (auto simp: nmbm_mtd_read_def ret_simps completes_def elim!: returns_mono intro: nm_serves_ni [OF assms(1)]
        dest!: transferred_completes)
qed

lemma nmbm_mtd_write_returns:
  assumes "nm_ok nm" and "unat len \<le> length buf"
  shows "returns (nmbm_mtd_write nm off len buf) (\<lambda>(ret, retlen, nm'). nm_serves nm nm' \<and>
    ret \<in> {0, - EIO, - EINVAL, - EROFS} \<and> completes len ret retlen)"
proof -
  have "attached (nm_ni nm)" using assms(1) by (simp add: nm_ok_def)
  from write_range_returns [OF this assms(2), of off NMBM_MODE_PLACE_OOB] show ?thesis
    using nm_serves_refl [OF assms(1)]
    by (auto simp: nmbm_mtd_write_def ret_simps completes_def elim!: returns_mono intro: nm_serves_ni [OF assms(1)]
        dest!: transferred_completes)
qed

lemma mtk_board_flash_read_returns:
  assumes "nm_ok nm" and "unat len \<le> length buf"
  shows "returns (mtk_board_flash_read (nm_dev parts nm) nm off len buf) (\<lambda>(ret, buf', nm').
    nm_serves nm nm' \<and> length buf' = length buf \<and> ret \<in> {0, - EIO, - EINVAL, - EROFS})"
  using nm_serves_refl [OF assms(1)] nmbm_mtd_read_returns [OF assms, of off]
  by (auto simp: mtk_board_flash_read_def mtd_read_def ret_simps bitflip_result_def elim!: returns_mono)

lemma mtk_board_flash_write_returns:
  assumes "nm_ok nm" and "unat len \<le> length buf"
  shows "returns (mtk_board_flash_write (nm_dev parts nm) nm off len buf) (\<lambda>(ret, nm').
    nm_serves nm nm' \<and> ret \<in> {0, - EIO, - EINVAL, - EROFS})"
  using nm_serves_refl [OF assms(1)] nmbm_mtd_write_returns [OF assms, of off]
  by (auto simp: mtk_board_flash_write_def mtd_write_def ret_simps elim!: returns_mono)

lemma mtk_board_flash_erase_returns:
  assumes "nm_ok nm"
  shows "returns (mtk_board_flash_erase No_partitions (nm_dev No_partitions nm) nm off len) (\<lambda>(ret, nm').
    nm_ok nm' \<and> nm_upper nm' = nm_upper nm \<and> nm_lower nm' = nm_lower nm \<and> ret \<in> {0, - EIO, - EINVAL, - EROFS})"
proof (cases "off > nm_size nm \<or> len > nm_size nm - off")
  case True
  with assms show ?thesis by (auto simp: mtk_board_flash_erase_def mtd_erase_def erase_info_zero_def)
next
  case False
  then have "unat off \<le> unat (nm_size nm)" "unat len \<le> unat (nm_size nm - off)"
    by (auto simp: word_le_nat_alt not_less)
  then have sum: "unat off + unat len < 2 ^ 64"
    using unat_less_len [of "nm_size nm"] by (simp add: unat_sub word_le_nat_alt)
  have att: "attached (nm_ni nm)" using assms by (simp add: nm_ok_def)
  have ok: "nm_ok (nm\<lparr>nm_ni := ni\<rparr>)" if "attached ni" for ni
    using assms that by (auto simp: nm_ok_def)
  show ?thesis
    using False assms ok erase_block_range_returns [OF att sum]
    by (auto simp: mtk_board_flash_erase_def mtd_erase_def erase_info_zero_def nmbm_mtd_erase_def
        mtd_erase_callback_def Let_def split: option.splits)
qed

interpretation nmbm_board: flash "nmbm_flash No_partitions" nm_ok
proof unfold_locales
  fix nm :: "'c nmbm_mtd" and len :: u32 and buf :: bytes and off
  assume a: "nm_ok nm" "unat len \<le> length buf"
  show "returns (fl_read (nmbm_flash No_partitions) nm off len buf) (\<lambda>(ret, buf', s').
      length buf' = length buf \<and> nm_ok s' \<and> fl_erase_size (nmbm_flash No_partitions) s' = fl_erase_size (nmbm_flash No_partitions) nm)"
    using mtk_board_flash_read_returns [OF a, of No_partitions off]
    by (auto simp: nmbm_flash_def mtk_board_get_flash_erase_size_def nm_serves_def elim!: returns_mono)
  show "returns (fl_write (nmbm_flash No_partitions) nm off len buf) (\<lambda>(ret, s').
      nm_ok s' \<and> fl_erase_size (nmbm_flash No_partitions) s' = fl_erase_size (nmbm_flash No_partitions) nm)"
    using mtk_board_flash_write_returns [OF a, of No_partitions off]
    by (auto simp: nmbm_flash_def mtk_board_get_flash_erase_size_def nm_serves_def elim!: returns_mono)
next
  fix nm :: "'c nmbm_mtd" and off len
  assume "nm_ok nm"
  from mtk_board_flash_erase_returns [OF this, of off len]
  show "returns (fl_erase (nmbm_flash No_partitions) nm off len) (\<lambda>(ret, s').
      nm_ok s' \<and> fl_erase_size (nmbm_flash No_partitions) s' = fl_erase_size (nmbm_flash No_partitions) nm)"
    by (auto simp: nmbm_flash_def mtk_board_get_flash_erase_size_def elim!: returns_mono)
qed


section \<open>Properties\<close>

text \<open>Evaluation of loops on concrete states.\<close>

declare loop.simps [code]

text \<open>
  C32: a flash read on the NMBM board is total and reports success only for a complete read.
  It never returns \<open>-EBADMSG\<close>, the code its callers test for to tell a damaged image from a
  broken flash: an uncorrectable page comes back as \<open>-EIO\<close>.
\<close>

theorem mtk_board_flash_read_codes:
  assumes "nm_ok nm" and "unat len \<le> length buf"
  shows "\<exists>ret buf' nm'. mtk_board_flash_read (nm_dev parts nm) nm off len buf = Some (ret, buf', nm') \<and>
    nm_ok nm' \<and> length buf' = length buf \<and> ret \<in> {0, - EIO, - EINVAL, - EROFS} \<and> ret \<noteq> - EBADMSG"
  using mtk_board_flash_read_returns [OF assms, of parts off]
  by (auto simp: returns_iff nm_serves_def)

theorem mtk_board_flash_read_codes_witness:
  "\<exists>ret buf' nm'. mtk_board_flash_read (nm_dev Partitions (sample_nm (- EBADMSG) 0)) (sample_nm (- EBADMSG) 0)
     0 64 (replicate 64 0) = Some (ret, buf', nm') \<and> ret \<noteq> - EBADMSG"
  using mtk_board_flash_read_codes [of "sample_nm (- EBADMSG) 0" 64 "replicate 64 0" Partitions 0] by auto

text \<open>
  C33: \<open>mtd_read\<close> takes the uncorrectable-page code of NMBM for a count of corrected bit flips.
  When, on a device in order, \<open>nmbm_read_range\<close> gives up with 1 at an uncorrectable page, \<open>nmbm_mtd_read\<close> hands the 1
  on, and on a device whose bit-flip threshold is above one \<open>mtd_read\<close> returns 0, success, with fewer bytes
  read than asked for.
\<close>

theorem mtd_read_hides_uncorrectable:
  assumes "nmbm_read_range (Some (nm_ni nm)) off len buf NMBM_MODE_PLACE_OOB = Some (1, buf', Some n, Some ni')"
    and "0 \<le> sint off" and "off \<le> nm_size nm" and "ucast len \<le> nm_size nm - off" and "len \<noteq> 0"
    and "1 < mtd_bitflip_threshold (nm_upper nm)" and "nm_ok nm" and "unat len \<le> length buf"
  shows "mtd_read (nm_dev parts nm) nm off len (Some r) buf = Some (0, buf', n, nm\<lparr>nm_ni := ni'\<rparr>) \<and> n < len"
proof -
  have "unat off + unat len \<le> unat (nm_size nm)"
    using assms(3,4) by (simp add: word_le_nat_alt unat_sub)
  then have "off + ucast len \<le> nm_size nm"
    using unat_less_len [of "nm_size nm"] by (simp add: word_le_nat_alt unat_word_ariths)
  moreover have "1 < uint (mtd_bitflip_threshold (nm_upper nm))"
    using assms(6) by (simp add: word_less_def)
  moreover have "attached (nm_ni nm)" using assms(7) by (simp add: nm_ok_def)
  from read_range_returns [OF this assms(8), of off NMBM_MODE_PLACE_OOB] have "completes len 1 (Some n)"
    by (auto simp: assms(1) dest: transferred_completes)
  then have "n < len" by (auto simp: completes_def)
  ultimately show ?thesis
    using assms by (simp add: mtd_read_def nmbm_mtd_read_def bitflip_result_def not_less)
qed

theorem mtd_read_hides_uncorrectable_witness:
  "\<exists>buf' nm'. mtd_read (nm_dev No_partitions (sample_nm (- EBADMSG) 0)) (sample_nm (- EBADMSG) 0) 0 64 (Some 0)
     (replicate 64 0) = Some (0, buf', 0, nm')"
proof -
  have "map_option (\<lambda>(ret, buf, n, nip). (ret, n, nip \<noteq> None))
      (nmbm_read_range (Some (nm_ni (sample_nm (- EBADMSG) 0))) 0 64 (replicate 64 0) NMBM_MODE_PLACE_OOB) =
    Some (1, Some 0, True)"
    by code_simp
  then obtain buf' ni' where "nmbm_read_range (Some (nm_ni (sample_nm (- EBADMSG) 0))) 0 64 (replicate 64 0)
      NMBM_MODE_PLACE_OOB = Some (1, buf', Some 0, Some ni')"
    by auto
  moreover have "mtd_bitflip_threshold (nm_upper (sample_nm (- EBADMSG) 0)) = 3"
    by (simp add: sample_nm_def upper_info_def Let_def)
  ultimately show ?thesis
    using mtd_read_hides_uncorrectable [of "sample_nm (- EBADMSG) 0" 0 64 "replicate 64 0" buf' 0 ni' No_partitions 0]
    by simp
qed

text \<open>
  C34: the board's erase function reads through a NULL pointer once an erasure has succeeded.
  It leaves \<open>instr.mtd\<close> NULL, and in a build with MTD partitions \<open>mtd_erase_callback\<close> follows
  that pointer, so that in C the call has no defined result.
\<close>

theorem mtk_board_flash_erase_null_mtd:
  assumes "nmbm_erase_block_range (Some (nm_ni nm)) off len = Some (0, failed, Some ni')"
    and "off \<le> nm_size nm" and "len \<le> nm_size nm - off" and "len \<noteq> 0"
    and "mtd_flags (nm_upper nm) AND MTD_WRITEABLE \<noteq> 0"
  shows "mtk_board_flash_erase Partitions (nm_dev Partitions nm) nm off len = None"
  using assms
  by (simp add: mtk_board_flash_erase_def mtd_erase_def erase_info_zero_def nmbm_mtd_erase_def
      mtd_erase_callback_def Let_def not_less split: option.split)

theorem mtk_board_flash_erase_null_mtd_witness:
  "mtk_board_flash_erase Partitions (nm_dev Partitions (sample_nm 0 0)) (sample_nm 0 0) 0 128 = None"
proof -
  have "map_option (\<lambda>(ret, failed, nip). (ret, nip \<noteq> None))
      (nmbm_erase_block_range (Some (nm_ni (sample_nm 0 0))) 0 128) = Some (0, True)"
    by code_simp
  then obtain failed ni' where
    "nmbm_erase_block_range (Some (nm_ni (sample_nm 0 0))) 0 128 = Some (0, failed, Some ni')"
    by auto
  moreover have "mtd_flags (nm_upper (sample_nm 0 0)) = 0x400"
    by (simp add: sample_nm_def upper_info_def Let_def)
  ultimately show ?thesis
    using mtk_board_flash_erase_null_mtd [of "sample_nm 0 0" 0 128 failed ni'] by simp
qed

end
