(* ===== verification/Board_Image.thy ===== *)
theory Board_Image
  imports Nmbm_Image Flash_Helper
begin

text \<open>
  The whole path from the raw chip to the board's flash functions, on a chip that works: the
  raw NAND under the MTD core is a reliable lower device for NMBM, and the flash functions of
  a board with a healthy NMBM device read, program and erase the logical image.

  The contracts are \<open>reliable_nand\<close>, what the raw chip promises, and \<open>storage\<close>, what the boot
  code may rely on; the first gives the second for the board's functions.
\<close>

section \<open>A flash that keeps its contents\<close>

text \<open>
  Contents of a flash after an erasure and after programming \<open>data\<close> at \<open>off\<close>. A write may
  leave anything in the rest of the last page it touches (\<open>ws\<close> is the page size).
\<close>

definition blanked :: "nat \<Rightarrow> nat \<Rightarrow> nat \<Rightarrow> (nat \<Rightarrow> u8) \<Rightarrow> (nat \<Rightarrow> u8) \<Rightarrow> nat \<Rightarrow> bool" where
  "blanked es off len c c' a \<longleftrightarrow>
     c' a = (if off div es \<le> a div es \<and> a div es \<le> (off + len - 1) div es then 0xff else c a)"

definition written :: "nat \<Rightarrow> nat \<Rightarrow> bytes \<Rightarrow> (nat \<Rightarrow> u8) \<Rightarrow> (nat \<Rightarrow> u8) \<Rightarrow> nat \<Rightarrow> bool" where
  "written ws off data c c' a \<longleftrightarrow>
     (a < off + length data \<or> (off + length data - 1) div ws < a div ws \<longrightarrow>
      c' a = (if off \<le> a \<and> a < off + length data then c a AND data ! (a - off) else c a))"

text \<open>Whole blocks, erased and written again.\<close>

lemma whole_blocks:
  assumes "0 < (es :: nat)" and "es dvd lo" and "es dvd hi" and "lo < hi"
  shows "lo div es \<le> a div es \<longleftrightarrow> lo \<le> a" "a div es \<le> (hi - 1) div es \<longleftrightarrow> a < hi" "(hi - 1) div es < a div es \<longleftrightarrow> hi \<le> a"
proof -
  obtain k l where kl: "lo = es * k" "hi = es * l" using assms(2,3) by (auto elim!: dvdE)
  show "lo div es \<le> a div es \<longleftrightarrow> lo \<le> a"
    using assms(1) by (simp add: kl less_eq_div_iff_mult_less_eq mult.commute)
  have "0 < l" using assms(4) kl by (cases l) auto
  have "(hi - 1) div es < l" using assms(1,4) by (simp add: kl div_less_iff_less_mult mult.commute)
  moreover have "l - 1 \<le> (hi - 1) div es"
    using assms(1) \<open>0 < l\<close> by (simp add: kl less_eq_div_iff_mult_less_eq diff_mult_distrib mult.commute) (use \<open>0 < l\<close> in \<open>cases l; simp\<close>)
  ultimately have last: "(hi - 1) div es = l - 1" by linarith
  have "a div es < l \<longleftrightarrow> a < hi" using assms(1) by (simp add: kl div_less_iff_less_mult mult.commute)
  with last \<open>0 < l\<close> show "a div es \<le> (hi - 1) div es \<longleftrightarrow> a < hi" "(hi - 1) div es < a div es \<longleftrightarrow> hi \<le> a" by linarith+
qed

lemma rewritten:
  assumes "0 < es" and "0 < ws" and "ws dvd es" and "es dvd lo" and "es dvd length new" and "new \<noteq> []"
    and "blanked es lo (length new) c c1 a" and "written ws lo new c1 c2 a"
  shows "c2 a = (if lo \<le> a \<and> a < lo + length new then new ! (a - lo) else c a)"
proof -
  let ?hi = "lo + length new"
  have hi: "es dvd ?hi" "lo < ?hi" using assms(4-6) by simp_all
  have "c1 a = (if lo \<le> a \<and> a < ?hi then 0xff else c a)"
    using assms(7) unfolding blanked_def whole_blocks(1,2) [OF assms(1,4) hi] .
  moreover have "(?hi - 1) div ws < a div ws \<longleftrightarrow> ?hi \<le> a"
    by (rule whole_blocks(3) [OF assms(2) _ _ hi(2)]) (use assms(3,4) hi(1) dvd_trans in blast)+
  ultimately show ?thesis using assms(8) by (auto simp: written_def ff_and not_less)
qed

locale storage =
  fixes fl :: "'s flash_ops" and ok :: "'s \<Rightarrow> bool" and content :: "'s \<Rightarrow> nat \<Rightarrow> u8"
    and cap :: nat and es :: nat and ws :: nat
  assumes sizes: "ok s \<Longrightarrow> unat (fl_erase_size fl s) = es" 
      "ok s \<Longrightarrow> 0 < es \<and> 0 < ws \<and> ws dvd es \<and> es dvd cap \<and> cap < 2 ^ 64"
    and tries: "ok s \<Longrightarrow> unat len \<le> length buf \<Longrightarrow> returns (fl_read fl s off len buf) (\<lambda>(ret, buf', s').
      length buf' = length buf \<and> ok s' \<and> content s' = content s)"
    and reads: "ok s \<Longrightarrow> unat off + unat len \<le> cap \<Longrightarrow> unat len \<le> length buf \<Longrightarrow> len \<noteq> 0 \<Longrightarrow>
      \<exists>s'. fl_read fl s off len buf = Some (0, map (\<lambda>i. content s (unat off + i)) [0..<unat len] @ drop (unat len) buf, s') \<and>
        ok s' \<and> content s' = content s"
    and writes: "ok s \<Longrightarrow> unat off + unat len \<le> cap \<Longrightarrow> unat len = length buf \<Longrightarrow> len \<noteq> 0 \<Longrightarrow>
      \<exists>s'. fl_write fl s off len buf = Some (0, s') \<and> ok s' \<and> (\<forall>a < cap. written ws (unat off) buf (content s) (content s') a)"
    and erases: "ok s \<Longrightarrow> unat off + unat elen \<le> cap \<Longrightarrow> elen \<noteq> 0 \<Longrightarrow>
      \<exists>s'. fl_erase fl s off elen = Some (0, s') \<and> ok s' \<and> (\<forall>a < cap. blanked es (unat off) (unat elen) (content s) (content s') a)"

section \<open>The raw chip\<close>

text \<open>
  What the driver of the raw chip does on a chip that works. A page read may report corrected
  bit flips.
\<close>

locale reliable_nand =
  fixes lower :: "'c nand_mtd" and fit :: "'c \<Rightarrow> bool" and img :: "'c \<Rightarrow> nat \<Rightarrow> u8"
  assumes writeable: "mtd_flags lower AND MTD_WRITEABLE \<noteq> 0"
    and erasesize: "mtd_erasesize lower \<noteq> 0"
    and page_reads: "fit c \<Longrightarrow> unat (mtd_writesize lower) dvd unat addr \<Longrightarrow>
      unat addr + unat (mtd_writesize lower) \<le> unat (mtd_size lower) \<Longrightarrow>
      oo_datbuf ops = Some buf \<Longrightarrow> oo_oobbuf ops = None \<Longrightarrow> oo_len ops = mtd_writesize lower \<Longrightarrow>
      length buf = unat (mtd_writesize lower) \<Longrightarrow>
      \<exists>rd c' flips n m. nand__read_oob lower = Some rd \<and> 0 \<le> flips \<and> fit c' \<and> img c' = img c \<and>
        rd c addr ops = (flips, ops\<lparr>oo_datbuf := Some (map (\<lambda>i. img c (unat addr + i)) [0..<unat (mtd_writesize lower)]),
          oo_retlen := n, oo_oobretlen := m\<rparr>, c')"
    and page_writes: "fit c \<Longrightarrow> unat (mtd_writesize lower) dvd unat addr \<Longrightarrow>
      unat addr + unat (mtd_writesize lower) \<le> unat (mtd_size lower) \<Longrightarrow>
      oo_datbuf ops = Some data \<Longrightarrow> oo_oobbuf ops = None \<Longrightarrow> oo_len ops = mtd_writesize lower \<Longrightarrow>
      length data = unat (mtd_writesize lower) \<Longrightarrow>
      \<exists>wr c'. nand__write_oob lower = Some wr \<and> fit c' \<and> wr c addr ops = (0, c') \<and>
        (\<forall>a. img c' a = (if unat addr \<le> a \<and> a < unat addr + unat (mtd_writesize lower)
           then img c a AND data ! (a - unat addr) else img c a))"
    and block_erases: "fit c \<Longrightarrow> unat (mtd_erasesize lower) dvd unat (ei_addr ei) \<Longrightarrow>
      unat (ei_addr ei) + unat (mtd_erasesize lower) \<le> unat (mtd_size lower) \<Longrightarrow>
      ei_len ei = ucast (mtd_erasesize lower) \<Longrightarrow>
      \<exists>c'. nand__erase lower c ei = (0, c') \<and> fit c' \<and>
        (\<forall>a. img c' a = (if unat (ei_addr ei) \<le> a \<and> a < unat (ei_addr ei) + unat (mtd_erasesize lower) then 0xff else img c a))"

sublocale reliable_nand \<subseteq> chip: reliable_chip "nm_lower_device lower flags ratio blocks" "\<lambda>d. fit (nd_chip d)" "\<lambda>d. img (nd_chip d)"
  for flags ratio blocks
proof (unfold_locales, goal_cases)
  case (1 d addr buf)
  let ?L = "nm_lower_device lower flags ratio blocks"
  let ?ops = "(lower_ops lower (Some buf) None NMBM_MODE_PLACE_OOB)\<lparr>oo_retlen := 0, oo_oobretlen := 0\<rparr>"
  have geo: "nld_writesize ?L = mtd_writesize lower" "nld_size ?L = mtd_size lower"
    by (simp_all add: nm_lower_device_def)
  have "oo_datbuf ?ops = Some buf" "oo_oobbuf ?ops = None" "oo_len ?ops = mtd_writesize lower"
    by (simp_all add: lower_ops_def)
  from page_reads [OF 1(1-3) [unfolded geo] this 1(4) [unfolded geo]] obtain rd c' flips n m
    where "nand__read_oob lower = Some rd" "0 \<le> flips" "fit c'" "img c' = img (nd_chip d)"
      "rd (nd_chip d) addr ?ops = (flips, ?ops\<lparr>oo_datbuf := Some (map (\<lambda>i. img (nd_chip d) (unat addr + i)) [0..<unat (mtd_writesize lower)]),
          oo_retlen := n, oo_oobretlen := m\<rparr>, c')"
    by blast
  then show ?case
    by (auto simp: nm_lower_device_def nmbm_lower_read_page_def nand_read_oob_def bitflip_result_def
        split: prod.splits)
next
  case (2 d addr data)
  let ?L = "nm_lower_device lower flags ratio blocks"
  let ?ops = "(lower_ops lower (Some data) None NMBM_MODE_PLACE_OOB)\<lparr>oo_retlen := 0, oo_oobretlen := 0\<rparr>"
  have geo: "nld_writesize ?L = mtd_writesize lower" "nld_size ?L = mtd_size lower"
    by (simp_all add: nm_lower_device_def)
  have "oo_datbuf ?ops = Some data" "oo_oobbuf ?ops = None" "oo_len ?ops = mtd_writesize lower"
    by (simp_all add: lower_ops_def)
  from page_writes [OF 2(1-3) [unfolded geo] this 2(4) [unfolded geo]] writeable show ?case
    by (auto simp: nm_lower_device_def nmbm_lower_write_page_def nand_write_oob_def)
next
  case (3 d addr)
  let ?L = "nm_lower_device lower flags ratio blocks"
  let ?ei = "erase_info_zero\<lparr>ei_mtd := Some (mtd_ptr lower), ei_addr := addr, ei_len := ucast (mtd_erasesize lower),
    ei_fail_addr := MTD_FAIL_ADDR_UNKNOWN\<rparr>"
  have geo: "nld_erasesize ?L = mtd_erasesize lower" "nld_size ?L = mtd_size lower"
    by (simp_all add: nm_lower_device_def)
  have ei: "ei_addr ?ei = addr" "ei_len ?ei = ucast (mtd_erasesize lower)" by simp_all
  have "addr \<le> mtd_size lower" "ucast (mtd_erasesize lower) \<le> mtd_size lower - addr"
    using 3(3) by (simp_all add: geo word_le_nat_alt unat_sub)
  moreover have "ucast (mtd_erasesize lower) \<noteq> (0 :: u64)"
    using erasesize by (simp add: word_unat_eq_iff)
  moreover from block_erases [of "nd_chip d" ?ei, unfolded ei, OF 3(1-3) [unfolded geo] refl]
  obtain c' where "nand__erase lower (nd_chip d) ?ei = (0, c')" "fit c'"
    "\<forall>a. img c' a = (if unat addr \<le> a \<and> a < unat addr + unat (mtd_erasesize lower) then 0xff else img (nd_chip d) a)"
    by blast
  ultimately have "nmbm_lower_erase_block lower d addr = (0, d\<lparr>nd_chip := c'\<rparr>)" "fit c'"
    "\<forall>a. img c' a = (if unat addr \<le> a \<and> a < unat addr + unat (mtd_erasesize lower) then 0xff else img (nd_chip d) a)"
    using writeable by (simp_all add: nmbm_lower_erase_block_def nand_erase_def Let_def not_less)
  then show ?case by (auto simp: nm_lower_device_def)
qed

section \<open>The board's flash\<close>

text \<open>A device in order on this chip, of \<open>cap\<close> bytes: the board's first NMBM device.\<close>

definition board_ok :: "'c nand_mtd \<Rightarrow> ('c \<Rightarrow> bool) \<Rightarrow> u32 \<times> u32 \<times> u32 \<Rightarrow> nat \<Rightarrow> 'c nmbm_mtd \<Rightarrow> bool" where
  "board_ok lower fit cfg cap nm \<longleftrightarrow> nm_ok nm \<and> nm_lower nm = lower \<and>
     (case cfg of (flags, ratio, blocks) \<Rightarrow> ni_lower (nm_ni nm) = nm_lower_device lower flags ratio blocks) \<and>
     healthy (nm_ni nm) \<and> fit (nd_chip (ni_arg (nm_ni nm))) \<and> logic_size (nm_ni nm) = cap \<and>
     unat (nm_size nm) = cap \<and> mtd_erasesize (nm_upper nm) = mtd_erasesize lower \<and>
     mtd_flags (nm_upper nm) = mtd_flags lower \<and> mtd_type (nm_upper nm) = MTD_DEV_TYPE_NMBM \<and>
     mtd_name (nm_upper nm) = ''nmbm0'' \<and> nm_id nm = 0 \<and>
     mtd_ecc_strength (nm_upper nm) = mtd_ecc_strength lower \<and>
     mtd_bitflip_threshold (nm_upper nm) = mtd_bitflip_threshold lower"

definition board_content :: "('c \<Rightarrow> nat \<Rightarrow> u8) \<Rightarrow> 'c nmbm_mtd \<Rightarrow> nat \<Rightarrow> u8" where
  "board_content img nm = image_of (\<lambda>d. img (nd_chip d)) (nm_ni nm)"

lemma sint_nonneg: "unat (w :: u64) < 2 ^ 63 \<Longrightarrow> 0 \<le> sint w"
proof -
  assume "unat w < 2 ^ 63"
  then have "\<not> bit (unat w) 63" by (simp add: bit_iff_odd)
  then have "\<not> bit w 63" by (simp add: bit_unsigned_iff)
  then show ?thesis by (simp add: sint_uint signed_take_bit_eq_if_positive bit_uint_iff)
qed

lemma board_range:
  assumes "board_ok lower fit cfg cap nm" and "unat off + unat (len :: u64) \<le> cap" and "len \<noteq> 0"
  shows "0 \<le> sint off" "off \<le> nm_size nm" "len \<le> nm_size nm - off" "off + len \<le> nm_size nm"
proof -
  have size: "unat (nm_size nm) = cap" and h: "healthy (nm_ni nm)" and c: "logic_size (nm_ni nm) = cap"
    using assms(1) by (simp_all add: board_ok_def)
  show off: "off \<le> nm_size nm" and "len \<le> nm_size nm - off"
    using assms(2) size by (simp_all add: word_le_nat_alt unat_sub)
  have "unat (ni_data_block_count (nm_ni nm)) < 2 ^ 32" by (rule unat_u32_less)
  moreover have "unat (ni_erasesize (nm_ni nm)) \<le> 2 ^ 31"
    unfolding healthyD(6) [OF h] using healthyD(7) [OF h] by (intro power_increasing) simp_all
  ultimately have "cap < 2 ^ 32 * 2 ^ 31"
    unfolding c [symmetric] by (intro mult_less_le_imp_less) (use healthyD(3) [OF h] in auto)
  then have big: "cap < 2 ^ 63" by simp
  then show "0 \<le> sint off" using assms(2) by (intro sint_nonneg) simp
  show "off + len \<le> nm_size nm"
    using assms(2) size big by (simp add: word_le_nat_alt unat_word_ariths)
qed

lemma board_okE:
  assumes "board_ok lower fit cfg cap nm"
  obtains flags ratio blocks where
    "healthy (nm_ni nm) \<and> ni_lower (nm_ni nm) = nm_lower_device lower flags ratio blocks \<and>
       fit (nd_chip (ni_arg (nm_ni nm)))"
    "logic_size (nm_ni nm) = cap" "mtd_flags (nm_upper nm) = mtd_flags lower"
    "ni_writesize (nm_ni nm) = mtd_writesize lower" "ni_erasesize (nm_ni nm) = mtd_erasesize lower"
proof -
  obtain flags ratio blocks where cfg: "cfg = (flags, ratio, blocks)" by (cases cfg)
  show ?thesis
  proof (rule that)
    show run: "healthy (nm_ni nm) \<and> ni_lower (nm_ni nm) = nm_lower_device lower flags ratio blocks \<and>
        fit (nd_chip (ni_arg (nm_ni nm)))"
      using assms by (simp add: board_ok_def cfg)
    show "logic_size (nm_ni nm) = cap" "mtd_flags (nm_upper nm) = mtd_flags lower"
      using assms by (auto simp: board_ok_def)
    show "ni_writesize (nm_ni nm) = mtd_writesize lower" "ni_erasesize (nm_ni nm) = mtd_erasesize lower"
      using run by (simp_all add: nm_lower_device_def)
  qed
qed

lemma board_step:
  assumes "board_ok lower fit cfg cap nm"
    and "\<exists>d c. ni' = (nm_ni nm)\<lparr>ni_arg := d, ni_page_cache := c\<rparr> \<and> fit (nd_chip d) \<and>
      length c = length (ni_page_cache (nm_ni nm))"
  shows "board_ok lower fit cfg cap (nm\<lparr>nm_ni := ni'\<rparr>)"
  using assms by (auto simp: board_ok_def nm_ok_def intro: healthy_upd dest: healthyD(1) [OF healthy_upd])

context reliable_nand
begin

text \<open>The MTD calls on the device, then the board's functions over them.\<close>

lemma mtd_read_data:
  assumes "board_ok lower fit cfg cap nm" and "unat off + unat len \<le> cap" and "unat len \<le> length buf" and "len \<noteq> 0"
  obtains nm' where "board_ok lower fit cfg cap nm'" "nm_upper nm' = nm_upper nm"
    "board_content img nm' = board_content img nm"
    "mtd_read (nm_dev parts nm) nm off len (Some r) buf =
      Some (bitflip_result (nm_upper nm) 0, map (\<lambda>i. board_content img nm (unat off + i)) [0..<unat len] @ drop (unat len) buf, len, nm')"
proof -
  from assms(1) obtain flags ratio blocks where
    run: "healthy (nm_ni nm) \<and> ni_lower (nm_ni nm) = nm_lower_device lower flags ratio blocks \<and>
       fit (nd_chip (ni_arg (nm_ni nm)))"
    and cap: "logic_size (nm_ni nm) = cap"
    by (rule board_okE)
  have room: "unat off + unat len \<le> logic_size (nm_ni nm)" using assms(2) cap by metis
  have "unat off + unat (ucast len :: u64) \<le> cap" "(ucast len :: u64) \<noteq> 0"
    using assms(2,4) by (simp_all add: word_unat_eq_iff)
  note g = board_range [OF assms(1) this]
  from chip.nmbm_read_range_image [OF run room assms(4,3)] obtain ni' where
    n: "\<exists>d c. ni' = (nm_ni nm)\<lparr>ni_arg := d, ni_page_cache := c\<rparr> \<and> fit (nd_chip d) \<and>
      length c = length (ni_page_cache (nm_ni nm))"
    and im: "image_of (\<lambda>d. img (nd_chip d)) ni' = image_of (\<lambda>d. img (nd_chip d)) (nm_ni nm)"
    and rd: "nmbm_read_range (Some (nm_ni nm)) off len buf NMBM_MODE_PLACE_OOB =
      Some (0, image_bytes (\<lambda>d. img (nd_chip d)) (nm_ni nm) (unat off) (unat len) @ drop (unat len) buf, Some len, Some ni')"
    by blast
  show ?thesis
  proof (rule that [OF board_step [OF assms(1) n]])
    show "nm_upper (nm\<lparr>nm_ni := ni'\<rparr>) = nm_upper nm" by simp
    show "board_content img (nm\<lparr>nm_ni := ni'\<rparr>) = board_content img nm" using im by (simp add: board_content_def)
    show "mtd_read (nm_dev parts nm) nm off len (Some r) buf = Some (bitflip_result (nm_upper nm) 0,
        map (\<lambda>i. board_content img nm (unat off + i)) [0..<unat len] @ drop (unat len) buf, len, nm\<lparr>nm_ni := ni'\<rparr>)"
      using g rd assms(4)
      by (simp add: mtd_read_def nmbm_mtd_read_def bitflip_result_def not_less board_content_def image_bytes_def)
  qed
qed

lemma board_read:
  assumes "board_ok lower fit cfg cap nm" and "unat off + unat len \<le> cap" and "unat len \<le> length buf" and "len \<noteq> 0"
  shows "\<exists>nm'. mtk_board_flash_read (nm_dev parts nm) nm off len buf =
      Some (0, map (\<lambda>i. board_content img nm (unat off + i)) [0..<unat len] @ drop (unat len) buf, nm') \<and>
    board_ok lower fit cfg cap nm' \<and> board_content img nm' = board_content img nm"
  by (rule mtd_read_data [OF assms, of parts 0]) (auto simp: mtk_board_flash_read_def bitflip_result_def)

lemma board_try:
  assumes "board_ok lower fit cfg cap nm" and "unat len \<le> length buf"
  shows "returns (mtk_board_flash_read (nm_dev parts nm) nm off len buf) (\<lambda>(ret, buf', nm').
    length buf' = length buf \<and> board_ok lower fit cfg cap nm' \<and> board_content img nm' = board_content img nm)"
proof (cases "unat off + unat len \<le> cap \<and> len \<noteq> 0")
  case True
  with board_read [OF assms(1) _ assms(2), of off parts] assms(2) show ?thesis by (auto simp: returns_iff)
next
  case False
  have "unat (nm_size nm) = cap" using assms(1) by (simp add: board_ok_def)
  with False have "len = 0 \<or> off > nm_size nm \<or> ucast len > nm_size nm - off"
    by (cases "off \<le> nm_size nm") (auto simp: word_less_nat_alt word_le_nat_alt unat_sub not_less)
  with assms(1) show ?thesis by (auto simp: mtk_board_flash_read_def mtd_read_def)
qed

lemma mtd_write_data:
  assumes "board_ok lower fit cfg cap nm" and "unat off + unat len \<le> cap" and "unat len = length buf" and "len \<noteq> 0"
  obtains nm' where "mtd_write (nm_dev parts nm) nm off len (Some r) buf = Some (0, len, nm')" "board_ok lower fit cfg cap nm'"
    "\<forall>a < cap. written (unat (mtd_writesize lower)) (unat off) buf (board_content img nm) (board_content img nm') a"
proof -
  from assms(1) obtain flags ratio blocks where
    run: "healthy (nm_ni nm) \<and> ni_lower (nm_ni nm) = nm_lower_device lower flags ratio blocks \<and>
       fit (nd_chip (ni_arg (nm_ni nm)))"
    and cap: "logic_size (nm_ni nm) = cap" and fl: "mtd_flags (nm_upper nm) = mtd_flags lower"
    and ws: "ni_writesize (nm_ni nm) = mtd_writesize lower" and es: "ni_erasesize (nm_ni nm) = mtd_erasesize lower"
    by (rule board_okE)
  have room: "unat off + unat len \<le> logic_size (nm_ni nm)" using assms(2) cap by metis
  have "unat off + unat (ucast len :: u64) \<le> cap" "(ucast len :: u64) \<noteq> 0"
    using assms(2,4) by (simp_all add: word_unat_eq_iff)
  note g = board_range [OF assms(1) this]
  from chip.nmbm_write_range_image [OF run room assms(4), of buf] assms(3) obtain ni' where
    n: "\<exists>d c. ni' = (nm_ni nm)\<lparr>ni_arg := d, ni_page_cache := c\<rparr> \<and> fit (nd_chip d) \<and>
      length c = length (ni_page_cache (nm_ni nm))"
    and wr: "nmbm_write_range (Some (nm_ni nm)) off len buf NMBM_MODE_PLACE_OOB = Some (0, Some len, Some ni')"
    and im: "programmed (\<lambda>d. img (nd_chip d)) buf (unat off) (nm_ni nm) ni' (unat off + unat len) True"
    by auto
  have "mtd_write (nm_dev parts nm) nm off len (Some r) buf = Some (0, len, nm\<lparr>nm_ni := ni'\<rparr>)"
    using g wr assms(4) writeable fl by (simp add: mtd_write_def nmbm_mtd_write_def not_less)
  moreover have "\<forall>a < cap. written (unat (mtd_writesize lower)) (unat off) buf (board_content img nm)
      (board_content img (nm\<lparr>nm_ni := ni'\<rparr>)) a"
    using im unfolding programmed_def written_def cap ws by (simp add: board_content_def assms(3))
  ultimately show ?thesis using board_step [OF assms(1) n] by (intro that) auto
qed

lemma board_write:
  assumes "board_ok lower fit cfg cap nm" and "unat off + unat len \<le> cap" and "unat len = length buf" and "len \<noteq> 0"
  shows "\<exists>nm'. mtk_board_flash_write (nm_dev parts nm) nm off len buf = Some (0, nm') \<and> board_ok lower fit cfg cap nm' \<and>
    (\<forall>a < cap. written (unat (mtd_writesize lower)) (unat off) buf (board_content img nm) (board_content img nm') a)"
  by (rule mtd_write_data [OF assms, of parts 0]) (auto simp: mtk_board_flash_write_def)

lemma mtd_erase_data:
  assumes "board_ok lower fit cfg cap nm" and "unat (ei_addr instr) + unat (ei_len instr) \<le> cap" and "ei_len instr \<noteq> 0"
    and "parts = Partitions \<longrightarrow> ei_mtd instr \<noteq> None"
  obtains instr' nm' where "mtd_erase parts (nm_dev parts nm) nm instr = Some (0, instr', nm')"
    "ei_state instr' = MTD_ERASE_DONE" "board_ok lower fit cfg cap nm'"
    "\<forall>a < cap. blanked (unat (mtd_erasesize lower)) (unat (ei_addr instr)) (unat (ei_len instr))
       (board_content img nm) (board_content img nm') a"
proof -
  from assms(1) obtain flags ratio blocks where
    run: "healthy (nm_ni nm) \<and> ni_lower (nm_ni nm) = nm_lower_device lower flags ratio blocks \<and>
       fit (nd_chip (ni_arg (nm_ni nm)))"
    and cap: "logic_size (nm_ni nm) = cap" and fl: "mtd_flags (nm_upper nm) = mtd_flags lower"
    and ws: "ni_writesize (nm_ni nm) = mtd_writesize lower" and es: "ni_erasesize (nm_ni nm) = mtd_erasesize lower"
    by (rule board_okE)
  have room: "unat (ei_addr instr) + unat (ei_len instr) \<le> logic_size (nm_ni nm)" using assms(2) cap by metis
  note g = board_range [OF assms(1-3)]
  from chip.nmbm_erase_range_image [OF run room assms(3)] obtain ni' where
    n: "\<exists>d c. ni' = (nm_ni nm)\<lparr>ni_arg := d, ni_page_cache := c\<rparr> \<and> fit (nd_chip d) \<and>
      length c = length (ni_page_cache (nm_ni nm))"
    and er: "nmbm_erase_block_range (Some (nm_ni nm)) (ei_addr instr) (ei_len instr) = Some (0, None, Some ni')"
    and im: "\<forall>a < logic_size (nm_ni nm). image_of (\<lambda>d. img (nd_chip d)) ni' a =
      (if unat (ei_addr instr) div unat (ni_erasesize (nm_ni nm)) \<le> a div unat (ni_erasesize (nm_ni nm)) \<and>
          a div unat (ni_erasesize (nm_ni nm)) \<le> (unat (ei_addr instr) + unat (ei_len instr) - 1) div unat (ni_erasesize (nm_ni nm))
       then 0xff else image_of (\<lambda>d. img (nd_chip d)) (nm_ni nm) a)"
    by blast
  let ?instr = "instr\<lparr>ei_fail_addr := MTD_FAIL_ADDR_UNKNOWN, ei_state := MTD_ERASE_DONE\<rparr>"
  have "mtd_erase parts (nm_dev parts nm) nm instr = Some (0, ?instr, nm\<lparr>nm_ni := ni'\<rparr>)"
    using g er assms(3,4) writeable fl
    by (simp add: mtd_erase_def nmbm_mtd_erase_def mtd_erase_callback_def Let_def not_less)
  moreover have "\<forall>a < cap. blanked (unat (mtd_erasesize lower)) (unat (ei_addr instr)) (unat (ei_len instr)) (board_content img nm)
      (board_content img (nm\<lparr>nm_ni := ni'\<rparr>)) a"
    using im [unfolded cap, unfolded es] unfolding blanked_def by (simp add: board_content_def)
  ultimately show ?thesis using board_step [OF assms(1) n] by (intro that) auto
qed

lemma board_erase:
  assumes "board_ok lower fit cfg cap nm" and "unat off + unat len \<le> cap" and "len \<noteq> 0"
  shows "\<exists>nm'. mtk_board_flash_erase No_partitions (nm_dev No_partitions nm) nm off len = Some (0, nm') \<and> board_ok lower fit cfg cap nm' \<and>
    (\<forall>a < cap. blanked (unat (mtd_erasesize lower)) (unat off) (unat len) (board_content img nm) (board_content img nm') a)"
  by (rule mtd_erase_data [OF assms(1), of "erase_info_zero\<lparr>ei_addr := off, ei_len := len\<rparr>" No_partitions])
    (use assms(2,3) in \<open>auto simp: mtk_board_flash_erase_def erase_info_zero_def\<close>)

end

lemma board_flips: "board_ok lower fit cfg cap nm \<Longrightarrow> bitflip_result (nm_upper nm) x = bitflip_result lower x"
  by (simp add: board_ok_def bitflip_result_def)

lemma board_ok_nm_ok: "board_ok lower fit cfg cap nm \<Longrightarrow> nm_ok nm"
  by (simp add: board_ok_def)

sublocale reliable_nand \<subseteq> board: storage "nmbm_flash No_partitions" "board_ok lower fit cfg cap" "board_content img" cap
    "unat (mtd_erasesize lower)" "unat (mtd_writesize lower)"
  for cfg cap
proof (unfold_locales, goal_cases)
  case (1 s)
  then show ?case by (simp add: nmbm_flash_def mtk_board_get_flash_erase_size_def board_ok_def)
next
  case (2 s)
  then obtain flags ratio blocks where
    "healthy (nm_ni s) \<and> ni_lower (nm_ni s) = nm_lower_device lower flags ratio blocks \<and>
       fit (nd_chip (ni_arg (nm_ni s)))" and "logic_size (nm_ni s) = cap"
    "ni_writesize (nm_ni s) = mtd_writesize lower" "ni_erasesize (nm_ni s) = mtd_erasesize lower"
    by (rule board_okE)
  moreover have "cap < 2 ^ 64" using 2 unat_less_len [of "nm_size s"] by (simp add: board_ok_def)
  ultimately show ?case using healthyD(3-5) [of "nm_ni s"] by auto
next
  case (3 s len buf off)
  then show ?case using board_try [of cfg cap s len buf No_partitions off] by (simp add: nmbm_flash_def)
next
  case (4 s off len buf)
  then show ?case using board_read [of cfg cap s off len buf No_partitions] by (simp add: nmbm_flash_def)
next
  case (5 s off len buf)
  then show ?case using board_write [of cfg cap s off len buf No_partitions] by (simp add: nmbm_flash_def)
next
  case (6 s off elen)
  then show ?case using board_erase [of cfg cap s off elen] by (simp add: nmbm_flash_def)
qed

text \<open>The same as a fact that can be used outside the locale.\<close>

context reliable_nand
begin

lemma board_storage:
  "storage (nmbm_flash No_partitions) (board_ok lower fit cfg cap) (board_content img) cap
     (unat (mtd_erasesize lower)) (unat (mtd_writesize lower))"
  by (rule board.storage_axioms)

end

section \<open>The reference chip\<close>

text \<open>The reference chip under the MTD core is a reliable raw chip, also when its reads correct bit flips.\<close>

interpretation nand0: reliable_nand "sample_nand_mtd 2" chip_fit chip_byte
proof (unfold_locales, goal_cases)
  case (3 c addr ops buf)
  then obtain d' where "chip_fit d'" "chip_byte d' = chip_byte c"
    "sim_read_page c addr (Some buf) None NMBM_MODE_PLACE_OOB =
      (0, Some (map (\<lambda>i. chip_byte c (unat addr + i)) [0..<64]), None, d')"
    using chip.reads [of c addr buf] by auto
  then have "chip_fit d'" "chip_byte d' = chip_byte c" "chip_read_oob 2 c addr ops =
      (2, ops\<lparr>oo_datbuf := Some (map (\<lambda>i. chip_byte c (unat addr + i)) [0..<64]), oo_retlen := oo_retlen ops,
        oo_oobretlen := oo_oobretlen ops\<rparr>, d')"
    using 3 by (simp_all add: chip_read_oob_def)
  then show ?case
    by (intro exI [of _ "chip_read_oob 2"] exI [of _ d'] exI [of _ 2] exI [of _ "oo_retlen ops"]
        exI [of _ "oo_oobretlen ops"]) simp
next
  case (4 c addr ops data)
  then show ?case using chip.writes [of c addr data] by (auto simp: chip_write_oob_def)
next
  case (5 c ei)
  then show ?case using chip.erases [of c "ei_addr ei"] by (auto simp: sample_nand_mtd_def)
qed (simp_all add: sample_nand_mtd_def)

lemma sample_board_ok: "board_ok (sample_nand_mtd 2) chip_fit (1, 8, 0) 2048 (sample_nm 2 0)"
proof -
  have att: "attached (nm_ni (sample_nm 2 0))" by simp
  have "healthy (nm_ni (sample_nm 2 0))"
    using att sample_running(1)
    by (simp add: healthy_def sample_nm_def Let_def nmbm_instance.defs nm_lower_device_def)
  moreover have "ni_lower (nm_ni (sample_nm 2 0)) = nm_lower_device (sample_nand_mtd 2) 1 8 0"
    "chip_fit (nd_chip (ni_arg (nm_ni (sample_nm 2 0))))" "logic_size (nm_ni (sample_nm 2 0)) = 2048"
    "mtd_erasesize (nm_upper (sample_nm 2 0)) = 128" "mtd_flags (nm_upper (sample_nm 2 0)) = 0x400"
    "mtd_type (nm_upper (sample_nm 2 0)) = MTD_DEV_TYPE_NMBM" "mtd_name (nm_upper (sample_nm 2 0)) = ''nmbm0''"
    "nm_id (sample_nm 2 0) = 0" "mtd_ecc_strength (nm_upper (sample_nm 2 0)) = 4"
    "mtd_bitflip_threshold (nm_upper (sample_nm 2 0)) = 3"
    by (simp_all add: sample_nm_def Let_def nmbm_instance.defs upper_info_def nm_lower_device_def)
  ultimately show ?thesis by (simp add: board_ok_def)
qed

end
