(* ===== verification/Mtd_Parts.thy ===== *)
theory Mtd_Parts
  imports Prelude
begin

text \<open>
  Partitions by name. The partition table is kept by \<^verbatim>\<open>cmd/mtdparts.c\<close>, which is not modelled:
  \<open>parts_init\<close> is what \<^verbatim>\<open>mtdparts_init\<close> returns, \<open>parts_find\<close> what \<^verbatim>\<open>find_dev_and_part\<close> finds, an
  error or the partition's offset and size, and \<open>parts_id\<close> the type and number of the device the
  partition lies on.
\<close>

record part_table =
  parts_init :: int
  parts_find :: "string \<Rightarrow> int + u64 \<times> u64"
  parts_id :: "string \<Rightarrow> u8 \<times> u32"

definition get_mtd_part_info :: "part_table \<Rightarrow> string \<Rightarrow> int + u64 \<times> u64" where
  "get_mtd_part_info tab partname =
     (if parts_init tab \<noteq> 0 then Inl (parts_init tab) else parts_find tab partname)"

end
