(* ===== verification/Uimage.thy ===== *)
theory Uimage
  imports Crc32
begin

text \<open>
  The legacy image header (\<^verbatim>\<open>image_header_t\<close> of \<^verbatim>\<open>include/image.h\<close>) and its two checksums
  (\<^verbatim>\<open>common/image.c\<close>). A header is the 64 bytes it occupies; its words are big endian.

  The FIT format is handled by libfdt and the FIT library, which are not modelled: their
  answers about an image in memory are the record \<open>fit_ops\<close>.
\<close>

abbreviation (input) IH_MAGIC :: u32 where "IH_MAGIC \<equiv> 0x27051956"
abbreviation (input) sizeof_image_header :: nat where "sizeof_image_header \<equiv> 64"

definition be32 :: "nat \<Rightarrow> bytes \<Rightarrow> u32" where
  "be32 off bs = dec32 (rev (take 4 (drop off bs)))"

definition image_get_magic :: "bytes \<Rightarrow> u32" where "image_get_magic hdr = be32 0 hdr"
definition image_get_hcrc :: "bytes \<Rightarrow> u32" where "image_get_hcrc hdr = be32 4 hdr"
definition image_get_size :: "bytes \<Rightarrow> u32" where "image_get_size hdr = be32 12 hdr"
definition image_get_dcrc :: "bytes \<Rightarrow> u32" where "image_get_dcrc hdr = be32 24 hdr"

definition image_get_image_size :: "bytes \<Rightarrow> u32" where
  "image_get_image_size hdr = image_get_size hdr + of_nat sizeof_image_header"

text \<open>A header with its checksum field set to zero.\<close>

definition blank_hcrc :: "bytes \<Rightarrow> bytes" where
  "blank_hcrc hdr = take 4 hdr @ replicate 4 0 @ drop 8 hdr"

text \<open>Both checks look at memory from the (word-aligned) header on.\<close>

definition image_check_hcrc :: "bytes \<Rightarrow> bool option" where
  "image_check_hcrc mem = do {
     hdr \<leftarrow> mem_read 0 sizeof_image_header mem;
     Some (crc32 0 0 (blank_hcrc hdr) = image_get_hcrc hdr)
   }"

definition image_check_dcrc :: "bytes \<Rightarrow> bool option" where
  "image_check_dcrc mem = do {
     hdr \<leftarrow> mem_read 0 sizeof_image_header mem;
     data \<leftarrow> mem_read sizeof_image_header (unat (image_get_size hdr)) mem;
     Some (crc32 0 0 data = image_get_dcrc hdr)
   }"

datatype image_format = IMAGE_FORMAT_INVALID | IMAGE_FORMAT_LEGACY | IMAGE_FORMAT_FIT

text \<open>
  What the FIT code answers: whether memory starts with a flattened tree
  (\<^verbatim>\<open>fdt_check_header\<close>), whether it is a FIT image (\<^verbatim>\<open>fit_check_format\<close>) and whether all its
  images verify (\<^verbatim>\<open>fit_all_image_verify\<close>).
\<close>

record fit_ops =
  fdt_check_header :: "bytes \<Rightarrow> bool"
  fit_check_format :: "bytes \<Rightarrow> bool"
  fit_all_image_verify :: "bytes \<Rightarrow> bool"

definition genimg_get_format :: "fit_ops \<Rightarrow> bytes \<Rightarrow> image_format option" where
  "genimg_get_format fit mem = do {
     hdr \<leftarrow> mem_read 0 sizeof_image_header mem;
     Some (if image_get_magic hdr = IH_MAGIC then IMAGE_FORMAT_LEGACY
           else if fdt_check_header fit mem then IMAGE_FORMAT_FIT else IMAGE_FORMAT_INVALID)
   }"

text \<open>\<^verbatim>\<open>fdt_totalsize\<close>: the second word of a flattened tree.\<close>

definition fit_get_size :: "bytes \<Rightarrow> u32 option" where
  "fit_get_size mem = do { w \<leftarrow> mem_read 4 4 mem; Some (be32 0 w) }"

end
