(* ===== verification/Nmbm_Cmd.thy ===== *)
theory Nmbm_Cmd
  imports Board_Image Mtd_Parts Uimage Strto
begin

text \<open>
  The \<^verbatim>\<open>nmbm\<close> command (\<^verbatim>\<open>cmd/nmbm.c\<close>), with its arguments as the strings the command line gives.

  \<^item> Memory is a \<open>memory\<close>: the bytes from \<open>mem_base\<close> on. An access outside it faults.
  \<^item> The machine around the command is a \<open>host\<close>: the table of MTD devices, the list of NMBM
    devices, the partition table, the FIT code and the variable
    \<^verbatim>\<open>load_addr\<close>. A device's callbacks work on the state \<open>s\<close>.
  \<^item> A command returns a code, or enters \<^verbatim>\<open>bootm_maybe_autostart\<close> with a load address
    (\<open>Boot\<close>); starting the image is not modelled. Forms that print have no other effect.
\<close>

section \<open>Memory, host, results\<close>

record memory =
  mem_base :: u32
  mem_bytes :: bytes

definition mem_at :: "memory \<Rightarrow> u32 \<Rightarrow> nat option" where
  "mem_at mem addr = (if mem_base mem \<le> addr then Some (unat (addr - mem_base mem)) else None)"

definition mem_from :: "memory \<Rightarrow> u32 \<Rightarrow> bytes option" where
  "mem_from mem addr = do { p \<leftarrow> mem_at mem addr; Some (drop p (mem_bytes mem)) }"

definition mem_store :: "memory \<Rightarrow> u32 \<Rightarrow> bytes \<Rightarrow> memory option" where
  "mem_store mem addr data = do {
     p \<leftarrow> mem_at mem addr;
     bs \<leftarrow> mem_write p data (mem_bytes mem);
     Some (mem\<lparr>mem_bytes := bs\<rparr>)
   }"

record 's host =
  host_parts :: mtd_build
  host_mtds :: "'s \<Rightarrow> 's mtd_dev list"
  host_named :: "'s \<Rightarrow> string \<Rightarrow> bool"
  host_upper :: "'s \<Rightarrow> u32 \<Rightarrow> nat option"
  host_tab :: part_table
  host_fit :: fit_ops
  host_load_addr :: u32

datatype cmd_result = Ret int | Boot u32

abbreviation (input) CMD_RET_SUCCESS :: cmd_result where "CMD_RET_SUCCESS \<equiv> Ret 0"
abbreviation (input) CMD_RET_FAILURE :: cmd_result where "CMD_RET_FAILURE \<equiv> Ret 1"
abbreviation (input) CMD_RET_USAGE :: cmd_result where "CMD_RET_USAGE \<equiv> Ret (-1)"

text \<open>The host of a board with one NMBM device.\<close>

definition nmbm_host :: "mtd_build \<Rightarrow> part_table \<Rightarrow> fit_ops \<Rightarrow> u32 \<Rightarrow> 'c nmbm_mtd host" where
  "nmbm_host parts tab fit la = \<lparr>host_parts = parts, host_mtds = (\<lambda>nm. [nm_dev parts nm]),
     host_named = (\<lambda>nm name. nm_name nm = name),
     host_upper = (\<lambda>nm index. map_option (\<lambda>nm. mtd_ptr (nm_upper nm))
       (nmbm_mtd_get_upper_by_index \<lparr>nmbm_id_cnt = 1, nmbm_devs = [nm]\<rparr> index)),
     host_tab = tab, host_fit = fit, host_load_addr = la\<rparr>"

section \<open>The command\<close>

definition get_mtd_device_nm :: "'s mtd_dev list \<Rightarrow> string \<Rightarrow> 's mtd_dev option" where
  "get_mtd_device_nm mtds name = find (\<lambda>mtd. name = mtd_name mtd) mtds"

text \<open>
  The offset and the size, or the error. The end of the size is compared with the start of
  the offset's string, a different string: a size that is no number counts as 0.
\<close>

definition nmbm_parse_offset_size :: "'m mtd_info_scheme \<Rightarrow> string \<Rightarrow> string \<Rightarrow> int + u64 \<times> u64" where
  "nmbm_parse_offset_size mtd off_str size_str =
     (let (off, end) = simple_strtoull off_str 16 in
      if end = off_str then Inl (- EINVAL)
      else if off \<ge> mtd_size mtd then Inl (- EINVAL)
      else let (sz, _) = simple_strtoull size_str 16 in
      if off + sz > mtd_size mtd then Inl (- EINVAL) else Inr (off, sz))"

definition do_nmbm_erase :: "mtd_build \<Rightarrow> 's mtd_dev \<Rightarrow> 's \<Rightarrow> u64 \<Rightarrow> u64 \<Rightarrow> (cmd_result \<times> 's) option" where
  "do_nmbm_erase parts mtd s offset sz = do {
     (ret, _, s) \<leftarrow> mtd_erase parts mtd s
       (erase_info_zero\<lparr>ei_mtd := Some (mtd_ptr mtd), ei_addr := offset, ei_len := sz\<rparr>);
     Some (if ret = 0 then CMD_RET_SUCCESS else CMD_RET_FAILURE, s)
   }"

text \<open>\<^verbatim>\<open>mtd_read\<close> into memory.\<close>

definition mtd_load :: "'s mtd_dev \<Rightarrow> 's \<Rightarrow> memory \<Rightarrow> u32 \<Rightarrow> u64 \<Rightarrow> u32 \<Rightarrow> (int \<times> u32 \<times> memory \<times> 's) option" where
  "mtd_load mtd s mem addr offset sz = do {
     p \<leftarrow> mem_at mem addr;
     buf \<leftarrow> mem_read p (unat sz) (mem_bytes mem);
     (ret, buf, retlen, s) \<leftarrow> mtd_read mtd s offset sz (Some 0) buf;
     mem \<leftarrow> mem_store mem addr buf;
     Some (ret, retlen, mem, s)
   }"

definition do_nmbm_rw :: "bool \<Rightarrow> 's mtd_dev \<Rightarrow> 's \<Rightarrow> memory \<Rightarrow> u32 \<Rightarrow> u64 \<Rightarrow> u32 \<Rightarrow> (cmd_result \<times> memory \<times> 's) option" where
  "do_nmbm_rw rd mtd s mem addr offset sz =
     (if rd then do {
        (ret, _, mem, s) \<leftarrow> mtd_load mtd s mem addr offset sz;
        Some (if ret = 0 then CMD_RET_SUCCESS else CMD_RET_FAILURE, mem, s)
      } else do {
        p \<leftarrow> mem_at mem addr;
        buf \<leftarrow> mem_read p (unat sz) (mem_bytes mem);
        (ret, _, s) \<leftarrow> mtd_write mtd s offset sz (Some 0) buf;
        Some (if ret = 0 then CMD_RET_SUCCESS else CMD_RET_FAILURE, mem, s)
      })"

text \<open>A whole string that is a number, in the base its prefix tells.\<close>

definition whole_number :: "'a \<times> string \<Rightarrow> string \<Rightarrow> 'a option" where
  "whole_number parsed str = (if snd parsed \<noteq> [] \<or> snd parsed = str then None else Some (fst parsed))"

text \<open>Where the image starts: a number, or the offset of a partition of this device.\<close>

definition boot_offset :: "'s host \<Rightarrow> 's mtd_dev \<Rightarrow> 's \<Rightarrow> string \<Rightarrow> u64 option" where
  "boot_offset h mtd s arg =
     (case whole_number (simple_strtoull arg 0) arg of
        Some off \<Rightarrow> Some off
      | None \<Rightarrow>
          if parts_init (host_tab h) \<noteq> 0 then None
          else case parts_find (host_tab h) arg of
            Inl _ \<Rightarrow> None
          | Inr (part_offset, _) \<Rightarrow>
              if fst (parts_id (host_tab h) arg) \<noteq> MTD_DEV_TYPE_NMBM then None
              else if host_upper h s (snd (parts_id (host_tab h) arg)) \<noteq> Some (mtd_ptr mtd) then None
              else Some part_offset)"

definition do_nmbm_mtd_boot :: "'s host \<Rightarrow> 's mtd_dev \<Rightarrow> 's \<Rightarrow> memory \<Rightarrow> string list
    \<Rightarrow> (cmd_result \<times> memory \<times> 's) option" where
  "do_nmbm_mtd_boot h mtd s mem argv = do {
     arg0 \<leftarrow> arr_get argv 0;
     case (if length argv = 2
           then map_option (\<lambda>a. (a, argv ! 1)) (whole_number (simple_strtoul arg0 0) arg0)
           else Some (host_load_addr h, arg0)) of
       None \<Rightarrow> Some (CMD_RET_FAILURE, mem, s)
     | Some (loadaddr, arg) \<Rightarrow>
         (case boot_offset h mtd s arg of
            None \<Rightarrow> Some (CMD_RET_FAILURE, mem, s)
          | Some off \<Rightarrow> do {
              (ret, retlen, mem, s) \<leftarrow> mtd_load mtd s mem loadaddr off (of_nat sizeof_image_header);
              if ret \<noteq> 0 \<or> retlen \<noteq> of_nat sizeof_image_header then Some (CMD_RET_FAILURE, mem, s)
              else do {
                image \<leftarrow> mem_from mem loadaddr;
                format \<leftarrow> genimg_get_format (host_fit h) image;
                sz \<leftarrow> (case format of
                    IMAGE_FORMAT_LEGACY \<Rightarrow> Some (Some (image_get_image_size image))
                  | IMAGE_FORMAT_FIT \<Rightarrow> map_option Some (fit_get_size image)
                  | IMAGE_FORMAT_INVALID \<Rightarrow> Some None);
                case sz of
                  None \<Rightarrow> Some (CMD_RET_FAILURE, mem, s)
                | Some sz \<Rightarrow> do {
                    (ret, retlen, mem, s) \<leftarrow> mtd_load mtd s mem loadaddr off sz;
                    if ret \<noteq> 0 \<or> retlen \<noteq> sz then Some (CMD_RET_FAILURE, mem, s)
                    else Some (Boot loadaddr, mem, s)
                  }
              }
            })
   }"

text \<open>The forms that print fail for a name that is no NMBM device's.\<close>

definition nmbm_mtd_print :: "'s host \<Rightarrow> 's \<Rightarrow> string \<Rightarrow> int" where
  "nmbm_mtd_print h s name = (if host_named h s name then 0 else - ENODEV)"

definition do_nmbm :: "'s host \<Rightarrow> 's \<Rightarrow> memory \<Rightarrow> string list \<Rightarrow> (cmd_result \<times> memory \<times> 's) option" where
  "do_nmbm h s mem argv =
     (let argc = length argv; usage = Some (CMD_RET_USAGE, mem, s) in
      if argc \<le> 1 then usage
      else if argv ! 1 = ''list'' then Some (CMD_RET_SUCCESS, mem, s)
      else if argc < 3 then usage
      else if argv ! 2 \<in> {''info'', ''state'', ''bad''}
      then Some (if nmbm_mtd_print h s (argv ! 1) \<noteq> 0 then Ret 1 else Ret 0, mem, s)
      else if argv ! 2 = ''mapping'' then Some (Ret (nmbm_mtd_print h s (argv ! 1)), mem, s)
      else if argc < 4 then usage
      else case get_mtd_device_nm (host_mtds h s) (argv ! 1) of
        None \<Rightarrow> Some (CMD_RET_FAILURE, mem, s)
      | Some mtd \<Rightarrow>
          if mtd_type mtd \<noteq> MTD_DEV_TYPE_NMBM then Some (CMD_RET_FAILURE, mem, s)
          else if argv ! 2 = ''boot'' then do_nmbm_mtd_boot h mtd s mem (drop 3 argv)
          else if argc < 5 then usage
          else if argv ! 2 = ''erase'' then
            (case nmbm_parse_offset_size mtd (argv ! 3) (argv ! 4) of
               Inl _ \<Rightarrow> Some (CMD_RET_FAILURE, mem, s)
             | Inr (offset, sz) \<Rightarrow> do {
                 (ret, s) \<leftarrow> do_nmbm_erase (host_parts h) mtd s offset sz;
                 Some (ret, mem, s)
               })
          else if argc < 6 then usage
          else
            (case nmbm_parse_offset_size mtd (argv ! 4) (argv ! 5) of
               Inl _ \<Rightarrow> Some (CMD_RET_FAILURE, mem, s)
             | Inr (offset, sz) \<Rightarrow>
                 if sz > 0xffffffff then Some (Ret (- EINVAL), mem, s)
                 else let (addr, end) = simple_strtoul (argv ! 3) 16 in
                   if end = argv ! 3 then Some (Ret (- EINVAL), mem, s)
                   else if argv ! 2 = ''read'' then do_nmbm_rw True mtd s mem addr offset (ucast sz)
                   else if argv ! 2 = ''write'' then do_nmbm_rw False mtd s mem addr offset (ucast sz)
                   else usage))"

section \<open>The command on a device that works\<close>

lemma of_nat_unat_u64 [simp]: "(of_nat (unat (w :: u64)) :: u64) = w"
  by simp

definition mem_put :: "memory \<Rightarrow> nat \<Rightarrow> bytes \<Rightarrow> memory" where
  "mem_put mem p data = mem\<lparr>mem_bytes := take p (mem_bytes mem) @ data @ drop (p + length data) (mem_bytes mem)\<rparr>"

lemma mem_put_simps [simp]:
  "mem_base (mem_put mem p data) = mem_base mem" "mem_at (mem_put mem p data) addr = mem_at mem addr"
  "p + length data \<le> length (mem_bytes mem) \<Longrightarrow> length (mem_bytes (mem_put mem p data)) = length (mem_bytes mem)"
  "p \<le> length (mem_bytes mem) \<Longrightarrow> drop p (mem_bytes (mem_put mem p data)) = data @ drop (p + length data) (mem_bytes mem)"
  by (simp_all add: mem_put_def mem_at_def)

lemma mem_store_put:
  assumes "mem_at mem addr = Some p" and "p + length data \<le> length (mem_bytes mem)"
  shows "mem_store mem addr data = Some (mem_put mem p data)"
  using assms by (simp add: mem_store_def mem_write_def mem_put_def)

text \<open>The bytes of a flash.\<close>

abbreviation content_bytes :: "(nat \<Rightarrow> u8) \<Rightarrow> nat \<Rightarrow> nat \<Rightarrow> bytes" where
  "content_bytes c off n \<equiv> map (\<lambda>i. c (off + i)) [0..<n]"

context reliable_nand
begin

lemma board_mtd:
  assumes "board_ok lower fit cfg cap nm"
  shows "get_mtd_device_nm (host_mtds (nmbm_host parts tab ft la) nm) ''nmbm0'' = Some (nm_dev parts nm)"
    "mtd_type (nm_dev parts nm) = MTD_DEV_TYPE_NMBM"
  using assms by (simp_all add: get_mtd_device_nm_def nmbm_host_def board_ok_def nm_dev_def mtd_info.defs mtd_dev.defs)

lemma nmbm_args:
  assumes "board_ok lower fit cfg cap nm" and "unat off + unat sz \<le> cap" and "sz \<noteq> 0"
  shows "nmbm_parse_offset_size (nm_dev parts nm) (hex_arg (unat off)) (hex_arg (unat sz)) = Inr (off, sz)"
proof -
  have size: "unat (nm_size nm) = cap" using assms(1) by (simp add: board_ok_def)
  have "0 < unat sz" using assms(3) by (simp add: unat_gt_0)
  then have "\<not> off \<ge> nm_size nm" using assms(2) size by (simp add: word_le_nat_alt)
  moreover have "\<not> off + sz > nm_size nm" using board_range(4) [OF assms] by simp
  ultimately show ?thesis by (simp add: nmbm_parse_offset_size_def)
qed

lemma do_nmbm_erases:
  assumes "board_ok lower fit cfg cap nm" and "unat (off :: u64) + unat (sz :: u64) \<le> cap" and "sz \<noteq> 0"
  obtains nm' where "do_nmbm (nmbm_host parts tab ft la) nm mem [''nmbm'', ''nmbm0'', ''erase'', hex_arg (unat off), hex_arg (unat sz)] =
      Some (CMD_RET_SUCCESS, mem, nm')"
    "board_ok lower fit cfg cap nm'"
    "\<forall>a < cap. blanked (unat (mtd_erasesize lower)) (unat off) (unat sz) (board_content img nm) (board_content img nm') a"
proof -
  let ?ei = "erase_info_zero\<lparr>ei_mtd := Some (mtd_ptr (nm_dev parts nm)), ei_addr := off, ei_len := sz\<rparr>"
  obtain instr' nm' where "mtd_erase parts (nm_dev parts nm) nm ?ei = Some (0, instr', nm')" "board_ok lower fit cfg cap nm'"
    "\<forall>a < cap. blanked (unat (mtd_erasesize lower)) (unat off) (unat sz) (board_content img nm) (board_content img nm') a"
    by (rule mtd_erase_data [OF assms(1), of ?ei parts]) (use assms(2,3) in auto)
  then show ?thesis
    using nmbm_args [OF assms, of parts] board_mtd(1) [OF assms(1), of parts tab ft la] board_mtd(2) [OF assms(1), of parts]
    by (intro that [of nm']) (simp_all add: do_nmbm_def do_nmbm_erase_def nmbm_host_def)
qed

lemma u32_size:
  assumes "unat (sz :: u64) < 2 ^ 32" and "sz \<noteq> 0"
  shows "unat (ucast sz :: u32) = unat sz" "ucast sz \<noteq> (0 :: u32)" "\<not> sz > 0xffffffff"
  using assms by (auto simp: unat_ucast_u32 word_unat_eq_iff word_less_nat_alt)

lemma do_nmbm_writes:
  assumes "board_ok lower fit cfg cap nm" and "unat (off :: u64) + unat (sz :: u64) \<le> cap" and "sz \<noteq> 0" and "unat sz < 2 ^ 32"
    and "mem_at mem addr = Some p" and "p + unat sz \<le> length (mem_bytes mem)"
  obtains nm' where "do_nmbm (nmbm_host parts tab ft la) nm mem
      [''nmbm'', ''nmbm0'', ''write'', hex_arg (unat addr), hex_arg (unat off), hex_arg (unat sz)] = Some (CMD_RET_SUCCESS, mem, nm')"
    "board_ok lower fit cfg cap nm'"
    "\<forall>a < cap. written (unat (mtd_writesize lower)) (unat off) (take (unat sz) (drop p (mem_bytes mem)))
       (board_content img nm) (board_content img nm') a"
proof -
  note sz = u32_size [OF assms(4,3)]
  let ?data = "take (unat sz) (drop p (mem_bytes mem))"
  have "unat off + unat (ucast sz :: u32) \<le> cap" "unat (ucast sz :: u32) = length ?data"
    using assms(2,6) sz by simp_all
  then obtain nm' where "board_ok lower fit cfg cap nm'"
    "\<forall>a < cap. written (unat (mtd_writesize lower)) (unat off) ?data (board_content img nm) (board_content img nm') a"
    "mtd_write (nm_dev parts nm) nm off (ucast sz) (Some 0) ?data = Some (0, ucast sz, nm')"
    using mtd_write_data [OF assms(1) _ _ sz(2), of off ?data parts 0] by blast
  then show ?thesis
    using nmbm_args [OF assms(1-3), of parts] board_mtd(1) [OF assms(1), of parts tab ft la] board_mtd(2) [OF assms(1), of parts] sz assms(5,6)
    by (intro that [of nm']) (simp_all add: do_nmbm_def do_nmbm_rw_def mem_read_def nmbm_host_def)
qed

lemma mtd_load_data:
  assumes "board_ok lower fit cfg cap nm" and "unat off + unat (sz :: u32) \<le> cap" and "sz \<noteq> 0"
    and "mem_at mem addr = Some p" and "p + unat sz \<le> length (mem_bytes mem)"
  obtains nm' where "mtd_load (nm_dev parts nm) nm mem addr off sz = Some (bitflip_result (nm_upper nm) 0, sz,
      mem_put mem p (content_bytes (board_content img nm) (unat off) (unat sz)), nm')"
    "board_ok lower fit cfg cap nm'" "nm_upper nm' = nm_upper nm" "board_content img nm' = board_content img nm"
proof -
  let ?buf = "take (unat sz) (drop p (mem_bytes mem))"
  have "unat sz \<le> length ?buf" using assms(5) by simp
  from mtd_read_data [OF assms(1,2) this assms(3), of parts 0] obtain nm' where
    "board_ok lower fit cfg cap nm'" "nm_upper nm' = nm_upper nm" "board_content img nm' = board_content img nm"
    "mtd_read (nm_dev parts nm) nm off sz (Some 0) ?buf = Some (bitflip_result (nm_upper nm) 0,
      content_bytes (board_content img nm) (unat off) (unat sz) @ drop (unat sz) ?buf, sz, nm')" by blast
  then show ?thesis
    using assms(4,5) by (intro that [of nm']) (simp_all add: mtd_load_def mem_read_def mem_store_put)
qed

lemma do_nmbm_reads:
  assumes "board_ok lower fit cfg cap nm" and "unat (off :: u64) + unat (sz :: u64) \<le> cap" and "sz \<noteq> 0" and "unat sz < 2 ^ 32"
    and "mem_at mem addr = Some p" and "p + unat sz \<le> length (mem_bytes mem)"
  obtains ret nm' where "do_nmbm (nmbm_host parts tab ft la) nm mem
      [''nmbm'', ''nmbm0'', ''read'', hex_arg (unat addr), hex_arg (unat off), hex_arg (unat sz)] =
      Some (ret, mem_put mem p (content_bytes (board_content img nm) (unat off) (unat sz)), nm')"
    "board_ok lower fit cfg cap nm'" "board_content img nm' = board_content img nm"
proof -
  note sz = u32_size [OF assms(4,3)]
  have "unat off + unat (ucast sz :: u32) \<le> cap" "p + unat (ucast sz :: u32) \<le> length (mem_bytes mem)"
    using assms(2,6) sz by simp_all
  from mtd_load_data [OF assms(1) this(1) sz(2) assms(5) this(2), of parts, unfolded sz(1)] obtain nm' where
    l: "mtd_load (nm_dev parts nm) nm mem addr off (ucast sz) = Some (bitflip_result (nm_upper nm) 0, ucast sz,
      mem_put mem p (content_bytes (board_content img nm) (unat off) (unat sz)), nm')"
    and ok: "board_ok lower fit cfg cap nm'" "board_content img nm' = board_content img nm" by blast
  show ?thesis
    using nmbm_args [OF assms(1-3), of parts] board_mtd(1) [OF assms(1), of parts tab ft la] board_mtd(2) [OF assms(1), of parts] sz l
    by (intro that [OF _ ok, of "if bitflip_result (nm_upper nm) 0 = 0 then CMD_RET_SUCCESS else CMD_RET_FAILURE"])
      (simp add: do_nmbm_def do_nmbm_rw_def nmbm_host_def)
qed

end

text \<open>
  An image in the bytes \<open>bs\<close> that the boot form recognises whatever lies behind it: a legacy
  header, or the start of a flattened tree; \<open>sz\<close> is the size its header gives.
\<close>

definition bootable :: "fit_ops \<Rightarrow> bytes \<Rightarrow> u32 \<Rightarrow> bool" where
  "bootable ft hdr sz \<longleftrightarrow> length hdr = sizeof_image_header \<and>
     (if image_get_magic hdr = IH_MAGIC then sz = image_get_image_size hdr
      else (\<forall>rest. fdt_check_header ft (hdr @ rest)) \<and> sz = be32 4 hdr)"

lemma image_fields [simp]:
  "length hdr = sizeof_image_header \<Longrightarrow> image_get_magic (hdr @ rest) = image_get_magic hdr"
  "length hdr = sizeof_image_header \<Longrightarrow> image_get_image_size (hdr @ rest) = image_get_image_size hdr"
  by (simp_all add: image_get_magic_def image_get_image_size_def image_get_size_def be32_def)

lemma bootable_format:
  assumes "bootable ft hdr sz"
  shows "do { format \<leftarrow> genimg_get_format ft (hdr @ rest);
      case format of
        IMAGE_FORMAT_LEGACY \<Rightarrow> Some (Some (image_get_image_size (hdr @ rest)))
      | IMAGE_FORMAT_FIT \<Rightarrow> map_option Some (fit_get_size (hdr @ rest))
      | IMAGE_FORMAT_INVALID \<Rightarrow> Some None } = Some (Some sz)"
  using assms
  by (simp add: bootable_def genimg_get_format_def mem_read_def fit_get_size_def be32_def)

context reliable_nand
begin

lemma nmbm_boots:
  assumes "board_ok lower fit cfg cap nm" and "bitflip_result lower 0 = 0"
    and "mem_at mem la = Some p" and "boot_offset (nmbm_host parts tab ft la) (nm_dev parts nm) nm arg = Some off"
    and "bootable ft (content_bytes (board_content img nm) (unat off) sizeof_image_header) sz" and "sz \<noteq> 0"
    and "unat off + unat sz \<le> cap" and "unat off + sizeof_image_header \<le> cap"
    and "p + unat sz \<le> length (mem_bytes mem)" and "p + sizeof_image_header \<le> length (mem_bytes mem)"
  obtains mem' nm' where "do_nmbm (nmbm_host parts tab ft la) nm mem [''nmbm'', ''nmbm0'', ''boot'', arg] = Some (Boot la, mem', nm')"
    "take (unat sz) (drop p (mem_bytes mem')) = content_bytes (board_content img nm) (unat off) (unat sz)"
    "board_ok lower fit cfg cap nm'" "board_content img nm' = board_content img nm"
proof -
  let ?c = "board_content img nm"
  let ?hdr = "content_bytes ?c (unat off) sizeof_image_header" and ?h = "of_nat sizeof_image_header :: u32"
  let ?mem = "mem_put mem p ?hdr"
  have flips: "bitflip_result (nm_upper nm) 0 = 0" using board_flips [OF assms(1)] assms(2) by simp
  have 1: "unat off + unat ?h \<le> cap" "?h \<noteq> 0" "p + unat ?h \<le> length (mem_bytes mem)" using assms(8,10) by simp_all
  obtain nm1 where l1: "mtd_load (nm_dev parts nm) nm mem la off ?h = Some (0, ?h, ?mem, nm1)"
    and ok1: "board_ok lower fit cfg cap nm1" and up1: "nm_upper nm1 = nm_upper nm" and c1: "board_content img nm1 = ?c"
    by (rule mtd_load_data [OF assms(1) 1(1,2) assms(3) 1(3), of parts]) (use flips in simp)
  have mem: "mem_at ?mem la = Some p" "p + unat sz \<le> length (mem_bytes ?mem)" using assms(3,9,10) by simp_all
  obtain nm2 where l2: "mtd_load (nm_dev parts nm1) nm1 ?mem la off sz = Some (0, sz, mem_put ?mem p (content_bytes ?c (unat off) (unat sz)), nm2)"
    and ok2: "board_ok lower fit cfg cap nm2" and c2: "board_content img nm2 = ?c"
    by (rule mtd_load_data [OF ok1 assms(7,6) mem, of parts]) (use flips up1 c1 in simp)
  have dev: "nm_dev parts nm1 = nm_dev parts nm" using up1 by (simp add: nm_dev_def)
  have img: "mem_from ?mem la = Some (?hdr @ drop (p + sizeof_image_header) (mem_bytes mem))"
    using assms(3,10) mem by (simp add: mem_from_def)
  note fmt = bootable_format [OF assms(5), of "drop (p + sizeof_image_header) (mem_bytes mem)"]
  have "do_nmbm_mtd_boot (nmbm_host parts tab ft la) (nm_dev parts nm) nm mem [arg] =
      Some (Boot la, mem_put ?mem p (content_bytes ?c (unat off) (unat sz)), nm2)"
    using assms(4) l1 l2 img fmt dev
    by (auto simp: do_nmbm_mtd_boot_def arr_get_def nmbm_host_def split: bind_splits)
  then have b: "do_nmbm (nmbm_host parts tab ft la) nm mem [''nmbm'', ''nmbm0'', ''boot'', arg] =
      Some (Boot la, mem_put ?mem p (content_bytes ?c (unat off) (unat sz)), nm2)"
    using board_mtd(1) [OF assms(1), of parts tab ft la] board_mtd(2) [OF assms(1), of parts] by (simp add: do_nmbm_def)
  show ?thesis
    by (rule that [OF b _ ok2 c2]) (use mem(2) in simp)
qed

end

end
