(* ===== verification/Boot_Config.thy ===== *)
theory Boot_Config
  imports Nmbm_Cmd
begin

text \<open>
  The boot configuration (\<^verbatim>\<open>board/ralink/common/zyxel_util.c\<close>, \<^verbatim>\<open>include/zyxel_util.h\<close>): which of the
  two images is booted, and the state of each, packed into two bytes at the start of a flash
  area of its own.

  \<^item> \<open>dualImageInfo\<close> is the global \<^verbatim>\<open>dualIMAGE\<close>. An \<^verbatim>\<open>int\<close> or \<^verbatim>\<open>enum\<close> is an \<open>int\<close>.
  \<^item> \<^verbatim>\<open>char\<close> is signed; the bytes of the configuration are read through \<open>sint\<close> and stored
    truncated to eight bits.
  \<^item> The command lines that \<^verbatim>\<open>run_command\<close> is given are calls of \<open>do_nmbm\<close> with the same words
    (numbers printed by \<^verbatim>\<open>0x%x\<close>) and, for \<^verbatim>\<open>mw.b\<close>, stores to memory. Their results are ignored.
  \<^item> The area is a parameter \<open>(load, off, sz)\<close>, where it is loaded to, its offset and its size;
    \<open>bootconfig_area\<close> is the one the header file names.
\<close>

section \<open>The state\<close>

abbreviation (input) NUMOFIMAGE :: nat where "NUMOFIMAGE \<equiv> 2"
abbreviation (input) DUALIMAGE_IMGSTATE_MASK :: nat where "DUALIMAGE_IMGSTATE_MASK \<equiv> 0xc"
abbreviation (input) DUALIMAGE_IMGLOG_MASK :: nat where "DUALIMAGE_IMGLOG_MASK \<equiv> 0x2"
abbreviation (input) BOOTIMAGE_IMAGE_MASK :: nat where "BOOTIMAGE_IMAGE_MASK \<equiv> 0x1"
abbreviation (input) NEW_IMAGE :: int where "NEW_IMAGE \<equiv> 1"
abbreviation (input) SUCCESS_IMAGE :: int where "SUCCESS_IMAGE \<equiv> 2"
abbreviation (input) FAIL_IMAGE :: int where "FAIL_IMAGE \<equiv> 3"

definition bootconfig_area :: "u32 \<times> u32 \<times> u32" where
  "bootconfig_area = (0x8ff00000, 0x7700000, 0x20000)"

record ImageInfo =
  img_state :: int
  img_log :: int
  img_age :: u32

record dualImageInfo =
  bootImage :: int
  upgradeImage :: int
  images :: "ImageInfo list"

text \<open>\<^verbatim>\<open>sizeof(struct dualImageInfo)\<close>: two integers and twelve bytes an image.\<close>

abbreviation (input) sizeof_dualImageInfo :: nat where "sizeof_dualImageInfo \<equiv> 32"

section \<open>Packing and unpacking\<close>

text \<open>
  \<^verbatim>\<open>posOfStartbit(b, n, m)\<close>: the position of the lowest set bit of a mask, and the run of ones
  from there on, moved down to bit 0.
\<close>

fun start_bit :: "nat \<Rightarrow> nat" where
  "start_bit b = (if b = 0 \<or> odd b then 0 else Suc (start_bit (b div 2)))"

fun run_length :: "nat \<Rightarrow> nat" where
  "run_length b = (if b = 0 \<or> even b then 0 else Suc (run_length (b div 2)))"

definition posOfStartbit :: "nat \<Rightarrow> nat \<times> int" where
  "posOfStartbit b = (start_bit b, 2 ^ run_length (b div 2 ^ start_bit b) - 1)"

text \<open>One image's fields of the \<^verbatim>\<open>char\<close> in \<^verbatim>\<open>data\<close>.\<close>

definition unpack_image :: "int \<Rightarrow> ImageInfo \<Rightarrow> ImageInfo" where
  "unpack_image data im =
     (let (sn, sm) = posOfStartbit DUALIMAGE_IMGSTATE_MASK;
          (ln, lm) = posOfStartbit DUALIMAGE_IMGLOG_MASK
      in im\<lparr>img_state := drop_bit sn data AND sm, img_log := drop_bit ln data AND lm\<rparr>)"

definition pack_image :: "ImageInfo \<Rightarrow> u8" where
  "pack_image im =
     (let (sn, sm) = posOfStartbit DUALIMAGE_IMGSTATE_MASK;
          (ln, lm) = posOfStartbit DUALIMAGE_IMGLOG_MASK
      in word_of_int (push_bit sn (img_state im AND sm)) OR word_of_int (push_bit ln (img_log im AND lm)))"

text \<open>
  The loops over the bytes, two images a byte, from the last pair down (\<^verbatim>\<open>num\<close> counts the
  pairs left). Unpacking faults when the bytes run out.
\<close>

fun unpack_images :: "nat \<Rightarrow> bytes \<Rightarrow> ImageInfo list \<Rightarrow> (ImageInfo list \<times> bytes) option" where
  "unpack_images 0 bs ims = Some (ims, bs)"
| "unpack_images (Suc num) [] ims = None"
| "unpack_images (Suc num) (b # bs) ims = do {
     let arr = num * 2;
     ims \<leftarrow> (if arr \<noteq> NUMOFIMAGE - 1 then do {
         im \<leftarrow> arr_get ims (arr + 1);
         arr_set ims (arr + 1) (unpack_image (drop_bit 4 (sint b)) im)
       } else Some ims);
     im \<leftarrow> arr_get ims arr;
     ims \<leftarrow> arr_set ims arr (unpack_image (sint b) im);
     unpack_images num bs ims
   }"

fun pack_images :: "nat \<Rightarrow> ImageInfo list \<Rightarrow> bytes option" where
  "pack_images 0 ims = Some []"
| "pack_images (Suc num) ims = do {
     let arr = num * 2;
     hi \<leftarrow> (if arr \<noteq> NUMOFIMAGE - 1 then do {
         im \<leftarrow> arr_get ims (arr + 1);
         Some (push_bit 4 (pack_image im))
       } else Some 0);
     im \<leftarrow> arr_get ims arr;
     bs \<leftarrow> pack_images num ims;
     Some ((hi OR pack_image im) # bs)
   }"

text \<open>\<^verbatim>\<open>NUMOFIMAGE / 2\<close>, plus one when the number is odd.\<close>

abbreviation (input) num_pairs :: nat where "num_pairs \<equiv> NUMOFIMAGE div 2 + NUMOFIMAGE mod 2"

definition unpack_bootconfig :: "bytes \<Rightarrow> dualImageInfo \<Rightarrow> dualImageInfo option" where
  "unpack_bootconfig bs dual = do {
     (ims, bs) \<leftarrow> unpack_images num_pairs bs (images dual);
     b \<leftarrow> arr_get bs 0;
     let (bn, bm) = posOfStartbit BOOTIMAGE_IMAGE_MASK;
     let boot = drop_bit bn (sint b) AND bm;
     Some (dual\<lparr>images := ims, bootImage := boot,
       upgradeImage := ((boot + 1) mod int NUMOFIMAGE) AND int BOOTIMAGE_IMAGE_MASK\<rparr>)
   }"

text \<open>The array \<^verbatim>\<open>bootconfig\<close>, zeroed but for the packed bytes.\<close>

definition pack_bootconfig :: "dualImageInfo \<Rightarrow> bytes option" where
  "pack_bootconfig dual = do {
     bs \<leftarrow> pack_images num_pairs (images dual);
     let (bn, bm) = posOfStartbit BOOTIMAGE_IMAGE_MASK;
     let bs = bs @ [word_of_int (push_bit bn (bootImage dual AND bm))];
     Some (bs @ replicate (sizeof_dualImageInfo - length bs) 0)
   }"

section \<open>Loading, saving, choosing\<close>

definition dumpDualImageInfoFromBootconfig :: "'s host \<Rightarrow> u32 \<times> u32 \<times> u32 \<Rightarrow> 's \<Rightarrow> memory \<Rightarrow> dualImageInfo
    \<Rightarrow> (dualImageInfo \<times> memory \<times> 's) option" where
  "dumpDualImageInfoFromBootconfig h area s mem dual = (case area of (load, off, sz) \<Rightarrow> do {
     (_, mem, s) \<leftarrow> do_nmbm h s mem
       [''nmbm'', ''nmbm0'', ''read'', hex_arg (unat load), hex_arg (unat off), hex_arg (unat sz)];
     bs \<leftarrow> mem_from mem load;
     dual \<leftarrow> unpack_bootconfig bs dual;
     Some (dual, mem, s)
   })"

definition writeDualImageInfoToBootconfig :: "'s host \<Rightarrow> u32 \<times> u32 \<times> u32 \<Rightarrow> 's \<Rightarrow> memory \<Rightarrow> dualImageInfo
    \<Rightarrow> (memory \<times> 's) option" where
  "writeDualImageInfoToBootconfig h area s mem dual = (case area of (load, off, sz) \<Rightarrow> do {
     bs \<leftarrow> pack_bootconfig dual;
     mem \<leftarrow> mem_store mem load bs;
     (_, mem, s) \<leftarrow> do_nmbm h s mem [''nmbm'', ''nmbm0'', ''erase'', hex_arg (unat off), hex_arg (unat sz)];
     (_, mem, s) \<leftarrow> do_nmbm h s mem
       [''nmbm'', ''nmbm0'', ''write'', hex_arg (unat load), hex_arg (unat off), hex_arg (unat sz)];
     Some (mem, s)
   })"

definition setImageState :: "nat \<Rightarrow> int \<Rightarrow> dualImageInfo \<Rightarrow> dualImageInfo option" where
  "setImageState n st dual = do {
     im \<leftarrow> arr_get (images dual) n;
     ims \<leftarrow> arr_set (images dual) n (im\<lparr>img_state := st\<rparr>);
     Some (dual\<lparr>images := ims\<rparr>)
   }"

definition setImageLog :: "nat \<Rightarrow> int \<Rightarrow> dualImageInfo \<Rightarrow> dualImageInfo option" where
  "setImageLog n lg dual = do {
     im \<leftarrow> arr_get (images dual) n;
     ims \<leftarrow> arr_set (images dual) n (im\<lparr>img_log := lg\<rparr>);
     Some (dual\<lparr>images := ims\<rparr>)
   }"

definition setBootImageNum :: "int \<Rightarrow> dualImageInfo \<Rightarrow> dualImageInfo" where
  "setBootImageNum n dual = dual\<lparr>bootImage := n\<rparr>"

definition setUpgradeImageNum :: "int \<Rightarrow> dualImageInfo \<Rightarrow> dualImageInfo" where
  "setUpgradeImageNum n dual = dual\<lparr>upgradeImage := n\<rparr>"

definition getBootImageNum :: "dualImageInfo \<Rightarrow> int" where "getBootImageNum dual = bootImage dual"
definition getUpgradeImageNum :: "dualImageInfo \<Rightarrow> int" where "getUpgradeImageNum dual = upgradeImage dual"

text \<open>The loop of \<open>checkHaveNewImage\<close>: the first image from \<open>n\<close> on that is new, or \<open>NUMOFIMAGE\<close>.\<close>

function first_new :: "nat \<Rightarrow> ImageInfo list \<Rightarrow> nat option" where
  "first_new n ims = (if n < NUMOFIMAGE then do {
      im \<leftarrow> arr_get ims n;
      if img_state im = NEW_IMAGE then Some n else first_new (n + 1) ims
    } else Some n)"
  by auto

termination first_new
  by (relation "measure (\<lambda>(n, ims). NUMOFIMAGE - n)") auto

declare start_bit.simps [simp del] run_length.simps [simp del] first_new.simps [simp del]

definition checkHaveNewImage :: "'s host \<Rightarrow> u32 \<times> u32 \<times> u32 \<Rightarrow> 's \<Rightarrow> memory \<Rightarrow> dualImageInfo
    \<Rightarrow> (int \<times> dualImageInfo \<times> memory \<times> 's) option" where
  "checkHaveNewImage h area s mem dual = do {
     n \<leftarrow> first_new 0 (images dual);
     if n < NUMOFIMAGE then do {
       dual \<leftarrow> setImageState n FAIL_IMAGE dual;
       (mem, s) \<leftarrow> writeDualImageInfoToBootconfig h area s mem dual;
       Some (int n, dual, mem, s)
     }
     else Some (getBootImageNum dual, dual, mem, s)
   }"

section \<open>Packing and unpacking are inverse\<close>

text \<open>A configuration whose fields fit: two images with two-bit states and one-bit logs.\<close>

definition dual_fits :: "dualImageInfo \<Rightarrow> bool" where
  "dual_fits dual \<longleftrightarrow> length (images dual) = NUMOFIMAGE \<and> bootImage dual \<in> {0, 1} \<and>
     (\<forall>im \<in> set (images dual). img_state im \<in> {0..3} \<and> img_log im \<in> {0, 1})"

lemma masks [simp]:
  "posOfStartbit DUALIMAGE_IMGSTATE_MASK = (2, 3)" "posOfStartbit DUALIMAGE_IMGLOG_MASK = (1, 1)"
  "posOfStartbit BOOTIMAGE_IMAGE_MASK = (0, 1)" "posOfStartbit (Suc 0) = (0, 1)"
  by (simp_all add: posOfStartbit_def start_bit.simps run_length.simps)

definition byte_fields :: "u8 \<Rightarrow> (int \<times> int) \<times> (int \<times> int)" where
  "byte_fields b = ((drop_bit 2 (sint b) AND 3, drop_bit 1 (sint b) AND 1),
     (drop_bit 2 (drop_bit 4 (sint b)) AND 3, drop_bit 1 (drop_bit 4 (sint b)) AND 1))"

definition fields_byte :: "int \<Rightarrow> int \<Rightarrow> u8" where
  "fields_byte st lg = word_of_int (push_bit 2 (st AND 3)) OR word_of_int (push_bit 1 (lg AND 1))"

lemma byte_fields_table:
  "\<forall>s1 \<in> set [0, 1, 2, 3]. \<forall>l1 \<in> set [0, 1]. \<forall>s0 \<in> set [0, 1, 2, 3]. \<forall>l0 \<in> set [0, 1].
     byte_fields (push_bit 4 (fields_byte s1 l1) OR fields_byte s0 l0) = ((s0, l0), (s1, l1))"
  by code_simp

lemma pack_image_eq: "pack_image im = fields_byte (img_state im) (img_log im)"
  by (simp add: pack_image_def fields_byte_def)

lemma unpack_image_eq: "unpack_image data im = im\<lparr>img_state := drop_bit 2 data AND 3, img_log := drop_bit 1 data AND 1\<rparr>"
  by (simp add: unpack_image_def)

lemma sint_bit0: "x \<in> {0, 1} \<Longrightarrow> sint (word_of_int (x AND 1) :: u8) AND 1 = x"
  by auto

text \<open>What unpacking the packed configuration \<open>d\<close> makes of any two-image state \<open>d0\<close>: only the ages stay.\<close>

definition loaded :: "dualImageInfo \<Rightarrow> dualImageInfo \<Rightarrow> dualImageInfo" where
  "loaded d d0 = d0\<lparr>images := map2 (\<lambda>im im0. im0\<lparr>img_state := img_state im, img_log := img_log im\<rparr>) (images d) (images d0),
     bootImage := bootImage d, upgradeImage := 1 - bootImage d\<rparr>"

lemma unpack_pack:
  assumes "dual_fits d" and "length (images d0) = NUMOFIMAGE"
  obtains bs where "pack_bootconfig d = Some bs" "length bs = sizeof_dualImageInfo"
    "\<And>rest. unpack_bootconfig (bs @ rest) d0 = Some (loaded d d0)"
proof -
  obtain a b where ab: "images d = [a, b]" using assms(1) by (auto simp: dual_fits_def numeral_2_eq_2 length_Suc_conv)
  obtain a0 b0 where ab0: "images d0 = [a0, b0]" using assms(2) by (auto simp: numeral_2_eq_2 length_Suc_conv)
  have r: "img_state a \<in> set [0, 1, 2, 3]" "img_log a \<in> set [0, 1]" "img_state b \<in> set [0, 1, 2, 3]" "img_log b \<in> set [0, 1]"
    and boot: "bootImage d \<in> {0, 1}"
    using assms(1) by (auto simp: dual_fits_def ab)
  let ?b = "push_bit 4 (pack_image b) OR pack_image a" and ?c = "word_of_int (bootImage d AND 1) :: u8"
  have f: "byte_fields ?b = ((img_state a, img_log a), (img_state b, img_log b))"
    using byte_fields_table r unfolding pack_image_eq by blast
  have p: "pack_bootconfig d = Some ([?b, ?c] @ replicate 30 0)"
    by (simp add: pack_bootconfig_def ab arr_get_def)
  have "unpack_bootconfig (([?b, ?c] @ replicate 30 0) @ rest) d0 = Some (loaded d d0)" for rest
    using f boot
    by (auto simp: unpack_bootconfig_def ab ab0 arr_get_def arr_set_def unpack_image_eq byte_fields_def loaded_def)
  then show ?thesis by (intro that [OF p]) simp_all
qed

section \<open>The configuration on flash\<close>

definition config_stored :: "u32 \<times> u32 \<times> u32 \<Rightarrow> dualImageInfo \<Rightarrow> (nat \<Rightarrow> u8) \<Rightarrow> bool" where
  "config_stored area d c \<longleftrightarrow>
     (case area of (load, off, sz) \<Rightarrow> pack_bootconfig d = Some (content_bytes c (unat off) sizeof_dualImageInfo))"

text \<open>What saving leaves alone, when the area consists of whole blocks.\<close>

definition outside :: "nat \<Rightarrow> nat \<Rightarrow> u32 \<times> u32 \<times> u32 \<Rightarrow> (nat \<Rightarrow> u8) \<Rightarrow> (nat \<Rightarrow> u8) \<Rightarrow> bool" where
  "outside es cap area c c' \<longleftrightarrow> (case area of (load, off, sz) \<Rightarrow>
     es dvd unat off \<longrightarrow> es dvd unat sz \<longrightarrow>
     (\<forall>a < cap. a < unat off \<or> unat off + unat sz \<le> a \<longrightarrow> c' a = c a))"

text \<open>An area that lies on the device, is large enough and can be loaded into this memory.\<close>

definition area_ok :: "nat \<Rightarrow> u32 \<times> u32 \<times> u32 \<Rightarrow> memory \<Rightarrow> bool" where
  "area_ok cap area mem \<longleftrightarrow> (case area of (load, off, sz) \<Rightarrow>
     unat off + unat sz \<le> cap \<and> sizeof_dualImageInfo \<le> unat sz \<and>
     (case mem_at mem load of None \<Rightarrow> False | Some p \<Rightarrow> p + unat sz \<le> length (mem_bytes mem)))"

text \<open>Memory is written, but neither moved nor resized.\<close>

definition same_room :: "memory \<Rightarrow> memory \<Rightarrow> bool" where
  "same_room mem mem' \<longleftrightarrow> mem_base mem' = mem_base mem \<and> length (mem_bytes mem') = length (mem_bytes mem)"

lemma same_room_refl [simp]: "same_room mem mem" by (simp add: same_room_def)

lemma same_room_area: "same_room mem mem' \<Longrightarrow> area_ok cap area mem' = area_ok cap area mem"
  by (simp add: same_room_def area_ok_def mem_at_def split: prod.split)

context reliable_nand
begin

lemma write_blank:
  assumes "\<forall>a < cap. blanked es off n c c1 a" and "\<forall>a < cap. written ws off data c1 c2 a"
    and "length data = n" and "off + n \<le> cap"
  shows "map (\<lambda>i. c2 (off + i)) [0..<n] = data"
proof (rule nth_equalityI)
  fix i assume "i < length (map (\<lambda>i. c2 (off + i)) [0..<n])"
  then have i: "i < n" by simp
  then have "(off + i) div es \<le> (off + n - 1) div es" "off div es \<le> (off + i) div es"
    by (auto intro: div_le_mono)
  then have "c1 (off + i) = 0xff" using assms(1,4) i by (auto simp: blanked_def)
  moreover have "written ws off data c1 c2 (off + i)" using assms(2,4) i by simp
  ultimately show "map (\<lambda>i. c2 (off + i)) [0..<n] ! i = data ! i"
    using i assms(3) by (simp add: written_def ff_and)
qed (use assms(3) in simp)

lemma bootconfig_saved:
  assumes "board_ok lower fit cfg cap nm" and "dual_fits d" and "area_ok cap area mem"
  obtains mem' nm' where "writeDualImageInfoToBootconfig (nmbm_host parts tab ft la) area nm mem d = Some (mem', nm')"
    "board_ok lower fit cfg cap nm'" "same_room mem mem'" "config_stored area d (board_content img nm')"
    "outside (unat (mtd_erasesize lower)) cap area (board_content img nm) (board_content img nm')"
proof -
  obtain load off sz where area: "area = (load, off, sz)" by (cases area)
  obtain p where a: "mem_at mem load = Some p" "unat off + unat sz \<le> cap" "sizeof_dualImageInfo \<le> unat sz"
    "p + unat sz \<le> length (mem_bytes mem)" using assms(3) by (auto simp: area_ok_def area split: option.splits)
  have r: "unat (ucast off :: u64) + unat (ucast sz :: u64) \<le> cap" "(ucast sz :: u64) \<noteq> 0" "unat (ucast sz :: u64) < 2 ^ 32"
    using a(2,3) unat_u32_less [of sz] by (auto simp: word_unat_eq_iff)
  have "length (images d) = NUMOFIMAGE" using assms(2) by (simp add: dual_fits_def)
  from unpack_pack [OF assms(2) this] obtain bs where
    p: "pack_bootconfig d = Some bs" and bs: "length bs = sizeof_dualImageInfo" by blast
  let ?mem = "mem_put mem p bs" and ?h = "nmbm_host parts tab ft la" and ?c = "board_content img"
  let ?data = "take (unat sz) (drop p (mem_bytes ?mem))"
  have m: "mem_at ?mem load = Some p" "p + unat (ucast sz :: u64) \<le> length (mem_bytes ?mem)" "mem_store mem load bs = Some ?mem"
    "length ?data = unat sz"
    using a bs by (simp_all add: mem_store_put)
  obtain nm1 where e: "do_nmbm ?h nm ?mem [''nmbm'', ''nmbm0'', ''erase'', hex_arg (unat off), hex_arg (unat sz)] = Some (CMD_RET_SUCCESS, ?mem, nm1)"
    and ok1: "board_ok lower fit cfg cap nm1"
    and c1: "\<forall>a < cap. blanked (unat (mtd_erasesize lower)) (unat off) (unat sz) (?c nm) (?c nm1) a"
    by (rule do_nmbm_erases [OF assms(1) r(1,2), of parts tab ft la ?mem]) simp
  obtain nm2 where w: "do_nmbm ?h nm1 ?mem [''nmbm'', ''nmbm0'', ''write'', hex_arg (unat load), hex_arg (unat off), hex_arg (unat sz)] =
      Some (CMD_RET_SUCCESS, ?mem, nm2)"
    and ok2: "board_ok lower fit cfg cap nm2"
    and c2: "\<forall>a < cap. written (unat (mtd_writesize lower)) (unat off) ?data (?c nm1) (?c nm2) a"
    by (rule do_nmbm_writes [OF ok1 r m(1,2), of parts tab ft la]) simp
  have "content_bytes (?c nm2) (unat off) (unat sz) = ?data"
    by (rule write_blank [OF c1 c2 m(4) a(2)])
  moreover have "take sizeof_dualImageInfo ?data = bs" using a bs by simp
  moreover have "content_bytes (?c nm2) (unat off) sizeof_dualImageInfo = take sizeof_dualImageInfo (content_bytes (?c nm2) (unat off) (unat sz))"
    using a(3) by (simp add: take_map)
  ultimately have st: "config_stored area d (?c nm2)" using p by (simp only: config_stored_def area prod.case)
  have "writeDualImageInfoToBootconfig ?h area nm mem d = Some (?mem, nm2)"
    using p e w m(3) by (simp add: writeDualImageInfoToBootconfig_def area)
  moreover have "same_room mem ?mem" using a bs by (simp add: same_room_def)
  moreover have "?data \<noteq> []" using m(4) a(3) by auto
  with c1 c2 m(4) have "outside (unat (mtd_erasesize lower)) cap area (?c nm) (?c nm2)"
    using rewritten [of "unat (mtd_erasesize lower)" "unat (mtd_writesize lower)" "unat off" ?data "?c nm" "?c nm1" _ "?c nm2"]
      storage.sizes(2) [OF board_storage assms(1)]
    by (auto simp: outside_def area)
  ultimately show ?thesis using ok2 st by (intro that)
qed

lemma bootconfig_loaded:
  assumes "board_ok lower fit cfg cap nm" and "dual_fits d" and "area_ok cap area mem"
    and "config_stored area d (board_content img nm)" and "length (images d0) = NUMOFIMAGE"
  obtains mem' nm' where "dumpDualImageInfoFromBootconfig (nmbm_host parts tab ft la) area nm mem d0 = Some (loaded d d0, mem', nm')"
    "board_ok lower fit cfg cap nm'" "same_room mem mem'" "board_content img nm' = board_content img nm"
proof -
  obtain load off sz where area: "area = (load, off, sz)" by (cases area)
  obtain p where a: "mem_at mem load = Some p" "unat off + unat sz \<le> cap" "sizeof_dualImageInfo \<le> unat sz"
    "p + unat sz \<le> length (mem_bytes mem)" using assms(3) by (auto simp: area_ok_def area split: option.splits)
  have r: "unat (ucast off :: u64) + unat (ucast sz :: u64) \<le> cap" "(ucast sz :: u64) \<noteq> 0" "unat (ucast sz :: u64) < 2 ^ 32"
    "p + unat (ucast sz :: u64) \<le> length (mem_bytes mem)"
    using a(2-4) unat_u32_less [of sz] by (auto simp: word_unat_eq_iff)
  let ?data = "content_bytes (board_content img nm) (unat off) (unat sz)"
  from unpack_pack [OF assms(2,5)] obtain bs where
    p: "pack_bootconfig d = Some bs" and bs: "length bs = sizeof_dualImageInfo"
    and u: "\<And>rest. unpack_bootconfig (bs @ rest) d0 = Some (loaded d d0)" by blast
  have "take sizeof_dualImageInfo ?data = bs"
    using assms(4) a(3) p bs by (simp add: config_stored_def area take_map)
  then have data: "?data = bs @ drop sizeof_dualImageInfo ?data" by (metis append_take_drop_id)
  obtain ret nm' where "do_nmbm (nmbm_host parts tab ft la) nm mem
      [''nmbm'', ''nmbm0'', ''read'', hex_arg (unat load), hex_arg (unat off), hex_arg (unat sz)] = Some (ret, mem_put mem p ?data, nm')"
    and "board_ok lower fit cfg cap nm'" "board_content img nm' = board_content img nm"
    by (rule do_nmbm_reads [OF assms(1) r(1-3) a(1) r(4), of parts tab ft la]) simp
  moreover have "mem_from (mem_put mem p ?data) load = Some (?data @ drop (p + unat sz) (mem_bytes mem))"
    using a by (simp add: mem_from_def)
  moreover have "unpack_bootconfig (?data @ drop (p + unat sz) (mem_bytes mem)) d0 = Some (loaded d d0)"
    using u data by (metis append_assoc)
  moreover have "same_room mem (mem_put mem p ?data)" using a by (simp add: same_room_def)
  ultimately show ?thesis
    by (intro that [of "mem_put mem p ?data" nm']) (simp_all add: dumpDualImageInfoFromBootconfig_def area)
qed

end

text \<open>The images still to be tried, and what trying one of them leaves.\<close>

definition untried :: "dualImageInfo \<Rightarrow> nat list" where
  "untried d = filter (\<lambda>n. img_state (images d ! n) = NEW_IMAGE) [0..<NUMOFIMAGE]"

lemma loaded_fits:
  assumes "dual_fits d" and "length (images d0) = NUMOFIMAGE"
  shows "dual_fits (loaded d d0)" "untried (loaded d d0) = untried d" "bootImage (loaded d d0) = bootImage d"
proof -
  obtain a b where ab: "images d = [a, b]" using assms(1) by (auto simp: dual_fits_def numeral_2_eq_2 length_Suc_conv)
  obtain a0 b0 where ab0: "images d0 = [a0, b0]" using assms(2) by (auto simp: numeral_2_eq_2 length_Suc_conv)
  show "dual_fits (loaded d d0)" "untried (loaded d d0) = untried d" "bootImage (loaded d d0) = bootImage d"
    using assms(1) by (auto simp: dual_fits_def loaded_def untried_def ab ab0 numeral_2_eq_2)
qed

lemma first_new_untried:
  assumes "length (images d) = NUMOFIMAGE"
  shows "first_new 0 (images d) = Some (case untried d of [] \<Rightarrow> NUMOFIMAGE | n # _ \<Rightarrow> n)"
  using assms by (auto simp: first_new.simps arr_get_def untried_def numeral_2_eq_2)

lemma setImageState_fails:
  assumes "dual_fits d" and "untried d = n # ns"
  obtains d' where "setImageState n FAIL_IMAGE d = Some d'" "dual_fits d'" "untried d' = ns" "bootImage d' = bootImage d"
    "n < NUMOFIMAGE"
proof -
  obtain a b where ab: "images d = [a, b]" using assms(1) by (auto simp: dual_fits_def numeral_2_eq_2 length_Suc_conv)
  have "n \<in> set (untried d)" using assms(2) by simp
  then have n: "n < 2" by (simp add: untried_def)
  let ?d = "d\<lparr>images := (images d)[n := (images d ! n)\<lparr>img_state := FAIL_IMAGE\<rparr>]\<rparr>"
  have 1: "setImageState n FAIL_IMAGE d = Some ?d"
    using n by (simp add: setImageState_def arr_get_def arr_set_def ab)
  have 2: "dual_fits ?d" using assms(1) n by (auto simp: dual_fits_def ab less_2_cases_iff)
  have 3: "untried ?d = ns" using assms(2) n by (auto simp: untried_def ab less_2_cases_iff numeral_2_eq_2 split: if_splits)
  from that [OF 1 2 3 _ n] show ?thesis by simp
qed

text \<open>A run of boots: each loads the configuration and chooses the image, in whatever memory it finds.\<close>

fun boots :: "'s host \<Rightarrow> u32 \<times> u32 \<times> u32 \<Rightarrow> 's \<Rightarrow> (memory \<times> dualImageInfo) list \<Rightarrow> (int list \<times> 's) option" where
  "boots h area s [] = Some ([], s)"
| "boots h area s ((mem, dual) # rest) = do {
     (dual, mem, s) \<leftarrow> dumpDualImageInfoFromBootconfig h area s mem dual;
     (n, dual, mem, s) \<leftarrow> checkHaveNewImage h area s mem dual;
     (ns, s) \<leftarrow> boots h area s rest;
     Some (n # ns, s)
   }"

context reliable_nand
begin

text \<open>What \<open>checkHaveNewImage\<close> does with a configuration that was just loaded.\<close>

lemma new_image_chosen:
  assumes "board_ok lower fit cfg cap nm" and "dual_fits d" and "area_ok cap area mem"
    and "config_stored area d (board_content img nm)" and "length (images d0) = NUMOFIMAGE"
  obtains d' d1 mem' nm' where "checkHaveNewImage (nmbm_host parts tab ft la) area nm mem (loaded d d0) =
      Some (case untried d of [] \<Rightarrow> bootImage d | n # _ \<Rightarrow> int n, d1, mem', nm')"
    "board_ok lower fit cfg cap nm'" "same_room mem mem'" "dual_fits d'" "config_stored area d' (board_content img nm')"
    "untried d' = tl (untried d)" "bootImage d' = bootImage d"
    "outside (unat (mtd_erasesize lower)) cap area (board_content img nm) (board_content img nm')"
proof -
  let ?d = "loaded d d0" and ?h = "nmbm_host parts tab ft la"
  note ld = loaded_fits [OF assms(2,5)]
  have f: "first_new 0 (images ?d) = Some (case untried d of [] \<Rightarrow> NUMOFIMAGE | n # _ \<Rightarrow> n)"
    using first_new_untried [of ?d] ld by (simp add: dual_fits_def)
  show ?thesis
  proof (cases "untried d")
    case Nil
    with f have "checkHaveNewImage ?h area nm mem ?d = Some (bootImage d, ?d, mem, nm)"
      by (simp add: checkHaveNewImage_def getBootImageNum_def ld(3))
    with Nil that [OF _ assms(1) same_room_refl assms(2,4)] show ?thesis by (simp add: outside_def split: prod.split)
  next
    case (Cons n ns)
    with ld(2) have "untried ?d = n # ns" by simp
    from setImageState_fails [OF ld(1) this] obtain d' where
      d': "setImageState n FAIL_IMAGE ?d = Some d'" "dual_fits d'" "untried d' = ns" "bootImage d' = bootImage d" "n < NUMOFIMAGE"
      using ld(3) by metis
    obtain mem2 nm2 where w: "writeDualImageInfoToBootconfig ?h area nm mem d' = Some (mem2, nm2)"
      and ok: "board_ok lower fit cfg cap nm2" "same_room mem mem2" and st: "config_stored area d' (board_content img nm2)"
      and out: "outside (unat (mtd_erasesize lower)) cap area (board_content img nm) (board_content img nm2)"
      by (rule bootconfig_saved [OF assms(1) d'(2) assms(3), of parts tab ft la])
    have "checkHaveNewImage ?h area nm mem ?d = Some (int n, d', mem2, nm2)"
      using f Cons d' w by (simp add: checkHaveNewImage_def)
    with Cons that [OF _ ok d'(2) st _ d'(4) out] d'(3) show ?thesis by simp
  qed
qed

lemma boot_once:
  assumes "board_ok lower fit cfg cap nm" and "dual_fits d" and "area_ok cap area mem"
    and "config_stored area d (board_content img nm)" and "length (images d0) = NUMOFIMAGE"
  obtains d' nm' where "board_ok lower fit cfg cap nm'" "dual_fits d'" "config_stored area d' (board_content img nm')"
    "untried d' = tl (untried d)" "bootImage d' = bootImage d"
    "\<And>rest. boots (nmbm_host parts tab ft la) area nm ((mem, d0) # rest) = do {
       (ns, s) \<leftarrow> boots (nmbm_host parts tab ft la) area nm' rest;
       Some ((case untried d of [] \<Rightarrow> bootImage d | n # _ \<Rightarrow> int n) # ns, s) }"
proof -
  obtain mem1 nm1 where l: "dumpDualImageInfoFromBootconfig (nmbm_host parts tab ft la) area nm mem d0 = Some (loaded d d0, mem1, nm1)"
    and 1: "board_ok lower fit cfg cap nm1" "same_room mem mem1" and c1: "board_content img nm1 = board_content img nm"
    by (rule bootconfig_loaded [OF assms, of parts tab ft la])
  have st: "config_stored area d (board_content img nm1)" using assms(4) c1 by simp
  have ar: "area_ok cap area mem1" using assms(3) same_room_area [OF 1(2)] by simp
  show ?thesis
  proof (rule new_image_chosen [OF 1(1) assms(2) ar st assms(5), of parts tab ft la])
    fix d' d1 mem2 nm2
    assume "checkHaveNewImage (nmbm_host parts tab ft la) area nm1 mem1 (loaded d d0) =
        Some (case untried d of [] \<Rightarrow> bootImage d | n # _ \<Rightarrow> int n, d1, mem2, nm2)"
      and *: "board_ok lower fit cfg cap nm2" "dual_fits d'" "config_stored area d' (board_content img nm2)"
        "untried d' = tl (untried d)" "bootImage d' = bootImage d"
    with l show ?thesis by (intro that [OF *]) simp
  qed
qed

lemma boots_try:
  assumes "board_ok lower fit cfg cap nm" and "dual_fits d" and "config_stored area d (board_content img nm)"
    and "\<forall>(mem, d0) \<in> set runs. area_ok cap area mem \<and> length (images d0) = NUMOFIMAGE"
  shows "\<exists>nm'. boots (nmbm_host parts tab ft la) area nm runs =
     Some (take (length runs) (map int (untried d) @ replicate (length runs) (bootImage d)), nm')"
  using assms
proof (induction runs arbitrary: nm d)
  case (Cons run runs)
  obtain mem d0 where run: "run = (mem, d0)" by (cases run)
  have r: "area_ok cap area mem" "length (images d0) = NUMOFIMAGE" using Cons.prems(4) run by simp_all
  let ?first = "case untried d of [] \<Rightarrow> bootImage d | n # _ \<Rightarrow> int n" and ?h = "nmbm_host parts tab ft la"
  obtain d' nm' where ok: "board_ok lower fit cfg cap nm'" "dual_fits d'" "config_stored area d' (board_content img nm')"
    and u: "untried d' = tl (untried d)" "bootImage d' = bootImage d"
    and b: "boots ?h area nm ((mem, d0) # runs) = do { (ns, s) \<leftarrow> boots ?h area nm' runs; Some (?first # ns, s) }"
    by (rule boot_once [OF Cons.prems(1,2) r(1) Cons.prems(3) r(2), of parts tab ft la]) blast
  from Cons.IH [OF ok] Cons.prems(4) obtain nm2 where
    "boots ?h area nm' runs = Some (take (length runs) (map int (untried d') @ replicate (length runs) (bootImage d')), nm2)" by auto
  with b have "boots ?h area nm ((mem, d0) # runs) =
      Some (?first # take (length runs) (map int (tl (untried d)) @ replicate (length runs) (bootImage d)), nm2)"
    by (simp add: u)
  moreover have "?first # take (length runs) (map int (tl (untried d)) @ replicate (length runs) (bootImage d)) =
      take (length (run # runs)) (map int (untried d) @ replicate (length (run # runs)) (bootImage d))"
    by (cases "untried d") (simp_all flip: replicate_Suc)
  ultimately have "boots ?h area nm (run # runs) =
      Some (take (length (run # runs)) (map int (untried d) @ replicate (length (run # runs)) (bootImage d)), nm2)"
    unfolding run by (simp only:)
  then show ?case by (rule exI)
qed simp

end

section \<open>Properties\<close>

text \<open>
  C16: The boot configuration survives a reboot. On a chip that works, what
  \<open>writeDualImageInfoToBootconfig\<close> saves is what \<open>dumpDualImageInfoFromBootconfig\<close> loads, whatever
  memory and \<open>dualIMAGE\<close> hold by then: the same states, logs and boot image, and the other
  image as the one to upgrade. The commands in between are the ones the functions print.
\<close>

theorem bootconfig_roundtrip:
  assumes "reliable_nand lower fit img" and "board_ok lower fit cfg cap nm" and "dual_fits d"
    and "area_ok cap area mem" and "area_ok cap area mem0" and "length (images d0) = NUMOFIMAGE"
  shows "\<exists>mem1 nm1 d1 mem2 nm2. writeDualImageInfoToBootconfig (nmbm_host parts tab ft la) area nm mem d = Some (mem1, nm1) \<and>
    dumpDualImageInfoFromBootconfig (nmbm_host parts tab ft la) area nm1 mem0 d0 = Some (d1, mem2, nm2) \<and>
    map img_state (images d1) = map img_state (images d) \<and> map img_log (images d1) = map img_log (images d) \<and>
    bootImage d1 = bootImage d \<and> upgradeImage d1 = 1 - bootImage d"
proof -
  have len: "length (images d) = length (images d0)" using assms(3,6) by (simp add: dual_fits_def)
  obtain mem1 nm1 where w: "writeDualImageInfoToBootconfig (nmbm_host parts tab ft la) area nm mem d = Some (mem1, nm1)"
    and ok: "board_ok lower fit cfg cap nm1" and st: "config_stored area d (board_content img nm1)"
    by (rule reliable_nand.bootconfig_saved [OF assms(1-4)]) blast
  obtain mem2 nm2
    where l: "dumpDualImageInfoFromBootconfig (nmbm_host parts tab ft la) area nm1 mem0 d0 = Some (loaded d d0, mem2, nm2)"
    by (rule reliable_nand.bootconfig_loaded [OF assms(1) ok assms(3,5) st assms(6)])
  have "map img_state (images (loaded d d0)) = map img_state (images d)"
    "map img_log (images (loaded d d0)) = map img_log (images d)"
    "bootImage (loaded d d0) = bootImage d" "upgradeImage (loaded d d0) = 1 - bootImage d"
    using len by (simp_all add: loaded_def list_eq_iff_nth_eq)
  with w l show ?thesis by blast
qed

definition sample_dual :: dualImageInfo where
  "sample_dual = \<lparr>bootImage = 0, upgradeImage = 1,
     images = [\<lparr>img_state = SUCCESS_IMAGE, img_log = 1, img_age = 0\<rparr>, \<lparr>img_state = NEW_IMAGE, img_log = 0, img_age = 0\<rparr>]\<rparr>"

definition sample_memory :: "u8 \<Rightarrow> memory" where
  "sample_memory b = \<lparr>mem_base = 0x8ff00000, mem_bytes = replicate 512 b\<rparr>"

definition sample_host :: "nand nmbm_mtd host" where
  "sample_host = nmbm_host Partitions \<lparr>parts_init = 0, parts_find = (\<lambda>_. Inl 1), parts_id = (\<lambda>_. (MTD_DEV_TYPE_NMBM, 0))\<rparr>
     \<lparr>fdt_check_header = (\<lambda>_. False), fit_check_format = (\<lambda>_. False), fit_all_image_verify = (\<lambda>_. False)\<rparr> 0x80000000"

lemma sample_dual_fits: "dual_fits sample_dual" "length (images (setBootImageNum 1 sample_dual)) = NUMOFIMAGE"
  by (simp_all add: dual_fits_def sample_dual_def setBootImageNum_def)

lemma sample_area: "area_ok 2048 (0x8ff00000, 512, 128) (sample_memory b)"
  by (simp add: area_ok_def sample_memory_def mem_at_def)

theorem bootconfig_roundtrip_witness:
  "\<exists>mem1 nm1 d1 mem2 nm2.
    writeDualImageInfoToBootconfig sample_host (0x8ff00000, 512, 128) (sample_nm 2 0) (sample_memory 7) sample_dual = Some (mem1, nm1) \<and>
    dumpDualImageInfoFromBootconfig sample_host (0x8ff00000, 512, 128) nm1 (sample_memory 0) (setBootImageNum 1 sample_dual) = Some (d1, mem2, nm2) \<and>
    map img_state (images d1) = [SUCCESS_IMAGE, NEW_IMAGE] \<and> map img_log (images d1) = [1, 0] \<and> bootImage d1 = 0 \<and> upgradeImage d1 = 1"
  using bootconfig_roundtrip [OF nand0.reliable_nand_axioms sample_board_ok sample_dual_fits(1) sample_area sample_area sample_dual_fits(2)]
  unfolding sample_host_def by (simp add: sample_dual_def)

text \<open>
  C8: Every new image is tried exactly once. Over any number of boots of a chip that works, each
  finding arbitrary memory, the choices of \<open>checkHaveNewImage\<close> are the new images of the saved
  configuration, lowest first and one a boot, and from then on the image the configuration names: a
  new image that never reports success is given up for good.
\<close>

theorem new_images_tried_once:
  assumes "reliable_nand lower fit img" and "board_ok lower fit cfg cap nm" and "dual_fits d" and "area_ok cap area mem"
    and "\<forall>(mem, d0) \<in> set runs. area_ok cap area mem \<and> length (images d0) = NUMOFIMAGE"
  shows "\<exists>mem1 nm1 nm2. writeDualImageInfoToBootconfig (nmbm_host parts tab ft la) area nm mem d = Some (mem1, nm1) \<and>
    boots (nmbm_host parts tab ft la) area nm1 runs =
      Some (take (length runs) (map int (untried d) @ replicate (length runs) (bootImage d)), nm2)"
proof -
  obtain mem1 nm1 where "writeDualImageInfoToBootconfig (nmbm_host parts tab ft la) area nm mem d = Some (mem1, nm1)"
    and ok: "board_ok lower fit cfg cap nm1" and st: "config_stored area d (board_content img nm1)"
    by (rule reliable_nand.bootconfig_saved [OF assms(1-4)]) blast
  with reliable_nand.boots_try [OF assms(1) ok assms(3) st assms(5)] show ?thesis by blast
qed

theorem new_images_tried_once_witness:
  "\<exists>mem1 nm1 nm2. writeDualImageInfoToBootconfig sample_host (0x8ff00000, 512, 128) (sample_nm 2 0) (sample_memory 7) sample_dual = Some (mem1, nm1) \<and>
    boots sample_host (0x8ff00000, 512, 128) nm1 (replicate 3 (sample_memory 5, setBootImageNum 1 sample_dual)) = Some ([1, 0, 0], nm2)"
proof -
  let ?runs = "replicate 3 (sample_memory 5, setBootImageNum 1 sample_dual)"
  have "\<forall>(mem, d0) \<in> set ?runs. area_ok 2048 (0x8ff00000, 512, 128) mem \<and> length (images d0) = NUMOFIMAGE"
    using sample_area sample_dual_fits by simp
  from new_images_tried_once [OF nand0.reliable_nand_axioms sample_board_ok sample_dual_fits(1) sample_area this]
  show ?thesis unfolding sample_host_def by (simp add: sample_dual_def untried_def numeral_2_eq_2 numeral_3_eq_3)
qed

end
