(* ===== verification/Flash_Part.thy ===== *)
theory Flash_Part
  imports Board_Image Mtd_Parts
begin

text \<open>
  Partitions read and written by name, and the manufacturer data kept in one of them
  (\<^verbatim>\<open>board/ralink/common/zyxel_util.c\<close>, \<^verbatim>\<open>include/zyxel_util.h\<close>).

  \<^item> The flash is any \<open>flash_ops\<close>; \<open>flashp\<close> is its state, \<open>None\<close> when the board has no flash.
  \<^item> \<open>alloc\<close> is \<^verbatim>\<open>malloc\<close>: \<open>None\<close>, or a buffer with unspecified contents.
  \<^item> \<^verbatim>\<open>size_t\<close> has 32 bits, offsets and sizes of partitions have 64.
\<close>

section \<open>Partitions\<close>

abbreviation (input) FLASH_READ :: int where "FLASH_READ \<equiv> 0"
abbreviation (input) FLASH_WRITE :: int where "FLASH_WRITE \<equiv> 1"

definition flash_part_rw_common :: "(u32 \<Rightarrow> bytes option) \<Rightarrow> part_table \<Rightarrow> 's flash_ops \<Rightarrow> 's option \<Rightarrow> string
    \<Rightarrow> bytes \<Rightarrow> u32 \<Rightarrow> u32 \<Rightarrow> int \<Rightarrow> (int \<times> bytes \<times> 's option) option" where
  "flash_part_rw_common alloc tab fl flashp part_name buf offset sz mode =
     (case flashp of
        None \<Rightarrow> Some (-1, buf, None)
      | Some s \<Rightarrow>
        let block_size = fl_erase_size fl s in
        if block_size = 0 then Some (-1, buf, Some s)
        else case get_mtd_part_info tab part_name of
          Inl _ \<Rightarrow> Some (-1, buf, Some s)
        | Inr (part_offset, part_size) \<Rightarrow>
            if ucast offset > part_size \<or> ucast sz > part_size then Some (-1, buf, Some s)
            else let len = (offset + sz + block_size - 1) div block_size * block_size in
            case alloc len of
              None \<Rightarrow> Some (- ENOMEM, buf, Some s)
            | Some block_buf \<Rightarrow> do {
                (ret, block_buf, s) \<leftarrow> fl_read fl s part_offset len block_buf;
                if ret \<noteq> 0 then Some (- EIO, buf, Some s)
                else if mode = FLASH_READ then do {
                  data \<leftarrow> mem_read (unat offset) (unat sz) block_buf;
                  buf \<leftarrow> mem_write 0 data buf;
                  Some (0, buf, Some s)
                }
                else if mode = FLASH_WRITE then do {
                  data \<leftarrow> mem_read 0 (unat sz) buf;
                  block_buf \<leftarrow> mem_write (unat offset) data block_buf;
                  (ret, s) \<leftarrow> fl_erase fl s part_offset (ucast len);
                  if ret \<noteq> 0 then Some (- EIO, buf, Some s)
                  else do {
                    (ret, s) \<leftarrow> fl_write fl s part_offset len block_buf;
                    Some (if ret \<noteq> 0 then - EIO else 0, buf, Some s)
                  }
                }
                else Some (-1, buf, Some s)
              })"

definition flash_part_read :: "(u32 \<Rightarrow> bytes option) \<Rightarrow> part_table \<Rightarrow> 's flash_ops \<Rightarrow> 's option \<Rightarrow> string
    \<Rightarrow> bytes \<Rightarrow> u32 \<Rightarrow> u32 \<Rightarrow> (int \<times> bytes \<times> 's option) option" where
  "flash_part_read alloc tab fl flashp part_name buf offset sz =
     flash_part_rw_common alloc tab fl flashp part_name buf offset sz FLASH_READ"

definition flash_part_write :: "(u32 \<Rightarrow> bytes option) \<Rightarrow> part_table \<Rightarrow> 's flash_ops \<Rightarrow> 's option \<Rightarrow> string
    \<Rightarrow> bytes \<Rightarrow> u32 \<Rightarrow> u32 \<Rightarrow> (int \<times> 's option) option" where
  "flash_part_write alloc tab fl flashp part_name buf offset sz = do {
     (ret, _, flashp) \<leftarrow> flash_part_rw_common alloc tab fl flashp part_name buf offset sz FLASH_WRITE;
     Some (ret, flashp)
   }"

section \<open>Manufacturer data\<close>

text \<open>\<^verbatim>\<open>MRD\<close>, a packed structure, and the bytes it occupies.\<close>

record MRD =
  BspHeapBlkSize :: bytes
  BspHeapBlkCnt :: bytes
  HardwareVersion :: bytes
  SerialNumber :: bytes
  Reserved0 :: bytes
  VendorName :: bytes
  ProductName :: bytes
  Reserved4 :: u32
  Reserved1 :: u16
  SystemType :: u8
  Reserved2 :: u8
  FeatureBits :: bytes
  FeatureBit :: u8
  Reserved3 :: u8
  EtherAddr :: bytes
  CountryCode :: u8
  AreaCode :: u8

abbreviation (input) sizeof_MRD :: nat where "sizeof_MRD \<equiv> 240"

definition mrd_bytes :: "MRD \<Rightarrow> bytes" where
  "mrd_bytes m = BspHeapBlkSize m @ BspHeapBlkCnt m @ HardwareVersion m @ SerialNumber m @ Reserved0 m @
     VendorName m @ ProductName m @ enc32 (Reserved4 m) @ enc_le 2 (Reserved1 m) @
     [SystemType m, Reserved2 m] @ FeatureBits m @ [FeatureBit m, Reserved3 m] @ EtherAddr m @ [CountryCode m, AreaCode m]"

definition mrd_of_bytes :: "bytes \<Rightarrow> MRD" where
  "mrd_of_bytes bs =
     (let f = (\<lambda>off n. take n (drop off bs)) in
      \<lparr>BspHeapBlkSize = f 0 16, BspHeapBlkCnt = f 16 16, HardwareVersion = f 32 32, SerialNumber = f 64 32,
       Reserved0 = f 96 32, VendorName = f 128 32, ProductName = f 160 32, Reserved4 = dec32 (f 192 4),
       Reserved1 = dec_le (f 196 2), SystemType = bs ! 198, Reserved2 = bs ! 199,
       FeatureBits = f 200 30, FeatureBit = bs ! 230, Reserved3 = bs ! 231, EtherAddr = f 232 6,
       CountryCode = bs ! 238, AreaCode = bs ! 239\<rparr>)"

definition mrd_fits :: "MRD \<Rightarrow> bool" where
  "mrd_fits m \<longleftrightarrow> length (BspHeapBlkSize m) = 16 \<and> length (BspHeapBlkCnt m) = 16 \<and> length (HardwareVersion m) = 32 \<and>
     length (SerialNumber m) = 32 \<and> length (Reserved0 m) = 32 \<and> length (VendorName m) = 32 \<and> length (ProductName m) = 32 \<and>
     length (FeatureBits m) = 30 \<and> length (EtherAddr m) = 6"

text \<open>A string literal in an array of \<open>n\<close> characters.\<close>

definition c_array :: "nat \<Rightarrow> string \<Rightarrow> bytes" where
  "c_array n str = map of_char str @ replicate (n - length str) 0"

definition dummy_mrd :: MRD where
  "dummy_mrd = \<lparr>BspHeapBlkSize = replicate 16 0, BspHeapBlkCnt = replicate 16 0,
     HardwareVersion = c_array 32 ''Zyxel dummy - dummy'', SerialNumber = c_array 32 ''Z34131340 80-009-011DUMMY'',
     Reserved0 = [0x00, 0x00, 0x06, 0x01, 0x02, 0x03, 0x04, 0x05, 0x06, 0x07, 0x08, 0x09, 0x10, 0x11, 0x12, 0x13,
       0x14, 0x15, 0x16, 0x17, 0x18, 0x19, 0x20, 0x00, 0x00, 0x02, 0x00, 0x00, 0x00, 0x10, 0x00, 0x00],
     VendorName = c_array 32 ''Zyxel Communications Corp.'', ProductName = c_array 32 ''dummy'',
     Reserved4 = 0, Reserved1 = 0xffff, SystemType = 0x0a, Reserved2 = 0xff,
     FeatureBits = [0xff, 0xff] @ replicate 14 0 @ [0x03] @ replicate 13 0, FeatureBit = 0, Reserved3 = 0xff,
     EtherAddr = [0x00, 0x13, 0x49, 0x00, 0x00, 0x01], CountryCode = 0xff, AreaCode = 0x01\<rparr>"

text \<open>The result is a \<^verbatim>\<open>ssize_t\<close>. Without a flash the erase size is read through NULL.\<close>

definition mrd_offset_get :: "'s flash_ops \<Rightarrow> 's option \<Rightarrow> int option" where
  "mrd_offset_get fl flashp = (case flashp of
      None \<Rightarrow> None
    | Some s \<Rightarrow>
        let flash_block_size = fl_erase_size fl s in
        Some (if flash_block_size = 0 then -1 else sint (flash_block_size - of_nat sizeof_MRD)))"

definition mrd_read :: "(u32 \<Rightarrow> bytes option) \<Rightarrow> part_table \<Rightarrow> 's flash_ops \<Rightarrow> 's option \<Rightarrow> MRD
    \<Rightarrow> (int \<times> MRD \<times> 's option) option" where
  "mrd_read alloc tab fl flashp mrd = do {
     mrd_offset \<leftarrow> mrd_offset_get fl flashp;
     (ret, bs, flashp) \<leftarrow> (if mrd_offset < 0 then Some (mrd_offset, mrd_bytes mrd, flashp)
       else flash_part_read alloc tab fl flashp ''mrd'' (mrd_bytes mrd) (word_of_int mrd_offset) (of_nat sizeof_MRD));
     Some (ret, if ret < 0 then dummy_mrd else mrd_of_bytes bs, flashp)
   }"

definition mrd_write :: "(u32 \<Rightarrow> bytes option) \<Rightarrow> part_table \<Rightarrow> 's flash_ops \<Rightarrow> 's option \<Rightarrow> MRD
    \<Rightarrow> (int \<times> 's option) option" where
  "mrd_write alloc tab fl flashp mrd = do {
     mrd_offset \<leftarrow> mrd_offset_get fl flashp;
     if mrd_offset < 0 then Some (-1, flashp)
     else flash_part_write alloc tab fl flashp ''mrd'' (mrd_bytes mrd) (word_of_int mrd_offset) (of_nat sizeof_MRD)
   }"

text \<open>\<open>mrd\<close> is the uninitialised structure on the stack.\<close>

definition model_get :: "(u32 \<Rightarrow> bytes option) \<Rightarrow> part_table \<Rightarrow> 's flash_ops \<Rightarrow> 's option \<Rightarrow> MRD
    \<Rightarrow> (u16 \<times> 's option) option" where
  "model_get alloc tab fl flashp mrd = do {
     (_, mrd, flashp) \<leftarrow> mrd_read alloc tab fl flashp mrd;
     Some (ucast (FeatureBits mrd ! 0) OR push_bit 8 (ucast (FeatureBits mrd ! 1)), flashp)
   }"

section \<open>The layout of the structure\<close>

lemma length_mrd_bytes [simp]: "mrd_fits m \<Longrightarrow> length (mrd_bytes m) = sizeof_MRD"
  by (simp add: mrd_fits_def mrd_bytes_def)

lemma dummy_mrd_fits [simp]: "mrd_fits dummy_mrd"
  by (simp add: mrd_fits_def dummy_mrd_def c_array_def)

lemma mrd_of_bytes_fits [simp]: "length bs = sizeof_MRD \<Longrightarrow> mrd_fits (mrd_of_bytes bs)"
  by (simp add: mrd_fits_def mrd_of_bytes_def)

interpretation u16: le_codec "enc_le 2 :: u16 \<Rightarrow> bytes" dec_le 2
  by unfold_locales (simp_all add: dec_enc_le enc_dec_le)

lemma mrd_of_mrd_bytes: "mrd_fits m \<Longrightarrow> mrd_of_bytes (mrd_bytes m) = m"
  by (simp add: mrd_fits_def mrd_bytes_def mrd_of_bytes_def nth_append u32.dec_enc u16.dec_enc)

lemma slice: "a + n = b \<Longrightarrow> take n (drop a bs) @ drop b bs = drop a bs"
  by (metis append_take_drop_id drop_drop add.commute)

lemma mrd_bytes_of_bytes:
  assumes "length bs = sizeof_MRD"
  shows "mrd_bytes (mrd_of_bytes bs) = bs"
proof -
  have enc: "enc32 (dec32 (take 4 (drop 192 bs))) = take 4 (drop 192 bs)"
    "enc_le 2 (dec_le (take 2 (drop 196 bs)) :: u16) = take 2 (drop 196 bs)"
    using assms by (simp_all add: u32.enc_dec u16.enc_dec)
  have one: "bs ! 239 # [] = drop 239 bs" "bs ! 238 # drop 239 bs = drop 238 bs" "bs ! 231 # drop 232 bs = drop 231 bs"
    "bs ! 230 # drop 231 bs = drop 230 bs" "bs ! 199 # drop 200 bs = drop 199 bs" "bs ! 198 # drop 199 bs = drop 198 bs"
    using assms Cons_nth_drop_Suc [of 239 bs] Cons_nth_drop_Suc [of 238 bs] Cons_nth_drop_Suc [of 231 bs]
      Cons_nth_drop_Suc [of 230 bs] Cons_nth_drop_Suc [of 199 bs] Cons_nth_drop_Suc [of 198 bs] by simp_all
  show ?thesis
    by (simp add: mrd_bytes_def mrd_of_bytes_def enc one slice [of 232 6 238] slice [of 200 30 230] slice [of 196 2 198]
        slice [of 192 4 196] slice [of 160 32 192] slice [of 128 32 160] slice [of 96 32 128] slice [of 64 32 96]
        slice [of 32 32 64] slice [of 16 16 32])
qed

section \<open>Partitions on a flash that keeps its contents\<close>

text \<open>The blocks from the start of the partition that \<open>flash_part_rw_common\<close> works on.\<close>

definition round_up :: "nat \<Rightarrow> nat \<Rightarrow> nat" where
  "round_up es n = (n + es - 1) div es * es"

lemma round_up: "0 < es \<Longrightarrow> n \<le> round_up es n" "es dvd round_up es n" "0 < es \<Longrightarrow> round_up es n < n + es"
proof -
  assume "0 < es"
  then have "(n + es - 1) div es * es + (n + es - 1) mod es = n + es - 1" "(n + es - 1) mod es < es" by simp_all
  with \<open>0 < es\<close> show "n \<le> round_up es n" "round_up es n < n + es" unfolding round_up_def by linarith+
qed (simp add: round_up_def)

text \<open>
  A request inside a partition that starts at a block boundary, whose blocks lie on the flash
  and for which there is memory.
\<close>

definition part_fits :: "(u32 \<Rightarrow> bytes option) \<Rightarrow> part_table \<Rightarrow> string \<Rightarrow> nat \<Rightarrow> nat \<Rightarrow> u32 \<Rightarrow> u32 \<Rightarrow> u64 \<Rightarrow> bool" where
  "part_fits alloc tab name es cap offset sz part_offset \<longleftrightarrow>
     (case get_mtd_part_info tab name of
        Inl _ \<Rightarrow> False
      | Inr (po, ps) \<Rightarrow> part_offset = po \<and> unat offset + unat sz \<le> unat ps) \<and>
     sz \<noteq> 0 \<and> es dvd unat part_offset \<and> unat part_offset + round_up es (unat offset + unat sz) \<le> cap \<and>
     unat offset + unat sz + es < 2 ^ 32 \<and>
     (case alloc (of_nat (round_up es (unat offset + unat sz))) of
        None \<Rightarrow> False
      | Some b \<Rightarrow> length b = round_up es (unat offset + unat sz))"

context storage
begin

lemma part_len:
  assumes "ok s" and "unat offset + unat sz + es < 2 ^ 32"
  shows "(offset + sz + fl_erase_size fl s - 1) div fl_erase_size fl s * fl_erase_size fl s =
      of_nat (round_up es (unat offset + unat sz))"
    "unat (of_nat (round_up es (unat offset + unat sz)) :: u32) = round_up es (unat offset + unat sz)"
proof -
  have es: "unat (fl_erase_size fl s) = es" "0 < es" using sizes [OF assms(1)] by simp_all
  let ?n = "unat offset + unat sz"
  have n: "round_up es ?n < 2 ^ 32" using round_up(3) [OF es(2), of ?n] assms(2) by simp
  then show u: "unat (of_nat (round_up es ?n) :: u32) = round_up es ?n"
    by (simp add: unat_of_nat)
  have "unat (offset + sz + fl_erase_size fl s - 1) = ?n + es - 1"
    using assms(2) es by (simp add: unat_word_ariths unat_sub_if')
  then have "unat ((offset + sz + fl_erase_size fl s - 1) div fl_erase_size fl s * fl_erase_size fl s) = round_up es ?n"
    using n es by (simp add: unat_word_ariths unat_div_distrib round_up_def mod_mult_left_eq)
  then show "(offset + sz + fl_erase_size fl s - 1) div fl_erase_size fl s * fl_erase_size fl s = of_nat (round_up es ?n)"
    using u by (simp add: word_unat_eq_iff)
qed

lemma flash_part_read_content:
  assumes "ok s" and "part_fits alloc tab name es cap offset sz po" and "unat sz \<le> length buf"
  obtains s' where "flash_part_read alloc tab fl (Some s) name buf offset sz =
      Some (0, map (\<lambda>i. content s (unat po + unat offset + i)) [0..<unat sz] @ drop (unat sz) buf, Some s')"
    "ok s'" "content s' = content s"
proof -
  let ?n = "round_up es (unat offset + unat sz)"
  from assms(2) obtain ps b where f: "get_mtd_part_info tab name = Inr (po, ps)" "unat offset + unat sz \<le> unat ps" "sz \<noteq> 0"
    "unat po + ?n \<le> cap" "unat offset + unat sz + es < 2 ^ 32" "alloc (of_nat ?n) = Some b" "length b = ?n"
    by (auto simp: part_fits_def split: sum.splits option.splits)
  have es: "fl_erase_size fl s \<noteq> 0" "0 < es" using sizes [OF assms(1)] by auto
  note len = part_len [OF assms(1) f(5)]
  have "unat offset + unat sz \<le> ?n" "0 < unat sz" using round_up(1) [OF es(2)] f(3) by (auto simp: unat_gt_0)
  then have n: "unat offset + unat sz \<le> ?n" "(of_nat ?n :: u32) \<noteq> 0" using len(2) by auto
  obtain s' where "fl_read fl s po (of_nat ?n) b = Some (0, map (\<lambda>i. content s (unat po + i)) [0..<?n], s')" "ok s'" "content s' = content s"
    using reads [OF assms(1), of po "of_nat ?n" b] f(4,7) len(2) n(2) by auto
  moreover have "take (unat sz) (drop (unat offset) (map (\<lambda>i. content s (unat po + i)) [0..<?n])) =
      map (\<lambda>i. content s (unat po + unat offset + i)) [0..<unat sz]"
    using n(1) by (intro nth_equalityI) (auto simp: add.assoc)
  ultimately show ?thesis
    using f es len(1) n(1) assms(3)
    by (intro that [of s'])
      (simp_all add: flash_part_read_def flash_part_rw_common_def mem_read_def mem_write_def word_less_nat_alt)
qed

lemma flash_part_write_content:
  assumes "ok s" and "part_fits alloc tab name es cap offset sz po" and "unat sz \<le> length buf"
  obtains s' where "flash_part_write alloc tab fl (Some s) name buf offset sz = Some (0, Some s')" "ok s'"
    "\<forall>a < cap. content s' a = (if unat po + unat offset \<le> a \<and> a < unat po + unat offset + unat sz
       then buf ! (a - (unat po + unat offset)) else content s a)"
proof -
  let ?n = "round_up es (unat offset + unat sz)"
  from assms(2) obtain ps b where f: "get_mtd_part_info tab name = Inr (po, ps)" "unat offset + unat sz \<le> unat ps" "sz \<noteq> 0"
    "unat po + ?n \<le> cap" "unat offset + unat sz + es < 2 ^ 32" "alloc (of_nat ?n) = Some b" "length b = ?n" "es dvd unat po"
    by (auto simp: part_fits_def split: sum.splits option.splits)
  have es: "fl_erase_size fl s \<noteq> 0" "0 < es" "0 < ws" "ws dvd es" using sizes [OF assms(1)] by auto
  note len = part_len [OF assms(1) f(5)]
  have "unat offset + unat sz \<le> ?n" "0 < unat sz" using round_up(1) [OF es(2)] f(3) by (auto simp: unat_gt_0)
  then have n: "unat offset + unat sz \<le> ?n" "(of_nat ?n :: u32) \<noteq> 0" "0 < ?n" using len(2) by auto
  let ?old = "map (\<lambda>i. content s (unat po + i)) [0..<?n]"
  let ?new = "take (unat offset) ?old @ take (unat sz) buf @ drop (unat offset + unat sz) ?old"
  have new: "length ?new = ?n" using n(1) assms(3) by simp
  obtain s1 where r: "fl_read fl s po (of_nat ?n) b = Some (0, ?old, s1)" and ok1: "ok s1" and c1: "content s1 = content s"
    using reads [OF assms(1), of po "of_nat ?n" b] f(4,7) len(2) n(2) by auto
  have u64: "unat (ucast (of_nat ?n :: u32) :: u64) = ?n" "(ucast (of_nat ?n :: u32) :: u64) \<noteq> 0"
    using len(2) n by (auto simp: word_unat_eq_iff)
  obtain s2 where e: "fl_erase fl s1 po (ucast (of_nat ?n :: u32)) = Some (0, s2)" and ok2: "ok s2"
    and c2: "\<forall>a < cap. blanked es (unat po) ?n (content s) (content s2) a"
    using erases [OF ok1, of po "ucast (of_nat ?n :: u32)"] f(4) u64 c1 by auto
  obtain s3 where w: "fl_write fl s2 po (of_nat ?n) ?new = Some (0, s3)" and ok3: "ok s3"
    and c3: "\<forall>a < cap. written ws (unat po) ?new (content s2) (content s3) a"
    using writes [OF ok2, of po "of_nat ?n" ?new] f(4) len(2) n(2) new by auto
  have "flash_part_write alloc tab fl (Some s) name buf offset sz = Some (0, Some s3)"
    using f es len(1) n(1) assms(3) r e w
    by (simp add: flash_part_write_def flash_part_rw_common_def mem_read_def mem_write_def word_less_nat_alt)
  moreover have "content s3 a = (if unat po + unat offset \<le> a \<and> a < unat po + unat offset + unat sz
       then buf ! (a - (unat po + unat offset)) else content s a)" if a: "a < cap" for a
  proof -
    have "es dvd length ?new" "?new \<noteq> []" "blanked es (unat po) (length ?new) (content s) (content s2) a"
      "written ws (unat po) ?new (content s2) (content s3) a"
      using new round_up(2) [of es] n(3) c2 c3 a by (auto simp del: length_append)
    from rewritten [OF es(2-4) f(8) this] have "content s3 a =
        (if unat po \<le> a \<and> a < unat po + ?n then ?new ! (a - unat po) else content s a)" unfolding new .
    then show ?thesis using n(1) assms(3) by (auto simp: nth_append)
  qed
  ultimately show ?thesis using ok3 by (intro that [of s3]) auto
qed

end

section \<open>Property\<close>

text \<open>
  C17: Writing a part of a partition changes that part only. On a chip that works, in every build on a machine
  on which the board's erase function returns (\<open>build \<noteq> Partitions\<close>), for a request
  inside a partition that starts at a block boundary, \<open>flash_part_write\<close> succeeds, \<open>flash_part_read\<close>
  of the same range returns what was written, and every other byte of the device, the rest of the
  rewritten blocks included, keeps its value.
\<close>

theorem flash_part_write_updates:
  assumes "build \<noteq> Partitions" and "reliable_nand lower fit img" and "board_ok lower fit cfg cap nm"
    and "part_fits alloc tab name (unat (mtd_erasesize lower)) cap offset sz po"
    and "unat sz \<le> length buf" and "unat sz \<le> length buf0"
  shows "\<exists>nm1 nm2. flash_part_write alloc tab (nmbm_flash build) (Some nm) name buf offset sz = Some (0, Some nm1) \<and>
    flash_part_read alloc tab (nmbm_flash build) (Some nm1) name buf0 offset sz = Some (0, take (unat sz) buf @ drop (unat sz) buf0, Some nm2) \<and>
    (\<forall>a < cap. a < unat po + unat offset \<or> unat po + unat offset + unat sz \<le> a \<longrightarrow> board_content img nm2 a = board_content img nm a)"
proof -
  note st = reliable_nand.board_storage [OF assms(2), folded null_readable_builds(2) [OF assms(1)]]
  let ?lo = "unat po + unat offset"
  obtain nm1 where w: "flash_part_write alloc tab (nmbm_flash build) (Some nm) name buf offset sz = Some (0, Some nm1)"
    and ok1: "board_ok lower fit cfg cap nm1"
    and c1: "\<forall>a < cap. board_content img nm1 a = (if ?lo \<le> a \<and> a < ?lo + unat sz then buf ! (a - ?lo) else board_content img nm a)"
    by (rule storage.flash_part_write_content [OF st assms(3-5)])
  obtain nm2 where r: "flash_part_read alloc tab (nmbm_flash build) (Some nm1) name buf0 offset sz =
      Some (0, map (\<lambda>i. board_content img nm1 (?lo + i)) [0..<unat sz] @ drop (unat sz) buf0, Some nm2)"
    and c2: "board_content img nm2 = board_content img nm1"
    by (rule storage.flash_part_read_content [OF st ok1 assms(4,6)])
  have "unat offset + unat sz \<le> round_up (unat (mtd_erasesize lower)) (unat offset + unat sz)"
    by (rule round_up(1)) (use storage.sizes(2) [OF st assms(3)] in simp)
  then have "?lo + unat sz \<le> cap" using assms(4) by (simp add: part_fits_def)
  then have "map (\<lambda>i. board_content img nm1 (?lo + i)) [0..<unat sz] = take (unat sz) buf"
    using c1 assms(5) by (intro nth_equalityI) simp_all
  with w r c1 c2 show ?thesis by auto
qed

definition sample_parts :: part_table where
  "sample_parts = \<lparr>parts_init = 0, parts_find = (\<lambda>n. if n = ''data'' then Inr (512, 512) else Inl (-1)),
     parts_id = (\<lambda>_. (MTD_DEV_TYPE_NMBM, 0))\<rparr>"

definition sample_alloc :: "u32 \<Rightarrow> bytes option" where
  "sample_alloc n = Some (replicate (unat n) 0)"

theorem flash_part_write_updates_witness:
  "\<exists>nm1 nm2. flash_part_write sample_alloc sample_parts (nmbm_flash Partitions_null_readable) (Some (sample_nm 2 0)) ''data'' (replicate 150 9) 100 150 =
      Some (0, Some nm1) \<and>
    flash_part_read sample_alloc sample_parts (nmbm_flash Partitions_null_readable) (Some nm1) ''data'' (replicate 160 0) 100 150 =
      Some (0, replicate 150 9 @ replicate 10 0, Some nm2) \<and>
    board_content chip_byte nm2 600 = board_content chip_byte (sample_nm 2 0) 600"
proof -
  have build: "Partitions_null_readable \<noteq> Partitions" by simp
  have "part_fits sample_alloc sample_parts ''data'' (unat (mtd_erasesize (sample_nand_mtd 2))) 2048 100 150 512"
    by (simp add: part_fits_def sample_parts_def sample_alloc_def get_mtd_part_info_def round_up_def)
  moreover have "unat (150 :: u32) \<le> length (replicate 150 (9 :: u8))" "unat (150 :: u32) \<le> length (replicate 160 (0 :: u8))" by simp_all
  ultimately obtain nm1 nm2 where
    "flash_part_write sample_alloc sample_parts (nmbm_flash Partitions_null_readable) (Some (sample_nm 2 0)) ''data'' (replicate 150 9) 100 150 = Some (0, Some nm1)"
    "flash_part_read sample_alloc sample_parts (nmbm_flash Partitions_null_readable) (Some nm1) ''data'' (replicate 160 0) 100 150 =
      Some (0, take (unat (150 :: u32)) (replicate 150 9) @ drop (unat (150 :: u32)) (replicate 160 0), Some nm2)"
    "\<forall>a < 2048. a < unat (512 :: u64) + unat (100 :: u32) \<or> unat (512 :: u64) + unat (100 :: u32) + unat (150 :: u32) \<le> a \<longrightarrow>
      board_content chip_byte nm2 a = board_content chip_byte (sample_nm 2 0) a"
    using flash_part_write_updates [OF build nand0.reliable_nand_axioms sample_board_ok] by blast
  moreover from this(3) have "board_content chip_byte nm2 600 = board_content chip_byte (sample_nm 2 0) 600" by simp
  moreover have "take (unat (150 :: u32)) (replicate 150 9) @ drop (unat (150 :: u32)) (replicate 160 0) = (replicate 150 9 @ replicate 10 0 :: bytes)"
    by simp
  ultimately show ?thesis by metis
qed

end
