(* ===== verification/Dual_Image.thy ===== *)
theory Dual_Image
  imports Board_Image Mtd_Parts Uimage
begin

text \<open>
  Dual image support (\<^verbatim>\<open>board/ralink/common/dual_image.c\<close>): the main and the backup firmware
  are verified before booting, and a damaged one is replaced by a copy of the other.

  \<^item> The flash is any \<open>flash_ops\<close>; \<open>s\<close> is its state.
  \<^item> \<open>ram\<close> is the memory from the load address on, into which images are read. An access
    outside it faults.
  \<^item> \<^verbatim>\<open>CONFIG_MTK_DUAL_IMAGE_SQUASHFS_DATA_CHECK\<close> and
    \<^verbatim>\<open>CONFIG_MTK_DUAL_IMAGE_RESTORE_KERNEL_ONLY\<close> are the parameters \<open>data_check\<close> and
    \<open>kernel_only\<close>; the FIT code is the parameter \<open>fit\<close>.
  \<^item> An output through a pointer is an option in the result: \<open>None\<close> when nothing is stored.
    A buffer on the stack starts as zeros; its contents are only used after a read that
    succeeded.
\<close>

section \<open>Verifying an image\<close>

text \<open>\<^verbatim>\<open>mtk_board_flash_read\<close> into memory at \<open>dst\<close>.\<close>

definition flash_load :: "'s flash_ops \<Rightarrow> 's \<Rightarrow> bytes \<Rightarrow> nat \<Rightarrow> u64 \<Rightarrow> u32
    \<Rightarrow> (int \<times> bytes \<times> 's) option" where
  "flash_load fl s ram dst off len = do {
     buf \<leftarrow> mem_read dst (unat len) ram;
     (ret, buf, s) \<leftarrow> fl_read fl s off len buf;
     ram \<leftarrow> mem_write dst buf ram;
     Some (ret, ram, s)
   }"

definition verify_legacy_image :: "'s flash_ops \<Rightarrow> 's \<Rightarrow> bytes \<Rightarrow> u64 \<Rightarrow> u64
    \<Rightarrow> (int \<times> u32 option \<times> bytes \<times> 's) option" where
  "verify_legacy_image fl s ram offset maxsize = do {
     hcrc \<leftarrow> image_check_hcrc ram;
     if \<not> hcrc then Some (1, None, ram, s)
     else do {
       hdr \<leftarrow> mem_read 0 sizeof_image_header ram;
       let sz = image_get_image_size hdr;
       if ucast sz > maxsize then Some (1, None, ram, s)
       else do {
         (ret, ram, s) \<leftarrow> flash_load fl s ram 0 offset sz;
         if ret \<noteq> 0 then Some (if ret = - EBADMSG then 1 else - EIO, None, ram, s)
         else do {
           dcrc \<leftarrow> image_check_dcrc ram;
           if \<not> dcrc then Some (1, None, ram, s) else Some (0, Some sz, ram, s)
         }
       }
     }
   }"

definition verify_fit_image :: "fit_ops \<Rightarrow> 's flash_ops \<Rightarrow> 's \<Rightarrow> bytes \<Rightarrow> u64 \<Rightarrow> u64
    \<Rightarrow> (int \<times> u32 option \<times> bytes \<times> 's) option" where
  "verify_fit_image fit fl s ram offset maxsize = do {
     sz \<leftarrow> fit_get_size ram;
     if ucast sz > maxsize then Some (1, None, ram, s)
     else do {
       (ret, ram, s) \<leftarrow> flash_load fl s ram 0 offset sz;
       if ret \<noteq> 0 then Some (if ret = - EBADMSG then 1 else - EIO, None, ram, s)
       else if \<not> fit_check_format fit ram then Some (1, None, ram, s)
       else if \<not> fit_all_image_verify fit ram then Some (1, None, ram, s)
       else Some (0, Some sz, ram, s)
     }
   }"

definition verify_image :: "fit_ops \<Rightarrow> 's flash_ops \<Rightarrow> 's \<Rightarrow> bytes \<Rightarrow> u64 \<Rightarrow> u64
    \<Rightarrow> (int \<times> u32 option \<times> bytes \<times> 's) option" where
  "verify_image fit fl s ram offset maxsize = do {
     (ret, ram, s) \<leftarrow> flash_load fl s ram 0 offset (of_nat sizeof_image_header);
     if ret \<noteq> 0 then Some (if ret = - EBADMSG then 1 else - EIO, None, ram, s)
     else do {
       format \<leftarrow> genimg_get_format fit ram;
       case format of
         IMAGE_FORMAT_LEGACY \<Rightarrow> verify_legacy_image fl s ram offset maxsize
       | IMAGE_FORMAT_FIT \<Rightarrow> verify_fit_image fit fl s ram offset maxsize
       | IMAGE_FORMAT_INVALID \<Rightarrow> Some (1, None, ram, s)
     }
   }"

section \<open>Verifying a root file system\<close>

abbreviation (input) SQUASHFS_MAGIC :: u32 where "SQUASHFS_MAGIC \<equiv> 0x73717368"

text \<open>\<^verbatim>\<open>struct squashfs_super_block\<close>: the magic at offset 0, \<^verbatim>\<open>bytes_used\<close> at offset 40.\<close>

abbreviation (input) sizeof_squashfs_super_block :: nat where "sizeof_squashfs_super_block \<equiv> 48"

definition verify_squashfs :: "bool \<Rightarrow> 's flash_ops \<Rightarrow> 's \<Rightarrow> u64 \<Rightarrow> u64
    \<Rightarrow> (int \<times> u32 option \<times> 's) option" where
  "verify_squashfs data_check fl s offset end = do {
     (ret, sb, s) \<leftarrow> fl_read fl s offset (of_nat sizeof_squashfs_super_block)
       (replicate sizeof_squashfs_super_block 0);
     if ret \<noteq> 0 then Some (if ret = - EBADMSG then 1 else - EIO, None, s)
     else if dec32 (take 4 sb) \<noteq> SQUASHFS_MAGIC then Some (1, None, s)
     else do {
       let sz = dec64 (take 8 (drop 40 sb));
       if offset + sz \<ge> end then Some (1, None, s)
       else if data_check then do {
         (ret, data, s) \<leftarrow> fl_read fl s (offset + sz - 1) 1 [0];
         if ret \<noteq> 0 then Some (0, None, s)
         else if data = [0xff] then Some (1, None, s)
         else Some (0, Some (ucast sz), s)
       }
       else Some (0, Some (ucast sz), s)
     }
   }"

text \<open>The two outputs are the bytes in front of the file system and its size.\<close>

definition verify_rootfs :: "bool \<Rightarrow> 's flash_ops \<Rightarrow> 's \<Rightarrow> u64 \<Rightarrow> u64
    \<Rightarrow> (int \<times> u32 option \<times> u32 option \<times> 's) option" where
  "verify_rootfs data_check fl s offset maxsize = do {
     let end = offset + maxsize;
     (ret, rootfs_size, s) \<leftarrow> verify_squashfs data_check fl s offset end;
     if ret = 0 then Some (0, Some 0, rootfs_size, s)
     else do {
       let base = fl_erase_size fl s;
       if base = 0 then None
       else do {
         let leading = offset mod ucast base;
         if leading = 0 then Some (1, None, None, s)
         else do {
           let extra_bytes = ucast base - leading;
           (ret, rootfs_size, s) \<leftarrow> verify_squashfs data_check fl s (offset + extra_bytes) end;
           if ret = 0 then Some (0, Some (ucast extra_bytes), rootfs_size, s)
           else Some (1, None, None, s)
         }
       }
     }
   }"

section \<open>Copying an image\<close>

text \<open>
  The loop of \<open>copy_firmware\<close>, one erase block a turn. Its variables are the flash, the
  memory, \<^verbatim>\<open>src_offset\<close>, \<^verbatim>\<open>addr\<close> and \<^verbatim>\<open>sizeleft\<close>; it is left with the code to return (\<open>None\<close>:
  go on behind the loop), the flash, the memory and \<^verbatim>\<open>addr\<close>.
\<close>

definition copy_body :: "'s flash_ops \<Rightarrow> u32 \<Rightarrow> 's \<times> bytes \<times> u64 \<times> u64 \<times> u32
    \<Rightarrow> (int option \<times> 's \<times> bytes \<times> u64 + 's \<times> bytes \<times> u64 \<times> u64 \<times> u32) option" where
  "copy_body fl erasesize = (\<lambda>(s, ram, src_offset, addr, sizeleft).
     if sizeleft = 0 then Some (Inl (None, s, ram, addr))
     else do {
       let chunksz = (if sizeleft > erasesize then erasesize else sizeleft);
       (ret, ram, s) \<leftarrow> flash_load fl s ram 0 src_offset chunksz;
       if ret \<noteq> 0 then Some (Inl (Some (- EIO), s, ram, addr))
       else do {
         (ret, s) \<leftarrow> fl_erase fl s addr (ucast erasesize);
         if ret \<noteq> 0 then Some (Inl (Some (- EIO), s, ram, addr))
         else do {
           buff \<leftarrow> mem_read 0 (unat chunksz) ram;
           (ret, s) \<leftarrow> fl_write fl s addr chunksz buff;
           if ret \<noteq> 0 then Some (Inl (Some (- EIO), s, ram, addr))
           else do {
             (ret, ram, s) \<leftarrow> flash_load fl s ram (unat erasesize) addr chunksz;
             if ret \<noteq> 0 then Some (Inl (Some (- EIO), s, ram, addr))
             else do {
               buff \<leftarrow> mem_read 0 (unat chunksz) ram;
               verify \<leftarrow> mem_read (unat erasesize) (unat chunksz) ram;
               if buff \<noteq> verify then Some (Inl (Some 1, s, ram, addr))
               else Some (Inr (s, ram, src_offset + ucast chunksz, addr + ucast chunksz, sizeleft - chunksz))
             }
           }
         }
       }
     })"

definition copy_firmware :: "'s flash_ops \<Rightarrow> 's \<Rightarrow> bytes \<Rightarrow> u64 \<Rightarrow> u64 \<Rightarrow> u64 \<Rightarrow> bool
    \<Rightarrow> (int \<times> bytes \<times> 's) option" where
  "copy_firmware fl s ram src_offset dst_offset sz deadc0de = do {
     let erasesize = fl_erase_size fl s;
     (left, s, ram, addr) \<leftarrow> loop (copy_body fl erasesize) (s, ram, src_offset, dst_offset, ucast sz);
     case left of
       Some ret \<Rightarrow> Some (ret, ram, s)
     | None \<Rightarrow>
         if \<not> deadc0de then Some (0, ram, s)
         else do {
           let addr = (addr + ucast erasesize - 1) AND ucast (NOT (erasesize - 1));
           (ret, s) \<leftarrow> fl_erase fl s addr (ucast erasesize);
           if ret \<noteq> 0 then Some (- EIO, ram, s)
           else do {
             (ret, s) \<leftarrow> fl_write fl s addr 4 [0xde, 0xad, 0xc0, 0xde];
             if ret \<noteq> 0 then Some (- EIO, ram, s) else Some (0, ram, s)
           }
         }
   }"

section \<open>The check\<close>

text \<open>
  What the check finds out about one image: \<open>Inl\<close> when it has to give up, otherwise whether
  the image is good, and the sizes of its kernel, of the padding and of the root file system
  (0 for an output that was not stored, as the variables are initialised).
\<close>

record image_report =
  img_ok :: bool
  img_size :: u32
  img_padding :: u32
  img_rootfs :: u32

abbreviation (input) stored :: "u32 option \<Rightarrow> u32" where
  "stored x \<equiv> (case x of None \<Rightarrow> 0 | Some v \<Rightarrow> v)"

definition check_one_image :: "bool \<Rightarrow> fit_ops \<Rightarrow> 's flash_ops \<Rightarrow> 's \<Rightarrow> bytes \<Rightarrow> u64 \<Rightarrow> u64
    \<Rightarrow> (image_report option \<times> bytes \<times> 's) option" where
  "check_one_image data_check fit fl s ram off partsize = do {
     (ret, isize, ram, s) \<leftarrow> verify_image fit fl s ram off partsize;
     if ret < 0 then Some (None, ram, s)
     else if ret = 0 then do {
       let sz = stored isize;
       (ret, padding, rootfs, s) \<leftarrow> verify_rootfs data_check fl s (off + ucast sz) (partsize - ucast sz);
       Some (Some \<lparr>img_ok = (ret = 0), img_size = sz, img_padding = stored padding,
         img_rootfs = stored rootfs\<rparr>, ram, s)
     }
     else Some (Some \<lparr>img_ok = False, img_size = stored isize, img_padding = 0, img_rootfs = 0\<rparr>, ram, s)
   }"

text \<open>How much of a good image is copied.\<close>

definition image_total_size :: "bool \<Rightarrow> image_report \<Rightarrow> u64" where
  "image_total_size kernel_only r =
     (if kernel_only then ucast (img_size r)
      else ucast (img_size r) + ucast (img_padding r + img_rootfs r))"

definition dual_image_check :: "bool \<Rightarrow> bool \<Rightarrow> fit_ops \<Rightarrow> part_table \<Rightarrow> string \<Rightarrow> string
    \<Rightarrow> 's flash_ops \<Rightarrow> 's option \<Rightarrow> bytes \<Rightarrow> (int \<times> bytes \<times> 's option) option" where
  "dual_image_check data_check kernel_only fit tab main backup fl flashp ram =
     (case flashp of
        None \<Rightarrow> Some (-1, ram, None)
      | Some s \<Rightarrow>
        (case (get_mtd_part_info tab main, get_mtd_part_info tab backup) of
           (Inr (image1_off, image1_partsize), Inr (image2_off, image2_partsize)) \<Rightarrow> do {
             (r1, ram, s) \<leftarrow> check_one_image data_check fit fl s ram image1_off image1_partsize;
             case r1 of
               None \<Rightarrow> Some (0, ram, Some s)
             | Some r1 \<Rightarrow> do {
                 (r2, ram, s) \<leftarrow> check_one_image data_check fit fl s ram image2_off image2_partsize;
                 case r2 of
                   None \<Rightarrow> Some (0, ram, Some s)
                 | Some r2 \<Rightarrow>
                     if \<not> img_ok r1 \<and> \<not> img_ok r2 then Some (3, ram, Some s)
                     else if img_ok r1 \<and> img_ok r2 then Some (0, ram, Some s)
                     else if \<not> img_ok r2 then
                       if image_total_size kernel_only r1 > image2_partsize then Some (4, ram, Some s)
                       else do {
                         (ret, ram, s) \<leftarrow> copy_firmware fl s ram image1_off image2_off
                           (image_total_size kernel_only r1) (\<not> kernel_only);
                         Some (ret, ram, Some s)
                       }
                     else
                       if image_total_size kernel_only r2 > image1_partsize then Some (4, ram, Some s)
                       else do {
                         (ret, ram, s) \<leftarrow> copy_firmware fl s ram image2_off image1_off
                           (image_total_size kernel_only r2) (\<not> kernel_only);
                         Some (ret, ram, Some s)
                       }
               }
           }
         | _ \<Rightarrow> Some (-1, ram, Some s)))"

section \<open>Copying terminates\<close>

text \<open>On every flash that answers, whatever it answers.\<close>

context flash
begin

lemma load_wp:
  assumes "ok s" and "dst + unat len \<le> length ram"
    and "\<And>ret ram' s'. length ram' = length ram \<Longrightarrow> ok s' \<Longrightarrow> fl_erase_size fl s' = fl_erase_size fl s \<Longrightarrow>
      Q (ret, ram', s')"
  shows "returns (flash_load fl s ram dst off len) Q"
proof -
  have "unat len \<le> length (take (unat len) (drop dst ram))" using assms(2) by simp
  from read_total [OF assms(1) this, of off] show ?thesis
    using assms(2,3) by (auto simp: flash_load_def ret_simps elim!: returns_mono)
qed

lemma write_wp:
  assumes "ok s" and "unat len \<le> length buf"
    and "\<And>ret s'. ok s' \<Longrightarrow> fl_erase_size fl s' = fl_erase_size fl s \<Longrightarrow> Q (ret, s')"
  shows "returns (fl_write fl s off len buf) Q"
  using write_total [OF assms(1,2), of off] by (rule returns_mono) (auto intro: assms(3))

lemma erase_wp:
  assumes "ok s"
    and "\<And>ret s'. ok s' \<Longrightarrow> fl_erase_size fl s' = fl_erase_size fl s \<Longrightarrow> Q (ret, s')"
  shows "returns (fl_erase fl s off len) Q"
  using erase_total [OF assms(1), of off len] by (rule returns_mono) (auto intro: assms(2))

lemma copy_loop_total:
  assumes "ok s" and "0 < es" and "2 * unat es \<le> length ram"
  shows "returns (loop (copy_body fl es) (s, ram, src, dst, sz)) (\<lambda>(left, s', ram', addr).
    ok s' \<and> length ram' = length ram \<and> left \<in> {None, Some (- EIO), Some 1})"
proof (rule loop_rule [where m = "\<lambda>(_, _, _, _, left). unat left" and
      I = "\<lambda>(s', ram', _, _, _). ok s' \<and> length ram' = length ram"], goal_cases)
  case 1
  show ?case using assms by simp
next
  case (2 x)
  obtain s' ram' so ad left where x: "x = (s', ram', so, ad, left)" by (cases x)
  define ch where "ch = (if left > es then es else left)"
  have ok: "ok s'" and len: "length ram' = length ram" using 2 by (simp_all add: x)
  show ?case
  proof (cases "left = 0")
    case True
    with ok len show ?thesis by (simp add: x copy_body_def)
  next
    case False
    have ch: "unat ch \<le> unat es" "ch \<le> left" "0 < unat ch"
      using False assms(2) by (auto simp: ch_def word_le_nat_alt word_less_nat_alt unat_gt_0)
    have less: "unat (left - ch) < unat left" using ch False by (simp add: unat_sub word_le_nat_alt unat_gt_0)
    have room: "unat ch \<le> length ram" "unat es + unat ch \<le> length ram" using ch(1) assms(3) by auto
    show ?thesis
      using False ok len room less
      by (auto simp: x copy_body_def ch_def [symmetric] ret_simps Let_def
          intro!: load_wp write_wp erase_wp)
  qed
qed

lemma copy_firmware_returns:
  assumes "ok s" and "0 < fl_erase_size fl s" and "2 * unat (fl_erase_size fl s) \<le> length ram"
  shows "returns (copy_firmware fl s ram src dst sz deadc0de) (\<lambda>(ret, ram', s').
    ok s' \<and> length ram' = length ram \<and> ret \<in> {0, 1, - EIO})"
  unfolding copy_firmware_def Let_def returns_bind
  by (rule returns_mono [OF copy_loop_total [OF assms(1,2) assms(3)]])
    (auto simp: ret_simps split: option.splits intro!: erase_wp write_wp)

end

section \<open>Copying copies\<close>

lemma dvd_next:
  assumes "(a :: nat) < b" and "d dvd a" and "d dvd b"
  shows "a + d \<le> b"
proof -
  obtain q r where "a = d * q" "b = d * r" using assms(2,3) by blast
  with assms(1) have "d * Suc q \<le> d * r" by (intro mult_le_mono2) simp
  with \<open>a = d * q\<close> \<open>b = d * r\<close> show ?thesis by simp
qed

lemma div_less_dvd: "(a :: nat) < b \<Longrightarrow> d dvd b \<Longrightarrow> 0 < d \<Longrightarrow> a div d < b div d"
  by (metis dvd_mult_div_cancel div_less_iff_less_mult mult.commute)

lemma le_roundup: "0 < d \<Longrightarrow> n \<le> (n + d - 1) div d * (d :: nat)"
proof -
  assume "0 < d"
  then have "(n + d - 1) mod d \<le> d - 1" using mod_less_divisor [of d "n + d - 1"] by linarith
  then show ?thesis using \<open>0 < d\<close> by (simp add: minus_mod_eq_div_mult [symmetric])
qed

lemma unat_and_not_mask:
  assumes "k \<le> 32" and "unat (x :: u64) < 2 ^ 32"
  shows "unat (x AND ucast (NOT (mask k :: u32))) = unat x - unat x mod 2 ^ k"
proof -
  have "x AND ucast (NOT (mask k :: u32)) = x AND NOT (mask k)"
  proof (rule bit_word_eqI)
    fix n assume n: "n < LENGTH(64)"
    have "\<not> bit x n" if "32 \<le> n"
    proof -
      have "unat x < 2 ^ n" using assms(2) that power_increasing [of 32 n "2::nat"] by simp
      then have "\<not> bit (unat x) n" by (simp add: bit_iff_odd)
      then show ?thesis by (simp add: bit_unsigned_iff)
    qed
    then show "bit (x AND ucast (NOT (mask k :: u32))) n = bit (x AND NOT (mask k)) n"
      using n by (cases "n < 32") (auto simp: bit_and_iff bit_not_iff bit_unsigned_iff bit_mask_iff)
  qed
  also have "\<dots> = x AND NOT (take_bit k x)"
    by (rule bit_word_eqI) (auto simp: bit_and_iff bit_not_iff bit_mask_iff bit_take_bit_iff)
  also have "\<dots> = x - take_bit k x"
    by (rule disjunctive_diff_eq_and_not [symmetric], rule bit_word_eqI) (auto simp: bit_and_iff bit_not_iff bit_take_bit_iff)
  finally have eq: "x AND ucast (NOT (mask k :: u32)) = x - take_bit k x" .
  have t: "unat (take_bit k x) = unat x mod 2 ^ k" by (simp only: unsigned_take_bit_eq) (simp only: take_bit_eq_mod)
  then have "take_bit k x \<le> x" by (simp add: word_le_nat_alt)
  then show ?thesis unfolding eq by (simp add: unat_sub t)
qed

text \<open>\<^verbatim>\<open>(addr + erasesize - 1) & ~(erasesize - 1)\<close>, below 4 GiB.\<close>

lemma unat_roundup:
  assumes "unat e = 2 ^ k" and "unat addr + unat e \<le> 2 ^ 32"
  shows "unat ((addr + ucast e - 1) AND ucast (NOT (e - 1) :: u32) :: u64) = (unat addr + unat e - 1) div unat e * unat e"
proof -
  have k: "k < 32" using assms(1) unat_u32_less [of e] power_less_imp_less_exp [of 2 k 32] by simp
  have "e = of_nat (unat e)" by simp
  then have "e - 1 = mask k" unfolding assms(1) by (simp add: mask_eq_exp_minus_1)
  moreover have "unat (addr + ucast e) = unat addr + unat e"
    using assms(2) by (simp add: unat_word_ariths)
  moreover have "addr + ucast e \<noteq> 0" using calculation(2) assms(1) by auto
  ultimately have x: "e - 1 = mask k" "unat (addr + ucast e - 1) = unat addr + unat e - 1"
    using unat_dec [of "addr + ucast e"] by simp_all
  have "unat (addr + ucast e - 1) < 2 ^ 32" using x(2) assms by simp
  from unat_and_not_mask [OF _ this, of k] k show ?thesis
    unfolding x assms(1) by (simp add: minus_mod_eq_div_mult)
qed

context storage
begin

lemma load_data:
  assumes "ok s" and "unat off + unat len \<le> cap" and "dst + unat len \<le> length ram" and "len \<noteq> 0"
  obtains s' where "ok s'" "content s' = content s"
    "flash_load fl s ram dst off len = Some (0, take dst ram @
       map (\<lambda>i. content s (unat off + i)) [0..<unat len] @ drop (dst + unat len) ram, s')"
proof -
  let ?buf = "take (unat len) (drop dst ram)"
  have "unat len \<le> length ?buf" using assms(3) by simp
  from reads [OF assms(1,2) this assms(4)] obtain s' where
    "fl_read fl s off len ?buf = Some (0, map (\<lambda>i. content s (unat off + i)) [0..<unat len] @ drop (unat len) ?buf, s')"
    "ok s'" "content s' = content s" by blast
  with assms(3) show ?thesis
    by (intro that) (simp_all add: flash_load_def mem_read_def mem_write_def)
qed

text \<open>A block that is erased and then programmed from its start.\<close>

lemma block_programmed:
  assumes "ok s" and "es dvd addr" and "addr + es \<le> cap" and "length d \<le> es" and "d \<noteq> []"
    and e: "\<forall>a < cap. blanked es addr es c c1 a" and w: "\<forall>a < cap. written ws addr d c1 c2 a"
  shows "i < length d \<Longrightarrow> c2 (addr + i) = d ! i"
    and "a < cap \<Longrightarrow> a div es \<noteq> addr div es \<Longrightarrow> c2 a = c a"
proof -
  have z: "0 < es" "ws dvd es" "0 < ws" using sizes(2) [OF assms(1)] by auto
  show "c2 (addr + i) = d ! i" if i: "i < length d"
  proof -
    have a: "addr + i < cap" using i assms(3,4) by simp
    have "(addr + i) div es \<le> (addr + es - 1) div es" "addr div es \<le> (addr + i) div es"
      using i assms(4) by (auto intro: div_le_mono)
    then have "c1 (addr + i) = 0xff" using e a by (simp add: blanked_def)
    moreover have "written ws addr d c1 c2 (addr + i)" using w a by blast
    ultimately show ?thesis using i by (simp add: written_def ff_and)
  qed
  show "c2 a = c a" if a: "a < cap" "a div es \<noteq> addr div es"
  proof -
    obtain q where q: "addr = es * q" using assms(2) by blast
    have pos: "0 < length d" using assms(5) by simp
    have last: "(addr + es - 1) div es = addr div es" using z(1) q by (intro div_nat_eqI) auto
    have "(addr + length d - 1) div es = addr div es"
    proof -
      have eq: "addr + length d - 1 = length d - 1 + q * es" using pos q by (cases d) simp_all
      have "length d - 1 < es" using pos assms(4) by linarith
      then show ?thesis unfolding eq unfolding q using z(1) by simp
    qed
    then have "a < addr \<or> (addr + length d - 1) div ws < a div ws \<and> addr + length d \<le> a"
      using a(2) z page_after [OF z(2), of "addr + length d - 1" a] block_before [of a es addr]
        block_before [of "addr + length d - 1" es a] by (cases "a div es < addr div es") auto
    moreover have "c1 a = c a" using e a last by (auto simp: blanked_def)
    moreover have "written ws addr d c1 c2 a" using w a by blast
    ultimately show ?thesis by (auto simp: written_def)
  qed
qed

text \<open>One turn of the copy loop: the block of \<open>addr\<close> starts with the source's bytes, the others are as before.\<close>

lemma copy_step:
  assumes "ok s" and "unat src + unat ch \<le> cap" and "unat addr + es \<le> cap" and "es dvd unat addr"
    and "ch = (if left > e then e else left)" and "left \<noteq> 0" and "unat e = es" and "2 * es \<le> length ram"
  obtains s' ram' where "ok s'" "length ram' = length ram"
    "copy_body fl e (s, ram, src, addr, left) = Some (Inr (s', ram', src + ucast ch, addr + ucast ch, left - ch))"
    "\<forall>i < unat ch. content s' (unat addr + i) = content s (unat src + i)"
    "\<forall>a < cap. a div es \<noteq> unat addr div es \<longrightarrow> content s' a = content s a"
proof -
  have z: "0 < es" "ws dvd es" "0 < ws" using sizes(2) [OF assms(1)] by auto
  have ch: "unat ch \<le> es" "ch \<noteq> 0" "0 < unat ch"
    using assms(5-7) z(1) by (auto simp: word_less_nat_alt unat_gt_0 split: if_splits)
  let ?d = "map (\<lambda>i. content s (unat src + i)) [0..<unat ch]"
  obtain s1 where s1: "ok s1" "content s1 = content s"
    and l1: "flash_load fl s ram 0 src ch = Some (0, ?d @ drop (unat ch) ram, s1)"
    by (rule load_data [OF assms(1,2) _ ch(2), of 0 ram]) (use ch assms(8) in auto)
  have ee: "unat (ucast e :: u64) = es" "(ucast e :: u64) \<noteq> 0" using assms(7) z(1) by (auto simp: word_unat_eq_iff)
  obtain s2 where s2: "ok s2" "fl_erase fl s1 addr (ucast e) = Some (0, s2)"
    and e2: "\<forall>a < cap. blanked es (unat addr) es (content s1) (content s2) a"
    using erases [OF s1(1), of addr "ucast e"] assms(3) ee by auto
  have in_cap: "unat addr + unat ch \<le> cap" using assms(3) ch(1) by simp
  obtain s3 where s3: "ok s3" "fl_write fl s2 addr ch ?d = Some (0, s3)"
    and w3: "\<forall>a < cap. written ws (unat addr) ?d (content s2) (content s3) a"
    using writes [OF s2(1) in_cap _ ch(2), of ?d] by auto
  let ?ram = "?d @ drop (unat ch) ram"
  obtain s4 where s4: "ok s4" "content s4 = content s3"
    and l4: "flash_load fl s3 ?ram es addr ch = Some (0, take es ?ram @
       map (\<lambda>i. content s3 (unat addr + i)) [0..<unat ch] @ drop (es + unat ch) ?ram, s4)"
    by (rule load_data [OF s3(1) in_cap _ ch(2), of es ?ram]) (use ch assms(8) in auto)
  have d: "length ?d \<le> es" "?d \<noteq> []" using ch by simp_all
  note bp = block_programmed [OF assms(1,4,3) d e2 w3]
  have new: "content s3 (unat addr + i) = content s (unat src + i)" if "i < unat ch" for i
    using bp(1) [of i] that by simp
  then have "map (\<lambda>i. content s3 (unat addr + i)) [0..<unat ch] = ?d" by simp
  with l4 have l4: "flash_load fl s3 ?ram es addr ch = Some (0, take es ?ram @ ?d @ drop (es + unat ch) ?ram, s4)" by simp
  have "copy_body fl e (s, ram, src, addr, left) =
      Some (Inr (s4, take es ?ram @ ?d @ drop (es + unat ch) ?ram, src + ucast ch, addr + ucast ch, left - ch))"
    using assms(5-8) ch s2(2) s3(2) l1 l4
    by (simp add: copy_body_def Let_def mem_read_def assms(5) [symmetric])
  then show ?thesis
    by (rule that [OF s4(1), rotated]) (use new bp(2) s1(2) s4(2) ch assms(8) in auto)
qed

text \<open>Addresses outside the blocks of a range.\<close>

abbreviation outside :: "nat \<Rightarrow> nat \<Rightarrow> nat \<Rightarrow> bool" where
  "outside dst n a \<equiv> a div es < dst div es \<or> (dst + n - 1) div es < a div es"

lemma copy_loop_copies:
  assumes "ok s" and "unat e = es" and "2 * es \<le> length ram" and "unat src + unat sz \<le> cap"
    and "unat dst + unat sz \<le> cap" and "es dvd unat dst"
    and apart: "\<forall>i < unat sz. outside (unat dst) (unat sz) (unat src + i)"
  shows "returns (loop (copy_body fl e) (s, ram, src, dst, sz)) (\<lambda>(ret, s', ram', addr).
    ret = None \<and> ok s' \<and> length ram' = length ram \<and> unat addr = unat dst + unat sz \<and>
    (\<forall>i < unat sz. content s' (unat dst + i) = content s (unat src + i)) \<and>
    (\<forall>a < cap. outside (unat dst) (unat sz) a \<longrightarrow> content s' a = content s a))"
proof (rule loop_rule [where m = "\<lambda>(_, _, _, _, left). unat left" and
      I = "\<lambda>(s', ram', so, ad, left). ok s' \<and> length ram' = length ram \<and> unat left \<le> unat sz \<and>
        unat so = unat src + (unat sz - unat left) \<and> unat ad = unat dst + (unat sz - unat left) \<and>
        (left \<noteq> 0 \<longrightarrow> es dvd unat ad) \<and>
        (\<forall>i < unat sz - unat left. content s' (unat dst + i) = content s (unat src + i)) \<and>
        (\<forall>a < cap. outside (unat dst) (unat sz) a \<longrightarrow> content s' a = content s a)"], goal_cases)
  case 1
  show ?case using assms by simp
next
  case (2 x)
  obtain s' ram' so ad left where x: "x = (s', ram', so, ad, left)" by (cases x)
  have ok: "ok s'" and len: "length ram' = length ram" and left: "unat left \<le> unat sz"
    and so: "unat so = unat src + (unat sz - unat left)" and ad: "unat ad = unat dst + (unat sz - unat left)"
    and al: "left \<noteq> 0 \<Longrightarrow> es dvd unat ad"
    and got: "\<forall>i < unat sz - unat left. content s' (unat dst + i) = content s (unat src + i)"
    and frame: "\<forall>a < cap. outside (unat dst) (unat sz) a \<longrightarrow> content s' a = content s a"
    using 2 unfolding x prod.case by blast+
  show ?case
  proof (cases "left = 0")
    case True
    with ok len ad got frame show ?thesis by (simp add: x copy_body_def)
  next
    case False
    have z: "0 < es" "es dvd cap" "cap < 2 ^ 64" using sizes(2) [OF assms(1)] by auto
    define ch where "ch = (if left > e then e else left)"
    have ch: "unat ch \<le> es" "unat ch \<le> unat left" "0 < unat ch" "ch \<noteq> left \<Longrightarrow> unat ch = es"
      using False assms(2) z(1) by (auto simp: ch_def word_less_nat_alt unat_gt_0 split: if_splits)
    have pos: "0 < unat left" using False by (simp add: unat_gt_0)
    have src_cap: "unat so + unat ch \<le> cap" using so ch(2) left assms(4) by simp
    have "unat ad < cap" using ad pos left assms(5) by simp
    then have dst_cap: "unat ad + es \<le> cap" using al [OF False] z(2) by (rule dvd_next)
    obtain s2 ram2 where s2: "ok s2" "length ram2 = length ram'"
      and st: "copy_body fl e (s', ram', so, ad, left) = Some (Inr (s2, ram2, so + ucast ch, ad + ucast ch, left - ch))"
      and new: "\<forall>i < unat ch. content s2 (unat ad + i) = content s' (unat so + i)"
      and keep: "\<forall>a < cap. a div es \<noteq> unat ad div es \<longrightarrow> content s2 a = content s' a"
      by (rule copy_step [OF ok src_cap dst_cap al [OF False] ch_def False assms(2) assms(3) [folded len]])
    have left': "unat (left - ch) = unat left - unat ch" using ch(2) by (simp add: unat_sub word_le_nat_alt)
    have words: "unat (so + ucast ch) = unat so + unat ch" "unat (ad + ucast ch) = unat ad + unat ch"
      using src_cap dst_cap ch(1) z(3) by (simp_all add: unat_word_ariths)
    have in_blocks: "\<not> outside (unat dst) (unat sz) (unat ad)"
      using ad pos left by (auto simp: not_less intro: div_le_mono)
    have other: "content s2 a = content s a" if "a < cap" "outside (unat dst) (unat sz) a" for a
      using that keep frame in_blocks by (metis)
    have "content s2 (unat dst + i) = content s (unat src + i)" if i: "i < unat sz - unat (left - ch)" for i
    proof (cases "i < unat sz - unat left")
      case True
      have "unat dst + i < unat ad" using True ad by simp
      then have "(unat dst + i) div es \<noteq> unat ad div es" using div_less_dvd [OF _ al [OF False] z(1)] by (metis less_irrefl)
      moreover have "unat dst + i < cap" using True assms(5) by simp
      ultimately show ?thesis using keep got True by simp
    next
      case no: False
      define j where "j = i - (unat sz - unat left)"
      have j: "j < unat ch" "unat dst + i = unat ad + j" "unat so + j = unat src + i"
        using no i ad so left' left ch(2) by (auto simp: j_def)
      have "unat src + i < cap" "i < unat sz" using j src_cap i by auto
      then have "content s' (unat src + i) = content s (unat src + i)" using frame apart by blast
      then show ?thesis using new j by metis
    qed
    moreover have "es dvd unat (ad + ucast ch)" if "left - ch \<noteq> 0"
      unfolding words(2) using al [OF False] ch(4) that by auto
    moreover have "unat (so + ucast ch) = unat src + (unat sz - unat (left - ch))"
      "unat (ad + ucast ch) = unat dst + (unat sz - unat (left - ch))"
      "unat (left - ch) \<le> unat sz" "unat (left - ch) < unat left"
      using words so ad left left' ch(2,3) pos by auto
    ultimately show ?thesis
      using s2 len other unfolding x st returns_Some sum.case prod.case by simp
  qed
qed

lemma copy_firmware_copies:
  assumes "ok s" and "2 * es \<le> length ram" and "unat sz < 2 ^ 32" and "unat src + unat sz \<le> cap"
    and "unat dst + unat sz \<le> cap" and "es dvd unat dst"
    and "\<forall>i < unat sz. outside (unat dst) (unat sz) (unat src + i)"
  obtains s' ram' where "ok s'" "length ram' = length ram" "copy_firmware fl s ram src dst sz False = Some (0, ram', s')"
    "\<forall>i < unat sz. content s' (unat dst + i) = content s (unat src + i)"
    "\<forall>a < cap. outside (unat dst) (unat sz) a \<longrightarrow> content s' a = content s a"
proof -
  have sz: "unat (ucast sz :: u32) = unat sz" using assms(3) by (simp add: unat_ucast_u32)
  from copy_loop_copies [OF assms(1) sizes(1) [OF assms(1)] assms(2), of src "ucast sz" dst, unfolded sz, OF assms(4-7)]
  show ?thesis
    by (auto simp: returns_iff copy_firmware_def Let_def intro: that)
qed

text \<open>
  With the end-of-filesystem marker: it goes to the next block boundary behind the copy,
  and its block is erased first.
\<close>

abbreviation roundup :: "nat \<Rightarrow> nat" where
  "roundup n \<equiv> (n + es - 1) div es * es"

lemma write_marker:
  fixes e :: u32
  assumes "ok s" and "es dvd unat addr" and "unat addr + es \<le> cap" and "unat e = es" and "4 \<le> es"
  obtains s1 s2 where "fl_erase fl s addr (ucast e) = Some (0, s1)"
    "fl_write fl s1 addr 4 [0xde, 0xad, 0xc0, 0xde] = Some (0, s2)" "ok s2"
    "\<forall>i < 4. content s2 (unat addr + i) = [0xde, 0xad, 0xc0, 0xde] ! i"
    "\<forall>a < cap. a div es \<noteq> unat addr div es \<longrightarrow> content s2 a = content s a"
proof -
  have z: "0 < es" "ws dvd es" "0 < ws" using sizes(2) [OF assms(1)] by auto
  have ee: "unat (ucast e :: u64) = es" "(ucast e :: u64) \<noteq> 0" using assms(4) z(1) by (auto simp: word_unat_eq_iff)
  obtain s1 where s1: "ok s1" "fl_erase fl s addr (ucast e) = Some (0, s1)"
    and e1: "\<forall>a < cap. blanked es (unat addr) es (content s) (content s1) a"
    using erases [OF assms(1), of addr "ucast e"] assms(3) ee by auto
  let ?d = "[0xde, 0xad, 0xc0, 0xde] :: bytes"
  obtain s2 where s2: "ok s2" "fl_write fl s1 addr 4 ?d = Some (0, s2)"
    and w2: "\<forall>a < cap. written ws (unat addr) ?d (content s1) (content s2) a"
    using writes [OF s1(1), of addr 4 ?d] assms(3,5) by auto
  show ?thesis
  proof (rule that [OF s1(2) s2(2,1)])
    show "\<forall>i < 4. content s2 (unat addr + i) = ?d ! i"
      using block_programmed(1) [OF assms(1-3) _ _ e1 w2] assms(5) by simp
    show "\<forall>a < cap. a div es \<noteq> unat addr div es \<longrightarrow> content s2 a = content s a"
      using block_programmed(2) [OF assms(1-3) _ _ e1 w2] assms(5) by simp
  qed
qed

lemma copy_firmware_marks:
  assumes "ok s" and "2 * es \<le> length ram" and "unat sz < 2 ^ 32" and "unat src + unat sz \<le> cap"
    and "es dvd unat dst" and "\<forall>i < unat sz. outside (unat dst) (unat sz) (unat src + i)"
    and "es = 2 ^ k" and "2 \<le> k" and "cap \<le> 2 ^ 32" and room: "roundup (unat dst + unat sz) + es \<le> cap"
  obtains s' ram' where "ok s'" "length ram' = length ram" "copy_firmware fl s ram src dst sz True = Some (0, ram', s')"
    "\<forall>i < unat sz. content s' (unat dst + i) = content s (unat src + i)"
    "\<forall>i < 4. content s' (roundup (unat dst + unat sz) + i) = [0xde, 0xad, 0xc0, 0xde] ! i"
    "\<forall>a < cap. outside (unat dst) (unat sz) a \<longrightarrow> a div es \<noteq> roundup (unat dst + unat sz) div es \<longrightarrow>
      content s' a = content s a"
proof -
  let ?e = "fl_erase_size fl s" and ?n = "unat dst + unat sz"
  have e: "unat ?e = es" by (rule sizes(1) [OF assms(1)])
  have es: "0 < es" "es dvd cap" using sizes(2) [OF assms(1)] by auto
  have up: "?n \<le> roundup ?n" using es(1) by (rule le_roundup)
  have sz: "unat (ucast sz :: u32) = unat sz" using assms(3) by (simp add: unat_ucast_u32)
  have dst: "unat dst + unat sz \<le> cap" using room up by simp
  from copy_loop_copies [OF assms(1) e assms(2), of src "ucast sz" dst, unfolded sz, OF assms(4) dst assms(5,6)]
  obtain s1 ram' addr where l: "loop (copy_body fl ?e) (s, ram, src, dst, ucast sz) = Some (None, s1, ram', addr)"
    and s1: "ok s1" "length ram' = length ram" and addr: "unat addr = ?n"
    and data: "\<forall>i < unat sz. content s1 (unat dst + i) = content s (unat src + i)"
    and frame: "\<forall>a < cap. outside (unat dst) (unat sz) a \<longrightarrow> content s1 a = content s a"
    by (auto simp: returns_iff)
  let ?addr = "(addr + ucast ?e - 1) AND ucast (NOT (?e - 1))"
  have a: "unat ?addr = roundup ?n"
    using unat_roundup [of ?e k addr] e assms(7,9) addr room up by simp
  have dv: "es dvd unat ?addr" unfolding a by simp
  have rm: "unat ?addr + es \<le> cap" using room unfolding a .
  have "4 \<le> es" using assms(7,8) power_increasing [of 2 k "2::nat"] by simp
  from write_marker [OF s1(1) dv rm e this] obtain s2 s3 where
    w: "fl_erase fl s1 ?addr (ucast ?e) = Some (0, s2)" "fl_write fl s2 ?addr 4 [0xde, 0xad, 0xc0, 0xde] = Some (0, s3)" "ok s3"
    and m: "\<forall>i < 4. content s3 (unat ?addr + i) = [0xde, 0xad, 0xc0, 0xde] ! i"
    and f: "\<forall>a < cap. a div es \<noteq> unat ?addr div es \<longrightarrow> content s3 a = content s1 a" by blast
  show ?thesis
  proof (rule that [OF w(3) s1(2)])
    show "copy_firmware fl s ram src dst sz True = Some (0, ram', s3)"
      using l w(1,2) by (simp add: copy_firmware_def Let_def)
    show "\<forall>i < 4. content s3 (roundup ?n + i) = [0xde, 0xad, 0xc0, 0xde] ! i" using m unfolding a .
    show "\<forall>a < cap. outside (unat dst) (unat sz) a \<longrightarrow> a div es \<noteq> roundup ?n div es \<longrightarrow> content s3 a = content s a"
      using f frame unfolding a by simp
    show "\<forall>i < unat sz. content s3 (unat dst + i) = content s (unat src + i)"
    proof (intro allI impI)
      fix i assume i: "i < unat sz"
      have "(unat dst + i) div es < roundup ?n div es"
        by (rule div_less_dvd) (use i up es in auto)
      then show "content s3 (unat dst + i) = content s (unat src + i)" using f data i dst unfolding a by simp
    qed
  qed
qed

end

section \<open>Checking and restoring\<close>

lemma outside_partition:
  assumes "(n :: nat) \<le> len" and "d dvd off" and "d dvd len" and "0 < d" and "0 < len"
    and "a < off \<or> off + len \<le> a"
  shows "a div d < off div d \<or> (off + n - 1) div d < a div d"
proof (cases "a < off")
  case True
  then show ?thesis using div_less_dvd [OF _ assms(2,4)] by simp
next
  case False
  then have a: "off + len \<le> a" using assms(6) by simp
  have "off + n - 1 < off + len" using assms(1,5) by linarith
  then have "(off + n - 1) div d < (off + len) div d" by (rule div_less_dvd) (use assms in auto)
  also have "\<dots> \<le> a div d" using a by (rule div_le_mono)
  finally show ?thesis by simp
qed

lemmas pure_wlp =
  yieldsI [where m = "image_check_hcrc m" for m] yieldsI [where m = "image_check_dcrc m" for m]
  yieldsI [where m = "genimg_get_format fit m" for fit m] yieldsI [where m = "fit_get_size m" for m]
  yieldsI [where m = "mem_read off n m" for off n m]

context storage
begin

text \<open>Verifying only reads.\<close>

definition kept :: "'s \<Rightarrow> 's \<Rightarrow> bool" where
  "kept s s' \<longleftrightarrow> ok s' \<and> content s' = content s"

lemma kept_trans: "kept a b \<Longrightarrow> kept b c \<Longrightarrow> kept a c" and kept_ok: "kept a b \<Longrightarrow> ok b" and kept_refl: "ok a \<Longrightarrow> kept a a"
  by (simp_all add: kept_def)

lemma read_wlp:
  assumes "ok s" and "unat len \<le> length buf"
    and "\<And>ret buf' s'. kept s s' \<Longrightarrow> length buf' = length buf \<Longrightarrow> Q (ret, buf', s')"
  shows "yields (fl_read fl s off len buf) Q"
  using tries [OF assms(1,2), of off] assms(3) by (auto simp: yields_def kept_def)

lemma load_wlp:
  assumes "ok s" and "\<And>ret ram' s'. kept s s' \<Longrightarrow> length ram' = length ram \<Longrightarrow> Q (ret, ram', s')"
  shows "yields (flash_load fl s ram dst off len) Q"
proof (cases "dst + unat len \<le> length ram")
  case True
  then show ?thesis
    using assms by (auto simp: flash_load_def yield_simps mem_read_def mem_write_def intro!: read_wlp)
next
  case False
  then show ?thesis by (simp add: flash_load_def yield_simps mem_read_def)
qed

abbreviation image_checked :: "'s \<Rightarrow> bytes \<Rightarrow> u64 \<Rightarrow> int \<times> u32 option \<times> bytes \<times> 's \<Rightarrow> bool" where
  "image_checked s ram n \<equiv> \<lambda>(ret, isize, ram', s'). kept s s' \<and> length ram' = length ram \<and>
     (ret = 0 \<longrightarrow> (\<exists>sz. isize = Some sz \<and> unat sz \<le> unat n))"

lemma verify_legacy_image_keeps:
  "ok s \<Longrightarrow> yields (verify_legacy_image fl s ram off n) (image_checked s ram n)"
  unfolding verify_legacy_image_def Let_def
  by (auto simp: yield_simps not_less word_le_nat_alt kept_refl intro!: pure_wlp load_wlp)

lemma verify_fit_image_keeps:
  "ok s \<Longrightarrow> yields (verify_fit_image fit fl s ram off n) (image_checked s ram n)"
  unfolding verify_fit_image_def Let_def
  by (auto simp: yield_simps not_less word_le_nat_alt kept_refl intro!: pure_wlp load_wlp)

lemma verify_image_keeps:
  assumes "ok s"
  shows "yields (verify_image fit fl s ram off n) (image_checked s ram n)"
proof -
  have *: "yields m (image_checked s ram n)"
    if "kept s s1" "length ram1 = length ram" "yields m (image_checked s1 ram1 n)" for s1 ram1 m
    using that(3) by (rule yields_mono) (use that(1,2) in \<open>auto intro: kept_trans\<close>)
  show ?thesis
    unfolding verify_image_def
    by (auto simp: yield_simps assms kept_refl intro!: pure_wlp load_wlp split: image_format.split
        intro: * [OF _ _ verify_legacy_image_keeps] * [OF _ _ verify_fit_image_keeps] kept_ok)
qed

lemma verify_squashfs_keeps: "ok s \<Longrightarrow> yields (verify_squashfs dc fl s off e) (\<lambda>(ret, rsize, s'). kept s s')"
  unfolding verify_squashfs_def Let_def
  by (auto simp: yield_simps kept_refl intro!: read_wlp intro: kept_ok kept_trans)

lemma verify_squashfs_wlp:
  assumes "ok s" and "\<And>ret rsize s'. kept s s' \<Longrightarrow> Q (ret, rsize, s')"
  shows "yields (verify_squashfs dc fl s off e) Q"
  using verify_squashfs_keeps [OF assms(1)] by (rule yields_mono) (auto intro: assms(2))

lemma verify_rootfs_keeps: "ok s \<Longrightarrow> yields (verify_rootfs dc fl s off n) (\<lambda>(ret, pad, rsize, s'). kept s s')"
  unfolding verify_rootfs_def Let_def
  by (auto simp: yield_simps kept_refl intro!: verify_squashfs_wlp intro: kept_ok kept_trans)

lemma verify_rootfs_wlp:
  assumes "ok s" and "\<And>ret pad rsize s'. kept s s' \<Longrightarrow> Q (ret, pad, rsize, s')"
  shows "yields (verify_rootfs dc fl s off n) Q"
  using verify_rootfs_keeps [OF assms(1)] by (rule yields_mono) (auto intro: assms(2))

lemma check_one_image_keeps:
  assumes "ok s"
  shows "yields (check_one_image dc fit fl s ram off n) (\<lambda>(r, ram', s'). kept s s' \<and> length ram' = length ram \<and>
    (\<forall>rep. r = Some rep \<longrightarrow> img_ok rep \<longrightarrow> unat (img_size rep) \<le> unat n))"
  unfolding check_one_image_def Let_def yields_bind
proof (rule yields_mono [OF verify_image_keeps [OF assms]], clarify, goal_cases)
  case (1 ret isize ram1 s1)
  then show ?case
    by (auto simp: yield_simps intro!: verify_rootfs_wlp [OF kept_ok] intro: kept_trans)
qed

text \<open>
  Restoring a partition from the good image of another one, both on the device and apart. With the marker, the block
  behind the copy is rewritten too.
\<close>

lemma copy_partition:
  assumes "ok s" and "2 * es \<le> length ram" and "es = 2 ^ k" and "2 \<le> k" and "cap \<le> 2 ^ 32"
    and cap: "unat off1 + unat size1 \<le> cap" "unat off2 + unat size2 \<le> cap"
    and al: "es dvd unat off2" "es dvd unat size2" "0 < unat size1" "0 < unat size2"
    and apart: "unat off1 + unat size1 \<le> unat off2 \<or> unat off2 + unat size2 \<le> unat off1"
    and fits: "unat n \<le> unat size1" "unat n \<le> unat size2"
    and room: "d \<Longrightarrow> roundup (unat off2 + unat n) + es \<le> cap"
  shows "\<exists>ram' s'. ok s' \<and> copy_firmware fl s ram off1 off2 n d = Some (0, ram', s') \<and>
    (\<forall>i < unat n. content s' (unat off2 + i) = content s (unat off1 + i)) \<and>
    (d \<longrightarrow> (\<forall>i < 4. content s' (roundup (unat off2 + unat n) + i) = [0xde, 0xad, 0xc0, 0xde] ! i)) \<and>
    (\<forall>a < cap. (a < unat off2 \<or> unat off2 + unat size2 \<le> a) \<and> (d \<longrightarrow> a div es \<noteq> roundup (unat off2 + unat n) div es) \<longrightarrow>
       content s' a = content s a)"
proof -
  have out: "outside (unat off2) (unat n) a" if "a < unat off2 \<or> unat off2 + unat size2 \<le> a" for a
    using outside_partition [OF fits(2) al(1,2) _ al(4) that] sizes(2) [OF assms(1)] by simp
  have sep: "\<forall>i < unat n. outside (unat off2) (unat n) (unat off1 + i)"
    using apart fits(1) by (intro allI impI out) auto
  have n: "unat n < 2 ^ 32" "unat off1 + unat n \<le> cap" "unat off2 + unat n \<le> cap"
    using apart fits cap al(3,4) assms(5) by auto
  show ?thesis
  proof (cases d)
    case True
    obtain s' ram' where "ok s'" "copy_firmware fl s ram off1 off2 n True = Some (0, ram', s')"
      "\<forall>i < unat n. content s' (unat off2 + i) = content s (unat off1 + i)"
      "\<forall>i < 4. content s' (roundup (unat off2 + unat n) + i) = [0xde, 0xad, 0xc0, 0xde] ! i"
      "\<forall>a < cap. outside (unat off2) (unat n) a \<longrightarrow> a div es \<noteq> roundup (unat off2 + unat n) div es \<longrightarrow> content s' a = content s a"
      by (rule copy_firmware_marks [OF assms(1,2) n(1,2) al(1) sep assms(3-5) room [OF True]])
    with out show ?thesis by (simp only: True simp_thms) blast
  next
    case False
    obtain s' ram' where "ok s'" "copy_firmware fl s ram off1 off2 n False = Some (0, ram', s')"
      "\<forall>i < unat n. content s' (unat off2 + i) = content s (unat off1 + i)"
      "\<forall>a < cap. outside (unat off2) (unat n) a \<longrightarrow> content s' a = content s a"
      by (rule copy_firmware_copies [OF assms(1,2) n al(1) sep])
    with out show ?thesis by (simp only: False simp_thms) blast
  qed
qed

text \<open>
  What a restoration is: \<open>n\<close> bytes copied from the good to the damaged partition, with a marker behind them unless only kernels
  are restored, and nothing else changed outside the damaged partition.
\<close>

definition restored :: "bool \<Rightarrow> u64 \<Rightarrow> u64 \<Rightarrow> u64 \<Rightarrow> u64 \<Rightarrow> 's \<Rightarrow> 's \<Rightarrow> bool" where
  "restored kernel_only goff bad broom n s s' \<longleftrightarrow>
     (\<forall>i < unat n. content s' (unat bad + i) = content s (unat goff + i)) \<and>
     (\<not> kernel_only \<longrightarrow> (\<forall>i < 4. content s' (roundup (unat bad + unat n) + i) = [0xde, 0xad, 0xc0, 0xde] ! i)) \<and>
     (\<forall>a < cap. (a < unat bad \<or> unat bad + unat broom \<le> a) \<and> (\<not> kernel_only \<longrightarrow> a div es \<noteq> roundup (unat bad + unat n) div es) \<longrightarrow>
        content s' a = content s a)"

lemma dual_image_check_restores:
  assumes "ok s" and "2 * es \<le> length ram" and "es = 2 ^ k" and "2 \<le> k" and "cap \<le> 2 ^ 32"
    and parts: "get_mtd_part_info tab main = Inr (off1, size1)" "get_mtd_part_info tab backup = Inr (off2, size2)"
    and cap: "unat off1 + unat size1 \<le> cap" "unat off2 + unat size2 \<le> cap"
    and al: "es dvd unat off1" "es dvd unat size1" "0 < unat size1" "es dvd unat off2" "es dvd unat size2" "0 < unat size2"
    and apart: "unat off1 + unat size1 \<le> unat off2 \<or> unat off2 + unat size2 \<le> unat off1"
    and c1: "check_one_image dc fit fl s ram off1 size1 = Some (Some r1, ram1, s1)"
    and c2: "check_one_image dc fit fl s1 ram1 off2 size2 = Some (Some r2, ram2, s2)"
    and one: "img_ok r1 \<noteq> img_ok r2"
    and pick: "(gd, goff, groom, bad, broom) =
      (if img_ok r1 then (r1, off1, size1, off2, size2) else (r2, off2, size2, off1, size1))"
    and n: "n = image_total_size konly gd" "unat n \<le> unat groom" "unat n \<le> unat broom"
    and room: "\<not> konly \<Longrightarrow> roundup (unat bad + unat n) + es \<le> cap"
  shows "\<exists>ram' s'. dual_image_check dc konly fit tab main backup fl (Some s) ram = Some (0, ram', Some s') \<and> ok s' \<and>
    restored konly goff bad broom n s s'"
proof -
  have k1: "kept s s1" "length ram1 = length ram"
    using yieldsD [OF check_one_image_keeps [OF assms(1)] c1] by auto
  have k2: "kept s1 s2" "length ram2 = length ram1"
    using yieldsD [OF check_one_image_keeps [OF kept_ok [OF k1(1)]] c2] by auto
  have s2: "ok s2" "content s2 = content s" using kept_trans [OF k1(1) k2(1)] by (simp_all add: kept_def)
  have ram2: "2 * es \<le> length ram2" using assms(2) k1(2) k2(2) by simp
  have lay: "unat goff + unat groom \<le> cap" "unat bad + unat broom \<le> cap" "es dvd unat bad" "es dvd unat broom"
    "0 < unat groom" "0 < unat broom" "unat goff + unat groom \<le> unat bad \<or> unat bad + unat broom \<le> unat goff"
    using pick cap al apart by (auto split: if_splits)
  from copy_partition [OF s2(1) ram2 assms(3-5) lay n(2,3), of "\<not> konly"] room
  obtain ram' s' where ok': "ok s'" and cp: "copy_firmware fl s2 ram2 goff bad n (\<not> konly) = Some (0, ram', s')"
    and re: "restored konly goff bad broom n s s'"
    unfolding restored_def s2(2) by blast
  have "\<not> broom < n" using n(3) by (simp add: word_less_nat_alt)
  then have "dual_image_check dc konly fit tab main backup fl (Some s) ram = Some (0, ram', Some s')"
    using c1 c2 one pick parts cp n(1) by (auto simp: dual_image_check_def split: if_splits)
  with ok' re show ?thesis by blast
qed

end

section \<open>Properties\<close>

text \<open>
  Copying a firmware image ends on a board with an NMBM device in order, whatever the
  chip does, in every build on a machine on which the board's erase function returns (\<open>build \<noteq> Partitions\<close>): \<open>copy_firmware\<close> returns with success, a verification failure or an I/O error, stays
  inside the two buffers it uses, and leaves the device in order.
\<close>

theorem copy_firmware_total:
  assumes "build \<noteq> Partitions" and "nm_ok nm" and "0 < mtd_erasesize (nm_upper nm)"
    and "2 * unat (mtd_erasesize (nm_upper nm)) \<le> length ram"
  shows "\<exists>ret ram' nm'. copy_firmware (nmbm_flash build) nm ram src dst sz deadc0de = Some (ret, ram', nm') \<and>
    nm_ok nm' \<and> length ram' = length ram \<and> ret \<in> {0, 1, - EIO}"
proof -
  have es: "fl_erase_size (nmbm_flash No_partitions) nm = mtd_erasesize (nm_upper nm)"
    by (simp add: nmbm_flash_def mtk_board_get_flash_erase_size_def)
  from nmbm_board.copy_firmware_returns [OF assms(2), of ram src dst sz deadc0de] assms(3,4)
  show ?thesis by (auto simp: es returns_iff null_readable_builds [OF assms(1)])
qed

theorem copy_firmware_total_witness:
  "\<exists>ret ram' nm'. copy_firmware (nmbm_flash Partitions_null_readable) (sample_nm (- EBADMSG) 7) (replicate 256 0) 0 1024 300 True =
     Some (ret, ram', nm') \<and> nm_ok nm' \<and> ret \<in> {0, 1, - EIO}"
proof -
  have "mtd_erasesize (nm_upper (sample_nm (- EBADMSG) 7)) = 128"
    by (simp add: sample_nm_def Let_def upper_info_def)
  then show ?thesis
    using copy_firmware_total [of Partitions_null_readable "sample_nm (- EBADMSG) 7" "replicate 256 0" 0 1024 300 True] by auto
qed

text \<open>
  C13: On a chip that works, in every build on a machine on which the board's erase function returns (\<open>build \<noteq> Partitions\<close>),
  \<open>copy_firmware\<close> copies: it returns 0 and the destination, at a block boundary and apart from the source, holds the
  bytes of the source. When it is asked for the marker \<open>de ad c0 de\<close>, this stands at the first block boundary at or behind
  the end of the copy. No other block changes. When the copy fills its partition, that
  boundary is the end of the partition: the block of the marker is the first block of
  whatever follows, and is erased.
\<close>

theorem copy_firmware_correct:
  assumes "build \<noteq> Partitions" and "reliable_nand lower fit img" and "board_ok lower fit cfg cap nm"
    and "unat (mtd_erasesize lower) = es" and "2 * es \<le> length ram" and "unat sz < 2 ^ 32"
    and "unat src + unat sz \<le> cap" and "unat dst + unat sz \<le> cap" and "es dvd unat dst"
    and "\<forall>i < unat sz. (unat src + i) div es < unat dst div es \<or> (unat dst + unat sz - 1) div es < (unat src + i) div es"
    and "es = 2 ^ k" and "2 \<le> k" and "cap \<le> 2 ^ 32"
    and "mark = (unat dst + unat sz + es - 1) div es * es" and "deadc0de \<Longrightarrow> mark + es \<le> cap"
  shows "\<exists>ram' nm'. copy_firmware (nmbm_flash build) nm ram src dst sz deadc0de = Some (0, ram', nm') \<and>
    board_ok lower fit cfg cap nm' \<and>
    (\<forall>i < unat sz. board_content img nm' (unat dst + i) = board_content img nm (unat src + i)) \<and>
    (deadc0de \<longrightarrow> (\<forall>i < 4. board_content img nm' (mark + i) = [0xde, 0xad, 0xc0, 0xde] ! i)) \<and>
    (\<forall>a < cap. a div es < unat dst div es \<or> (unat dst + unat sz - 1) div es < a div es \<longrightarrow>
       (deadc0de \<longrightarrow> a div es \<noteq> mark div es) \<longrightarrow> board_content img nm' a = board_content img nm a)"
proof -
  note st = reliable_nand.board_storage [OF assms(2), of cfg cap, unfolded assms(4), folded null_readable_builds(2) [OF assms(1)]]
  show ?thesis
  proof (cases deadc0de)
    case True
    note room = assms(15) [OF True, unfolded assms(14)]
    show ?thesis unfolding assms(14)
      by (rule storage.copy_firmware_marks [OF st assms(3,5-7,9-13) room]) (simp only: True simp_thms, blast)
  next
    case False
    show ?thesis
      by (rule storage.copy_firmware_copies [OF st assms(3,5-10)]) (simp only: False simp_thms, blast)
  qed
qed

theorem copy_firmware_correct_witness:
  "\<exists>ram' nm'. copy_firmware (nmbm_flash Partitions_null_readable) (sample_nm 2 0) (replicate 256 0) 64 512 300 True = Some (0, ram', nm') \<and>
    (\<forall>i < 300. board_content chip_byte nm' (512 + i) = board_content chip_byte (sample_nm 2 0) (64 + i)) \<and>
    (\<forall>i < 4. board_content chip_byte nm' (896 + i) = [0xde, 0xad, 0xc0, 0xde] ! i)"
proof -
  have room: "2 * 128 \<le> length (replicate 256 0)" by simp
  have nums: "unat (300 :: u64) < 2 ^ 32" "unat (64 :: u64) + unat (300 :: u64) \<le> 2048" "unat (512 :: u64) + unat (300 :: u64) \<le> 2048" "128 dvd unat (512 :: u64)"
    by simp_all
  have apart: "\<forall>i < unat (300 :: u64). (unat (64 :: u64) + i) div 128 < unat (512 :: u64) div 128 \<or>
      (unat (512 :: u64) + unat (300 :: u64) - 1) div 128 < (unat (64 :: u64) + i) div 128"
    by (auto intro: less_mult_imp_div_less)
  have pow: "(128 :: nat) = 2 ^ 7" "2 \<le> (7 :: nat)" "2048 \<le> (2 :: nat) ^ 32" by simp_all
  have mark: "896 = (unat (512 :: u64) + unat (300 :: u64) + 128 - 1) div 128 * 128" "True \<Longrightarrow> 896 + 128 \<le> (2048 :: nat)"
    by simp_all
  have es: "unat (mtd_erasesize (sample_nand_mtd 2)) = 128" by simp
  have build: "Partitions_null_readable \<noteq> Partitions" by simp
  from copy_firmware_correct [OF build nand0.reliable_nand_axioms sample_board_ok es room nums apart pow mark]
  obtain ram' nm' where
    "copy_firmware (nmbm_flash Partitions_null_readable) (sample_nm 2 0) (replicate 256 0) 64 512 300 True = Some (0, ram', nm')"
    "\<forall>i < unat (300 :: u64). board_content chip_byte nm' (unat (512 :: u64) + i) =
       board_content chip_byte (sample_nm 2 0) (unat (64 :: u64) + i)"
    "\<forall>i < 4. board_content chip_byte nm' (896 + i) = [0xde, 0xad, 0xc0, 0xde] ! i"
    by blast
  then show ?thesis by (intro exI conjI) simp_all
qed

text \<open>
  C3: The dual image check restores a damaged image. On a chip that works, with two separate
  block-aligned partitions, in every build on a machine on which the board's erase function returns (\<open>build \<noteq> Partitions\<close>), and with
  restoring limited to the kernel or not: when exactly one image verifies, and what is to be copied of it (the kernel, or the kernel with padding and root file
  system) fits into both partitions, \<open>dual_image_check\<close> returns 0 and the damaged partition starts with these bytes. When only the kernel is
  restored, nothing outside the damaged partition changes. Otherwise the marker \<open>de ad c0 de\<close> stands at the first block
  boundary at or behind the copy, and nothing outside the damaged partition and the block of the marker changes; that block lies behind the
  partition when the copy reaches into the partition's last block.
\<close>

theorem dual_image_check_restores_image:
  assumes "build \<noteq> Partitions" and "reliable_nand lower nfit img" and "board_ok lower nfit cfg cap nm"
    and "unat (mtd_erasesize lower) = es" and "2 * es \<le> length ram" and "es = 2 ^ k" and "2 \<le> k" and "cap \<le> 2 ^ 32"
    and "get_mtd_part_info tab main = Inr (off1, size1)" and "get_mtd_part_info tab backup = Inr (off2, size2)"
    and "unat off1 + unat size1 \<le> cap" and "unat off2 + unat size2 \<le> cap"
    and "es dvd unat off1" and "es dvd unat size1" and "0 < unat size1"
    and "es dvd unat off2" and "es dvd unat size2" and "0 < unat size2"
    and "unat off1 + unat size1 \<le> unat off2 \<or> unat off2 + unat size2 \<le> unat off1"
    and "check_one_image dc fit (nmbm_flash build) nm ram off1 size1 = Some (Some r1, ram1, nm1)"
    and "check_one_image dc fit (nmbm_flash build) nm1 ram1 off2 size2 = Some (Some r2, ram2, nm2)"
    and "img_ok r1 \<noteq> img_ok r2"
    and "(gd, goff, groom, bad, broom) =
      (if img_ok r1 then (r1, off1, size1, off2, size2) else (r2, off2, size2, off1, size1))"
    and "n = image_total_size kernel_only gd" and "unat n \<le> unat groom" and "unat n \<le> unat broom"
    and "mark = (unat bad + unat n + es - 1) div es * es" and "\<not> kernel_only \<Longrightarrow> mark + es \<le> cap"
  shows "\<exists>ram' nm'. dual_image_check dc kernel_only fit tab main backup (nmbm_flash build) (Some nm) ram = Some (0, ram', Some nm') \<and>
    board_ok lower nfit cfg cap nm' \<and>
    (\<forall>i < unat n. board_content img nm' (unat bad + i) = board_content img nm (unat goff + i)) \<and>
    (\<not> kernel_only \<longrightarrow> (\<forall>i < 4. board_content img nm' (mark + i) = [0xde, 0xad, 0xc0, 0xde] ! i)) \<and>
    (\<forall>a < cap. (a < unat bad \<or> unat bad + unat broom \<le> a) \<and> (\<not> kernel_only \<longrightarrow> a div es \<noteq> mark div es) \<longrightarrow>
       board_content img nm' a = board_content img nm a)"
proof -
  note st = reliable_nand.board_storage [OF assms(2), of cfg cap, unfolded assms(4), folded null_readable_builds(2) [OF assms(1)]]
  from storage.dual_image_check_restores [OF st assms(3,5-26)] assms(28)
  show ?thesis unfolding storage.restored_def [OF st] assms(27) by blast
qed

text \<open>
  A small board: a FIT kernel of 64 bytes at 0, a SquashFS super block behind it, and an
  empty backup partition at 1024.
\<close>

definition boot_chip :: nand where
  "boot_chip = (sample_nand 0)\<lparr>nand_page := (nand_page (sample_nand 0))
     (0 := [0xd0, 0x0d, 0xfe, 0xed, 0, 0, 0, 64] @ replicate 56 1,
      64 := [0x68, 0x73, 0x71, 0x73] @ replicate 36 0 @ [48, 0, 0, 0, 0, 0, 0, 0] @ replicate 16 0)\<rparr>"

definition boot_nm :: "nand nmbm_mtd" where
  "boot_nm = (sample_nm 2 0)\<lparr>nm_ni := (nm_ni (sample_nm 2 0))\<lparr>
     ni_arg := \<lparr>nd_chip = boot_chip, nd_corrected = 0, nd_failed = 0\<rparr>\<rparr>\<rparr>"

definition boot_fit :: fit_ops where
  "boot_fit = \<lparr>fdt_check_header = (\<lambda>m. take 4 m = [0xd0, 0x0d, 0xfe, 0xed]),
     fit_check_format = (\<lambda>_. True), fit_all_image_verify = (\<lambda>_. True)\<rparr>"

definition boot_parts :: part_table where
  "boot_parts = \<lparr>parts_init = 0, parts_find = (\<lambda>n. if n = ''Kernel'' then Inr (0, 512) else Inr (1024, 512)),
     parts_id = (\<lambda>_. (MTD_DEV_TYPE_NMBM, 0))\<rparr>"

lemma boot_board_ok: "board_ok (sample_nand_mtd 2) chip_fit (1, 8, 0) 2048 boot_nm"
proof -
  have "chip_fit boot_chip" by (simp add: chip_fit_def boot_chip_def sample_nand_def)
  then show ?thesis
    unfolding boot_nm_def
    by (intro board_step [OF sample_board_ok]
        exI [of _ "\<lparr>nd_chip = boot_chip, nd_corrected = 0, nd_failed = 0\<rparr>"] exI [of _ "ni_page_cache (nm_ni (sample_nm 2 0))"]) simp
qed

lemma boot_checks:
  obtains r1 r2 ram1 ram2 nm1 nm2 where
    "check_one_image False boot_fit (nmbm_flash Partitions_null_readable) boot_nm (replicate 512 0) 0 512 = Some (Some r1, ram1, nm1)"
    "check_one_image False boot_fit (nmbm_flash Partitions_null_readable) nm1 ram1 1024 512 = Some (Some r2, ram2, nm2)"
    "img_ok r1" "image_total_size False r1 = 112" "\<not> img_ok r2"
proof -
  have "do {
      (r1, ram1, nm1) \<leftarrow> check_one_image False boot_fit (nmbm_flash Partitions_null_readable) boot_nm (replicate 512 0) 0 512;
      (r2, ram2, nm2) \<leftarrow> check_one_image False boot_fit (nmbm_flash Partitions_null_readable) nm1 ram1 1024 512;
      Some (map_option (\<lambda>r. (img_ok r, image_total_size False r)) r1, map_option img_ok r2)
    } = Some (Some (True, 112), Some False)"
    by code_simp
  then show ?thesis
    by (auto simp: bind_eq_Some_conv intro: that)
qed

theorem dual_image_check_restores_image_witness:
  "\<exists>ram' nm'. dual_image_check False False boot_fit boot_parts ''Kernel'' ''Kernel2'' (nmbm_flash Partitions_null_readable)
      (Some boot_nm) (replicate 512 0) = Some (0, ram', Some nm') \<and>
    (\<forall>i < 112. board_content chip_byte nm' (1024 + i) = board_content chip_byte boot_nm i) \<and>
    (\<forall>i < 4. board_content chip_byte nm' (1152 + i) = [0xde, 0xad, 0xc0, 0xde] ! i)"
proof -
  obtain r1 r2 ram1 ram2 nm1 nm2 where
    c: "check_one_image False boot_fit (nmbm_flash Partitions_null_readable) boot_nm (replicate 512 0) 0 512 = Some (Some r1, ram1, nm1)"
      "check_one_image False boot_fit (nmbm_flash Partitions_null_readable) nm1 ram1 1024 512 = Some (Some r2, ram2, nm2)"
    and r: "img_ok r1" "image_total_size False r1 = 112" "\<not> img_ok r2"
    by (rule boot_checks)
  have build: "Partitions_null_readable \<noteq> Partitions" by simp
  have es: "unat (mtd_erasesize (sample_nand_mtd 2)) = 128" "2 * 128 \<le> length (replicate 512 0)"
    "(128 :: nat) = 2 ^ 7" "2 \<le> (7 :: nat)" "2048 \<le> (2 :: nat) ^ 32" by simp_all
  have parts: "get_mtd_part_info boot_parts ''Kernel'' = Inr (0, 512)" "get_mtd_part_info boot_parts ''Kernel2'' = Inr (1024, 512)"
    by (simp_all add: get_mtd_part_info_def boot_parts_def)
  have layout: "unat (0 :: u64) + unat (512 :: u64) \<le> 2048" "unat (1024 :: u64) + unat (512 :: u64) \<le> 2048"
    "128 dvd unat (0 :: u64)" "128 dvd unat (512 :: u64)" "0 < unat (512 :: u64)"
    "128 dvd unat (1024 :: u64)" "128 dvd unat (512 :: u64)" "0 < unat (512 :: u64)"
    "unat (0 :: u64) + unat (512 :: u64) \<le> unat (1024 :: u64) \<or> unat (1024 :: u64) + unat (512 :: u64) \<le> unat (0 :: u64)"
    by simp_all
  have one: "img_ok r1 \<noteq> img_ok r2"
    "(r1, 0, 512, 1024, 512) = (if img_ok r1 then (r1, 0, 512, 1024, 512) else (r2, 1024, 512, 0, 512 :: u64))"
    "112 = image_total_size False r1" "unat (112 :: u64) \<le> unat (512 :: u64)" "unat (112 :: u64) \<le> unat (512 :: u64)"
    "1152 = (unat (1024 :: u64) + unat (112 :: u64) + 128 - 1) div 128 * 128" "\<not> False \<Longrightarrow> 1152 + 128 \<le> (2048 :: nat)"
    using r by simp_all
  from dual_image_check_restores_image [OF build nand0.reliable_nand_axioms boot_board_ok es parts layout c one]
  show ?thesis by auto
qed

end
