(* ===== verification/Cmd_At.thy ===== *)
theory Cmd_At
  imports Boot_Config Flash_Part Dual_Image
begin

text \<open>
  The board's commands that change its state (\<^verbatim>\<open>board/ralink/common/cmd_at.c\<close>): \<^verbatim>\<open>atwe\<close> writes the
  MAC address into the manufacturer data, \<^verbatim>\<open>atgo\<close> chooses an image and boots it; and \<^verbatim>\<open>zy_init\<close>,
  which the board calls before its command loop (\<^verbatim>\<open>board/ralink/common/zyxel_util.c\<close>).

  Environment variables (\<^verbatim>\<open>autostart\<close>, \<^verbatim>\<open>bootargs\<close>) and the reset after \<^verbatim>\<open>atwe\<close> are not modelled. A
  boot command that starts an image does not return, so \<^verbatim>\<open>atgo\<close> is left with its \<open>Boot\<close>.
\<close>

section \<open>The commands\<close>

definition ether_addr :: "string \<Rightarrow> bytes" where
  "ether_addr arg = map (\<lambda>i. ucast (fst (simple_strtoul (take 2 (drop (i * 2) arg)) 16))) [0..<6]"

definition do_atwe :: "(u32 \<Rightarrow> bytes option) \<Rightarrow> part_table \<Rightarrow> 's flash_ops \<Rightarrow> 's option \<Rightarrow> MRD \<Rightarrow> string list
    \<Rightarrow> (cmd_result \<times> 's option) option" where
  "do_atwe alloc tab fl flashp mrd argv =
     (if length argv \<noteq> 2 then Some (CMD_RET_USAGE, flashp)
      else if length (argv ! 1) \<noteq> 12 then Some (CMD_RET_USAGE, flashp)
      else do {
        (_, mrd, flashp) \<leftarrow> mrd_read alloc tab fl flashp mrd;
        (ret, flashp) \<leftarrow> mrd_write alloc tab fl flashp (mrd\<lparr>EtherAddr := ether_addr (argv ! 1)\<rparr>);
        Some (if ret < 0 then CMD_RET_FAILURE else CMD_RET_SUCCESS, flashp)
      })"

text \<open>The partition an image is booted from.\<close>

definition image_part :: "int \<Rightarrow> string" where
  "image_part imageNum = (if imageNum = 1 then ''firmware_1'' else ''firmware'')"

definition do_atgo :: "'s host \<Rightarrow> u32 \<times> u32 \<times> u32 \<Rightarrow> 's \<Rightarrow> memory \<Rightarrow> dualImageInfo \<Rightarrow> string list
    \<Rightarrow> (cmd_result \<times> dualImageInfo \<times> memory \<times> 's) option" where
  "do_atgo h area s mem dual argv =
     (let desired_boot_image = sint (fst (simple_strtoul (argv ! 1) 10)) in
      if length argv = 2 \<and> desired_boot_image \<noteq> 0 \<and> desired_boot_image \<noteq> 1 then Some (CMD_RET_USAGE, dual, mem, s)
      else do {
        (imageNum, dual, mem, s) \<leftarrow> (if length argv = 2 then Some (desired_boot_image, dual, mem, s)
          else checkHaveNewImage h area s mem dual);
        (r, mem, s) \<leftarrow> do_nmbm h s mem
          [''nmbm'', ''nmbm0'', ''boot'', image_part imageNum];
        Some (case r of Boot la \<Rightarrow> Boot la | Ret _ \<Rightarrow> CMD_RET_SUCCESS, dual, mem, s)
      })"

text \<open>
  \<^verbatim>\<open>zy_init\<close>: the boot configuration, and \<^verbatim>\<open>eng_debug\<close> from the manufacturer data. The flash is the
  NMBM device of the host.
\<close>

definition zy_init :: "(u32 \<Rightarrow> bytes option) \<Rightarrow> 's host \<Rightarrow> 's flash_ops \<Rightarrow> u32 \<times> u32 \<times> u32 \<Rightarrow> 's \<Rightarrow> memory \<Rightarrow> dualImageInfo \<Rightarrow> MRD
    \<Rightarrow> (int \<times> dualImageInfo \<times> memory \<times> 's option) option" where
  "zy_init alloc h fl area s mem dual mrd = do {
     (dual, mem, s) \<leftarrow> dumpDualImageInfoFromBootconfig h area s mem dual;
     (_, mrd, flashp) \<leftarrow> mrd_read alloc (host_tab h) fl (Some s) mrd;
     Some (if AreaCode mrd > 0 then 1 else 0, dual, mem, flashp)
   }"

section \<open>The MAC address\<close>

text \<open>The twelve digits of a MAC address.\<close>

definition mac_arg :: "bytes \<Rightarrow> string" where
  "mac_arg mac = concat (map (\<lambda>b. [hex_digit (unat b div 16), hex_digit (unat b mod 16)]) mac)"

lemma hex_digit_not_x:
  assumes "n < 16"
  shows "hex_digit n \<noteq> CHR ''x''" "hex_digit n \<noteq> CHR ''X''"
proof -
  have "of_char (hex_digit n) < (104 :: nat)" "of_char (hex_digit n) \<noteq> (88 :: nat)"
    using assms by (auto simp: hex_digit_def of_char_of)
  then show "hex_digit n \<noteq> CHR ''x''" "hex_digit n \<noteq> CHR ''X''" by auto
qed

lemma strtoul_pair:
  "ucast (fst (simple_strtoul [hex_digit (unat b div 16), hex_digit (unat b mod 16)] 16)) = (b :: u8)"
proof -
  have d: "unat b div 16 < 16" "unat b mod 16 < 16" using unat_less_len [of b] by (simp_all add: div_less_iff_less_mult)
  have "simple_strtoul [hex_digit (unat b div 16), hex_digit (unat b mod 16)] 16 =
      (of_nat (unat b div 16) * 16 + of_nat (unat b mod 16), [])"
    using d hex_digit_not_x [OF d(2)]
    by (auto simp: simple_strtoul_def parse_integer_fixup_radix_def)
  also have "(of_nat (unat b div 16) * 16 + of_nat (unat b mod 16) :: u32) = of_nat (unat b div 16 * 16 + unat b mod 16)"
    by (simp only: of_nat_add of_nat_mult of_nat_numeral)
  also have "\<dots> = ucast b" by simp
  finally have "ucast (fst (simple_strtoul [hex_digit (unat b div 16), hex_digit (unat b mod 16)] 16)) = (ucast (ucast b :: u32) :: u8)"
    by simp
  also have "\<dots> = b" by (rule bit_word_eqI) (simp add: bit_unsigned_iff)
  finally show ?thesis .
qed

lemma mac_arg_pair: "i < length mac \<Longrightarrow> take 2 (drop (i * 2) (mac_arg mac)) = [hex_digit (unat (mac ! i) div 16), hex_digit (unat (mac ! i) mod 16)]"
proof (induction mac arbitrary: i)
  case (Cons b mac)
  then show ?case by (cases i) (simp_all add: mac_arg_def)
qed simp

lemma length_mac_arg [simp]: "length (mac_arg mac) = 2 * length mac"
  by (induction mac) (simp_all add: mac_arg_def)

lemma ether_addr_mac: "length mac = 6 \<Longrightarrow> ether_addr (mac_arg mac) = mac"
  by (rule nth_equalityI) (simp_all add: ether_addr_def mac_arg_pair strtoul_pair)

text \<open>The structure with another MAC address differs in the six bytes from offset 232 on.\<close>

lemma mrd_bytes_mac:
  assumes "length bs = sizeof_MRD" and "length mac = 6"
  shows "mrd_bytes ((mrd_of_bytes bs)\<lparr>EtherAddr := mac\<rparr>) = take 232 bs @ mac @ drop 238 bs"
proof -
  let ?m = "mrd_of_bytes bs"
  have fits: "mrd_fits ?m" using assms by simp
  have "mrd_bytes (?m\<lparr>EtherAddr := e\<rparr>) = take 232 (mrd_bytes ?m) @ e @ drop 238 (mrd_bytes ?m)" for e
    using fits by (simp add: mrd_bytes_def mrd_fits_def)
  then show ?thesis by (simp add: mrd_bytes_of_bytes [OF assms(1)])
qed

text \<open>The manufacturer data at the end of the partition's first block.\<close>

definition mrd_place :: "(u32 \<Rightarrow> bytes option) \<Rightarrow> part_table \<Rightarrow> nat \<Rightarrow> nat \<Rightarrow> u64 \<Rightarrow> bool" where
  "mrd_place alloc tab es cap po \<longleftrightarrow> sizeof_MRD \<le> es \<and> es < 2 ^ 31 \<and>
     part_fits alloc tab ''mrd'' es cap (of_nat (es - sizeof_MRD)) (of_nat sizeof_MRD) po"

context storage
begin

lemma mrd_offset:
  assumes "ok s" and "sizeof_MRD \<le> es" and "es < 2 ^ 31"
  shows "mrd_offset_get fl (Some s) = Some (int (es - sizeof_MRD))"
proof -
  have es: "unat (fl_erase_size fl s) = es" using sizes [OF assms(1)] by simp
  then have "fl_erase_size fl s = word_of_int (int es)" by (metis of_nat_unat word_of_int_uint)
  then have "fl_erase_size fl s - of_nat sizeof_MRD = word_of_int (int (es - sizeof_MRD))" using assms(2) by (simp add: of_nat_diff)
  moreover have "sint (word_of_int (int (es - sizeof_MRD)) :: u32) = int (es - sizeof_MRD)"
    unfolding signed_of_int using assms(3) by (simp add: signed_take_bit_int_eq_self)
  moreover have "fl_erase_size fl s \<noteq> 0" using es assms(2) by auto
  ultimately show ?thesis by (simp add: mrd_offset_get_def)
qed

lemma unat_of_nat_u32: "n < 2 ^ 32 \<Longrightarrow> unat (of_nat n :: u32) = n"
  by (simp add: unat_of_nat)

lemma mrd_access:
  assumes "ok s" and "mrd_place alloc tab es cap po"
  shows "mrd_offset_get fl (Some s) = Some (int (es - sizeof_MRD))"
    "word_of_int (int (es - sizeof_MRD)) = (of_nat (es - sizeof_MRD) :: u32)"
    "unat (of_nat (es - sizeof_MRD) :: u32) = es - sizeof_MRD"
    "part_fits alloc tab ''mrd'' es cap (of_nat (es - sizeof_MRD)) (of_nat sizeof_MRD) po"
proof -
  have es: "sizeof_MRD \<le> es" "es < 2 ^ 31" using assms(2) by (simp_all add: mrd_place_def)
  then show "mrd_offset_get fl (Some s) = Some (int (es - sizeof_MRD))" by (rule mrd_offset [OF assms(1)])
  show "unat (of_nat (es - sizeof_MRD) :: u32) = es - sizeof_MRD" by (rule unat_of_nat_u32) (use es in simp)
  show "part_fits alloc tab ''mrd'' es cap (of_nat (es - sizeof_MRD)) (of_nat sizeof_MRD) po"
    using assms(2) unfolding mrd_place_def by blast
qed simp

lemma mrd_read_content:
  assumes "ok s" and "mrd_place alloc tab es cap po" and "mrd_fits m"
  obtains s' where "mrd_read alloc tab fl (Some s) m =
      Some (0, mrd_of_bytes (content_bytes (content s) (unat po + (es - sizeof_MRD)) sizeof_MRD), Some s')"
    "ok s'" "content s' = content s"
proof -
  note a = mrd_access [OF assms(1,2)]
  have "unat (of_nat sizeof_MRD :: u32) \<le> length (mrd_bytes m)" using assms(3) by simp
  from flash_part_read_content [OF assms(1) a(4) this] obtain s' where
    "flash_part_read alloc tab fl (Some s) ''mrd'' (mrd_bytes m) (of_nat (es - sizeof_MRD)) (of_nat sizeof_MRD) =
      Some (0, content_bytes (content s) (unat po + (es - sizeof_MRD)) sizeof_MRD, Some s')" "ok s'" "content s' = content s"
    using a(3) assms(3) by auto
  then show ?thesis using a(1,2) by (intro that [of s']) (simp_all add: mrd_read_def)
qed

lemma mrd_write_content:
  assumes "ok s" and "mrd_place alloc tab es cap po" and "mrd_fits m"
  obtains s' where "mrd_write alloc tab fl (Some s) m = Some (0, Some s')" "ok s'"
    "\<forall>a < cap. content s' a = (if unat po + (es - sizeof_MRD) \<le> a \<and> a < unat po + (es - sizeof_MRD) + sizeof_MRD
       then mrd_bytes m ! (a - (unat po + (es - sizeof_MRD))) else content s a)"
proof -
  note a = mrd_access [OF assms(1,2)]
  have "unat (of_nat sizeof_MRD :: u32) \<le> length (mrd_bytes m)" using assms(3) by simp
  from flash_part_write_content [OF assms(1) a(4) this] obtain s' where
    "flash_part_write alloc tab fl (Some s) ''mrd'' (mrd_bytes m) (of_nat (es - sizeof_MRD)) (of_nat sizeof_MRD) = Some (0, Some s')" "ok s'"
    "\<forall>a < cap. content s' a = (if unat po + (es - sizeof_MRD) \<le> a \<and> a < unat po + (es - sizeof_MRD) + sizeof_MRD
       then mrd_bytes m ! (a - (unat po + (es - sizeof_MRD))) else content s a)"
    unfolding a(3) by auto
  then show ?thesis using a(1,2) by (intro that [of s']) (simp_all add: mrd_write_def)
qed

lemma atwe_content:
  assumes "ok s" and "mrd_place alloc tab es cap po" and "mrd_fits m" and "length mac = 6"
  obtains s' where "do_atwe alloc tab fl (Some s) m [''atwe'', mac_arg mac] = Some (CMD_RET_SUCCESS, Some s')" "ok s'"
    "\<forall>a < cap. content s' a = (if unat po + es - 8 \<le> a \<and> a < unat po + es - 2 then mac ! (a - (unat po + es - 8)) else content s a)"
proof -
  let ?old = "content_bytes (content s) (unat po + (es - sizeof_MRD)) sizeof_MRD"
  let ?new = "(mrd_of_bytes ?old)\<lparr>EtherAddr := mac\<rparr>"
  have es: "sizeof_MRD \<le> es" using assms(2) by (simp add: mrd_place_def)
  obtain s1 where r: "mrd_read alloc tab fl (Some s) m = Some (0, mrd_of_bytes ?old, Some s1)" and ok1: "ok s1" and c1: "content s1 = content s"
    by (rule mrd_read_content [OF assms(1-3)])
  have fits: "mrd_fits ?new" using mrd_of_bytes_fits [of ?old] assms(4) by (simp add: mrd_fits_def)
  obtain s2 where w: "mrd_write alloc tab fl (Some s1) ?new = Some (0, Some s2)" and ok2: "ok s2"
    and c2: "\<forall>a < cap. content s2 a = (if unat po + (es - sizeof_MRD) \<le> a \<and> a < unat po + (es - sizeof_MRD) + sizeof_MRD
       then mrd_bytes ?new ! (a - (unat po + (es - sizeof_MRD))) else content s a)"
    by (rule mrd_write_content [OF ok1 assms(2) fits, unfolded c1])
  have new: "mrd_bytes ?new = take 232 ?old @ mac @ drop 238 ?old" by (rule mrd_bytes_mac) (use assms(4) in simp_all)
  have "do_atwe alloc tab fl (Some s) m [''atwe'', mac_arg mac] = Some (CMD_RET_SUCCESS, Some s2)"
    using r w assms(4) by (simp add: do_atwe_def ether_addr_mac)
  moreover have "content s2 a = (if unat po + es - 8 \<le> a \<and> a < unat po + es - 2 then mac ! (a - (unat po + es - 8)) else content s a)"
    if "a < cap" for a
    using c2 [rule_format, OF that] es assms(4) unfolding new by (auto simp: nth_append add.commute)
  ultimately show ?thesis using ok2 by (intro that [of s2]) auto
qed

end

section \<open>Booting the chosen image\<close>

text \<open>An image in a partition of the board's NMBM device that the \<^verbatim>\<open>nmbm\<close> command can boot.\<close>

definition image_at :: "part_table \<Rightarrow> fit_ops \<Rightarrow> nat \<Rightarrow> (nat \<Rightarrow> u8) \<Rightarrow> string \<Rightarrow> u64 \<Rightarrow> u32 \<Rightarrow> bool" where
  "image_at tab ft cap c name off sz \<longleftrightarrow> parts_init tab = 0 \<and> parts_id tab name = (MTD_DEV_TYPE_NMBM, 0) \<and>
     (case parts_find tab name of Inl _ \<Rightarrow> False | Inr (po, _) \<Rightarrow> po = off) \<and>
     bootable ft (content_bytes c (unat off) sizeof_image_header) sz \<and> sz \<noteq> 0 \<and>
     unat off + sizeof_image_header \<le> cap \<and> unat off + unat sz \<le> cap"

text \<open>The image does not share bytes with the boot configuration, which consists of whole blocks.\<close>

definition clear_of :: "nat \<Rightarrow> u32 \<times> u32 \<times> u32 \<Rightarrow> u64 \<Rightarrow> u32 \<Rightarrow> bool" where
  "clear_of es area off sz \<longleftrightarrow> (case area of (load, aoff, asz) \<Rightarrow> es dvd unat aoff \<and> es dvd unat asz \<and>
     (unat off + sizeof_image_header \<le> unat aoff \<and> unat off + unat sz \<le> unat aoff \<or> unat aoff + unat asz \<le> unat off))"

lemma clear_content:
  assumes "outside es cap area c c'" and "clear_of es area off sz"
  shows "unat off + sizeof_image_header \<le> cap \<Longrightarrow> content_bytes c' (unat off) sizeof_image_header = content_bytes c (unat off) sizeof_image_header"
    "unat off + unat sz \<le> cap \<Longrightarrow> content_bytes c' (unat off) (unat sz) = content_bytes c (unat off) (unat sz)"
  using assms by (auto simp: outside_def clear_of_def split: prod.splits)

lemma image_at_clear:
  assumes "image_at tab ft cap c name off sz" and "outside es cap area c c'" and "clear_of es area off sz"
  shows "image_at tab ft cap c' name off sz"
  using assms(1) clear_content [OF assms(2,3)] unfolding image_at_def by metis

lemma part_names:
  "whole_number (simple_strtoull (image_part n) 0) (image_part n) = None"
  by (simp add: image_part_def whole_number_def simple_strtoull_def parse_integer_fixup_radix_def isxdigit_def isdigit_def digit_value_def)

lemma boot_offset_part:
  assumes "board_ok lower fit cfg cap nm" and "image_at tab ft cap' c (image_part n) off sz"
  shows "boot_offset (nmbm_host parts tab ft la) (nm_dev parts nm) nm (image_part n) = Some off"
proof -
  have "nmbm_mtd_get_upper_by_index \<lparr>nmbm_id_cnt = 1, nmbm_devs = [nm]\<rparr> 0 = Some nm"
    using assms(1) by (simp add: nmbm_mtd_get_upper_by_index_def board_ok_def)
  moreover have "mtd_ptr (nm_dev parts nm) = mtd_ptr (nm_upper nm)" by (simp add: nm_dev_def mtd_info.defs mtd_dev.defs)
  ultimately show ?thesis
    using assms(2) unfolding boot_offset_def part_names
    by (auto simp: image_at_def nmbm_host_def split: sum.splits)
qed

text \<open>The number of the image that is to be tried next.\<close>

definition next_image :: "dualImageInfo \<Rightarrow> int" where
  "next_image d = (case untried d of [] \<Rightarrow> bootImage d | n # _ \<Rightarrow> int n)"

context reliable_nand
begin

lemma atgo_boots:
  assumes "board_ok lower fit cfg cap nm" and "dual_fits d" and "area_ok cap area mem"
    and "config_stored area d (board_content img nm)" and "length (images d0) = NUMOFIMAGE" and "bitflip_result lower 0 = 0"
    and "image_at tab ft cap (board_content img nm) (image_part (next_image d)) off sz"
    and "clear_of (unat (mtd_erasesize lower)) area off sz" and "mem_at mem la = Some p"
    and "p + unat sz \<le> length (mem_bytes mem)" and "p + sizeof_image_header \<le> length (mem_bytes mem)"
  obtains d' mem' nm' where "do_atgo (nmbm_host parts tab ft la) area nm mem (loaded d d0) [''atgo''] = Some (Boot la, d', mem', nm')"
    "take (unat sz) (drop p (mem_bytes mem')) = content_bytes (board_content img nm) (unat off) (unat sz)"
proof -
  let ?h = "nmbm_host parts tab ft la"
  obtain d1 mem1 nm1 where n: "checkHaveNewImage ?h area nm mem (loaded d d0) = Some (next_image d, d1, mem1, nm1)"
    and ok: "board_ok lower fit cfg cap nm1" and room: "same_room mem mem1"
    and out: "outside (unat (mtd_erasesize lower)) cap area (board_content img nm) (board_content img nm1)"
    by (rule new_image_chosen [OF assms(1-5), of parts tab ft la]) (auto simp: next_image_def)
  note im = image_at_clear [OF assms(7) out assms(8)]
  have mem: "mem_at mem1 la = Some p" "p + unat sz \<le> length (mem_bytes mem1)" "p + sizeof_image_header \<le> length (mem_bytes mem1)"
    using room assms(9-11) by (auto simp: same_room_def mem_at_def split: if_splits)
  have im': "bootable ft (content_bytes (board_content img nm1) (unat off) sizeof_image_header) sz" "sz \<noteq> 0"
    "unat off + unat sz \<le> cap" "unat off + sizeof_image_header \<le> cap"
    using im by (simp_all add: image_at_def)
  obtain mem2 nm2 where b: "do_nmbm ?h nm1 mem1 [''nmbm'', ''nmbm0'', ''boot'', image_part (next_image d)] = Some (Boot la, mem2, nm2)"
    and l: "take (unat sz) (drop p (mem_bytes mem2)) = content_bytes (board_content img nm1) (unat off) (unat sz)"
    by (rule nmbm_boots [OF ok assms(6) mem(1) boot_offset_part [OF ok im] im' mem(2,3)])
  have "do_atgo ?h area nm mem (loaded d d0) [''atgo''] = Some (Boot la, d1, mem2, nm2)"
    using n b by (simp add: do_atgo_def)
  moreover have "content_bytes (board_content img nm1) (unat off) (unat sz) = content_bytes (board_content img nm) (unat off) (unat sz)"
    by (rule clear_content(2) [OF out assms(8) im'(3)])
  ultimately show ?thesis using l by (intro that [of d1 mem2 nm2]) auto
qed

end

section \<open>Properties\<close>

text \<open>
  C7: A boot runs the image the boot configuration names. On a chip that works, once the
  configuration is saved, a reboot that loads it and runs \<open>atgo\<close> without arguments starts the first
  new image, or the configured one when none is new: memory at the load address holds exactly the
  bytes of the image in its partition, although \<open>atgo\<close> rewrites the configuration on the way.
\<close>

theorem atgo_boots_chosen_image:
  assumes "reliable_nand lower fit img" and "board_ok lower fit cfg cap nm" and "dual_fits d"
    and "area_ok cap area mem" and "area_ok cap area mem0" and "length (images d0) = NUMOFIMAGE" and "bitflip_result lower 0 = 0"
    and "image_at tab ft cap (board_content img nm) (image_part (next_image d)) off sz"
    and "clear_of (unat (mtd_erasesize lower)) area off sz" and "mem_at mem0 la = Some p"
    and "p + unat sz \<le> length (mem_bytes mem0)" and "p + sizeof_image_header \<le> length (mem_bytes mem0)"
  shows "\<exists>mem1 nm1 d1 mem2 nm2 d2 mem3 nm3.
    writeDualImageInfoToBootconfig (nmbm_host parts tab ft la) area nm mem d = Some (mem1, nm1) \<and>
    dumpDualImageInfoFromBootconfig (nmbm_host parts tab ft la) area nm1 mem0 d0 = Some (d1, mem2, nm2) \<and>
    do_atgo (nmbm_host parts tab ft la) area nm2 mem2 d1 [''atgo''] = Some (Boot la, d2, mem3, nm3) \<and>
    take (unat sz) (drop p (mem_bytes mem3)) = content_bytes (board_content img nm) (unat off) (unat sz)"
proof -
  let ?h = "nmbm_host parts tab ft la" and ?c = "board_content img" and ?es = "unat (mtd_erasesize lower)"
  obtain mem1 nm1 where w: "writeDualImageInfoToBootconfig ?h area nm mem d = Some (mem1, nm1)"
    and ok1: "board_ok lower fit cfg cap nm1" and st1: "config_stored area d (?c nm1)" and out1: "outside ?es cap area (?c nm) (?c nm1)"
    by (rule reliable_nand.bootconfig_saved [OF assms(1-4)]) blast
  obtain mem2 nm2 where l: "dumpDualImageInfoFromBootconfig ?h area nm1 mem0 d0 = Some (loaded d d0, mem2, nm2)"
    and ok2: "board_ok lower fit cfg cap nm2" and room: "same_room mem0 mem2" and c2: "?c nm2 = ?c nm1"
    by (rule reliable_nand.bootconfig_loaded [OF assms(1) ok1 assms(3,5) st1 assms(6)])
  have im: "image_at tab ft cap (?c nm2) (image_part (next_image d)) off sz"
    using image_at_clear [OF assms(8) out1 assms(9)] c2 by simp
  have "area_ok cap area mem2" "config_stored area d (?c nm2)" using assms(5) same_room_area [OF room] st1 c2 by simp_all
  moreover have "mem_at mem2 la = Some p" "p + unat sz \<le> length (mem_bytes mem2)" "p + sizeof_image_header \<le> length (mem_bytes mem2)"
    using room assms(10-12) by (auto simp: same_room_def mem_at_def split: if_splits)
  ultimately obtain d2 mem3 nm3 where "do_atgo ?h area nm2 mem2 (loaded d d0) [''atgo''] = Some (Boot la, d2, mem3, nm3)"
    "take (unat sz) (drop p (mem_bytes mem3)) = content_bytes (?c nm2) (unat off) (unat sz)"
    using reliable_nand.atgo_boots [OF assms(1) ok2 assms(3) _ _ assms(6,7) im assms(9)] by metis
  moreover have "content_bytes (?c nm2) (unat off) (unat sz) = content_bytes (?c nm) (unat off) (unat sz)"
    unfolding c2 by (rule clear_content(2) [OF out1 assms(9)]) (use assms(8) in \<open>simp add: image_at_def\<close>)
  ultimately show ?thesis using w l by metis
qed

text \<open>The small board with its kernel in the second partition, and a configuration that says it is new.\<close>

definition atgo_parts :: part_table where
  "atgo_parts = \<lparr>parts_init = 0, parts_find = (\<lambda>n. if n = ''firmware_1'' then Inr (0, 512) else Inr (1024, 512)),
     parts_id = (\<lambda>_. (MTD_DEV_TYPE_NMBM, 0))\<rparr>"

lemma boot_kernel: "content_bytes (board_content chip_byte boot_nm) 0 64 = [0xd0, 0x0d, 0xfe, 0xed, 0, 0, 0, 64] @ replicate 56 1"
  by code_simp

lemma boot_kernel_header:
  "image_get_magic ([0xd0, 0x0d, 0xfe, 0xed, 0, 0, 0, 64] @ replicate 56 1) \<noteq> IH_MAGIC"
  "be32 4 ([0xd0, 0x0d, 0xfe, 0xed, 0, 0, 0, 64] @ replicate 56 1) = 64"
  by code_simp+

lemma boot_kernel_at:
  "image_at atgo_parts boot_fit 2048 (board_content chip_byte boot_nm) (image_part (next_image sample_dual)) 0 64"
proof -
  have "next_image sample_dual = 1" by (simp add: next_image_def untried_def sample_dual_def numeral_2_eq_2)
  then show ?thesis
    using boot_kernel_header boot_kernel
    by (simp add: image_at_def image_part_def atgo_parts_def bootable_def boot_fit_def)
qed

theorem atgo_boots_chosen_image_witness:
  "\<exists>mem1 nm1 d1 mem2 nm2 d2 mem3 nm3.
    writeDualImageInfoToBootconfig (nmbm_host Partitions atgo_parts boot_fit 0x8ff00100) (0x8ff00000, 512, 128) boot_nm (sample_memory 7) sample_dual =
      Some (mem1, nm1) \<and>
    dumpDualImageInfoFromBootconfig (nmbm_host Partitions atgo_parts boot_fit 0x8ff00100) (0x8ff00000, 512, 128) nm1 (sample_memory 0)
      (setBootImageNum 1 sample_dual) = Some (d1, mem2, nm2) \<and>
    do_atgo (nmbm_host Partitions atgo_parts boot_fit 0x8ff00100) (0x8ff00000, 512, 128) nm2 mem2 d1 [''atgo''] = Some (Boot 0x8ff00100, d2, mem3, nm3) \<and>
    take 64 (drop 256 (mem_bytes mem3)) = content_bytes (board_content chip_byte boot_nm) 0 64"
proof -
  have "bitflip_result (sample_nand_mtd 2) 0 = 0" by (simp add: bitflip_result_def)
  moreover have "clear_of (unat (mtd_erasesize (sample_nand_mtd 2))) (0x8ff00000, 512, 128) 0 64" by (simp add: clear_of_def)
  moreover have "mem_at (sample_memory 0) 0x8ff00100 = Some 256" "256 + unat (64 :: u32) \<le> length (mem_bytes (sample_memory 0))"
    "256 + sizeof_image_header \<le> length (mem_bytes (sample_memory 0))"
    by (simp_all add: mem_at_def sample_memory_def)
  ultimately show ?thesis
    using atgo_boots_chosen_image [OF nand0.reliable_nand_axioms boot_board_ok sample_dual_fits(1) sample_area sample_area
        sample_dual_fits(2) _ boot_kernel_at] by fastforce
qed

text \<open>
  C18: \<^verbatim>\<open>atwe\<close> changes the MAC address and nothing else, on a flash that works. On every flash that meets the contract \<open>storage\<close> - erasing, writing and
  reading within the capacity succeed, and what is read is what was written - with
  a partition \<^verbatim>\<open>mrd\<close> at a block boundary, \<open>do_atwe\<close> with the twelve digits of an address succeeds,
  the six bytes of the address in the manufacturer data become that address and every other byte of
  the flash keeps its value. The flash of a board with a working chip meets the contract in every build on a machine on which the board's erase function
  returns (\<open>board_storage\<close>, \<open>null_readable_builds\<close>). On a flash outside the contract, whose manufacturer data cannot be read, \<open>mrd_read\<close> gives the
  dummy data, and \<^verbatim>\<open>atwe\<close> writes these.
\<close>

theorem do_atwe_sets_mac:
  assumes "storage fl ok content cap es ws" and "ok s" and "mrd_place alloc tab es cap po" and "mrd_fits m" and "length mac = 6"
  shows "\<exists>s'. do_atwe alloc tab fl (Some s) m [''atwe'', mac_arg mac] = Some (CMD_RET_SUCCESS, Some s') \<and> ok s' \<and>
    (\<forall>a < cap. content s' a =
      (if unat po + es - 8 \<le> a \<and> a < unat po + es - 2 then mac ! (a - (unat po + es - 8)) else content s a))"
  by (rule storage.atwe_content [OF assms]) blast

text \<open>A flash in memory: blocks of 256 bytes, written byte by byte.\<close>

definition ram_flash :: "bytes flash_ops" where
  "ram_flash = \<lparr>fl_erase_size = (\<lambda>s. 256),
     fl_erase = (\<lambda>s off len. Some (0, map (\<lambda>a. if unat off div 256 \<le> a div 256 \<and> a div 256 \<le> (unat off + unat len - 1) div 256
       then 0xff else s ! a) [0..<length s])),
     fl_read = (\<lambda>s off len buf. Some (if unat off + unat len \<le> length s
       then (0, take (unat len) (drop (unat off) s) @ drop (unat len) buf, s) else (- EINVAL, buf, s))),
     fl_write = (\<lambda>s off len buf. Some (0, map (\<lambda>a. if unat off \<le> a \<and> a < unat off + length buf
       then s ! a AND buf ! (a - unat off) else s ! a) [0..<length s]))\<rparr>"

interpretation ram: storage ram_flash "\<lambda>s. length s = 1024" "\<lambda>s a. s ! a" 1024 256 1
proof (unfold_locales, goal_cases)
  case (4 s off len buf)
  then show ?case by (auto simp: ram_flash_def intro!: nth_equalityI)
qed (auto simp: ram_flash_def blanked_def written_def)

theorem do_atwe_sets_mac_witness:
  "\<exists>s'. do_atwe sample_alloc \<lparr>parts_init = 0, parts_find = (\<lambda>_. Inr (512, 256)), parts_id = (\<lambda>_. (MTD_DEV_TYPE_NMBM, 0))\<rparr>
      ram_flash (Some (replicate 1024 3)) dummy_mrd [''atwe'', ''0013490000ff''] = Some (CMD_RET_SUCCESS, Some s') \<and>
    (\<forall>a < 1024. s' ! a = (if 760 \<le> a \<and> a < 766 then [0x00, 0x13, 0x49, 0x00, 0x00, 0xff] ! (a - 760) else replicate 1024 3 ! a))"
proof -
  have "mrd_place sample_alloc \<lparr>parts_init = 0, parts_find = (\<lambda>_. Inr (512, 256)), parts_id = (\<lambda>_. (MTD_DEV_TYPE_NMBM, 0))\<rparr> 256 1024 512"
    by (simp add: mrd_place_def part_fits_def sample_alloc_def get_mtd_part_info_def round_up_def)
  moreover have "length [0x00, 0x13, 0x49, 0x00, 0x00, 0xff :: u8] = 6" "length (replicate 1024 (3 :: u8)) = 1024" by simp_all
  ultimately obtain s' where "do_atwe sample_alloc \<lparr>parts_init = 0, parts_find = (\<lambda>_. Inr (512, 256)), parts_id = (\<lambda>_. (MTD_DEV_TYPE_NMBM, 0))\<rparr>
      ram_flash (Some (replicate 1024 3)) dummy_mrd [''atwe'', mac_arg [0x00, 0x13, 0x49, 0x00, 0x00, 0xff]] = Some (CMD_RET_SUCCESS, Some s')"
    "\<forall>a < 1024. s' ! a = (if unat (512 :: u64) + 256 - 8 \<le> a \<and> a < unat (512 :: u64) + 256 - 2
      then [0x00, 0x13, 0x49, 0x00, 0x00, 0xff] ! (a - (unat (512 :: u64) + 256 - 8)) else replicate 1024 3 ! a)"
    using do_atwe_sets_mac [OF ram.storage_axioms _ _ dummy_mrd_fits] by blast
  moreover have "mac_arg [0x00, 0x13, 0x49, 0x00, 0x00, 0xff] = ''0013490000ff''" by code_simp
  moreover have "unat (512 :: u64) + 256 - 8 = 760" "unat (512 :: u64) + 256 - 2 = 766" by simp_all
  ultimately show ?thesis by metis
qed

end
