(* ===== verification/Env_Nmbm.thy ===== *)
theory Env_Nmbm
  imports Board_Image
begin

text \<open>
  The environment on the NMBM device (\<^verbatim>\<open>env/nmbm.c\<close>). The first NMBM device, if there is one, is
  \<open>upper\<close> of the state \<open>s\<close>; exporting and importing the variables (\<^verbatim>\<open>env/common.c\<close>) are not modelled:
  \<open>exported\<close> is what \<^verbatim>\<open>env_export\<close> gives, an error or the bytes, and \<open>import\<close> is \<^verbatim>\<open>env_import\<close>.
  \<open>(offset, size)\<close> is the environment's area.
\<close>

definition env_nmbm_save :: "mtd_build \<Rightarrow> ('s \<Rightarrow> 's mtd_dev option) \<Rightarrow> 's \<Rightarrow> int + bytes \<Rightarrow> u64 \<times> u32 \<Rightarrow> (int \<times> 's) option" where
  "env_nmbm_save parts upper s exported area =
     (case exported of
        Inl ret \<Rightarrow> Some (ret, s)
      | Inr env_new \<Rightarrow>
          case upper s of
            None \<Rightarrow> Some (1, s)
          | Some mtd \<Rightarrow> do {
              (ret, _, s) \<leftarrow> mtd_erase parts mtd s
                (erase_info_zero\<lparr>ei_mtd := Some (mtd_ptr mtd), ei_addr := fst area, ei_len := ucast (snd area)\<rparr>);
              if ret \<noteq> 0 then Some (1, s)
              else do {
                (ret, _, s) \<leftarrow> mtd_write mtd s (fst area) (snd area) None env_new;
                Some (if ret \<noteq> 0 then 1 else 0, s)
              }
            })"

text \<open>\<^verbatim>\<open>readenv\<close> takes the offset as a \<^verbatim>\<open>size_t\<close>, of 32 bits; \<open>env_size\<close> is \<^verbatim>\<open>CONFIG_ENV_SIZE\<close>.\<close>

definition readenv :: "('s \<Rightarrow> 's mtd_dev option) \<Rightarrow> u32 \<Rightarrow> 's \<Rightarrow> u32 \<Rightarrow> bytes \<Rightarrow> (int \<times> bytes \<times> 's) option" where
  "readenv upper env_size s offset buf =
     (case upper s of
        None \<Rightarrow> Some (1, buf, s)
      | Some mtd \<Rightarrow> do {
          (ret, buf, _, s) \<leftarrow> mtd_read mtd s (ucast offset) env_size None buf;
          Some (if ret \<noteq> 0 then 1 else 0, buf, s)
        })"

definition env_nmbm_load :: "('s \<Rightarrow> 's mtd_dev option) \<Rightarrow> (bytes \<Rightarrow> int) \<Rightarrow> 's \<Rightarrow> u64 \<times> u32 \<Rightarrow> (int \<times> 's) option" where
  "env_nmbm_load upper import s area = do {
     (ret, buf, s) \<leftarrow> readenv upper (snd area) s (ucast (fst area)) (replicate (unat (snd area)) 0);
     Some (if ret \<noteq> 0 then - EIO else import buf, s)
   }"

text \<open>
  C36: The environment on an NMBM device is accessed through a null pointer. On a board with an
  NMBM device, \<open>env_nmbm_load\<close> passes NULL for \<^verbatim>\<open>retlen\<close> to \<open>mtd_read\<close>, which stores through it; and
  \<open>env_nmbm_save\<close>, on a chip that works and whatever the variables are, does the same in
  \<open>mtd_write\<close> after it has erased the area. Neither has a defined result.
\<close>

theorem env_nmbm_null_retlen:
  assumes "reliable_nand lower fit img" and "board_ok lower fit cfg cap nm"
    and "unat (fst area) + unat (snd area) \<le> cap" and "snd area \<noteq> 0"
  shows "env_nmbm_load (\<lambda>nm. Some (nm_dev parts nm)) import nm area = None \<and>
    env_nmbm_save parts (\<lambda>nm. Some (nm_dev parts nm)) nm (Inr env_new) area = None"
proof -
  let ?ei = "erase_info_zero\<lparr>ei_mtd := Some (mtd_ptr (nm_dev parts nm)), ei_addr := fst area, ei_len := ucast (snd area)\<rparr>"
  have nz: "(ucast (snd area) :: u64) \<noteq> 0" using assms(4) by (simp add: word_unat_eq_iff)
  obtain instr' nm' where "mtd_erase parts (nm_dev parts nm) nm ?ei = Some (0, instr', nm')"
    by (rule reliable_nand.mtd_erase_data [OF assms(1,2), of ?ei parts]) (use nz assms(3) in auto)
  then show ?thesis by (simp add: env_nmbm_load_def readenv_def mtd_read_def env_nmbm_save_def mtd_write_def)
qed

theorem env_nmbm_null_retlen_witness:
  "env_nmbm_load (\<lambda>nm. Some (nm_dev Partitions nm)) (\<lambda>_. 0) (sample_nm 2 0) (512, 128) = None \<and>
   env_nmbm_save Partitions (\<lambda>nm. Some (nm_dev Partitions nm)) (sample_nm 2 0) (Inr (replicate 128 0)) (512, 128) = None"
  by (rule env_nmbm_null_retlen [OF nand0.reliable_nand_axioms sample_board_ok]) simp_all

end
