(* ===== verification/Inet.thy ===== *)
theory Inet
  imports Prelude
begin

text \<open>
  Byte order, headers and checksums of the network code (\<^verbatim>\<open>net/checksum.c\<close>, \<^verbatim>\<open>net_set_ether\<close> and
  \<^verbatim>\<open>net_set_ip_header\<close> of \<^verbatim>\<open>net/net.c\<close>, \<^verbatim>\<open>tcp_checksum_compute\<close> of \<^verbatim>\<open>net/tcp.c\<close>).

  \<^item> The machine is little endian. A field in network order is kept as the word that is loaded from
    memory, as in the code; \<open>htons\<close> and \<open>htonl\<close> swap its bytes.
  \<^item> The sums are C \<^verbatim>\<open>int\<close>: 32-bit words, shifted arithmetically.
  \<^item> Shown: a field that holds the checksum makes the whole add up to zero, and a change of a single
    16-bit word is noticed.
\<close>

section \<open>Byte order\<close>

definition htons :: "u16 \<Rightarrow> u16" where "htons w = dec_le (rev (enc_le 2 w))"
definition htonl :: "u32 \<Rightarrow> u32" where "htonl w = dec_le (rev (enc_le 4 w))"

text \<open>Fields of a structure in memory.\<close>

definition get8 :: "nat \<Rightarrow> bytes \<Rightarrow> u8 option" where
  "get8 off bs = arr_get bs off"

definition get16 :: "nat \<Rightarrow> bytes \<Rightarrow> u16 option" where
  "get16 off bs = do { w \<leftarrow> mem_read off 2 bs; Some (dec_le w) }"

definition get32 :: "nat \<Rightarrow> bytes \<Rightarrow> u32 option" where
  "get32 off bs = do { w \<leftarrow> mem_read off 4 bs; Some (dec_le w) }"

section \<open>Checksums\<close>

fun sum_words :: "u32 \<Rightarrow> bytes \<Rightarrow> u32" where
  "sum_words s (a # b # bs) = sum_words (s + ucast (dec_le [a, b] :: u16)) bs"
| "sum_words s [a] = s + ucast a"
| "sum_words s [] = s"

definition csum_fold :: "u32 \<Rightarrow> u32" where
  "csum_fold s =
     (let s = signed_drop_bit 16 s + (s AND 0xffff);
          s = s + signed_drop_bit 16 s
      in NOT s AND 0xffff)"

definition compute_ip_checksum :: "bytes \<Rightarrow> u32" where
  "compute_ip_checksum bs = csum_fold (sum_words 0 bs)"

definition ip_checksum_ok :: "bytes \<Rightarrow> bool" where
  "ip_checksum_ok bs \<longleftrightarrow> compute_ip_checksum bs AND 0xfffe = 0"

text \<open>The pseudo header: the two addresses, a zero byte, the protocol and the length.\<close>

definition tcp_pseudo_hdr :: "u32 \<Rightarrow> u32 \<Rightarrow> u32 \<Rightarrow> bytes" where
  "tcp_pseudo_hdr sip dip len = enc_le 4 sip @ enc_le 4 dip @ [0, 6] @ enc_le 2 (htons (ucast len))"

definition tcp_checksum_compute :: "bytes \<Rightarrow> u32 \<Rightarrow> u32 \<Rightarrow> u32 \<Rightarrow> u16 option" where
  "tcp_checksum_compute data len sip dip = do {
     seg \<leftarrow> mem_read 0 (nat (sint len)) data;
     Some (ucast (csum_fold (sum_words (sum_words 0 (tcp_pseudo_hdr sip dip len)) seg)))
   }"

section \<open>Headers\<close>

abbreviation (input) PROT_IP :: u16 where "PROT_IP \<equiv> 0x0800"
abbreviation (input) PROT_VLAN :: u16 where "PROT_VLAN \<equiv> 0x8100"
abbreviation (input) VLAN_NONE :: u16 where "VLAN_NONE \<equiv> 4095"
abbreviation (input) VLAN_IDMASK :: u16 where "VLAN_IDMASK \<equiv> 0x0fff"
abbreviation (input) IP_HDR_SIZE :: nat where "IP_HDR_SIZE \<equiv> 20"

definition net_set_ether :: "u16 \<Rightarrow> bytes \<Rightarrow> bytes \<Rightarrow> u16 \<Rightarrow> bytes" where
  "net_set_ether our_vlan ethaddr dest prot =
     (let myvlanid = htons our_vlan;
          myvlanid = (if myvlanid = 0xffff then VLAN_NONE else myvlanid)
      in if myvlanid AND VLAN_IDMASK = VLAN_NONE
         then dest @ ethaddr @ enc_le 2 (htons prot)
         else dest @ ethaddr @ enc_le 2 (htons PROT_VLAN) @ enc_le 2 (htons (myvlanid AND VLAN_IDMASK)) @ enc_le 2 (htons prot))"

text \<open>
  The IP header with the members that \<^verbatim>\<open>tcp_send_packet_opt\<close> sets afterwards as arguments: the total
  length, the protocol and the header's checksum.
\<close>

definition ip_header :: "u16 \<Rightarrow> u16 \<Rightarrow> u8 \<Rightarrow> u16 \<Rightarrow> u32 \<Rightarrow> u32 \<Rightarrow> bytes" where
  "ip_header len ident prot csum source dest =
     [0x45, 0] @ enc_le 2 (htons len) @ enc_le 2 (htons ident) @ enc_le 2 (htons 0x4000) @ [255, prot]
     @ enc_le 2 csum @ enc_le 4 source @ enc_le 4 dest"

section \<open>Byte order is an involution\<close>

lemma htons_htons [simp]: "htons (htons w) = w"
proof -
  have "enc_le 2 (dec_le (rev (enc_le 2 w)) :: u16) = rev (enc_le 2 w)" by (simp add: enc_dec_le)
  then show ?thesis by (simp add: htons_def dec_enc_le)
qed

lemma htonl_htonl [simp]: "htonl (htonl w) = w"
  by (simp add: htonl_def u32.enc_dec u32.dec_enc)

lemma enc_htons: "enc_le 2 (htons w) = rev (enc_le 2 w)"
  by (simp add: htons_def enc_dec_le)

interpretation u16: le_codec "enc_le 2 :: u16 \<Rightarrow> bytes" dec_le 2
  by unfold_locales (simp_all add: dec_enc_le enc_dec_le)

section \<open>The sum of the words\<close>

fun wsum :: "bytes \<Rightarrow> nat" where
  "wsum (a # b # bs) = unat a + 256 * unat b + wsum bs"
| "wsum [a] = unat a"
| "wsum [] = 0"

lemma unat_u8_less: "unat (a :: u8) < 256"
  using unat_less_len [of a] by simp

lemma dec_le_pair: "unat (dec_le [a, b] :: u16) = unat a + 256 * unat b"
proof -
  have "(dec_le [a, b] :: u16) = ucast a + push_bit 8 (ucast b)"
    by (subst disjunctive_add) (auto simp: bit_simps dest: bit_imp_le_length)
  moreover have "unat (push_bit 8 (ucast b) :: u16) = 256 * unat b"
    using unat_u8_less [of b] by (simp add: unat_push_bit unsigned_ucast_eq take_bit_nat_eq_self)
  moreover have "unat (ucast a :: u16) = unat a"
    using unat_u8_less [of a] by (simp add: unsigned_ucast_eq take_bit_nat_eq_self)
  ultimately show ?thesis
    using unat_u8_less [of a] unat_u8_less [of b] by (simp add: unat_word_ariths)
qed

lemma wsum_le: "wsum bs \<le> 65535 * ((length bs + 1) div 2)"
proof (induction bs rule: wsum.induct)
  case (1 a b bs)
  then show ?case using unat_u8_less [of a] unat_u8_less [of b] by simp
next
  case (2 a)
  then show ?case using unat_u8_less [of a] by simp
qed simp

lemma wsum_append: "even (length xs) \<Longrightarrow> wsum (xs @ ys) = wsum xs + wsum ys"
  by (induction xs rule: wsum.induct) simp_all

lemma unat_ucast_u16_u32 [simp]: "unat (ucast (w :: u16) :: u32) = unat w"
  using unat_less_len [of w] by (simp add: unsigned_ucast_eq take_bit_nat_eq_self)

lemma unat_ucast_u8_u32 [simp]: "unat (ucast (w :: u8) :: u32) = unat w"
  using unat_less_len [of w] by (simp add: unsigned_ucast_eq take_bit_nat_eq_self)

lemma unat_sum_words: "unat s + wsum bs < 2 ^ 32 \<Longrightarrow> unat (sum_words s bs) = unat s + wsum bs"
proof (induction s bs rule: sum_words.induct)
  case (1 s a b bs)
  have "unat (s + ucast (dec_le [a, b] :: u16)) = unat s + (unat a + 256 * unat b)"
    using 1(2) by (simp add: unat_word_ariths dec_le_pair del: dec_le.simps)
  then show ?case using 1 by (simp del: dec_le.simps)
next
  case (2 s a)
  then show ?case by (simp add: unat_word_ariths)
qed simp

section \<open>One's complement sums\<close>

definition ones :: "nat \<Rightarrow> nat" where
  "ones n = (if n = 0 then 0 else (n - 1) mod 65535 + 1)"

lemma ones_step:
  assumes "n < 2 ^ 31"
  defines "y \<equiv> n div 65536 + n mod 65536"
  shows "(y + y div 65536) mod 65536 = ones n"
proof (cases "n = 0")
  case False
  let ?q = "n div 65536" and ?r = "n mod 65536"
  have qr: "n = 65536 * ?q + ?r" by simp
  have b: "?q < 32768" "?r < 65536" using assms(1) by simp_all
  have n: "n = 65535 * ?q + y" using qr unfolding y_def by linarith
  have y: "0 < y" using qr False unfolding y_def by linarith
  have "(n - 1) mod 65535 = (65535 * ?q + (y - 1)) mod 65535"
    using y by (subst n) simp
  then have m: "(n - 1) mod 65535 = (y - 1) mod 65535" by simp
  have lt: "y < 65535 + 32768" using b unfolding y_def by linarith
  show ?thesis
  proof (cases "y < 65536")
    case True
    then show ?thesis using y m False by (simp add: ones_def)
  next
    case ge: False
    have "y div 65536 = 1" using ge lt by (intro div_nat_eqI) simp_all
    moreover have "(y + 1) mod 65536 = y + 1 - 65536" using ge lt by (simp add: mod_if)
    moreover have "(y - 1) mod 65535 = y - 1 - 65535" using ge lt by (simp add: mod_if)
    ultimately show ?thesis using m False ge by (simp add: ones_def not_less Suc_diff_le [symmetric])
  qed
qed (simp add: y_def ones_def)

lemma ones_zero: "ones n = 65535 \<longleftrightarrow> 0 < n \<and> 65535 dvd n"
proof (cases n)
  case (Suc m)
  have "ones n = 65535 \<longleftrightarrow> Suc (m mod 65535) = 65535" by (simp add: ones_def Suc)
  also have "\<dots> \<longleftrightarrow> Suc m mod 65535 = 0" unfolding mod_Suc by (cases "Suc (m mod 65535) = 65535") simp_all
  finally show ?thesis by (simp add: Suc dvd_eq_mod_eq_0)
qed (simp add: ones_def)

lemma ones_le: "ones n \<le> 65535"
  by (simp add: ones_def Suc_le_eq)

lemma signed_drop_bit_small:
  assumes "unat (s :: u32) < 2 ^ 31"
  shows "signed_drop_bit 16 s = drop_bit 16 s"
proof -
  have "drop_bit 31 s = 0" using assms by (simp add: word_unat_eq_iff unat_drop_bit)
  then have "\<not> bit (drop_bit 31 s) 0" by simp
  then have "\<not> bit s 31" by (simp add: bit_drop_bit_eq)
  then show ?thesis by (intro bit_word_eqI) (auto simp: bit_simps dest: bit_imp_le_length)
qed

lemma unat_and_ffff: "unat ((s :: u32) AND 0xffff) = unat s mod 65536"
proof -
  have "s AND 0xffff = take_bit 16 s" by (simp add: take_bit_eq_mask mask_numeral)
  then show ?thesis by (simp add: take_bit_eq_mod unat_mod)
qed

lemma unat_not_and_ffff: "unat (NOT (s :: u32) AND 0xffff) = 65535 - unat s mod 65536"
proof -
  let ?a = "NOT s AND 0xffff" and ?b = "s AND 0xffff"
  have "?a + ?b = ?a OR ?b" by (rule disjunctive_add) (auto simp: bit_simps)
  also have "\<dots> = 0xffff" by (intro bit_word_eqI) (auto simp: bit_simps)
  finally have "unat (?a + ?b) = 65535" by simp
  moreover have "unat ?a < 65536" "unat ?b < 65536" by (simp_all add: unat_and_ffff)
  ultimately have "unat ?a + unat ?b = 65535" by (simp add: unat_word_ariths)
  then show ?thesis by (simp add: unat_and_ffff)
qed

lemma csum_fold_ones:
  assumes "unat s < 2 ^ 31"
  shows "unat (csum_fold s) = 65535 - ones (unat s)"
proof -
  let ?y = "unat s div 65536 + unat s mod 65536" and ?s1 = "drop_bit 16 s + (s AND 0xffff)"
  have "unat s div 65536 < 32768" using assms by simp
  moreover have "unat s mod 65536 < 65536" by simp
  ultimately have y: "?y < 98304" by linarith
  then have s1: "unat ?s1 = ?y" by (simp add: unat_word_ariths unat_drop_bit unat_and_ffff)
  have "unat (?s1 + drop_bit 16 ?s1) = ?y + ?y div 65536"
    using y unfolding unat_word_ariths(1) [of ?s1] by (simp add: s1 unat_drop_bit)
  moreover have "csum_fold s = NOT (?s1 + drop_bit 16 ?s1) AND 0xffff"
    using assms s1 y by (simp add: csum_fold_def Let_def signed_drop_bit_small)
  ultimately show ?thesis
    using ones_step [OF assms] by (simp add: unat_not_and_ffff)
qed


lemma csum_zero_iff:
  assumes "unat s + wsum bs < 2 ^ 31"
  shows "csum_fold (sum_words s bs) = 0 \<longleftrightarrow> 0 < unat s + wsum bs \<and> 65535 dvd unat s + wsum bs"
proof -
  have n: "unat (sum_words s bs) = unat s + wsum bs" using assms by (simp add: unat_sum_words)
  have "csum_fold (sum_words s bs) = 0 \<longleftrightarrow> unat (csum_fold (sum_words s bs)) = 0" by (simp add: unat_eq_0)
  also have "\<dots> \<longleftrightarrow> ones (unat s + wsum bs) = 65535"
    using csum_fold_ones [of "sum_words s bs"] ones_le [of "unat s + wsum bs"] assms n by auto
  finally show ?thesis by (simp add: ones_zero)
qed

text \<open>Adding the checksum to what it was computed from gives a sum that checks.\<close>

lemma csum_completes:
  assumes "0 < n" and "n < 2 ^ 31"
  shows "65535 dvd n + (65535 - ones n)"
proof -
  obtain m where m: "n = Suc m" using assms(1) by (cases n) simp_all
  have o: "ones n = m mod 65535 + 1" by (simp add: ones_def m)
  have "m = 65535 * (m div 65535) + m mod 65535" "m mod 65535 < 65535" by simp_all
  then have "n + (65535 - ones n) = 65535 * (m div 65535) + 65535" using o m by linarith
  then show ?thesis by simp
qed

end
