(* ===== verification/Tcp.thy ===== *)
theory Tcp
  imports Inet
begin

text \<open>
  The TCP stack of the web failsafe (\<^verbatim>\<open>net/tcp.c\<close>).

  \<^item> \<open>net\<close> is the stack's state: the two lists, the stop flag, the counter behind \<^verbatim>\<open>net_ip_id\<close>, and the
    state \<open>app\<close> of the application above. Its outputs are kept as well: the frames sent and the calls
    of callbacks, with the data they were given. A connection is known by its
    address; using one that has been freed gives \<open>None\<close>.
  \<^item> \<open>tcp_env\<close> is what the stack is run with: the readings of the timer, one for each call of
    \<^verbatim>\<open>get_timer\<close>; whether \<^verbatim>\<open>malloc\<close> succeeds; the machine's addresses; reading the memory behind the
    application's pointers; and the functions behind the callback pointers. A callback may call every
    function of the stack, so it takes and returns the whole state, and it may change the callback data.
  \<^item> \<open>rx\<close> is the memory from the IP header of a received packet to the end of the receive buffer.
  \<^item> Resolving an address by ARP (for a peer whose Ethernet address is zero) ends in a frame \<open>Arp\<close>;
    the ARP code itself is not modelled.
\<close>

section \<open>Data\<close>

datatype tcp_state = INVALID_TCP_STATE | LISTEN | SYN_SENT | SYN_RCVD | ESTABLISHED | FIN_WAIT_1 | FIN_WAIT_2
  | CLOSE_WAIT | CLOSING | LAST_ACK | TIME_WAIT | CLOSED

datatype tcp_cb_status = TCP_CB_NONE | TCP_CB_NEW_CONN | TCP_CB_DATA_RCVD | TCP_CB_DATA_SENT
  | TCP_CB_REMOTE_CLOSING | TCP_CB_REMOTE_CLOSED | TCP_CB_CLOSING | TCP_CB_CLOSED

record ('p, 'k) tcp_conn =
  c_status :: tcp_state
  c_ip_remote :: u32
  c_port_remote :: u16
  c_port_local :: u16
  c_peer_seq :: u32
  c_local_seq :: u32
  c_local_seq_last :: u32
  c_local_seq_acked :: u32
  c_ts :: u32
  c_ts_rexmit :: u32
  c_num_rexmit :: u32
  c_ethaddr :: bytes
  c_mss :: u16
  c_tx :: "'p option"
  c_txlen :: u32
  c_cb :: 'k
  c_close_flag :: bool
  c_ack_flag :: u32
  c_rexmit_mode :: bool
  c_rexmit_wait_ack :: bool
  c_zw_mode :: bool
  c_peer_wnd :: u32
  c_peer_ws :: u32
  c_srtt :: u32
  c_rttvar :: u32
  c_rto :: u32
  c_ts_rtt :: u32
  c_ack_calc_rtt :: u32
  c_pdata :: "nat option"

record tcb_cb_data =
  cbd_conn :: nat
  cbd_status :: tcp_cb_status
  cbd_sip :: u32
  cbd_sp :: u16
  cbd_dp :: u16
  cbd_pdata :: "nat option"
  cbd_data :: bytes
  cbd_datalen :: u32

text \<open>\<open>cbd_data\<close> is the memory from the data pointer on, which may be more or less than \<open>cbd_datalen\<close> bytes.\<close>

datatype frame = Eth bytes | Arp u32 bytes

record ('p, 'k, 'a) net =
  listen_head :: "(u16 \<times> 'k) list"
  conn_head :: "(nat \<times> ('p, 'k) tcp_conn) list"
  next_addr :: nat
  tcp_stop :: bool
  net_success :: bool
  net_ip_id :: u32
  ticks :: nat
  frames :: "frame list"
  upcalls :: "(nat \<times> tcp_cb_status \<times> bytes) list"
  app :: 'a

record ('p, 'k, 'a) tcp_env =
  e_clock :: "nat \<Rightarrow> u32"
  e_malloc :: "('p, 'k, 'a) net \<Rightarrow> bool"
  e_net_ip :: u32
  e_ethaddr :: bytes
  e_vlan :: u16
  e_load :: "'a \<Rightarrow> 'p \<Rightarrow> nat \<Rightarrow> nat \<Rightarrow> bytes option"
  e_call :: "'k \<Rightarrow> tcb_cb_data \<Rightarrow> ('p, 'k, 'a) net \<Rightarrow> (tcb_cb_data \<times> ('p, 'k, 'a) net) option"

abbreviation (input) EADDRINUSE :: int where "EADDRINUSE \<equiv> 98"
abbreviation (input) TCP_HDR_SIZE :: nat where "TCP_HDR_SIZE \<equiv> 20"
abbreviation (input) PKTSIZE_ALIGN :: nat where "PKTSIZE_ALIGN \<equiv> 1536"
abbreviation (input) TCP_FIN :: u16 where "TCP_FIN \<equiv> 0x01"
abbreviation (input) TCP_SYN :: u16 where "TCP_SYN \<equiv> 0x02"
abbreviation (input) TCP_RST :: u16 where "TCP_RST \<equiv> 0x04"
abbreviation (input) TCP_PSH :: u16 where "TCP_PSH \<equiv> 0x08"
abbreviation (input) TCP_ACK :: u16 where "TCP_ACK \<equiv> 0x10"
abbreviation (input) TCP_URG :: u16 where "TCP_URG \<equiv> 0x20"
abbreviation (input) TCP_FLAG_MASK :: u16 where "TCP_FLAG_MASK \<equiv> 0x3f"
abbreviation (input) TCP_OPT_EOL :: u8 where "TCP_OPT_EOL \<equiv> 0"
abbreviation (input) TCP_OPT_NOP :: u8 where "TCP_OPT_NOP \<equiv> 1"
abbreviation (input) TCP_OPT_MSS :: u8 where "TCP_OPT_MSS \<equiv> 2"
abbreviation (input) TCP_OPT_WS :: u8 where "TCP_OPT_WS \<equiv> 3"
abbreviation (input) TCP_RTT_G :: u32 where "TCP_RTT_G \<equiv> 200"
abbreviation (input) TCP_RTT_K :: u32 where "TCP_RTT_K \<equiv> 4"
abbreviation (input) TCP_RTT_INTERVAL :: u32 where "TCP_RTT_INTERVAL \<equiv> 3000"
abbreviation (input) TCP_REXMIT_MAX_SEG_DELAY :: u32 where "TCP_REXMIT_MAX_SEG_DELAY \<equiv> 60000"
abbreviation (input) TCP_REXMIT_MAX_CONN_DELAY :: u32 where "TCP_REXMIT_MAX_CONN_DELAY \<equiv> 300000"

text \<open>A flag of a header's flag word.\<close>

definition has_flag :: "u16 \<Rightarrow> u16 \<Rightarrow> bool" where
  "has_flag flags f \<longleftrightarrow> flags AND f \<noteq> 0"

section \<open>Accesses to connections\<close>

definition conn_at :: "nat \<Rightarrow> ('p, 'k, 'a) net \<Rightarrow> ('p, 'k) tcp_conn option" where
  "conn_at a s = map_of (conn_head s) a"

definition conn_upd :: "nat \<Rightarrow> (('p, 'k) tcp_conn \<Rightarrow> ('p, 'k) tcp_conn) \<Rightarrow> ('p, 'k, 'a) net \<Rightarrow> ('p, 'k, 'a) net option" where
  "conn_upd a f s =
     (if conn_at a s = None then None
      else Some (s\<lparr>conn_head := map (\<lambda>(b, c). (b, if b = a then f c else c)) (conn_head s)\<rparr>))"

definition tcp_conn_del :: "nat \<Rightarrow> ('p, 'k, 'a) net \<Rightarrow> ('p, 'k, 'a) net option" where
  "tcp_conn_del a s =
     (if conn_at a s = None then None
      else Some (s\<lparr>conn_head := filter (\<lambda>(b, _). b \<noteq> a) (conn_head s)\<rparr>))"

definition get_timer :: "('p, 'k, 'a) tcp_env \<Rightarrow> u32 \<Rightarrow> ('p, 'k, 'a) net \<Rightarrow> u32 \<times> ('p, 'k, 'a) net" where
  "get_timer e base s = (e_clock e (ticks s) - base, s\<lparr>ticks := Suc (ticks s)\<rparr>)"

section \<open>Listening and finding\<close>

definition tcp_start :: "('p, 'k, 'a) net \<Rightarrow> ('p, 'k, 'a) net" where
  "tcp_start s = s\<lparr>tcp_stop := False\<rparr>"

definition tcp_listen_find :: "u16 \<Rightarrow> ('p, 'k, 'a) net \<Rightarrow> (u16 \<times> 'k) option" where
  "tcp_listen_find port s = find (\<lambda>(p, _). p = port) (listen_head s)"

definition tcp_listen :: "('p, 'k, 'a) tcp_env \<Rightarrow> u16 \<Rightarrow> 'k option \<Rightarrow> ('p, 'k, 'a) net \<Rightarrow> int \<times> ('p, 'k, 'a) net" where
  "tcp_listen e port cb s =
     (case cb of
        None \<Rightarrow> (- EINVAL, s)
      | Some k \<Rightarrow>
          if port = 0 then (- EINVAL, s)
          else if tcp_listen_find port s \<noteq> None then (- EADDRINUSE, s)
          else if \<not> e_malloc e s then (- ENOMEM, s)
          else (0, s\<lparr>listen_head := listen_head s @ [(port, k)]\<rparr>))"

primrec remove_first :: "('x \<Rightarrow> bool) \<Rightarrow> 'x list \<Rightarrow> 'x list" where
  "remove_first P [] = []"
| "remove_first P (x # xs) = (if P x then xs else x # remove_first P xs)"

definition tcp_listen_stop :: "u16 \<Rightarrow> ('p, 'k, 'a) net \<Rightarrow> int \<times> ('p, 'k, 'a) net" where
  "tcp_listen_stop port s =
     (if tcp_listen_find port s \<noteq> None
      then (0, s\<lparr>listen_head := remove_first (\<lambda>(p, _). p = port) (listen_head s)\<rparr>) else (-1, s))"

definition tcp_conn_find :: "u32 \<Rightarrow> u16 \<Rightarrow> u16 \<Rightarrow> ('p, 'k, 'a) net \<Rightarrow> nat option" where
  "tcp_conn_find remoteip remoteport localport s =
     map_option fst (find (\<lambda>(_, c). c_ip_remote c = remoteip \<and> c_port_remote c = remoteport \<and> c_port_local c = localport) (conn_head s))"

section \<open>Sequence numbers and times\<close>

definition time_after :: "u32 \<Rightarrow> u32 \<Rightarrow> bool" where
  "time_after a b \<longleftrightarrow> sint (b - a) < 0"

definition tcp_seq_sub :: "u32 \<Rightarrow> u32 \<Rightarrow> int" where
  "tcp_seq_sub a b =
     (if time_after a b
      then if a \<ge> b then sint (a - b) else sint (a + NOT b + 1)
      else if a \<le> b then - sint (b - a) else - sint (b + NOT a + 1))"

definition rtt_calc :: "('p, 'k, 'a) tcp_env \<Rightarrow> nat \<Rightarrow> ('p, 'k, 'a) net \<Rightarrow> ('p, 'k, 'a) net option" where
  "rtt_calc e a s = do {
     c \<leftarrow> conn_at a s;
     let (rtt, s) = get_timer e (c_ts_rtt c) s;
     let sub = (if rtt > c_srtt c then rtt - c_srtt c else c_srtt c - rtt);
     let rttvar = c_rttvar c - drop_bit 3 (c_rttvar c) + drop_bit 3 sub;
     let srtt = c_srtt c - drop_bit 2 (c_srtt c) + drop_bit 2 rtt;
     conn_upd a (\<lambda>c. c\<lparr>c_rttvar := rttvar, c_srtt := srtt, c_rto := srtt + max TCP_RTT_G (TCP_RTT_K * rttvar)\<rparr>) s
   }"

section \<open>Sending\<close>

definition tcp_set_mss_opt :: "u16 \<Rightarrow> bytes" where
  "tcp_set_mss_opt mss = [TCP_OPT_MSS, 4, ucast (drop_bit 8 mss), ucast mss, TCP_OPT_WS, 3, 0, TCP_OPT_EOL]"

definition tcp_header :: "('p, 'k) tcp_conn \<Rightarrow> u16 \<Rightarrow> u32 \<Rightarrow> u32 \<Rightarrow> nat \<Rightarrow> u16 \<Rightarrow> bytes" where
  "tcp_header c flags seq ack opt_size chksum =
     enc_le 2 (c_port_local c) @ enc_le 2 (c_port_remote c) @ enc_le 4 (htonl seq) @ enc_le 4 (htonl ack)
     @ enc_le 2 (htons (push_bit 12 (of_nat ((TCP_HDR_SIZE + opt_size) div 4)) OR (flags AND TCP_FLAG_MASK)))
     @ enc_le 2 (htons (c_mss c)) @ enc_le 2 chksum @ [0, 0]"

definition tcp_send_packet_opt :: "('p, 'k, 'a) tcp_env \<Rightarrow> ('p, 'k) tcp_conn \<Rightarrow> u16 \<Rightarrow> u32 \<Rightarrow> u32 \<Rightarrow> bytes \<Rightarrow> bytes
    \<Rightarrow> ('p, 'k, 'a) net \<Rightarrow> ('p, 'k, 'a) net option" where
  "tcp_send_packet_opt e c flags seq ack opt payload s = do {
     let eth = net_set_ether (e_vlan e) (e_ethaddr e) (c_ethaddr c) PROT_IP;
     let sz = TCP_HDR_SIZE + length opt + length payload;
     let ip = ip_header (of_nat (IP_HDR_SIZE + sz)) (ucast (net_ip_id s)) 6;
     let ip_sum = ucast (compute_ip_checksum (ip 0 (e_net_ip e) (c_ip_remote c)));
     let seg = (\<lambda>chksum. tcp_header c flags seq ack (length opt) chksum @ opt @ payload);
     chksum \<leftarrow> tcp_checksum_compute (seg 0) (of_nat sz) (e_net_ip e) (c_ip_remote c);
     let pkt = eth @ ip ip_sum (e_net_ip e) (c_ip_remote c) @ seg chksum;
     if length pkt > PKTSIZE_ALIGN then None
     else Some (s\<lparr>net_ip_id := net_ip_id s + 1,
       frames := frames s @ [if c_ethaddr c = replicate 6 0 then Arp (c_ip_remote c) pkt else Eth pkt]\<rparr>)
   }"

definition tcp_send_packet :: "('p, 'k, 'a) tcp_env \<Rightarrow> ('p, 'k) tcp_conn \<Rightarrow> u16 \<Rightarrow> u32 \<Rightarrow> u32 \<Rightarrow> bytes
    \<Rightarrow> ('p, 'k, 'a) net \<Rightarrow> ('p, 'k, 'a) net option" where
  "tcp_send_packet e c flags seq ack payload s = tcp_send_packet_opt e c flags seq ack [] payload s"

definition tcp_send_packet_ctrl :: "('p, 'k, 'a) tcp_env \<Rightarrow> ('p, 'k) tcp_conn \<Rightarrow> u16 \<Rightarrow> ('p, 'k, 'a) net \<Rightarrow> ('p, 'k, 'a) net option" where
  "tcp_send_packet_ctrl e c flags s = tcp_send_packet_opt e c flags (c_local_seq c) (c_peer_seq c + 1) [] [] s"

section \<open>New connections\<close>

text \<open>The options of a SYN: the offset of the next one, the segment size and the window scale so far.\<close>

definition opt_body :: "bytes \<Rightarrow> nat \<Rightarrow> nat \<times> u16 \<times> u32 \<Rightarrow> (u16 \<times> u32 + nat \<times> u16 \<times> u32) option" where
  "opt_body tcp optend = (\<lambda>(off, mss, ws).
     if off \<ge> optend then Some (Inl (mss, ws))
     else do {
       kind \<leftarrow> arr_get tcp off;
       if kind = TCP_OPT_EOL then Some (Inl (mss, ws))
       else if kind = TCP_OPT_NOP then Some (Inr (off + 1, mss, ws))
       else do {
         mss \<leftarrow> (if kind = TCP_OPT_MSS then do {
             hi \<leftarrow> arr_get tcp (off + 2);
             lo \<leftarrow> arr_get tcp (off + 3);
             let m = push_bit 8 (ucast hi) OR ucast lo;
             Some (if m < mss then m else mss)
           } else Some mss);
         ws \<leftarrow> (if kind = TCP_OPT_WS then do {
             w \<leftarrow> arr_get tcp (off + 2);
             Some (min (ucast w) 14)
           } else Some ws);
         n \<leftarrow> arr_get tcp (off + 1);
         Some (Inr (off + unat n, mss, ws))
       }
     })"

definition tcp_conn_create :: "('p, 'k, 'a) tcp_env \<Rightarrow> u32 \<Rightarrow> bytes \<Rightarrow> u32 \<Rightarrow> bytes \<Rightarrow> 'k \<Rightarrow> ('p, 'k, 'a) net \<Rightarrow> ('p, 'k, 'a) net option" where
  "tcp_conn_create e remoteip tcp tcphdr_len ethaddr cb s =
     (if \<not> e_malloc e s then None
      else do {
        src \<leftarrow> get16 0 tcp;
        dst \<leftarrow> get16 2 tcp;
        seq \<leftarrow> get32 4 tcp;
        wnd \<leftarrow> get16 14 tcp;
        let (t, s) = get_timer e 0 s;
        (mss, ws) \<leftarrow> (if unat tcphdr_len > TCP_HDR_SIZE then loop (opt_body tcp (unat tcphdr_len)) (TCP_HDR_SIZE, 1460, 0)
          else Some (1460, 0));
        let c = \<lparr>c_status = SYN_RCVD, c_ip_remote = remoteip, c_port_remote = src, c_port_local = dst,
          c_peer_seq = htonl seq, c_local_seq = ucast ((64000 * ucast t :: u64) div 500), c_local_seq_last = 0,
          c_local_seq_acked = 0, c_ts = 0, c_ts_rexmit = 0, c_num_rexmit = 0, c_ethaddr = ethaddr, c_mss = mss, c_tx = None,
          c_txlen = 0, c_cb = cb, c_close_flag = False, c_ack_flag = 0, c_rexmit_mode = False, c_rexmit_wait_ack = False,
          c_zw_mode = False, c_peer_wnd = ucast (htons wnd), c_peer_ws = ws, c_srtt = 0, c_rttvar = 0, c_rto = 0,
          c_ts_rtt = 0, c_ack_calc_rtt = 0, c_pdata = None\<rparr>;
        s \<leftarrow> tcp_send_packet_opt e c (TCP_SYN OR TCP_ACK) (c_local_seq c) (c_peer_seq c + 1) (tcp_set_mss_opt mss) [] s;
        let (t1, s) = get_timer e 0 s;
        let (t2, s) = get_timer e 0 s;
        let (t3, s) = get_timer e 0 s;
        let c = c\<lparr>c_ts_rtt := t1, c_ts := t2, c_ts_rexmit := t3\<rparr>;
        Some (s\<lparr>conn_head := conn_head s @ [(next_addr s, c)], next_addr := Suc (next_addr s)\<rparr>)
      })"

section \<open>Receiving\<close>

text \<open>A segment as the first part of \<^verbatim>\<open>receive_tcp\<close> reads it.\<close>

record tcp_seg =
  g_sip :: u32
  g_src :: u16
  g_dst :: u16
  g_seq :: u32
  g_ack :: u32
  g_flags :: u16
  g_wnd :: u16
  g_tcp :: bytes
  g_hdr_len :: u32
  g_data :: bytes
  g_size :: u32

definition tcp_parse :: "bytes \<Rightarrow> u32 \<Rightarrow> tcp_seg option option" where
  "tcp_parse rx len = do {
     hl_v \<leftarrow> get8 0 rx;
     let iphdr_len = (ucast (hl_v AND 0x0f) * 4 :: u32);
     let tcp = drop (unat iphdr_len) rx;
     sip \<leftarrow> get32 12 rx;
     dip \<leftarrow> get32 16 rx;
     chksum \<leftarrow> tcp_checksum_compute tcp (len - iphdr_len) sip dip;
     if chksum \<noteq> 0 then Some None
     else do {
       rawflags \<leftarrow> get16 12 tcp;
       let flags = htons rawflags;
       let tcphdr_len = (ucast (drop_bit 12 flags) * 4 :: u32);
       if tcphdr_len < of_nat TCP_HDR_SIZE then Some None
       else if len < iphdr_len + tcphdr_len then Some None
       else do {
         rawurg \<leftarrow> get16 18 tcp;
         let urg = (if has_flag flags TCP_URG then ucast (htons rawurg) else 0 :: u32);
         seq \<leftarrow> get32 4 tcp;
         ack \<leftarrow> get32 8 tcp;
         src \<leftarrow> get16 0 tcp;
         dst \<leftarrow> get16 2 tcp;
         wnd \<leftarrow> get16 14 tcp;
         Some (Some \<lparr>g_sip = sip, g_src = src, g_dst = dst, g_seq = htonl seq, g_ack = htonl ack, g_flags = flags,
           g_wnd = htons wnd, g_tcp = tcp, g_hdr_len = tcphdr_len, g_data = drop (unat tcphdr_len + unat urg) tcp,
           g_size = len - iphdr_len - tcphdr_len - urg\<rparr>)
       }
     }
   }"

definition call_cb :: "('p, 'k, 'a) tcp_env \<Rightarrow> nat \<Rightarrow> tcp_cb_status \<Rightarrow> tcb_cb_data \<Rightarrow> ('p, 'k, 'a) net
    \<Rightarrow> (tcb_cb_data \<times> ('p, 'k, 'a) net) option" where
  "call_cb e a st cbd s = do {
     c \<leftarrow> conn_at a s;
     let s = s\<lparr>upcalls := upcalls s @ [(a, st, if st = TCP_CB_DATA_RCVD then take (unat (cbd_datalen cbd)) (cbd_data cbd) else [])]\<rparr>;
     e_call e (c_cb c) (cbd\<lparr>cbd_status := st\<rparr>) s
   }"

text \<open>What of the payload is new, and whether an acknowledgement is due: the memory, the size and the flag.\<close>

definition tcp_trim :: "u32 \<Rightarrow> u32 \<Rightarrow> bytes \<Rightarrow> u32 \<Rightarrow> bytes \<times> u32 \<times> bool" where
  "tcp_trim peer_seq seq data data_size =
     (if tcp_seq_sub seq peer_seq < 0
      then if tcp_seq_sub (seq + data_size) peer_seq > 0
        then (let tmp = seq + data_size - peer_seq in (drop (unat (data_size - tmp)) data, tmp, False))
        else (data, 0, True)
      else if tcp_seq_sub seq peer_seq > 0 then (data, 0, True)
      else (data, data_size, False))"

text \<open>
  The acknowledgement in a segment. The flag of the result is false when the rest of the segment
  is ignored.
\<close>

definition tcp_ack_input :: "('p, 'k, 'a) tcp_env \<Rightarrow> nat \<Rightarrow> u32 \<Rightarrow> tcb_cb_data \<Rightarrow> ('p, 'k, 'a) net
    \<Rightarrow> (bool \<times> tcb_cb_data \<times> ('p, 'k, 'a) net) option" where
  "tcp_ack_input e a ack cbd s = do {
     c \<leftarrow> conn_at a s;
     if tcp_seq_sub ack (c_local_seq_acked c) > 0
     then do {
       s \<leftarrow> conn_upd a (\<lambda>c. c\<lparr>c_rexmit_mode := False, c_rexmit_wait_ack := False, c_local_seq_acked := ack\<rparr>) s;
       s \<leftarrow> (if tcp_seq_sub ack (c_ack_calc_rtt c) \<ge> 0 \<and> c_ack_calc_rtt c \<noteq> 0
             then do { s \<leftarrow> conn_upd a (\<lambda>c. c\<lparr>c_ack_calc_rtt := 0\<rparr>) s; rtt_calc e a s }
             else Some s);
       if word_of_int (tcp_seq_sub ack (c_local_seq_last c)) = c_txlen c
       then do {
         s \<leftarrow> conn_upd a (\<lambda>c. c\<lparr>c_tx := None, c_txlen := 0\<rparr>) s;
         (cbd, s) \<leftarrow> call_cb e a TCP_CB_DATA_SENT cbd s;
         Some (True, cbd, s)
       }
       else Some (True, cbd, s)
     }
     else if tcp_seq_sub ack (c_local_seq_last c) < 0 then Some (False, cbd, s)
     else if c_local_seq c = c_local_seq_acked c then Some (True, cbd, s)
     else do {
       s \<leftarrow> conn_upd a (\<lambda>c. c\<lparr>c_local_seq_acked := ack, c_rexmit_mode := True\<rparr>) s;
       Some (True, cbd, s)
     }
   }"

definition tcp_deliver :: "('p, 'k, 'a) tcp_env \<Rightarrow> nat \<Rightarrow> u16 \<Rightarrow> bytes \<Rightarrow> u32 \<Rightarrow> tcb_cb_data \<Rightarrow> ('p, 'k, 'a) net
    \<Rightarrow> ('p, 'k, 'a) net option" where
  "tcp_deliver e a flags data data_size cbd s = do {
     (cbd, s) \<leftarrow> (if data_size \<noteq> 0 then do {
         s \<leftarrow> conn_upd a (\<lambda>c. c\<lparr>c_peer_seq := c_peer_seq c + data_size, c_ack_flag := c_ack_flag c + 1\<rparr>) s;
         call_cb e a TCP_CB_DATA_RCVD (cbd\<lparr>cbd_data := data, cbd_datalen := data_size\<rparr>) s
       } else Some (cbd, s));
     if has_flag flags TCP_FIN then do {
       s \<leftarrow> conn_upd a (\<lambda>c. c\<lparr>c_status := CLOSE_WAIT\<rparr>) s;
       (cbd, s) \<leftarrow> call_cb e a TCP_CB_REMOTE_CLOSING cbd s;
       Some s
     }
     else Some s
   }"

definition tcp_established :: "('p, 'k, 'a) tcp_env \<Rightarrow> nat \<Rightarrow> tcp_seg \<Rightarrow> tcb_cb_data \<Rightarrow> ('p, 'k, 'a) net
    \<Rightarrow> ('p, 'k, 'a) net option" where
  "tcp_established e a g cbd s = do {
     c \<leftarrow> conn_at a s;
     let tmp = push_bit (unat (c_peer_ws c)) (ucast (g_wnd g));
     let (data, data_size, due) = tcp_trim (c_peer_seq c) (g_seq g) (g_data g) (g_size g);
     s \<leftarrow> conn_upd a (\<lambda>c. c\<lparr>c_zw_mode := c_zw_mode c \<and> \<not> (tmp > ucast (c_mss c) \<and> tmp > c_peer_wnd c), c_peer_wnd := tmp,
       c_ack_flag := c_ack_flag c + (if due then 1 else 0)\<rparr>) s;
     (go, cbd, s) \<leftarrow> tcp_ack_input e a (g_ack g) cbd s;
     if go then tcp_deliver e a (g_flags g) data data_size cbd s else Some s
   }"

definition tcp_accept :: "('p, 'k, 'a) tcp_env \<Rightarrow> nat \<Rightarrow> tcb_cb_data \<Rightarrow> ('p, 'k, 'a) net
    \<Rightarrow> (tcb_cb_data \<times> ('p, 'k, 'a) net) option" where
  "tcp_accept e a cbd s = do {
     c \<leftarrow> conn_at a s;
     let (srtt, s) = get_timer e (c_ts_rtt c) s;
     s \<leftarrow> conn_upd a (\<lambda>c. c\<lparr>c_srtt := srtt, c_rttvar := srtt div 2, c_rto := srtt + max TCP_RTT_G (TCP_RTT_K * (srtt div 2)),
       c_status := ESTABLISHED, c_peer_seq := c_peer_seq c + 1, c_local_seq := c_local_seq c + 1,
       c_local_seq_last := c_local_seq c + 1, c_local_seq_acked := c_local_seq c + 1\<rparr>) s;
     call_cb e a TCP_CB_NEW_CONN cbd s
   }"

definition tcp_input :: "('p, 'k, 'a) tcp_env \<Rightarrow> nat \<Rightarrow> tcp_seg \<Rightarrow> ('p, 'k, 'a) net \<Rightarrow> ('p, 'k, 'a) net option" where
  "tcp_input e a g s = do {
     c \<leftarrow> conn_at a s;
     let cbd = \<lparr>cbd_conn = a, cbd_status = TCP_CB_NONE, cbd_sip = c_ip_remote c, cbd_sp = g_src g, cbd_dp = g_dst g,
       cbd_pdata = c_pdata c, cbd_data = [], cbd_datalen = 0\<rparr>;
     if has_flag (g_flags g) TCP_RST then do {
       (cbd, s) \<leftarrow> (if c_status c \<noteq> SYN_RCVD then call_cb e a TCP_CB_REMOTE_CLOSED cbd s else Some (cbd, s));
       tcp_conn_del a s
     }
     else if \<not> has_flag (g_flags g) TCP_ACK \<and> c_status c \<noteq> FIN_WAIT_1 \<and> c_status c \<noteq> FIN_WAIT_2 then Some s
     else case c_status c of
       SYN_RCVD \<Rightarrow> do {
         (cbd, s) \<leftarrow> tcp_accept e a cbd s;
         if g_size g = 0 then Some s else tcp_established e a g cbd s
       }
     | ESTABLISHED \<Rightarrow> tcp_established e a g cbd s
     | LAST_ACK \<Rightarrow>
         if tcp_seq_sub (g_ack g) (c_local_seq c + 1) \<noteq> 0 then Some s
         else do {
           s \<leftarrow> conn_upd a (\<lambda>c. c\<lparr>c_status := CLOSE_WAIT\<rparr>) s;
           (cbd, s) \<leftarrow> call_cb e a TCP_CB_REMOTE_CLOSED cbd s;
           tcp_conn_del a s
         }
     | FIN_WAIT_1 \<Rightarrow>
         if has_flag (g_flags g) TCP_ACK \<and> tcp_seq_sub (g_ack g) (c_local_seq c + 1) \<noteq> 0 then Some s
         else if g_flags g AND (TCP_ACK OR TCP_FIN) = TCP_ACK OR TCP_FIN
           then conn_upd a (\<lambda>c. c\<lparr>c_status := TIME_WAIT, c_local_seq := c_local_seq c + 1\<rparr>) s
         else if has_flag (g_flags g) TCP_ACK
           then conn_upd a (\<lambda>c. c\<lparr>c_status := FIN_WAIT_2, c_local_seq := c_local_seq c + 1\<rparr>) s
         else if has_flag (g_flags g) TCP_FIN then conn_upd a (\<lambda>c. c\<lparr>c_status := CLOSING\<rparr>) s
         else Some s
     | FIN_WAIT_2 \<Rightarrow> if has_flag (g_flags g) TCP_FIN then conn_upd a (\<lambda>c. c\<lparr>c_status := TIME_WAIT\<rparr>) s else Some s
     | CLOSING \<Rightarrow>
         if tcp_seq_sub (g_ack g) (c_local_seq c + 1) \<noteq> 0 then Some s
         else conn_upd a (\<lambda>c. c\<lparr>c_status := TIME_WAIT, c_local_seq := c_local_seq c + 1\<rparr>) s
     | _ \<Rightarrow> Some s
   }"

definition receive_tcp :: "('p, 'k, 'a) tcp_env \<Rightarrow> bytes \<Rightarrow> u32 \<Rightarrow> bytes \<Rightarrow> ('p, 'k, 'a) net \<Rightarrow> ('p, 'k, 'a) net option" where
  "receive_tcp e rx len et_src s = do {
     r \<leftarrow> tcp_parse rx len;
     case r of
       None \<Rightarrow> Some s
     | Some g \<Rightarrow>
         (case tcp_conn_find (g_sip g) (g_src g) (g_dst g) s of
            None \<Rightarrow>
              if g_flags g AND TCP_FLAG_MASK = TCP_SYN
              then case tcp_listen_find (g_dst g) s of
                None \<Rightarrow> Some s
              | Some (_, cb) \<Rightarrow> tcp_conn_create e (g_sip g) (g_tcp g) (g_hdr_len g) et_src cb s
              else Some s
          | Some a \<Rightarrow> tcp_input e a g s)
   }"

section \<open>Timers\<close>

definition tcp_rexmit_init :: "('p, 'k, 'a) tcp_env \<Rightarrow> nat \<Rightarrow> ('p, 'k, 'a) net \<Rightarrow> ('p, 'k, 'a) net option" where
  "tcp_rexmit_init e a s = do {
     let (t1, s) = get_timer e 0 s;
     let (t2, s) = get_timer e 0 s;
     conn_upd a (\<lambda>c. c\<lparr>c_ts_rexmit := t1, c_ts := t2, c_num_rexmit := 0\<rparr>) s
   }"

definition tcp_rexmit_reset :: "('p, 'k, 'a) tcp_env \<Rightarrow> nat \<Rightarrow> ('p, 'k, 'a) net \<Rightarrow> ('p, 'k, 'a) net option" where
  "tcp_rexmit_reset e a s = do {
     let (t, s) = get_timer e 0 s;
     conn_upd a (\<lambda>c. c\<lparr>c_ts := t, c_num_rexmit := c_num_rexmit c + 1\<rparr>) s
   }"

text \<open>A shift by the width of the word or more has no meaning in C.\<close>

definition tcp_rexmit_check :: "('p, 'k, 'a) tcp_env \<Rightarrow> nat \<Rightarrow> tcb_cb_data \<Rightarrow> ('p, 'k, 'a) net \<Rightarrow> (int \<times> ('p, 'k, 'a) net) option" where
  "tcp_rexmit_check e a cbd s = do {
     c \<leftarrow> conn_at a s;
     let (t, s) = get_timer e (c_ts_rexmit c) s;
     if t > TCP_REXMIT_MAX_CONN_DELAY then do {
       s \<leftarrow> tcp_send_packet e c (TCP_RST OR TCP_ACK) (c_local_seq c) (c_peer_seq c) [] s;
       (cbd, s) \<leftarrow> (case c_status c of
           ESTABLISHED \<Rightarrow> call_cb e a TCP_CB_REMOTE_CLOSED cbd s
         | FIN_WAIT_1 \<Rightarrow> call_cb e a TCP_CB_CLOSED cbd s
         | CLOSE_WAIT \<Rightarrow> call_cb e a TCP_CB_CLOSED cbd s
         | _ \<Rightarrow> Some (cbd, s));
       s \<leftarrow> tcp_conn_del a s;
       Some (-1, s)
     }
     else if c_num_rexmit c \<ge> 32 then None
     else do {
       let timeout = min (push_bit (unat (c_num_rexmit c)) (c_rto c)) TCP_REXMIT_MAX_SEG_DELAY + c_ts c;
       let (curts, s) = get_timer e 0 s;
       Some (if time_after curts timeout then 1 else 0, s)
     }
   }"

section \<open>Checking a connection\<close>

text \<open>
  The part of \<^verbatim>\<open>tcp_conn_check\<close> for an established connection, in the order of the code. The local
  variables are the offset of the data in the buffer, its length, the flags and the sequence number;
  \<open>Inl\<close> is an early return.
\<close>

type_synonym ('p, 'k, 'a) check_step = "(('p, 'k, 'a) net + (u32 \<times> u32 \<times> u16 \<times> u32) \<times> ('p, 'k, 'a) net) option"

definition check_new_data :: "('p, 'k, 'a) tcp_env \<Rightarrow> nat \<Rightarrow> tcb_cb_data \<Rightarrow> u32 \<Rightarrow> u32 \<Rightarrow> ('p, 'k, 'a) net \<Rightarrow> ('p, 'k, 'a) check_step" where
  "check_new_data e a cbd datalen_sent datalen_acked s = do {
     c \<leftarrow> conn_at a s;
     let sendseq = c_local_seq c;
     if c_rexmit_mode c then Some (Inr ((0, 0, TCP_ACK, sendseq), s))
     else if c_txlen c > datalen_sent then do {
       let datalen = min (c_txlen c - datalen_sent) (ucast (c_mss c));
       if datalen \<ge> c_peer_wnd c then do {
         s \<leftarrow> (if \<not> c_zw_mode c then tcp_rexmit_init e a s else Some s);
         s \<leftarrow> conn_upd a (\<lambda>c. c\<lparr>c_zw_mode := True\<rparr>) s;
         Some (Inr ((datalen_sent, 0, TCP_ACK, sendseq), s))
       }
       else do {
         s \<leftarrow> conn_upd a (\<lambda>c. c\<lparr>c_local_seq := c_local_seq c + datalen, c_peer_wnd := c_peer_wnd c - datalen,
           c_ack_flag := c_ack_flag c + 1\<rparr>) s;
         let flags = (if datalen = c_txlen c - datalen_sent then TCP_ACK OR TCP_PSH else TCP_ACK);
         s \<leftarrow> tcp_rexmit_init e a s;
         Some (Inr ((datalen_sent, datalen, flags, sendseq), s))
       }
     }
     else if c_txlen c > datalen_acked then do {
       (r, s) \<leftarrow> tcp_rexmit_check e a cbd s;
       if r = -1 then Some (Inl s)
       else do {
         s \<leftarrow> (if r = 1 then conn_upd a (\<lambda>c. c\<lparr>c_rexmit_mode := True, c_rexmit_wait_ack := False\<rparr>) s else Some s);
         Some (Inr ((0, 0, TCP_ACK, sendseq), s))
       }
     }
     else Some (Inr ((0, 0, TCP_ACK, sendseq), s))
   }"

definition check_rexmit :: "('p, 'k, 'a) tcp_env \<Rightarrow> nat \<Rightarrow> tcb_cb_data \<Rightarrow> u32 \<Rightarrow> u32 \<times> u32 \<times> u16 \<times> u32 \<Rightarrow> ('p, 'k, 'a) net
    \<Rightarrow> ('p, 'k, 'a) check_step" where
  "check_rexmit e a cbd datalen_acked v s = do {
     c \<leftarrow> conn_at a s;
     if \<not> c_rexmit_mode c then Some (Inr (v, s))
     else do {
       (r, s) \<leftarrow> (if c_rexmit_wait_ack c then tcp_rexmit_check e a cbd s else Some (0, s));
       if r = -1 then Some (Inl s)
       else do {
         s \<leftarrow> (if r = 1 then conn_upd a (\<lambda>c. c\<lparr>c_rexmit_wait_ack := False\<rparr>) s else Some s);
         c \<leftarrow> conn_at a s;
         if c_rexmit_wait_ack c then Some (Inr (v, s))
         else do {
           let (data, datalen, flags, sendseq) = v;
           ((data, datalen), s) \<leftarrow> (if \<not> c_zw_mode c then do {
               let datalen = min (c_txlen c - datalen_acked) (ucast (c_mss c));
               s \<leftarrow> conn_upd a (\<lambda>c. c\<lparr>c_ack_flag := c_ack_flag c + 1, c_rexmit_wait_ack := True\<rparr>) s;
               s \<leftarrow> tcp_rexmit_reset e a s;
               Some ((datalen_acked, datalen), s)
             } else Some ((data, datalen), s));
           let (t, s) = get_timer e (c_ts_rtt c) s;
           s \<leftarrow> (if t > TCP_RTT_INTERVAL then do {
               let (t, s) = get_timer e 0 s;
               conn_upd a (\<lambda>c. c\<lparr>c_ack_calc_rtt := c_local_seq_acked c + datalen, c_ts_rtt := t\<rparr>) s
             } else Some s);
           Some (Inr ((data, datalen, flags, c_local_seq_acked c), s))
         }
       }
     }
   }"

definition check_zero_window :: "('p, 'k, 'a) tcp_env \<Rightarrow> nat \<Rightarrow> tcb_cb_data \<Rightarrow> u32 \<Rightarrow> u32 \<Rightarrow> u32 \<times> u32 \<times> u16 \<times> u32 \<Rightarrow> ('p, 'k, 'a) net
    \<Rightarrow> ('p, 'k, 'a) check_step" where
  "check_zero_window e a cbd datalen_sent datalen_acked v s = do {
     c \<leftarrow> conn_at a s;
     if c_peer_wnd c \<noteq> 0 \<and> \<not> c_zw_mode c then Some (Inr (v, s))
     else do {
       s \<leftarrow> (if \<not> c_zw_mode c then do { s \<leftarrow> conn_upd a (\<lambda>c. c\<lparr>c_zw_mode := True\<rparr>) s; tcp_rexmit_init e a s } else Some s);
       if c_txlen c > datalen_sent then do {
         (r, s) \<leftarrow> tcp_rexmit_check e a cbd s;
         if r = -1 then Some (Inl s)
         else if r = 1 then do {
           let (data, datalen, flags, sendseq) = v;
           s \<leftarrow> conn_upd a (\<lambda>c. c\<lparr>c_local_seq := (if c_local_seq c = c_local_seq_acked c then c_local_seq c + 1 else c_local_seq c),
             c_ack_flag := c_ack_flag c + 1\<rparr>) s;
           s \<leftarrow> tcp_rexmit_reset e a s;
           Some (Inr ((datalen_acked, 1, flags, c_local_seq_acked c), s))
         }
         else Some (Inr (v, s))
       }
       else Some (Inr (v, s))
     }
   }"

text \<open>The bytes behind the connection's buffer pointer.\<close>

definition tx_bytes :: "('p, 'k, 'a) tcp_env \<Rightarrow> ('p, 'k) tcp_conn \<Rightarrow> u32 \<Rightarrow> u32 \<Rightarrow> ('p, 'k, 'a) net \<Rightarrow> bytes option" where
  "tx_bytes e c data datalen s =
     (if datalen = 0 then Some []
      else do { p \<leftarrow> c_tx c; e_load e (app s) p (unat data) (unat datalen) })"

definition check_send :: "('p, 'k, 'a) tcp_env \<Rightarrow> nat \<Rightarrow> tcb_cb_data \<Rightarrow> u32 \<times> u32 \<times> u16 \<times> u32 \<Rightarrow> ('p, 'k, 'a) net \<Rightarrow> ('p, 'k, 'a) net option" where
  "check_send e a cbd = (\<lambda>(data, datalen, flags, sendseq) s. do {
     c \<leftarrow> conn_at a s;
     s \<leftarrow> (if c_ack_flag c \<noteq> 0 then do {
         s \<leftarrow> conn_upd a (\<lambda>c. c\<lparr>c_ack_flag := 0\<rparr>) s;
         payload \<leftarrow> tx_bytes e c data datalen s;
         tcp_send_packet e c flags sendseq (c_peer_seq c) payload s
       } else Some s);
     if c_close_flag c \<and> (c_tx c = None \<or> c_txlen c = 0) then do {
       s \<leftarrow> tcp_send_packet e c (TCP_FIN OR TCP_ACK) (c_local_seq c) (c_peer_seq c) [] s;
       s \<leftarrow> conn_upd a (\<lambda>c. c\<lparr>c_status := FIN_WAIT_1\<rparr>) s;
       s \<leftarrow> tcp_rexmit_init e a s;
       (cbd, s) \<leftarrow> call_cb e a TCP_CB_CLOSING cbd s;
       Some s
     }
     else Some s
   })"

definition check_established :: "('p, 'k, 'a) tcp_env \<Rightarrow> nat \<Rightarrow> tcb_cb_data \<Rightarrow> ('p, 'k, 'a) net \<Rightarrow> ('p, 'k, 'a) net option" where
  "check_established e a cbd s = do {
     c \<leftarrow> conn_at a s;
     let datalen_sent = word_of_int (tcp_seq_sub (c_local_seq c) (c_local_seq_last c));
     let datalen_acked = word_of_int (tcp_seq_sub (c_local_seq_acked c) (c_local_seq_last c));
     r \<leftarrow> check_new_data e a cbd datalen_sent datalen_acked s;
     case r of Inl s \<Rightarrow> Some s | Inr (v, s) \<Rightarrow> do {
       r \<leftarrow> check_rexmit e a cbd datalen_acked v s;
       case r of Inl s \<Rightarrow> Some s | Inr (v, s) \<Rightarrow> do {
         r \<leftarrow> check_zero_window e a cbd datalen_sent datalen_acked v s;
         case r of Inl s \<Rightarrow> Some s | Inr (v, s) \<Rightarrow> check_send e a cbd v s
       }
     }
   }"

text \<open>A state in which the code waits for an answer and repeats the packet when the timer runs out.\<close>

definition check_again :: "('p, 'k, 'a) tcp_env \<Rightarrow> nat \<Rightarrow> tcb_cb_data \<Rightarrow> (('p, 'k, 'a) net \<Rightarrow> ('p, 'k, 'a) net option) \<Rightarrow> ('p, 'k, 'a) net
    \<Rightarrow> ('p, 'k, 'a) net option" where
  "check_again e a cbd send s = do {
     (r, s) \<leftarrow> tcp_rexmit_check e a cbd s;
     if r = 1 then do { s \<leftarrow> send s; tcp_rexmit_reset e a s } else Some s
   }"

definition check_state :: "('p, 'k, 'a) tcp_env \<Rightarrow> nat \<Rightarrow> ('p, 'k) tcp_conn \<Rightarrow> tcb_cb_data \<Rightarrow> ('p, 'k, 'a) net \<Rightarrow> ('p, 'k, 'a) net option" where
  "check_state e a c cbd s =
     (case c_status c of
        SYN_RCVD \<Rightarrow> check_again e a cbd
          (tcp_send_packet_opt e c (TCP_SYN OR TCP_ACK) (c_local_seq c) (c_peer_seq c + 1) (tcp_set_mss_opt (c_mss c)) []) s
      | ESTABLISHED \<Rightarrow> check_established e a cbd s
      | CLOSE_WAIT \<Rightarrow> do {
          s \<leftarrow> tcp_send_packet_ctrl e c (TCP_FIN OR TCP_ACK) s;
          s \<leftarrow> conn_upd a (\<lambda>c. c\<lparr>c_status := LAST_ACK\<rparr>) s;
          tcp_rexmit_init e a s
        }
      | LAST_ACK \<Rightarrow> check_again e a cbd (tcp_send_packet_ctrl e c (TCP_FIN OR TCP_ACK)) s
      | FIN_WAIT_1 \<Rightarrow> check_again e a cbd (tcp_send_packet e c (TCP_FIN OR TCP_ACK) (c_local_seq c) (c_peer_seq c) []) s
      | TIME_WAIT \<Rightarrow> do {
          s \<leftarrow> tcp_send_packet_ctrl e c TCP_ACK s;
          (cbd, s) \<leftarrow> call_cb e a TCP_CB_CLOSED cbd s;
          tcp_conn_del a s
        }
      | _ \<Rightarrow> Some s)"

definition tcp_conn_check :: "('p, 'k, 'a) tcp_env \<Rightarrow> nat \<Rightarrow> ('p, 'k, 'a) net \<Rightarrow> ('p, 'k, 'a) net option" where
  "tcp_conn_check e a s = do {
     let (_, s) = get_timer e 0 s;
     c \<leftarrow> conn_at a s;
     check_state e a c \<lparr>cbd_conn = a, cbd_status = TCP_CB_NONE, cbd_sip = c_ip_remote c, cbd_sp = c_port_remote c, cbd_dp = c_port_local c,
       cbd_pdata = c_pdata c, cbd_data = [], cbd_datalen = 0\<rparr> s
   }"

section \<open>All connections\<close>

text \<open>\<^verbatim>\<open>list_for_each_safe\<close>: the next element is read before the current one is worked on.\<close>

fun next_of :: "nat \<Rightarrow> (nat \<times> 'c) list \<Rightarrow> nat option" where
  "next_of a ((b, _) # (c, x) # xs) = (if b = a then Some c else next_of a ((c, x) # xs))"
| "next_of a _ = None"

definition each_body :: "(nat \<Rightarrow> ('p, 'k, 'a) net \<Rightarrow> ('p, 'k, 'a) net option) \<Rightarrow> nat option \<times> nat \<times> ('p, 'k, 'a) net
    \<Rightarrow> (nat \<times> ('p, 'k, 'a) net + nat option \<times> nat \<times> ('p, 'k, 'a) net) option" where
  "each_body f = (\<lambda>(pos, num, s).
     case pos of
       None \<Rightarrow> Some (Inl (num, s))
     | Some a \<Rightarrow> do {
         _ \<leftarrow> conn_at a s;
         let n = next_of a (conn_head s);
         s \<leftarrow> f a s;
         Some (Inr (n, Suc num, s))
       })"

definition for_each_conn :: "(nat \<Rightarrow> ('p, 'k, 'a) net \<Rightarrow> ('p, 'k, 'a) net option) \<Rightarrow> ('p, 'k, 'a) net \<Rightarrow> (nat \<times> ('p, 'k, 'a) net) option" where
  "for_each_conn f s = loop (each_body f) (case conn_head s of [] \<Rightarrow> None | (a, _) # _ \<Rightarrow> Some a, 0, s)"

definition tcp_periodic_check :: "('p, 'k, 'a) tcp_env \<Rightarrow> ('p, 'k, 'a) net \<Rightarrow> ('p, 'k, 'a) net option" where
  "tcp_periodic_check e s = do {
     (num, s) \<leftarrow> for_each_conn (tcp_conn_check e) s;
     Some (if tcp_stop s \<and> num = 0 then s\<lparr>net_success := True\<rparr> else s)
   }"

section \<open>The interface to the application\<close>

definition tcp_conn_set_pdata :: "nat option \<Rightarrow> nat option \<Rightarrow> ('p, 'k, 'a) net \<Rightarrow> (nat option \<times> ('p, 'k, 'a) net) option" where
  "tcp_conn_set_pdata conn pdata s =
     (case conn of
        None \<Rightarrow> Some (None, s)
      | Some a \<Rightarrow> do {
          c \<leftarrow> conn_at a s;
          s \<leftarrow> conn_upd a (\<lambda>c. c\<lparr>c_pdata := pdata\<rparr>) s;
          Some (c_pdata c, s)
        })"

definition tcp_send_data :: "nat option \<Rightarrow> 'p option \<Rightarrow> u32 \<Rightarrow> ('p, 'k, 'a) net \<Rightarrow> (int \<times> ('p, 'k, 'a) net) option" where
  "tcp_send_data conn data sz s =
     (case conn of
        None \<Rightarrow> Some (- EINVAL, s)
      | Some a \<Rightarrow>
          if data = None \<or> sz = 0 then Some (- EINVAL, s)
          else do {
            c \<leftarrow> conn_at a s;
            if c_close_flag c then Some (1, s)
            else do {
              let datalen_acked = word_of_int (tcp_seq_sub (c_local_seq_acked c) (c_local_seq_last c));
              if c_tx c \<noteq> None \<and> c_txlen c > datalen_acked then Some (1, s)
              else do {
                s \<leftarrow> conn_upd a (\<lambda>c. c\<lparr>c_tx := data, c_txlen := sz, c_local_seq_last := c_local_seq c,
                  c_local_seq_acked := c_local_seq c\<rparr>) s;
                Some (0, s)
              }
            }
          })"

definition tcp_close_conn :: "('p, 'k, 'a) tcp_env \<Rightarrow> nat option \<Rightarrow> bool \<Rightarrow> ('p, 'k, 'a) net \<Rightarrow> (int \<times> ('p, 'k, 'a) net) option" where
  "tcp_close_conn e conn rst s =
     (case conn of
        None \<Rightarrow> Some (- EINVAL, s)
      | Some a \<Rightarrow>
          if rst then do {
            c \<leftarrow> conn_at a s;
            s \<leftarrow> tcp_send_packet e c (TCP_RST OR TCP_ACK) (c_local_seq c) (c_peer_seq c) [] s;
            s \<leftarrow> tcp_conn_del a s;
            Some (0, s)
          }
          else do {
            s \<leftarrow> conn_upd a (\<lambda>c. c\<lparr>c_close_flag := True\<rparr>) s;
            Some (0, s)
          })"

definition tcp_close_all_conn :: "('p, 'k, 'a) tcp_env \<Rightarrow> ('p, 'k, 'a) net \<Rightarrow> ('p, 'k, 'a) net option" where
  "tcp_close_all_conn e s = do {
     (_, s) \<leftarrow> for_each_conn (\<lambda>a s. map_option snd (tcp_close_conn e (Some a) False s)) s;
     Some (s\<lparr>tcp_stop := True\<rparr>)
   }"

definition tcp_reset_all_conn :: "('p, 'k, 'a) tcp_env \<Rightarrow> ('p, 'k, 'a) net \<Rightarrow> ('p, 'k, 'a) net option" where
  "tcp_reset_all_conn e s = do {
     (_, s) \<leftarrow> for_each_conn (\<lambda>a s. map_option snd (tcp_close_conn e (Some a) True s)) s;
     Some (s\<lparr>tcp_stop := True\<rparr>)
   }"

definition tcp_conn_is_alive :: "nat \<Rightarrow> ('p, 'k, 'a) net \<Rightarrow> bool option" where
  "tcp_conn_is_alive a s = do { c \<leftarrow> conn_at a s; Some (c_status c = ESTABLISHED) }"

section \<open>A connection to evaluate with\<close>

text \<open>A peer 192.168.1.2 at the web server of 192.168.1.1, as the witnesses use it.\<close>

definition demo_conn :: "'k \<Rightarrow> ('p, 'k) tcp_conn" where
  "demo_conn k = \<lparr>c_status = ESTABLISHED, c_ip_remote = 0x0201a8c0, c_port_remote = 0x1234, c_port_local = 0x5000, c_peer_seq = 7,
     c_local_seq = 9, c_local_seq_last = 9, c_local_seq_acked = 9, c_ts = 0, c_ts_rexmit = 0, c_num_rexmit = 0,
     c_ethaddr = [1, 2, 3, 4, 5, 6], c_mss = 1460, c_tx = None, c_txlen = 0, c_cb = k, c_close_flag = False, c_ack_flag = 0,
     c_rexmit_mode = False, c_rexmit_wait_ack = False, c_zw_mode = False, c_peer_wnd = 8000, c_peer_ws = 0, c_srtt = 10,
     c_rttvar = 5, c_rto = 210, c_ts_rtt = 0, c_ack_calc_rtt = 0, c_pdata = None\<rparr>"

definition demo_env :: "('k \<Rightarrow> tcb_cb_data \<Rightarrow> ('p, 'k, 'a) net \<Rightarrow> (tcb_cb_data \<times> ('p, 'k, 'a) net) option)
    \<Rightarrow> ('a \<Rightarrow> 'p \<Rightarrow> nat \<Rightarrow> nat \<Rightarrow> bytes option) \<Rightarrow> ('p, 'k, 'a) tcp_env" where
  "demo_env call load = \<lparr>e_clock = of_nat, e_malloc = \<lambda>_. True, e_net_ip = 0x0101a8c0, e_ethaddr = [6, 5, 4, 3, 2, 1], e_vlan = 0xffff,
     e_load = load, e_call = call\<rparr>"

definition demo_net :: "(u16 \<times> 'k) list \<Rightarrow> ('p, 'k) tcp_conn list \<Rightarrow> 'a \<Rightarrow> ('p, 'k, 'a) net" where
  "demo_net ls cs a = \<lparr>listen_head = ls, conn_head = zip [0 ..< length cs] cs, next_addr = length cs, tcp_stop = False, net_success = False,
     net_ip_id = 0, ticks = 0, frames = [], upcalls = [], app = a\<rparr>"

end
