(* ===== verification/Tcp_Wire.thy ===== *)
theory Tcp_Wire
  imports Tcp
begin

text \<open>
  Segments on the wire: what \<open>tcp_send_packet_opt\<close> builds, \<open>tcp_parse\<close> (the first part of
  \<^verbatim>\<open>receive_tcp\<close>) reads, and damage to a segment is noticed. The comparison of sequence numbers equals
  the signed difference of words.
\<close>

section \<open>Sequence numbers\<close>

lemma tcp_seq_sub_sint: "tcp_seq_sub a b = sint (a - b)"
proof (cases "time_after a b")
  case True
  have "a + NOT b + 1 = a - b" by (simp add: not_eq_complement)
  then have "sint (a + NOT b + 1) = sint (a - b)" by (rule arg_cong)
  with True show ?thesis by (simp only: tcp_seq_sub_def if_True if_cancel)
next
  case False
  have n: "b + NOT a + 1 = b - a" by (simp add: not_eq_complement)
  from False have "0 \<le> sint (b - a)" by (simp add: time_after_def)
  moreover have "- sint (b - a) = sint (a - b)" if "0 \<le> sint (b - a)"
  proof -
    have "sint (a - b) = sint (- (b - a))" by simp
    also have "\<dots> = - sint (b - a)"
      using that sint_lt [of "b - a"] by (subst sint_word_ariths(4)) (simp add: signed_take_bit_int_eq_self)
    finally show ?thesis by simp
  qed
  moreover have "sint (b + NOT a + 1) = sint (b - a)" using n by (rule arg_cong)
  ultimately show ?thesis using False by (simp only: tcp_seq_sub_def if_False if_cancel)
qed

lemma sint_of_nat_u32: "n < 2 ^ 31 \<Longrightarrow> sint (of_nat n :: u32) = int n"
  by (subst sint_small) (simp_all add: unat_of_nat)

lemma tcp_seq_sub_off:
  assumes "m < 2 ^ 31" and "n < 2 ^ 31"
  shows "tcp_seq_sub (base + of_nat m) (base + of_nat n) = int m - int n"
proof (cases "n \<le> m")
  case True
  have "of_nat m - of_nat n = (of_nat (m - n) :: u32)" using True by (simp add: of_nat_diff)
  then have "tcp_seq_sub (base + of_nat m) (base + of_nat n) = sint (of_nat (m - n) :: u32)"
    by (simp only: tcp_seq_sub_sint add_diff_cancel_left)
  then show ?thesis using True assms sint_of_nat_u32 [of "m - n"] by simp
next
  case False
  let ?d = "of_nat (n - m) :: u32"
  have d: "of_nat m - of_nat n = - ?d" using False by (simp add: of_nat_diff)
  have s: "sint ?d = int (n - m)" using assms by (intro sint_of_nat_u32) simp
  have "sint (- ?d) = - int (n - m)"
    unfolding sint_word_ariths(4) s using assms by (intro signed_take_bit_int_eq_self) simp_all
  then have "tcp_seq_sub (base + of_nat m) (base + of_nat n) = - int (n - m)"
    by (simp only: tcp_seq_sub_sint add_diff_cancel_left d)
  then show ?thesis using False by simp
qed

section \<open>What is sent is read\<close>

lemma length_tcp_header [simp]: "length (tcp_header c flags seq ack n chk) = 20"
  by (simp add: tcp_header_def)

lemma length_ip_header [simp]: "length (ip_header len ident prot csum src dst) = 20"
  by (simp add: ip_header_def)

lemma length_tcp_pseudo_hdr [simp]: "length (tcp_pseudo_hdr sip dip len) = 12"
  by (simp add: tcp_pseudo_hdr_def)

lemma wsum_pseudo_pos: "0 < wsum (tcp_pseudo_hdr sip dip len)"
  by (simp add: tcp_pseudo_hdr_def wsum_append)

lemma get16_at: "length xs = n \<Longrightarrow> get16 n (xs @ enc_le 2 w @ ys) = Some w"
  by (simp add: get16_def mem_read_def u16.dec_enc)

lemma get32_at: "length xs = n \<Longrightarrow> get32 n (xs @ enc_le 4 w @ ys) = Some w"
  by (simp add: get32_def mem_read_def u32.dec_enc)

text \<open>A sum over a segment is below the limit of an \<^verbatim>\<open>int\<close>.\<close>

lemma wsum_segment_less:
  assumes "length seg \<le> 65000"
  shows "wsum (tcp_pseudo_hdr sip dip len) + wsum seg < 2 ^ 31"
proof -
  have "wsum (tcp_pseudo_hdr sip dip len) \<le> 65535 * 6" using wsum_le [of "tcp_pseudo_hdr sip dip len"] by simp
  moreover have "wsum seg \<le> 65535 * 32500"
    using wsum_le [of seg] assms by (intro order.trans [OF wsum_le] mult_le_mono2) simp
  ultimately show ?thesis by simp
qed

lemma unat_pseudo_sum: "unat (sum_words 0 (tcp_pseudo_hdr sip dip len)) = wsum (tcp_pseudo_hdr sip dip len)"
  using wsum_segment_less [of "[]" sip dip len] by (subst unat_sum_words) simp_all

lemma sint_of_nat_len: "n \<le> 65000 \<Longrightarrow> sint (of_nat n :: u32) = int n"
  by (rule sint_of_nat_u32) simp

text \<open>The check of a whole segment, as a sum.\<close>

lemma tcp_checksum_zero_iff:
  assumes "length seg \<le> 65000"
  shows "tcp_checksum_compute (seg @ rest) (of_nat (length seg)) sip dip = Some 0 \<longleftrightarrow>
    65535 dvd wsum (tcp_pseudo_hdr sip dip (of_nat (length seg))) + wsum seg"
proof -
  let ?ph = "tcp_pseudo_hdr sip dip (of_nat (length seg))"
  let ?f = "csum_fold (sum_words (sum_words 0 ?ph) seg)"
  have lt: "unat (sum_words 0 ?ph) + wsum seg < 2 ^ 31"
    using wsum_segment_less [OF assms] by (simp only: unat_pseudo_sum)
  have "unat ?f < 65536"
    using csum_fold_ones [of "sum_words (sum_words 0 ?ph) seg"] lt by (simp add: unat_sum_words)
  then have "(ucast ?f :: u16) = 0 \<longleftrightarrow> ?f = 0"
    by (simp add: word_unat_eq_iff unsigned_ucast_eq take_bit_nat_eq_self)
  moreover have "tcp_checksum_compute (seg @ rest) (of_nat (length seg)) sip dip = Some (ucast ?f)"
    using assms by (simp add: tcp_checksum_compute_def mem_read_def sint_of_nat_len)
  moreover have "?f = 0 \<longleftrightarrow> 65535 dvd wsum ?ph + wsum seg"
    unfolding csum_zero_iff [OF lt] unat_pseudo_sum using wsum_pseudo_pos by (simp add: trans_less_add1)
  ultimately show ?thesis by simp
qed

text \<open>Filling in the checksum field makes the whole check.\<close>

lemma wsum_enc16: "wsum (enc_le 2 w) = unat (w :: u16)"
  using dec_le_pair [of "ucast w" "ucast (drop_bit 8 w)"] u16.dec_enc [of w] by (simp add: numeral_2_eq_2)

lemma wsum_tcp_header: "wsum (tcp_header c flags seq ack n chk @ rest) = wsum (tcp_header c flags seq ack n 0 @ rest) + unat chk"
  by (simp add: tcp_header_def wsum_append wsum_enc16)

lemma wsum_ip_header: "wsum (ip_header len ident prot csum src dst) = wsum (ip_header len ident prot 0 src dst) + unat csum"
  by (simp add: ip_header_def wsum_append wsum_enc16)

lemma unat_csum16:
  assumes "unat s + wsum bs < 2 ^ 31"
  shows "unat (ucast (csum_fold (sum_words s bs)) :: u16) = 65535 - ones (unat s + wsum bs)"
  using csum_fold_ones [of "sum_words s bs"] assms
  by (simp add: unat_sum_words unsigned_ucast_eq take_bit_nat_eq_self)

lemma tcp_checksum_fills:
  assumes "tcp_checksum_compute seg0 (of_nat (length seg0)) sip dip = Some chk" and "length seg0 \<le> 65000"
    and "length seg = length seg0" and "wsum seg = wsum seg0 + unat chk"
  shows "tcp_checksum_compute (seg @ rest) (of_nat (length seg)) sip dip = Some 0"
proof -
  let ?ph = "tcp_pseudo_hdr sip dip (of_nat (length seg0))"
  have lt: "wsum ?ph + wsum seg0 < 2 ^ 31" by (rule wsum_segment_less [OF assms(2)])
  have "unat chk = 65535 - ones (wsum ?ph + wsum seg0)"
    using assms(1,2) unat_csum16 [of "sum_words 0 ?ph" seg0] lt
    by (simp add: tcp_checksum_compute_def mem_read_def sint_of_nat_len unat_pseudo_sum)
  then have "65535 dvd wsum ?ph + wsum seg"
    using csum_completes [OF trans_less_add1 [OF wsum_pseudo_pos] lt] assms(4) by (simp add: add.assoc)
  then show ?thesis using tcp_checksum_zero_iff [of seg rest sip dip] assms(2,3) by simp
qed

lemma wsum_ip_header_bounds: "0 < wsum (ip_header len ident prot csum src dst)" "wsum (ip_header len ident prot csum src dst) < 2 ^ 20"
proof -
  show "0 < wsum (ip_header len ident prot csum src dst)" by (simp add: ip_header_def)
  show "wsum (ip_header len ident prot csum src dst) < 2 ^ 20"
    using wsum_le [of "ip_header len ident prot csum src dst"] by simp
qed

lemma ip_checksum_fills:
  assumes "csum = ucast (compute_ip_checksum (ip_header len ident prot 0 src dst))"
  shows "ip_checksum_ok (ip_header len ident prot csum src dst)"
proof -
  define w0 where "w0 = wsum (ip_header len ident prot 0 src dst)"
  have w: "0 < w0" "w0 < 2 ^ 20" unfolding w0_def by (rule wsum_ip_header_bounds)+
  have "unat csum = 65535 - ones w0"
    using unat_csum16 [of 0 "ip_header len ident prot 0 src dst"] w(2)
    by (simp add: assms compute_ip_checksum_def w0_def)
  then have "wsum (ip_header len ident prot csum src dst) = w0 + (65535 - ones w0)"
    using wsum_ip_header [of len ident prot csum src dst] by (simp add: w0_def)
  then have "65535 dvd wsum (ip_header len ident prot csum src dst)" using csum_completes [of w0] w by simp
  then have "compute_ip_checksum (ip_header len ident prot csum src dst) = 0"
    using csum_zero_iff [of 0 "ip_header len ident prot csum src dst"] wsum_ip_header_bounds [of len ident prot csum src dst]
    by (simp add: compute_ip_checksum_def)
  then show ?thesis by (simp add: ip_checksum_ok_def)
qed

lemma has_flag_bit: "has_flag w (2 ^ n) \<longleftrightarrow> bit w n"
  by (simp add: has_flag_def and_exp_eq_0_iff_not_bit)

lemma flags_word:
  assumes "k \<le> 15"
  shows "drop_bit 12 (push_bit 12 (of_nat k) OR (flags AND 0x3f)) = (of_nat k :: u16)"
    and "has_flag (push_bit 12 (of_nat k) OR (flags AND 0x3f)) 0x20 \<longleftrightarrow> has_flag flags 0x20"
proof -
  have k: "\<not> bit k i" if "4 \<le> i" for i
  proof -
    have "(2 :: nat) ^ 4 \<le> 2 ^ i" using that by (intro power_increasing) simp_all
    then have "k div 2 ^ i = 0" using assms by simp
    then show ?thesis by (simp add: bit_iff_odd)
  qed
  have b: "bit (0x3f :: u16) i \<longleftrightarrow> i < 6" for i
  proof -
    have m: "(0x3f :: u16) = mask 6" by (simp add: mask_numeral)
    show ?thesis unfolding m bit_mask_iff by auto
  qed
  show "drop_bit 12 (push_bit 12 (of_nat k) OR (flags AND 0x3f)) = (of_nat k :: u16)"
    using k by (intro bit_word_eqI) (auto simp: bit_simps b not_less [symmetric])
  show "has_flag (push_bit 12 (of_nat k) OR (flags AND 0x3f)) 0x20 \<longleftrightarrow> has_flag flags 0x20"
    using has_flag_bit [of _ 5] by (simp add: bit_simps b)
qed

lemma tcp_parse_sent:
  assumes "4 dvd length opt" and "length opt \<le> 40" and "\<not> has_flag flags TCP_URG" and "length opt + length payload \<le> 60000"
    and chk: "tcp_checksum_compute (tcp_header c flags seq ack (length opt) 0 @ opt @ payload)
      (of_nat (20 + length opt + length payload)) sip dip = Some chk"
  defines "seg \<equiv> tcp_header c flags seq ack (length opt) chk @ opt @ payload"
  shows "tcp_parse (ip_header len ident 6 csum sip dip @ seg @ pad) (of_nat (20 + length seg)) =
    Some (Some \<lparr>g_sip = sip, g_src = c_port_local c, g_dst = c_port_remote c, g_seq = seq, g_ack = ack,
      g_flags = push_bit 12 (of_nat (5 + length opt div 4)) OR (flags AND TCP_FLAG_MASK), g_wnd = c_mss c, g_tcp = seg @ pad,
      g_hdr_len = of_nat (20 + length opt), g_data = payload @ pad, g_size = of_nat (length payload)\<rparr>)"
proof -
  let ?rx = "ip_header len ident 6 csum sip dip @ seg @ pad"
  let ?flags = "push_bit 12 (of_nat (5 + length opt div 4)) OR (flags AND TCP_FLAG_MASK)"
  have k: "5 + length opt div 4 \<le> 15" using assms(2) by simp
  have n: "(20 + length opt) div 4 = 5 + length opt div 4" by simp
  have seg: "seg @ pad = enc_le 2 (c_port_local c) @ enc_le 2 (c_port_remote c) @ enc_le 4 (htonl seq) @ enc_le 4 (htonl ack)
     @ enc_le 2 (htons ?flags) @ enc_le 2 (htons (c_mss c)) @ enc_le 2 chk @ [0, 0] @ opt @ payload @ pad"
    unfolding seg_def tcp_header_def using assms(1) by (simp only: n append_assoc)
  have g: "get16 0 (seg @ pad) = Some (c_port_local c)" "get16 2 (seg @ pad) = Some (c_port_remote c)"
    "get32 4 (seg @ pad) = Some (htonl seq)" "get32 8 (seg @ pad) = Some (htonl ack)" "get16 12 (seg @ pad) = Some (htons ?flags)"
    "get16 14 (seg @ pad) = Some (htons (c_mss c))" "\<exists>w. get16 18 (seg @ pad) = Some w"
    unfolding seg by (simp_all add: get16_def get32_def mem_read_def u16.dec_enc u32.dec_enc)
  have ip: "get8 0 ?rx = Some 0x45" "get32 12 ?rx = Some sip" "get32 16 ?rx = Some dip"
    unfolding ip_header_def by (simp_all add: get8_def arr_get_def get32_def mem_read_def u32.dec_enc)
  have "tcp_checksum_compute (seg @ pad) (of_nat (length seg)) sip dip = Some 0"
    using chk assms(4) unfolding seg_def by (intro tcp_checksum_fills [where chk = chk]) (simp_all add: wsum_tcp_header [of _ _ _ _ _ chk] add.assoc)
  then have c: "tcp_checksum_compute (drop 20 ?rx) (of_nat (20 + length seg) - 20) sip dip = Some 0" by simp
  have "unat (ucast (of_nat (5 + length opt div 4) :: u16) * 4 :: u32) = unat (of_nat (20 + length opt) :: u32)"
    using k assms(1,2) by (simp add: unat_word_ariths unat_of_nat)
  then have h: "(ucast (drop_bit 12 ?flags) * 4 :: u32) = of_nat (20 + length opt)"
    unfolding flags_word(1) [OF k] by (simp only: word_unat_eq_iff)
  have len: "length seg = 20 + length opt + length payload" by (simp add: seg_def)
  have u: "unat (of_nat m :: u32) = m" if "m \<le> 65000" for m using that by (subst unat_of_nat) simp
  have hl: "unat (of_nat (20 + length opt) :: u32) = 20 + length opt" using assms(2) by (intro u) simp
  have "(20 :: u32) + of_nat (20 + length opt) = of_nat (40 + length opt)" by simp
  then have ok: "\<not> (of_nat (20 + length opt) :: u32) < of_nat TCP_HDR_SIZE"
    "\<not> (of_nat (20 + length seg) :: u32) < 20 + of_nat (20 + length opt)"
    using assms(2,4) by (simp_all only: word_less_nat_alt len u hl)
  have sz: "of_nat (20 + length seg) - 20 - of_nat (20 + length opt) - 0 = (of_nat (length payload) :: u32)"
    by (simp add: len)
  have d: "drop (unat (of_nat (20 + length opt) :: u32) + unat (0 :: u32)) (seg @ pad) = payload @ pad"
    unfolding hl by (simp add: seg_def)
  have hl0: "(ucast ((0x45 :: u8) AND 0x0f) * 4 :: u32) = 20" by simp
  obtain w where w: "get16 18 (seg @ pad) = Some w" using g(7) by blast
  have dr: "drop (unat (20 :: u32)) ?rx = seg @ pad" by simp
  define F H L where "F = ?flags" and "H = (of_nat (20 + length opt) :: u32)" and "L = (of_nat (20 + length seg) :: u32)"
  have f: "\<not> has_flag F 0x20" using assms(3) flags_word(2) [OF k, of flags] unfolding F_def by blast
  note facts = h [folded F_def H_def] ok [folded H_def L_def] sz [folded H_def L_def] d [folded H_def] c [folded L_def] g [folded F_def] w
  have "tcp_parse ?rx L = Some (Some \<lparr>g_sip = sip, g_src = c_port_local c, g_dst = c_port_remote c, g_seq = seq, g_ack = ack,
      g_flags = F, g_wnd = c_mss c, g_tcp = seg @ pad, g_hdr_len = H, g_data = payload @ pad, g_size = of_nat (length payload)\<rparr>)"
    unfolding tcp_parse_def ip Option.bind.bind_lunit Let_def hl0 dr facts using facts f by simp
  then show ?thesis by (simp only: F_def H_def L_def)
qed

text \<open>
  C39: Every segment the stack sends is read back by the receiving side of the stack as what was sent: addresses, sequence and
  acknowledgement numbers, flags, window and payload, with both checksums accepted, whatever padding the network adds behind it.
\<close>

theorem tcp_segment_roundtrip:
  assumes "tcp_send_packet_opt e c flags seq ack opt payload s = Some s'"
    and "4 dvd length opt" and "length opt \<le> 40" and "\<not> has_flag flags TCP_URG"
  shows "\<exists>eth rx. frames s' = frames s @ [if c_ethaddr c = replicate 6 0 then Arp (c_ip_remote c) (eth @ rx) else Eth (eth @ rx)] \<and>
    ip_checksum_ok (take 20 rx) \<and>
    (\<forall>pad. tcp_parse (rx @ pad) (of_nat (length rx)) =
      Some (Some \<lparr>g_sip = e_net_ip e, g_src = c_port_local c, g_dst = c_port_remote c, g_seq = seq, g_ack = ack,
        g_flags = push_bit 12 (of_nat (5 + length opt div 4)) OR (flags AND TCP_FLAG_MASK), g_wnd = c_mss c, g_tcp = drop 20 rx @ pad,
        g_hdr_len = of_nat (20 + length opt), g_data = payload @ pad, g_size = of_nat (length payload)\<rparr>))"
proof -
  let ?sz = "TCP_HDR_SIZE + length opt + length payload" and ?src = "e_net_ip e" and ?dst = "c_ip_remote c"
  let ?ip = "ip_header (of_nat (IP_HDR_SIZE + ?sz)) (ucast (net_ip_id s)) 6"
  let ?sum = "ucast (compute_ip_checksum (?ip 0 ?src ?dst))"
  let ?eth = "net_set_ether (e_vlan e) (e_ethaddr e) (c_ethaddr c) PROT_IP"
  obtain chk where chk: "tcp_checksum_compute (tcp_header c flags seq ack (length opt) 0 @ opt @ payload) (of_nat ?sz) ?src ?dst = Some chk"
    using assms(1) by (auto simp: tcp_send_packet_opt_def Let_def bind_eq_Some_conv)
  define seg where "seg = tcp_header c flags seq ack (length opt) chk @ opt @ payload"
  let ?rx = "?ip ?sum ?src ?dst @ seg"
  have b: "length opt + length payload \<le> 60000" and f: "frames s' = frames s @
      [if c_ethaddr c = replicate 6 0 then Arp ?dst (?eth @ ?rx) else Eth (?eth @ ?rx)]"
    using assms(1) chk by (auto simp: tcp_send_packet_opt_def Let_def seg_def split: if_splits)
  have "ip_checksum_ok (take 20 ?rx)" by (simp add: ip_checksum_fills)
  moreover have "tcp_parse (?rx @ pad) (of_nat (length ?rx)) =
      Some (Some \<lparr>g_sip = ?src, g_src = c_port_local c, g_dst = c_port_remote c, g_seq = seq, g_ack = ack,
        g_flags = push_bit 12 (of_nat (5 + length opt div 4)) OR (flags AND TCP_FLAG_MASK), g_wnd = c_mss c, g_tcp = drop 20 ?rx @ pad,
        g_hdr_len = of_nat (20 + length opt), g_data = payload @ pad, g_size = of_nat (length payload)\<rparr>)" for pad
    using tcp_parse_sent [OF assms(2-4) b chk, of "of_nat (IP_HDR_SIZE + ?sz)" "ucast (net_ip_id s)" ?sum pad]
    by (simp add: seg_def [symmetric])
  ultimately show ?thesis using f by blast
qed

theorem tcp_segment_roundtrip_witness:
  "\<exists>s' eth rx g. tcp_send_packet_opt (demo_env (\<lambda>_ _ _. None) (\<lambda>_ _ _ _. None)) (demo_conn () :: (unit, unit) tcp_conn) TCP_ACK 9 8
       (tcp_set_mss_opt 1460) [65, 66, 67] (demo_net [] [] ()) = Some (s' :: (unit, unit, unit) net) \<and> frames s' = [Eth (eth @ rx)] \<and>
     tcp_parse rx (of_nat (length rx)) = Some (Some g) \<and> g_seq g = 9 \<and> g_ack g = 8 \<and> g_wnd g = 1460 \<and> g_data g = [65, 66, 67]"
proof -
  let ?e = "demo_env (\<lambda>_ _ _. None) (\<lambda>_ _ _ _. None) :: (unit, unit, unit) tcp_env" and ?c = "demo_conn () :: (unit, unit) tcp_conn" and ?s = "demo_net [] [] () :: (unit, unit, unit) net"
  let ?o = "tcp_set_mss_opt 1460"
  have "tcp_send_packet_opt ?e ?c TCP_ACK 9 8 ?o [65, 66, 67] ?s \<noteq> None" by code_simp
  then obtain s' where s': "tcp_send_packet_opt ?e ?c TCP_ACK 9 8 ?o [65, 66, 67] ?s = Some s'" by blast
  have h: "4 dvd length ?o" "length ?o \<le> 40" "\<not> has_flag TCP_ACK TCP_URG" by code_simp+
  have "frames ?s = []" "c_mss ?c = 1460" "c_ethaddr ?c \<noteq> replicate 6 0" by code_simp+
  then obtain eth rx where "frames s' = [Eth (eth @ rx)]" and p: "\<And>pad. tcp_parse (rx @ pad) (of_nat (length rx)) =
      Some (Some \<lparr>g_sip = e_net_ip ?e, g_src = c_port_local ?c, g_dst = c_port_remote ?c, g_seq = 9, g_ack = 8,
        g_flags = push_bit 12 (of_nat (5 + length ?o div 4)) OR (TCP_ACK AND TCP_FLAG_MASK), g_wnd = 1460, g_tcp = drop 20 rx @ pad,
        g_hdr_len = of_nat (20 + length ?o), g_data = [65, 66, 67] @ pad, g_size = of_nat (length [65 :: u8, 66, 67])\<rparr>)"
    using tcp_segment_roundtrip [OF s' h] by auto
  moreover have "\<exists>g. tcp_parse rx (of_nat (length rx)) = Some (Some g) \<and> g_seq g = 9 \<and> g_ack g = 8 \<and> g_wnd g = 1460 \<and> g_data g = [65, 66, 67]"
    using p [of "[]"] by simp
  ultimately show ?thesis using s' by blast
qed

section \<open>Damage\<close>

lemma wsum_word: "even (length xs) \<Longrightarrow> wsum (xs @ enc_le 2 w @ ys) = wsum xs + unat (w :: u16) + wsum ys"
  by (simp add: wsum_append wsum_enc16)

lemma dvd_word_diff:
  assumes "65535 dvd a + unat (v :: u16)" and "65535 dvd a + unat (w :: u16)"
  shows "v = w \<or> {v, w} = {0, 0xffff}"
proof -
  have lt: "unat v < 65536" "unat w < 65536" using unat_less_len [of v] unat_less_len [of w] by simp_all
  have eq: "v = w \<or> (v = 0xffff \<and> w = 0)" if "unat w \<le> unat v" "unat v < 65536" "65535 dvd unat v - unat w" for v w :: u16
  proof -
    from that(3) obtain k where k: "unat v - unat w = 65535 * k" by blast
    show ?thesis
    proof (cases k)
      case 0
      then show ?thesis using k that(1) by (simp add: word_unat_eq_iff)
    next
      case (Suc j)
      then have "unat v = 65535" "unat w = 0" using k that(1,2) by simp_all
      then show ?thesis by (simp add: word_unat_eq_iff)
    qed
  qed
  show ?thesis
  proof (cases "unat w \<le> unat v")
    case True
    have "65535 dvd (a + unat v) - (a + unat w)" using assms by (rule dvd_diff_nat)
    then show ?thesis using eq [OF True lt(1)] by auto
  next
    case False
    have "65535 dvd (a + unat w) - (a + unat v)" using assms(2,1) by (rule dvd_diff_nat)
    then show ?thesis using eq [of v w] False lt(2) by auto
  qed
qed

text \<open>The checksum decides before anything else of the segment is looked at.\<close>

lemma tcp_parse_checksum:
  assumes "length ip = 20" and "ip ! 0 AND 0x0f = 5"
  obtains sip dip where "\<And>tcp len. tcp_checksum_compute tcp (len - 20) sip dip = None \<Longrightarrow> tcp_parse (ip @ tcp) len = None"
    "\<And>tcp len k. tcp_checksum_compute tcp (len - 20) sip dip = Some k \<Longrightarrow> k \<noteq> 0 \<Longrightarrow> tcp_parse (ip @ tcp) len = Some None"
proof -
  define sip dip :: u32 where "sip = dec_le (take 4 (drop 12 ip))" and "dip = dec_le (take 4 (drop 16 ip))"
  have g: "get8 0 (ip @ z) = Some (ip ! 0)" "get32 12 (ip @ z) = Some sip" "get32 16 (ip @ z) = Some dip" for z
    using assms(1) by (simp_all add: get8_def arr_get_def get32_def mem_read_def nth_append sip_def dip_def)
  have n: "(ucast (ip ! 0 AND 0x0f) * 4 :: u32) = 20" by (simp add: assms(2))
  show ?thesis by (rule that [of sip dip]) (simp_all add: tcp_parse_def g n Let_def assms(1))
qed

text \<open>
  A packet whose segment was accepted is dropped after any change of one of the segment's 16-bit words, unless the change
  is between 0 and 0xffff, which are the same in one's complement.
\<close>

theorem tcp_parse_detects_damage:
  assumes "tcp_parse (ip @ (xs @ enc_le 2 (v :: u16) @ ys) @ pad) len = Some (Some g)" and "length ip = 20" and "ip ! 0 AND 0x0f = 5"
    and "len = of_nat (20 + length (xs @ enc_le 2 v @ ys))" and "length (xs @ enc_le 2 v @ ys) \<le> 65000" and "even (length xs)"
    and "v \<noteq> w" and "{v, w} \<noteq> {0 :: u16, 0xffff}"
  shows "tcp_parse (ip @ (xs @ enc_le 2 w @ ys) @ pad) len = Some None"
proof -
  let ?seg = "\<lambda>v :: u16. xs @ enc_le 2 v @ ys"
  obtain sip dip where p: "\<And>tcp len. tcp_checksum_compute tcp (len - 20) sip dip = None \<Longrightarrow> tcp_parse (ip @ tcp) len = None"
    "\<And>tcp len k. tcp_checksum_compute tcp (len - 20) sip dip = Some k \<Longrightarrow> k \<noteq> 0 \<Longrightarrow> tcp_parse (ip @ tcp) len = Some None"
    using tcp_parse_checksum [OF assms(2,3)] by metis
  have len: "len - 20 = of_nat (length (?seg x))" for x :: u16 using assms(4) by simp
  let ?a = "wsum (tcp_pseudo_hdr sip dip (len - 20)) + wsum xs + wsum ys"
  have chk: "tcp_checksum_compute (?seg x @ pad) (len - 20) sip dip = Some 0 \<longleftrightarrow> 65535 dvd ?a + unat x" for x
    using tcp_checksum_zero_iff [of "?seg x" pad sip dip] assms(5,6) unfolding len [of x] by (simp add: wsum_word add_ac)
  have "tcp_checksum_compute (?seg v @ pad) (len - 20) sip dip = Some 0"
    using assms(1) p [of "?seg v @ pad" len] by (cases "tcp_checksum_compute (?seg v @ pad) (len - 20) sip dip") auto
  then have "tcp_checksum_compute (?seg w @ pad) (len - 20) sip dip \<noteq> Some 0"
    using dvd_word_diff [of ?a v w] assms(7,8) unfolding chk by blast
  moreover have "tcp_checksum_compute (?seg w @ pad) (len - 20) sip dip \<noteq> None"
    using assms(5) sint_of_nat_len [of "length (?seg w)"] unfolding len [of w] tcp_checksum_compute_def mem_read_def
    by (simp del: of_nat_add)
  ultimately show ?thesis using p(2) [of "?seg w @ pad" len] by auto
qed

theorem tcp_parse_detects_damage_witness:
  "let ip = [69, 0, 0, 43, 0, 1, 64, 0, 255, 6, 0, 0, 192, 168, 1, 2, 192, 168, 1, 1];
     xs = [18, 52, 0, 80, 0, 0, 0, 7, 0, 0, 0, 9, 80, 16, 31, 64, 118, 103, 0, 0]
   in tcp_parse (ip @ (xs @ enc_le 2 (0x4241 :: u16) @ [67]) @ []) 43 \<noteq> Some None \<and>
     tcp_parse (ip @ (xs @ enc_le 2 (0x4240 :: u16) @ [67]) @ []) 43 = Some None"
proof -
  let ?ip = "[69, 0, 0, 43, 0, 1, 64, 0, 255, 6, 0, 0, 192, 168, 1, 2, 192, 168, 1, 1] :: bytes"
  let ?xs = "[18, 52, 0, 80, 0, 0, 0, 7, 0, 0, 0, 9, 80, 16, 31, 64, 118, 103, 0, 0] :: bytes"
  let ?rx = "?ip @ (?xs @ enc_le 2 (0x4241 :: u16) @ [67]) @ []"
  have "(case tcp_parse ?rx 43 of Some (Some _) \<Rightarrow> True | _ \<Rightarrow> False)" by code_simp
  then obtain g where g: "tcp_parse ?rx 43 = Some (Some g)" by (auto split: option.splits)
  have "tcp_parse (?ip @ (?xs @ enc_le 2 (0x4240 :: u16) @ [67]) @ []) 43 = Some None"
    by (rule tcp_parse_detects_damage [OF g]) (simp_all add: doubleton_eq_iff)
  with g show ?thesis by (simp add: Let_def)
qed

end
