(* ===== verification/Tcp_Conn.thy ===== *)
theory Tcp_Conn
  imports Tcp_Wire "HOL-Library.Sublist"
begin

text \<open>
  What the TCP stack promises, whatever the packets are and whatever the application does with the
  functions it is given.

  \<^item> \<open>app_step\<close>: what an application may do, one call of the stack's interface at a time. The contract
    \<open>tcp_client\<close>: callbacks do nothing else.
  \<^item> \<open>net_step\<close>: a packet, a periodic check or a step of the application.
  \<^item> \<open>evolve\<close> and \<open>quietly\<close>: how a step may change connections. Connections only move along the
    edges of the TCP state diagram (\<open>tcp_edge\<close>) and keep their identity; outside of
    receiving, the position in the peer's stream and the data delivered stay as they are.
\<close>

section \<open>The state diagram\<close>

inductive tcp_edge :: "tcp_state \<Rightarrow> tcp_state \<Rightarrow> bool" where
  accept: "tcp_edge SYN_RCVD ESTABLISHED"
| remote_fin: "tcp_edge ESTABLISHED CLOSE_WAIT"
| close: "tcp_edge ESTABLISHED FIN_WAIT_1"
| last: "tcp_edge CLOSE_WAIT LAST_ACK"
| last_acked: "tcp_edge LAST_ACK CLOSE_WAIT"
| fin_acked: "tcp_edge FIN_WAIT_1 FIN_WAIT_2"
| both_closing: "tcp_edge FIN_WAIT_1 CLOSING"
| fin_fin_acked: "tcp_edge FIN_WAIT_1 TIME_WAIT"
| fin2: "tcp_edge FIN_WAIT_2 TIME_WAIT"
| closing_acked: "tcp_edge CLOSING TIME_WAIT"

inductive_cases tcp_edge_from: "tcp_edge SYN_RCVD x" "tcp_edge TIME_WAIT x"

definition live_states :: "tcp_state set" where
  "live_states = {SYN_RCVD, ESTABLISHED, FIN_WAIT_1, FIN_WAIT_2, CLOSE_WAIT, CLOSING, LAST_ACK, TIME_WAIT}"

lemma tcp_edge_live: "tcp_edge x y \<Longrightarrow> x \<in> live_states \<and> y \<in> live_states"
  by (induction rule: tcp_edge.induct) (simp_all add: live_states_def)

lemma tcp_edges_live: "tcp_edge\<^sup>*\<^sup>* x y \<Longrightarrow> x \<in> live_states \<Longrightarrow> y \<in> live_states"
  by (induction rule: rtranclp_induct) (auto dest: tcp_edge_live)

section \<open>How connections change\<close>

definition conn_key :: "('p, 'k) tcp_conn \<Rightarrow> u32 \<times> u16 \<times> u16" where
  "conn_key c = (c_ip_remote c, c_port_remote c, c_port_local c)"

definition tx_null :: "('p, 'k) tcp_conn \<Rightarrow> bool" where
  "tx_null c \<longleftrightarrow> (c_tx c = None \<longleftrightarrow> c_txlen c = 0)"

definition moves :: "('p, 'k) tcp_conn \<Rightarrow> ('p, 'k) tcp_conn \<Rightarrow> bool" where
  "moves c c' \<longleftrightarrow> conn_key c' = conn_key c \<and> c_ethaddr c' = c_ethaddr c \<and> c_mss c' = c_mss c \<and> c_peer_ws c' = c_peer_ws c
     \<and> c_cb c' = c_cb c \<and> tcp_edge\<^sup>*\<^sup>* (c_status c) (c_status c') \<and> (tx_null c \<longrightarrow> tx_null c')"

definition calm :: "('p, 'k) tcp_conn \<Rightarrow> ('p, 'k) tcp_conn \<Rightarrow> bool" where
  "calm c c' \<longleftrightarrow> moves c c' \<and> c_peer_seq c' = c_peer_seq c \<and> (c_status c' = SYN_RCVD \<longleftrightarrow> c_status c = SYN_RCVD)"

definition quiet :: "('p, 'k) tcp_conn \<Rightarrow> ('p, 'k) tcp_conn \<Rightarrow> bool" where
  "quiet c c' \<longleftrightarrow> moves c c' \<and> c_peer_seq c' = c_peer_seq c \<and> c_status c' = c_status c"

definition addrs :: "('p, 'k, 'a) net \<Rightarrow> nat list" where
  "addrs s = map fst (conn_head s)"

definition listen_ok :: "('p, 'k, 'a) net \<Rightarrow> bool" where
  "listen_ok s \<longleftrightarrow> distinct (map fst (listen_head s)) \<and> 0 \<notin> fst ` set (listen_head s)"

definition evolve :: "(('p, 'k) tcp_conn \<Rightarrow> ('p, 'k) tcp_conn \<Rightarrow> bool) \<Rightarrow> ('p, 'k, 'a) net \<Rightarrow> ('p, 'k, 'a) net \<Rightarrow> bool" where
  "evolve R s s' \<longleftrightarrow> (distinct (addrs s) \<longrightarrow> distinct (addrs s')) \<and> next_addr s' = next_addr s
     \<and> (listen_ok s \<longrightarrow> listen_ok s')
     \<and> (\<forall>b c'. conn_at b s' = Some c' \<longrightarrow> (\<exists>c. conn_at b s = Some c \<and> R c c'))"

text \<open>The data handed to the application on a connection, in order.\<close>

definition rcvd :: "('p, 'k, 'a) net \<Rightarrow> nat \<Rightarrow> bytes" where
  "rcvd s a = concat (map (\<lambda>(b, st, d). if b = a \<and> st = TCP_CB_DATA_RCVD then d else []) (upcalls s))"

definition quietly :: "('p, 'k, 'a) net \<Rightarrow> ('p, 'k, 'a) net \<Rightarrow> bool" where
  "quietly s s' \<longleftrightarrow> evolve quiet s s' \<and> rcvd s' = rcvd s"

definition calmly :: "('p, 'k, 'a) net \<Rightarrow> ('p, 'k, 'a) net \<Rightarrow> bool" where
  "calmly s s' \<longleftrightarrow> evolve calm s s' \<and> rcvd s' = rcvd s"

lemma moves_refl [simp]: "moves c c"
  by (simp add: moves_def)

lemma moves_trans: "moves c d \<Longrightarrow> moves d x \<Longrightarrow> moves c x"
  by (auto simp: moves_def intro: rtranclp_trans)

lemma quiet_refl [simp]: "quiet c c"
  by (simp add: quiet_def)

lemma quiet_trans: "quiet c d \<Longrightarrow> quiet d x \<Longrightarrow> quiet c x"
  by (auto simp: quiet_def intro: moves_trans)

lemma calm_refl [simp]: "calm c c"
  by (simp add: calm_def)

lemma calm_trans: "calm c d \<Longrightarrow> calm d x \<Longrightarrow> calm c x"
  by (auto simp: calm_def intro: moves_trans)

lemma quiet_calm: "quiet c c' \<Longrightarrow> calm c c'"
  by (auto simp: quiet_def calm_def)

lemma evolve_comp:
  assumes "evolve R s t" and "evolve S t u" and "\<And>c d x. R c d \<Longrightarrow> S d x \<Longrightarrow> T c x"
  shows "evolve T s u"
  using assms unfolding evolve_def by (intro conjI allI impI) (simp_all, metis)

lemmas evolve_trans = evolve_comp [of R _ _ R _ R for R]

lemma evolve_mono: "evolve R s s' \<Longrightarrow> (\<And>c c'. R c c' \<Longrightarrow> S c c') \<Longrightarrow> evolve S s s'"
  unfolding evolve_def by blast

lemma quietly_refl [simp]: "quietly s s"
  by (simp add: quietly_def evolve_def)

lemma quietly_trans: "quietly s t \<Longrightarrow> quietly t u \<Longrightarrow> quietly s u"
  unfolding quietly_def using evolve_trans [of quiet s t u] quiet_trans by auto

lemma calmly_refl [simp]: "calmly s s"
  by (simp add: calmly_def evolve_def)

lemma calmly_trans: "calmly s t \<Longrightarrow> calmly t u \<Longrightarrow> calmly s u"
  unfolding calmly_def using evolve_trans [of calm s t u] calm_trans by auto

lemma quietly_calmly: "quietly s t \<Longrightarrow> calmly s t"
  unfolding quietly_def calmly_def by (blast intro: evolve_mono quiet_calm)

lemma calmly_moves: "calmly s t \<Longrightarrow> evolve moves s t"
  unfolding calmly_def by (auto intro: evolve_mono simp: calm_def)

lemma quietly_conn: "quietly s t \<Longrightarrow> conn_at a t = Some c' \<Longrightarrow> \<exists>c. conn_at a s = Some c \<and> quiet c c'"
  unfolding quietly_def evolve_def by blast

section \<open>Elementary steps\<close>

lemma conn_at_simps [simp]:
  "conn_at a (s\<lparr>ticks := t\<rparr>) = conn_at a s" "conn_at a (s\<lparr>frames := f\<rparr>) = conn_at a s" "conn_at a (s\<lparr>net_ip_id := i\<rparr>) = conn_at a s"
  "conn_at a (s\<lparr>upcalls := u\<rparr>) = conn_at a s" "conn_at a (s\<lparr>app := x\<rparr>) = conn_at a s" "conn_at a (s\<lparr>listen_head := l\<rparr>) = conn_at a s"
  "conn_at a (s\<lparr>tcp_stop := b\<rparr>) = conn_at a s" "conn_at a (s\<lparr>net_success := b\<rparr>) = conn_at a s" "conn_at a (s\<lparr>next_addr := n\<rparr>) = conn_at a s"
  by (simp_all add: conn_at_def)

lemma conn_upd_Some:
  assumes "conn_upd a f s = Some s'"
  shows "conn_at b s' = (if b = a then map_option f (conn_at a s) else conn_at b s)" and "addrs s' = addrs s"
    and "\<exists>c. conn_at a s = Some c" and "\<exists>ch. s' = s\<lparr>conn_head := ch\<rparr>"
proof -
  have s': "s' = s\<lparr>conn_head := map (\<lambda>(b, c). (b, if b = a then f c else c)) (conn_head s)\<rparr>" and "conn_at a s \<noteq> None"
    using assms by (auto simp: conn_upd_def split: if_splits)
  have "map_of (map (\<lambda>(b, c). (b, if b = a then f c else c)) xs) b = (if b = a then map_option f (map_of xs a) else map_of xs b)" for xs
    by (induction xs) auto
  then show "conn_at b s' = (if b = a then map_option f (conn_at a s) else conn_at b s)" by (simp add: s' conn_at_def)
  show "addrs s' = addrs s" unfolding addrs_def s' by (simp add: comp_def case_prod_beta)
  show "\<exists>c. conn_at a s = Some c" using \<open>conn_at a s \<noteq> None\<close> by blast
  show "\<exists>ch. s' = s\<lparr>conn_head := ch\<rparr>" using s' by blast
qed

lemma conn_del_Some:
  assumes "tcp_conn_del a s = Some s'"
  shows "conn_at b s' = (if b = a then None else conn_at b s)" and "addrs s' = filter (\<lambda>b. b \<noteq> a) (addrs s)"
    and "\<exists>ch. s' = s\<lparr>conn_head := ch\<rparr>"
proof -
  have s': "s' = s\<lparr>conn_head := filter (\<lambda>(b, _). b \<noteq> a) (conn_head s)\<rparr>"
    using assms by (auto simp: tcp_conn_del_def split: if_splits)
  have "map_of (filter (\<lambda>(b, _). b \<noteq> a) xs) b = (if b = a then None else map_of xs b)" for xs :: "(nat \<times> ('a, 'b) tcp_conn) list"
    by (induction xs) auto
  then show "conn_at b s' = (if b = a then None else conn_at b s)" by (simp add: s' conn_at_def)
  have "map fst (filter (\<lambda>(b, _). b \<noteq> a) xs) = filter (\<lambda>b. b \<noteq> a) (map fst xs)" for xs :: "(nat \<times> ('a, 'b) tcp_conn) list"
    by (induction xs) auto
  then show "addrs s' = filter (\<lambda>b. b \<noteq> a) (addrs s)" by (simp add: s' addrs_def)
  show "\<exists>ch. s' = s\<lparr>conn_head := ch\<rparr>" using s' by blast
qed

lemma evolve_upd:
  assumes "conn_upd a f s = Some s'" and "\<And>c. conn_at a s = Some c \<Longrightarrow> R c (f c)" and "\<And>c. R c c"
  shows "evolve R s s'"
proof -
  from conn_upd_Some(4) [OF assms(1)] have "listen_ok s' = listen_ok s" "next_addr s' = next_addr s" by (auto simp: listen_ok_def)
  then show ?thesis
    using assms(2,3) unfolding evolve_def by (auto simp: conn_upd_Some(1,2) [OF assms(1)] split: if_splits)
qed

lemma evolve_del:
  assumes "tcp_conn_del a s = Some s'" and "\<And>c. R c c"
  shows "evolve R s s'"
proof -
  from conn_del_Some(3) [OF assms(1)] have "listen_ok s' = listen_ok s" "next_addr s' = next_addr s" by (auto simp: listen_ok_def)
  then show ?thesis
    using assms(2) unfolding evolve_def by (auto simp: conn_del_Some(1,2) [OF assms(1)] split: if_splits)
qed

lemma rcvd_upd: "conn_upd a f s = Some s' \<Longrightarrow> rcvd s' = rcvd s"
  by (drule conn_upd_Some(4)) (auto simp: rcvd_def fun_eq_iff)

lemma rcvd_del: "tcp_conn_del a s = Some s' \<Longrightarrow> rcvd s' = rcvd s"
  by (drule conn_del_Some(3)) (auto simp: rcvd_def fun_eq_iff)

named_theorems quiet_steps "calls that do not touch the peer's stream"

lemma quiet_upd:
  assumes "\<And>c. conn_at a s = Some c \<Longrightarrow> quiet c (f c)"
  shows "yields (conn_upd a f s) (quietly s)"
  using evolve_upd [of a f s _ quiet] assms rcvd_upd by (fastforce simp: yields_def quietly_def)

lemma quiet_del [quiet_steps]: "yields (tcp_conn_del a s) (quietly s)"
  using evolve_del [of a s _ quiet] rcvd_del by (fastforce simp: yields_def quietly_def)

lemma quietly_outer [simp]:
  "quietly s (s\<lparr>ticks := t\<rparr>)" "quietly s (s\<lparr>app := x\<rparr>)" "quietly s (s\<lparr>tcp_stop := b\<rparr>)" "quietly s (s\<lparr>net_success := b\<rparr>)"
  "quietly s (s\<lparr>net_ip_id := i, frames := f\<rparr>)"
  by (simp_all add: quietly_def evolve_def addrs_def listen_ok_def fun_eq_iff rcvd_def)

text \<open>Composition.\<close>

lemma quiet_bind:
  assumes "yields m (quietly s)" and "\<And>t. quietly s t \<Longrightarrow> m = Some t \<Longrightarrow> yields (f t) (quietly t)"
  shows "yields (m \<bind> f) (quietly s)"
  using assms by (cases m) (auto simp: yields_def intro: quietly_trans)

lemma quiet_bind2:
  assumes "yields m (\<lambda>(x, t). quietly s t)" and "\<And>x t. quietly s t \<Longrightarrow> m = Some (x, t) \<Longrightarrow> yields (f (x, t)) (quietly t)"
  shows "yields (m \<bind> f) (quietly s)"
  using assms by (cases m) (auto simp: yields_def intro: quietly_trans)

lemma quiet_send [quiet_steps]: "yields (tcp_send_packet_opt e c flags seq ack opt payload s) (quietly s)"
  by (auto simp: tcp_send_packet_opt_def Let_def yield_simps intro!: yieldsI)

lemma quiet_send_packet [quiet_steps]: "yields (tcp_send_packet e c flags seq ack payload s) (quietly s)"
  "yields (tcp_send_packet_ctrl e c flags s) (quietly s)"
  by (simp_all add: tcp_send_packet_def tcp_send_packet_ctrl_def quiet_send)

text \<open>A loop keeps what its body keeps.\<close>

lemma loop_yields:
  assumes "I s" and body: "\<And>s. I s \<Longrightarrow> yields (body s) (\<lambda>x. case x of Inl r \<Rightarrow> Q r | Inr s' \<Rightarrow> I s')"
  shows "yields (loop body s) Q"
proof -
  have "b = body \<longrightarrow> I s \<longrightarrow> Q r" if "loop b s = Some r" for b r
  proof (rule loop.raw_induct [where P = "\<lambda>b s r. b = body \<longrightarrow> I s \<longrightarrow> Q r", OF _ that])
    fix f b s r
    assume IH: "\<And>b s r. f b s = Some r \<Longrightarrow> b = body \<longrightarrow> I s \<longrightarrow> Q r"
      and eq: "b s \<bind> (\<lambda>x. case x of Inl r \<Rightarrow> Some r | Inr s' \<Rightarrow> f b s') = Some r"
    show "b = body \<longrightarrow> I s \<longrightarrow> Q r"
    proof (intro impI)
      assume "b = body" "I s"
      with eq obtain x where x: "body s = Some x" "(case x of Inl r \<Rightarrow> Some r | Inr s' \<Rightarrow> f body s') = Some r"
        by (auto simp: bind_eq_Some_conv)
      with body [OF \<open>I s\<close>] IH [of body _ r] show "Q r" by (cases x) (auto simp: yields_def)
    qed
  qed
  with \<open>I s\<close> show ?thesis by (simp add: yields_def)
qed

lemma for_each_rel:
  assumes "transp T" and "reflp T" and "\<And>a t. yields (f a t) (T t)"
  shows "yields (for_each_conn f s) (\<lambda>(n, t). T s t)"
  unfolding for_each_conn_def
proof (rule loop_yields [where I = "\<lambda>(pos, num, t). T s t"])
  fix x :: "nat option \<times> nat \<times> ('a, 'b, 'c) net"
  assume I: "case x of (pos, num, t) \<Rightarrow> T s t"
  obtain pos num t where x: "x = (pos, num, t)" by (cases x)
  show "yields (each_body f x) (\<lambda>y. case y of Inl (n, t) \<Rightarrow> T s t | Inr (pos, num, t) \<Rightarrow> T s t)"
  proof (cases pos)
    case None
    with I x show ?thesis by (simp add: each_body_def yield_simps)
  next
    case (Some a)
    have "yields (f a t) (T s)" using assms(3) [of a t] I x transpD [OF assms(1)] by (auto simp: yields_def)
    with Some x show ?thesis by (auto simp: each_body_def Let_def yields_def bind_eq_Some_conv)
  qed
qed (use assms(2) in \<open>simp add: reflpD\<close>)

lemma quietly_calmly_preorder: "transp quietly" "reflp quietly" "transp calmly" "reflp calmly"
  by (auto intro!: transpI reflpI intro: quietly_trans calmly_trans)

lemmas quiet_for_each = for_each_rel [OF quietly_calmly_preorder(1,2)]

section \<open>The application\<close>

inductive app_step :: "('p, 'k, 'a) tcp_env \<Rightarrow> ('p, 'k, 'a) net \<Rightarrow> ('p, 'k, 'a) net \<Rightarrow> bool" for e where
  memory: "app_step e s (s\<lparr>app := x\<rparr>)"
| set_pdata: "tcp_conn_set_pdata conn pdata s = Some (r, s') \<Longrightarrow> app_step e s s'"
| send: "tcp_send_data conn data sz s = Some (r, s') \<Longrightarrow> app_step e s s'"
| close: "tcp_close_conn e conn rst s = Some (r, s') \<Longrightarrow> app_step e s s'"
| close_all: "tcp_close_all_conn e s = Some s' \<Longrightarrow> app_step e s s'"
| reset_all: "tcp_reset_all_conn e s = Some s' \<Longrightarrow> app_step e s s'"
| listen: "tcp_listen e port cb s = (r, s') \<Longrightarrow> app_step e s s'"
| listen_stop: "tcp_listen_stop port s = (r, s') \<Longrightarrow> app_step e s s'"

abbreviation app_steps :: "('p, 'k, 'a) tcp_env \<Rightarrow> ('p, 'k, 'a) net \<Rightarrow> ('p, 'k, 'a) net \<Rightarrow> bool" where
  "app_steps e \<equiv> (app_step e)\<^sup>*\<^sup>*"

lemma quiet_close: "yields (tcp_close_conn e conn rst s) (\<lambda>(r, t). quietly s t)"
proof (cases conn)
  case (Some a)
  have "yields (tcp_send_packet e c f q k [] s \<bind> tcp_conn_del a) (quietly s)" for c f q k
    by (rule quiet_bind [OF quiet_send_packet(1) quiet_del])
  moreover have "yields (conn_upd a (\<lambda>c. c\<lparr>c_close_flag := True\<rparr>) s) (quietly s)"
    by (rule quiet_upd) (simp add: quiet_def moves_def conn_key_def tx_null_def)
  ultimately show ?thesis using Some by (auto simp: tcp_close_conn_def yield_simps intro!: yieldsI)
qed (simp add: tcp_close_conn_def yield_simps)

lemma quiet_send_data: "yields (tcp_send_data conn data sz s) (\<lambda>(r, t). quietly s t)"
proof (cases conn)
  case (Some a)
  have "yields (conn_upd a (\<lambda>c. c\<lparr>c_tx := data, c_txlen := sz, c_local_seq_last := c_local_seq c, c_local_seq_acked := c_local_seq c\<rparr>) s) (quietly s)"
    if "data \<noteq> None" "sz \<noteq> 0"
    by (rule quiet_upd) (use that in \<open>simp add: quiet_def moves_def conn_key_def tx_null_def\<close>)
  with Some show ?thesis by (auto simp: tcp_send_data_def yield_simps Let_def intro!: yieldsI)
qed (simp add: tcp_send_data_def yield_simps)

lemma quiet_set_pdata: "yields (tcp_conn_set_pdata conn pdata s) (\<lambda>(r, t). quietly s t)"
proof (cases conn)
  case (Some a)
  have "yields (conn_upd a (\<lambda>c. c\<lparr>c_pdata := pdata\<rparr>) s) (quietly s)"
    by (rule quiet_upd) (simp add: quiet_def moves_def conn_key_def tx_null_def)
  with Some show ?thesis by (auto simp: tcp_conn_set_pdata_def yield_simps intro!: yieldsI)
qed (simp add: tcp_conn_set_pdata_def yield_simps)

lemma quiet_all:
  "yields (tcp_close_all_conn e s) (quietly s)" "yields (tcp_reset_all_conn e s) (quietly s)"
proof -
  have f: "yields (map_option snd (tcp_close_conn e (Some a) rst t)) (quietly t)" for a rst t
    using quiet_close [of e "Some a" rst t] by (auto simp: yields_def)
  have "yields (for_each_conn (\<lambda>a s. map_option snd (tcp_close_conn e (Some a) rst s)) s) (\<lambda>(n, t). quietly s t)" for rst
    by (rule quiet_for_each [OF f])
  then have "yields (for_each_conn (\<lambda>a s. map_option snd (tcp_close_conn e (Some a) rst s)) s \<bind> (\<lambda>(_, s). Some (s\<lparr>tcp_stop := True\<rparr>)))
      (quietly s)" for rst
    by (rule quiet_bind2) (simp add: yield_simps)
  then show "yields (tcp_close_all_conn e s) (quietly s)" "yields (tcp_reset_all_conn e s) (quietly s)"
    by (simp_all add: tcp_close_all_conn_def tcp_reset_all_conn_def)
qed

lemma quietly_listen_head: "(listen_ok s \<Longrightarrow> listen_ok (s\<lparr>listen_head := l\<rparr>)) \<Longrightarrow> quietly s (s\<lparr>listen_head := l\<rparr>)"
  by (simp add: quietly_def evolve_def addrs_def fun_eq_iff rcvd_def)

lemma quietly_listen:
  assumes "tcp_listen e port cb s = (r, s')"
  shows "quietly s s'"
proof (cases "s' = s")
  case False
  then obtain k where s': "s' = s\<lparr>listen_head := listen_head s @ [(port, k)]\<rparr>" and "port \<noteq> 0" "tcp_listen_find port s = None"
    using assms by (cases "tcp_listen_find port s") (auto simp: tcp_listen_def split: option.splits if_splits)
  then have "port \<notin> fst ` set (listen_head s)" by (auto simp: tcp_listen_find_def find_None_iff)
  with \<open>port \<noteq> 0\<close> show ?thesis unfolding s' by (intro quietly_listen_head) (auto simp: listen_ok_def)
qed simp

lemma quietly_listen_stop:
  assumes "tcp_listen_stop port s = (r, s')"
  shows "quietly s s'"
proof -
  have sub: "set (remove_first P xs) \<subseteq> set xs" for P and xs :: "'x list" by (induction xs) auto
  have dist: "distinct (map fst (remove_first P xs))" if "distinct (map fst xs)" for P and xs :: "('x \<times> 'y) list"
    using that by (induction xs) (auto dest!: subsetD [OF sub] simp: image_iff)
  have "quietly s (s\<lparr>listen_head := remove_first (\<lambda>(p, _). p = port) (listen_head s)\<rparr>)"
    by (intro quietly_listen_head) (auto simp: listen_ok_def dist dest!: subsetD [OF sub])
  then show ?thesis using assms by (auto simp: tcp_listen_stop_def split: if_splits)
qed

lemma app_step_quietly: "app_step e s s' \<Longrightarrow> quietly s s'"
proof (induction rule: app_step.induct)
  case (memory s x)
  show ?case by simp
qed (auto dest!: quiet_close [THEN yieldsD] quiet_send_data [THEN yieldsD] quiet_set_pdata [THEN yieldsD] quiet_all [THEN yieldsD]
  intro: quietly_listen quietly_listen_stop)

lemma app_steps_quietly: "app_steps e s s' \<Longrightarrow> quietly s s'"
  by (induction rule: rtranclp_induct) (auto intro: quietly_trans app_step_quietly)

section \<open>The stack with an application\<close>

text \<open>The contract of the application: its callbacks change the stack only through the interface.\<close>

locale tcp_client =
  fixes e :: "('p, 'k, 'a) tcp_env"
  assumes callback: "e_call e k cbd s = Some (cbd', s') \<Longrightarrow> app_steps e s s'"

lemmas quiet_defs = quiet_def moves_def conn_key_def tx_null_def

text \<open>
  The rules for a computation after \<open>s0\<close>: each elementary step stays quiet since \<open>s0\<close>. Together with the
  rules of the option monad they take a definition of the stack apart.
\<close>

lemma since_yields:
  assumes "yields m (quietly s)" and "quietly s0 s" and "\<And>t. quietly s0 t \<Longrightarrow> Q t"
  shows "yields m Q"
  using assms by (auto simp: yields_def intro: quietly_trans)

lemma since_yields2:
  assumes "yields m (\<lambda>(x, t). quietly s t)" and "quietly s0 s" and "\<And>x t. quietly s0 t \<Longrightarrow> Q (x, t)"
  shows "yields m Q"
  using assms by (cases m) (auto simp: yields_def dest: quietly_trans)

named_theorems since "steps that are quiet since the state s0"

lemma since_look [since]: "(\<And>c. conn_at a s = Some c \<Longrightarrow> Q c) \<Longrightarrow> yields (conn_at a s) Q"
  by (simp add: yields_def)

lemma since_bind [since]: "yields m (\<lambda>x. yields (f x) Q) \<Longrightarrow> yields (m \<bind> f) Q"
  by (simp add: yield_simps)

lemma since_if [since]: "(b \<Longrightarrow> yields m Q) \<Longrightarrow> (\<not> b \<Longrightarrow> yields n Q) \<Longrightarrow> yields (if b then m else n) Q"
  by simp

lemma since_some [since]: "Q x \<Longrightarrow> yields (Some x) Q"
  by (simp add: yield_simps)

lemma since_none [since]: "yields None Q"
  by (simp add: yield_simps)

lemma since_pair [since]: "yields (f a b) Q \<Longrightarrow> yields (case (a, b) of (a, b) \<Rightarrow> f a b) Q"
  by simp

lemma since_sum [since]:
  "yields (f a) Q \<Longrightarrow> yields (case Inl a of Inl a \<Rightarrow> f a | Inr b \<Rightarrow> g b) Q"
  "yields (g b) Q \<Longrightarrow> yields (case Inr b of Inl a \<Rightarrow> f a | Inr b \<Rightarrow> g b) Q"
  by simp_all

lemma since_check:
  assumes "yields m (\<lambda>r. case r of Inl t \<Rightarrow> quietly s t | Inr (v, t) \<Rightarrow> quietly s t)" and "quietly s0 s"
    and "\<And>t. quietly s0 t \<Longrightarrow> Q (Inl t)" and "\<And>v t. quietly s0 t \<Longrightarrow> Q (Inr (v, t))"
  shows "yields m Q"
proof (cases m)
  case (Some r)
  with assms show ?thesis by (cases r) (auto simp: yields_def dest: quietly_trans)
qed (simp add: yield_simps)

lemma since_timer [since]:
  "(\<And>r. yields (f r (s\<lparr>ticks := Suc (ticks s)\<rparr>)) Q) \<Longrightarrow> yields (case get_timer e base s of (r, t) \<Rightarrow> f r t) Q"
  by (simp add: get_timer_def)

lemma since_upd [since]:
  assumes "quietly s0 s" and "\<And>c. conn_at a s = Some c \<Longrightarrow> quiet c (f c)" and "\<And>t. quietly s0 t \<Longrightarrow> Q t"
  shows "yields (conn_upd a f s) Q"
  using since_yields [OF quiet_upd] assms by blast

lemmas since_del [since] = since_yields [OF quiet_del]
lemmas since_send [since] = since_yields [OF quiet_send] since_yields [OF quiet_send_packet(1)] since_yields [OF quiet_send_packet(2)]

lemma since_outer [since]: "quietly s0 s \<Longrightarrow> quietly s0 (s\<lparr>ticks := t\<rparr>)"
  by (blast intro: quietly_trans quietly_outer)

lemma quiet_rexmit: "yields (tcp_rexmit_init e a s) (quietly s)" "yields (tcp_rexmit_reset e a s) (quietly s)"
  unfolding tcp_rexmit_init_def tcp_rexmit_reset_def Let_def
  by (intro since quietly_refl; simp add: quiet_defs)+

lemma quiet_rtt: "yields (rtt_calc e a s) (quietly s)"
  unfolding rtt_calc_def Let_def by (intro since quietly_refl; simp add: quiet_defs)

lemmas since_timers [since] = since_yields [OF quiet_rexmit(1)] since_yields [OF quiet_rexmit(2)] since_yields [OF quiet_rtt]

lemma send_conn_at:
  "tcp_send_packet_opt e c f q k opt p s = Some t \<Longrightarrow> conn_at a t = conn_at a s"
  "tcp_send_packet e c f q k p s = Some t \<Longrightarrow> conn_at a t = conn_at a s"
  "tcp_send_packet_ctrl e c f s = Some t \<Longrightarrow> conn_at a t = conn_at a s"
  by (auto simp: tcp_send_packet_def tcp_send_packet_ctrl_def tcp_send_packet_opt_def Let_def bind_eq_Some_conv conn_at_def split: if_splits)

context tcp_client
begin

lemma quiet_call:
  assumes "st \<noteq> TCP_CB_DATA_RCVD"
  shows "yields (call_cb e a st cbd s) (\<lambda>(cbd, t). quietly s t)"
proof -
  have q: "quietly s (s\<lparr>upcalls := upcalls s @ [(a, st, d)]\<rparr>)" for d
    using assms by (simp add: quietly_def evolve_def addrs_def listen_ok_def rcvd_def fun_eq_iff)
  have "quietly s t" if "e_call e k cbd' (s\<lparr>upcalls := upcalls s @ [(a, st, d)]\<rparr>) = Some (cbd'', t)" for k cbd' cbd'' t d
    using q app_steps_quietly [OF callback [OF that]] by (rule quietly_trans)
  then show ?thesis by (auto simp: call_cb_def yields_def bind_eq_Some_conv Let_def)
qed

lemmas since_call = since_yields2 [OF quiet_call]

lemma quiet_rexmit_check: "yields (tcp_rexmit_check e a cbd s) (\<lambda>(r, t). quietly s t)"
proof -
  have call: "yields (case st of ESTABLISHED \<Rightarrow> call_cb e a TCP_CB_REMOTE_CLOSED cbd t | FIN_WAIT_1 \<Rightarrow> call_cb e a TCP_CB_CLOSED cbd t
      | CLOSE_WAIT \<Rightarrow> call_cb e a TCP_CB_CLOSED cbd t | _ \<Rightarrow> Some (cbd, t)) (\<lambda>(cbd, u). quietly t u)" for st t
    by (cases st) (auto simp: yield_simps intro: quiet_call)
  show ?thesis unfolding tcp_rexmit_check_def Let_def
    by (intro since since_yields2 [OF call] quietly_refl; (simp add: quiet_defs)?)
qed

lemmas since_rexmit_check = since_yields2 [OF quiet_rexmit_check]

lemma quiet_new_data: "yields (check_new_data e a cbd n m s) (\<lambda>r. case r of Inl t \<Rightarrow> quietly s t | Inr (v, t) \<Rightarrow> quietly s t)"
  unfolding check_new_data_def Let_def
  by (intro since since_rexmit_check quietly_refl; (simp add: quiet_defs)?)

lemma quiet_check_rexmit: "yields (check_rexmit e a cbd m v s) (\<lambda>r. case r of Inl t \<Rightarrow> quietly s t | Inr (v, t) \<Rightarrow> quietly s t)"
proof -
  obtain d l f q where v: "v = (d, l, f, q)" by (cases v)
  show ?thesis unfolding check_rexmit_def Let_def v prod.case
    by (assumption | rule since since_rexmit_check conjI impI | rule quietly_refl | simp add: quiet_defs)+
qed

lemma quiet_zero_window: "yields (check_zero_window e a cbd n m v s) (\<lambda>r. case r of Inl t \<Rightarrow> quietly s t | Inr (v, t) \<Rightarrow> quietly s t)"
proof -
  obtain d l f q where v: "v = (d, l, f, q)" by (cases v)
  show ?thesis unfolding check_zero_window_def Let_def v prod.case
    by (assumption | rule since since_rexmit_check conjI impI | rule quietly_refl | simp add: quiet_defs)+
qed

lemma since_tx [since]: "(\<And>p. Q p) \<Longrightarrow> yields (tx_bytes e c d n s) Q"
  by (simp add: yields_def)

text \<open>Changes of the state along an edge.\<close>

lemma since_edge:
  assumes "\<And>c. conn_at a s = Some c \<Longrightarrow> c_status c = st" and "tcp_edge st st'" and "st \<noteq> SYN_RCVD"
    and "quietly s t" and "\<And>u. calmly s u \<Longrightarrow> Q u"
  shows "yields (conn_upd a (\<lambda>c. c\<lparr>c_status := st'\<rparr>) t) Q"
proof -
  have "st' \<noteq> SYN_RCVD" using assms(2) by (auto elim: tcp_edge.cases)
  then have "calm c (c\<lparr>c_status := st'\<rparr>)" if "conn_at a t = Some c" for c
    using quietly_conn [OF assms(4) that] assms(1-3) by (auto simp: calm_def quiet_defs)
  then have "calmly t u" if "conn_upd a (\<lambda>c. c\<lparr>c_status := st'\<rparr>) t = Some u" for u
    using evolve_upd [OF that, of calm] rcvd_upd [OF that] by (simp add: calmly_def)
  then show ?thesis using calmly_trans [OF quietly_calmly [OF assms(4)]] assms(5) by (auto simp: yields_def)
qed

lemma calm_after: "yields m (calmly t) \<Longrightarrow> quietly s t \<Longrightarrow> yields m (calmly s)"
  by (erule yields_mono) (blast intro: calmly_trans quietly_calmly)

lemma calm_check_send:
  assumes "\<And>c. conn_at a s = Some c \<Longrightarrow> c_status c = ESTABLISHED"
  shows "yields (check_send e a cbd v s) (calmly s)"
proof -
  obtain d l f q where v: "v = (d, l, f, q)" by (cases v)
  show ?thesis unfolding check_send_def v prod.case
    by (assumption | rule since_edge [OF assms tcp_edge.close] | rule since since_call | rule quietly_refl | (simp add: quiet_defs; fail)
      | (blast intro: calmly_trans quietly_calmly))+
qed

lemma calm_check_established:
  assumes "\<And>c. conn_at a s = Some c \<Longrightarrow> c_status c = ESTABLISHED"
  shows "yields (check_established e a cbd s) (calmly s)"
proof -
  have est: "c_status c = ESTABLISHED" if "quietly s t" "conn_at a t = Some c" for t c
    using quietly_conn [OF that] assms by (auto simp: quiet_def)
  have send: "yields (check_send e a cbd v t) (calmly s)" if "quietly s t" for v t
    using calm_check_send [of a t cbd v] est [OF that] that by (blast intro: calm_after)
  show ?thesis unfolding check_established_def Let_def
    by (assumption | rule since since_check [OF quiet_new_data] since_check [OF quiet_check_rexmit] since_check [OF quiet_zero_window] send
      | rule quietly_refl | (blast intro: quietly_calmly))+
qed

lemma calm_check_again:
  assumes "\<And>t. yields (send t) (quietly t)"
  shows "yields (check_again e a cbd send s) (calmly s)"
  unfolding check_again_def
  by (assumption | rule since since_yields [OF assms] since_rexmit_check | rule quietly_refl | (blast intro: quietly_calmly))+

lemma calm_check_state:
  assumes "conn_at a s = Some c"
  shows "yields (check_state e a c cbd s) (calmly s)"
proof (cases "c_status c")
  case CLOSE_WAIT
  with assms have "\<And>d. conn_at a s = Some d \<Longrightarrow> c_status d = CLOSE_WAIT" by simp
  with CLOSE_WAIT show ?thesis
    by (simp only: check_state_def tcp_state.case)
      (assumption | rule since_edge [OF _ tcp_edge.last] | rule since | rule quietly_refl | (simp; fail) | (blast intro: calmly_trans quietly_calmly))+
next
  case TIME_WAIT
  then show ?thesis
    by (simp only: check_state_def tcp_state.case)
      (assumption | rule since since_call | rule quietly_refl | (simp; fail) | (blast intro: quietly_calmly))+
qed (use assms in \<open>auto simp: check_state_def yield_simps intro!: calm_check_again calm_check_established quiet_send quiet_send_packet\<close>)

lemma calm_conn_check: "yields (tcp_conn_check e a s) (calmly s)"
  unfolding tcp_conn_check_def Let_def
  by (intro since, rule calm_after [OF calm_check_state]) (auto simp: quietly_outer)

lemma calm_periodic_check: "yields (tcp_periodic_check e s) (calmly s)"
proof -
  have "yields (for_each_conn (tcp_conn_check e) s) (\<lambda>(n, t). calmly s t)"
    by (rule for_each_rel [OF quietly_calmly_preorder(3,4) calm_conn_check])
  moreover have "calmly t (t\<lparr>net_success := True\<rparr>)" for t :: "('p, 'k, 'a) net" by (rule quietly_calmly) simp
  ultimately show ?thesis
    unfolding tcp_periodic_check_def by (auto simp: yields_def bind_eq_Some_conv intro: calmly_trans)
qed

lemma quiet_ack_input: "yields (tcp_ack_input e a ack cbd s) (\<lambda>(go, cbd, t). quietly s t)"
  unfolding tcp_ack_input_def
  by (assumption | rule since since_call | rule quietly_refl | (simp add: quiet_defs; fail))+

end

section \<open>Receiving data\<close>

text \<open>
  A step in which the connection \<open>b\<close> takes \<open>n\<close> bytes of the stream, handed to the application as \<open>d\<close>.
\<close>

definition same_state :: "('p, 'k) tcp_conn \<Rightarrow> ('p, 'k) tcp_conn \<Rightarrow> bool" where
  "same_state c c' \<longleftrightarrow> moves c c' \<and> c_status c' = c_status c"

definition est_state :: "('p, 'k) tcp_conn \<Rightarrow> ('p, 'k) tcp_conn \<Rightarrow> bool" where
  "est_state c c' \<longleftrightarrow> moves c c' \<and> (c_status c' = SYN_RCVD \<longleftrightarrow> c_status c = SYN_RCVD)"

definition takes :: "(('p, 'k) tcp_conn \<Rightarrow> ('p, 'k) tcp_conn \<Rightarrow> bool) \<Rightarrow> nat \<Rightarrow> bytes \<Rightarrow> u32 \<Rightarrow> ('p, 'k, 'a) net \<Rightarrow> ('p, 'k, 'a) net \<Rightarrow> bool" where
  "takes R b d n s t \<longleftrightarrow> evolve R s t \<and> rcvd t = (rcvd s)(b := rcvd s b @ d) \<and>
     (\<forall>x c c'. conn_at x s = Some c \<longrightarrow> conn_at x t = Some c' \<longrightarrow> c_peer_seq c' = c_peer_seq c + (if x = b then n else 0))"

lemma evolve_conn: "evolve R s t \<Longrightarrow> conn_at x t = Some c' \<Longrightarrow> \<exists>c. conn_at x s = Some c \<and> R c c'"
  unfolding evolve_def by blast

lemma takes_comp:
  assumes "takes R b d n s t" and "takes S b d' m t u" and "\<And>c x y. R c x \<Longrightarrow> S x y \<Longrightarrow> T c y"
  shows "takes T b (d @ d') (n + m) s u"
proof -
  have "c_peer_seq c' = c_peer_seq c + (if x = b then n + m else 0)" if c: "conn_at x s = Some c" "conn_at x u = Some c'" for x c c'
  proof -
    obtain c1 where "conn_at x t = Some c1" using evolve_conn [of S t u x c'] assms(2) c(2) by (auto simp: takes_def)
    then show ?thesis using c assms(1,2) by (auto simp: takes_def)
  qed
  moreover have "evolve T s u" using assms(1,2) by (intro evolve_comp [OF _ _ assms(3)]) (auto simp: takes_def)
  ultimately show ?thesis using assms(1,2) by (auto simp: takes_def)
qed

lemma quietly_takes: "quietly s t \<longleftrightarrow> takes same_state b [] 0 s t"
  unfolding quietly_def takes_def evolve_def quiet_def same_state_def by (auto simp: fun_upd_idem) fastforce+

lemma calmly_takes: "calmly s t \<longleftrightarrow> takes est_state b [] 0 s t"
  unfolding calmly_def takes_def evolve_def calm_def est_state_def by (auto simp: fun_upd_idem) fastforce+

lemma state_trans: "same_state c x \<Longrightarrow> same_state x y \<Longrightarrow> same_state c y" "same_state c x \<Longrightarrow> est_state x y \<Longrightarrow> est_state c y"
  "est_state c x \<Longrightarrow> same_state x y \<Longrightarrow> est_state c y" "est_state c x \<Longrightarrow> est_state x y \<Longrightarrow> est_state c y" "same_state c x \<Longrightarrow> est_state c x"
  by (auto simp: same_state_def est_state_def intro: moves_trans)

lemma takes_after: "takes R b d n s t \<Longrightarrow> quietly t u \<Longrightarrow> (\<And>c x y. R c x \<Longrightarrow> same_state x y \<Longrightarrow> R c y) \<Longrightarrow> takes R b d n s u"
  using takes_comp [of R b d n s t same_state "[]" 0 u R] by (simp add: quietly_takes [of t u b])

lemma after_takes: "quietly s t \<Longrightarrow> takes R b d n t u \<Longrightarrow> (\<And>c x y. same_state c x \<Longrightarrow> R x y \<Longrightarrow> R c y) \<Longrightarrow> takes R b d n s u"
  using takes_comp [of same_state b "[]" 0 s t R d n u R] by (simp add: quietly_takes [of s t b])

text \<open>The third packet of the handshake.\<close>

definition accepts :: "nat \<Rightarrow> ('p, 'k, 'a) net \<Rightarrow> ('p, 'k, 'a) net \<Rightarrow> bool" where
  "accepts b s t \<longleftrightarrow> evolve moves s t \<and> rcvd t = rcvd s \<and>
     (\<forall>x c c'. conn_at x s = Some c \<longrightarrow> conn_at x t = Some c' \<longrightarrow>
        (if x = b then c_status c' = ESTABLISHED \<and> c_peer_seq c' = c_peer_seq c + 1 else calm c c'))"

context tcp_client
begin

text \<open>The data of a segment reaches the application once, and the position in the stream moves with it.\<close>

lemma takes_data:
  assumes "n \<noteq> 0"
  shows "yields (conn_upd b (\<lambda>c. c\<lparr>c_peer_seq := c_peer_seq c + n, c_ack_flag := c_ack_flag c + 1\<rparr>) s \<bind>
      call_cb e b TCP_CB_DATA_RCVD (cbd\<lparr>cbd_data := data, cbd_datalen := n\<rparr>))
    (\<lambda>(cbd, t). takes same_state b (take (unat n) data) n s t)"
proof -
  let ?f = "\<lambda>c. c\<lparr>c_peer_seq := c_peer_seq c + n, c_ack_flag := c_ack_flag c + 1\<rparr>"
  have "takes same_state b (take (unat n) data) n s u"
    if up: "conn_upd b ?f s = Some t"
      and u: "e_call e k cbd' (t\<lparr>upcalls := upcalls t @ [(b, TCP_CB_DATA_RCVD, take (unat n) data)]\<rparr>) = Some (cbd'', u)" for t u k cbd' cbd''
  proof -
    let ?t = "t\<lparr>upcalls := upcalls t @ [(b, TCP_CB_DATA_RCVD, take (unat n) data)]\<rparr>"
    have "evolve same_state s t" by (rule evolve_upd [OF up]) (simp_all add: same_state_def moves_def conn_key_def tx_null_def)
    then have "evolve same_state s ?t" by (auto simp: evolve_def addrs_def listen_ok_def)
    moreover have "rcvd ?t = (rcvd s)(b := rcvd s b @ take (unat n) data)"
      unfolding rcvd_upd [OF up, symmetric] by (simp add: rcvd_def fun_eq_iff)
    moreover have "c_peer_seq c' = c_peer_seq c + (if x = b then n else 0)" if "conn_at x s = Some c" "conn_at x ?t = Some c'" for x c c'
      using that conn_upd_Some(1) [OF up, of x] by (auto split: if_splits)
    ultimately have "takes same_state b (take (unat n) data) n s ?t" by (simp add: takes_def)
    then show ?thesis by (rule takes_after [OF _ app_steps_quietly [OF callback [OF u]]]) (rule state_trans)
  qed
  then show ?thesis by (auto simp: call_cb_def yields_def bind_eq_Some_conv Let_def)
qed

lemma takes_deliver:
  assumes "\<And>c. conn_at b s = Some c \<Longrightarrow> c_status c = ESTABLISHED"
  shows "yields (tcp_deliver e b flags data n cbd s) (takes est_state b (take (unat n) data) n s)"
proof -
  let ?T = "\<lambda>R. takes R b (take (unat n) data) n s"
  have first: "yields (if n \<noteq> 0 then do {
         s \<leftarrow> conn_upd b (\<lambda>c. c\<lparr>c_peer_seq := c_peer_seq c + n, c_ack_flag := c_ack_flag c + 1\<rparr>) s;
         call_cb e b TCP_CB_DATA_RCVD (cbd\<lparr>cbd_data := data, cbd_datalen := n\<rparr>) s
       } else Some (cbd, s)) (\<lambda>(cbd, t). ?T same_state t)"
    using takes_data [of n b s data cbd] quietly_takes [of s s b] by (auto simp: yield_simps)
  have fin: "?T est_state u" if t: "?T same_state t" and up: "conn_upd b (\<lambda>c. c\<lparr>c_status := CLOSE_WAIT\<rparr>) t = Some u" for t u
  proof -
    have "\<And>c. conn_at b t = Some c \<Longrightarrow> c_status c = ESTABLISHED"
      using t evolve_conn [of same_state s t b] assms by (fastforce simp: takes_def same_state_def)
    then have "yields (conn_upd b (\<lambda>c. c\<lparr>c_status := CLOSE_WAIT\<rparr>) t) (calmly t)"
      by (rule since_edge [OF _ tcp_edge.remote_fin]) simp_all
    then have "calmly t u" using up by (rule yieldsD)
    then have "takes est_state b [] 0 t u" unfolding calmly_takes [of t u b] .
    from takes_comp [OF t this state_trans(2)] show ?thesis by simp
  qed
  have est: "?T est_state t" if "?T same_state t" for t
    using that evolve_mono [of same_state s t est_state] state_trans(5) by (auto simp: takes_def)
  have call: "yields (call_cb e b TCP_CB_REMOTE_CLOSING cbd t) (\<lambda>(cbd, u). ?T est_state u)" if "?T est_state t" for t cbd
    using quiet_call [of TCP_CB_REMOTE_CLOSING b cbd t] takes_after [OF that _ state_trans(3)] by (auto simp: yields_def)
  show ?thesis unfolding tcp_deliver_def
    using first fin call est by (fastforce simp: yields_def bind_eq_Some_conv split: if_splits)
qed

lemma takes_established:
  assumes c: "conn_at b s = Some c" and "c_status c = ESTABLISHED" and "tcp_trim (c_peer_seq c) (g_seq g) (g_data g) (g_size g) = (data, n, due)"
  shows "yields (tcp_established e b g cbd s)
    (\<lambda>t. takes est_state b [] 0 s t \<or> takes est_state b (take (unat n) data) n s t)"
proof -
  have est: "c_status c' = ESTABLISHED" if "quietly s t" "conn_at b t = Some c'" for t c'
    using quietly_conn [OF that] c assms(2) by (auto simp: quiet_def)
  have deliver: "yields (tcp_deliver e b (g_flags g) data n cbd t) (takes est_state b (take (unat n) data) n s)" if q: "quietly s t" for t cbd
    using takes_deliver [of b t "g_flags g" data n cbd] est [OF q] after_takes [OF q _ state_trans(2)] by (auto simp: yields_def)
  have stop: "takes est_state b [] 0 s t" if "quietly s t" for t
    using quietly_calmly [OF that] unfolding calmly_takes [of s t b] .
  have ack: "yields (tcp_ack_input e b k cbd t \<bind> (\<lambda>(go, cbd, s). if go then tcp_deliver e b (g_flags g) data n cbd s else Some s))
      (\<lambda>t. takes est_state b [] 0 s t \<or> takes est_state b (take (unat n) data) n s t)" if q: "quietly s t" for t k cbd
    using quiet_ack_input [of b k cbd t] deliver stop quietly_trans [OF q] by (fastforce simp: yields_def bind_eq_Some_conv split: if_splits)
  show ?thesis
    unfolding tcp_established_def c Option.bind.bind_lunit Let_def assms(3) prod.case
    by (assumption | rule ack since_bind since_upd | rule quietly_refl | (simp add: quiet_defs; fail))+
qed

lemma accepts_accept:
  assumes c: "conn_at b s = Some c" and st: "c_status c = SYN_RCVD"
  shows "yields (tcp_accept e b cbd s) (\<lambda>(cbd, t). accepts b s t)"
proof -
  let ?f = "\<lambda>srtt c. c\<lparr>c_srtt := srtt, c_rttvar := srtt div 2, c_rto := srtt + max TCP_RTT_G (TCP_RTT_K * (srtt div 2)),
       c_status := ESTABLISHED, c_peer_seq := c_peer_seq c + 1, c_local_seq := c_local_seq c + 1,
       c_local_seq_last := c_local_seq c + 1, c_local_seq_acked := c_local_seq c + 1\<rparr>"
  let ?s = "s\<lparr>ticks := Suc (ticks s)\<rparr>"
  have "accepts b s u" if up: "conn_upd b (?f r) ?s = Some t" and q: "quietly t u" for r t u
  proof -
    have "evolve moves ?s t"
      by (rule evolve_upd [OF up]) (use c st in \<open>auto simp: moves_def conn_key_def tx_null_def intro: tcp_edge.accept\<close>)
    then have "evolve moves s t" by (auto simp: evolve_def addrs_def listen_ok_def)
    moreover have "evolve moves t u" using calmly_moves [OF quietly_calmly [OF q]] .
    ultimately have "evolve moves s u" by (rule evolve_trans) (rule moves_trans)
    moreover have "rcvd u = rcvd s" using q rcvd_upd [OF up] by (simp add: quietly_def rcvd_def fun_eq_iff)
    moreover have "if x = b then c_status y = ESTABLISHED \<and> c_peer_seq y = c_peer_seq d + 1 else calm d y"
      if "conn_at x s = Some d" and y: "conn_at x u = Some y" for x d y
      using that(1) quietly_conn [OF q y] conn_upd_Some(1) [OF up, of x] by (auto simp: quiet_def quiet_calm split: if_splits)
    ultimately show ?thesis by (auto simp: accepts_def)
  qed
  then show ?thesis
    using quiet_call [of TCP_CB_NEW_CONN b cbd] by (auto simp: tcp_accept_def c get_timer_def Let_def yields_def bind_eq_Some_conv)
qed

lemma since_calm:
  assumes "quietly s t" and "\<And>c. conn_at a t = Some c \<Longrightarrow> calm c (f c)" and "\<And>u. calmly s u \<Longrightarrow> Q u"
  shows "yields (conn_upd a f t) Q"
proof -
  have "calmly t u" if "conn_upd a f t = Some u" for u
    using evolve_upd [OF that, of calm] rcvd_upd [OF that] assms(2) by (simp add: calmly_def)
  then show ?thesis using calmly_trans [OF quietly_calmly [OF assms(1)]] assms(3) by (auto simp: yields_def)
qed

lemma calm_edge:
  assumes "tcp_edge (c_status c) st" and "c_status c \<noteq> SYN_RCVD"
  shows "calm c (c\<lparr>c_status := st\<rparr>)" "calm c (c\<lparr>c_status := st, c_local_seq := x\<rparr>)"
  using assms by (auto simp: calm_def moves_def conn_key_def tx_null_def elim: tcp_edge.cases)

text \<open>Outside of the handshake and of the transfer of data, a segment is calm for every connection.\<close>

lemma calm_input:
  assumes c: "conn_at b s = Some c"
    and "has_flag (g_flags g) TCP_RST \<or> \<not> has_flag (g_flags g) TCP_ACK \<or> (c_status c \<noteq> SYN_RCVD \<and> c_status c \<noteq> ESTABLISHED)"
  shows "yields (tcp_input e b g s) (calmly s)"
proof -
  have upd: "yields (conn_upd b f s) (calmly s)" if "\<And>d. conn_at b s = Some d \<Longrightarrow> calm d (f d)" for f
    by (rule since_calm [OF quietly_refl that])
  show ?thesis
  proof (cases "has_flag (g_flags g) TCP_RST")
    case True
    then show ?thesis unfolding tcp_input_def c Option.bind.bind_lunit Let_def
      by (simp only: if_True) (assumption | rule since since_call | rule quietly_refl | (simp; fail) | (blast intro: quietly_calmly))+
  next
    case rst: False
    show ?thesis
    proof (cases "c_status c")
      case LAST_ACK
      with c have last: "\<And>d. conn_at b s = Some d \<Longrightarrow> c_status d = LAST_ACK" by simp
      from LAST_ACK show ?thesis unfolding tcp_input_def c Option.bind.bind_lunit Let_def
        by (simp only: rst if_False tcp_state.case)
          (assumption | rule since_edge [OF last tcp_edge.last_acked] | rule since since_call | rule quietly_refl
            | (simp add: c; fail) | (blast intro: quietly_calmly calmly_trans))+
    qed (use assms(2) rst c in \<open>auto simp: tcp_input_def yield_simps Let_def calm_edge tcp_edge.intros intro!: upd\<close>)
  qed
qed

end

section \<open>In order, once, and nothing else\<close>

text \<open>
  The peer's stream \<open>strm\<close>, whose first byte has the sequence number \<open>base\<close>: what was handed to the
  application is a prefix of it, and the connection expects the byte behind the prefix.
\<close>

definition in_stream :: "nat \<Rightarrow> u32 \<Rightarrow> bytes \<Rightarrow> ('p, 'k, 'a) net \<Rightarrow> bool" where
  "in_stream b base strm s \<longleftrightarrow> prefix (rcvd s b) strm \<and>
     (\<forall>c. conn_at b s = Some c \<longrightarrow>
        (if c_status c = SYN_RCVD then c_peer_seq c + 1 = base \<and> rcvd s b = []
         else c_peer_seq c = base + of_nat (length (rcvd s b))))"

text \<open>A segment of the stream, as the peer may send it, any number of times and in any order.\<close>

definition segment_of :: "u32 \<Rightarrow> bytes \<Rightarrow> tcp_seg \<Rightarrow> bool" where
  "segment_of base strm g \<longleftrightarrow>
     (\<exists>off \<le> length strm. g_seq g = base + of_nat off \<and> off + unat (g_size g) \<le> length strm \<and>
        take (unat (g_size g)) (g_data g) = take (unat (g_size g)) (drop off strm))"

lemma trim_in_order:
  assumes "segment_of base strm g" and "length strm < 2 ^ 31" and "k \<le> length strm"
    and "tcp_trim (base + of_nat k) (g_seq g) (g_data g) (g_size g) = (data, n, due)"
  shows "take (unat n) data = take (unat n) (drop k strm)" and "k + unat n \<le> length strm"
proof -
  obtain off where seq: "g_seq g = base + of_nat off" and b: "off + unat (g_size g) \<le> length strm"
    and d: "take (unat (g_size g)) (g_data g) = take (unat (g_size g)) (drop off strm)"
    using assms(1) by (auto simp: segment_of_def)
  define m where "m = unat (g_size g)"
  have sz: "g_size g = of_nat m" by (simp add: m_def)
  have off: "tcp_seq_sub (g_seq g) (base + of_nat k) = int off - int k"
    using b assms(2,3) unfolding seq by (intro tcp_seq_sub_off) simp_all
  have "g_seq g + g_size g = base + of_nat (off + m)" by (simp add: seq sz)
  then have e: "tcp_seq_sub (g_seq g + g_size g) (base + of_nat k) = int (off + m) - int k"
    using b assms(2,3) tcp_seq_sub_off [of "off + m" k base] by (simp add: m_def add.assoc)
  have "take (unat n) data = take (unat n) (drop k strm) \<and> k + unat n \<le> length strm"
  proof (cases "off < k \<and> k < off + m")
    case True
    have tmp: "g_seq g + g_size g - (base + of_nat k) = of_nat (off + m - k)" using True by (simp add: seq sz of_nat_diff)
    have rest: "g_size g - of_nat (off + m - k) = of_nat (k - off)" using True by (simp add: sz of_nat_diff)
    have u: "unat (of_nat j :: u32) = j" if "j \<le> length strm" for j using that assms(2) by (subst unat_of_nat) simp
    have "tcp_trim (base + of_nat k) (g_seq g) (g_data g) (g_size g) = (drop (unat (of_nat (k - off) :: u32)) (g_data g), of_nat (off + m - k), False)"
      unfolding tcp_trim_def Let_def tmp rest off e using True by simp
    then have "data = drop (unat (of_nat (k - off) :: u32)) (g_data g)" "n = of_nat (off + m - k)" using assms(4) by simp_all
    moreover have "k - off \<le> length strm" "off + m - k \<le> length strm" using assms(3) b by (simp_all add: m_def)
    ultimately have r: "data = drop (k - off) (g_data g)" "unat n = off + m - k" by (simp_all only: u)
    have "take (off + m - k) (drop (k - off) (g_data g)) = drop (k - off) (take m (g_data g))"
      using True by (simp add: drop_take add.commute)
    also have "\<dots> = take (off + m - k) (drop k strm)" using True d by (simp add: m_def drop_take add.commute)
    finally show ?thesis using r b True by (simp add: m_def)
  next
    case False
    have "data = g_data g \<and> (n = 0 \<or> off = k \<and> n = g_size g)"
      using assms(4) False unfolding tcp_trim_def off e by (auto split: if_splits)
    then show ?thesis using assms(3) b d by auto
  qed
  then show "take (unat n) data = take (unat n) (drop k strm)" and "k + unat n \<le> length strm" by simp_all
qed

lemma in_stream_calm:
  assumes "in_stream b base strm s" and r: "rcvd t b = rcvd s b" and calm: "\<And>c'. conn_at b t = Some c' \<Longrightarrow> \<exists>c. conn_at b s = Some c \<and> calm c c'"
  shows "in_stream b base strm t"
proof -
  have "if c_status c' = SYN_RCVD then c_peer_seq c' + 1 = base \<and> rcvd s b = [] else c_peer_seq c' = base + of_nat (length (rcvd s b))"
    if c': "conn_at b t = Some c'" for c'
  proof -
    obtain c where c: "conn_at b s = Some c" "calm c c'" using calm [OF c'] by blast
    then have "if c_status c = SYN_RCVD then c_peer_seq c + 1 = base \<and> rcvd s b = [] else c_peer_seq c = base + of_nat (length (rcvd s b))"
      using assms(1) unfolding in_stream_def by blast
    with c(2) show ?thesis by (simp add: calm_def)
  qed
  then show ?thesis using assms(1) unfolding in_stream_def r by blast
qed

lemma in_stream_calmly:
  assumes "calmly s t" and "in_stream b base strm s"
  shows "in_stream b base strm t"
  using assms(1) by (intro in_stream_calm [OF assms(2)]) (auto simp: calmly_def dest: evolve_conn)

lemma in_stream_takes:
  assumes "in_stream b base strm s" and "conn_at b s = Some c" and "c_status c \<noteq> SYN_RCVD" and "takes est_state b (take (unat n) data) n s t"
    and "segment_of base strm g" and "length strm < 2 ^ 31" and "tcp_trim (c_peer_seq c) (g_seq g) (g_data g) (g_size g) = (data, n, due)"
  shows "in_stream b base strm t"
proof -
  define k where "k = length (rcvd s b)"
  have p: "rcvd s b = take k strm" "k \<le> length strm" and seq: "c_peer_seq c = base + of_nat k"
    using assms(1-3) by (auto simp: in_stream_def k_def prefix_def)
  note trim = trim_in_order [OF assms(5,6) p(2) assms(7) [unfolded seq]]
  have r: "rcvd t b = take (k + unat n) strm" using assms(4) by (simp add: takes_def p(1) trim(1) take_add)
  have l: "length (rcvd t b) = k + unat n" using trim(2) by (simp add: r)
  have "c_status c' \<noteq> SYN_RCVD \<and> c_peer_seq c' = base + of_nat (length (rcvd t b))" if "conn_at b t = Some c'" for c'
  proof -
    have "c_status c' \<noteq> SYN_RCVD" "c_peer_seq c' = c_peer_seq c + n"
      using that assms(2-4) evolve_conn [of est_state s t b c'] by (auto simp: takes_def est_state_def)
    then show ?thesis unfolding l by (simp add: seq)
  qed
  then show ?thesis by (auto simp: in_stream_def r take_is_prefix)
qed

lemma in_stream_accepts:
  assumes "accepts b s t" and "in_stream b base strm s" and "conn_at b s = Some c" and "c_status c = SYN_RCVD"
  shows "in_stream b base strm t"
proof -
  have r: "rcvd t = rcvd s" "rcvd s b = []" and seq: "c_peer_seq c + 1 = base" using assms by (simp_all add: accepts_def in_stream_def)
  have "c_status c' = ESTABLISHED \<and> c_peer_seq c' = base" if "conn_at b t = Some c'" for c'
    using assms(1,3) that seq by (auto simp: accepts_def)
  then show ?thesis by (simp add: in_stream_def r)
qed

context tcp_client
begin

lemma in_stream_established:
  assumes "in_stream b base strm s" and "\<And>c. conn_at b s = Some c \<Longrightarrow> c_status c = ESTABLISHED"
    and "segment_of base strm g" and "length strm < 2 ^ 31"
  shows "yields (tcp_established e b g cbd s) (in_stream b base strm)"
proof (cases "conn_at b s")
  case None
  then show ?thesis by (simp add: tcp_established_def yield_simps)
next
  case (Some c)
  then have est: "c_status c = ESTABLISHED" by (rule assms(2))
  obtain data n due where trim: "tcp_trim (c_peer_seq c) (g_seq g) (g_data g) (g_size g) = (data, n, due)" by (cases "tcp_trim (c_peer_seq c) (g_seq g) (g_data g) (g_size g)")
  have "in_stream b base strm t" if "takes est_state b [] 0 s t" for t
    using that in_stream_calmly [OF _ assms(1), of t] unfolding calmly_takes [of s t b, symmetric] by blast
  moreover have "in_stream b base strm t" if "takes est_state b (take (unat n) data) n s t" for t
    by (rule in_stream_takes [OF assms(1) Some _ that assms(3,4) trim]) (simp add: est)
  ultimately show ?thesis using takes_established [OF Some est trim, of cbd] by (auto elim: yields_mono)
qed

lemma in_stream_input:
  assumes "in_stream b base strm s" and "segment_of base strm g" and "length strm < 2 ^ 31"
  shows "yields (tcp_input e b g s) (in_stream b base strm)"
proof (cases "conn_at b s")
  case None
  then show ?thesis by (simp add: tcp_input_def yield_simps)
next
  case (Some c)
  let ?busy = "\<not> has_flag (g_flags g) TCP_RST \<and> has_flag (g_flags g) TCP_ACK"
  show ?thesis
  proof (cases "?busy \<and> (c_status c = SYN_RCVD \<or> c_status c = ESTABLISHED)")
    case False
    then have "yields (tcp_input e b g s) (calmly s)" by (intro calm_input [OF Some]) auto
    then show ?thesis by (rule yields_mono) (rule in_stream_calmly [OF _ assms(1)])
  next
    case busy: True
    show ?thesis
    proof (cases "c_status c = ESTABLISHED")
      case True
      then show ?thesis
        using busy Some in_stream_established [OF assms(1) _ assms(2,3)] by (simp add: tcp_input_def Let_def)
    next
      case False
      then have syn: "c_status c = SYN_RCVD" using busy by simp
      have "in_stream b base strm t" "\<And>c'. conn_at b t = Some c' \<Longrightarrow> c_status c' = ESTABLISHED" if "accepts b s t" for t
        using in_stream_accepts [OF that assms(1) Some syn] that Some evolve_conn [of moves s t b] by (auto simp: accepts_def)
      then have "in_stream b base strm t \<and> yields (tcp_established e b g cbd t) (in_stream b base strm)" if "accepts b s t" for t cbd
        using that in_stream_established [OF _ _ assms(2,3), of b t] by blast
      then show ?thesis
        using busy syn Some accepts_accept [OF Some syn]
        by (fastforce simp: tcp_input_def Let_def yields_def bind_eq_Some_conv split: if_splits)
    qed
  qed
qed

end

section \<open>Well-formed states\<close>

definition conn_ok :: "('p, 'k) tcp_conn \<Rightarrow> bool" where
  "conn_ok c \<longleftrightarrow> c_status c \<in> live_states \<and> c_mss c \<le> 1460 \<and> c_peer_ws c \<le> 14 \<and> tx_null c"

definition net_wf :: "('p, 'k, 'a) net \<Rightarrow> bool" where
  "net_wf s \<longleftrightarrow> distinct (addrs s) \<and> (\<forall>a. conn_at a s \<noteq> None \<longrightarrow> a < next_addr s) \<and> listen_ok s
     \<and> (\<forall>a b c d. conn_at a s = Some c \<longrightarrow> conn_at b s = Some d \<longrightarrow> conn_key c = conn_key d \<longrightarrow> a = b)
     \<and> (\<forall>a c. conn_at a s = Some c \<longrightarrow> conn_ok c)"

lemma moves_ok: "moves c c' \<Longrightarrow> conn_ok c \<Longrightarrow> conn_ok c'"
  by (auto simp: moves_def conn_ok_def dest: tcp_edges_live)

lemma evolve_wf:
  assumes "evolve moves s t" and "net_wf s"
  shows "net_wf t"
proof -
  have ev: "\<exists>c. conn_at b s = Some c \<and> moves c c'" if "conn_at b t = Some c'" for b c' using evolve_conn [OF assms(1) that] .
  have "a = b" if "conn_at a t = Some c" "conn_at b t = Some d" "conn_key c = conn_key d" for a b c d
    using ev [OF that(1)] ev [OF that(2)] that(3) assms(2) unfolding net_wf_def moves_def by metis
  moreover have "conn_ok c" if "conn_at a t = Some c" for a c
    using ev [OF that] assms(2) moves_ok unfolding net_wf_def by blast
  moreover have "a < next_addr t" if "conn_at a t \<noteq> None" for a
    using that ev [of a] assms unfolding net_wf_def evolve_def by fastforce
  ultimately show ?thesis using assms unfolding net_wf_def evolve_def by blast
qed

text \<open>A new connection.\<close>

definition opens :: "('p, 'k, 'a) net \<Rightarrow> ('p, 'k) tcp_conn \<Rightarrow> ('p, 'k, 'a) net \<Rightarrow> bool" where
  "opens s c t \<longleftrightarrow> conn_ok c \<and> conn_head t = conn_head s @ [(next_addr s, c)] \<and> next_addr t = Suc (next_addr s)
     \<and> listen_head t = listen_head s \<and> upcalls t = upcalls s"

lemma opt_bounds:
  assumes "mss \<le> 1460" and "ws \<le> 14"
  shows "yields (loop (opt_body tcp optend) (off, mss, ws)) (\<lambda>(mss, ws). mss \<le> 1460 \<and> ws \<le> 14)"
  by (rule loop_yields [where I = "\<lambda>(off, mss, ws). mss \<le> 1460 \<and> ws \<le> 14"])
    (use assms in \<open>auto simp: opt_body_def yields_def bind_eq_Some_conv Let_def split: if_splits sum.splits\<close>)

lemma send_fields: "tcp_send_packet_opt e c f q k opt p s = Some t \<Longrightarrow> \<exists>i f. t = s\<lparr>net_ip_id := i, frames := f\<rparr>"
  by (auto simp: tcp_send_packet_opt_def Let_def bind_eq_Some_conv split: if_splits)

lemma create_opens:
  assumes "tcp_conn_create e rip tcp n eth cb s = Some t"
  shows "\<exists>c. opens s c t \<and> get16 0 tcp = Some (c_port_remote c) \<and> get16 2 tcp = Some (c_port_local c) \<and> c_ip_remote c = rip"
proof -
  have opt: "mss \<le> 1460 \<and> ws \<le> 14"
    if "loop (opt_body tcp (unat n)) (TCP_HDR_SIZE, 1460, 0) = Some (mss, ws)" for mss ws
    using yieldsD [OF opt_bounds that] by simp
  show ?thesis
    using assms unfolding tcp_conn_create_def Let_def get_timer_def
    by (auto simp: bind_eq_Some_conv opens_def conn_ok_def live_states_def tx_null_def split: if_splits dest!: send_fields opt)
qed

lemma opens_wf:
  assumes "net_wf s" and "opens s c t" and "\<And>b d. conn_at b s = Some d \<Longrightarrow> conn_key d \<noteq> conn_key c"
  shows "net_wf t" and "\<And>b. b < next_addr s \<Longrightarrow> conn_at b t = conn_at b s" and "rcvd t = rcvd s"
proof -
  let ?n = "next_addr s"
  have new: "conn_at ?n s = None" using assms(1) by (auto simp: net_wf_def)
  then have at: "conn_at b t = (if b = ?n then Some c else conn_at b s)" for b
    using assms(2) by (auto simp: opens_def conn_at_def map_add_def split: option.splits)
  have "a \<in> set (addrs s) \<longleftrightarrow> conn_at a s \<noteq> None" for a
    unfolding addrs_def conn_at_def map_of_eq_None_iff by simp
  with new have "distinct (addrs t)" using assms(1,2) by (auto simp: net_wf_def opens_def addrs_def)
  moreover have "listen_ok t" using assms(1,2) by (auto simp: net_wf_def opens_def listen_ok_def)
  moreover have "\<And>b d. conn_at b s = Some d \<Longrightarrow> conn_key c \<noteq> conn_key d" using assms(3) by metis
  ultimately show "net_wf t" using assms at unfolding net_wf_def opens_def by (auto 4 3 split: if_splits simp: less_Suc_eq)
  show "\<And>b. b < ?n \<Longrightarrow> conn_at b t = conn_at b s" by (simp add: at)
  show "rcvd t = rcvd s" using assms(2) by (simp add: opens_def rcvd_def fun_eq_iff)
qed

section \<open>Runs of the stack\<close>

datatype net_event = Packet bytes u32 bytes | Check | App

inductive net_step :: "('p, 'k, 'a) tcp_env \<Rightarrow> net_event \<Rightarrow> ('p, 'k, 'a) net \<Rightarrow> ('p, 'k, 'a) net \<Rightarrow> bool" for e where
  packet: "receive_tcp e rx len et s = Some t \<Longrightarrow> net_step e (Packet rx len et) s t"
| check: "tcp_periodic_check e s = Some t \<Longrightarrow> net_step e Check s t"
| app: "app_step e s t \<Longrightarrow> net_step e App s t"

inductive net_run :: "('p, 'k, 'a) tcp_env \<Rightarrow> net_event list \<Rightarrow> ('p, 'k, 'a) net \<Rightarrow> ('p, 'k, 'a) net \<Rightarrow> bool" for e where
  nil: "net_run e [] s s"
| snoc: "net_run e evs s t \<Longrightarrow> net_step e ev t u \<Longrightarrow> net_run e (evs @ [ev]) s u"

inductive_cases net_stepE: "net_step e ev s t"

lemma conn_find_Some: "tcp_conn_find ip rp lp s = Some a \<Longrightarrow> \<exists>c. (a, c) \<in> set (conn_head s) \<and> conn_key c = (ip, rp, lp)"
  by (auto simp: tcp_conn_find_def find_Some_iff conn_key_def) (metis nth_mem)

lemma conn_find_None: "tcp_conn_find ip rp lp s = None \<Longrightarrow> conn_at b s = Some d \<Longrightarrow> conn_key d \<noteq> (ip, rp, lp)"
  by (auto simp: tcp_conn_find_def find_None_iff conn_key_def conn_at_def dest!: map_of_SomeD)

lemma parse_ports:
  assumes "tcp_parse rx len = Some (Some g)"
  shows "get16 0 (g_tcp g) = Some (g_src g) \<and> get16 2 (g_tcp g) = Some (g_dst g)"
proof -
  have eq: "(\<And>x. m = Some x \<Longrightarrow> Q x) \<Longrightarrow> yields m Q" for m :: "'x option" and Q by (simp add: yields_def)
  have "yields (tcp_parse rx len) (\<lambda>r. \<forall>g. r = Some g \<longrightarrow> get16 0 (g_tcp g) = Some (g_src g) \<and> get16 2 (g_tcp g) = Some (g_dst g))"
    unfolding tcp_parse_def Let_def by (rule since_bind since_if since_some | rule eq | (simp; fail))+
  then show ?thesis using assms by (simp add: yields_def)
qed

text \<open>What a packet does: nothing, a new connection, or input to the connection it belongs to.\<close>

lemma receive_cases:
  assumes "receive_tcp e rx len et s = Some t"
  obtains "t = s" | c where "opens s c t" "\<And>b d. conn_at b s = Some d \<Longrightarrow> conn_key d \<noteq> conn_key c"
  | g a where "tcp_parse rx len = Some (Some g)" "tcp_conn_find (g_sip g) (g_src g) (g_dst g) s = Some a" "tcp_input e a g s = Some t"
proof -
  from assms obtain r where r: "tcp_parse rx len = Some r" by (auto simp: receive_tcp_def bind_eq_Some_conv)
  show ?thesis
  proof (cases r)
    case None
    with assms r have "t = s" by (simp add: receive_tcp_def)
    then show ?thesis by (rule that(1))
  next
    case (Some g)
    show ?thesis
    proof (cases "tcp_conn_find (g_sip g) (g_src g) (g_dst g) s")
      case (Some a)
      then have "tcp_input e a g s = Some t" using assms unfolding receive_tcp_def r \<open>r = Some g\<close> by simp
      with Some r \<open>r = Some g\<close> show ?thesis by (intro that(3) [of g a]) simp_all
    next
      case None
      have eq: "(if g_flags g AND TCP_FLAG_MASK = TCP_SYN then case tcp_listen_find (g_dst g) s of None \<Rightarrow> Some s
          | Some (_, cb) \<Rightarrow> tcp_conn_create e (g_sip g) (g_tcp g) (g_hdr_len g) et cb s else Some s) = Some t"
        using assms unfolding receive_tcp_def r \<open>r = Some g\<close> by (simp add: None)
      show ?thesis
      proof (cases "t = s")
        case True
        then show ?thesis by (rule that(1))
      next
        case False
        then obtain cb where "tcp_conn_create e (g_sip g) (g_tcp g) (g_hdr_len g) et cb s = Some t"
          using eq by (cases "tcp_listen_find (g_dst g) s") (auto split: if_splits)
        from create_opens [OF this] obtain c where c: "opens s c t" "get16 0 (g_tcp g) = Some (c_port_remote c)"
          "get16 2 (g_tcp g) = Some (c_port_local c)" "c_ip_remote c = g_sip g" by (elim exE conjE)
        have "conn_key c = (g_sip g, g_src g, g_dst g)"
          using parse_ports [of rx len g] r \<open>r = Some g\<close> c(2-4) by (simp add: conn_key_def)
        then show ?thesis using conn_find_None [OF None] by (intro that(2) [OF c(1)]) simp
      qed
    qed
  qed
qed

text \<open>Input to one connection leaves the others as they are, up to what the application does.\<close>

definition only_input :: "nat \<Rightarrow> ('p, 'k, 'a) net \<Rightarrow> ('p, 'k, 'a) net \<Rightarrow> bool" where
  "only_input b s t \<longleftrightarrow> evolve moves s t \<and>
     (\<forall>x. x \<noteq> b \<longrightarrow> rcvd t x = rcvd s x \<and> (\<forall>c'. conn_at x t = Some c' \<longrightarrow> (\<exists>c. conn_at x s = Some c \<and> calm c c')))"

lemma takes_only:
  assumes "takes est_state b d n s t"
  shows "only_input b s t"
proof -
  have ev: "evolve est_state s t" using assms by (simp add: takes_def)
  have "\<exists>c. conn_at x s = Some c \<and> calm c c'" if "x \<noteq> b" "conn_at x t = Some c'" for x c'
    using evolve_conn [OF ev that(2)] that assms by (auto simp: takes_def est_state_def calm_def)
  moreover have "evolve moves s t" using ev by (rule evolve_mono) (simp add: est_state_def)
  ultimately show ?thesis using assms by (simp add: only_input_def takes_def)
qed

lemma accepts_only:
  assumes "accepts b s t"
  shows "only_input b s t"
proof -
  have ev: "evolve moves s t" using assms by (simp add: accepts_def)
  have "\<exists>c. conn_at x s = Some c \<and> calm c c'" if "x \<noteq> b" "conn_at x t = Some c'" for x c'
    using evolve_conn [OF ev that(2)] that assms by (fastforce simp: accepts_def)
  with ev assms show ?thesis by (simp add: only_input_def accepts_def)
qed

lemma only_trans: "only_input b s t \<Longrightarrow> only_input b t u \<Longrightarrow> only_input b s u"
  unfolding only_input_def using evolve_trans [of moves s t u] moves_trans calm_trans by (metis (no_types, lifting))

context tcp_client
begin

lemma input_only: "yields (tcp_input e b g s) (only_input b s)"
proof (cases "conn_at b s")
  case None
  then show ?thesis by (simp add: tcp_input_def yield_simps)
next
  case (Some c)
  let ?busy = "\<not> has_flag (g_flags g) TCP_RST \<and> has_flag (g_flags g) TCP_ACK"
  have est: "yields (tcp_established e b g cbd t) (only_input b t)" if "\<And>c. conn_at b t = Some c \<Longrightarrow> c_status c = ESTABLISHED" for t cbd
  proof (cases "conn_at b t")
    case None
    then show ?thesis by (simp add: tcp_established_def yield_simps)
  next
    case (Some c)
    show ?thesis
      by (cases "tcp_trim (c_peer_seq c) (g_seq g) (g_data g) (g_size g)")
        (auto intro: yields_mono [OF takes_established [OF Some that [OF Some]]] takes_only)
  qed
  show ?thesis
  proof (cases "?busy \<and> (c_status c = SYN_RCVD \<or> c_status c = ESTABLISHED)")
    case False
    then have "yields (tcp_input e b g s) (calmly s)" by (intro calm_input [OF Some]) auto
    then show ?thesis by (rule yields_mono) (simp add: calmly_takes [of s _ b] takes_only)
  next
    case busy: True
    show ?thesis
    proof (cases "c_status c = ESTABLISHED")
      case True
      then show ?thesis using busy Some est [of s] by (simp add: tcp_input_def Let_def)
    next
      case False
      then have syn: "c_status c = SYN_RCVD" using busy by simp
      have "only_input b s t \<and> yields (tcp_established e b g cbd t) (only_input b s)" if "accepts b s t" for t cbd
      proof -
        have "\<And>c'. conn_at b t = Some c' \<Longrightarrow> c_status c' = ESTABLISHED"
          using that Some evolve_conn [of moves s t b] by (auto simp: accepts_def)
        then have "yields (tcp_established e b g cbd t) (only_input b t)" by (rule est)
        then show ?thesis using accepts_only [OF that] by (auto elim!: yields_mono intro: only_trans)
      qed
      then show ?thesis
        using busy syn Some accepts_accept [OF Some syn]
        by (fastforce simp: tcp_input_def Let_def yields_def bind_eq_Some_conv split: if_splits)
    qed
  qed
qed

lemma step_wf:
  assumes "net_step e ev s t" and "net_wf s"
  shows "net_wf t" and "\<And>a c'. a < next_addr s \<Longrightarrow> conn_at a t = Some c' \<Longrightarrow> \<exists>c. conn_at a s = Some c \<and> moves c c'"
    and "next_addr s \<le> next_addr t"
proof -
  have "net_wf t \<and> (\<forall>a c'. a < next_addr s \<longrightarrow> conn_at a t = Some c' \<longrightarrow> (\<exists>c. conn_at a s = Some c \<and> moves c c')) \<and> next_addr s \<le> next_addr t"
  proof -
    have ev: ?thesis if "evolve moves s t"
      using evolve_wf [OF that assms(2)] evolve_conn [OF that] that by (fastforce simp: evolve_def)
    from assms(1) show ?thesis
    proof (cases rule: net_step.cases)
      case (packet rx len et)
      from packet(2) show ?thesis
      proof (cases rule: receive_cases)
        case (2 c)
        note new = opens_wf [OF assms(2) 2]
        have "moves d d'" if "a < next_addr s" "conn_at a s = Some d" "conn_at a t = Some d'" for a d d'
          using that new(2) assms(2) by (auto simp: net_wf_def)
        with new(1,2) 2(1) show ?thesis by (auto simp: opens_def)
      next
        case (3 g a)
        have "only_input a s t" using input_only 3(3) by (rule yieldsD)
        then show ?thesis by (intro ev) (simp add: only_input_def)
      qed (use assms(2) in simp)
    next
      case check
      have "calmly s t" using calm_periodic_check check(2) by (rule yieldsD)
      then show ?thesis by (intro ev calmly_moves)
    next
      case app
      from app_step_quietly [OF app(2)] show ?thesis by (intro ev calmly_moves quietly_calmly)
    qed
  qed
  then show "net_wf t" "\<And>a c'. a < next_addr s \<Longrightarrow> conn_at a t = Some c' \<Longrightarrow> \<exists>c. conn_at a s = Some c \<and> moves c c'"
    "next_addr s \<le> next_addr t" by blast+
qed

lemma run_wf:
  assumes "net_run e evs s t" and "net_wf s"
  shows "net_wf t" and "\<And>a c'. a < next_addr s \<Longrightarrow> conn_at a t = Some c' \<Longrightarrow> \<exists>c. conn_at a s = Some c \<and> moves c c'"
    and "next_addr s \<le> next_addr t"
proof -
  have "net_wf t \<and> (\<forall>a c'. a < next_addr s \<longrightarrow> conn_at a t = Some c' \<longrightarrow> (\<exists>c. conn_at a s = Some c \<and> moves c c')) \<and> next_addr s \<le> next_addr t"
    using assms
  proof (induction rule: net_run.induct)
    case (snoc evs s t ev u)
    note IH = snoc.IH [OF snoc.prems]
    note st = step_wf [OF snoc.hyps(2)]
    have "\<exists>c. conn_at a s = Some c \<and> moves c c'" if a: "a < next_addr s" "conn_at a u = Some c'" for a c'
    proof -
      have "a < next_addr t" using a(1) IH by linarith
      then obtain d where d: "conn_at a t = Some d" "moves d c'" using st(2) a(2) IH by blast
      then obtain c where "conn_at a s = Some c" "moves c d" using IH a(1) by blast
      with d(2) show ?thesis using moves_trans by blast
    qed
    moreover have "net_wf u" "next_addr t \<le> next_addr u" using st IH by blast+
    ultimately show ?case using IH by auto
  qed simp
  then show "net_wf t" "\<And>a c'. a < next_addr s \<Longrightarrow> conn_at a t = Some c' \<Longrightarrow> \<exists>c. conn_at a s = Some c \<and> moves c c'"
    "next_addr s \<le> next_addr t" by blast+
qed

text \<open>The packets of a connection come from the peer's stream.\<close>

lemma in_stream_step:
  assumes step: "net_step e ev s t" and wf: "net_wf s" and "in_stream a base strm s" and a: "a < next_addr s" and "length strm < 2 ^ 31"
    and peer: "\<And>c rx len et g. conn_at a s = Some c \<Longrightarrow> ev = Packet rx len et \<Longrightarrow> tcp_parse rx len = Some (Some g)
      \<Longrightarrow> conn_key c = (g_sip g, g_src g, g_dst g) \<Longrightarrow> segment_of base strm g"
  shows "in_stream a base strm t"
  using step
proof (cases rule: net_step.cases)
  case (packet rx len et)
  from packet(2) show ?thesis
  proof (cases rule: receive_cases)
    case (2 c)
    have "conn_at a t = conn_at a s" by (rule opens_wf(2) [OF wf 2(1) _ a]) (rule 2(2))
    moreover have "rcvd t = rcvd s" by (rule opens_wf(3) [OF wf 2(1)]) (rule 2(2))
    ultimately show ?thesis by (intro in_stream_calm [OF assms(3)]) (metis, metis calm_refl)
  next
    case (3 g b)
    have only: "only_input b s t" using input_only 3(3) by (rule yieldsD)
    obtain c where c: "(b, c) \<in> set (conn_head s)" "conn_key c = (g_sip g, g_src g, g_dst g)" using conn_find_Some [OF 3(2)] by blast
    then have at: "conn_at b s = Some c" using wf unfolding net_wf_def addrs_def conn_at_def by (intro map_of_is_SomeI) (elim conjE, assumption)
    show ?thesis
    proof (cases "b = a")
      case True
      then have "segment_of base strm g" using at by (intro peer [OF _ packet(1) 3(1) c(2)]) simp
      then have "yields (tcp_input e a g s) (in_stream a base strm)" by (rule in_stream_input [OF assms(3) _ assms(5)])
      then show ?thesis using 3(3) True by (simp add: yields_def)
    next
      case False
      then show ?thesis using only by (intro in_stream_calm [OF assms(3)]) (auto simp: only_input_def)
    qed
  qed (use assms(3) in simp)
next
  case check
  have "calmly s t" using calm_periodic_check check(2) by (rule yieldsD)
  then show ?thesis by (rule in_stream_calmly) (rule assms(3))
next
  case app
  from app_step_quietly [OF app(2)] show ?thesis by (intro in_stream_calmly [OF _ assms(3)] quietly_calmly)
qed

end

end
