(* ===== verification/Cstr.thy ===== *)
theory Cstr
  imports Strto
begin

text \<open>
  C strings in memory (\<^verbatim>\<open>lib/string.c\<close>). A pointer is an offset into a block of memory; running past the end of the
  block has no meaning. A search returns \<open>Some None\<close> for the NULL pointer.
\<close>

definition str :: "string \<Rightarrow> bytes" where
  "str s = map of_char s"

primrec memcmp_eq :: "bytes \<Rightarrow> nat \<Rightarrow> bytes \<Rightarrow> bool option" where
  "memcmp_eq m i [] = Some True"
| "memcmp_eq m i (c # cs) = do { b \<leftarrow> arr_get m i; if b \<noteq> c then Some False else memcmp_eq m (Suc i) cs }"

text \<open>
  \<^verbatim>\<open>strcmp\<close> with a string constant, and \<^verbatim>\<open>strncmp\<close> with a constant of as many characters as are
  compared: the latter stops at the first difference, so it reads what \<^verbatim>\<open>memcmp\<close> reads.
\<close>

definition strcmp_eq :: "bytes \<Rightarrow> nat \<Rightarrow> bytes \<Rightarrow> bool option" where
  "strcmp_eq m i s = memcmp_eq m i (s @ [0])"

definition strncmp_eq :: "bytes \<Rightarrow> nat \<Rightarrow> bytes \<Rightarrow> bool option" where
  "strncmp_eq m i s = memcmp_eq m i s"

definition strlen :: "bytes \<Rightarrow> nat \<Rightarrow> nat option" where
  "strlen m i = (let n = length (takeWhile (\<lambda>b. b \<noteq> 0) (drop i m)) in if i + n < length m then Some n else None)"

definition strchr :: "bytes \<Rightarrow> nat \<Rightarrow> u8 \<Rightarrow> nat option option" where
  "strchr m i c =
     (let j = i + length (takeWhile (\<lambda>b. b \<noteq> c \<and> b \<noteq> 0) (drop i m))
      in do { b \<leftarrow> arr_get m j; Some (if b = c then Some j else None) })"

text \<open>The loop of \<^verbatim>\<open>strstr\<close> and of \<^verbatim>\<open>memstr\<close>, with the number of bytes that are left.\<close>

primrec search :: "bytes \<Rightarrow> bytes \<Rightarrow> nat \<Rightarrow> nat \<Rightarrow> nat option option" where
  "search m s i 0 = Some (if s = [] then Some i else None)"
| "search m s i (Suc l) =
     (if Suc l < length s then Some None
      else do { eq \<leftarrow> memcmp_eq m i s; if eq then Some (Some i) else search m s (Suc i) l })"

definition strstr :: "bytes \<Rightarrow> nat \<Rightarrow> bytes \<Rightarrow> nat option option" where
  "strstr m i s = (if s = [] then Some (Some i) else do { l \<leftarrow> strlen m i; search m s i l })"

section \<open>What the searches find\<close>

lemma str_append [simp]: "str (a @ b) = str a @ str b"
  by (simp add: str_def)

lemma length_str [simp]: "length (str s) = length s"
  by (simp add: str_def)

lemma unat_of_char: "unat (of_char c :: u8) = of_char c"
proof -
  have "(of_char c :: u8) = of_nat (of_char c)" by (rule of_nat_of_char [symmetric])
  then show ?thesis by (simp only: unat_of_nat) simp
qed

lemma char_str: "map (\<lambda>b. char_of (unat b)) (str s) = s"
  by (induction s) (simp_all add: str_def unat_of_char)

lemma arr_get_append [simp]:
  "arr_get (xs @ ys) (length xs) = arr_get ys 0" "arr_get (xs @ ys) (length xs + i) = arr_get ys i" "arr_get (xs @ ys) (Suc (length xs)) = arr_get ys 1"
  "arr_get (xs @ ys) (Suc (Suc (length xs))) = arr_get ys 2"
  by (simp_all add: arr_get_def nth_append Suc_diff_le numeral_2_eq_2)

lemma arr_get_Cons [simp]: "arr_get (x # xs) 0 = Some x" "arr_get (x # xs) (Suc i) = arr_get xs i" "arr_get (x # xs) (numeral n) = arr_get xs (pred_numeral n)"
  by (simp_all add: arr_get_def)

lemma memcmp_eq_take: "i + length s \<le> length m \<Longrightarrow> memcmp_eq m i s = Some (take (length s) (drop i m) = s)"
proof (induction s arbitrary: i)
  case (Cons c s)
  then have "drop i m = m ! i # drop (Suc i) m" by (simp add: Cons_nth_drop_Suc)
  with Cons show ?case by (auto simp: arr_get_def)
qed simp

lemma memcmp_eq_differs: "j < length s \<Longrightarrow> i + j < length m \<Longrightarrow> m ! (i + j) \<noteq> s ! j \<Longrightarrow> memcmp_eq m i s = Some False"
proof (induction s arbitrary: i j)
  case (Cons c s)
  show ?case
  proof (cases j)
    case (Suc k)
    then have "memcmp_eq m (Suc i) s = Some False" using Cons.prems by (intro Cons.IH [of k]) auto
    with Cons.prems Suc show ?thesis by (auto simp: arr_get_def)
  qed (use Cons.prems in \<open>auto simp: arr_get_def\<close>)
qed simp

lemma memcmp_eq_append: "memcmp_eq (xs @ ys) (length xs + i) s = memcmp_eq ys i s"
proof (induction s arbitrary: i)
  case (Cons c s)
  have "memcmp_eq (xs @ ys) (Suc (length xs + i)) s = memcmp_eq ys (Suc i) s" using Cons [of "Suc i"] by simp
  then show ?case by (cases "arr_get ys i") simp_all
qed simp

lemma memcmp_eq_start: "memcmp_eq (xs @ s @ ys) (length xs) s = Some True"
  by (simp add: memcmp_eq_take)

text \<open>A pattern occurs in a text at a position.\<close>

definition occurs_at :: "bytes \<Rightarrow> bytes \<Rightarrow> nat \<Rightarrow> bool" where
  "occurs_at s t j \<longleftrightarrow> j + length s \<le> length t \<and> take (length s) (drop j t) = s"

lemma search_first:
  assumes "occurs_at s m k" and "i \<le> k" and "\<And>j. i \<le> j \<Longrightarrow> j < k \<Longrightarrow> \<not> occurs_at s m j" and "k - i + length s \<le> l"
  shows "search m s i l = Some (Some k)"
  using assms
proof (induction l arbitrary: i)
  case 0
  then have "s = []" "k = i" by (cases s; simp add: occurs_at_def)+
  then show ?case by simp
next
  case (Suc l)
  have b: "i + length s \<le> length m" "k + length s \<le> length m" using Suc.prems by (simp_all add: occurs_at_def)
  show ?case
  proof (cases "i = k")
    case True
    with Suc.prems b show ?thesis by (auto simp: memcmp_eq_take occurs_at_def)
  next
    case False
    then have "search m s (Suc i) l = Some (Some k)" using Suc.prems by (intro Suc.IH) auto
    moreover have "memcmp_eq m i s = Some False" using Suc.prems(2) Suc.prems(3) [of i] False b by (auto simp: memcmp_eq_take occurs_at_def)
    ultimately show ?thesis using Suc.prems(2,4) False by simp
  qed
qed

lemma search_none:
  assumes "s \<noteq> []" and "i + l \<le> length m" and "\<And>j. i \<le> j \<Longrightarrow> j + length s \<le> i + l \<Longrightarrow> \<not> occurs_at s m j"
  shows "search m s i l = Some None"
  using assms
proof (induction l arbitrary: i)
  case (Suc l)
  then have "search m s (Suc i) l = Some None" by (intro Suc.IH) auto
  moreover have "memcmp_eq m i s = Some False" if "length s \<le> Suc l" using Suc.prems(2) Suc.prems(3) [of i] that by (auto simp: memcmp_eq_take occurs_at_def)
  ultimately show ?case by auto
qed simp

lemma strlen_split: "0 \<notin> set s \<Longrightarrow> strlen (xs @ s @ 0 # ys) (length xs) = Some (length s)"
proof -
  assume "0 \<notin> set s"
  then have "takeWhile (\<lambda>b. b \<noteq> 0) (s @ 0 # ys) = s" by (induction s) auto
  then show ?thesis by (simp add: strlen_def)
qed

lemma strchr_found: "c \<notin> set s \<Longrightarrow> 0 \<notin> set s \<Longrightarrow> c \<noteq> 0 \<Longrightarrow> strchr (xs @ s @ c # ys) (length xs) c = Some (Some (length xs + length s))"
proof -
  assume "c \<notin> set s" "0 \<notin> set s"
  then have "takeWhile (\<lambda>b. b \<noteq> c \<and> b \<noteq> 0) (s @ c # ys) = s" by (induction s) auto
  then show ?thesis by (simp add: strchr_def)
qed

lemma strchr_none: "c \<notin> set s \<Longrightarrow> 0 \<notin> set s \<Longrightarrow> c \<noteq> 0 \<Longrightarrow> strchr (xs @ s @ 0 # ys) (length xs) c = Some None"
proof -
  assume "c \<notin> set s" "0 \<notin> set s" and "c \<noteq> 0"
  then have "takeWhile (\<lambda>b. b \<noteq> c \<and> b \<noteq> 0) (s @ 0 # ys) = s" by (induction s) auto
  then show ?thesis using \<open>c \<noteq> 0\<close> by (simp add: strchr_def)
qed

text \<open>A pattern in a piece of a text, and in the piece alone.\<close>

lemma occurs_at_inner:
  assumes "j + length s \<le> length t"
  shows "occurs_at s (xs @ t @ ys) (length xs + j) \<longleftrightarrow> occurs_at s t j"
  using assms by (simp add: occurs_at_def)

lemma strstr_found:
  assumes "s \<noteq> []" and "0 \<notin> set t" and "occurs_at s t k" and "\<And>j. j < k \<Longrightarrow> \<not> occurs_at s t j"
  shows "strstr (xs @ t @ 0 # ys) (length xs) s = Some (Some (length xs + k))"
proof -
  have b: "k + length s \<le> length t" using assms(3) by (simp add: occurs_at_def)
  have "search (xs @ t @ 0 # ys) s (length xs) (length t) = Some (Some (length xs + k))"
  proof (rule search_first)
    show "occurs_at s (xs @ t @ 0 # ys) (length xs + k)" using occurs_at_inner [OF b] assms(3) by blast
    fix j
    assume j: "length xs \<le> j" "j < length xs + k"
    then obtain i where "j = length xs + i" "i < k" using le_Suc_ex by fastforce
    then show "\<not> occurs_at s (xs @ t @ 0 # ys) j" using occurs_at_inner [of i s t xs "0 # ys"] assms(4) b by simp
  qed (use b in simp_all)
  then show ?thesis using assms(1) strlen_split [OF assms(2)] by (simp add: strstr_def)
qed

lemma strstr_none:
  assumes "s \<noteq> []" and "0 \<notin> set t" and "\<And>j. \<not> occurs_at s t j"
  shows "strstr (xs @ t @ 0 # ys) (length xs) s = Some None"
proof -
  have "search (xs @ t @ 0 # ys) s (length xs) (length t) = Some None"
  proof (rule search_none [OF assms(1)])
    fix j
    assume j: "length xs \<le> j" "j + length s \<le> length xs + length t"
    then obtain i where "j = length xs + i" "i + length s \<le> length t" using le_Suc_ex by fastforce
    then show "\<not> occurs_at s (xs @ t @ 0 # ys) j" using occurs_at_inner [of i s t xs "0 # ys"] assms(3) by simp
  qed simp
  then show ?thesis using assms(1) strlen_split [OF assms(2)] by (simp add: strstr_def)
qed

lemma str_eq_iff: "str a = str b \<longleftrightarrow> a = b"
  by (metis char_str)

text \<open>Comparing a string in memory with a name.\<close>

lemma memcmp_name:
  assumes "take (length nm + 1) (drop no m) = nm @ [0]" and "0 \<notin> set nm" and "0 \<notin> set x"
  shows "memcmp_eq m no (x @ [0]) = Some (nm = x)"
  using assms
proof (induction x arbitrary: nm no)
  case Nil
  have "drop no m \<noteq> []" using Nil.prems(1) by auto
  then obtain c where c: "arr_get m no = Some c" "take 1 (drop no m) = [c]" by (auto simp: arr_get_def hd_drop_conv_nth take_Suc)
  have "c = 0 \<longleftrightarrow> nm = []" using Nil.prems(1,2) c(2) by (cases nm; cases "drop no m") auto
  with c(1) show ?case by simp
next
  case (Cons y x)
  have "drop no m \<noteq> []" using Cons.prems(1) by auto
  then have d: "drop no m = m ! no # drop (Suc no) m" "no < length m" by (simp_all add: Cons_nth_drop_Suc)
  show ?case
  proof (cases nm)
    case Nil
    then show ?thesis using Cons.prems(1,3) d by (auto simp: arr_get_def)
  next
    case (Cons w nm')
    have "m ! no = w" "take (length nm' + 1) (drop (Suc no) m) = nm' @ [0]" using Cons Cons.prems(1) d(1) by simp_all
    then show ?thesis using Cons.IH [of nm' "Suc no"] Cons.prems(2,3) Cons d(2) by (auto simp: arr_get_def)
  qed
qed

end
