(* ===== verification/Tcp_Run.thy ===== *)
theory Tcp_Run
  imports Tcp_Conn Cstr
begin

text \<open>
  Runs of the TCP stack: the properties of every sequence of packets, periodic checks and calls of the
  application, and the options of the packet that opens a connection.
\<close>

section \<open>Every run\<close>


text \<open>An application that does nothing, the state with one connection whose handshake is not finished, and a segment from its peer.\<close>

abbreviation idle_env :: "(unit, unit, unit) tcp_env" where
  "idle_env \<equiv> demo_env (\<lambda>_ cbd s. Some (cbd, s)) (\<lambda>_ _ _ _. None)"

abbreviation syn_net :: "(unit, unit, unit) net" where
  "syn_net \<equiv> demo_net [(0x5000, ())] [demo_conn ()\<lparr>c_status := SYN_RCVD, c_port_remote := 0x3412, c_peer_seq := 6, c_local_seq := 8\<rparr>] ()"

abbreviation demo_packet :: bytes where
  "demo_packet \<equiv> [69, 0, 0, 43, 0, 1, 64, 0, 255, 6, 0, 0, 192, 168, 1, 2, 192, 168, 1, 1,
     18, 52, 0, 80, 0, 0, 0, 7, 0, 0, 0, 9, 80, 16, 31, 64, 118, 103, 0, 0, 65, 66, 67]"


lemma idle_client: "tcp_client (demo_env (\<lambda>_ cbd s. Some (cbd, s)) load)"
  by unfold_locales (simp add: demo_env_def)

lemma demo_net_wf: "c_status c \<in> live_states \<Longrightarrow> c_mss c \<le> 1460 \<Longrightarrow> c_peer_ws c \<le> 14 \<Longrightarrow> tx_null c \<Longrightarrow> p \<noteq> 0 \<Longrightarrow> net_wf (demo_net [(p, k)] [c] a)"
  by (auto simp: net_wf_def demo_net_def addrs_def conn_at_def listen_ok_def conn_ok_def split: if_splits)

lemma syn_net_wf: "net_wf syn_net"
  by (rule demo_net_wf) (simp_all add: demo_conn_def live_states_def tx_null_def)

lemma syn_net_run: "\<exists>t. receive_tcp idle_env demo_packet 43 [] syn_net = Some t \<and> net_run idle_env [Packet demo_packet 43 []] syn_net t
  \<and> map_option c_status (conn_at 0 t) = Some ESTABLISHED \<and> rcvd t 0 = [65, 66, 67]"
proof -
  have "(case receive_tcp idle_env demo_packet 43 [] syn_net of None \<Rightarrow> False
    | Some t \<Rightarrow> map_option c_status (conn_at 0 t) = Some ESTABLISHED \<and> rcvd t 0 = [65, 66, 67])" by code_simp
  then obtain t where t: "receive_tcp idle_env demo_packet 43 [] syn_net = Some t" "map_option c_status (conn_at 0 t) = Some ESTABLISHED" "rcvd t 0 = [65, 66, 67]"
    by (auto split: option.splits)
  have "net_run idle_env ([] @ [Packet demo_packet 43 []]) syn_net t" by (rule net_run.snoc [OF net_run.nil net_step.packet]) (rule t(1))
  with t show ?thesis by auto
qed


text \<open>
  C4: Delivery. A peer opens a connection and sends a stream of bytes, shorter than 2 GiB, in segments of its choice: overlapping,
  repeated, reordered, some of them lost. Whatever other packets arrive and whatever the application does, what
  the application is handed on this connection is always a prefix of the stream: in order, without gaps, and no byte twice; and the
  stack then expects the first byte behind this prefix.
\<close>

theorem tcp_in_order_delivery:
  assumes "tcp_client e" and "net_wf s" and "conn_at a s = Some c" and "c_status c = SYN_RCVD" and "rcvd s a = []"
    and "length strm < 2 ^ 31" and "net_run e evs s t"
    and "\<forall>rx len et g. Packet rx len et \<in> set evs \<longrightarrow> tcp_parse rx len = Some (Some g) \<longrightarrow> (g_sip g, g_src g, g_dst g) = conn_key c
      \<longrightarrow> segment_of (c_peer_seq c + 1) strm g"
  shows "prefix (rcvd t a) strm \<and> (\<forall>c'. conn_at a t = Some c' \<and> c_status c' \<noteq> SYN_RCVD \<longrightarrow>
    c_peer_seq c' = c_peer_seq c + 1 + of_nat (length (rcvd t a)))"
proof -
  let ?base = "c_peer_seq c + 1"
  have a: "a < next_addr s" using assms(2,3) by (auto simp: net_wf_def)
  have "in_stream a ?base strm t" using assms(7,2-5,8) a
  proof (induction rule: net_run.induct)
    case (nil s)
    then show ?case by (simp add: in_stream_def)
  next
    case (snoc evs s t ev u)
    note run = tcp_client.run_wf [OF assms(1) snoc.hyps(1) snoc.prems(1)]
    have IH: "in_stream a ?base strm t"
    proof (rule snoc.IH [OF snoc.prems(1-4) _ snoc.prems(6)])
      show "\<forall>rx len et g. Packet rx len et \<in> set evs \<longrightarrow> tcp_parse rx len = Some (Some g) \<longrightarrow> (g_sip g, g_src g, g_dst g) = conn_key c
        \<longrightarrow> segment_of ?base strm g" using snoc.prems(5) by (metis UnCI set_append)
    qed
    show ?case
    proof (rule tcp_client.in_stream_step [OF assms(1) snoc.hyps(2) run(1) IH _ assms(6)])
      show "a < next_addr t" using run(3) snoc.prems(6) by linarith
    next
      fix d rx len et g
      assume "conn_at a t = Some d" "ev = Packet rx len et" "tcp_parse rx len = Some (Some g)" "conn_key d = (g_sip g, g_src g, g_dst g)"
      moreover have "conn_key d = conn_key c" using run(2) [OF snoc.prems(6)] calculation(1) snoc.prems(2) by (fastforce simp: moves_def)
      ultimately show "segment_of ?base strm g" using snoc.prems(5) by (metis in_set_conv_decomp)
    qed
  qed
  then show ?thesis unfolding in_stream_def by (intro conjI allI impI) (blast, presburger)
qed

theorem tcp_in_order_delivery_witness:
  "\<exists>t. receive_tcp idle_env demo_packet 43 [] syn_net = Some t \<and> prefix (rcvd t 0) [65, 66, 67, 68] \<and> rcvd t 0 = [65, 66, 67]"
proof -
  obtain t where t: "receive_tcp idle_env demo_packet 43 [] syn_net = Some t" "net_run idle_env [Packet demo_packet 43 []] syn_net t"
    "rcvd t 0 = [65, 66, 67]" using syn_net_run by blast
  let ?c = "demo_conn ()\<lparr>c_status := SYN_RCVD, c_port_remote := 0x3412, c_peer_seq := 6, c_local_seq := 8\<rparr> :: (unit, unit) tcp_conn"
  have "(case tcp_parse demo_packet 43 of Some (Some g) \<Rightarrow> g_seq g = 7 \<and> g_size g = 3 \<and> g_data g = [65, 66, 67] | _ \<Rightarrow> False)" by code_simp
  then have "segment_of (c_peer_seq ?c + 1) [65, 66, 67, 68] g" if "tcp_parse demo_packet 43 = Some (Some g)" for g
    using that by (auto simp: segment_of_def intro!: exI [of _ 0])
  then have "prefix (rcvd t 0) [65, 66, 67, 68]"
    using tcp_in_order_delivery [OF idle_client syn_net_wf _ _ _ _ t(2), of 0 ?c "[65, 66, 67, 68]"]
    by (auto simp: demo_net_def conn_at_def rcvd_def)
  with t show ?thesis by blast
qed

section \<open>Options\<close>











end
