(* ===== verification/Httpd.thy ===== *)
theory Httpd
  imports Tcp_Run Cstr
begin

text \<open>
  The HTTP server of the web failsafe (\<^verbatim>\<open>net/httpd.c\<close>), an application of the TCP stack.

  \<^item> Memory is a set of blocks (\<open>obj\<close>): the buffer inside a connection's data (\<open>Pbuf\<close>), the memory
    from \<^verbatim>\<open>CONFIG_SYS_SDRAM_BASE + 0x10000\<close> on, where uploads go (\<open>Ram\<close>), constants (\<open>Rodata\<close>) and what
    handlers allocate (\<open>Heap\<close>). A pointer is a block and an offset; pointers that only ever point into the
    connection's own buffer (\<^verbatim>\<open>uri\<close>, \<^verbatim>\<open>boundary\<close>) are offsets.
  \<^item> A connection's data and URI handlers are known by their addresses. An instance is known by
    its port, which is unique.
  \<^item> \<open>httpd_env\<close> has what the server is run with: the numbers \<^verbatim>\<open>rand\<close> returns and the functions
    behind the URI handlers' callbacks, which get the address of the connection's data, where the
    request and the response are. \<open>ext\<close> is the state of these functions.
  \<^item> \<open>printf\<close> and \<open>assert\<close> are left out.
\<close>

section \<open>Data\<close>

datatype obj = Pbuf nat | Ram | Rodata bytes | Heap nat

type_synonym ptr = "obj \<times> nat"

datatype httpd_request_method = HTTP_GET | HTTP_POST

datatype httpd_uri_handler_status = HTTP_CB_NEW | HTTP_CB_RESPONDING | HTTP_CB_CLOSED

datatype httpd_response_status = HTTP_RESP_NONE | HTTP_RESP_STD | HTTP_RESP_CUSTOM

datatype httpd_session_status = HTTPD_S_NEW | HTTPD_S_HEADER_RECVING | HTTPD_S_PAYLOAD_RECVING | HTTPD_S_FULL_RCVD
  | HTTPD_S_RESPONDING | HTTPD_S_CLOSING

record httpd_form_value =
  fv_name :: "ptr option"
  fv_data :: "ptr option"
  fv_filename :: "ptr option"
  fv_size :: u32

text \<open>A pointer to a URI handler: the server's own dummy or a registered one.\<close>

datatype urih_ptr = Dummy_urih | Urih nat

record httpd_request =
  rq_method :: httpd_request_method
  rq_urih :: "urih_ptr option"
  rq_count :: u32
  rq_values :: "httpd_form_value list"

record http_response_info =
  ri_code :: u32
  ri_content_type :: "string option"
  ri_content_length :: int
  ri_location :: "string option"
  ri_connection_close :: bool
  ri_chunked_encoding :: bool
  ri_http_1_0 :: bool

record httpd_response =
  rs_status :: httpd_response_status
  rs_info :: http_response_info
  rs_data :: "ptr option"
  rs_size :: u32
  rs_session_data :: "nat option"

record httpd_tcp_pdata =
  pd_status :: httpd_session_status
  pd_buf :: bytes
  pd_bufsize :: u32
  pd_uri :: "nat option"
  pd_boundary :: "nat option"
  pd_is_uploading :: bool
  pd_upload_ptr :: "ptr option"
  pd_payload_size :: u32
  pd_upload_size :: u32
  pd_request :: httpd_request
  pd_response :: httpd_response
  pd_resp_std_cnt :: int

record 'h httpd_instance =
  i_port :: u16
  i_uri_handlers :: "(nat \<times> string \<times> 'h) list"

record ('h, 'x) httpd =
  inst_head :: "'h httpd_instance list"
  upload_id :: u32
  is_uploading :: bool
  pdatas :: "nat \<rightharpoonup> httpd_tcp_pdata"
  heap :: "nat \<rightharpoonup> bytes"
  next_ptr :: nat
  ram :: bytes
  rands :: nat
  ext :: 'x

type_synonym ('h, 'x) hnet = "(ptr, unit, ('h, 'x) httpd) net"
type_synonym ('h, 'x) henv = "(ptr, unit, ('h, 'x) httpd) tcp_env"

record ('h, 'x) httpd_env =
  hd_rand :: "nat \<Rightarrow> u32"
  hd_call :: "'h \<Rightarrow> httpd_uri_handler_status \<Rightarrow> nat \<Rightarrow> ('h, 'x) hnet \<Rightarrow> ('h, 'x) hnet option"

abbreviation (input) MAX_HTTP_FORM_VALUE_ITEMS :: nat where "MAX_HTTP_FORM_VALUE_ITEMS \<equiv> 5"
abbreviation (input) BUFSZ :: nat where "BUFSZ \<equiv> 4096"
abbreviation (input) CRLF :: bytes where "CRLF \<equiv> [13, 10]"

definition http_resp_codes :: "(u32 \<times> string) list" where
  "http_resp_codes =
     [(200, ''OK''), (302, ''Found''), (307, ''Temporary Redirect''), (400, ''Bad Request''), (403, ''Forbidden''), (404, ''Not Found''),
      (405, ''Method Not Allowed''), (413, ''Request Entity Too Large''), (431, ''Request Header Fields Too Large''),
      (500, ''Internal Server Error''), (503, ''Service Unavailable'')]"

text \<open>What \<^verbatim>\<open>calloc\<close> returns.\<close>

definition zero_form_value :: httpd_form_value where
  "zero_form_value = \<lparr>fv_name = None, fv_data = None, fv_filename = None, fv_size = 0\<rparr>"

definition zero_pdata :: httpd_tcp_pdata where
  "zero_pdata = \<lparr>pd_status = HTTPD_S_NEW, pd_buf = replicate BUFSZ 0, pd_bufsize = 0, pd_uri = None, pd_boundary = None,
     pd_is_uploading = False, pd_upload_ptr = None, pd_payload_size = 0, pd_upload_size = 0,
     pd_request = \<lparr>rq_method = HTTP_GET, rq_urih = None, rq_count = 0, rq_values = replicate MAX_HTTP_FORM_VALUE_ITEMS zero_form_value\<rparr>,
     pd_response = \<lparr>rs_status = HTTP_RESP_NONE,
       rs_info = \<lparr>ri_code = 0, ri_content_type = None, ri_content_length = 0, ri_location = None, ri_connection_close = False,
         ri_chunked_encoding = False, ri_http_1_0 = False\<rparr>,
       rs_data = None, rs_size = 0, rs_session_data = None\<rparr>,
     pd_resp_std_cnt = 0\<rparr>"

section \<open>Memory\<close>

definition on_app :: "('a \<Rightarrow> 'a) \<Rightarrow> ('p, 'k, 'a) net \<Rightarrow> ('p, 'k, 'a) net" where
  "on_app f s = s\<lparr>app := f (app s)\<rparr>"

definition pd_at :: "nat \<Rightarrow> ('h, 'x) hnet \<Rightarrow> httpd_tcp_pdata option" where
  "pd_at i s = pdatas (app s) i"

definition pd_put :: "nat \<Rightarrow> httpd_tcp_pdata \<Rightarrow> ('h, 'x) hnet \<Rightarrow> ('h, 'x) hnet" where
  "pd_put i pd = on_app (\<lambda>a. a\<lparr>pdatas := (pdatas a)(i \<mapsto> pd)\<rparr>)"

definition pd_free :: "nat \<Rightarrow> ('h, 'x) hnet \<Rightarrow> ('h, 'x) hnet" where
  "pd_free i = on_app (\<lambda>a. a\<lparr>pdatas := (pdatas a)(i := None)\<rparr>)"

definition httpd_alloc :: "('h, 'x) henv \<Rightarrow> ('h, 'x) hnet \<Rightarrow> nat option \<times> ('h, 'x) hnet" where
  "httpd_alloc e s =
     (if e_malloc e s then (Some (next_ptr (app s)), on_app (\<lambda>a. a\<lparr>next_ptr := Suc (next_ptr a)\<rparr>) s) else (None, s))"

fun obj_bytes :: "obj \<Rightarrow> ('h, 'x) httpd \<Rightarrow> bytes option" where
  "obj_bytes (Pbuf i) a = map_option pd_buf (pdatas a i)"
| "obj_bytes Ram a = Some (ram a)"
| "obj_bytes (Rodata b) a = Some b"
| "obj_bytes (Heap i) a = heap a i"

fun obj_set :: "obj \<Rightarrow> bytes \<Rightarrow> ('h, 'x) hnet \<Rightarrow> ('h, 'x) hnet option" where
  "obj_set (Pbuf i) b s = do { pd \<leftarrow> pd_at i s; Some (pd_put i (pd\<lparr>pd_buf := b\<rparr>) s) }"
| "obj_set Ram b s = Some (on_app (\<lambda>a. a\<lparr>ram := b\<rparr>) s)"
| "obj_set (Rodata _) b s = None"
| "obj_set (Heap i) b s = Some (on_app (\<lambda>a. a\<lparr>heap := (heap a)(i \<mapsto> b)\<rparr>) s)"

text \<open>\<^verbatim>\<open>memcpy\<close> to an offset behind a pointer.\<close>

definition obj_write :: "ptr \<Rightarrow> nat \<Rightarrow> bytes \<Rightarrow> ('h, 'x) hnet \<Rightarrow> ('h, 'x) hnet option" where
  "obj_write p off src s = do {
     m \<leftarrow> obj_bytes (fst p) (app s);
     m \<leftarrow> mem_write (snd p + off) src m;
     obj_set (fst p) m s
   }"

text \<open>How the TCP stack reads the data it sends.\<close>

definition httpd_load :: "('h, 'x) httpd \<Rightarrow> ptr \<Rightarrow> nat \<Rightarrow> nat \<Rightarrow> bytes option" where
  "httpd_load a p off n = do { m \<leftarrow> obj_bytes (fst p) a; mem_read (snd p + off) n m }"

section \<open>Instances and URI handlers\<close>

definition httpd_find_instance :: "u16 \<Rightarrow> ('h, 'x) hnet \<Rightarrow> 'h httpd_instance option" where
  "httpd_find_instance port s = find (\<lambda>i. i_port i = port) (inst_head (app s))"

definition httpd_create_instance :: "('h, 'x) henv \<Rightarrow> u16 \<Rightarrow> ('h, 'x) hnet \<Rightarrow> u16 option \<times> ('h, 'x) hnet" where
  "httpd_create_instance e port s =
     (if httpd_find_instance port s \<noteq> None then (None, s)
      else case httpd_alloc e s of
        (None, s) \<Rightarrow> (None, s)
      | (Some _, s) \<Rightarrow>
          let (r, s) = tcp_listen e (htons port) (Some ()) s in
          if r \<noteq> 0 then (None, s)
          else (Some port, on_app (\<lambda>a. a\<lparr>inst_head := inst_head a @ [\<lparr>i_port = port, i_uri_handlers = []\<rparr>]\<rparr>) s))"

definition httpd_free_instance :: "u16 \<Rightarrow> ('h, 'x) hnet \<Rightarrow> ('h, 'x) hnet option" where
  "httpd_free_instance port s = do {
     let (_, s) = tcp_listen_stop (htons port) s;
     _ \<leftarrow> httpd_find_instance port s;
     Some (on_app (\<lambda>a. a\<lparr>inst_head := remove_first (\<lambda>i. i_port i = port) (inst_head a)\<rparr>) s)
   }"

definition httpd_free_instance_by_port :: "u16 \<Rightarrow> ('h, 'x) hnet \<Rightarrow> (int \<times> ('h, 'x) hnet) option" where
  "httpd_free_instance_by_port port s =
     (if httpd_find_instance port s \<noteq> None then do { s \<leftarrow> httpd_free_instance port s; Some (0, s) }
      else Some (- EINVAL, s))"

definition inst_upd :: "u16 \<Rightarrow> ((nat \<times> string \<times> 'h) list \<Rightarrow> (nat \<times> string \<times> 'h) list) \<Rightarrow> ('h, 'x) hnet \<Rightarrow> ('h, 'x) hnet option" where
  "inst_upd port f s =
     (if httpd_find_instance port s = None then None
      else Some (on_app (\<lambda>a. a\<lparr>inst_head := map (\<lambda>i. if i_port i = port then i\<lparr>i_uri_handlers := f (i_uri_handlers i)\<rparr> else i) (inst_head a)\<rparr>) s))"

definition httpd_register_uri_handler :: "('h, 'x) henv \<Rightarrow> u16 option \<Rightarrow> string option \<Rightarrow> 'h option \<Rightarrow> ('h, 'x) hnet
    \<Rightarrow> (int \<times> nat option \<times> ('h, 'x) hnet) option" where
  "httpd_register_uri_handler e inst uri cb s =
     (case (inst, uri, cb) of
        (Some port, Some uri, Some cb) \<Rightarrow>
          (case httpd_alloc e s of
             (None, s) \<Rightarrow> Some (- ENOMEM, None, s)
           | (Some u, s) \<Rightarrow> do { s \<leftarrow> inst_upd port (\<lambda>hs. hs @ [(u, uri, cb)]) s; Some (0, Some u, s) })
      | _ \<Rightarrow> Some (- EINVAL, None, s))"

definition httpd_unregister_uri_handler :: "u16 option \<Rightarrow> nat option \<Rightarrow> ('h, 'x) hnet \<Rightarrow> (int \<times> ('h, 'x) hnet) option" where
  "httpd_unregister_uri_handler inst urih s =
     (case (inst, urih) of
        (Some port, Some u) \<Rightarrow> do { s \<leftarrow> inst_upd port (remove_first (\<lambda>(a, _). a = u)) s; Some (0, s) }
      | _ \<Rightarrow> Some (- EINVAL, s))"

primrec find_uri :: "bytes \<Rightarrow> nat \<Rightarrow> (nat \<times> string \<times> 'h) list \<Rightarrow> nat option option" where
  "find_uri m u [] = Some None"
| "find_uri m u (h # hs) = do { eq \<leftarrow> strcmp_eq m u (str (fst (snd h))); if eq then Some (Some (fst h)) else find_uri m u hs }"

definition httpd_find_uri_handler :: "'h httpd_instance \<Rightarrow> bytes \<Rightarrow> nat option \<Rightarrow> nat option option" where
  "httpd_find_uri_handler inst m uri =
     (case uri of
        None \<Rightarrow> Some None
      | Some u \<Rightarrow> do {
          r \<leftarrow> find_uri m u (i_uri_handlers inst);
          Some (if r \<noteq> None then r else map_option fst (find (\<lambda>(_, uri, _). uri = '''') (i_uri_handlers inst)))
        })"

text \<open>A call through \<^verbatim>\<open>req->urih->cb\<close>.\<close>

definition urih_call :: "('h, 'x) httpd_env \<Rightarrow> urih_ptr \<Rightarrow> httpd_uri_handler_status \<Rightarrow> nat \<Rightarrow> ('h, 'x) hnet \<Rightarrow> ('h, 'x) hnet option" where
  "urih_call h u status i s =
     (case u of
        Dummy_urih \<Rightarrow> Some s
      | Urih a \<Rightarrow> do {
          (_, cb) \<leftarrow> map_of (concat (map i_uri_handlers (inst_head (app s)))) a;
          hd_call h cb status i s
        })"

section \<open>Responses\<close>

text \<open>\<^verbatim>\<open>snprintf\<close> to the position \<open>p\<close> of a buffer of \<open>sz\<close> bytes.\<close>

definition snprintf :: "nat \<Rightarrow> nat \<Rightarrow> string \<Rightarrow> bytes \<Rightarrow> bytes option" where
  "snprintf sz p s buf = (if p < sz then mem_write p (take (sz - p - 1) (str s) @ [0]) buf else Some buf)"

primrec http_emit :: "string list \<Rightarrow> nat \<Rightarrow> nat \<Rightarrow> bytes \<Rightarrow> (nat \<times> bytes) option" where
  "http_emit [] sz p buf = do { buf \<leftarrow> snprintf sz p [CHR 0x0D, CHR 0x0A] buf; Some (p + 2, buf) }"
| "http_emit (x # xs) sz p buf = do {
     buf \<leftarrow> snprintf sz p x buf;
     if p + length x \<ge> sz then Some (sz, buf) else http_emit xs sz (p + length x) buf
   }"

definition http_header_lines :: "http_response_info \<Rightarrow> string list" where
  "http_header_lines info =
     (let nl = [CHR 0x0D, CHR 0x0A]; ver = (if ri_http_1_0 info then ''0'' else ''1'') in
      [''HTTP/1.'' @ ver @ '' '' @ decimal (unat (ri_code info))
         @ (case map_of http_resp_codes (ri_code info) of Some text \<Rightarrow> '' '' @ text | None \<Rightarrow> '''') @ nl]
      @ (case ri_content_type info of Some t \<Rightarrow> [''Content-Type: '' @ t @ nl] | None \<Rightarrow> [])
      @ (if ri_content_length info \<ge> 0 then [''Content-Length: '' @ decimal (nat (ri_content_length info)) @ nl] else [])
      @ (case ri_location info of Some l \<Rightarrow> [''Location: '' @ l @ nl] | None \<Rightarrow> [])
      @ (if ri_chunked_encoding info then [''Transfer-Encoding: chunked'' @ nl] else [])
      @ (if ri_connection_close info then [''Connection: close'' @ nl] else []))"

definition http_make_response_header :: "http_response_info \<Rightarrow> nat \<Rightarrow> bytes \<Rightarrow> (nat \<times> bytes) option" where
  "http_make_response_header info sz buf = http_emit (http_header_lines info) sz 0 buf"

definition httpd_send_header :: "nat \<Rightarrow> nat \<Rightarrow> ('h, 'x) hnet \<Rightarrow> ('h, 'x) hnet option" where
  "httpd_send_header conn i s = do {
     pd \<leftarrow> pd_at i s;
     (size, buf) \<leftarrow> http_make_response_header (rs_info (pd_response pd)) BUFSZ (pd_buf pd);
     let s = pd_put i (pd\<lparr>pd_buf := buf\<rparr>) s;
     (_, s) \<leftarrow> tcp_send_data (Some conn) (Some (Pbuf i, 0)) (of_nat size) s;
     Some s
   }"

definition httpd_std_err_response :: "nat \<Rightarrow> nat \<Rightarrow> u32 \<Rightarrow> ('h, 'x) hnet \<Rightarrow> ('h, 'x) hnet option" where
  "httpd_std_err_response conn i code s = do {
     pd \<leftarrow> pd_at i s;
     let body = map_of http_resp_codes code;
     let rs = pd_response pd;
     let size = (case body of Some t \<Rightarrow> of_nat (length t) | None \<Rightarrow> rs_size rs);
     let s = pd_put i (pd\<lparr>pd_status := HTTPD_S_RESPONDING, pd_request := (pd_request pd)\<lparr>rq_urih := Some Dummy_urih\<rparr>,
       pd_response := rs\<lparr>rs_status := HTTP_RESP_STD, rs_data := map_option (\<lambda>t. (Rodata (str t @ [0]), 0)) body, rs_size := size,
         rs_info := (rs_info rs)\<lparr>ri_code := code, ri_connection_close := True, ri_content_length := sint size,
           ri_content_type := Some ''text/html''\<rparr>\<rparr>\<rparr>) s;
     s \<leftarrow> httpd_send_header conn i s;
     pd \<leftarrow> pd_at i s;
     Some (pd_put i (pd\<lparr>pd_resp_std_cnt := (if body \<noteq> None then 0 else 1)\<rparr>) s)
   }"

section \<open>Receiving the header\<close>

definition put_nul :: "nat option \<Rightarrow> bytes \<Rightarrow> bytes option" where
  "put_nul p m = (case p of None \<Rightarrow> Some m | Some p \<Rightarrow> arr_set m p 0)"

text \<open>The request line: an error code, or the method, the URI and the start of the fields; and the buffer.\<close>

definition parse_request_line :: "bytes \<Rightarrow> ((u32 + httpd_request_method \<times> nat \<times> nat) \<times> bytes) option" where
  "parse_request_line buf = do {
     fields_ptr \<leftarrow> strstr buf 0 CRLF;
     case fields_ptr of None \<Rightarrow> Some (Inl 400, buf) | Some f \<Rightarrow> do {
       buf \<leftarrow> arr_set buf f 0;
       p \<leftarrow> strchr buf 0 32;
       case p of None \<Rightarrow> Some (Inl 400, buf) | Some p \<Rightarrow> do {
         buf \<leftarrow> arr_set buf p 0;
         let uri = p + 1;
         get \<leftarrow> strcmp_eq buf 0 (str ''GET'');
         post \<leftarrow> strcmp_eq buf 0 (str ''POST'');
         if \<not> get \<and> \<not> post then Some (Inl 405, buf)
         else do {
           p \<leftarrow> strchr buf uri 32;
           case p of None \<Rightarrow> Some (Inl 400, buf) | Some p \<Rightarrow> do {
             buf \<leftarrow> arr_set buf p 0;
             q \<leftarrow> strchr buf uri 63;
             buf \<leftarrow> put_nul q buf;
             Some (Inr (if get then HTTP_GET else HTTP_POST, uri, f + 2), buf)
           }
         }
       }
     }
   }"

definition strtoul_at :: "bytes \<Rightarrow> nat \<Rightarrow> u32 option" where
  "strtoul_at m i = do {
     n \<leftarrow> strlen m i;
     Some (fst (simple_strtoul (map (\<lambda>b. char_of (unat b)) (take n (drop i m))) 10))
   }"

definition parse_content_length :: "bytes \<Rightarrow> nat \<Rightarrow> u32 \<Rightarrow> u32 option" where
  "parse_content_length buf fields_ptr payload_size = do {
     cl \<leftarrow> strstr buf fields_ptr (str ''Content-Length:'');
     case cl of
       None \<Rightarrow> Some payload_size
     | Some cl \<Rightarrow> let cl = cl + 15 in strtoul_at buf (cl + length (takeWhile (\<lambda>b. b = 32) (drop cl buf)))
   }"

text \<open>The boundary, if there is a \<^verbatim>\<open>Content-Type\<close>; without a boundary in it the request is bad.\<close>

definition parse_boundary :: "bytes \<Rightarrow> nat \<Rightarrow> ((u32 + nat option) \<times> bytes) option" where
  "parse_boundary buf fields_ptr = do {
     ct \<leftarrow> strstr buf fields_ptr (str ''Content-Type:'');
     case ct of None \<Rightarrow> Some (Inr None, buf) | Some ct \<Rightarrow> do {
       p \<leftarrow> strstr buf ct CRLF;
       buf \<leftarrow> put_nul p buf;
       b \<leftarrow> strstr buf ct (str ''boundary='');
       case b of None \<Rightarrow> Some (Inl 400, buf) | Some b \<Rightarrow> do {
         let b = b + 9;
         c \<leftarrow> arr_get buf b;
         let (b, stop) = (if c = 34 then (b + 1, 34) else (b, 13));
         p \<leftarrow> strchr buf b stop;
         buf \<leftarrow> put_nul p buf;
         Some (Inr (Some b), buf)
       }
     }
   }"

text \<open>
  Where the payload goes, and what of it came with the header; then, whether the upload is complete.
  Here and below the number is what the C function returns.
\<close>

definition recv_hdr_done :: "nat \<Rightarrow> ptr \<Rightarrow> httpd_tcp_pdata \<Rightarrow> ('h, 'x) hnet \<Rightarrow> (int \<times> ('h, 'x) hnet) option" where
  "recv_hdr_done i p pd s =
     (let pd = pd\<lparr>pd_upload_ptr := Some p, pd_request := (pd_request pd)\<lparr>rq_method := HTTP_POST\<rparr>\<rparr> in
      if pd_upload_size pd = pd_payload_size pd
      then do { s \<leftarrow> obj_write p (unat (pd_payload_size pd)) [0] (pd_put i (pd\<lparr>pd_status := HTTPD_S_FULL_RCVD\<rparr>) s); Some (0, s) }
      else Some (if pd_upload_size pd = 0 then 1 else 0,
        on_app (\<lambda>a. a\<lparr>is_uploading := True\<rparr>) (pd_put i (pd\<lparr>pd_status := HTTPD_S_PAYLOAD_RECVING, pd_is_uploading := True\<rparr>) s)))"

definition recv_hdr_upload :: "('h, 'x) henv \<Rightarrow> ('h, 'x) httpd_env \<Rightarrow> nat \<Rightarrow> tcb_cb_data \<Rightarrow> u32 \<Rightarrow> u32 \<Rightarrow> httpd_tcp_pdata \<Rightarrow> ('h, 'x) hnet
    \<Rightarrow> (int \<times> ('h, 'x) hnet) option" where
  "recv_hdr_upload e h i cbd size_rcvd hdr_size pd s =
     (let upload_size = pd_bufsize pd - hdr_size in
      if hdr_size + pd_payload_size pd < of_nat BUFSZ
      then recv_hdr_done i (Pbuf i, unat hdr_size) (pd\<lparr>pd_upload_size := upload_size\<rparr>) s
      else if is_uploading (app s)
      then do { (_, s) \<leftarrow> tcp_close_conn e (Some (cbd_conn cbd)) True (pd_put i pd s); Some (1, s) }
      else do {
        let s = on_app (\<lambda>a. a\<lparr>upload_id := hd_rand h (rands a), rands := Suc (rands a)\<rparr>) s;
        d \<leftarrow> mem_read (unat hdr_size) (unat upload_size) (pd_buf pd);
        s \<leftarrow> obj_write (Ram, 0) 0 d s;
        (upload_size, s) \<leftarrow> (if size_rcvd < cbd_datalen cbd then do {
            d \<leftarrow> mem_read (unat size_rcvd) (unat (cbd_datalen cbd - size_rcvd)) (cbd_data cbd);
            s \<leftarrow> obj_write (Ram, 0) (unat upload_size) d s;
            Some (upload_size + (cbd_datalen cbd - size_rcvd), s)
          } else Some (upload_size, s));
        recv_hdr_done i (Ram, 0) (pd\<lparr>pd_upload_size := upload_size\<rparr>) s
      })"

definition bad_request :: "nat \<Rightarrow> nat \<Rightarrow> u32 \<Rightarrow> httpd_tcp_pdata \<Rightarrow> ('h, 'x) hnet \<Rightarrow> (int \<times> ('h, 'x) hnet) option" where
  "bad_request conn i code pd s = do { s \<leftarrow> httpd_std_err_response conn i code (pd_put i pd s); Some (1, s) }"

definition recv_hdr_parse :: "('h, 'x) henv \<Rightarrow> ('h, 'x) httpd_env \<Rightarrow> nat \<Rightarrow> tcb_cb_data \<Rightarrow> u32 \<Rightarrow> u32 \<Rightarrow> httpd_tcp_pdata \<Rightarrow> ('h, 'x) hnet
    \<Rightarrow> (int \<times> ('h, 'x) hnet) option" where
  "recv_hdr_parse e h i cbd size_rcvd hdr_size pd s = do {
     (r, buf) \<leftarrow> parse_request_line (pd_buf pd);
     let pd = pd\<lparr>pd_buf := buf\<rparr>;
     case r of
       Inl code \<Rightarrow> bad_request (cbd_conn cbd) i code pd s
     | Inr (method, uri, fields_ptr) \<Rightarrow> do {
         let pd = pd\<lparr>pd_uri := Some uri\<rparr>;
         case method of
           HTTP_GET \<Rightarrow> Some (0, pd_put i (pd\<lparr>pd_status := HTTPD_S_FULL_RCVD, pd_request := (pd_request pd)\<lparr>rq_method := HTTP_GET\<rparr>\<rparr>) s)
         | HTTP_POST \<Rightarrow> do {
             payload_size \<leftarrow> parse_content_length buf fields_ptr (pd_payload_size pd);
             (b, buf) \<leftarrow> parse_boundary buf fields_ptr;
             let pd = pd\<lparr>pd_buf := buf, pd_payload_size := payload_size\<rparr>;
             case b of
               Inl code \<Rightarrow> bad_request (cbd_conn cbd) i code pd s
             | Inr b \<Rightarrow> recv_hdr_upload e h i cbd size_rcvd hdr_size
                 (pd\<lparr>pd_boundary := (if b = None then pd_boundary pd else b)\<rparr>) s
           }
       }
   }"

definition httpd_recv_hdr :: "('h, 'x) henv \<Rightarrow> ('h, 'x) httpd_env \<Rightarrow> nat \<Rightarrow> tcb_cb_data \<Rightarrow> ('h, 'x) hnet
    \<Rightarrow> (int \<times> ('h, 'x) hnet) option" where
  "httpd_recv_hdr e h i cbd s = do {
     pd \<leftarrow> pd_at i s;
     let size_rcvd = min (cbd_datalen cbd) (of_nat BUFSZ - pd_bufsize pd - 1);
     d \<leftarrow> mem_read 0 (unat size_rcvd) (cbd_data cbd);
     buf \<leftarrow> mem_write (unat (pd_bufsize pd)) d (pd_buf pd);
     let bufsize = pd_bufsize pd + size_rcvd;
     buf \<leftarrow> arr_set buf (unat bufsize) 0;
     let pd = pd\<lparr>pd_buf := buf, pd_bufsize := bufsize\<rparr>;
     q \<leftarrow> strstr buf 0 (CRLF @ CRLF);
     case q of
       None \<Rightarrow> if size_rcvd = cbd_datalen cbd then Some (1, pd_put i pd s) else bad_request (cbd_conn cbd) i 413 pd s
     | Some q \<Rightarrow> do {
         buf \<leftarrow> arr_set buf q 0;
         recv_hdr_parse e h i cbd size_rcvd (of_nat (q + 4)) (pd\<lparr>pd_buf := buf\<rparr>) s
       }
   }"

section \<open>Receiving the payload\<close>

definition httpd_recv_payload :: "nat \<Rightarrow> tcb_cb_data \<Rightarrow> ('h, 'x) hnet \<Rightarrow> (int \<times> ('h, 'x) hnet) option" where
  "httpd_recv_payload i cbd s = do {
     pd \<leftarrow> pd_at i s;
     let size_recv = min (pd_payload_size pd - pd_upload_size pd) (cbd_datalen cbd);
     p \<leftarrow> pd_upload_ptr pd;
     d \<leftarrow> mem_read 0 (unat size_recv) (cbd_data cbd);
     s \<leftarrow> obj_write p (unat (pd_upload_size pd)) d s;
     pd \<leftarrow> pd_at i s;
     let pd = pd\<lparr>pd_upload_size := pd_upload_size pd + size_recv\<rparr>;
     if pd_upload_size pd = pd_payload_size pd
     then do {
       s \<leftarrow> obj_write p (unat (pd_payload_size pd)) [0] (pd_put i pd s);
       pd \<leftarrow> pd_at i s;
       Some (0, on_app (\<lambda>a. a\<lparr>is_uploading := False\<rparr>) (pd_put i (pd\<lparr>pd_status := HTTPD_S_FULL_RCVD, pd_is_uploading := False\<rparr>) s))
     }
     else Some (1, pd_put i pd s)
   }"

section \<open>Handling a request\<close>

definition memstr :: "bytes \<Rightarrow> nat \<Rightarrow> u32 \<Rightarrow> bytes \<Rightarrow> nat option option" where
  "memstr m i limit s = search m s i (unat limit)"

definition name_extract :: "bytes \<Rightarrow> nat \<Rightarrow> (nat \<times> bytes) option" where
  "name_extract m i = do {
     c \<leftarrow> arr_get m i;
     let (name, stop) = (if c = 34 then (i + 1, 34) else (i, 13));
     p \<leftarrow> strchr m name stop;
     m \<leftarrow> put_nul p m;
     Some (name, m)
   }"

text \<open>The parts of the payload: the positions of their first byte and of the byte behind the last.\<close>

primrec split_forms :: "nat \<Rightarrow> bytes \<Rightarrow> nat \<Rightarrow> bytes \<Rightarrow> nat \<Rightarrow> (nat \<times> nat) list \<Rightarrow> ((nat \<times> nat) list \<times> bytes) option" where
  "split_forms 0 boundary payload_end m p fs = Some (fs, m)"
| "split_forms (Suc n) boundary payload_end m p fs = do {
     let p = p + length boundary;
     eq \<leftarrow> strncmp_eq m p CRLF;
     if \<not> eq then Some (fs, m)
     else do {
       let p = p + 2;
       q \<leftarrow> memstr m p (of_nat payload_end - of_nat p) boundary;
       case q of None \<Rightarrow> Some (fs, m) | Some q \<Rightarrow> do {
         eq \<leftarrow> strncmp_eq m (q - 2) CRLF;
         m \<leftarrow> arr_set m (if eq then q - 2 else q) 0;
         split_forms n boundary payload_end m q (fs @ [(p, q - 2)])
       }
     }
   }"

definition process_form :: "obj \<Rightarrow> nat \<times> nat \<Rightarrow> bytes \<times> httpd_request \<Rightarrow> (bytes \<times> httpd_request) option" where
  "process_form ob = (\<lambda>(start, stop) (m, req). do {
     p \<leftarrow> strstr m start (CRLF @ CRLF);
     case p of None \<Rightarrow> Some (m, req) | Some p \<Rightarrow> do {
       m \<leftarrow> arr_set m p 0;
       let data = p + 4;
       v \<leftarrow> arr_get (rq_values req) (unat (rq_count req));
       name_ptr \<leftarrow> strstr m start (str ''name='');
       filename_ptr \<leftarrow> strstr m start (str ''filename='');
       (name, m) \<leftarrow> (case name_ptr of
           None \<Rightarrow> Some (fv_name v, m)
         | Some q \<Rightarrow> do { (n, m) \<leftarrow> name_extract m (q + 5); Some (Some (ob, n), m) });
       (filename, m) \<leftarrow> (case filename_ptr of
           None \<Rightarrow> Some (fv_filename v, m)
         | Some q \<Rightarrow> do { (n, m) \<leftarrow> name_extract m (q + 9); Some (Some (ob, n), m) });
       Some (m, req\<lparr>rq_values := (rq_values req)[unat (rq_count req) :=
           \<lparr>fv_name = name, fv_data = Some (ob, data), fv_filename = filename, fv_size = of_nat stop - of_nat data\<rparr>],
         rq_count := rq_count req + 1\<rparr>)
     }
   })"

primrec process_forms :: "obj \<Rightarrow> (nat \<times> nat) list \<Rightarrow> bytes \<times> httpd_request \<Rightarrow> (bytes \<times> httpd_request) option" where
  "process_forms ob [] x = Some x"
| "process_forms ob (f # fs) x = do { x \<leftarrow> process_form ob f x; process_forms ob fs x }"

text \<open>The form of a POST request. The result is \<open>False\<close> when there is no memory for the boundary.\<close>

definition httpd_parse_form :: "('h, 'x) henv \<Rightarrow> nat \<Rightarrow> ('h, 'x) hnet \<Rightarrow> (bool \<times> ('h, 'x) hnet) option" where
  "httpd_parse_form e i s = do {
     pd \<leftarrow> pd_at i s;
     b \<leftarrow> pd_boundary pd;
     n \<leftarrow> strlen (pd_buf pd) b;
     if \<not> e_malloc e s then Some (False, s)
     else do {
       let boundary = str ''--'' @ take n (drop b (pd_buf pd));
       (ob, base) \<leftarrow> pd_upload_ptr pd;
       m \<leftarrow> obj_bytes ob (app s);
       (fs, m) \<leftarrow> split_forms MAX_HTTP_FORM_VALUE_ITEMS boundary (base + unat (pd_payload_size pd)) m base [];
       (m, req) \<leftarrow> process_forms ob fs (m, pd_request pd);
       s \<leftarrow> obj_set ob m s;
       pd \<leftarrow> pd_at i s;
       Some (True, pd_put i (pd\<lparr>pd_request := req\<rparr>) s)
     }
   }"

definition httpd_respond :: "('h, 'x) henv \<Rightarrow> nat \<Rightarrow> nat \<Rightarrow> ('h, 'x) hnet \<Rightarrow> ('h, 'x) hnet option" where
  "httpd_respond e conn i s = do {
     pd \<leftarrow> pd_at i s;
     let rs = pd_response pd;
     case rs_status rs of
       HTTP_RESP_NONE \<Rightarrow> map_option snd (tcp_close_conn e (Some conn) False s)
     | HTTP_RESP_STD \<Rightarrow> do {
         s \<leftarrow> httpd_send_header conn i
           (pd_put i (pd\<lparr>pd_response := rs\<lparr>rs_info := (rs_info rs)\<lparr>ri_content_length := sint (rs_size rs)\<rparr>\<rparr>\<rparr>) s);
         pd \<leftarrow> pd_at i s;
         Some (pd_put i (pd\<lparr>pd_resp_std_cnt := 0, pd_status := HTTPD_S_RESPONDING\<rparr>) s)
       }
     | HTTP_RESP_CUSTOM \<Rightarrow> do {
         (_, s) \<leftarrow> tcp_send_data (Some conn) (rs_data rs) (rs_size rs) s;
         pd \<leftarrow> pd_at i s;
         Some (pd_put i (pd\<lparr>pd_status := HTTPD_S_RESPONDING\<rparr>) s)
       }
   }"

definition httpd_handle_request :: "('h, 'x) henv \<Rightarrow> ('h, 'x) httpd_env \<Rightarrow> 'h httpd_instance \<Rightarrow> nat \<Rightarrow> tcb_cb_data \<Rightarrow> ('h, 'x) hnet
    \<Rightarrow> ('h, 'x) hnet option" where
  "httpd_handle_request e h inst i cbd s = do {
     pd \<leftarrow> pd_at i s;
     uh \<leftarrow> httpd_find_uri_handler inst (pd_buf pd) (pd_uri pd);
     let req = (pd_request pd)\<lparr>rq_urih := map_option Urih uh\<rparr>;
     let s = pd_put i (pd\<lparr>pd_request := req\<rparr>) s;
     case uh of
       None \<Rightarrow> map_option snd (tcp_close_conn e (Some (cbd_conn cbd)) True s)
     | Some a \<Rightarrow> do {
         (ok, s) \<leftarrow> (if rq_method req = HTTP_POST then httpd_parse_form e i s else Some (True, s));
         if \<not> ok then map_option snd (tcp_close_conn e (Some (cbd_conn cbd)) True s)
         else do {
           s \<leftarrow> urih_call h (Urih a) HTTP_CB_NEW i s;
           httpd_respond e (cbd_conn cbd) i s
         }
       }
   }"

section \<open>The callback\<close>

definition httpd_rx :: "('h, 'x) henv \<Rightarrow> ('h, 'x) httpd_env \<Rightarrow> 'h httpd_instance \<Rightarrow> nat \<Rightarrow> tcb_cb_data \<Rightarrow> ('h, 'x) hnet \<Rightarrow> ('h, 'x) hnet option" where
  "httpd_rx e h inst i cbd s = do {
     pd \<leftarrow> pd_at i s;
     let pd = (if pd_status pd = HTTPD_S_NEW then pd\<lparr>pd_status := HTTPD_S_HEADER_RECVING\<rparr> else pd);
     let s = pd_put i pd s;
     (r, s) \<leftarrow> (if pd_status pd = HTTPD_S_HEADER_RECVING then httpd_recv_hdr e h i cbd s else Some (0, s));
     if r \<noteq> 0 then Some s
     else do {
       pd \<leftarrow> pd_at i s;
       (r, s) \<leftarrow> (if pd_status pd = HTTPD_S_PAYLOAD_RECVING then httpd_recv_payload i cbd s else Some (0, s));
       if r \<noteq> 0 then Some s
       else do {
         pd \<leftarrow> pd_at i s;
         if pd_status pd = HTTPD_S_FULL_RCVD then httpd_handle_request e h inst i cbd s else Some s
       }
     }
   }"

definition httpd_tx :: "('h, 'x) henv \<Rightarrow> ('h, 'x) httpd_env \<Rightarrow> nat \<Rightarrow> tcb_cb_data \<Rightarrow> ('h, 'x) hnet \<Rightarrow> ('h, 'x) hnet option" where
  "httpd_tx e h i cbd s = do {
     pd \<leftarrow> pd_at i s;
     if rs_status (pd_response pd) = HTTP_RESP_STD
     then if pd_resp_std_cnt pd = 0
       then do {
         (_, s) \<leftarrow> tcp_send_data (Some (cbd_conn cbd)) (rs_data (pd_response pd)) (rs_size (pd_response pd)) s;
         pd \<leftarrow> pd_at i s;
         Some (pd_put i (pd\<lparr>pd_resp_std_cnt := 1\<rparr>) s)
       }
       else do {
         (_, s) \<leftarrow> tcp_close_conn e (Some (cbd_conn cbd)) False s;
         pd \<leftarrow> pd_at i s;
         Some (pd_put i (pd\<lparr>pd_status := HTTPD_S_CLOSING\<rparr>) s)
       }
     else do {
       u \<leftarrow> rq_urih (pd_request pd);
       s \<leftarrow> urih_call h u HTTP_CB_RESPONDING i s;
       pd \<leftarrow> pd_at i s;
       if rs_status (pd_response pd) = HTTP_RESP_NONE
       then do {
         (_, s) \<leftarrow> tcp_close_conn e (Some (cbd_conn cbd)) False s;
         pd \<leftarrow> pd_at i s;
         Some (pd_put i (pd\<lparr>pd_status := HTTPD_S_CLOSING\<rparr>) s)
       }
       else map_option snd (tcp_send_data (Some (cbd_conn cbd)) (rs_data (pd_response pd)) (rs_size (pd_response pd)) s)
     }
   }"

definition httpd_cleanup :: "('h, 'x) httpd_env \<Rightarrow> nat \<Rightarrow> ('h, 'x) hnet \<Rightarrow> ('h, 'x) hnet option" where
  "httpd_cleanup h i s = do {
     pd \<leftarrow> pd_at i s;
     let s = (if pd_is_uploading pd then on_app (\<lambda>a. a\<lparr>is_uploading := False\<rparr>) s else s);
     s \<leftarrow> (case rq_urih (pd_request pd) of None \<Rightarrow> Some s | Some u \<Rightarrow> urih_call h u HTTP_CB_CLOSED i s);
     Some (pd_free i s)
   }"

definition httpd_tcp_callback :: "('h, 'x) henv \<Rightarrow> ('h, 'x) httpd_env \<Rightarrow> tcb_cb_data \<Rightarrow> ('h, 'x) hnet \<Rightarrow> (tcb_cb_data \<times> ('h, 'x) hnet) option" where
  "httpd_tcp_callback e h cbd s =
     (case httpd_find_instance (htons (cbd_dp cbd)) s of
        None \<Rightarrow> map_option (\<lambda>(_, s). (cbd, s)) (tcp_close_conn e (Some (cbd_conn cbd)) True s)
      | Some inst \<Rightarrow> (case cbd_status cbd of
          TCP_CB_NEW_CONN \<Rightarrow>
            (case httpd_alloc e s of
               (None, s) \<Rightarrow> map_option (\<lambda>(_, s). (cbd\<lparr>cbd_pdata := None\<rparr>, s)) (tcp_close_conn e (Some (cbd_conn cbd)) True s)
             | (Some i, s) \<Rightarrow> do {
                 let cbd = cbd\<lparr>cbd_pdata := Some i\<rparr>;
                 (_, s) \<leftarrow> tcp_conn_set_pdata (Some (cbd_conn cbd)) (Some i) (pd_put i zero_pdata s);
                 s \<leftarrow> (if cbd_datalen cbd \<noteq> 0 then httpd_rx e h inst i cbd s else Some s);
                 Some (cbd, s)
               })
        | TCP_CB_DATA_RCVD \<Rightarrow>
            if cbd_datalen cbd \<noteq> 0
            then do { i \<leftarrow> cbd_pdata cbd; s \<leftarrow> httpd_rx e h inst i cbd s; Some (cbd, s) }
            else Some (cbd, s)
        | TCP_CB_DATA_SENT \<Rightarrow> do { i \<leftarrow> cbd_pdata cbd; s \<leftarrow> httpd_tx e h i cbd s; Some (cbd, s) }
        | TCP_CB_REMOTE_CLOSED \<Rightarrow> do { i \<leftarrow> cbd_pdata cbd; s \<leftarrow> httpd_cleanup h i s; Some (cbd, s) }
        | TCP_CB_CLOSED \<Rightarrow> do { i \<leftarrow> cbd_pdata cbd; s \<leftarrow> httpd_cleanup h i s; Some (cbd, s) }
        | _ \<Rightarrow> Some (cbd, s)))"

text \<open>The values of a form, for the handlers.\<close>

primrec find_value :: "('h, 'x) httpd \<Rightarrow> bytes \<Rightarrow> httpd_form_value list \<Rightarrow> httpd_form_value option option" where
  "find_value a name [] = Some None"
| "find_value a name (v # vs) = do {
     (ob, off) \<leftarrow> fv_name v;
     m \<leftarrow> obj_bytes ob a;
     eq \<leftarrow> strcmp_eq m off name;
     if eq then Some (Some v) else find_value a name vs
   }"

definition httpd_request_find_value :: "httpd_request option \<Rightarrow> string option \<Rightarrow> ('h, 'x) hnet \<Rightarrow> httpd_form_value option option" where
  "httpd_request_find_value request name s =
     (case (request, name) of
        (Some req, Some name) \<Rightarrow> do {
          vs \<leftarrow> mem_read 0 (unat (rq_count req)) (rq_values req);
          find_value (app s) (str name) vs
        }
      | _ \<Rightarrow> Some None)"

text \<open>The environment of the TCP stack below the server.\<close>

definition httpd_tcp_env :: "('h, 'x) henv \<Rightarrow> ('h, 'x) httpd_env \<Rightarrow> ('h, 'x) henv" where
  "httpd_tcp_env e h = e\<lparr>e_load := httpd_load, e_call := \<lambda>_. httpd_tcp_callback e h\<rparr>"

text \<open>A state to evaluate with: one instance, one connection and its data.\<close>

definition demo_httpd :: "(nat \<times> string \<times> 'h) list \<Rightarrow> httpd_tcp_pdata \<Rightarrow> bytes \<Rightarrow> 'x \<Rightarrow> ('h, 'x) hnet" where
  "demo_httpd hs pd r x = demo_net [(0x5000, ())] [demo_conn ()]
     \<lparr>inst_head = [\<lparr>i_port = 80, i_uri_handlers = hs\<rparr>], upload_id = 7, is_uploading = True, pdatas = [0 \<mapsto> pd], heap = Map.empty,
      next_ptr = 1, ram = r, rands = 0, ext = x\<rparr>"

end
