(* ===== verification/Stage2.thy ===== *)
theory Stage2
  imports Uimage Flash_Helper
begin

text \<open>
  Two-stage bootloaders on NAND (\<^verbatim>\<open>board/ralink/common/spl_helper_nand.c\<close>) and the checksum of the
  first stage (\<^verbatim>\<open>lib/crc32c_be.c\<close>): where the second stage starts, in an image in memory and in the
  bootloader on flash.

  \<^item> \<open>mem\<close> is the memory from the image on; a pointer into the image is its offset, and NULL is
    \<open>None\<close>. \<open>None\<close> as a result of the whole computation is a fault, as everywhere.
  \<^item> \<^verbatim>\<open>CONFIG_MAX_U_BOOT_SIZE\<close> is a parameter, \<open>None\<close> when it is not defined.
\<close>

section \<open>The checksum of the first stage\<close>

abbreviation (input) MT7621_IH_CRC_POLYNOMIAL :: u32 where "MT7621_IH_CRC_POLYNOMIAL \<equiv> 0x04c11db7"

definition crc32c_be_bit :: "u32 \<Rightarrow> u32 \<Rightarrow> u32" where
  "crc32c_be_bit poly v = push_bit 1 v XOR (if bit v 31 then poly else 0)"

definition crc32c_be_init :: "u32 \<Rightarrow> u32 list" where
  "crc32c_be_init pol = map (\<lambda>i. (crc32c_be_bit pol ^^ 8) (push_bit 24 (of_nat i))) [0..<256]"

primrec crc32c_be_cal :: "u32 \<Rightarrow> bytes \<Rightarrow> u32 list \<Rightarrow> u32" where
  "crc32c_be_cal crc [] tbl = crc"
| "crc32c_be_cal crc (b # data) tbl =
     crc32c_be_cal (tbl ! unat ((ucast (drop_bit 24 crc) :: u8) XOR b) XOR push_bit 8 crc) data tbl"

text \<open>The bytes of the length that go into the checksum, lowest first.\<close>

fun length_bytes :: "nat \<Rightarrow> bytes" where
  "length_bytes n = (if n = 0 then [] else of_nat (n mod 256) # length_bytes (n div 256))"

declare length_bytes.simps [simp del]

text \<open>The table is made when its entry for 1 is not yet the polynomial.\<close>

definition crc32_init :: "u32 list \<Rightarrow> u32 list" where
  "crc32_init tbl = (if tbl ! 1 = MT7621_IH_CRC_POLYNOMIAL then tbl else crc32c_be_init MT7621_IH_CRC_POLYNOMIAL)"

definition crc32_cal :: "u32 list \<Rightarrow> bytes \<Rightarrow> u32" where
  "crc32_cal tbl data =
     (let tbl = crc32_init tbl;
          crc = crc32c_be_cal 0 data tbl
      in NOT (crc32c_be_cal crc (length_bytes (length data)) tbl))"

section \<open>Headers\<close>

text \<open>A legacy header whose own checksum is right.\<close>

definition header_valid :: "bytes \<Rightarrow> bool" where
  "header_valid hdr \<longleftrightarrow> crc32 0 0 (blank_hcrc hdr) = image_get_hcrc hdr"

text \<open>
  A header of the first stage: \<^verbatim>\<open>nand_header_t\<close> lies over \<^verbatim>\<open>ih_name\<close>, with its checksum in the last
  four bytes, taken over the header with both checksums zero.
\<close>

definition blank_crcs :: "bytes \<Rightarrow> bytes" where
  "blank_crcs hdr = take 60 (blank_hcrc hdr) @ replicate 4 0"

definition spl_header :: "u32 list \<Rightarrow> bytes \<Rightarrow> bool" where
  "spl_header tbl hdr \<longleftrightarrow> crc32_cal tbl (blank_crcs hdr) = be32 60 hdr"

abbreviation (input) MTK_SPL_ROM_CFG_OFFS :: nat where "MTK_SPL_ROM_CFG_OFFS \<equiv> 0x40"
abbreviation (input) MTK_ROM_CFG_MAGIC :: u32 where "MTK_ROM_CFG_MAGIC \<equiv> 0x31323637"

record mtk_spl_rom_cfg =
  cfg_magic :: u32
  cfg_size :: u32
  cfg_align :: u32

definition rom_cfg_of_bytes :: "bytes \<Rightarrow> mtk_spl_rom_cfg" where
  "rom_cfg_of_bytes bs = \<lparr>cfg_magic = dec32 (take 4 bs), cfg_size = dec32 (take 4 (drop 4 bs)), cfg_align = dec32 (take 4 (drop 8 bs))\<rparr>"

definition ALIGN :: "u32 \<Rightarrow> u32 \<Rightarrow> u32" where
  "ALIGN x a = (x + (a - 1)) AND NOT (a - 1)"

section \<open>The second stage of an image in memory\<close>

definition stage2_body :: "bytes \<Rightarrow> u32 \<Rightarrow> u32 \<Rightarrow> u32 \<Rightarrow> (u32 option + u32) option" where
  "stage2_body mem sz align off =
     (if off < sz then do {
        hdr \<leftarrow> mem_read (unat off) sizeof_image_header mem;
        if image_get_magic hdr = IH_MAGIC \<and> header_valid hdr then Some (Inl (Some off))
        else Some (Inr (off + align))
      } else Some (Inl None))"

definition get_mtk_stage2_image_ptr :: "u32 list \<Rightarrow> bytes \<Rightarrow> u32 \<Rightarrow> u32 option option" where
  "get_mtk_stage2_image_ptr tbl mem sz = do {
     hdr \<leftarrow> mem_read 0 sizeof_image_header mem;
     if image_get_magic hdr = IH_MAGIC \<and> \<not> header_valid hdr then Some None
     else if image_get_magic hdr = IH_MAGIC \<and> \<not> spl_header tbl hdr then Some (Some 0)
     else do {
       bs \<leftarrow> mem_read (sizeof_image_header + MTK_SPL_ROM_CFG_OFFS) 12 mem;
       let rom_cfg = rom_cfg_of_bytes bs;
       if cfg_magic rom_cfg \<noteq> MTK_ROM_CFG_MAGIC then Some None
       else do {
         let off = cfg_size rom_cfg + of_nat sizeof_image_header;
         if cfg_align rom_cfg = 0 then Some (Some off)
         else loop (stage2_body mem sz (cfg_align rom_cfg)) (ALIGN off (cfg_align rom_cfg))
       }
     }
   }"

section \<open>The second stage on flash\<close>

text \<open>A read that succeeded, possibly after correcting bit flips.\<close>

definition read_done :: "int \<Rightarrow> u32 \<Rightarrow> nat \<Rightarrow> bool" where
  "read_done ret retlen n \<longleftrightarrow> (ret = 0 \<or> ret = - EUCLEAN) \<and> retlen = of_nat n"

definition stock_body :: "('s \<Rightarrow> 's mtd_dev) \<Rightarrow> u32 \<Rightarrow> u32 \<Rightarrow> 's \<times> bytes \<times> u32 \<Rightarrow> (u32 option \<times> 's + 's \<times> bytes \<times> u32) option" where
  "stock_body dev max_size align = (\<lambda>(s, hdr, addr).
     if addr < max_size then do {
       (ret, hdr, retlen, s) \<leftarrow> mtd_read (dev s) s (ucast addr) (of_nat sizeof_image_header) (Some 0) hdr;
       if read_done ret retlen sizeof_image_header \<and> image_get_magic hdr = IH_MAGIC \<and> header_valid hdr
       then Some (Inl (Some addr, s))
       else Some (Inr (s, if read_done ret retlen sizeof_image_header \<and> image_get_magic hdr = IH_MAGIC
                          then blank_hcrc hdr else hdr, addr + align))
     } else Some (Inl (None, s)))"

text \<open>The result is 0 or 1 with the three outputs; \<open>mtdp\<close> is the state of the board's device.\<close>

definition check_mtk_stock_stage2_info :: "u32 list \<Rightarrow> u32 option \<Rightarrow> ('s \<Rightarrow> 's mtd_dev) \<Rightarrow> 's option
    \<Rightarrow> ((u32 \<times> u32 \<times> u32) option \<times> 's option) option" where
  "check_mtk_stock_stage2_info tbl max_u_boot_size dev mtdp =
     (case (max_u_boot_size, mtdp) of
        (Some max_size, Some s) \<Rightarrow> do {
          (ret, hdr, retlen, s) \<leftarrow> mtd_read (dev s) s 0 (of_nat sizeof_image_header) (Some 0) (replicate sizeof_image_header 0);
          if \<not> read_done ret retlen sizeof_image_header then Some (None, Some s)
          else if image_get_magic hdr = IH_MAGIC \<and> \<not> (header_valid hdr \<and> spl_header tbl hdr) then Some (None, Some s)
          else do {
            (ret, bs, retlen, s) \<leftarrow> mtd_read (dev s) s (of_nat (sizeof_image_header + MTK_SPL_ROM_CFG_OFFS)) 12 (Some 0) (replicate 12 0);
            if \<not> read_done ret retlen 12 then Some (None, Some s)
            else do {
              let rom_cfg = rom_cfg_of_bytes bs;
              if cfg_magic rom_cfg \<noteq> MTK_ROM_CFG_MAGIC then Some (None, Some s)
              else do {
                let off = cfg_size rom_cfg + of_nat sizeof_image_header;
                if cfg_align rom_cfg = 0 then Some (Some (off, off, 0), Some s)
                else do {
                  let off = ALIGN off (cfg_align rom_cfg);
                  (found, s) \<leftarrow> loop (stock_body dev max_size (cfg_align rom_cfg))
                    (s, if image_get_magic hdr = IH_MAGIC then blank_crcs hdr else hdr, off);
                  Some (Some (off, case found of Some addr \<Rightarrow> addr | None \<Rightarrow> off, cfg_align rom_cfg), Some s)
                }
              }
            }
          }
        }
      | _ \<Rightarrow> Some (None, mtdp))"

section \<open>The search\<close>

text \<open>
  Both searches step a 32-bit offset by the alignment, which the image chooses. Whatever it is,
  the offset leaves the range below 2 GiB: an alignment of at most 2 GiB moves it up without a
  wrap, a larger one moves it down, until it wraps once to a value above.
\<close>

definition search_measure :: "u32 \<Rightarrow> u32 \<Rightarrow> u32 \<Rightarrow> nat" where
  "search_measure sz align off =
     (if off < sz then Suc (if unat align \<le> 2 ^ 31 then 2 ^ 32 - unat off else unat off) else 0)"

lemma search_step:
  assumes "unat sz \<le> 2 ^ 31" and "align \<noteq> 0" and "off < sz"
  shows "search_measure sz align (off + align) < search_measure sz align off"
proof -
  have off: "unat off < unat sz" and al: "0 < unat align" "unat align < 2 ^ 32"
    using assms(2,3) unat_u32_less [of align] by (simp_all add: word_less_nat_alt unat_gt_0)
  show ?thesis
  proof (cases "unat off + unat align < 2 ^ 32")
    case True
    then have "unat (off + align) = unat off + unat align" by (simp add: unat_word_ariths)
    with assms off al True show ?thesis by (auto simp: search_measure_def word_less_nat_alt)
  next
    case False
    then have big: "2 ^ 31 < unat align" using off assms(1) by simp
    have "unat (off + align) = unat off + unat align - 2 ^ 32"
      using False unat_u32_less [of off] al(2) by (simp add: unat_word_ariths mod_if)
    with assms off al False big show ?thesis by (auto simp: search_measure_def word_less_nat_alt)
  qed
qed

text \<open>
  The outcome of a search from \<open>off0\<close>: the offsets before number \<open>k\<close> are in range and have no
  header, and number \<open>k\<close> has one or is out of range.
\<close>

definition search_result :: "(u32 \<Rightarrow> bool) \<Rightarrow> u32 \<Rightarrow> u32 \<Rightarrow> u32 \<Rightarrow> u32 option \<Rightarrow> bool" where
  "search_result has_header sz align off0 r \<longleftrightarrow>
     (\<exists>k :: nat. (\<forall>j < k. off0 + of_nat j * align < sz \<and> \<not> has_header (off0 + of_nat j * align)) \<and>
       (case r of
          Some off \<Rightarrow> off = off0 + of_nat k * align \<and> off < sz \<and> has_header off
        | None \<Rightarrow> sz \<le> off0 + of_nat k * align))"

definition header_at :: "bytes \<Rightarrow> u32 \<Rightarrow> bool" where
  "header_at mem off \<longleftrightarrow> (let hdr = take sizeof_image_header (drop (unat off) mem) in
     image_get_magic hdr = IH_MAGIC \<and> header_valid hdr)"

lemma stage2_search:
  assumes "unat sz \<le> 2 ^ 31" and "align \<noteq> 0" and "unat sz + sizeof_image_header \<le> length mem"
  shows "returns (loop (stage2_body mem sz align) off0) (search_result (header_at mem) sz align off0)"
proof (rule loop_rule [where m = "search_measure sz align" and
      I = "\<lambda>off. \<exists>k :: nat. off = off0 + of_nat k * align \<and>
        (\<forall>j < k. off0 + of_nat j * align < sz \<and> \<not> header_at mem (off0 + of_nat j * align))"], goal_cases)
  case 1
  show ?case by (rule exI [of _ 0]) simp
next
  case (2 off)
  then obtain k :: nat where k: "off = off0 + of_nat k * align"
    "\<forall>j < k. off0 + of_nat j * align < sz \<and> \<not> header_at mem (off0 + of_nat j * align)" by blast
  show ?case
  proof (cases "off < sz")
    case True
    then have "unat off + sizeof_image_header \<le> length mem" using assms(3) by (simp add: word_less_nat_alt)
    moreover have "\<exists>k' :: nat. off + align = off0 + of_nat k' * align \<and>
        (\<forall>j < k'. off0 + of_nat j * align < sz \<and> \<not> header_at mem (off0 + of_nat j * align))" if "\<not> header_at mem off"
      using k True that by (intro exI [of _ "Suc k"]) (auto simp: less_Suc_eq algebra_simps)
    ultimately show ?thesis
      using True k search_step [OF assms(1,2) True]
      by (auto simp: stage2_body_def ret_simps search_result_def header_at_def Let_def)
  next
    case False
    with k show ?thesis by (auto simp: stage2_body_def search_result_def not_less)
  qed
qed

text \<open>An image that starts with a first stage, and names an alignment.\<close>

definition two_stage :: "u32 list \<Rightarrow> bytes \<Rightarrow> mtk_spl_rom_cfg \<Rightarrow> bool" where
  "two_stage tbl mem rom_cfg \<longleftrightarrow>
     (let hdr = take sizeof_image_header mem in image_get_magic hdr = IH_MAGIC \<longrightarrow> header_valid hdr \<and> spl_header tbl hdr) \<and>
     rom_cfg = rom_cfg_of_bytes (take 12 (drop (sizeof_image_header + MTK_SPL_ROM_CFG_OFFS) mem)) \<and>
     cfg_magic rom_cfg = MTK_ROM_CFG_MAGIC \<and> cfg_align rom_cfg \<noteq> 0"

text \<open>
  C35: The search for the second stage of a bootloader image ends, whatever alignment the image
  names, and finds the first one. For every image of at most 2 GiB in memory,
  \<open>get_mtk_stage2_image_ptr\<close> returns; for a two-stage image the result is the first offset, from the
  aligned end of the first stage on in steps of the alignment, that carries a valid header inside
  the image, or NULL when there is none.
\<close>

theorem get_mtk_stage2_image_ptr_finds:
  assumes "unat sz \<le> 2 ^ 31" and "unat sz + sizeof_image_header \<le> length mem"
    and "sizeof_image_header + MTK_SPL_ROM_CFG_OFFS + 12 \<le> length mem"
  shows "\<exists>r. get_mtk_stage2_image_ptr tbl mem sz = Some r \<and>
    (\<forall>rom_cfg. two_stage tbl mem rom_cfg \<longrightarrow>
     search_result (header_at mem) sz (cfg_align rom_cfg) (ALIGN (cfg_size rom_cfg + of_nat sizeof_image_header) (cfg_align rom_cfg)) r)"
proof -
  let ?cfg = "rom_cfg_of_bytes (take 12 (drop (sizeof_image_header + MTK_SPL_ROM_CFG_OFFS) mem))"
  let ?off = "ALIGN (cfg_size ?cfg + of_nat sizeof_image_header) (cfg_align ?cfg)"
  have search: "\<exists>r. loop (stage2_body mem sz (cfg_align ?cfg)) ?off = Some r \<and> search_result (header_at mem) sz (cfg_align ?cfg) ?off r"
    if "cfg_align ?cfg \<noteq> 0"
    using stage2_search [OF assms(1) that assms(2), of ?off] by (simp add: returns_iff)
  show ?thesis
    using assms(3) search
    by (auto simp: get_mtk_stage2_image_ptr_def two_stage_def mem_read_def Let_def)
qed

text \<open>A first stage of 100 bytes with an alignment of 64, and nothing behind it.\<close>

definition two_stage_image :: bytes where
  "two_stage_image = replicate 128 0 @ enc32 MTK_ROM_CFG_MAGIC @ enc32 100 @ enc32 64 @ replicate 180 0"

lemma two_stage_image_facts:
  "length two_stage_image = 320" "image_get_magic (take 64 two_stage_image) \<noteq> IH_MAGIC"
  "rom_cfg_of_bytes (take 12 (drop 128 two_stage_image)) = \<lparr>cfg_magic = MTK_ROM_CFG_MAGIC, cfg_size = 100, cfg_align = 64\<rparr>"
proof -
  have "dec32 (replicate 4 0) = 0" by code_simp
  then show "image_get_magic (take 64 two_stage_image) \<noteq> IH_MAGIC"
    by (simp add: image_get_magic_def be32_def two_stage_image_def)
qed (simp_all add: two_stage_image_def rom_cfg_of_bytes_def u32.dec_enc)

theorem get_mtk_stage2_image_ptr_finds_witness:
  "\<exists>r. get_mtk_stage2_image_ptr [] two_stage_image 256 = Some r \<and> search_result (header_at two_stage_image) 256 64 192 r"
proof -
  have "two_stage [] two_stage_image \<lparr>cfg_magic = MTK_ROM_CFG_MAGIC, cfg_size = 100, cfg_align = 64\<rparr>"
    using two_stage_image_facts by (simp add: two_stage_def)
  moreover have "unat (256 :: u32) \<le> 2 ^ 31" "unat (256 :: u32) + sizeof_image_header \<le> length two_stage_image"
    "sizeof_image_header + MTK_SPL_ROM_CFG_OFFS + 12 \<le> length two_stage_image"
    using two_stage_image_facts by simp_all
  moreover have "ALIGN (100 + of_nat sizeof_image_header) 64 = 192" by (simp add: ALIGN_def)
  ultimately show ?thesis using get_mtk_stage2_image_ptr_finds [of 256 two_stage_image "[]"] by fastforce
qed

end
