(* ===== verification/Mtk_Upgrade.thy ===== *)
theory Mtk_Upgrade
  imports Stage2 Flash_Part Strto
begin

text \<open>
  Upgrading the bootloader and the firmware (\<^verbatim>\<open>board/ralink/common/cmd_mtkupgrade.c\<close> from
  \<^verbatim>\<open>check_mtd_bootloader_size\<close> on, and \<^verbatim>\<open>bootloader_write\<close> of \<^verbatim>\<open>board/ralink/common/zyxel_util.c\<close>).

  \<^item> The flash is any \<open>flash_ops\<close>; \<open>dev\<close> gives its MTD device for \<open>check_mtk_stock_stage2_info\<close>.
  \<^item> \<open>mem\<close> is the memory from the load address on. Loading the file is not modelled: it is the
    argument \<open>load\<close> of the command, the file's bytes at the start of memory and its size.
  \<^item> Answers on the console are arguments. Of the configuration, \<open>env\<close> is the environment's area
    (\<open>None\<close>: \<^verbatim>\<open>CONFIG_ENV_IS_NOWHERE\<close>) and \<open>backup\<close> the backup partition (\<open>None\<close>: no
    \<^verbatim>\<open>CONFIG_MTK_DUAL_IMAGE_SUPPORT\<close>).
\<close>

section \<open>Checks\<close>

definition check_mtd_bootloader_size :: "part_table \<Rightarrow> bool \<Rightarrow> u32 \<Rightarrow> int" where
  "check_mtd_bootloader_size tab confirm data_size =
     (case (get_mtd_part_info tab ''u-boot'', get_mtd_part_info tab ''Bootloader'') of
        (Inl _, Inl _) \<Rightarrow> 0
      | (Inl _, Inr (part_off, part_size)) \<Rightarrow> if part_off = 0 \<and> part_size < ucast data_size \<and> \<not> confirm then 1 else 0
      | (Inr (part_off, part_size), _) \<Rightarrow> if part_off = 0 \<and> part_size < ucast data_size \<and> \<not> confirm then 1 else 0)"

abbreviation (input) SZ_4K :: u32 where "SZ_4K \<equiv> 0x1000"

definition verify_body :: "'s flash_ops \<Rightarrow> bytes \<Rightarrow> 's \<times> bytes \<times> u64 \<times> nat \<times> u32 \<Rightarrow> (int \<times> 's + 's \<times> bytes \<times> u64 \<times> nat \<times> u32) option" where
  "verify_body fl buf = (\<lambda>(s, data, offset, ptr, len).
     if len = 0 then Some (Inl (0, s))
     else do {
       let readlen = (if SZ_4K > len then len else SZ_4K);
       (ret, data, s) \<leftarrow> fl_read fl s offset readlen data;
       if ret \<noteq> 0 then Some (Inl (ret, s))
       else do {
         got \<leftarrow> mem_read 0 (unat readlen) data;
         want \<leftarrow> mem_read ptr (unat readlen) buf;
         if got \<noteq> want then Some (Inl (1, s))
         else Some (Inr (s, data, offset + ucast readlen, ptr + unat readlen, len - readlen))
       }
     })"

definition do_data_verify :: "'s flash_ops \<Rightarrow> 's \<Rightarrow> u64 \<Rightarrow> u32 \<Rightarrow> bytes \<Rightarrow> (int \<times> 's) option" where
  "do_data_verify fl s offset len buf = loop (verify_body fl buf) (s, replicate (unat SZ_4K) 0, offset, 0, len)"

definition verify_stage2_integrity :: "bytes \<Rightarrow> u32 \<Rightarrow> int option" where
  "verify_stage2_integrity data sz = do {
     hdr \<leftarrow> mem_read 0 sizeof_image_header data;
     if image_get_magic hdr \<noteq> IH_MAGIC then Some 1
     else if image_get_size hdr + of_nat sizeof_image_header > sz then Some 1
     else do {
       body \<leftarrow> mem_read sizeof_image_header (unat (image_get_size hdr)) data;
       Some (if crc32 0 0 body \<noteq> image_get_dcrc hdr then 1 else 0)
     }
   }"

text \<open>The same check in the other file.\<close>

definition verify_bootloader_stage2_integrity :: "bytes \<Rightarrow> u32 \<Rightarrow> int option" where
  "verify_bootloader_stage2_integrity data sz = do {
     hdr \<leftarrow> mem_read 0 sizeof_image_header data;
     if image_get_magic hdr \<noteq> IH_MAGIC then Some 1
     else if image_get_size hdr + of_nat sizeof_image_header > sz then Some 1
     else do {
       body \<leftarrow> mem_read sizeof_image_header (unat (image_get_size hdr)) data;
       Some (if crc32 0 0 body \<noteq> image_get_dcrc hdr then 1 else 0)
     }
   }"

section \<open>The bootloader\<close>

definition do_write_bootloader :: "part_table \<Rightarrow> bool \<Rightarrow> (u64 \<times> u64) option \<Rightarrow> 's flash_ops \<Rightarrow> 's \<Rightarrow> u32 \<Rightarrow> bytes \<Rightarrow> u32 \<Rightarrow> u32
    \<Rightarrow> (int \<times> 's) option" where
  "do_write_bootloader tab confirm env fl s stock_stage2_off mem data_size stage1_size = do {
     let stock_stage2_off = (if stock_stage2_off \<noteq> 0 \<and> stage1_size \<noteq> 0 then 0 else stock_stage2_off);
     if check_mtd_bootloader_size tab confirm (stock_stage2_off + data_size) \<noteq> 0 then Some (1, s)
     else do {
       let erase_size = ALIGN data_size (fl_erase_size fl s);
       (ret, s) \<leftarrow> fl_erase fl s (ucast stock_stage2_off) (ucast erase_size);
       if ret \<noteq> 0 then Some (1, s)
       else do {
         data \<leftarrow> mem_read 0 (unat data_size) mem;
         (ret, s) \<leftarrow> fl_write fl s (ucast stock_stage2_off) data_size data;
         if ret \<noteq> 0 then Some (1, s)
         else do {
           (ret, s) \<leftarrow> do_data_verify fl s (ucast stock_stage2_off) data_size mem;
           if ret \<noteq> 0 then Some (1, s)
           else case env of
             None \<Rightarrow> Some (0, s)
           | Some (env_offset, env_size) \<Rightarrow> do {
               (_, s) \<leftarrow> fl_erase fl s env_offset env_size;
               Some (0, s)
             }
         }
       }
     }
   }"

text \<open>
  Where the second stage goes, from what is on flash; \<open>None\<close> stands for the jump to
  \<^verbatim>\<open>do_write_bl_single\<close>.
\<close>

definition stage2_target :: "u32 \<Rightarrow> u32 \<times> u32 \<times> u32 \<Rightarrow> u32 option" where
  "stage2_target flash_block_size = (\<lambda>(stock_stage2_off_min, stock_stage2_off, stock_block_size).
     if flash_block_size = 0 then None
     else if stock_block_size = flash_block_size then Some stock_stage2_off
     else if stock_block_size < flash_block_size then
       if stock_block_size = 0 then None
       else if flash_block_size mod stock_block_size \<noteq> 0 then None
       else if stock_stage2_off mod flash_block_size \<noteq> 0 then
         if stock_stage2_off_min mod flash_block_size \<noteq> 0 then
           let tmp = ALIGN stock_stage2_off_min flash_block_size in
           if tmp > stock_stage2_off then None else Some tmp
         else Some stock_stage2_off_min
       else Some stock_stage2_off
     else if stock_block_size mod flash_block_size \<noteq> 0 then None
     else Some stock_stage2_off)"

definition write_bootloader :: "u32 list \<Rightarrow> u32 option \<Rightarrow> ('s \<Rightarrow> 's mtd_dev) \<Rightarrow> part_table \<Rightarrow> bool \<Rightarrow> (u64 \<times> u64) option
    \<Rightarrow> 's flash_ops \<Rightarrow> 's \<Rightarrow> bytes \<Rightarrow> u32 \<Rightarrow> (int \<times> 's) option" where
  "write_bootloader tbl max_u_boot_size dev tab confirm env fl s mem data_size = do {
     stage2 \<leftarrow> get_mtk_stage2_image_ptr tbl mem data_size;
     case stage2 of
       None \<Rightarrow> do_write_bootloader tab confirm env fl s 0 mem data_size 0
     | Some data_stage1_size \<Rightarrow> do {
         bad \<leftarrow> verify_stage2_integrity (drop (unat data_stage1_size) mem) (data_size - data_stage1_size);
         if bad \<noteq> 0 then Some (1, s)
         else do {
           (stock, mtdp) \<leftarrow> check_mtk_stock_stage2_info tbl max_u_boot_size dev (Some s);
           s \<leftarrow> mtdp;
           case Option.bind stock (stage2_target (fl_erase_size fl s)) of
             None \<Rightarrow> do_write_bootloader tab confirm env fl s 0 mem data_size 0
           | Some off \<Rightarrow> do_write_bootloader tab confirm env fl s off mem data_size data_stage1_size
         }
       }
   }"

text \<open>
  The other bootloader upgrade, from the network: \<open>data_size\<close> is the result of \<^verbatim>\<open>net_loop\<close>, and
  \<open>part_size\<close> what the uninitialised variable holds when the partition is not found.
\<close>

definition bootloader_write :: "(u32 \<Rightarrow> bytes option) \<Rightarrow> u32 list \<Rightarrow> u32 option \<Rightarrow> ('s \<Rightarrow> 's mtd_dev) \<Rightarrow> part_table \<Rightarrow> u64 \<times> u64
    \<Rightarrow> 's flash_ops \<Rightarrow> 's option \<Rightarrow> bytes \<Rightarrow> int \<Rightarrow> u64 \<Rightarrow> (int \<times> 's option) option" where
  "bootloader_write alloc tbl max_u_boot_size dev tab env fl flashp mem size_or_error part_size =
     (if flashp = None then Some (-1, flashp)
      else if size_or_error < 0 then Some (-1, flashp)
      else do {
        let data_size = (word_of_int size_or_error :: u32);
        let part_size = (case get_mtd_part_info tab ''u-boot'' of Inl _ \<Rightarrow> part_size | Inr (_, ps) \<Rightarrow> ps);
        if ucast data_size > part_size then Some (-1, flashp)
        else do {
          stage2 \<leftarrow> get_mtk_stage2_image_ptr tbl mem data_size;
          case stage2 of
            None \<Rightarrow> Some (-1, flashp)
          | Some data_stage1_size \<Rightarrow> do {
              bad \<leftarrow> verify_bootloader_stage2_integrity (drop (unat data_stage1_size) mem) (data_size - data_stage1_size);
              if bad \<noteq> 0 then Some (-1, flashp)
              else do {
                (stock, flashp) \<leftarrow> check_mtk_stock_stage2_info tbl max_u_boot_size dev flashp;
                if stock = None then Some (-1, flashp)
                else do {
                  (ret, flashp) \<leftarrow> flash_part_write alloc tab fl flashp ''u-boot'' mem 0 data_size;
                  if ret \<noteq> 0 then Some (ret, flashp)
                  else do {
                    s \<leftarrow> flashp;
                    (ret, s) \<leftarrow> fl_erase fl s (fst env) (snd env);
                    Some (ret, Some s)
                  }
                }
              }
            }
        }
      })"

section \<open>The firmware\<close>

definition write_firmware :: "part_table \<Rightarrow> string option \<Rightarrow> 's flash_ops \<Rightarrow> 's \<Rightarrow> bytes \<Rightarrow> u32 \<Rightarrow> (int \<times> 's) option" where
  "write_firmware tab backup fl s mem data_size =
     (case get_mtd_part_info tab ''firmware'' of
        Inl _ \<Rightarrow> Some (1, s)
      | Inr (part_off, part_size) \<Rightarrow>
          if part_off = 0 then Some (1, s)
          else if fl_erase_size fl s = 0 then None
          else if part_off mod ucast (fl_erase_size fl s) \<noteq> 0 then Some (1, s)
          else if part_size < ucast data_size then Some (1, s)
          else do {
            let erase_size = ALIGN data_size (fl_erase_size fl s);
            (ret, s) \<leftarrow> fl_erase fl s part_off (ucast erase_size);
            if ret \<noteq> 0 then Some (1, s)
            else do {
              data \<leftarrow> mem_read 0 (unat data_size) mem;
              (ret, s) \<leftarrow> fl_write fl s part_off data_size data;
              if ret \<noteq> 0 then Some (1, s)
              else case Option.bind backup (\<lambda>name. case get_mtd_part_info tab name of Inl _ \<Rightarrow> None | Inr (off, _) \<Rightarrow> Some off) of
                None \<Rightarrow> Some (0, s)
              | Some backup_off \<Rightarrow> do {
                  (_, s) \<leftarrow> fl_erase fl s backup_off (ucast (fl_erase_size fl s));
                  Some (0, s)
                }
            }
          })"

datatype file_type = TYPE_BL | TYPE_FW

record 's upgrade_env =
  up_tbl :: "u32 list"
  up_max_u_boot_size :: "u32 option"
  up_dev :: "'s \<Rightarrow> 's mtd_dev"
  up_tab :: part_table
  up_confirm :: bool
  up_env :: "(u64 \<times> u64) option"
  up_backup :: "string option"
  up_flash :: "'s flash_ops"

definition write_data :: "'s upgrade_env \<Rightarrow> file_type \<Rightarrow> 's option \<Rightarrow> bytes \<Rightarrow> u32 \<Rightarrow> (int \<times> 's option) option" where
  "write_data e ft flashp mem data_size =
     (case flashp of
        None \<Rightarrow> Some (1, None)
      | Some s \<Rightarrow> do {
          (ret, s) \<leftarrow> (case ft of
              TYPE_BL \<Rightarrow> write_bootloader (up_tbl e) (up_max_u_boot_size e) (up_dev e) (up_tab e) (up_confirm e) (up_env e)
                (up_flash e) s mem data_size
            | TYPE_FW \<Rightarrow> write_firmware (up_tab e) (up_backup e) (up_flash e) s mem data_size);
          Some (if ret \<noteq> 0 then 1 else 0, Some s)
        })"

definition write_firmware_failsafe :: "part_table \<Rightarrow> string option \<Rightarrow> 's flash_ops \<Rightarrow> 's option \<Rightarrow> bytes \<Rightarrow> u32 \<Rightarrow> (int \<times> 's option) option" where
  "write_firmware_failsafe tab backup fl flashp mem data_size =
     (case flashp of
        None \<Rightarrow> Some (1, None)
      | Some s \<Rightarrow> do { (ret, s) \<leftarrow> write_firmware tab backup fl s mem data_size; Some (ret, Some s) })"

text \<open>\<^verbatim>\<open>strcasecmp\<close> as an equality.\<close>

definition same_nocase :: "string \<Rightarrow> string \<Rightarrow> bool" where
  "same_nocase a b \<longleftrightarrow>
     (let lower = (\<lambda>c. if of_char c \<in> {65 .. (90 :: nat)} then of_char c + (32 :: nat) else of_char c) in map lower a = map lower b)"

text \<open>
  The command. \<open>select\<close> is what \<^verbatim>\<open>select_part\<close> returns; restarting or starting the firmware
  afterwards is not modelled.
\<close>

definition do_mtkupgrade :: "'s upgrade_env \<Rightarrow> string option \<Rightarrow> (bytes \<times> u32) option \<Rightarrow> 's option \<Rightarrow> string list \<Rightarrow> (int \<times> 's option) option" where
  "do_mtkupgrade e select load flashp argv =
     (case (if length argv < 2 then select else Some (argv ! 1)) of
        None \<Rightarrow> Some (1, flashp)
      | Some part \<Rightarrow>
          if \<not> same_nocase part ''bl'' \<and> \<not> same_nocase part ''fw'' then Some (EINVAL, flashp)
          else case load of
            None \<Rightarrow> Some (1, flashp)
          | Some (mem, data_size) \<Rightarrow> do {
              (ret, flashp) \<leftarrow> write_data e (if same_nocase part ''bl'' then TYPE_BL else TYPE_FW) flashp mem data_size;
              Some (if ret \<noteq> 0 then 1 else 0, flashp)
            })"

section \<open>Upgrades on a flash that keeps its contents\<close>

lemma ALIGN_round_up:
  assumes "unat a = 2 ^ k" and "unat x + unat a \<le> 2 ^ 32"
  shows "unat (ALIGN x a) = round_up (unat a) (unat x)"
proof -
  have k: "k < 32" using assms(1) unat_u32_less [of a] by (metis nat_power_less_imp_less zero_less_numeral numeral_2_eq_2 lessI)
  then have "a = 2 ^ k" using assms(1) by (simp add: word_unat_eq_iff unat_pow2)
  then have "ALIGN x a = NMBM_ALIGN x (2 ^ k)" by (simp add: ALIGN_def NMBM_ALIGN_def algebra_simps)
  then show ?thesis
    using unat_align [OF k, of x] assms by (simp add: round_up_def)
qed

text \<open>
  Erasing the blocks of a range and writing data to its start: the data is there, the blocks are blank behind the last page of the data,
  and what lies outside the blocks is unchanged.
\<close>

definition installed :: "nat \<Rightarrow> nat \<Rightarrow> nat \<Rightarrow> bytes \<Rightarrow> (nat \<Rightarrow> u8) \<Rightarrow> (nat \<Rightarrow> u8) \<Rightarrow> nat \<Rightarrow> bool" where
  "installed es ws off data c c' a \<longleftrightarrow>
     (off \<le> a \<and> a < off + length data \<longrightarrow> c' a = data ! (a - off)) \<and>
     (off + round_up ws (length data) \<le> a \<and> a < off + round_up es (length data) \<longrightarrow> c' a = 0xff) \<and>
     (a < off \<or> off + round_up es (length data) \<le> a \<longrightarrow> c' a = c a)"

lemma round_up_least:
  assumes "0 < ws" and "ws dvd m" and "n \<le> m"
  shows "round_up ws n \<le> m"
proof -
  have "(n + ws - 1) div ws \<le> (m + (ws - 1)) div ws" using assms(1,3) by (intro div_le_mono) simp
  also have "\<dots> = m div ws" unfolding div_plus_div_distrib_dvd_left [OF assms(2)] using assms(1) by simp
  finally show ?thesis using assms(2) unfolding round_up_def by (metis dvd_div_mult_self mult_le_mono1)
qed

lemma installed_blocks:
  assumes "0 < es" and "0 < ws" and "ws dvd es" and "es dvd off" and "data \<noteq> []"
    and "blanked es off (round_up es (length data)) c c1 a" and "written ws off data c1 c2 a"
  shows "installed es ws off data c c2 a"
proof -
  let ?n = "round_up es (length data)" and ?p = "round_up ws (length data)"
  have n: "length data \<le> ?n" "es dvd ?n" "length data \<le> ?p" "ws dvd ?p"
    using round_up(1) [OF assms(1)] round_up(1) [OF assms(2)] round_up(2) by simp_all
  have lt: "off < off + ?n" "off < off + ?p" using n(1,3) assms(5) by (cases data; auto)+
  have "?p \<le> ?n" using n(1,2) assms(2,3) by (intro round_up_least) (auto intro: dvd_trans)
  have c1: "c1 a = (if off \<le> a \<and> a < off + ?n then 0xff else c a)"
    using assms(6) unfolding blanked_def whole_blocks(1,2) [OF assms(1,4) dvd_add [OF assms(4) n(2)] lt(1)] .
  have "(off + length data - 1) div ws < a div ws" if "off + ?p \<le> a"
  proof -
    have "(off + length data - 1) div ws \<le> (off + ?p - 1) div ws" using n(3) by (intro div_le_mono) simp
    also have "\<dots> < a div ws"
      using whole_blocks(3) [OF assms(2) _ _ lt(2)] assms(3,4) n(4) that by (meson dvd_add dvd_trans)
    finally show ?thesis .
  qed
  then show ?thesis using assms(7) c1 n(1,3) \<open>?p \<le> ?n\<close> by (auto simp: installed_def written_def ff_and)
qed

context storage
begin

lemma erase_and_write:
  assumes "ok s" and "es = 2 ^ k" and "es dvd unat off" and "data_size \<noteq> 0" and "unat data_size \<le> length mem"
    and "unat data_size + es \<le> 2 ^ 32" and "unat off + round_up es (unat data_size) \<le> cap"
  obtains s1 s2 where "fl_erase fl s off (ucast (ALIGN data_size (fl_erase_size fl s))) = Some (0, s1)"
    "fl_write fl s1 off data_size (take (unat data_size) mem) = Some (0, s2)" "ok s2"
    "\<forall>a < cap. installed es ws (unat off) (take (unat data_size) mem) (content s) (content s2) a"
proof -
  let ?n = "round_up es (unat data_size)" and ?data = "take (unat data_size) mem"
  have es: "unat (fl_erase_size fl s) = es" "0 < es" "0 < ws" "ws dvd es" using sizes [OF assms(1)] by simp_all
  have al: "unat (ALIGN data_size (fl_erase_size fl s)) = ?n"
    using ALIGN_round_up [of "fl_erase_size fl s" k data_size] assms(2,6) es(1) by simp
  have d: "0 < unat data_size" "length ?data = unat data_size" using assms(4,5) by (simp_all add: unat_gt_0)
  have n: "unat data_size \<le> ?n" by (rule round_up(1) [OF es(2)])
  have "unat (ucast (ALIGN data_size (fl_erase_size fl s)) :: u64) = ?n" "ucast (ALIGN data_size (fl_erase_size fl s)) \<noteq> (0 :: u64)"
    using al n d by (auto simp: word_unat_eq_iff)
  then obtain s1 where e: "fl_erase fl s off (ucast (ALIGN data_size (fl_erase_size fl s))) = Some (0, s1)" and ok1: "ok s1"
    and c1: "\<forall>a < cap. blanked es (unat off) ?n (content s) (content s1) a"
    using erases [OF assms(1), of off "ucast (ALIGN data_size (fl_erase_size fl s))"] assms(7) by auto
  obtain s2 where w: "fl_write fl s1 off data_size ?data = Some (0, s2)" and ok2: "ok s2"
    and c2: "\<forall>a < cap. written ws (unat off) ?data (content s1) (content s2) a"
    using writes [OF ok1, of off data_size ?data] assms(4,7) d(2) n by auto
  have "?data \<noteq> []" using d by auto
  then have "\<forall>a < cap. installed es ws (unat off) ?data (content s) (content s2) a"
    using installed_blocks [OF es(2-4) assms(3), of ?data] c1 c2 d(2) by metis
  then show ?thesis by (rule that [OF e w ok2])
qed

lemma verify_succeeds:
  assumes "ok s" and "unat off + unat len \<le> cap" and "unat len \<le> length buf"
    and "\<forall>i < unat len. content s (unat off + i) = buf ! i"
  shows "returns (do_data_verify fl s off len buf) (\<lambda>(ret, s'). ret = 0 \<and> ok s' \<and> content s' = content s)"
  unfolding do_data_verify_def
proof (rule loop_rule [where m = "\<lambda>(_, _, _, _, l). unat l" and
      I = "\<lambda>(s', data, o', ptr, l). ok s' \<and> content s' = content s \<and> length data = unat SZ_4K \<and>
        unat o' = unat off + ptr \<and> ptr + unat l = unat len"], goal_cases)
  case 1
  show ?case using assms(1) by simp
next
  case (2 x)
  obtain s' data o' ptr l where x: "x = (s', data, o', ptr, l)" by (cases x)
  have I: "ok s'" "content s' = content s" "length data = unat SZ_4K" "unat o' = unat off + ptr" "ptr + unat l = unat len"
    using 2 by (simp_all add: x)
  show ?case
  proof (cases "l = 0")
    case True
    then show ?thesis using I by (simp add: x verify_body_def)
  next
    case False
    define n where "n = (if SZ_4K > l then l else SZ_4K)"
    have n: "unat n \<le> unat l" "unat n \<le> unat SZ_4K" "0 < unat n" "n \<noteq> 0" "n \<le> l"
      using False by (auto simp: n_def word_less_nat_alt word_le_nat_alt unat_gt_0)
    have "unat o' + unat n \<le> cap" "unat n \<le> length data" using I n assms(2) by simp_all
    from reads [OF I(1) this n(4)] obtain s2 where r: "fl_read fl s' o' n data = Some (0,
        map (\<lambda>i. content s (unat o' + i)) [0..<unat n] @ drop (unat n) data, s2)" and ok2: "ok s2" "content s2 = content s"
      using I(2) by auto
    have want: "map (\<lambda>i. content s (unat o' + i)) [0..<unat n] = take (unat n) (drop ptr buf)" "ptr + unat n \<le> length buf"
      using assms(3,4) I(4,5) n(1) by (auto intro!: nth_equalityI simp: add.assoc)
    have "unat (o' + ucast n) = unat off + (ptr + unat n)"
    proof -
      have "cap < 2 ^ 64" using sizes(2) [OF assms(1)] by simp
      then show ?thesis using I(4,5) n(1) assms(2) by (simp add: unat_word_ariths)
    qed
    moreover have "unat (l - n) = unat l - unat n" using n(5) by (simp add: unat_sub)
    ultimately show ?thesis
      using I n r ok2 want False
      by (simp add: x verify_body_def n_def [symmetric] ret_simps mem_read_def)
  qed
qed

text \<open>The result of erasing one more area at block boundaries.\<close>

lemma erase_area:
  assumes "ok s" and "es dvd unat off" and "es dvd unat len" and "len \<noteq> 0" and "unat off + unat len \<le> cap"
  obtains s' where "fl_erase fl s off len = Some (0, s')" "ok s'"
    "\<forall>a < cap. content s' a = (if unat off \<le> a \<and> a < unat off + unat len then 0xff else content s a)"
proof -
  have es: "0 < es" using sizes [OF assms(1)] by simp
  have lt: "unat off < unat off + unat len" using assms(4) by (simp add: unat_gt_0)
  obtain s' where "fl_erase fl s off len = Some (0, s')" "ok s'" "\<forall>a < cap. blanked es (unat off) (unat len) (content s) (content s') a"
    using erases [OF assms(1,5,4)] by blast
  then show ?thesis
    unfolding blanked_def whole_blocks(1,2) [OF es assms(2) dvd_add [OF assms(2,3)] lt] by (rule that)
qed

lemma firmware_installed:
  assumes "ok s" and "es = 2 ^ k" and "get_mtd_part_info tab ''firmware'' = Inr (po, ps)" and "po \<noteq> 0" and "es dvd unat po"
    and "unat data_size \<le> unat ps" and "data_size \<noteq> 0" and "unat data_size \<le> length mem" and "unat data_size + es \<le> 2 ^ 32"
    and "unat po + round_up es (unat data_size) \<le> cap"
    and "get_mtd_part_info tab backup = Inr (bo, bs)" and "es dvd unat bo" and "unat bo + es \<le> cap"
  obtains s1 s' where "write_firmware tab (Some backup) fl s mem data_size = Some (0, s')" "ok s'"
    "\<forall>a < cap. installed es ws (unat po) (take (unat data_size) mem) (content s) (content s1) a"
    "\<forall>a < cap. content s' a = (if unat bo \<le> a \<and> a < unat bo + es then 0xff else content s1 a)"
proof -
  have es: "unat (fl_erase_size fl s) = es" "0 < es" "es < 2 ^ 32" "fl_erase_size fl s \<noteq> 0"
    using sizes [OF assms(1)] unat_u32_less [of "fl_erase_size fl s"] by auto
  obtain s1 s2 where e: "fl_erase fl s po (ucast (ALIGN data_size (fl_erase_size fl s))) = Some (0, s1)"
    and w: "fl_write fl s1 po data_size (take (unat data_size) mem) = Some (0, s2)" and ok2: "ok s2"
    and c2: "\<forall>a < cap. installed es ws (unat po) (take (unat data_size) mem) (content s) (content s2) a"
    by (rule erase_and_write [OF assms(1,2,5,7-10)])
  have len: "unat (ucast (fl_erase_size fl s2) :: u64) = es" using sizes [OF ok2] by simp
  then have "(ucast (fl_erase_size fl s2) :: u64) \<noteq> 0" using es(2) by (metis less_irrefl unat_0)
  then obtain s3 where b: "fl_erase fl s2 bo (ucast (fl_erase_size fl s2)) = Some (0, s3)" and ok3: "ok s3"
    and c3: "\<forall>a < cap. content s3 a = (if unat bo \<le> a \<and> a < unat bo + es then 0xff else content s2 a)"
    using erase_area [OF ok2 assms(12), of "ucast (fl_erase_size fl s2)"] len assms(13) by (metis dvd_refl)
  have "unat (po mod ucast (fl_erase_size fl s)) = 0" using assms(5) es(1) by (simp add: unat_mod_distrib)
  then have "po mod ucast (fl_erase_size fl s) = 0" by (simp add: unat_eq_zero)
  moreover have "\<not> ps < ucast data_size" using assms(6) by (simp add: word_less_nat_alt)
  ultimately have "write_firmware tab (Some backup) fl s mem data_size = Some (0, s3)"
    using assms(3,4,8,11) es e w b by (simp add: write_firmware_def mem_read_def)
  then show ?thesis by (rule that [OF _ ok3 c2 c3])
qed

lemma bootloader_installed:
  assumes "ok s" and "es = 2 ^ k" and "target = (if off \<noteq> 0 \<and> stage1_size \<noteq> 0 then 0 else off)"
    and "check_mtd_bootloader_size tab confirm (target + data_size) = 0" and "es dvd unat target"
    and "data_size \<noteq> 0" and "unat data_size \<le> length mem" and "unat data_size + es \<le> 2 ^ 32"
    and "unat target + round_up es (unat data_size) \<le> cap"
    and "es dvd unat eo" and "es dvd unat en" and "en \<noteq> 0" and "unat eo + unat en \<le> cap"
  obtains s1 s' where "do_write_bootloader tab confirm (Some (eo, en)) fl s off mem data_size stage1_size = Some (0, s')" "ok s'"
    "\<forall>a < cap. installed es ws (unat target) (take (unat data_size) mem) (content s) (content s1) a"
    "\<forall>a < cap. content s' a = (if unat eo \<le> a \<and> a < unat eo + unat en then 0xff else content s1 a)"
proof -
  have es: "0 < es" using sizes [OF assms(1)] by simp
  have t: "unat (ucast target :: u64) = unat target" by simp
  obtain s1 s2 where e: "fl_erase fl s (ucast target) (ucast (ALIGN data_size (fl_erase_size fl s))) = Some (0, s1)"
    and w: "fl_write fl s1 (ucast target) data_size (take (unat data_size) mem) = Some (0, s2)" and ok2: "ok s2"
    and c2: "\<forall>a < cap. installed es ws (unat target) (take (unat data_size) mem) (content s) (content s2) a"
    by (rule erase_and_write [OF assms(1,2) _ assms(6-8), of "ucast target"]) (use assms(5,9) t in auto)
  have n: "unat data_size \<le> round_up es (unat data_size)" by (rule round_up(1) [OF es])
  have "content s2 (unat target + i) = mem ! i" if "i < unat data_size" for i
    using c2 [rule_format, of "unat target + i"] that n assms(7,9) by (simp add: installed_def)
  then have "\<forall>i < unat data_size. content s2 (unat (ucast target :: u64) + i) = mem ! i" by simp
  moreover have "unat (ucast target :: u64) + unat data_size \<le> cap" using n assms(9) by simp
  ultimately obtain s3 where v: "do_data_verify fl s2 (ucast target) data_size mem = Some (0, s3)" and ok3: "ok s3" and c3: "content s3 = content s2"
    using verify_succeeds [OF ok2, of "ucast target" data_size mem] assms(7) by (auto simp: returns_iff)
  obtain s4 where r: "fl_erase fl s3 eo en = Some (0, s4)" and ok4: "ok s4"
    and c4: "\<forall>a < cap. content s4 a = (if unat eo \<le> a \<and> a < unat eo + unat en then 0xff else content s2 a)"
    using erase_area [OF ok3 assms(10-13)] c3 by metis
  have "do_write_bootloader tab confirm (Some (eo, en)) fl s off mem data_size stage1_size = Some (0, s4)"
    using assms(4,7) e w v r unfolding do_write_bootloader_def assms(3) [symmetric] by (simp add: mem_read_def Let_def)
  then show ?thesis by (rule that [OF _ ok4 c2 c4])
qed

end

section \<open>Looking at the bootloader on flash changes nothing\<close>

context reliable_nand
begin

lemma mtd_try:
  assumes "board_ok lower fit cfg cap nm" and "unat len \<le> length buf"
  shows "returns (mtd_read (nm_dev parts nm) nm off len (Some r) buf) (\<lambda>(ret, buf', retlen, nm').
    length buf' = length buf \<and> board_ok lower fit cfg cap nm' \<and> board_content img nm' = board_content img nm)"
proof (cases "unat off + unat len \<le> cap \<and> len \<noteq> 0")
  case True
  then obtain nm' where "board_ok lower fit cfg cap nm'" "board_content img nm' = board_content img nm"
    "mtd_read (nm_dev parts nm) nm off len (Some r) buf = Some (bitflip_result (nm_upper nm) 0,
      map (\<lambda>i. board_content img nm (unat off + i)) [0..<unat len] @ drop (unat len) buf, len, nm')"
    using mtd_read_data [OF assms(1) _ assms(2), of off parts r] by blast
  then show ?thesis using assms(2) by simp
next
  case False
  have "unat (nm_size nm) = cap" using assms(1) by (simp add: board_ok_def)
  with False have "len = 0 \<or> off > nm_size nm \<or> ucast len > nm_size nm - off"
    by (cases "off \<le> nm_size nm") (auto simp: word_less_nat_alt word_le_nat_alt unat_sub not_less)
  with assms(1) show ?thesis by (auto simp: mtd_read_def)
qed

lemma stock_search:
  assumes "board_ok lower fit cfg cap nm" and "unat max_size \<le> 2 ^ 31" and "align \<noteq> 0" and "length hdr = sizeof_image_header"
  shows "returns (loop (stock_body (nm_dev parts) max_size align) (nm, hdr, addr)) (\<lambda>(found, nm').
    board_ok lower fit cfg cap nm' \<and> board_content img nm' = board_content img nm)"
proof (rule loop_rule [where m = "\<lambda>(_, _, addr). search_measure max_size align addr" and
      I = "\<lambda>(nm', hdr, _). board_ok lower fit cfg cap nm' \<and> board_content img nm' = board_content img nm \<and>
        length hdr = sizeof_image_header"], goal_cases)
  case 1
  show ?case using assms by simp
next
  case (2 x)
  obtain nm1 h a where x: "x = (nm1, h, a)" by (cases x)
  have I: "board_ok lower fit cfg cap nm1" "board_content img nm1 = board_content img nm" "length h = sizeof_image_header"
    using 2 by (simp_all add: x)
  have "unat (of_nat sizeof_image_header :: u32) \<le> length h" using I(3) by simp
  from mtd_try [OF I(1) this, of parts "ucast a" 0] show ?case
    using I search_step [OF assms(2,3), of a]
    by (auto simp: x stock_body_def ret_simps blank_hcrc_def elim!: returns_mono)
qed

lemma stock_info:
  assumes "board_ok lower fit cfg cap nm" and "\<forall>m. max_size = Some m \<longrightarrow> unat m \<le> 2 ^ 31"
  shows "returns (check_mtk_stock_stage2_info tbl max_size (nm_dev parts) (Some nm)) (\<lambda>(stock, mtdp).
    \<exists>nm'. mtdp = Some nm' \<and> board_ok lower fit cfg cap nm' \<and> board_content img nm' = board_content img nm)"
proof (cases max_size)
  case None
  then show ?thesis using assms(1) by (simp add: check_mtk_stock_stage2_info_def)
next
  case (Some m)
  have m: "unat m \<le> 2 ^ 31" using assms(2) Some by simp
  have 1: "returns (mtd_read (nm_dev parts nm) nm 0 (of_nat sizeof_image_header) (Some 0) (replicate sizeof_image_header 0))
      (\<lambda>(ret, buf', retlen, nm'). length buf' = sizeof_image_header \<and> board_ok lower fit cfg cap nm' \<and> board_content img nm' = board_content img nm)"
    using mtd_try [OF assms(1), of "of_nat sizeof_image_header" "replicate sizeof_image_header 0" parts 0 0] by simp
  have 2: "returns (mtd_read (nm_dev parts nm1) nm1 (of_nat (sizeof_image_header + MTK_SPL_ROM_CFG_OFFS)) 12 (Some 0) (replicate 12 0))
      (\<lambda>(ret, buf', retlen, nm'). board_ok lower fit cfg cap nm' \<and> board_content img nm' = board_content img nm)"
    if "board_ok lower fit cfg cap nm1" "board_content img nm1 = board_content img nm" for nm1
    using mtd_try [OF that(1), of 12 "replicate 12 0" parts "of_nat (sizeof_image_header + MTK_SPL_ROM_CFG_OFFS)" 0] that(2)
    by (auto elim!: returns_mono)
  have 3: "returns (loop (stock_body (nm_dev parts) m align) (nm2, hdr, addr)) (\<lambda>(found, nm').
      board_ok lower fit cfg cap nm' \<and> board_content img nm' = board_content img nm)"
    if "board_ok lower fit cfg cap nm2" "board_content img nm2 = board_content img nm" "length hdr = sizeof_image_header" "align \<noteq> 0"
    for nm2 hdr align addr
    using stock_search [OF that(1) m that(4,3), of parts addr] that(2) by simp
  show ?thesis
    unfolding check_mtk_stock_stage2_info_def Some
    using 1
    by (simp add: ret_simps Let_def)
      (auto elim!: returns_mono intro!: returns_mono [OF 2 [simplified]] returns_mono [OF 3] simp: blank_crcs_def blank_hcrc_def)
qed

end

section \<open>Properties\<close>

text \<open>
  An upgrade that the partitions allow: a file of \<open>data_size\<close> bytes for the partition at \<open>po\<close>, and
  the backup at \<open>bo\<close>, both at block boundaries and apart.
\<close>

definition firmware_fits :: "part_table \<Rightarrow> string \<Rightarrow> nat \<Rightarrow> nat \<Rightarrow> u32 \<Rightarrow> u64 \<Rightarrow> u64 \<Rightarrow> bool" where
  "firmware_fits tab backup es cap data_size po bo \<longleftrightarrow>
     (case get_mtd_part_info tab ''firmware'' of Inl _ \<Rightarrow> False | Inr (off, ps) \<Rightarrow> off = po \<and> unat data_size \<le> unat ps) \<and>
     (case get_mtd_part_info tab backup of Inl _ \<Rightarrow> False | Inr (off, _) \<Rightarrow> off = bo) \<and>
     po \<noteq> 0 \<and> es dvd unat po \<and> es dvd unat bo \<and> data_size \<noteq> 0 \<and> unat data_size + es \<le> 2 ^ 32 \<and>
     unat po + round_up es (unat data_size) \<le> cap \<and> unat bo + es \<le> cap \<and>
     (unat po + round_up es (unat data_size) \<le> unat bo \<or> unat bo + es \<le> unat po)"

text \<open>
  C14: A firmware upgrade installs the firmware and has the backup replaced. On a chip that works, in every build with dual image
  support on a machine on which the board's erase function returns (\<open>build \<noteq> Partitions\<close>),
  when the file fits its partition, \<open>write_data\<close> reports success, the partition starts with the
  bytes of the file, the first block of the backup partition is blank, so that the next dual image
  check restores the backup from the new firmware, and nothing changes outside this block and the blocks the file needs. In the file's last block everything is blank
  behind the last page of the file; the rest of that page is not specified.
\<close>

theorem firmware_upgrade_installs:
  assumes "build \<noteq> Partitions" and "reliable_nand lower fit img" and "board_ok lower fit cfg cap nm"
    and "unat (mtd_erasesize lower) = es" and "es = 2 ^ k" and "unat (mtd_writesize lower) = ws"
    and "up_flash e = nmbm_flash build" and "up_backup e = Some backup"
    and "firmware_fits (up_tab e) backup es cap data_size po bo" and "unat data_size \<le> length mem"
  shows "\<exists>nm'. write_data e TYPE_FW (Some nm) mem data_size = Some (0, Some nm') \<and> board_ok lower fit cfg cap nm' \<and>
    (\<forall>i < unat data_size. board_content img nm' (unat po + i) = mem ! i) \<and>
    (\<forall>i. round_up ws (unat data_size) \<le> i \<and> i < round_up es (unat data_size) \<longrightarrow> board_content img nm' (unat po + i) = 0xff) \<and>
    (\<forall>i < es. board_content img nm' (unat bo + i) = 0xff) \<and>
    (\<forall>a < cap. (a < unat po \<or> unat po + round_up es (unat data_size) \<le> a) \<and> (a < unat bo \<or> unat bo + es \<le> a) \<longrightarrow>
       board_content img nm' a = board_content img nm a)"
proof -
  note st = reliable_nand.board_storage [OF assms(2), of cfg cap, unfolded assms(4,6), folded null_readable_builds(2) [OF assms(1)]]
  from assms(9) obtain ps bs where f: "get_mtd_part_info (up_tab e) ''firmware'' = Inr (po, ps)" "po \<noteq> 0" "es dvd unat po"
    "unat data_size \<le> unat ps" "data_size \<noteq> 0" "unat data_size + es \<le> 2 ^ 32" "unat po + round_up es (unat data_size) \<le> cap"
    "get_mtd_part_info (up_tab e) backup = Inr (bo, bs)" "es dvd unat bo" "unat bo + es \<le> cap"
    "unat po + round_up es (unat data_size) \<le> unat bo \<or> unat bo + es \<le> unat po"
    by (auto simp: firmware_fits_def split: sum.splits)
  obtain nm1 nm' where w: "write_firmware (up_tab e) (Some backup) (nmbm_flash build) nm mem data_size = Some (0, nm')"
    and ok: "board_ok lower fit cfg cap nm'"
    and c1: "\<forall>a < cap. installed es ws (unat po) (take (unat data_size) mem) (board_content img nm) (board_content img nm1) a"
    and c2: "\<forall>a < cap. board_content img nm' a = (if unat bo \<le> a \<and> a < unat bo + es then 0xff else board_content img nm1 a)"
    by (rule storage.firmware_installed [OF st assms(3,5) f(1-5) assms(10) f(6-10)])
  have "0 < es" using assms(5) by simp
  then have n: "unat data_size \<le> round_up es (unat data_size)" by (rule round_up(1))
  have d: "length (take (unat data_size) mem) = unat data_size" using assms(10) by simp
  have "write_data e TYPE_FW (Some nm) mem data_size = Some (0, Some nm')"
    using w by (simp add: write_data_def assms(7,8))
  moreover have "board_content img nm' (unat po + i) = mem ! i" if "i < unat data_size" for i
    using c1 [rule_format, of "unat po + i"] c2 [rule_format, of "unat po + i"] that n f(7,11) d by (auto simp: installed_def)
  moreover have "board_content img nm' (unat po + i) = 0xff" if "round_up ws (unat data_size) \<le> i" "i < round_up es (unat data_size)" for i
    using c1 [rule_format, of "unat po + i"] c2 [rule_format, of "unat po + i"] that f(7) d by (auto simp: installed_def)
  moreover have "board_content img nm' (unat bo + i) = 0xff" if "i < es" for i
    using c2 [rule_format, of "unat bo + i"] that f(10) by simp
  moreover have "board_content img nm' a = board_content img nm a"
    if "a < cap" "a < unat po \<or> unat po + round_up es (unat data_size) \<le> a" "a < unat bo \<or> unat bo + es \<le> a" for a
    using c1 [rule_format, OF that(1)] c2 [rule_format, OF that(1)] that d by (auto simp: installed_def)
  ultimately show ?thesis using ok by blast
qed

definition sample_upgrade :: "nand nmbm_mtd upgrade_env" where
  "sample_upgrade = \<lparr>up_tbl = [], up_max_u_boot_size = Some 1024, up_dev = nm_dev Partitions_null_readable,
     up_tab = \<lparr>parts_init = 0, parts_find = (\<lambda>n. if n = ''firmware'' then Inr (512, 512) else if n = ''backup'' then Inr (1280, 512)
       else if n = ''u-boot'' then Inr (0, 512) else Inl (-1)), parts_id = (\<lambda>_. (MTD_DEV_TYPE_NMBM, 0))\<rparr>,
     up_confirm = False, up_env = Some (1024, 128), up_backup = Some ''backup'', up_flash = nmbm_flash Partitions_null_readable\<rparr>"

lemma sample_upgrade_simps [simp]:
  "up_flash sample_upgrade = nmbm_flash Partitions_null_readable" "up_backup sample_upgrade = Some ''backup''" "up_dev sample_upgrade = nm_dev Partitions_null_readable"
  "up_env sample_upgrade = Some (1024, 128)" "up_max_u_boot_size sample_upgrade = Some 1024"
  by (simp_all add: sample_upgrade_def)

theorem firmware_upgrade_installs_witness:
  "\<exists>nm'. write_data sample_upgrade TYPE_FW (Some (sample_nm 2 0)) (replicate 300 5) 300 = Some (0, Some nm') \<and>
    (\<forall>i < 300. board_content chip_byte nm' (512 + i) = replicate 300 5 ! i) \<and>
    (\<forall>i < 128. board_content chip_byte nm' (1280 + i) = 0xff)"
proof -
  have "Partitions_null_readable \<noteq> Partitions" "unat (mtd_erasesize (sample_nand_mtd 2)) = 128" "(128 :: nat) = 2 ^ 7"
    "unat (mtd_writesize (sample_nand_mtd 2)) = 64" by simp_all
  moreover have "firmware_fits (up_tab sample_upgrade) ''backup'' 128 2048 300 512 1280"
    by (simp add: firmware_fits_def sample_upgrade_def get_mtd_part_info_def round_up_def)
  moreover have "unat (300 :: u32) \<le> length (replicate 300 (5 :: u8))" by simp
  ultimately obtain nm' where "write_data sample_upgrade TYPE_FW (Some (sample_nm 2 0)) (replicate 300 5) 300 = Some (0, Some nm')"
    "\<forall>i < unat (300 :: u32). board_content chip_byte nm' (unat (512 :: u64) + i) = replicate 300 5 ! i"
    "\<forall>i < 128. board_content chip_byte nm' (unat (1280 :: u64) + i) = 0xff"
    using firmware_upgrade_installs [OF _ nand0.reliable_nand_axioms sample_board_ok _ _ _ sample_upgrade_simps(1,2)] by blast
  moreover have "unat (300 :: u32) = 300" "unat (512 :: u64) = 512" "unat (1280 :: u64) = 1280" by simp_all
  ultimately show ?thesis by metis
qed

text \<open>A bootloader file with both stages whose second stage verifies, and that fits in front of the environment.\<close>

definition bootloader_fits :: "'s upgrade_env \<Rightarrow> nat \<Rightarrow> nat \<Rightarrow> bytes \<Rightarrow> u32 \<Rightarrow> u32 \<Rightarrow> bool" where
  "bootloader_fits e es cap mem data_size stage1_size \<longleftrightarrow>
     get_mtk_stage2_image_ptr (up_tbl e) mem data_size = Some (Some stage1_size) \<and> stage1_size \<noteq> 0 \<and>
     verify_stage2_integrity (drop (unat stage1_size) mem) (data_size - stage1_size) = Some 0 \<and>
     check_mtd_bootloader_size (up_tab e) (up_confirm e) data_size = 0 \<and>
     data_size \<noteq> 0 \<and> unat data_size \<le> length mem \<and> unat data_size + es \<le> 2 ^ 32 \<and>
     (case up_env e of
        None \<Rightarrow> False
      | Some (eo, en) \<Rightarrow> es dvd unat eo \<and> es dvd unat en \<and> en \<noteq> 0 \<and> unat eo + unat en \<le> cap \<and> round_up es (unat data_size) \<le> unat eo) \<and>
     (case up_max_u_boot_size e of None \<Rightarrow> True | Some m \<Rightarrow> unat m \<le> 2 ^ 31)"

text \<open>
  C15: A bootloader with both stages is installed as a whole. On a chip that works, in every build on a machine on which the board's erase function
  returns (\<open>build \<noteq> Partitions\<close>), whatever
  bootloader is on it, \<open>write_data\<close> with a file whose second stage verifies reports success: the
  flash starts with the bytes of the file, the environment is blank, and nothing changes outside the environment and the blocks the file needs. In the file's
  last block everything is blank behind the last page of the file; the rest of that page is not specified. The
  position of the old second stage never moves the new one.
\<close>

theorem bootloader_upgrade_installs:
  assumes "build \<noteq> Partitions" and "reliable_nand lower fit img" and "board_ok lower fit cfg cap nm"
    and "unat (mtd_erasesize lower) = es" and "es = 2 ^ k" and "unat (mtd_writesize lower) = ws"
    and "up_flash e = nmbm_flash build" and "up_dev e = nm_dev build" and "up_env e = Some (eo, en)"
    and "bootloader_fits e es cap mem data_size stage1_size"
  shows "\<exists>nm'. write_data e TYPE_BL (Some nm) mem data_size = Some (0, Some nm') \<and> board_ok lower fit cfg cap nm' \<and>
    (\<forall>i < unat data_size. board_content img nm' i = mem ! i) \<and>
    (\<forall>i. round_up ws (unat data_size) \<le> i \<and> i < round_up es (unat data_size) \<longrightarrow> board_content img nm' i = 0xff) \<and>
    (\<forall>a < cap. unat eo \<le> a \<and> a < unat eo + unat en \<longrightarrow> board_content img nm' a = 0xff) \<and>
    (\<forall>a < cap. round_up es (unat data_size) \<le> a \<and> (a < unat eo \<or> unat eo + unat en \<le> a) \<longrightarrow>
       board_content img nm' a = board_content img nm a)"
proof -
  note st = reliable_nand.board_storage [OF assms(2), of cfg cap, unfolded assms(4,6), folded null_readable_builds(2) [OF assms(1)]]
  from assms(9,10) have f: "get_mtk_stage2_image_ptr (up_tbl e) mem data_size = Some (Some stage1_size)" "stage1_size \<noteq> 0"
    "verify_stage2_integrity (drop (unat stage1_size) mem) (data_size - stage1_size) = Some 0"
    "check_mtd_bootloader_size (up_tab e) (up_confirm e) data_size = 0" "data_size \<noteq> 0" "unat data_size \<le> length mem"
    "unat data_size + es \<le> 2 ^ 32" and env: "es dvd unat eo" "es dvd unat en" "en \<noteq> 0" "unat eo + unat en \<le> cap"
    and before: "round_up es (unat data_size) \<le> unat eo" and m: "\<forall>m. up_max_u_boot_size e = Some m \<longrightarrow> unat m \<le> 2 ^ 31"
    by (auto simp: bootloader_fits_def)
  obtain stock nm1 where i: "check_mtk_stock_stage2_info (up_tbl e) (up_max_u_boot_size e) (nm_dev build) (Some nm) = Some (stock, Some nm1)"
    and ok1: "board_ok lower fit cfg cap nm1" and c1: "board_content img nm1 = board_content img nm"
    using reliable_nand.stock_info [OF assms(2,3) m, of "up_tbl e" build] by (auto simp: returns_iff)
  have ins: "\<exists>nm2 nm'. do_write_bootloader (up_tab e) (up_confirm e) (Some (eo, en)) (nmbm_flash build) nm1 off mem data_size s1 = Some (0, nm') \<and>
      board_ok lower fit cfg cap nm' \<and>
      (\<forall>a < cap. installed es ws 0 (take (unat data_size) mem) (board_content img nm) (board_content img nm2) a) \<and>
      (\<forall>a < cap. board_content img nm' a = (if unat eo \<le> a \<and> a < unat eo + unat en then 0xff else board_content img nm2 a))"
    if "off = 0 \<or> s1 \<noteq> 0" for off s1
    by (rule storage.bootloader_installed [OF st ok1 assms(5), of 0 off s1 "up_tab e" "up_confirm e" data_size mem eo en])
      (use that f env before c1 in auto)
  obtain nm2 nm' where w: "write_data e TYPE_BL (Some nm) mem data_size = Some (0, Some nm')" and ok: "board_ok lower fit cfg cap nm'"
    and c2: "\<forall>a < cap. installed es ws 0 (take (unat data_size) mem) (board_content img nm) (board_content img nm2) a"
    and c3: "\<forall>a < cap. board_content img nm' a = (if unat eo \<le> a \<and> a < unat eo + unat en then 0xff else board_content img nm2 a)"
  proof (cases "Option.bind stock (stage2_target (fl_erase_size (nmbm_flash build) nm1))")
    case None
    with ins [of 0 0] i f(1-3) show thesis
      by (auto simp: write_data_def write_bootloader_def assms(7-9) intro: that)
  next
    case (Some off)
    with ins [of off stage1_size] i f(1-3) show thesis
      by (auto simp: write_data_def write_bootloader_def assms(7-9) intro: that)
  qed
  have "0 < es" using assms(5) by simp
  then have n: "unat data_size \<le> round_up es (unat data_size)" by (rule round_up(1))
  have d: "length (take (unat data_size) mem) = unat data_size" using f(6) by simp
  have "board_content img nm' i = mem ! i" if "i < unat data_size" for i
    using c2 [rule_format, of i] c3 [rule_format, of i] that n d before env(4) by (auto simp: installed_def)
  moreover have "board_content img nm' i = 0xff" if "round_up ws (unat data_size) \<le> i" "i < round_up es (unat data_size)" for i
    using c2 [rule_format, of i] c3 [rule_format, of i] that d before env(4) by (auto simp: installed_def)
  moreover have "board_content img nm' a = board_content img nm a"
    if "a < cap" "round_up es (unat data_size) \<le> a" "a < unat eo \<or> unat eo + unat en \<le> a" for a
    using c2 [rule_format, OF that(1)] c3 [rule_format, OF that(1)] that d by (auto simp: installed_def)
  moreover have "board_content img nm' a = 0xff" if "a < cap" "unat eo \<le> a \<and> a < unat eo + unat en" for a
    using c3 [rule_format, OF that(1)] that(2) by simp
  ultimately show ?thesis using w ok by blast
qed

text \<open>A first stage of 172 bytes behind a blank header, and an empty second stage without an alignment.\<close>

definition bootloader_file :: bytes where
  "bootloader_file = replicate 128 0 @ enc32 MTK_ROM_CFG_MAGIC @ enc32 172 @ enc32 0 @ replicate 96 0 @
     [0x27, 0x05, 0x19, 0x56] @ replicate 60 0"

lemma bootloader_file_fits: "bootloader_fits sample_upgrade 128 2048 bootloader_file 300 236"
proof -
  have z: "dec32 (replicate 4 0) = 0" "dec32 [0x56, 0x19, 0x05, 0x27] = IH_MAGIC" by code_simp+
  have crc: "crc32 0 0 [] = 0" by code_simp
  have "get_mtk_stage2_image_ptr [] bootloader_file 300 = Some (Some 236)"
    by (simp add: get_mtk_stage2_image_ptr_def bootloader_file_def mem_read_def image_get_magic_def be32_def z
        rom_cfg_of_bytes_def u32.dec_enc)
  moreover have "verify_stage2_integrity (drop (unat (236 :: u32)) bootloader_file) (300 - 236) = Some 0"
    by (simp add: verify_stage2_integrity_def bootloader_file_def mem_read_def image_get_magic_def image_get_size_def
        image_get_dcrc_def be32_def z crc)
  moreover have "length bootloader_file = 300" by (simp add: bootloader_file_def)
  ultimately show ?thesis
    by (simp add: bootloader_fits_def sample_upgrade_def check_mtd_bootloader_size_def get_mtd_part_info_def round_up_def)
qed

theorem bootloader_upgrade_installs_witness:
  "\<exists>nm'. write_data sample_upgrade TYPE_BL (Some (sample_nm 2 0)) bootloader_file 300 = Some (0, Some nm') \<and>
    (\<forall>i < unat (300 :: u32). board_content chip_byte nm' i = bootloader_file ! i)"
proof -
  have es: "unat (mtd_erasesize (sample_nand_mtd 2)) = 128" "(128 :: nat) = 2 ^ 7" "unat (mtd_writesize (sample_nand_mtd 2)) = 64"
    and build: "Partitions_null_readable \<noteq> Partitions" by simp_all
  from bootloader_upgrade_installs [OF build nand0.reliable_nand_axioms sample_board_ok es sample_upgrade_simps(1,3,4) bootloader_file_fits]
  show ?thesis by blast
qed

end
