(* ===== verification/Failsafe.thy ===== *)
theory Failsafe
  imports Httpd Mtk_Upgrade
begin

text \<open>
  The web failsafe (\<^verbatim>\<open>failsafe/failsafe.c\<close>, \<^verbatim>\<open>failsafe/fs.c\<close>): the URI handlers of the HTTP server, through which a
  firmware is uploaded and written to flash, and the part of \<^verbatim>\<open>net_loop\<close> that drives them.

  \<^item> \<open>failsafe\<close> has the file's static variables, the flash, and the members of the open
    \<^verbatim>\<open>flashing_status\<close> objects other than their buffer, which is a block of the server's heap.
  \<^item> \<open>fs_env\<close>: the embedded files with their paths (the linker's list), the MD5 function, whose
    result is only shown, and what \<^verbatim>\<open>write_firmware_failsafe\<close> works on.
  \<^item> \<open>net_loop_tcp\<close> is \<^verbatim>\<open>net_loop\<close> for the protocol TCP once the device is initialised: each round has the
    packets that \<^verbatim>\<open>eth_rx\<close> hands to \<^verbatim>\<open>receive_tcp\<close> and whether ctrl-c was pressed.
\<close>

section \<open>Data\<close>

datatype fs_handler = Index_handler | Upload_handler | Flashing_handler | Result_handler | Style_handler | Not_found_handler

record 's failsafe =
  upload_data_id :: u32
  upload_data :: "ptr option"
  upload_data_size :: u32
  upgrade_success :: bool
  flashing :: "nat \<rightharpoonup> int \<times> bool"
  flashp :: "'s option"

record 's fs_env =
  fs_files :: "(string \<times> bytes) list"
  fs_md5 :: "bytes \<Rightarrow> bytes"
  fs_tab :: part_table
  fs_backup :: "string option"
  fs_flash :: "'s flash_ops"
  fs_rand :: "nat \<Rightarrow> u32"

type_synonym 's fnet = "(fs_handler, 's failsafe) hnet"
type_synonym 's ftcp = "(fs_handler, 's failsafe) henv"

definition fs_find_file :: "'s fs_env \<Rightarrow> string \<Rightarrow> bytes option" where
  "fs_find_file v path = map_of (fs_files v) path"

definition on_ext :: "('x \<Rightarrow> 'x) \<Rightarrow> ('h, 'x) hnet \<Rightarrow> ('h, 'x) hnet" where
  "on_ext f = on_app (\<lambda>a. a\<lparr>ext := f (ext a)\<rparr>)"

definition on_response :: "nat \<Rightarrow> (httpd_response \<Rightarrow> httpd_response) \<Rightarrow> ('h, 'x) hnet \<Rightarrow> ('h, 'x) hnet option" where
  "on_response i f s = do { pd \<leftarrow> pd_at i s; Some (pd_put i (pd\<lparr>pd_response := f (pd_response pd)\<rparr>) s) }"

section \<open>Handlers\<close>

definition output_plain_file :: "'s fs_env \<Rightarrow> string \<Rightarrow> httpd_response \<Rightarrow> int \<times> httpd_response" where
  "output_plain_file v filename rs =
     (let (ret, data) = (case fs_find_file v filename of Some d \<Rightarrow> (0, d) | None \<Rightarrow> (1, str ''Error: file not found''))
      in (ret, rs\<lparr>rs_status := HTTP_RESP_STD, rs_data := Some (Rodata data, 0), rs_size := of_nat (length data),
            rs_info := (rs_info rs)\<lparr>ri_code := 200, ri_connection_close := True, ri_content_type := Some ''text/html''\<rparr>\<rparr>))"

definition index_handler :: "'s fs_env \<Rightarrow> httpd_uri_handler_status \<Rightarrow> nat \<Rightarrow> 's fnet \<Rightarrow> 's fnet option" where
  "index_handler v status i s =
     (if status = HTTP_CB_NEW then on_response i (\<lambda>rs. snd (output_plain_file v ''index.html'' rs)) s else Some s)"

definition flashing_handler :: "'s fs_env \<Rightarrow> httpd_uri_handler_status \<Rightarrow> nat \<Rightarrow> 's fnet \<Rightarrow> 's fnet option" where
  "flashing_handler v status i s =
     (if status = HTTP_CB_NEW then on_response i (\<lambda>rs. snd (output_plain_file v ''flashing.html'' rs)) s else Some s)"

definition style_handler :: "'s fs_env \<Rightarrow> httpd_uri_handler_status \<Rightarrow> nat \<Rightarrow> 's fnet \<Rightarrow> 's fnet option" where
  "style_handler v status i s =
     (if status = HTTP_CB_NEW
      then on_response i (\<lambda>rs. let rs = snd (output_plain_file v ''style.css'' rs)
        in rs\<lparr>rs_info := (rs_info rs)\<lparr>ri_content_type := Some ''text/css''\<rparr>\<rparr>) s
      else Some s)"

definition not_found_handler :: "'s fs_env \<Rightarrow> httpd_uri_handler_status \<Rightarrow> nat \<Rightarrow> 's fnet \<Rightarrow> 's fnet option" where
  "not_found_handler v status i s =
     (if status = HTTP_CB_NEW
      then on_response i (\<lambda>rs. let rs = snd (output_plain_file v ''404.html'' rs) in rs\<lparr>rs_info := (rs_info rs)\<lparr>ri_code := 404\<rparr>\<rparr>) s
      else Some s)"

text \<open>The page after an upload: the checksum and the size in place of the letters.\<close>

definition md5_hex :: "bytes \<Rightarrow> bytes" where
  "md5_hex md5_sum = concat (map (\<lambda>b. [of_char (hex_digit (unat (drop_bit 4 b AND 0xf))), of_char (hex_digit (unat (b AND 0xf)))]) md5_sum)"

definition size_field :: "u32 \<Rightarrow> bytes" where
  "size_field n =
     (let s = (if sint n < 0 then ''-'' @ decimal (nat (- sint n)) else decimal (nat (sint n)))
      in take 10 (str s @ replicate (16 - length s) 32))"

definition fill_page :: "('s fs_env) \<Rightarrow> bytes option \<Rightarrow> u32 \<Rightarrow> bytes \<Rightarrow> bytes option" where
  "fill_page v fw_data fw_size page = do {
     let buff = page @ [0];
     md5_ptr \<leftarrow> strstr buff 0 (str (replicate 32 CHR ''X''));
     size_ptr \<leftarrow> strstr buff 0 (str (replicate 10 CHR ''Y''));
     buff \<leftarrow> (case md5_ptr of
         None \<Rightarrow> Some buff
       | Some p \<Rightarrow> do { m \<leftarrow> fw_data; fw \<leftarrow> mem_read 0 (unat fw_size) m; mem_write p (md5_hex (fs_md5 v fw)) buff });
     (case size_ptr of None \<Rightarrow> Some buff | Some p \<Rightarrow> mem_write p (size_field fw_size) buff)
   }"

text \<open>The memory from a pointer on.\<close>

definition ptr_bytes :: "ptr option \<Rightarrow> ('h, 'x) hnet \<Rightarrow> bytes option" where
  "ptr_bytes p s = do { (ob, off) \<leftarrow> p; m \<leftarrow> obj_bytes ob (app s); Some (drop off m) }"

definition upload_page :: "'s fs_env \<Rightarrow> 's ftcp \<Rightarrow> nat \<Rightarrow> httpd_form_value \<Rightarrow> 's fnet \<Rightarrow> 's fnet option" where
  "upload_page v e i fw s = do {
     pd \<leftarrow> pd_at i s;
     case httpd_alloc e s of
       (None, s) \<Rightarrow> Some s
     | (Some n, s) \<Rightarrow> do {
         page \<leftarrow> (case rs_data (pd_response pd) of Some (ob, off) \<Rightarrow> httpd_load (app s) (ob, off) 0 (unat (rs_size (pd_response pd))) | None \<Rightarrow> None);
         buff \<leftarrow> fill_page v (ptr_bytes (fv_data fw) s) (fv_size fw) page;
         s \<leftarrow> obj_set (Heap n) buff s;
         on_response i (\<lambda>rs. rs\<lparr>rs_data := Some (Heap n, 0)\<rparr>) s
       }
   }"

definition free_ptr :: "ptr option \<Rightarrow> ('h, 'x) hnet \<Rightarrow> ('h, 'x) hnet option" where
  "free_ptr p s =
     (case p of
        None \<Rightarrow> Some s
      | Some (Heap n, 0) \<Rightarrow> if heap (app s) n = None then None
          else Some (on_app (\<lambda>a. a\<lparr>heap := (heap a)(n := None)\<rparr>) s)
      | _ \<Rightarrow> None)"

definition upload_handler :: "'s fs_env \<Rightarrow> 's ftcp \<Rightarrow> httpd_uri_handler_status \<Rightarrow> nat \<Rightarrow> 's fnet \<Rightarrow> 's fnet option" where
  "upload_handler v e status i s =
     (case status of
        HTTP_CB_NEW \<Rightarrow> do {
          pd \<leftarrow> pd_at i s;
          fw \<leftarrow> httpd_request_find_value (Some (pd_request pd)) (Some ''firmware'') s;
          case fw of
            None \<Rightarrow> on_response i (\<lambda>rs. rs\<lparr>rs_info := (rs_info rs)\<lparr>ri_code := 302, ri_connection_close := True, ri_location := Some ''/''\<rparr>\<rparr>) s
          | Some fw \<Rightarrow>
              if fst (output_plain_file v ''upload.html'' (pd_response pd)) \<noteq> 0
              then on_response i (\<lambda>rs. let rs = snd (output_plain_file v ''upload.html'' rs) in rs\<lparr>rs_info := (rs_info rs)\<lparr>ri_code := 500\<rparr>\<rparr>) s
              else do {
                s \<leftarrow> on_response i (\<lambda>rs. snd (output_plain_file v ''upload.html'' rs)) s;
                s \<leftarrow> upload_page v e i fw s;
                Some (on_app (\<lambda>a. a\<lparr>ext := (ext a)\<lparr>upload_data_id := upload_id a, upload_data := fv_data fw, upload_data_size := fv_size fw\<rparr>\<rparr>) s)
              }
        }
      | HTTP_CB_RESPONDING \<Rightarrow> Some s
      | HTTP_CB_CLOSED \<Rightarrow> do {
          pd \<leftarrow> pd_at i s;
          case fs_find_file v ''upload.html'' of
            None \<Rightarrow> Some s
          | Some d \<Rightarrow> if rs_data (pd_response pd) \<noteq> Some (Rodata d, 0) then free_ptr (rs_data (pd_response pd)) s else Some s
        })"

definition result_new :: "'s ftcp \<Rightarrow> nat \<Rightarrow> 's fnet \<Rightarrow> 's fnet option" where
  "result_new e i s =
     (case httpd_alloc e s of
        (None, s) \<Rightarrow> on_response i (\<lambda>rs. rs\<lparr>rs_info := (rs_info rs)\<lparr>ri_code := 500\<rparr>\<rparr>) s
      | (Some st, s) \<Rightarrow> do {
          pd \<leftarrow> pd_at i s;
          let info = (rs_info (pd_response pd))\<lparr>ri_http_1_0 := True, ri_content_length := - 1, ri_connection_close := True,
            ri_content_type := Some ''text/html'', ri_code := 200\<rparr>;
          (size, buf) \<leftarrow> http_make_response_header info BUFSZ (replicate BUFSZ 0);
          s \<leftarrow> obj_set (Heap st) buf s;
          let s = on_ext (\<lambda>x. x\<lparr>flashing := (flashing x)(st \<mapsto> (-1, False))\<rparr>) s;
          on_response i (\<lambda>rs. rs\<lparr>rs_session_data := Some st, rs_status := HTTP_RESP_CUSTOM, rs_info := info,
            rs_data := Some (Heap st, 0), rs_size := of_nat size\<rparr>) s
        })"

text \<open>Writing the firmware, when what was uploaded last is what was shown.\<close>

definition result_flash :: "'s fs_env \<Rightarrow> int \<Rightarrow> 's fnet \<Rightarrow> (int \<times> 's fnet) option" where
  "result_flash v ret s =
     (let x = ext (app s) in
      if upload_data_id x = upload_id (app s)
      then do {
        mem \<leftarrow> ptr_bytes (upload_data x) s;
        (ret, fl) \<leftarrow> write_firmware_failsafe (fs_tab v) (fs_backup v) (fs_flash v) (flashp x) mem (upload_data_size x);
        Some (ret, on_ext (\<lambda>x. x\<lparr>flashp := fl\<rparr>) s)
      }
      else Some (ret, s))"

definition result_responding :: "'s fs_env \<Rightarrow> nat \<Rightarrow> 's fnet \<Rightarrow> 's fnet option" where
  "result_responding v i s = do {
     pd \<leftarrow> pd_at i s;
     st \<leftarrow> rs_session_data (pd_response pd);
     (ret, body_sent) \<leftarrow> flashing (ext (app s)) st;
     if body_sent then on_response i (\<lambda>rs. rs\<lparr>rs_status := HTTP_RESP_NONE\<rparr>) s
     else do {
       (ret, s) \<leftarrow> result_flash v ret s;
       let s = on_app (\<lambda>a. a\<lparr>rands := Suc (rands a), ext := (ext a)\<lparr>upload_data_id := fs_rand v (rands a)\<rparr>\<rparr>) s;
       let put = (\<lambda>sent. on_ext (\<lambda>x. x\<lparr>flashing := (flashing x)(st \<mapsto> (ret, sent))\<rparr>));
       case fs_find_file v (if ret = 0 then ''success.html'' else ''fail.html'') of
         None \<Rightarrow> (let text = str (if ret = 0 then ''Upgrade completed!'' else ''Upgrade failed!'') in
           on_response i (\<lambda>rs. rs\<lparr>rs_data := Some (Rodata text, 0), rs_size := of_nat (length text)\<rparr>) (put False s))
       | Some d \<Rightarrow> on_response i (\<lambda>rs. rs\<lparr>rs_data := Some (Rodata d, 0), rs_size := of_nat (length d)\<rparr>) (put True s)
     }
   }"

definition result_closed :: "'s ftcp \<Rightarrow> nat \<Rightarrow> 's fnet \<Rightarrow> 's fnet option" where
  "result_closed e i s = do {
     pd \<leftarrow> pd_at i s;
     st \<leftarrow> rs_session_data (pd_response pd);
     (ret, _) \<leftarrow> flashing (ext (app s)) st;
     s \<leftarrow> free_ptr (Some (Heap st, 0)) (on_ext (\<lambda>x. x\<lparr>upgrade_success := (ret = 0), flashing := (flashing x)(st := None)\<rparr>) s);
     if ret = 0 then tcp_close_all_conn e s else Some s
   }"

definition result_handler :: "'s fs_env \<Rightarrow> 's ftcp \<Rightarrow> httpd_uri_handler_status \<Rightarrow> nat \<Rightarrow> 's fnet \<Rightarrow> 's fnet option" where
  "result_handler v e status i s =
     (case status of
        HTTP_CB_NEW \<Rightarrow> result_new e i s
      | HTTP_CB_RESPONDING \<Rightarrow> result_responding v i s
      | HTTP_CB_CLOSED \<Rightarrow> result_closed e i s)"

definition failsafe_call :: "'s fs_env \<Rightarrow> 's ftcp \<Rightarrow> fs_handler \<Rightarrow> httpd_uri_handler_status \<Rightarrow> nat \<Rightarrow> 's fnet \<Rightarrow> 's fnet option" where
  "failsafe_call v e k =
     (case k of
        Index_handler \<Rightarrow> index_handler v
      | Upload_handler \<Rightarrow> upload_handler v e
      | Flashing_handler \<Rightarrow> flashing_handler v
      | Result_handler \<Rightarrow> result_handler v e
      | Style_handler \<Rightarrow> style_handler v
      | Not_found_handler \<Rightarrow> not_found_handler v)"

definition failsafe_httpd :: "'s fs_env \<Rightarrow> 's ftcp \<Rightarrow> (fs_handler, 's failsafe) httpd_env" where
  "failsafe_httpd v e = \<lparr>hd_rand = fs_rand v, hd_call = failsafe_call v e\<rparr>"

definition failsafe_env :: "'s fs_env \<Rightarrow> 's ftcp \<Rightarrow> 's ftcp" where
  "failsafe_env v e = httpd_tcp_env e (failsafe_httpd v e)"

section \<open>Starting\<close>

primrec receive_all :: "('p, 'k, 'a) tcp_env \<Rightarrow> (bytes \<times> u32 \<times> bytes) list \<Rightarrow> ('p, 'k, 'a) net \<Rightarrow> ('p, 'k, 'a) net option" where
  "receive_all e [] s = Some s"
| "receive_all e (p # ps) s = do { s \<leftarrow> (case p of (rx, len, et) \<Rightarrow> receive_tcp e rx len et s); receive_all e ps s }"

text \<open>The result is \<open>None\<close> while the loop is still running.\<close>

primrec net_rounds :: "('p, 'k, 'a) tcp_env \<Rightarrow> ((bytes \<times> u32 \<times> bytes) list \<times> bool) list \<Rightarrow> ('p, 'k, 'a) net \<Rightarrow> (int option \<times> ('p, 'k, 'a) net) option" where
  "net_rounds e [] s = Some (None, s)"
| "net_rounds e (r # rs) s = do {
     s \<leftarrow> receive_all e (fst r) s;
     s \<leftarrow> tcp_periodic_check e s;
     if snd r then Some (Some (-4), s)
     else if net_success s then Some (Some 0, s)
     else net_rounds e rs s
   }"

definition net_loop_tcp :: "('p, 'k, 'a) tcp_env \<Rightarrow> ((bytes \<times> u32 \<times> bytes) list \<times> bool) list \<Rightarrow> ('p, 'k, 'a) net \<Rightarrow> (int option \<times> ('p, 'k, 'a) net) option" where
  "net_loop_tcp e rs s = net_rounds e rs (tcp_start (s\<lparr>net_success := False\<rparr>))"

primrec register_all :: "'s ftcp \<Rightarrow> u16 \<Rightarrow> (string \<times> fs_handler) list \<Rightarrow> 's fnet \<Rightarrow> 's fnet option" where
  "register_all e inst [] s = Some s"
| "register_all e inst (h # hs) s = do {
     (_, _, s) \<leftarrow> httpd_register_uri_handler e (Some inst) (Some (fst h)) (Some (snd h)) s;
     register_all e inst hs s
   }"

definition failsafe_uris :: "(string \<times> fs_handler) list" where
  "failsafe_uris = [(''/'', Index_handler), (''/cgi-bin/luci'', Index_handler), (''/upload'', Upload_handler), (''/flashing'', Flashing_handler),
     (''/result'', Result_handler), (''/style.css'', Style_handler), ('''', Not_found_handler)]"

definition failsafe_setup :: "'s ftcp \<Rightarrow> 's fnet \<Rightarrow> (int \<times> 's fnet) option" where
  "failsafe_setup e s = do {
     s \<leftarrow> (if httpd_find_instance 80 s \<noteq> None then httpd_free_instance 80 s else Some s);
     case httpd_create_instance e 80 s of
       (None, s) \<Rightarrow> Some (-1, s)
     | (Some inst, s) \<Rightarrow> do { s \<leftarrow> register_all e inst failsafe_uris s; Some (0, s) }
   }"

text \<open>
  The command: its result while it runs is \<open>None\<close>, and afterwards the return value of
  \<^verbatim>\<open>start_web_failsafe\<close> and whether the machine is reset.
\<close>

definition start_web_failsafe :: "'s fs_env \<Rightarrow> 's ftcp \<Rightarrow> ((bytes \<times> u32 \<times> bytes) list \<times> bool) list \<Rightarrow> 's fnet \<Rightarrow> (int option \<times> 's fnet) option" where
  "start_web_failsafe v e rs s = do {
     (r, s) \<leftarrow> failsafe_setup e s;
     if r \<noteq> 0 then Some (Some (-1), s)
     else do {
       (r, s) \<leftarrow> net_loop_tcp (failsafe_env v e) rs s;
       Some (if r = None then None else Some 0, s)
     }
   }"

definition do_httpd :: "'s fs_env \<Rightarrow> 's ftcp \<Rightarrow> ((bytes \<times> u32 \<times> bytes) list \<times> bool) list \<Rightarrow> 's fnet \<Rightarrow> ((int \<times> bool) option \<times> 's fnet) option" where
  "do_httpd v e rs s = do {
     (r, s) \<leftarrow> start_web_failsafe v e rs s;
     Some (map_option (\<lambda>r. (r, upgrade_success (ext (app s)))) r, s)
   }"

end
