(* ===== verification/Httpd_Client.thy ===== *)
theory Httpd_Client
  imports Httpd
begin

text \<open>
  The HTTP server as an application of the TCP stack: its callback changes the stack only through
  the stack's interface, provided the URI handlers do (\<open>uri_handlers\<close>). So every property of
  \<open>tcp_client\<close> holds of the stack with the server on top.
\<close>

locale uri_handlers =
  fixes e :: "('h, 'x) henv" and h :: "('h, 'x) httpd_env"
  assumes handler: "hd_call h k status i s = Some s' \<Longrightarrow> app_steps e s s'"

section \<open>Steps of the server\<close>

named_theorems reach "computations that only take steps of an application"

lemma reach_app:
  assumes "app_steps e s0 s"
  shows "app_steps e s0 (on_app f s)"
  using assms app_step.memory [of e s "f (app s)"] by (simp add: on_app_def)

lemma reach_pd [reach]:
  "app_steps e s0 s \<Longrightarrow> app_steps e s0 (pd_put i pd s)" "app_steps e s0 s \<Longrightarrow> app_steps e s0 (pd_free i s)" "app_steps e s0 s \<Longrightarrow> app_steps e s0 (on_app f s)"
  by (simp_all add: pd_put_def pd_free_def reach_app)

lemma reach_calls [reach]:
  assumes "app_steps e s0 s" and "\<And>r t. app_steps e s0 t \<Longrightarrow> Q (r, t)"
  shows "yields (tcp_send_data conn data n s) Q" "yields (tcp_close_conn e conn rst s) Q"
  using assms by (auto simp: yields_def intro: rtranclp.rtrancl_into_rtrancl app_step.intros)

lemma reach_set_pdata [reach]:
  assumes "app_steps e s0 s" and "\<And>r t. app_steps e s0 t \<Longrightarrow> Q (r, t)"
  shows "yields (tcp_conn_set_pdata conn pdata s) Q"
  using assms by (auto simp: yields_def intro: rtranclp.rtrancl_into_rtrancl app_step.intros)

lemma reach_map [reach]:
  assumes "app_steps e s0 s" and "\<And>r t. app_steps e s0 t \<Longrightarrow> Q (f (r, t))"
  shows "yields (map_option f (tcp_close_conn e conn rst s)) Q" "yields (map_option f (tcp_send_data conn data n s)) Q"
  using assms by (auto simp: yields_def intro: rtranclp.rtrancl_into_rtrancl app_step.intros)

lemma reach_all:
  assumes "app_steps e s0 s" and "\<And>t. app_steps e s0 t \<Longrightarrow> Q t"
  shows "yields (tcp_close_all_conn e s) Q"
  using assms by (auto simp: yields_def intro: rtranclp.rtrancl_into_rtrancl app_step.intros)

lemma reach_set [reach]:
  assumes "app_steps e s0 s" and "\<And>t. app_steps e s0 t \<Longrightarrow> Q t"
  shows "yields (obj_set ob b s) Q"
  using assms by (cases "(ob, b, s)" rule: obj_set.cases) (auto simp: yields_def bind_eq_Some_conv intro: reach_pd)

lemma reach_write [reach]:
  assumes "app_steps e s0 s" and "\<And>t. app_steps e s0 t \<Longrightarrow> Q t"
  shows "yields (obj_write p off b s) Q"
  unfolding obj_write_def by (rule since_bind, rule yieldsI)+ (rule reach_set [OF assms])

lemma reach_alloc:
  assumes "httpd_alloc e s = (r, t)" and "app_steps e s0 s"
  shows "app_steps e s0 t"
  using assms by (auto simp: httpd_alloc_def split: if_splits intro: reach_pd)

text \<open>Case distinctions.\<close>

lemma reach_cases [reach]:
  "yields a Q \<Longrightarrow> (\<And>y. yields (f y) Q) \<Longrightarrow> yields (case x of None \<Rightarrow> a | Some y \<Rightarrow> f y) Q"
  "(\<And>a b. yields (g a b) Q) \<Longrightarrow> yields (case p of (a, b) \<Rightarrow> g a b) Q"
  "(\<And>a. yields (l a) Q) \<Longrightarrow> (\<And>b. yields (r b) Q) \<Longrightarrow> yields (case z of Inl a \<Rightarrow> l a | Inr b \<Rightarrow> r b) Q"
  "yields a Q \<Longrightarrow> yields b Q \<Longrightarrow> yields (case method of HTTP_GET \<Rightarrow> a | HTTP_POST \<Rightarrow> b) Q"
  "yields a Q \<Longrightarrow> yields b Q \<Longrightarrow> yields c Q \<Longrightarrow> yields (case status of HTTP_RESP_NONE \<Rightarrow> a | HTTP_RESP_STD \<Rightarrow> b | HTTP_RESP_CUSTOM \<Rightarrow> c) Q"
  by (auto split: option.split prod.split sum.split httpd_request_method.split httpd_response_status.split)

lemmas reach_rules = since_bind since_if since_some since_none since_pair reach_cases reach

lemma reach_yields:
  assumes "yields m (app_steps e s)" and "app_steps e s0 s" and "\<And>t. app_steps e s0 t \<Longrightarrow> Q t"
  shows "yields m Q"
  using assms by (auto simp: yields_def intro: rtranclp_trans)

lemma reach_yields2:
  assumes "yields m (\<lambda>(r, t). app_steps e s t)" and "app_steps e s0 s" and "\<And>r t. app_steps e s0 t \<Longrightarrow> Q (r, t)"
  shows "yields m Q"
  using assms by (cases m) (auto simp: yields_def intro: rtranclp_trans)

lemma reach_header:
  assumes "app_steps e s0 s" and "\<And>t. app_steps e s0 t \<Longrightarrow> Q t"
  shows "yields (httpd_send_header conn i s) Q"
  unfolding httpd_send_header_def Let_def
  by (assumption | rule assms | rule reach_rules | rule yieldsI)+

lemma reach_err:
  assumes "app_steps e s0 s" and "\<And>t. app_steps e s0 t \<Longrightarrow> Q t"
  shows "yields (httpd_std_err_response conn i code s) Q"
  unfolding httpd_std_err_response_def Let_def
  by (assumption | rule assms | rule reach_header | rule reach_rules | rule yieldsI)+

lemma reach_bad_request:
  assumes "app_steps e s0 s" and "\<And>r t. app_steps e s0 t \<Longrightarrow> Q (r, t)"
  shows "yields (bad_request conn i code pd s) Q"
  unfolding bad_request_def by (assumption | rule assms | rule reach_err | rule reach_rules)+

lemma reach_hdr_done:
  assumes "app_steps e s0 s" and "\<And>r t. app_steps e s0 t \<Longrightarrow> Q (r, t)"
  shows "yields (recv_hdr_done i p pd s) Q"
  unfolding recv_hdr_done_def Let_def by (assumption | rule assms | rule reach_rules)+

lemma reach_hdr_upload:
  assumes "app_steps e s0 s" and "\<And>r t. app_steps e s0 t \<Longrightarrow> Q (r, t)"
  shows "yields (recv_hdr_upload e h i cbd n m pd s) Q"
  unfolding recv_hdr_upload_def Let_def
  by (assumption | rule assms | rule reach_hdr_done | rule reach_rules | rule yieldsI)+

lemma reach_hdr_parse:
  assumes "app_steps e s0 s" and "\<And>r t. app_steps e s0 t \<Longrightarrow> Q (r, t)"
  shows "yields (recv_hdr_parse e h i cbd n m pd s) Q"
  unfolding recv_hdr_parse_def Let_def
  by (assumption | rule assms | rule reach_hdr_upload reach_bad_request | rule reach_rules | rule yieldsI)+

lemma reach_hdr:
  assumes "app_steps e s0 s" and "\<And>r t. app_steps e s0 t \<Longrightarrow> Q (r, t)"
  shows "yields (httpd_recv_hdr e h i cbd s) Q"
  unfolding httpd_recv_hdr_def Let_def
  by (assumption | rule assms | rule reach_hdr_parse reach_bad_request | rule reach_rules | rule yieldsI)+

lemma reach_payload:
  assumes "app_steps e s0 s" and "\<And>r t. app_steps e s0 t \<Longrightarrow> Q (r, t)"
  shows "yields (httpd_recv_payload i cbd s) Q"
  unfolding httpd_recv_payload_def Let_def
  by (assumption | rule assms | rule reach_rules | rule yieldsI)+

lemma reach_form:
  assumes "app_steps e s0 s" and "\<And>r t. app_steps e s0 t \<Longrightarrow> Q (r, t)"
  shows "yields (httpd_parse_form e' i s) Q"
  unfolding httpd_parse_form_def Let_def
  by (assumption | rule assms | rule reach_rules | rule yieldsI)+

lemma reach_respond:
  assumes "app_steps e s0 s" and "\<And>t. app_steps e s0 t \<Longrightarrow> Q t"
  shows "yields (httpd_respond e conn i s) Q"
  unfolding httpd_respond_def Let_def snd_conv
  by (assumption | rule assms | rule reach_header | rule reach_rules | rule yieldsI | (simp only: snd_conv))+

context uri_handlers
begin

lemma reach_urih:
  assumes "app_steps e s0 s" and "\<And>t. app_steps e s0 t \<Longrightarrow> Q t"
  shows "yields (urih_call h u status i s) Q"
proof -
  have "yields (hd_call h k status i s) (app_steps e s)" for k
    using handler by (auto simp: yields_def)
  then have "yields (hd_call h k status i s) Q" for k by (rule reach_yields [OF _ assms])
  then show ?thesis
    using assms by (auto simp: urih_call_def yield_simps split: urih_ptr.split intro!: yieldsI)
qed

lemma reach_request:
  assumes "app_steps e s0 s" and "\<And>t. app_steps e s0 t \<Longrightarrow> Q t"
  shows "yields (httpd_handle_request e h inst i cbd s) Q"
proof -
  have form: "yields ((if b then httpd_parse_form e i t else Some (True, t)) \<bind> (\<lambda>(ok, u). if \<not> ok then f u else g u)) Q"
    if "app_steps e s0 t" "\<And>u. app_steps e s0 u \<Longrightarrow> yields (f u) Q" "\<And>u. app_steps e s0 u \<Longrightarrow> yields (g u) Q" for b t f g
    using that by (auto simp: yield_simps intro!: reach_form [of e s0])
  show ?thesis unfolding httpd_handle_request_def Let_def
    by (assumption | rule assms | rule form | rule reach_urih reach_respond | rule reach_rules | rule yieldsI | (simp only: snd_conv))+
qed

lemma reach_rx:
  assumes "app_steps e s0 s" and "\<And>t. app_steps e s0 t \<Longrightarrow> Q t"
  shows "yields (httpd_rx e h inst i cbd s) Q"
  unfolding httpd_rx_def Let_def
  by (assumption | rule assms | rule reach_hdr reach_payload reach_request | rule reach_rules | rule yieldsI)+

lemma reach_tx:
  assumes "app_steps e s0 s" and "\<And>t. app_steps e s0 t \<Longrightarrow> Q t"
  shows "yields (httpd_tx e h i cbd s) Q"
  unfolding httpd_tx_def
  by (assumption | rule assms | rule reach_urih | rule reach_rules | rule yieldsI | (simp only: snd_conv))+

lemma reach_cleanup:
  assumes "app_steps e s0 s" and "\<And>t. app_steps e s0 t \<Longrightarrow> Q t"
  shows "yields (httpd_cleanup h i s) Q"
proof -
  have up: "app_steps e s0 (if b then on_app f s else s)" for b f using assms(1) by (auto intro: reach_pd)
  show ?thesis unfolding httpd_cleanup_def Let_def
    by (assumption | rule assms up | rule reach_urih | rule reach_rules | rule yieldsI)+
qed

lemma reach_callback: "yields (httpd_tcp_callback e h cbd s) (\<lambda>(cbd', t). app_steps e s t)"
proof -
  have refl: "app_steps e s s" by simp
  have new: "yields (case httpd_alloc e s of (None, t) \<Rightarrow> f t | (Some i, t) \<Rightarrow> g i t) Q"
    if "\<And>t. app_steps e s t \<Longrightarrow> yields (f t) Q" "\<And>i t. app_steps e s t \<Longrightarrow> yields (g i t) Q" for f g and Q :: "tcb_cb_data \<times> ('h, 'x) hnet \<Rightarrow> bool"
    using that reach_alloc [OF _ refl] by (auto split: prod.split option.split)
  have st: "yields (case st of TCP_CB_NEW_CONN \<Rightarrow> a | TCP_CB_DATA_RCVD \<Rightarrow> b | TCP_CB_DATA_SENT \<Rightarrow> c | TCP_CB_REMOTE_CLOSED \<Rightarrow> d | TCP_CB_CLOSED \<Rightarrow> d' | _ \<Rightarrow> x) Q"
    if "yields a Q" "yields b Q" "yields c Q" "yields d Q" "yields d' Q" "yields x Q" for st a b c d d' x and Q :: "tcb_cb_data \<times> ('h, 'x) hnet \<Rightarrow> bool"
    using that by (cases st) simp_all
  show ?thesis unfolding httpd_tcp_callback_def Let_def
    by (assumption | rule refl | rule reach_rx reach_tx reach_cleanup | rule st new reach_rules | rule yieldsI | (simp only: split))+
qed

end

text \<open>The interface of the stack does not depend on the callbacks.\<close>

lemma same_close: "tcp_close_conn (httpd_tcp_env e h) conn rst s = tcp_close_conn e conn rst s"
  by (cases conn) (simp_all add: tcp_close_conn_def httpd_tcp_env_def tcp_send_packet_def tcp_send_packet_opt_def)

lemma same_app_step: "app_step (httpd_tcp_env e h) s t = app_step e s t"
proof -
  have l: "tcp_listen (httpd_tcp_env e h) port cb s = tcp_listen e port cb s" for port cb s
    by (cases cb) (simp_all add: tcp_listen_def httpd_tcp_env_def)
  have c: "tcp_close_all_conn (httpd_tcp_env e h) s = tcp_close_all_conn e s" for s by (simp add: tcp_close_all_conn_def same_close)
  have r: "tcp_reset_all_conn (httpd_tcp_env e h) s = tcp_reset_all_conn e s" for s by (simp add: tcp_reset_all_conn_def same_close)
  show ?thesis unfolding app_step.simps l c r same_close ..
qed

text \<open>The server is an application of the stack.\<close>

sublocale uri_handlers \<subseteq> tcp_client "httpd_tcp_env e h"
proof unfold_locales
  fix k cbd s cbd' s'
  assume "e_call (httpd_tcp_env e h) k cbd s = Some (cbd', s')"
  then have "app_steps e s s'" using yieldsD [OF reach_callback] by (fastforce simp: httpd_tcp_env_def)
  moreover have "app_step (httpd_tcp_env e h) = app_step e" by (intro ext same_app_step)
  ultimately show "app_steps (httpd_tcp_env e h) s s'" by simp
qed

end
