(* ===== verification/Failsafe_Run.thy ===== *)
theory Failsafe_Run
  imports Failsafe Httpd_Client
begin

text \<open>
  The web failsafe on the TCP stack: its handlers change the stack only through the stack's interface, so
  the stack's promises hold for the machine as it runs.
\<close>

section \<open>The handlers as an application\<close>

lemma reach_ext [reach]: "app_steps e s0 s \<Longrightarrow> app_steps e s0 (on_ext f s)"
  by (simp add: on_ext_def reach_app)

lemma reach_response [reach]:
  assumes "app_steps e s0 s" and "\<And>t. app_steps e s0 t \<Longrightarrow> Q t"
  shows "yields (on_response i f s) Q"
  unfolding on_response_def by (assumption | rule assms | rule reach_rules | rule yieldsI)+

lemma reach_free [reach]:
  assumes "app_steps e s0 s" and "\<And>t. app_steps e s0 t \<Longrightarrow> Q t"
  shows "yields (free_ptr p s) Q"
  using assms by (auto simp: free_ptr_def yield_simps split: option.split prod.split obj.split nat.split intro: reach_pd)

lemma reach_new:
  assumes "app_steps e s0 s" and "\<And>t. app_steps e s0 t \<Longrightarrow> yields (f t) Q" and "\<And>i t. app_steps e s0 t \<Longrightarrow> yields (g i t) Q"
  shows "yields (case httpd_alloc e s of (None, t) \<Rightarrow> f t | (Some i, t) \<Rightarrow> g i t) Q"
  using assms reach_alloc [OF _ assms(1)] by (auto split: prod.split option.split)

lemma reach_handler_status:
  "yields a Q \<Longrightarrow> yields b Q \<Longrightarrow> yields c Q \<Longrightarrow> yields (case status of HTTP_CB_NEW \<Rightarrow> a | HTTP_CB_RESPONDING \<Rightarrow> b | HTTP_CB_CLOSED \<Rightarrow> c) Q"
  by (cases status) simp_all

lemmas reach_web = reach_new reach_handler_status reach_all since_bind since_if since_some since_none since_pair reach_cases reach_response reach_free reach_ext reach

lemma reach_page:
  assumes "app_steps e s0 s" and "\<And>t. app_steps e s0 t \<Longrightarrow> Q t"
  shows "yields (upload_page v e i fw s) Q"
  unfolding upload_page_def by (assumption | rule assms | rule reach_web | rule yieldsI)+

lemma reach_upload: "yields (upload_handler v e status i s) (app_steps e s)"
proof -
  have refl: "app_steps e s s" by simp
  show ?thesis unfolding upload_handler_def
    by (assumption | rule refl | rule reach_page | rule reach_web | rule yieldsI)+
qed

lemma reach_flash:
  assumes "app_steps e s0 s" and "\<And>r t. app_steps e s0 t \<Longrightarrow> Q (r, t)"
  shows "yields (result_flash v ret s) Q"
  unfolding result_flash_def Let_def by (assumption | rule assms | rule reach_web | rule yieldsI)+

lemma reach_result: "yields (result_handler v e status i s) (app_steps e s)"
proof -
  have refl: "app_steps e s s" by simp
  show ?thesis unfolding result_handler_def result_new_def result_responding_def result_closed_def Let_def
    by (assumption | rule refl | rule reach_flash | rule reach_web | rule yieldsI)+
qed

interpretation failsafe: uri_handlers e "failsafe_httpd v e" for e v
proof unfold_locales
  fix k status i s s'
  assume "hd_call (failsafe_httpd v e) k status i s = Some s'"
  then have c: "failsafe_call v e k status i s = Some s'" by (simp add: failsafe_httpd_def)
  have refl: "app_steps e s s" by simp
  have "yields (failsafe_call v e k status i s) (app_steps e s)"
    using reach_upload reach_result
    by (cases k) (auto simp: failsafe_call_def index_handler_def flashing_handler_def style_handler_def not_found_handler_def yield_simps
      intro: reach_response [OF refl])
  with c show "app_steps e s s'" by (simp add: yields_def)
qed

end
