(* ===== verification/Httpd_Upload.thy ===== *)
theory Httpd_Upload
  imports Httpd_Client
begin

text \<open>
  Receiving an upload. The payload of a request that does not fit the connection's buffer is collected in memory, whatever pieces
  TCP delivers it in (\<open>feed\<close> is a sequence of calls of the server's callback with data).
\<close>

lemma pd_at_put [simp]: "pd_at i (pd_put j pd s) = (if i = j then Some pd else pd_at i s)"
  by (simp add: pd_at_def pd_put_def on_app_def)

lemma app_on_app [simp]: "app (on_app f s) = f (app s)"
  by (simp add: on_app_def)

lemma app_pd_put: "app (pd_put i pd s) = (app s)\<lparr>pdatas := (pdatas (app s))(i \<mapsto> pd)\<rparr>"
  by (simp add: pd_put_def)

section \<open>Feeding data\<close>

primrec feed :: "('h, 'x) henv \<Rightarrow> ('h, 'x) httpd_env \<Rightarrow> tcb_cb_data list \<Rightarrow> ('h, 'x) hnet \<Rightarrow> ('h, 'x) hnet option" where
  "feed e h [] s = Some s"
| "feed e h (c # cs) s = do { (_, s) \<leftarrow> httpd_tcp_callback e h c s; feed e h cs s }"

text \<open>The data of a call, and calls with data for one connection.\<close>

definition piece :: "tcb_cb_data \<Rightarrow> bytes" where
  "piece c = take (unat (cbd_datalen c)) (cbd_data c)"

definition data_call :: "nat \<Rightarrow> nat \<Rightarrow> u16 \<Rightarrow> tcb_cb_data \<Rightarrow> bool" where
  "data_call conn i port c \<longleftrightarrow> cbd_conn c = conn \<and> cbd_status c = TCP_CB_DATA_RCVD \<and> cbd_pdata c = Some i \<and> cbd_dp c = htons port
     \<and> cbd_datalen c \<noteq> 0 \<and> unat (cbd_datalen c) \<le> length (cbd_data c)"

lemma length_piece:
  assumes "data_call conn i port c"
  shows "unat (cbd_datalen c) = length (piece c)" "cbd_datalen c = of_nat (length (piece c))" "piece c \<noteq> []"
proof -
  show l: "unat (cbd_datalen c) = length (piece c)" using assms by (simp add: piece_def data_call_def)
  show "cbd_datalen c = of_nat (length (piece c))" unfolding l [symmetric] by simp
  have "unat (cbd_datalen c) \<noteq> 0" using assms by (simp add: data_call_def unat_eq_0)
  with l show "piece c \<noteq> []" by auto
qed

lemma feed_append: "feed e h (as @ bs) s = do { s \<leftarrow> feed e h as s; feed e h bs s }"
proof (induction as arbitrary: s)
  case (Cons c as)
  then show ?case by (cases "httpd_tcp_callback e h c s") (simp_all add: case_prod_beta)
qed simp

lemma callback_data:
  assumes "data_call conn i port c" and "httpd_find_instance port s = Some inst"
  shows "httpd_tcp_callback e h c s = do { s \<leftarrow> httpd_rx e h inst i c s; Some (c, s) }"
  using assms by (simp add: httpd_tcp_callback_def data_call_def)

section \<open>The payload\<close>

text \<open>A state during an upload: the connection's data, the memory and the mark differ from \<open>s\<close>.\<close>

definition up_state :: "nat \<Rightarrow> httpd_tcp_pdata \<Rightarrow> bytes \<Rightarrow> bool \<Rightarrow> ('h, 'x) hnet \<Rightarrow> ('h, 'x) hnet" where
  "up_state i pd r u s = s\<lparr>app := (app s)\<lparr>pdatas := (pdatas (app s))(i \<mapsto> pd), is_uploading := u, ram := r\<rparr>\<rparr>"

lemma up_state_simps [simp]:
  "pd_at i (up_state i pd r u s) = Some pd" "ram (app (up_state i pd r u s)) = r" "is_uploading (app (up_state i pd r u s)) = u"
  "up_state i pd r u (up_state i pd' r' u' s) = up_state i pd r u s" "httpd_find_instance port (up_state i pd r u s) = httpd_find_instance port s"
  by (simp_all add: up_state_def pd_at_def httpd_find_instance_def)

definition put_at :: "nat \<Rightarrow> bytes \<Rightarrow> bytes \<Rightarrow> bytes" where
  "put_at off src m = take off m @ src @ drop (off + length src) m"

lemma length_put_at [simp]: "off + length src \<le> length m \<Longrightarrow> length (put_at off src m) = length m"
  by (simp add: put_at_def)

lemma mem_write_put: "off + length src \<le> length m \<Longrightarrow> mem_write off src m = Some (put_at off src m)"
  by (simp add: mem_write_def put_at_def)

lemma ram_write: "off + length src \<le> length (ram (app s)) \<Longrightarrow> obj_write (Ram, 0) off src s = Some (on_app (\<lambda>a. a\<lparr>ram := put_at off src (ram a)\<rparr>) s)"
  by (simp add: obj_write_def mem_write_put on_app_def)

text \<open>The server waits for the rest of a payload of \<open>n\<close> bytes, of which it has \<open>k\<close>.\<close>

definition receiving :: "nat \<Rightarrow> nat \<Rightarrow> httpd_tcp_pdata \<Rightarrow> bool" where
  "receiving k n pd \<longleftrightarrow> pd_status pd = HTTPD_S_PAYLOAD_RECVING \<and> pd_upload_ptr pd = Some (Ram, 0) \<and> pd_upload_size pd = of_nat k
     \<and> pd_payload_size pd = of_nat n \<and> k < n \<and> n < 2 ^ 32"

lemma recv_payload_piece:
  assumes c: "data_call conn i port c" and pd: "pd_at i s = Some pd" "receiving k n pd" and fits: "k + length (piece c) \<le> n" "n < length (ram (app s))"
  shows "httpd_recv_payload i c s =
    (let r = put_at k (piece c) (ram (app s)); pd' = pd\<lparr>pd_upload_size := of_nat (k + length (piece c))\<rparr> in
     if k + length (piece c) = n
     then Some (0, up_state i (pd'\<lparr>pd_status := HTTPD_S_FULL_RCVD, pd_is_uploading := False\<rparr>) (put_at n [0] r) False s)
     else Some (1, up_state i pd' r (is_uploading (app s)) s))"
proof -
  let ?d = "piece c"
  have len: "cbd_datalen c = of_nat (length ?d)" "unat (cbd_datalen c) = length ?d" "unat (cbd_datalen c) \<le> length (cbd_data c)"
    using length_piece(1,2) [OF c] c by (simp_all add: data_call_def)
  have kn: "k < n" "n < 2 ^ 32" using pd(2) by (simp_all add: receiving_def)
  have u: "unat (of_nat j :: u32) = j" if "j \<le> n" for j using that kn by (subst unat_of_nat) simp
  have "(of_nat n :: u32) - of_nat k = of_nat (n - k)" using kn by (simp add: of_nat_diff)
  moreover have "(of_nat (length ?d) :: u32) \<le> of_nat (n - k)"
    unfolding word_le_nat_alt using u [of "n - k"] u [of "length ?d"] fits(1) by linarith
  ultimately have sz: "min (pd_payload_size pd - pd_upload_size pd) (cbd_datalen c) = of_nat (length ?d)"
    using pd(2) len(1) by (simp add: receiving_def min_absorb2)
  have d: "mem_read 0 (unat (of_nat (length ?d) :: u32)) (cbd_data c) = Some ?d"
    unfolding len(1) [symmetric] using len(3) by (simp add: mem_read_def piece_def)
  have eq: "pd_upload_size pd + of_nat (length ?d) = of_nat (k + length ?d)" using pd(2) by (simp add: receiving_def)
  have iff: "(of_nat (k + length ?d) = (of_nat n :: u32)) \<longleftrightarrow> k + length ?d = n"
    using u [of "k + length ?d"] u [of n] fits(1) by (metis le_refl)
  have uk: "unat (pd_upload_size pd) = k" "unat (pd_payload_size pd) = n" using pd(2) u [of k] u [of n] kn by (simp_all add: receiving_def)
  have st: "pd_status pd = HTTPD_S_PAYLOAD_RECVING" "pd_upload_ptr pd = Some (Ram, 0)" "pd_payload_size pd = of_nat n"
    using pd(2) by (simp_all add: receiving_def)
  have w: "obj_write (Ram, 0) k ?d s = Some (on_app (\<lambda>a. a\<lparr>ram := put_at k ?d (ram a)\<rparr>) s)"
    using fits by (intro ram_write) simp
  have at: "pd_at i (on_app (\<lambda>a. a\<lparr>ram := f a\<rparr>) s) = Some pd" for f using pd(1) by (simp add: pd_at_def)
  have w0: "obj_write (Ram, 0) n [0] (pd_put i x (on_app (\<lambda>a. a\<lparr>ram := put_at k ?d (ram a)\<rparr>) s))
      = Some (on_app (\<lambda>a. a\<lparr>ram := put_at n [0] (ram a)\<rparr>) (pd_put i x (on_app (\<lambda>a. a\<lparr>ram := put_at k ?d (ram a)\<rparr>) s)))" for x
    using fits by (intro ram_write) (simp add: app_pd_put)
  show ?thesis
  proof (cases "k + length ?d = n")
    case True
    then show ?thesis
      unfolding httpd_recv_payload_def Let_def pd(1) Option.bind.bind_lunit sz d st(2) uk w at
      by (simp add: st(3) eq w0 pd_at_def u [OF le_refl]) (simp add: up_state_def on_app_def pd_put_def)
  next
    case False
    then show ?thesis
      unfolding httpd_recv_payload_def Let_def pd(1) Option.bind.bind_lunit sz d st(2) uk w at
      using eq iff by (simp add: st(3)) (simp add: up_state_def on_app_def pd_put_def)
  qed
qed

lemma rx_piece:
  assumes c: "data_call conn i port c" and pd: "pd_at i s = Some pd" "receiving k n pd" and fits: "k + length (piece c) \<le> n" "n < length (ram (app s))"
  shows "httpd_rx e h inst i c s =
    (let r = put_at k (piece c) (ram (app s)); pd' = pd\<lparr>pd_upload_size := of_nat (k + length (piece c))\<rparr> in
     if k + length (piece c) = n
     then httpd_handle_request e h inst i c
       (up_state i (pd'\<lparr>pd_status := HTTPD_S_FULL_RCVD, pd_is_uploading := False\<rparr>) (put_at n [0] r) False s)
     else Some (up_state i pd' r (is_uploading (app s)) s))"
proof -
  have st: "pd_status pd = HTTPD_S_PAYLOAD_RECVING" using pd(2) by (simp add: receiving_def)
  have same: "pd_put i pd s = s" using pd(1) by (simp add: pd_put_def on_app_def pd_at_def fun_upd_idem)
  show ?thesis
    unfolding httpd_rx_def pd(1) Option.bind.bind_lunit Let_def
    using recv_payload_piece [OF assms] by (auto simp: Let_def st same pd(1) simp del: of_nat_add)
qed

lemma feed_payload:
  assumes "\<And>c. c \<in> set cs \<Longrightarrow> data_call conn i port c" and "cs \<noteq> []" and "httpd_find_instance port s = Some inst"
    and "pd_at i s = Some pd" and "receiving k n pd" and "concat (map piece cs) = drop k body" and "length body = n"
    and "take k (ram (app s)) = take k body" and "n < length (ram (app s))"
  shows "feed e h cs s = httpd_handle_request e h inst i (last cs)
    (up_state i (pd\<lparr>pd_upload_size := of_nat n, pd_status := HTTPD_S_FULL_RCVD, pd_is_uploading := False\<rparr>) (body @ 0 # drop (Suc n) (ram (app s))) False s)"
  using assms
proof (induction cs arbitrary: k pd s)
  case (Cons c cs)
  note prems = Cons.prems and IH = Cons.IH
  note c = prems(1) [OF list.set_intros(1)]
  let ?d = "piece c"
  have k: "k < n" using prems(5) by (simp add: receiving_def)
  have body: "?d @ concat (map piece cs) = drop k body" using prems(6) by simp
  then have len: "k + length ?d + length (concat (map piece cs)) = n"
    using prems(7) k by (metis add.assoc le_add_diff_inverse length_append length_drop less_imp_le)
  then have fits: "k + length ?d \<le> n" by simp
  have d: "?d = take (length ?d) (drop k body)" using body by (metis append_eq_conv_conj)
  have put: "take (k + length ?d) (put_at k ?d (ram (app s))) = take (k + length ?d) body"
    using prems(7-9) k d by (simp add: put_at_def take_add)
  note rx = rx_piece [OF c prems(4,5) fits prems(9), of e h inst]
  show ?case
  proof (cases cs)
    case Nil
    then have kn: "k + length ?d = n" using len by simp
    have len_put: "length (put_at k ?d (ram (app s))) = length (ram (app s))" using prems(9) kn by simp
    have "put_at n [0] (put_at k ?d (ram (app s))) = take n (put_at k ?d (ram (app s))) @ 0 # drop (Suc n) (put_at k ?d (ram (app s)))"
      by (simp add: put_at_def [of n])
    also have "\<dots> = body @ 0 # drop (Suc n) (ram (app s))"
      using put kn prems(7,9) by (simp add: put_at_def drop_append)
    finally have "put_at n [0] (put_at k ?d (ram (app s))) = body @ 0 # drop (Suc n) (ram (app s))" .
    then show ?thesis using rx kn Nil callback_data [OF c prems(3), of e h] by (simp add: Let_def)
  next
    case (Cons c' cs')
    have "piece c' \<noteq> []" using prems(1) [of c'] Cons length_piece(3) by auto
    then have lt: "k + length ?d < n" using len Cons by auto
    let ?pd = "pd\<lparr>pd_upload_size := of_nat (k + length ?d)\<rparr>" and ?r = "put_at k ?d (ram (app s))"
    let ?s = "up_state i ?pd ?r (is_uploading (app s)) s"
    have rc: "receiving (k + length ?d) n ?pd" using prems(5) lt by (simp add: receiving_def)
    have "drop (Suc n) ?r = drop (Suc n) (ram (app s))" using lt k prems(9) by (simp add: put_at_def drop_append)
    moreover have "feed e h cs ?s = httpd_handle_request e h inst i (last cs)
      (up_state i (?pd\<lparr>pd_upload_size := of_nat n, pd_status := HTTPD_S_FULL_RCVD, pd_is_uploading := False\<rparr>) (body @ 0 # drop (Suc n) (ram (app ?s))) False ?s)"
    proof (rule IH [OF _ _ _ _ rc])
      show "concat (map piece cs) = drop (k + length ?d) body" using body by (metis add.commute append_eq_conv_conj drop_drop)
      show "n < length (ram (app ?s))" using prems(9) fits by simp
      show "take (k + length ?d) (ram (app ?s)) = take (k + length ?d) body" using put by simp
    qed (use prems Cons in simp_all)
    ultimately show ?thesis using rx lt Cons callback_data [OF c prems(3), of e h] by (simp add: Let_def)
  qed
qed simp

section \<open>States to evaluate with\<close>

abbreviation demo_call :: "bytes \<Rightarrow> tcb_cb_data" where
  "demo_call d \<equiv> \<lparr>cbd_conn = 0, cbd_status = TCP_CB_DATA_RCVD, cbd_sip = 0, cbd_sp = 0, cbd_dp = 0x5000, cbd_pdata = Some 0, cbd_data = d, cbd_datalen = of_nat (length d)\<rparr>"

lemma demo_port: "htons 80 = 0x5000"
  by code_simp

abbreviation null_env :: "(unit, unit) henv" where "null_env \<equiv> demo_env (\<lambda>_ _ _. None) (\<lambda>_ _ _ _. None)"

abbreviation null_httpd :: "(unit, unit) httpd_env" where "null_httpd \<equiv> \<lparr>hd_rand = of_nat, hd_call = \<lambda>_ _ _ _. None\<rparr>"

end
