(* ===== verification/Httpd_Form.thy ===== *)
theory Httpd_Form
  imports Httpd_Upload
begin

text \<open>
  Forms: what a browser encodes as \<^verbatim>\<open>multipart/form-data\<close>, the server takes apart, and the data of each part is
  handed out as it was sent.
\<close>

section \<open>Encoding\<close>

text \<open>A part: its header lines and its data.\<close>

type_synonym part = "bytes \<times> bytes"

definition part_text :: "part \<Rightarrow> bytes" where
  "part_text p = fst p @ CRLF @ CRLF @ snd p @ CRLF"

definition enc_part :: "bytes \<Rightarrow> part \<Rightarrow> bytes" where
  "enc_part b p = b @ CRLF @ part_text p"



text \<open>After the first pass of the server: the line break behind the data is cut.\<close>

definition cut_part :: "bytes \<Rightarrow> part \<Rightarrow> bytes" where
  "cut_part b p = b @ CRLF @ fst p @ CRLF @ CRLF @ snd p @ [0, 10]"


lemma length_cut [simp]: "length (cut_part b p) = length (enc_part b p)"
  by (simp add: cut_part_def enc_part_def part_text_def)

section \<open>Splitting\<close>



section \<open>Parts\<close>











section \<open>A form\<close>














end
