(* ===== verification/Httpd_Header.thy ===== *)
theory Httpd_Header
  imports Httpd_Upload
begin

text \<open>
  The header of an upload, as a browser sends it: what the server finds in it, and where the payload goes. Header and
  payload together are an upload.
\<close>

section \<open>Headers\<close>

text \<open>The fields: a length, a content type with the boundary, and others before, between and behind them.\<close>

definition post_fields :: "bytes \<Rightarrow> nat \<Rightarrow> bytes \<Rightarrow> bytes \<Rightarrow> bytes \<Rightarrow> bytes" where
  "post_fields f1 n f2 bnd f3 =
     f1 @ str ''Content-Length:'' @ 32 # str (decimal n) @ CRLF @ f2 @ str ''Content-Type:'' @ str '' multipart/form-data; '' @ str ''boundary='' @ bnd @ f3"

definition post_head :: "bytes \<Rightarrow> bytes \<Rightarrow> bytes \<Rightarrow> bytes" where
  "post_head uri ver flds = str ''POST'' @ 32 # uri @ 32 # ver @ CRLF @ flds"

text \<open>
  The length and the type are the first fields of their kind, no field ends the header early, and the URI has no query.
\<close>

definition post_ok :: "bytes \<Rightarrow> bytes \<Rightarrow> bytes \<Rightarrow> nat \<Rightarrow> bytes \<Rightarrow> bytes \<Rightarrow> bytes \<Rightarrow> bool" where
  "post_ok uri ver f1 n f2 bnd f3 \<longleftrightarrow>
     (let flds = post_fields f1 n f2 bnd f3; head = post_head uri ver flds in
      0 \<notin> set head \<and> {13, 32, 63} \<inter> set uri = {} \<and> 13 \<notin> set ver \<and> 13 \<notin> set bnd \<and> take 1 bnd \<noteq> [34] \<and> (f3 = [] \<or> take 2 f3 = CRLF) \<and>
      (\<forall>j < length f1. \<not> occurs_at (str ''Content-Length:'') flds j) \<and>
      (\<forall>j < length (f1 @ str ''Content-Length:'' @ 32 # str (decimal n) @ CRLF @ f2). \<not> occurs_at (str ''Content-Type:'') flds j) \<and>
      (\<forall>j < length head. \<not> occurs_at (CRLF @ CRLF) (head @ CRLF @ CRLF) j))"

lemma occurs_at_hd: "occurs_at (c # cs) t j \<Longrightarrow> j < length t \<and> t ! j = c"
  by (cases "drop j t") (auto simp: occurs_at_def nth_via_drop)

lemma occurs_at_absent: "c \<notin> set t \<Longrightarrow> \<not> occurs_at (c # cs) (t @ u) j" if "j < length t"
  using that by (auto dest!: occurs_at_hd simp: nth_append)

section \<open>The request line\<close>

lemma parse_line:
  assumes M: "M = ''GET'' \<or> M = ''POST''" and z: "0 \<notin> set uri" "0 \<notin> set ver" "0 \<notin> set flds" and u: "{13, 32, 63} \<inter> set uri = {}" and v: "13 \<notin> set ver"
  shows "parse_request_line ((str M @ 32 # uri @ 32 # ver @ CRLF @ flds) @ 0 # rest) =
    Some (Inr (if M = ''GET'' then HTTP_GET else HTTP_POST, length M + 1, length M + 4 + length uri + length ver), str M @ 0 # uri @ 0 # ver @ 0 # 10 # flds @ 0 # rest)"
proof -
  let ?P = "str M" and ?rl = "str M @ 32 # uri @ 32 # ver"
  have p: "13 \<notin> set ?P" "0 \<notin> set ?P" "32 \<notin> set ?P" using M by (auto simp: str_def)
  have l: "length ?rl = length M + 2 + length uri + length ver" by simp
  have "strstr ([] @ (?rl @ CRLF @ flds) @ 0 # rest) (length ([] :: bytes)) CRLF = Some (Some (length ([] :: bytes) + length ?rl))"
  proof (rule strstr_found)
    show "occurs_at CRLF (?rl @ CRLF @ flds) (length ?rl)" by (simp add: occurs_at_def)
    show "0 \<notin> set (?rl @ CRLF @ flds)" using p z by auto
    show "\<not> occurs_at CRLF (?rl @ CRLF @ flds) j" if "j < length ?rl" for j
      using occurs_at_absent [OF that, of 13 "[10]" "CRLF @ flds"] p u v by auto
  qed simp
  then have s1: "strstr ((?rl @ CRLF @ flds) @ 0 # rest) 0 CRLF = Some (Some (length ?rl))" by simp
  have b1: "arr_set ((?rl @ CRLF @ flds) @ 0 # rest) (length ?rl) 0 = Some (?rl @ 0 # 10 # flds @ 0 # rest)"
    by (simp add: arr_set_def list_update_append)
  have "strchr ([] @ ?P @ 32 # uri @ 32 # ver @ 0 # 10 # flds @ 0 # rest) (length ([] :: bytes)) 32 = Some (Some (length ([] :: bytes) + length ?P))"
    by (rule strchr_found) (use p in simp_all)
  then have s2: "strchr (?rl @ 0 # 10 # flds @ 0 # rest) 0 32 = Some (Some (length M))" by simp
  have b2: "arr_set (?rl @ 0 # 10 # flds @ 0 # rest) (length M) 0 = Some (?P @ 0 # uri @ 32 # ver @ 0 # 10 # flds @ 0 # rest)"
    by (simp add: arr_set_def list_update_append)
  let ?B = "\<lambda>c. (?P @ [0]) @ uri @ c # ver @ 0 # 10 # flds @ 0 # rest"
  have l1: "length (?P @ [0]) = length M + 1" by simp
  have cmp: "strcmp_eq (?B 32) 0 (str N) = Some (M = N)" if "0 \<notin> set (str N)" for N
    unfolding strcmp_eq_def by (subst memcmp_name [of ?P]) (use p that in \<open>auto simp: str_eq_iff\<close>)
  have "strchr (?B 32) (length (?P @ [0])) 32 = Some (Some (length (?P @ [0]) + length uri))" by (rule strchr_found) (use u z in simp_all)
  then have s3: "strchr (?B 32) (length M + 1) 32 = Some (Some (length M + 1 + length uri))" unfolding l1 .
  have b3: "arr_set (?B 32) (length M + 1 + length uri) 0 = Some (?B 0)" by (simp add: arr_set_def list_update_append)
  have "strchr (?B 0) (length (?P @ [0])) 63 = Some None" by (rule strchr_none) (use u z in simp_all)
  then have s4: "strchr (?B 0) (length M + 1) 63 = Some None" unfolding l1 .
  have get: "strcmp_eq (?B 32) 0 (str ''GET'') = Some (M = ''GET'')" and post: "strcmp_eq (?B 32) 0 (str ''POST'') = Some (M = ''POST'')"
    by (rule cmp; simp add: str_def)+
  have either: "(\<not> M = ''GET'' \<and> \<not> M = ''POST'') = False" using M by blast
  show ?thesis
    using s1 b1 s2 b2 get post s3 b3 s4 l by (simp add: parse_request_line_def Let_def put_nul_def either)
qed

section \<open>The fields\<close>

lemma parse_post_length:
  assumes "0 \<notin> set (post_fields f1 n f2 bnd f3)" and "\<forall>j < length f1. \<not> occurs_at (str ''Content-Length:'') (post_fields f1 n f2 bnd f3) j"
  shows "parse_content_length (pre @ post_fields f1 n f2 bnd f3 @ 0 # rest) (length pre) p = Some (of_nat n)"
proof -
  let ?F = "post_fields f1 n f2 bnd f3" and ?C = "str ''Content-Length:''"
  define tail where "tail = CRLF @ f2 @ str ''Content-Type:'' @ str '' multipart/form-data; '' @ str ''boundary='' @ bnd @ f3"
  let ?q = "pre @ f1 @ ?C"
  have F: "?F = f1 @ ?C @ 32 # str (decimal n) @ tail" by (simp add: post_fields_def tail_def)
  have s1: "strstr (pre @ ?F @ 0 # rest) (length pre) ?C = Some (Some (length pre + length f1))"
    by (rule strstr_found) (use assms in \<open>auto simp: F occurs_at_def str_def\<close>)
  have m: "pre @ ?F @ 0 # rest = ?q @ 32 # str (decimal n) @ tail @ 0 # rest" by (simp add: F)
  have d: "takeWhile (\<lambda>b. b = 32) (str (decimal n) @ tail @ 0 # rest) = []"
  proof -
    obtain c cs where c: "decimal n = c # cs" by (cases "decimal n") (simp_all add: decimal.simps [of n] split: if_splits)
    then have "isxdigit c" using decimal_digits [of n] by simp
    then have "unat (of_char c :: u8) \<noteq> 32" by (auto simp: unat_of_char isxdigit_def isdigit_def)
    then have "of_char c \<noteq> (32 :: u8)" by auto
    then show ?thesis by (simp add: c str_def)
  qed
  have skip: "length pre + length f1 + 15 + length (takeWhile (\<lambda>b. b = 32) (drop (length pre + length f1 + 15) (pre @ ?F @ 0 # rest))) = length (?q @ [32])"
    unfolding m using d by simp
  have "strlen ((?q @ [32]) @ (str (decimal n) @ tail) @ 0 # rest) (length (?q @ [32])) = Some (length (str (decimal n) @ tail))"
    by (rule strlen_split) (use assms(1) in \<open>auto simp: F\<close>)
  then have len: "strlen (pre @ ?F @ 0 # rest) (length (?q @ [32])) = Some (length (str (decimal n) @ tail))" unfolding m by simp
  have "take (length (str (decimal n) @ tail)) (drop (length (?q @ [32])) (pre @ ?F @ 0 # rest)) = str (decimal n) @ tail" unfolding m by simp
  then have "map (\<lambda>b. char_of (unat b)) (take (length (str (decimal n) @ tail)) (drop (length (?q @ [32])) (pre @ ?F @ 0 # rest)))
      = decimal n @ map (\<lambda>b. char_of (unat b)) tail" by (simp only: map_append char_str)
  moreover have "simple_strtoul (decimal n @ map (\<lambda>b. char_of (unat b)) tail) 10 = (of_nat n, map (\<lambda>b. char_of (unat b)) tail)"
    by (rule strtoul_decimal) (simp add: tail_def isxdigit_def isdigit_def)
  ultimately have "strtoul_at (pre @ ?F @ 0 # rest) (length (?q @ [32])) = Some (of_nat n)"
    using len by (simp add: strtoul_at_def)
  then show ?thesis unfolding parse_content_length_def s1 Option.bind.bind_lunit option.case Let_def skip .
qed

lemma parse_post_boundary:
  assumes "0 \<notin> set (post_fields f1 n f2 bnd f3)" and "13 \<notin> set bnd" and "take 1 bnd \<noteq> [34]" and "f3 = [] \<or> take 2 f3 = CRLF"
    and "\<forall>j < length (f1 @ str ''Content-Length:'' @ 32 # str (decimal n) @ CRLF @ f2). \<not> occurs_at (str ''Content-Type:'') (post_fields f1 n f2 bnd f3) j"
  obtains xs ys where "parse_boundary (pre @ post_fields f1 n f2 bnd f3 @ 0 # rest) (length pre) = Some (Inr (Some (length (pre @ xs))), pre @ xs @ bnd @ 0 # ys @ rest)"
    "length (xs @ bnd @ 0 # ys) = length (post_fields f1 n f2 bnd f3) + 1"
proof -
  let ?F = "post_fields f1 n f2 bnd f3" and ?C = "str ''Content-Type:''" and ?M = "str '' multipart/form-data; ''" and ?b = "str ''boundary=''"
  define g where "g = f1 @ str ''Content-Length:'' @ 32 # str (decimal n) @ CRLF @ f2"
  have F: "?F = g @ ?C @ ?M @ ?b @ bnd @ f3" by (simp add: post_fields_def g_def)
  have z: "0 \<notin> set g" "0 \<notin> set (?C @ ?M @ ?b @ bnd)" "0 \<notin> set f3" using assms(1) by (auto simp: F)
  have no13: "13 \<notin> set (?C @ ?M @ ?b @ bnd)" using assms(2) by (simp add: str_def)
  let ?q = "pre @ g" and ?t = "?C @ ?M @ ?b @ bnd"
  have s1: "strstr (pre @ ?F @ 0 # rest) (length pre) ?C = Some (Some (length ?q))"
  proof -
    have "strstr (pre @ ?F @ 0 # rest) (length pre) ?C = Some (Some (length pre + length g))"
    proof (rule strstr_found)
      show "occurs_at ?C ?F (length g)" unfolding F by (simp add: occurs_at_def)
      show "\<not> occurs_at ?C ?F j" if "j < length g" for j using assms(5) that unfolding g_def by blast
      show "?C \<noteq> []" by (simp add: str_def)
    qed (rule assms(1))
    then show ?thesis by simp
  qed
  obtain p ys where cut: "strstr (pre @ ?F @ 0 # rest) (length ?q) CRLF = Some p" "put_nul p (pre @ ?F @ 0 # rest) = Some (?q @ ?t @ 0 # ys @ rest)"
    and len: "length ys = length f3"
  proof (cases "f3 = []")
    case True
    have "strstr (?q @ ?t @ 0 # rest) (length ?q) CRLF = Some None"
      by (rule strstr_none) (use z no13 in \<open>auto dest!: occurs_at_hd nth_mem\<close>)
    then show ?thesis using that [of None "[]"] True F by (simp add: put_nul_def)
  next
    case False
    then obtain f where f: "f3 = 13 # 10 # f" using assms(4) by (cases f3; cases "tl f3") auto
    have "strstr (?q @ (?t @ CRLF @ f) @ 0 # rest) (length ?q) CRLF = Some (Some (length ?q + length ?t))"
    proof (rule strstr_found)
      show "occurs_at CRLF (?t @ CRLF @ f) (length ?t)" by (simp add: occurs_at_def)
      show "\<not> occurs_at CRLF (?t @ CRLF @ f) j" if "j < length ?t" for j using occurs_at_absent [OF that no13] by blast
      show "0 \<notin> set (?t @ CRLF @ f)" using z f by auto
    qed simp
    moreover have "put_nul (Some (length ?q + length ?t)) (?q @ ?t @ 13 # 10 # f @ 0 # rest) = Some (?q @ ?t @ 0 # 10 # f @ 0 # rest)"
      by (simp add: put_nul_def arr_set_def list_update_append)
    ultimately show ?thesis using that [of "Some (length ?q + length ?t)" "10 # f @ [0]"] F by (simp add: f)
  qed
  have s2: "strstr (?q @ ?t @ 0 # ys @ rest) (length ?q) ?b = Some (Some (length ?q + length (?C @ ?M)))"
  proof (rule strstr_found)
    show "occurs_at ?b ?t (length (?C @ ?M))" by (simp add: occurs_at_def)
    show "\<not> occurs_at ?b ?t j" if j: "j < length (?C @ ?M)" for j
    proof -
      have "\<forall>j < length (?C @ ?M). \<not> occurs_at ?b (?C @ ?M @ ?b) j" by code_simp
      then show ?thesis using j occurs_at_inner [of j ?b "?C @ ?M @ ?b" "[]" bnd] by auto
    qed
  qed (use z in \<open>simp_all add: str_def\<close>)
  let ?x = "?q @ ?C @ ?M @ ?b"
  have pos: "length ?q + length (?C @ ?M) + 9 = length ?x" by simp
  obtain c where c: "arr_get (?x @ bnd @ 0 # ys @ rest) (length ?x) = Some c" "c \<noteq> 34"
  proof -
    have "arr_get (?x @ bnd @ 0 # ys @ rest) (length ?x) = arr_get (bnd @ 0 # ys @ rest) 0" by (rule arr_get_append(1))
    moreover have "\<exists>c. arr_get (bnd @ 0 # ys @ rest) 0 = Some c \<and> c \<noteq> 34" using assms(3) by (cases bnd) simp_all
    ultimately show ?thesis using that by metis
  qed
  have s3: "strchr (?x @ bnd @ 0 # ys @ rest) (length ?x) 13 = Some None" by (rule strchr_none) (use z assms(2) in simp_all)
  have b: "?q @ ?t @ 0 # ys @ rest = ?x @ bnd @ 0 # ys @ rest" by simp
  have "parse_boundary (pre @ ?F @ 0 # rest) (length pre) = Some (Inr (Some (length ?x)), ?x @ bnd @ 0 # ys @ rest)"
    unfolding parse_boundary_def s1 Option.bind.bind_lunit option.case cut s2 [unfolded b] Let_def pos b c(1)
    by (simp only: c(2) if_False prod.case s3 Option.bind.bind_lunit) (simp add: put_nul_def)
  then show ?thesis using that [of "g @ ?C @ ?M @ ?b" ys] len by (simp add: F)
qed

section \<open>The header of an upload\<close>

text \<open>What the server keeps of the header: the URI, the boundary and the length; \<open>k\<close> bytes of the payload came with it.\<close>

definition upload_ready :: "bytes \<Rightarrow> bytes \<Rightarrow> nat \<Rightarrow> nat \<Rightarrow> httpd_tcp_pdata \<Rightarrow> httpd_tcp_pdata \<Rightarrow> bool" where
  "upload_ready uri bnd k n pd pd' \<longleftrightarrow> receiving k n pd' \<and> pd_is_uploading pd' \<and> length (pd_buf pd') = length (pd_buf pd) \<and>
     (\<exists>xs ys. pd_uri pd' = Some (length xs) \<and> pd_buf pd' = xs @ uri @ 0 # ys) \<and>
     (\<exists>xs ys. pd_boundary pd' = Some (length xs) \<and> pd_buf pd' = xs @ bnd @ 0 # ys) \<and>
     pd_request pd' = (pd_request pd)\<lparr>rq_method := HTTP_POST\<rparr> \<and> pd_response pd' = pd_response pd \<and> pd_resp_std_cnt pd' = pd_resp_std_cnt pd"

lemma upload_readyI:
  assumes "receiving k n pd'" and "pd_is_uploading pd'" and "length (pd_buf pd') = length (pd_buf pd)"
    and "pd_uri pd' = Some (length xs)" and "pd_buf pd' = xs @ uri @ 0 # ys" and "pd_boundary pd' = Some (length xs')" and "pd_buf pd' = xs' @ bnd @ 0 # ys'"
    and "pd_request pd' = (pd_request pd)\<lparr>rq_method := HTTP_POST\<rparr>" and "pd_response pd' = pd_response pd" and "pd_resp_std_cnt pd' = pd_resp_std_cnt pd"
  shows "upload_ready uri bnd k n pd pd'"
  unfolding upload_ready_def using assms by blast

definition new_upload :: "('h, 'x) httpd_env \<Rightarrow> ('h, 'x) hnet \<Rightarrow> ('h, 'x) hnet" where
  "new_upload h s = on_app (\<lambda>a. a\<lparr>upload_id := hd_rand h (rands a), rands := Suc (rands a)\<rparr>) s"

lemma upload_to_ram:
  assumes "\<not> is_uploading (app s)" and "pd_bufsize pd - hdr_size = of_nat (length x)" and "mem_read (unat hdr_size) (length x) (pd_buf pd) = Some x"
    and "\<not> hdr_size + pd_payload_size pd < of_nat BUFSZ" and "pd_payload_size pd = of_nat n" and "length x < n" "n < 2 ^ 32" and "length x \<le> length (ram (app s))"
  shows "recv_hdr_upload e h i c (cbd_datalen c) hdr_size pd s = Some (if x = [] then 1 else 0,
    up_state i (pd\<lparr>pd_upload_size := of_nat (length x), pd_upload_ptr := Some (Ram, 0), pd_request := (pd_request pd)\<lparr>rq_method := HTTP_POST\<rparr>,
      pd_status := HTTPD_S_PAYLOAD_RECVING, pd_is_uploading := True\<rparr>) (put_at 0 x (ram (app s))) True (new_upload h s))"
proof -
  have u: "unat (of_nat j :: u32) = j" if "j \<le> n" for j using that assms(7) by (subst unat_of_nat) simp
  have x: "unat (of_nat (length x) :: u32) = length x" "of_nat (length x) \<noteq> (of_nat n :: u32)" "of_nat (length x) = (0 :: u32) \<longleftrightarrow> x = []"
  proof -
    show l: "unat (of_nat (length x) :: u32) = length x" using u assms(6) by simp
    have "unat (of_nat n :: u32) = n" using u by simp
    then show "of_nat (length x) \<noteq> (of_nat n :: u32)" using l assms(6) by auto
    have "of_nat (length x) = (0 :: u32) \<longleftrightarrow> unat (of_nat (length x) :: u32) = 0" by (simp only: unat_eq_0)
    then show "of_nat (length x) = (0 :: u32) \<longleftrightarrow> x = []" unfolding l by simp
  qed
  have w: "obj_write (Ram, 0) 0 x (new_upload h s) = Some (on_app (\<lambda>a. a\<lparr>ram := put_at 0 x (ram a)\<rparr>) (new_upload h s))"
    by (rule ram_write) (use assms(8) in \<open>simp add: new_upload_def\<close>)
  show ?thesis
    unfolding recv_hdr_upload_def Let_def assms(2) x(1) assms(3) Option.bind.bind_lunit new_upload_def [symmetric] w
    using assms(1,4) x(2,3) by (simp add: recv_hdr_done_def Let_def assms(5)) (simp add: up_state_def pd_put_def on_app_def new_upload_def)
qed

lemma parse_post:
  assumes ok: "post_ok uri ver f1 n f2 bnd f3" and hdr: "hdr = post_head uri ver (post_fields f1 n f2 bnd f3)"
    and buf: "pd_buf pd = hdr @ 0 # 10 # 13 # 10 # x @ zs" and sz: "pd_bufsize pd = of_nat (length hdr + 4 + length x)"
    and n: "BUFSZ \<le> length hdr + 4 + n" "length hdr + 4 + n < 2 ^ 32" "length x < n"
    and s: "\<not> is_uploading (app s)" "length x \<le> length (ram (app s))"
  obtains pd' where "recv_hdr_parse e h i c (cbd_datalen c) (of_nat (length hdr + 4)) pd s =
      Some (if x = [] then 1 else 0, up_state i pd' (put_at 0 x (ram (app s))) True (new_upload h s))" "upload_ready uri bnd (length x) n pd pd'"
proof -
  let ?F = "post_fields f1 n f2 bnd f3" and ?pre = "str ''POST'' @ 0 # uri @ 0 # ver @ 0 # [10]" and ?rest = "10 # 13 # 10 # x @ zs"
  have o: "0 \<notin> set (post_head uri ver ?F)" "{13, 32, 63} \<inter> set uri = {}" "13 \<notin> set ver" "0 \<notin> set ?F"
    and l: "\<forall>j < length f1. \<not> occurs_at (str ''Content-Length:'') ?F j"
    using ok by (simp_all add: post_ok_def Let_def post_head_def)
  have p: "parse_request_line (pd_buf pd) = Some (Inr (HTTP_POST, 5, length ?pre), ?pre @ ?F @ 0 # ?rest)"
    using parse_line [of "''POST''" uri ver ?F ?rest] o unfolding buf hdr by (auto simp: post_head_def)
  have cl: "parse_content_length (?pre @ ?F @ 0 # ?rest) (length ?pre) q = Some (of_nat n)" for q by (rule parse_post_length [OF o(4) l])
  obtain xs ys where b: "parse_boundary (?pre @ ?F @ 0 # ?rest) (length ?pre) = Some (Inr (Some (length (?pre @ xs))), ?pre @ xs @ bnd @ 0 # ys @ ?rest)"
    and len: "length (xs @ bnd @ 0 # ys) = length ?F + 1"
  proof -
    have "13 \<notin> set bnd" "take 1 bnd \<noteq> [34]" "f3 = [] \<or> take 2 f3 = CRLF" using ok by (simp_all add: post_ok_def Let_def)
    moreover have "\<forall>j < length (f1 @ str ''Content-Length:'' @ 32 # str (decimal n) @ CRLF @ f2). \<not> occurs_at (str ''Content-Type:'') ?F j"
      using ok unfolding post_ok_def Let_def by (elim conjE)
    ultimately show ?thesis by (rule parse_post_boundary [OF o(4)]) (rule that)
  qed
  let ?buf = "?pre @ xs @ bnd @ 0 # ys @ ?rest"
  let ?pd = "pd\<lparr>pd_uri := Some 5, pd_buf := ?buf, pd_payload_size := of_nat n, pd_boundary := Some (length (?pre @ xs))\<rparr>"
  have lh: "length hdr = length ?pre + length ?F" by (simp add: hdr post_head_def)
  have split: "?buf = (?pre @ xs @ bnd @ 0 # ys @ [10, 13, 10]) @ x @ zs" "length (?pre @ xs @ bnd @ 0 # ys @ [10, 13, 10]) = length hdr + 4"
    using len lh by simp_all
  have hs: "unat (of_nat (length hdr + 4) :: u32) = length hdr + 4" using n by (subst unat_of_nat) simp
  have rd: "mem_read (unat (of_nat (length hdr + 4) :: u32)) (length x) (pd_buf ?pd) = Some x"
  proof -
    have inner: "mem_read (length p) (length x) (p @ x @ z) = Some x" for p z by (simp add: mem_read_def)
    show ?thesis using inner [of "?pre @ xs @ bnd @ 0 # ys @ [10, 13, 10]" zs] unfolding split(2) hs by simp
  qed
  have big: "\<not> of_nat (length hdr + 4) + pd_payload_size ?pd < (of_nat BUFSZ :: u32)"
  proof -
    have "unat (of_nat (length hdr + 4 + n) :: u32) = length hdr + 4 + n" using n(2) by (subst unat_of_nat) simp
    then show ?thesis using n(1) by (simp add: word_less_nat_alt)
  qed
  have diff: "pd_bufsize ?pd - of_nat (length hdr + 4) = of_nat (length x)" by (simp add: sz)
  note up = upload_to_ram [OF s(1) diff rd big _ n(3) _ s(2), of e h i c]
  let ?pd' = "?pd\<lparr>pd_upload_size := of_nat (length x), pd_upload_ptr := Some (Ram, 0), pd_request := (pd_request ?pd)\<lparr>rq_method := HTTP_POST\<rparr>,
      pd_status := HTTPD_S_PAYLOAD_RECVING, pd_is_uploading := True\<rparr>"
  have "recv_hdr_parse e h i c (cbd_datalen c) (of_nat (length hdr + 4)) pd s =
      Some (if x = [] then 1 else 0, up_state i ?pd' (put_at 0 x (ram (app s))) True (new_upload h s))"
    unfolding recv_hdr_parse_def p Option.bind.bind_lunit prod.case Let_def sum.case httpd_request_method.case cl b
    using up n by simp
  moreover have "upload_ready uri bnd (length x) n pd ?pd'"
  proof (rule upload_readyI [where xs = "str ''POST'' @ [0]" and ys = "ver @ 0 # 10 # xs @ bnd @ 0 # ys @ ?rest" and xs' = "?pre @ xs" and ys' = "ys @ ?rest"])
    show "receiving (length x) n ?pd'" using n by (simp add: receiving_def)
    show "length (pd_buf ?pd') = length (pd_buf pd)" unfolding buf using lh len by simp
  qed simp_all
  ultimately show ?thesis by (rule that)
qed

section \<open>Collecting the header\<close>

text \<open>The bytes \<open>acc\<close> of a header have been received.\<close>

definition collecting :: "bytes \<Rightarrow> httpd_tcp_pdata \<Rightarrow> bool" where
  "collecting acc pd \<longleftrightarrow> length (pd_buf pd) = BUFSZ \<and> length acc < BUFSZ \<and> pd_bufsize pd = of_nat (length acc) \<and> take (length acc) (pd_buf pd) = acc"

definition collected :: "bytes \<Rightarrow> httpd_tcp_pdata \<Rightarrow> httpd_tcp_pdata" where
  "collected all pd = pd\<lparr>pd_buf := all @ 0 # drop (Suc (length all)) (pd_buf pd), pd_bufsize := of_nat (length all)\<rparr>"

lemma collecting_collected: "collecting all (collected all pd)" if "length (pd_buf pd) = BUFSZ" "length all < BUFSZ"
  using that by (simp add: collecting_def collected_def)

lemma collected_again: "collected xs (collected ys pd) = collected xs pd" if "length ys \<le> length xs"
  using that by (simp add: collected_def drop_append Suc_diff_le)

lemma recv_hdr_collects:
  assumes c: "data_call conn i port c" and pd: "pd_at i s = Some pd" "collecting acc pd" and fits: "length acc + length (piece c) < BUFSZ"
  shows "httpd_recv_hdr e h i c s = do {
     let pd = collected (acc @ piece c) pd;
     q \<leftarrow> strstr (pd_buf pd) 0 (CRLF @ CRLF);
     case q of
       None \<Rightarrow> Some (1, pd_put i pd s)
     | Some q \<Rightarrow> do {
         buf \<leftarrow> arr_set (pd_buf pd) q 0;
         recv_hdr_parse e h i c (cbd_datalen c) (of_nat (q + 4)) (pd\<lparr>pd_buf := buf\<rparr>) s
       }
   }"
proof -
  let ?d = "piece c" and ?all = "acc @ piece c"
  have pb: "length (pd_buf pd) = 4096" "pd_bufsize pd = of_nat (length acc)" "take (length acc) (pd_buf pd) = acc" using pd(2) by (simp_all add: collecting_def)
  have u: "unat (of_nat j :: u32) = j" if "j \<le> 4096" for j using that by (subst unat_of_nat) simp
  note len = length_piece(1,2) [OF c]
  have "(of_nat 4096 :: u32) - of_nat (length acc) - 1 = of_nat (4096 - length acc - 1)"
    using fits by (simp add: of_nat_diff del: of_nat_numeral) (simp add: of_nat_diff)
  moreover have "length ?d \<le> 4096 - length acc - 1" using fits by simp
  ultimately have "min (cbd_datalen c) (of_nat 4096 - pd_bufsize pd - 1) = cbd_datalen c"
    using u [of "4096 - length acc - 1"] u [of "length ?d"] by (simp add: min_def len(2) pb(2) word_le_nat_alt)
  moreover have "mem_read 0 (unat (cbd_datalen c)) (cbd_data c) = Some ?d" using c by (simp add: mem_read_def piece_def data_call_def)
  moreover have "mem_write (unat (pd_bufsize pd)) ?d (pd_buf pd) = Some (?all @ drop (length ?all) (pd_buf pd))"
    using fits pb u [of "length acc"] by (simp add: mem_write_def)
  moreover have "pd_bufsize pd + cbd_datalen c = of_nat (length ?all)" by (simp add: pb(2) len(2))
  moreover have "arr_set (?all @ drop (length ?all) (pd_buf pd)) (length ?all) 0 = Some (?all @ 0 # drop (Suc (length ?all)) (pd_buf pd))"
  proof -
    have "drop (length ?all) (pd_buf pd) = pd_buf pd ! length ?all # drop (Suc (length ?all)) (pd_buf pd)"
      using fits pb(1) by (intro Cons_nth_drop_Suc [symmetric]) simp
    then show ?thesis by (simp only: arr_set_def) (simp add: list_update_append)
  qed
  moreover have "unat (of_nat (length ?all) :: u32) = length ?all" using fits by (intro u) simp
  ultimately show ?thesis by (simp add: httpd_recv_hdr_def pd(1) Let_def collected_def del: of_nat_add length_append append_assoc)
qed

lemma recv_hdr_incomplete:
  assumes c: "data_call conn i port c" and pd: "pd_at i s = Some pd" "collecting acc pd" and fits: "length hdr + 4 < BUFSZ"
    and ok: "0 \<notin> set hdr" "\<forall>j < length hdr. \<not> occurs_at (CRLF @ CRLF) (hdr @ CRLF @ CRLF) j"
    and split: "(acc @ piece c) @ rest = hdr @ CRLF @ CRLF" "rest \<noteq> []"
  shows "httpd_recv_hdr e h i c s = Some (1, pd_put i (collected (acc @ piece c) pd) s)"
proof -
  let ?all = "acc @ piece c" and ?h = "hdr @ CRLF @ CRLF"
  have len: "length ?all + length rest = length hdr + 4" using arg_cong [OF split(1), of length] by simp
  have "set ?all \<subseteq> set ?h" unfolding split(1) [symmetric] by auto
  then have z: "0 \<notin> set ?all" using ok(1) by auto
  have no: "\<not> occurs_at (CRLF @ CRLF) ?all j" for j
  proof
    assume a: "occurs_at (CRLF @ CRLF) ?all j"
    then have j: "j + 4 \<le> length ?all" by (simp add: occurs_at_def)
    then have "occurs_at (CRLF @ CRLF) ?h j" using a occurs_at_inner [of j "CRLF @ CRLF" ?all "[]" rest] split(1) by simp
    moreover have "j < length hdr" using j len split(2) by (cases rest) auto
    ultimately show False using ok(2) by blast
  qed
  have "strstr ([] @ ?all @ 0 # drop (Suc (length ?all)) (pd_buf pd)) (length ([] :: bytes)) (CRLF @ CRLF) = Some None"
    by (rule strstr_none) (use z no in simp_all)
  then have "strstr (pd_buf (collected ?all pd)) 0 (CRLF @ CRLF) = Some None" by (simp add: collected_def)
  moreover have "length acc + length (piece c) < BUFSZ" using len fits by simp
  ultimately show ?thesis using recv_hdr_collects [OF c pd, of e h] by (simp add: Let_def)
qed

lemma recv_hdr_found:
  assumes c: "data_call conn i port c" and pd: "pd_at i s = Some pd" "collecting acc pd"
    and ok: "0 \<notin> set hdr" "\<forall>j < length hdr. \<not> occurs_at (CRLF @ CRLF) (hdr @ CRLF @ CRLF) j"
    and split: "acc @ piece c = hdr @ CRLF @ CRLF @ x" and fits: "length hdr + 4 + length x < BUFSZ"
  obtains zs where "httpd_recv_hdr e h i c s = recv_hdr_parse e h i c (cbd_datalen c) (of_nat (length hdr + 4))
      (pd\<lparr>pd_buf := hdr @ 0 # 10 # 13 # 10 # x @ zs, pd_bufsize := of_nat (length hdr + 4 + length x)\<rparr>) s"
    "length (hdr @ 0 # 10 # 13 # 10 # x @ zs) = BUFSZ"
proof -
  let ?all = "acc @ piece c"
  have len: "length acc + length (piece c) = length hdr + 4 + length x" using arg_cong [OF split, of length] by simp
  define t where "t = hdr @ CRLF @ CRLF @ takeWhile (\<lambda>b. b \<noteq> 0) x"
  have "\<exists>ys. ?all @ 0 # drop (Suc (length ?all)) (pd_buf pd) = t @ 0 # ys"
  proof (cases "0 \<in> set x")
    case True
    then have "x = takeWhile (\<lambda>b. b \<noteq> 0) x @ 0 # tl (dropWhile (\<lambda>b. b \<noteq> 0) x)"
      using hd_dropWhile [of "\<lambda>b. b \<noteq> 0" x] by (metis (mono_tags) dropWhile_eq_Nil_conv list.collapse takeWhile_dropWhile_id)
    then show ?thesis unfolding split t_def by (metis append.assoc append_Cons)
  next
    case False
    then have x: "takeWhile (\<lambda>b. b \<noteq> 0) x = x" unfolding takeWhile_eq_all_conv by metis
    show ?thesis unfolding split t_def x by auto
  qed
  then obtain ys where ys: "pd_buf (collected ?all pd) = t @ 0 # ys" by (auto simp: collected_def)
  have "strstr ([] @ t @ 0 # ys) (length ([] :: bytes)) (CRLF @ CRLF) = Some (Some (length ([] :: bytes) + length hdr))"
  proof (rule strstr_found)
    show "0 \<notin> set t" using ok(1) by (auto simp: t_def dest: set_takeWhileD)
    show "occurs_at (CRLF @ CRLF) t (length hdr)" by (simp add: occurs_at_def t_def)
    show "\<not> occurs_at (CRLF @ CRLF) t j" if "j < length hdr" for j
      using ok(2) that occurs_at_inner [of j "CRLF @ CRLF" "hdr @ CRLF @ CRLF" "[]" "takeWhile (\<lambda>b. b \<noteq> 0) x"] by (simp add: t_def)
  qed simp
  then have str: "strstr (pd_buf (collected ?all pd)) 0 (CRLF @ CRLF) = Some (Some (length hdr))" by (simp add: ys)
  define zs where "zs = 0 # drop (Suc (length ?all)) (pd_buf pd)"
  have cut: "arr_set (pd_buf (collected ?all pd)) (length hdr) 0 = Some (hdr @ 0 # 10 # 13 # 10 # x @ zs)"
  proof -
    have "pd_buf (collected ?all pd) = hdr @ 13 # 10 # 13 # 10 # x @ zs" by (simp only: collected_def split zs_def) simp
    then show ?thesis by (simp add: arr_set_def list_update_append)
  qed
  have fit: "length acc + length (piece c) < BUFSZ" using len fits by simp
  have pd': "(collected ?all pd)\<lparr>pd_buf := hdr @ 0 # 10 # 13 # 10 # x @ zs\<rparr>
      = pd\<lparr>pd_buf := hdr @ 0 # 10 # 13 # 10 # x @ zs, pd_bufsize := of_nat (length hdr + 4 + length x)\<rparr>"
    unfolding len [symmetric] by (simp add: collected_def)
  have "httpd_recv_hdr e h i c s = recv_hdr_parse e h i c (cbd_datalen c) (of_nat (length hdr + 4))
      (pd\<lparr>pd_buf := hdr @ 0 # 10 # 13 # 10 # x @ zs, pd_bufsize := of_nat (length hdr + 4 + length x)\<rparr>) s"
    unfolding recv_hdr_collects [OF c pd fit] Let_def str Option.bind.bind_lunit option.case cut pd' by (rule refl)
  moreover have "length (hdr @ 0 # 10 # 13 # 10 # x @ zs) = BUFSZ" using pd(2) fits len by (simp add: zs_def collecting_def)
  ultimately show ?thesis by (rule that)
qed

lemma recv_hdr_complete:
  assumes c: "data_call conn i port c" and pd: "pd_at i s = Some pd" "collecting acc pd"
    and ok: "post_ok uri ver f1 n f2 bnd f3" and hdr: "hdr = post_head uri ver (post_fields f1 n f2 bnd f3)"
    and split: "acc @ piece c = hdr @ CRLF @ CRLF @ x" and fits: "length hdr + 4 + length x < BUFSZ"
    and n: "BUFSZ \<le> length hdr + 4 + n" "length hdr + 4 + n < 2 ^ 32"
    and s: "\<not> is_uploading (app s)" "length x \<le> length (ram (app s))"
  obtains pd' where "httpd_recv_hdr e h i c s =
      Some (if x = [] then 1 else 0, up_state i pd' (put_at 0 x (ram (app s))) True (new_upload h s))" "upload_ready uri bnd (length x) n pd pd'"
proof -
  have o: "0 \<notin> set hdr" "\<forall>j < length hdr. \<not> occurs_at (CRLF @ CRLF) (hdr @ CRLF @ CRLF) j" using ok by (simp_all add: hdr post_ok_def Let_def)
  obtain zs where z: "httpd_recv_hdr e h i c s = recv_hdr_parse e h i c (cbd_datalen c) (of_nat (length hdr + 4))
      (pd\<lparr>pd_buf := hdr @ 0 # 10 # 13 # 10 # x @ zs, pd_bufsize := of_nat (length hdr + 4 + length x)\<rparr>) s"
    "length (hdr @ 0 # 10 # 13 # 10 # x @ zs) = BUFSZ" by (rule recv_hdr_found [OF c pd o split fits])
  let ?pd = "pd\<lparr>pd_buf := hdr @ 0 # 10 # 13 # 10 # x @ zs, pd_bufsize := of_nat (length hdr + 4 + length x)\<rparr>"
  obtain pd' where "recv_hdr_parse e h i c (cbd_datalen c) (of_nat (length hdr + 4)) ?pd s =
      Some (if x = [] then 1 else 0, up_state i pd' (put_at 0 x (ram (app s))) True (new_upload h s))" and ready: "upload_ready uri bnd (length x) n ?pd pd'"
    by (rule parse_post [OF ok hdr, of ?pd x zs s e h i c]) (use n s fits in simp_all)
  moreover have "upload_ready uri bnd (length x) n pd pd'" using ready z(2) pd(2) by (simp add: upload_ready_def collecting_def)
  ultimately show ?thesis using that z(1) by simp
qed

text \<open>The header in pieces.\<close>

lemma up_state_put [simp]: "up_state i pd r u (new_upload h (pd_put i x s)) = up_state i pd r u (new_upload h s)"
  by (simp add: up_state_def new_upload_def pd_put_def on_app_def)

lemma app_put_simps [simp]:
  "ram (app (pd_put i pd s)) = ram (app s)" "is_uploading (app (pd_put i pd s)) = is_uploading (app s)"
  "httpd_find_instance port (pd_put i pd s) = httpd_find_instance port s"
  "ram (app (new_upload h s)) = ram (app s)" "httpd_find_instance port (new_upload h s) = httpd_find_instance port s"
  by (simp_all add: app_pd_put httpd_find_instance_def new_upload_def)

lemma put_at_nothing [simp]: "put_at 0 [] r = r"
  by (simp add: put_at_def)

lemma rx_header:
  assumes "pd_at i s = Some pd" and "pd_status pd \<in> {HTTPD_S_NEW, HTTPD_S_HEADER_RECVING}"
    and "httpd_recv_hdr e h i c (pd_put i (pd\<lparr>pd_status := HTTPD_S_HEADER_RECVING\<rparr>) s) = Some (1, s')"
  shows "httpd_rx e h inst i c s = Some s'"
proof -
  have "(if pd_status pd = HTTPD_S_NEW then pd\<lparr>pd_status := HTTPD_S_HEADER_RECVING\<rparr> else pd) = pd\<lparr>pd_status := HTTPD_S_HEADER_RECVING\<rparr>"
    using assms(2) by (cases pd) auto
  then show ?thesis using assms(1,3) by (simp add: httpd_rx_def Let_def)
qed

lemma feed_header:
  assumes "\<And>c. c \<in> set cs \<Longrightarrow> data_call conn i port c" and "cs \<noteq> []" and "httpd_find_instance port s = Some inst"
    and "pd_at i s = Some pd" and "collecting acc pd" and "pd_status pd \<in> {HTTPD_S_NEW, HTTPD_S_HEADER_RECVING}"
    and ok: "post_ok uri ver f1 n f2 bnd f3" and hdr: "hdr = post_head uri ver (post_fields f1 n f2 bnd f3)"
    and "acc @ concat (map piece cs) = hdr @ CRLF @ CRLF" and fits: "length hdr + 4 < BUFSZ"
    and n: "BUFSZ \<le> length hdr + 4 + n" "length hdr + 4 + n < 2 ^ 32" and "\<not> is_uploading (app s)"
  obtains pd' where "feed e h cs s = Some (up_state i pd' (ram (app s)) True (new_upload h s))" "upload_ready uri bnd 0 n pd pd'"
proof -
  have "\<exists>pd'. feed e h cs s = Some (up_state i pd' (ram (app s)) True (new_upload h s)) \<and> upload_ready uri bnd 0 n pd pd'"
    using assms(1-6,9,13)
  proof (induction cs arbitrary: acc pd s)
    case (Cons c cs)
    note prems = Cons.prems and IH = Cons.IH
    note c = prems(1) [OF list.set_intros(1)]
    let ?pd = "pd\<lparr>pd_status := HTTPD_S_HEADER_RECVING\<rparr>"
    let ?s = "pd_put i ?pd s" and ?all = "acc @ piece c"
    have pd: "pd_at i ?s = Some ?pd" "collecting acc ?pd" using prems(5) by (simp_all add: collecting_def)
    have all: "?all @ concat (map piece cs) = hdr @ CRLF @ CRLF" using prems(7) by simp
    show ?case
    proof (cases cs)
      case Nil
      then have "?all = hdr @ CRLF @ CRLF @ []" using all by simp
      then obtain pd' where "httpd_recv_hdr e h i c ?s = Some (1, up_state i pd' (ram (app s)) True (new_upload h s))" "upload_ready uri bnd 0 n pd pd'"
        using recv_hdr_complete [OF c pd ok hdr, of "[]" e h] fits n prems(8) by (auto simp: upload_ready_def)
      then show ?thesis using rx_header [OF prems(4,6), of e h c _ inst] callback_data [OF c prems(3), of e h] Nil by auto
    next
      case (Cons c' cs')
      have "piece c' \<noteq> []" using prems(1) [of c'] Cons length_piece(3) by auto
      then have more: "concat (map piece cs) \<noteq> []" using Cons by simp
      have o: "0 \<notin> set hdr" "\<forall>j < length hdr. \<not> occurs_at (CRLF @ CRLF) (hdr @ CRLF @ CRLF) j" using ok by (simp_all add: hdr post_ok_def Let_def)
      let ?t = "pd_put i (collected ?all ?pd) ?s"
      have rx: "httpd_rx e h inst i c s = Some ?t"
        by (rule rx_header [OF prems(4,6) recv_hdr_incomplete [OF c pd fits o all more]])
      have len: "length ?all < BUFSZ" using arg_cong [OF all, of length] more fits by simp
      obtain pd' where "feed e h cs ?t = Some (up_state i pd' (ram (app ?t)) True (new_upload h ?t))" "upload_ready uri bnd 0 n (collected ?all ?pd) pd'"
        using IH [of ?t "collected ?all ?pd" ?all] prems(1,3,5,8) all Cons len
        by (auto simp: collecting_collected collecting_def collected_def)
      moreover from this(2) have "upload_ready uri bnd 0 n pd pd'" using pd(2) len by (simp add: upload_ready_def collected_def collecting_def)
      ultimately show ?thesis using rx callback_data [OF c prems(3), of e h] by auto
    qed
  qed simp
  with that show ?thesis by blast
qed

section \<open>Uploads\<close>

text \<open>An upload of \<open>n\<close> bytes to a URI has been received on a new connection.\<close>

definition uploaded :: "bytes \<Rightarrow> bytes \<Rightarrow> nat \<Rightarrow> httpd_tcp_pdata \<Rightarrow> bool" where
  "uploaded uri bnd n pd \<longleftrightarrow> pd_status pd = HTTPD_S_FULL_RCVD \<and> \<not> pd_is_uploading pd \<and>
     pd_upload_ptr pd = Some (Ram, 0) \<and> pd_upload_size pd = of_nat n \<and> pd_payload_size pd = of_nat n \<and> length (pd_buf pd) = BUFSZ \<and>
     (\<exists>xs ys. pd_uri pd = Some (length xs) \<and> pd_buf pd = xs @ uri @ 0 # ys) \<and>
     (\<exists>xs ys. pd_boundary pd = Some (length xs) \<and> pd_buf pd = xs @ bnd @ 0 # ys) \<and>
     pd_request pd = (pd_request zero_pdata)\<lparr>rq_method := HTTP_POST\<rparr> \<and> pd_response pd = pd_response zero_pdata"

lemma collecting_zero: "collecting [] zero_pdata" "pd_status zero_pdata = HTTPD_S_NEW"
  by (simp_all add: collecting_def zero_pdata_def)

lemma upload_received:
  assumes calls: "\<And>c. c \<in> set (cs @ ds) \<Longrightarrow> data_call conn i port c" and inst: "httpd_find_instance port s = Some inst"
    and new: "pd_at i s = Some zero_pdata" "\<not> is_uploading (app s)"
    and hdr: "post_ok uri ver f1 n f2 bnd f3" "hdr = post_head uri ver (post_fields f1 n f2 bnd f3)" "concat (map piece cs) = hdr @ CRLF @ CRLF"
    and body: "concat (map piece ds) = body" "length body = n"
    and room: "length hdr + 4 < BUFSZ" "BUFSZ \<le> length hdr + 4 + n" "length hdr + 4 + n < 2 ^ 32" "n < length (ram (app s))"
  obtains pd where "feed e h (cs @ ds) s =
      httpd_handle_request e h inst i (last ds) (up_state i pd (body @ 0 # drop (Suc n) (ram (app s))) False (new_upload h s))"
    "uploaded uri bnd n pd"
proof -
  have "cs \<noteq> []" using hdr(3) by auto
  then obtain pd where f: "feed e h cs s = Some (up_state i pd (ram (app s)) True (new_upload h s))" and r: "upload_ready uri bnd 0 n zero_pdata pd"
    using feed_header [of cs conn i port s inst zero_pdata "[]" uri ver f1 n f2 bnd f3 hdr e h]
      calls inst new hdr room collecting_zero by auto
  let ?s = "up_state i pd (ram (app s)) True (new_upload h s)"
  have rec: "receiving 0 n pd" using r by (simp add: upload_ready_def)
  have "ds \<noteq> []" using body rec by (auto simp: receiving_def)
  then have "feed e h ds ?s = httpd_handle_request e h inst i (last ds)
    (up_state i (pd\<lparr>pd_upload_size := of_nat n, pd_status := HTTPD_S_FULL_RCVD, pd_is_uploading := False\<rparr>) (body @ 0 # drop (Suc n) (ram (app ?s))) False ?s)"
    using feed_payload [of ds conn i port ?s inst pd 0 n body e h] calls inst rec body room(4) by simp
  moreover have "uploaded uri bnd n (pd\<lparr>pd_upload_size := of_nat n, pd_status := HTTPD_S_FULL_RCVD, pd_is_uploading := False\<rparr>)"
    using r by (simp add: uploaded_def upload_ready_def receiving_def) (simp add: zero_pdata_def)
  ultimately show ?thesis using that f by (simp add: feed_append)
qed

text \<open>
  C5: Uploads. A browser opens a connection and uploads a payload that does not fit the connection's buffer. The header may come in any number of
  segments, and so may the payload behind it, as long as none has the end of the one and the start of the other. The request is
  handled with the last segment; by then exactly the payload is in memory, with a NUL behind it, no other memory has been touched, and the server has found the URI, the boundary and
  the length in the header.
\<close>

theorem httpd_upload_received:
  assumes "\<forall>c \<in> set (cs @ ds). data_call conn i port c" and "httpd_find_instance port s = Some inst"
    and "pd_at i s = Some zero_pdata" and "\<not> is_uploading (app s)"
    and "post_ok uri ver f1 n f2 bnd f3" and "hdr = post_head uri ver (post_fields f1 n f2 bnd f3)"
    and "concat (map piece cs) = hdr @ CRLF @ CRLF" and "concat (map piece ds) = body" and "length body = n"
    and "length hdr + 4 < BUFSZ" and "BUFSZ \<le> length hdr + 4 + n" and "length hdr + 4 + n < 2 ^ 32" and "n < length (ram (app s))"
  shows "\<exists>pd. uploaded uri bnd n pd \<and> feed e h (cs @ ds) s =
    httpd_handle_request e h inst i (last ds) (up_state i pd (body @ 0 # drop (Suc n) (ram (app s))) False (new_upload h s))"
  by (rule upload_received [OF _ assms(2-13)]) (use assms(1) in blast)+

text \<open>A header and a payload of 4096 bytes, in two segments each.\<close>

abbreviation demo_hdr :: bytes where
  "demo_hdr \<equiv> post_head (str ''/upload'') (str ''HTTP/1.1'') (post_fields [] 4096 [] (str ''B'') [])"

lemma no_blank_line:
  assumes "13 \<notin> set a" and "b \<noteq> []" "hd b \<noteq> 13" and "\<forall>j < length b. \<not> occurs_at (CRLF @ CRLF) (b @ CRLF @ CRLF) j"
  shows "\<forall>j < length (a @ CRLF @ b). \<not> occurs_at (CRLF @ CRLF) ((a @ CRLF @ b) @ CRLF @ CRLF) j"
proof (intro allI impI)
  fix j
  assume j: "j < length (a @ CRLF @ b)"
  obtain y ys where b: "b = y # ys" "y \<noteq> 13" using assms(2,3) by (cases b) auto
  let ?t = "(a @ CRLF @ b) @ CRLF @ CRLF"
  consider "j < length a" | "j = length a" | "j = Suc (length a)" | k where "j = length (a @ CRLF) + k" "k < length b"
  proof (cases "j < length a + 2")
    case True
    with that show ?thesis by linarith
  next
    case False
    then obtain k where "j = length (a @ CRLF) + k" using le_Suc_ex [of "length (a @ CRLF)" j] by auto
    with j that(4) [of k] show ?thesis by simp
  qed
  then show "\<not> occurs_at (CRLF @ CRLF) ?t j"
  proof cases
    case 1
    then show ?thesis using occurs_at_absent [of j a 13 "[10, 13, 10]" "CRLF @ b @ CRLF @ CRLF"] assms(1) by simp
  next
    case 4
    then show ?thesis using occurs_at_inner [of k "CRLF @ CRLF" "b @ CRLF @ CRLF" "a @ CRLF" "[]"] assms(4) by simp
  qed (simp_all add: occurs_at_def b)
qed

lemma decimal_4096: "decimal 4096 = ''4096''"
  by code_simp

lemma demo_hdr: "post_ok (str ''/upload'') (str ''HTTP/1.1'') [] 4096 [] (str ''B'') []" "length demo_hdr = 90"
proof -
  let ?l = "str ''Content-Length:'' @ 32 # str (decimal 4096)" and ?b = "str ''Content-Type:'' @ str '' multipart/form-data; '' @ str ''boundary='' @ str ''B''"
    and ?r = "str ''POST'' @ 32 # str ''/upload'' @ 32 # str ''HTTP/1.1''"
  have f: "post_fields [] 4096 [] (str ''B'') [] = ?l @ CRLF @ ?b" "demo_hdr = ?r @ CRLF @ ?l @ CRLF @ ?b" by (simp_all add: post_fields_def post_head_def)
  have b: "\<not> occurs_at (CRLF @ CRLF) (?b @ CRLF @ CRLF) j" if "j < length ?b" for j
    using occurs_at_absent [of j ?b 13 "[10, 13, 10]" "CRLF @ CRLF"] that by (simp add: str_def)
  have l: "\<forall>j < length (?l @ CRLF @ ?b). \<not> occurs_at (CRLF @ CRLF) ((?l @ CRLF @ ?b) @ CRLF @ CRLF) j"
    by (rule no_blank_line) (use b in \<open>simp_all add: decimal_4096 str_def\<close>)
  have h: "\<forall>j < length demo_hdr. \<not> occurs_at (CRLF @ CRLF) (demo_hdr @ CRLF @ CRLF) j"
    unfolding f(2) by (rule no_blank_line) (use l in \<open>simp_all add: str_def\<close>)
  have t: "\<not> occurs_at (str ''Content-Type:'') (?l @ CRLF @ ?b) j" if "j < length (?l @ CRLF)" for j
  proof (cases j)
    case 0
    then show ?thesis by (simp add: occurs_at_def str_def)
  next
    case (Suc k)
    then show ?thesis
      using occurs_at_absent [of k "tl (?l @ CRLF)" 67 "tl (str ''Content-Type:'')" ?b] that by (simp add: occurs_at_def decimal_4096 str_def)
  qed
  have z: "0 \<notin> set demo_hdr" unfolding f(2) by (simp add: decimal_4096 str_def)
  show "post_ok (str ''/upload'') (str ''HTTP/1.1'') [] 4096 [] (str ''B'') []"
    unfolding post_ok_def Let_def using z h t f(1) by (simp add: str_def)
  show "length demo_hdr = 90" unfolding f(2) by (simp add: decimal_4096)
qed


lemma demo_piece: "piece (demo_call d) = d" if "length d < 2 ^ 32"
  using that by (simp add: piece_def unat_of_nat)

lemma demo_call_ok: "data_call 0 0 80 (demo_call d)" if "d \<noteq> []" "length d < 2 ^ 32"
proof -
  have "unat (of_nat (length d) :: u32) = length d" using that(2) by (simp add: unat_of_nat)
  moreover from this have "(of_nat (length d) :: u32) \<noteq> 0" using that(1) by (metis length_0_conv unat_0)
  ultimately show ?thesis by (simp add: data_call_def demo_port)
qed

theorem httpd_upload_received_witness:
  "let s = on_app (\<lambda>a. a\<lparr>is_uploading := False\<rparr>) (demo_httpd [] zero_pdata (replicate 5000 9) ()); inst = \<lparr>i_port = 80, i_uri_handlers = []\<rparr>;
       cs = [demo_call (take 50 demo_hdr), demo_call (drop 50 demo_hdr @ CRLF @ CRLF)]; ds = [demo_call (replicate 1000 1), demo_call (replicate 3096 2)] in
   \<exists>pd. uploaded (str ''/upload'') (str ''B'') 4096 pd \<and> feed null_env null_httpd (cs @ ds) s = httpd_handle_request null_env null_httpd inst 0 (last ds)
     (up_state 0 pd ((replicate 1000 1 @ replicate 3096 2) @ 0 # drop (Suc 4096) (replicate 5000 9)) False (new_upload null_httpd s))"
proof -
  let ?inst = "\<lparr>i_port = 80, i_uri_handlers = []\<rparr>" and ?cs = "[demo_call (take 50 demo_hdr), demo_call (drop 50 demo_hdr @ CRLF @ CRLF)]"
  have "\<exists>pd. uploaded (str ''/upload'') (str ''B'') 4096 pd \<and> feed null_env null_httpd (?cs @ [demo_call x, demo_call y]) s =
      httpd_handle_request null_env null_httpd ?inst 0 (last [demo_call x, demo_call y]) (up_state 0 pd ((x @ y) @ 0 # drop (Suc 4096) (ram (app s))) False (new_upload null_httpd s))"
    if len: "length x = 1000" "length y = 3096" "4096 < length (ram (app s))"
      and s: "pd_at 0 s = Some zero_pdata" "httpd_find_instance 80 s = Some ?inst" "\<not> is_uploading (app s)" for x y s
  proof (rule httpd_upload_received [OF _ s(2,1,3) demo_hdr(1) refl])
    have "data_call 0 0 80 (demo_call (take 50 demo_hdr))" "data_call 0 0 80 (demo_call (drop 50 demo_hdr @ CRLF @ CRLF))"
      "data_call 0 0 80 (demo_call x)" "data_call 0 0 80 (demo_call y)"
      by (rule demo_call_ok; use len demo_hdr(2) in force)+
    then show "\<forall>c \<in> set (?cs @ [demo_call x, demo_call y]). data_call 0 0 80 c"
      by (simp only: append.simps list.set ball_simps simp_thms)
    have p: "piece (demo_call (take 50 demo_hdr)) = take 50 demo_hdr" "piece (demo_call (drop 50 demo_hdr @ CRLF @ CRLF)) = drop 50 demo_hdr @ CRLF @ CRLF"
      "piece (demo_call x) = x" "piece (demo_call y) = y" by (rule demo_piece; use len demo_hdr(2) in simp)+
    show "concat (map piece ?cs) = demo_hdr @ CRLF @ CRLF" by (simp only: list.map p concat.simps append_Nil2) (metis append.assoc append_take_drop_id)
    show "concat (map piece [demo_call x, demo_call y]) = x @ y" by (simp only: list.map p concat.simps append_Nil2)
  qed (use len demo_hdr(2) in simp_all)
  note * = this [of "replicate 1000 1" "replicate 3096 2" "on_app (\<lambda>a. a\<lparr>is_uploading := False\<rparr>) (demo_httpd [] zero_pdata (replicate 5000 9) ())"]
  show ?thesis unfolding Let_def
    using * by (simp add: httpd_find_instance_def demo_httpd_def demo_net_def pd_at_def on_app_def)
qed




section \<open>Requests without a payload\<close>

definition get_head :: "bytes \<Rightarrow> bytes \<Rightarrow> bytes \<Rightarrow> bytes" where
  "get_head uri ver flds = str ''GET'' @ 32 # uri @ 32 # ver @ CRLF @ flds"

definition get_ok :: "bytes \<Rightarrow> bytes \<Rightarrow> bytes \<Rightarrow> bool" where
  "get_ok uri ver flds \<longleftrightarrow> 0 \<notin> set (get_head uri ver flds) \<and> {13, 32, 63} \<inter> set uri = {} \<and> 13 \<notin> set ver \<and>
     (\<forall>j < length (get_head uri ver flds). \<not> occurs_at (CRLF @ CRLF) (get_head uri ver flds @ CRLF @ CRLF) j)"

definition requested :: "bytes \<Rightarrow> httpd_tcp_pdata \<Rightarrow> httpd_tcp_pdata \<Rightarrow> bool" where
  "requested uri pd pd' \<longleftrightarrow> pd_status pd' = HTTPD_S_FULL_RCVD \<and> length (pd_buf pd') = BUFSZ \<and>
     (\<exists>xs ys. pd_uri pd' = Some (length xs) \<and> pd_buf pd' = xs @ uri @ 0 # ys) \<and>
     pd_request pd' = (pd_request pd)\<lparr>rq_method := HTTP_GET\<rparr> \<and> pd_response pd' = pd_response pd"

lemma recv_hdr_get:
  assumes c: "data_call conn i port c" and pd: "pd_at i s = Some pd" "collecting acc pd" and ok: "get_ok uri ver flds"
    and split: "acc @ piece c = get_head uri ver flds @ CRLF @ CRLF" and fits: "length (get_head uri ver flds) + 4 < BUFSZ"
  obtains pd' where "httpd_recv_hdr e h i c s = Some (0, pd_put i pd' s)" "requested uri pd pd'"
proof -
  let ?hdr = "get_head uri ver flds"
  obtain zs where z: "httpd_recv_hdr e h i c s = recv_hdr_parse e h i c (cbd_datalen c) (of_nat (length ?hdr + 4))
      (pd\<lparr>pd_buf := ?hdr @ 0 # 10 # 13 # 10 # [] @ zs, pd_bufsize := of_nat (length ?hdr + 4 + length ([] :: bytes))\<rparr>) s"
    "length (?hdr @ 0 # 10 # 13 # 10 # [] @ zs) = BUFSZ"
    by (rule recv_hdr_found [OF c pd, of ?hdr "[]"]) (use ok split fits in \<open>simp_all add: get_ok_def\<close>)
  let ?buf = "(str ''GET'' @ [0]) @ uri @ 0 # ver @ 0 # 10 # flds @ 0 # 10 # 13 # 10 # zs"
  have "parse_request_line (?hdr @ 0 # 10 # 13 # 10 # zs) = Some (Inr (HTTP_GET, 4, 7 + length uri + length ver), ?buf)"
    using parse_line [of "''GET''" uri ver flds "10 # 13 # 10 # zs"] ok by (auto simp: get_ok_def get_head_def)
  then have "httpd_recv_hdr e h i c s = Some (0, pd_put i (pd\<lparr>pd_bufsize := of_nat (length ?hdr + 4), pd_buf := ?buf, pd_uri := Some 4,
      pd_status := HTTPD_S_FULL_RCVD, pd_request := (pd_request pd)\<lparr>rq_method := HTTP_GET\<rparr>\<rparr>) s)"
    unfolding z(1) by (simp add: recv_hdr_parse_def Let_def)
  moreover have "requested uri pd (pd\<lparr>pd_bufsize := of_nat (length ?hdr + 4), pd_buf := ?buf, pd_uri := Some 4,
      pd_status := HTTPD_S_FULL_RCVD, pd_request := (pd_request pd)\<lparr>rq_method := HTTP_GET\<rparr>\<rparr>)"
    unfolding requested_def using z(2) by (intro conjI exI [of _ "str ''GET'' @ [0]"] exI [of _ "ver @ 0 # 10 # flds @ 0 # 10 # 13 # 10 # zs"]) (simp_all add: get_head_def)
  ultimately show ?thesis by (rule that)
qed

lemma feed_get:
  assumes "\<And>c. c \<in> set cs \<Longrightarrow> data_call conn i port c" and "cs \<noteq> []" and "httpd_find_instance port s = Some inst"
    and "pd_at i s = Some pd" and "collecting acc pd" and "pd_status pd \<in> {HTTPD_S_NEW, HTTPD_S_HEADER_RECVING}"
    and ok: "get_ok uri ver flds" and "acc @ concat (map piece cs) = get_head uri ver flds @ CRLF @ CRLF" and fits: "length (get_head uri ver flds) + 4 < BUFSZ"
  obtains pd' where "feed e h cs s = httpd_handle_request e h inst i (last cs) (pd_put i pd' s)" "requested uri pd pd'"
proof -
  have "\<exists>pd'. feed e h cs s = httpd_handle_request e h inst i (last cs) (pd_put i pd' s) \<and> requested uri pd pd'"
    using assms(1-6,8)
  proof (induction cs arbitrary: acc pd s)
    case (Cons c cs)
    note prems = Cons.prems and IH = Cons.IH
    note c = prems(1) [OF list.set_intros(1)]
    let ?pd = "pd\<lparr>pd_status := HTTPD_S_HEADER_RECVING\<rparr>"
    let ?s = "pd_put i ?pd s" and ?all = "acc @ piece c"
    have pd: "pd_at i ?s = Some ?pd" "collecting acc ?pd" using prems(5) by (simp_all add: collecting_def)
    have all: "?all @ concat (map piece cs) = get_head uri ver flds @ CRLF @ CRLF" using prems(7) by simp
    show ?case
    proof (cases cs)
      case Nil
      then have "?all = get_head uri ver flds @ CRLF @ CRLF" using all by simp
      then obtain pd' where r: "httpd_recv_hdr e h i c ?s = Some (0, pd_put i pd' ?s)" "requested uri ?pd pd'"
        by (rule recv_hdr_get [OF c pd ok _ fits])
      have "(if pd_status pd = HTTPD_S_NEW then ?pd else pd) = ?pd" using prems(6) by (cases pd) auto
      then have "httpd_rx e h inst i c s = httpd_handle_request e h inst i c (pd_put i pd' ?s)"
        using prems(4) r by (simp add: httpd_rx_def Let_def requested_def)
      moreover have "pd_put i pd' ?s = pd_put i pd' s" by (simp add: pd_put_def on_app_def)
      moreover have "requested uri pd pd'" using r(2) by (simp add: requested_def)
      ultimately show ?thesis using callback_data [OF c prems(3), of e h] Nil by auto
    next
      case (Cons c' cs')
      have "piece c' \<noteq> []" using prems(1) [of c'] Cons length_piece(3) by auto
      then have more: "concat (map piece cs) \<noteq> []" using Cons by simp
      have o: "0 \<notin> set (get_head uri ver flds)" "\<forall>j < length (get_head uri ver flds). \<not> occurs_at (CRLF @ CRLF) (get_head uri ver flds @ CRLF @ CRLF) j"
        using ok by (simp_all add: get_ok_def)
      let ?t = "pd_put i (collected ?all ?pd) ?s"
      have rx: "httpd_rx e h inst i c s = Some ?t"
        by (rule rx_header [OF prems(4,6) recv_hdr_incomplete [OF c pd fits o all more]])
      have len: "length ?all < BUFSZ" using arg_cong [OF all, of length] more fits by simp
      obtain pd' where "feed e h cs ?t = httpd_handle_request e h inst i (last cs) (pd_put i pd' ?t)" "requested uri (collected ?all ?pd) pd'"
        using IH [of ?t "collected ?all ?pd" ?all] prems(1,3,5) all Cons len
        by (auto simp: collecting_collected collecting_def collected_def)
      moreover have "pd_put i pd' ?t = pd_put i pd' s" for pd' by (simp add: pd_put_def on_app_def)
      moreover have "requested uri pd pd'" if "requested uri (collected ?all ?pd) pd'" for pd' using that by (simp add: requested_def collected_def)
      ultimately show ?thesis using rx callback_data [OF c prems(3), of e h] Cons by auto
    qed
  qed simp
  with that show ?thesis by blast
qed

end
