(* ===== verification/Spec2Isabelle.thy ===== *)
theory Spec2Isabelle
  imports Cmd_At Env_Nmbm Failsafe_Run Httpd_Form Httpd_Header Tcp_Run Tcp_Wire
begin

text \<open>
  \<^bold>\<open>A verification of the NWA50AX boot loader: from the flash chip and the network to the running firmware\<close>

  The repository is the GPL release of an access point's firmware: an OpenWrt tree and a U-Boot
  (\<^verbatim>\<open>src/u-boot-mips-mt7621\<close>) for boards with an MT7621 and a raw NAND chip. The code of its own that
  everything else relies on is the path between the chip and the running firmware, and the recovery
  over the network, which puts a new firmware on that path. Both are modelled here. All file names below are relative to \<^verbatim>\<open>src/u-boot-mips-mt7621\<close>.

  \<^bold>\<open>The parts and how they interact\<close>

  \<^item> NMBM (\<^verbatim>\<open>drivers/mtd/nmbm/nmbm-core.c\<close>) turns a chip with bad blocks into a logical device. It
    keeps a two-bit state for every physical block and a mapping from logical to physical blocks,
    both saved in two info tables at the end of the chip together with a signature block.
  \<^item> \<^verbatim>\<open>drivers/mtd/nmbm/nmbm-mtd.c\<close> attaches NMBM to a raw MTD device below and offers an MTD device
    above; both sides go through the MTD core (\<^verbatim>\<open>drivers/mtd/mtdcore.c\<close>).
  \<^item> The board (\<^verbatim>\<open>board/ralink/mt7621_nand_rfb/mt7621_nand_rfb.c\<close>) creates the device and wraps it in
    four flash functions (\<^verbatim>\<open>board/ralink/common/flash_helper.h\<close>).
  \<^item> On these stand the dual image check (\<^verbatim>\<open>dual_image.c\<close>), the upgrades (\<^verbatim>\<open>cmd_mtkupgrade.c\<close>,
    \<^verbatim>\<open>spl_helper_nand.c\<close>), partition access, manufacturer data and the boot configuration
    (\<^verbatim>\<open>zyxel_util.c\<close>), the board's commands (\<^verbatim>\<open>cmd_at.c\<close>, all in \<^verbatim>\<open>board/ralink/common\<close>), the \<^verbatim>\<open>nmbm\<close>
    command (\<^verbatim>\<open>cmd/nmbm.c\<close>) and the environment (\<^verbatim>\<open>env/nmbm.c\<close>).
  \<^item> The web failsafe (\<^verbatim>\<open>failsafe/failsafe.c\<close>) takes a firmware from a browser and writes it with the
    upgrade code. It is a set of URI handlers of an HTTP server (\<^verbatim>\<open>net/httpd.c\<close>), which is a client of a
    TCP stack (\<^verbatim>\<open>net/tcp.c\<close>) through one callback; \<^verbatim>\<open>net_loop\<close> hands packets to the stack and calls its timers.

  \<^bold>\<open>How the code is modelled\<close>

  \<^item> A C function is a HOL function of the same name that takes the state it works on and returns it
    updated. Its result is an \<^typ>\<open>'a option\<close>: \<open>Some\<close> for a normal return, with the error codes the code
    returns, and \<open>None\<close> for something C gives no meaning to (an access outside a buffer, a NULL
    pointer) or a loop that does not end.
  \<^item> Machine integers are words of their width; \<^verbatim>\<open>size_t\<close> has 32 bits, \<^verbatim>\<open>loff_t\<close> and \<^verbatim>\<open>uint64_t\<close> 64.
    Addition and multiplication wrap as in C. Signed values are read through \<^const>\<open>sint\<close>.
  \<^item> A loop whose end is not evident from its structure is \<open>loop body\<close>, a \<^theory_text>\<open>partial_function\<close> of the
    option monad: not ending is \<open>None\<close>. There is no fuel. That a loop ends is proved with a measure
    (\<open>loop_rule\<close>), always for every state the invariant allows, and usually whatever the chip answers.
  \<^item> \<open>returns m Q\<close> is total correctness: the computation ends, does not fault, and its result satisfies
    \<open>Q\<close>.
  \<^item> Code outside the model is an argument: the driver of the raw chip (\<open>nmbm_lower_device\<close>,
    \<open>nand_mtd\<close>), the FIT library (\<open>fit_ops\<close>), the partition table (\<open>part_table\<close>), \<^verbatim>\<open>malloc\<close>, the timer and
    \<^verbatim>\<open>rand\<close>, MD5, the files embedded in the boot loader, answers on the console, configuration options.
  \<^item> The objects the network code keeps pointers to (connections, their private data, blocks of the heap)
    are maps from addresses; a use of a freed one is \<open>None\<close>. The stack, the server and the handlers share one
    state (\<open>net\<close>), whose member \<open>app\<close> is the state of the server, and its member \<open>ext\<close> the one of the handlers. A call
    through a function pointer is an argument (\<open>tcp_env\<close>, \<open>httpd_env\<close>) that the next layer instantiates.

  \<^bold>\<open>The theories\<close>

  \<^item> \<open>Prelude\<close>: words, buffers, the option monad, loops, little-endian fields (contract \<open>le_codec\<close>).
  \<^item> \<open>Crc32\<close>: \<^verbatim>\<open>lib/crc32.c\<close>, equal to the bitwise definition. \<open>Strto\<close>: \<^verbatim>\<open>lib/strto.c\<close>, inverse to
    printing. \<open>Uimage\<close>: legacy image headers and checksums (\<^verbatim>\<open>common/image.c\<close>). \<open>Mtd_Parts\<close>: partitions by
    name.
  \<^item> \<open>Nmbm_Types\<close>: the instance (\<open>nmbm_instance\<close> for \<^verbatim>\<open>struct nmbm_instance\<close>) and the structures on
    flash with their byte images. \<open>Nand_Sim\<close>: a small chip that the witnesses run on.
  \<^item> \<open>Nmbm_Phys\<close>: page and block access with retries. \<open>Nmbm_State\<close>: block states, walks over good
    blocks, the bad block scan, the mapping table. \<open>Nmbm_Mgmt\<close>: writing, rebuilding and updating the
    management area. \<open>Nmbm_Update\<close>: updating it ends. \<open>Nmbm_Attach\<close>: creating, finding, checking and
    loading it, and attaching. \<open>Nmbm_Logic\<close> and \<open>Nmbm_Device\<close>: the operations on logical blocks and
    their invariant.
  \<^item> \<open>Nmbm_Image\<close>: NMBM on a chip that works (contract \<open>reliable_chip\<close>) as a flat array of bytes.
  \<^item> \<open>Mtd_Core\<close>, \<open>Nmbm_Mtd\<close>, \<open>Flash_Helper\<close>: the MTD calls, NMBM as an MTD device, the board's flash
    functions with the contract \<open>flash\<close> (every call returns, whatever the chip does).
  \<^item> \<open>Board_Image\<close>: the contracts \<open>reliable_nand\<close> (the raw chip works) and \<open>storage\<close> (a flash that keeps
    its contents); the first gives the second for the board's functions, through all layers.
  \<^item> \<open>Dual_Image\<close>, \<open>Stage2\<close>, \<open>Mtk_Upgrade\<close>, \<open>Flash_Part\<close>, \<open>Nmbm_Cmd\<close>, \<open>Boot_Config\<close>, \<open>Cmd_At\<close>,
    \<open>Env_Nmbm\<close>: the code above, one theory a part.
  \<^item> \<open>Cstr\<close>: strings in buffers (\<^verbatim>\<open>lib/string.c\<close>). \<open>Inet\<close>: network byte order, the Internet checksum, headers
    (\<^verbatim>\<open>net/checksum.c\<close>, \<^verbatim>\<open>net/net.c\<close>).
  \<^item> \<open>Tcp\<close>: the stack. \<open>Tcp_Wire\<close>: its packets. \<open>Tcp_Conn\<close>: its invariant, and what reaches the application, for
    every client that keeps to the interface (contract \<open>tcp_client\<close>). \<open>Tcp_Run\<close>: the properties.
  \<^item> \<open>Httpd\<close>: the server. \<open>Httpd_Client\<close>: it is such a client when its URI handlers behave (contract
    \<open>uri_handlers\<close>, which gives \<open>tcp_client\<close>). \<open>Httpd_Header\<close>, \<open>Httpd_Upload\<close>, \<open>Httpd_Form\<close>: headers, payloads, forms.
  \<^item> \<open>Failsafe\<close>: the handlers and the command. \<open>Failsafe_Run\<close>: the handlers satisfy \<open>uri_handlers\<close>.

  \<^bold>\<open>What is shown\<close>

  \<^item> Whatever the chip does: the invariant of an attached instance (\<open>attached\<close>) survives every
    sequence of calls; reads, writes, erasures, updates of the info tables and copies of images end,
    stay inside their buffers and report what they did; a failed erasure remaps the block or leaves
    it unmapped.
  \<^item> The management area: what is generated from an instance passes the checks of the loader, the last one exactly when
    the mapping keeps clear of the management blocks, and gives the instance back;
    damaged headers are found; blocks are reserved, scanned and mapped as meant.
  \<^item> On a chip that works: reading refines reading an array, writing and reading back returns the
    data, other blocks keep theirs. The contract \<open>storage\<close> carries this through the MTD core and the
    board's functions to the code above, whose properties are stated over bytes of the device: a
    damaged image is restored, and what lies outside its partition changes in the block of the end marker only, if anywhere; an upgrade
    installs the file and has the backup replaced; a bootloader with both stages is installed as a whole; a part of a partition is
    updated without touching the rest of its blocks; the MAC address is six bytes; the boot
    configuration survives a reboot; every new image is tried exactly once; a boot loads the bytes of
    the image that the configuration names.
  \<^item> Parsers and checksums: the table-driven CRC-32 equals the bitwise one; numbers in command lines
    are read as they are printed; the search for a second stage ends for every alignment and finds the
    first one.
  \<^item> The network: a segment that is sent is read back as it was sent, and damage to it is found; for any
    packets the state of the stack stays well-formed; a peer's stream reaches the server in order, each byte
    once; an upload is collected in memory whatever pieces it comes in, and the values of its form are found.
  \<^item> Where the code does not do what it means to, the theorem states what it does: a spare block given
    out twice, a TCP option on which the boot loader hangs, the start of an upload that is stored twice, an uncorrectable page that is reported as read, a read through a NULL \<^verbatim>\<open>instr.mtd\<close> after
    a successful erasure, the environment accessed with a NULL length pointer.

  Properties about what the board's flash functions leave on the flash hold for \<open>build \<noteq> Partitions\<close> (\<open>mtd_build\<close> in \<open>Mtd_Core\<close>), and say
  so: in a build with \<^verbatim>\<open>CONFIG_MTD_PARTITIONS\<close>, as the configurations of the MT7621 boards are, \<^verbatim>\<open>mtk_board_flash_erase\<close> makes the MTD core read
  through NULL after every erasure, and in C nothing can be said about what follows; this is the build \<open>Partitions\<close>, and the
  property about \<^verbatim>\<open>instr.mtd\<close> is the one that holds for it. On a machine on which that load goes through, its value is only compared; this is
  \<open>Partitions_null_readable\<close>, which behaves like a build without partitions (\<open>null_readable_builds\<close>). The \<^verbatim>\<open>nmbm\<close> command and the code
  above it fill the member in and are covered for every build.

  \<^bold>\<open>Bounds\<close>

  Geometries are arbitrary: pages and blocks are powers of two, a chip has at most \<open>2\<^sup>3\<^sup>1\<close> blocks
  (the code keeps block numbers in \<^verbatim>\<open>int32_t\<close>). Image searches are bounded by 2 GiB, since the code steps
  32-bit offsets. The witnesses run on a chip of 32 blocks with two pages of 64 bytes each.

  \<^bold>\<open>Not modelled\<close>

  \<^item> Log and debug output of NMBM and the commands that only print.
  \<^item> The NAND driver, the FIT library, \<^verbatim>\<open>cmd/mtdparts.c\<close>, the environment's format, MD5, ARP and the other
    protocols, the network driver, the console and \<^verbatim>\<open>bootm\<close>: general U-Boot or hardware access. The models take their answers as arguments.
  \<^item> The SPL (\<^verbatim>\<open>board/ralink/common/spl.c\<close>) and NOR boards.
  \<^item> The OpenWrt tree: build recipes, kernel patches and vendored packages.
\<close>

end
